(* ===== verification/Pulsar_Prelude.thy ===== *)
theory Pulsar_Prelude
  imports Main "HOL-Library.Word" "HOL-Library.Code_Target_Nat"
begin

text \<open>
  Shared vocabulary of the development: the machine integers of the source as words, byte
  strings, Rust's big-endian conversions, the arithmetic helpers of \<^verbatim>\<open>u32\<close> counters kept as
  natural numbers, and the list and XOR lemmas every component uses.
\<close>

unbundle bit_operations_syntax

named_theorems media_defs \<open>definitions of the media framing, unfolded by its proofs\<close>
named_theorems ctrl_defs \<open>record-level helpers of the adaptive controller\<close>

type_synonym u8 = "8 word"
type_synonym u16 = "16 word"
type_synonym u32 = "32 word"
type_synonym u64 = "64 word"
type_synonym bytes = "u8 list"

text \<open>The loss-recovery encode mode (\<^verbatim>\<open>service/wire.rs\<close>), shared by the controller and the wire types.\<close>

datatype loss_recovery = RecNormal | ShortGop | IntraRefresh

subsection \<open>Big-endian byte conversions\<close>

definition to_be_bytes16 :: "u16 \<Rightarrow> bytes" where
  "to_be_bytes16 w = [ucast (drop_bit 8 w), ucast w]"

definition from_be_bytes16 :: "u8 \<Rightarrow> u8 \<Rightarrow> u16" where
  "from_be_bytes16 a b = push_bit 8 (ucast a) OR ucast b"

definition to_be_bytes32 :: "u32 \<Rightarrow> bytes" where
  "to_be_bytes32 w =
     [ucast (drop_bit 24 w), ucast (drop_bit 16 w), ucast (drop_bit 8 w), ucast w]"

definition from_be_bytes32 :: "u8 \<Rightarrow> u8 \<Rightarrow> u8 \<Rightarrow> u8 \<Rightarrow> u32" where
  "from_be_bytes32 a b c d =
     push_bit 24 (ucast a) OR push_bit 16 (ucast b) OR push_bit 8 (ucast c) OR ucast d"

definition to_be_bytes64 :: "u64 \<Rightarrow> bytes" where
  "to_be_bytes64 w = to_be_bytes32 (ucast (drop_bit 32 w)) @ to_be_bytes32 (ucast w)"

lemma length_to_be_bytes [simp]:
  "length (to_be_bytes16 w) = 2" "length (to_be_bytes32 x) = 4" "length (to_be_bytes64 y) = 8"
  by (simp_all add: to_be_bytes16_def to_be_bytes32_def to_be_bytes64_def)

lemma to_be_bytes16_nth [simp]:
  "to_be_bytes16 w ! 0 = ucast (drop_bit 8 w)" "to_be_bytes16 w ! Suc 0 = ucast w"
  by (simp_all add: to_be_bytes16_def)

lemma from_to_be_bytes16 [simp]: "from_be_bytes16 (ucast (drop_bit 8 w)) (ucast w) = w"
  by (rule bit_word_eqI)
    (auto simp: from_be_bytes16_def bit_simps not_less less_Suc_eq_le dest: bit_imp_le_length)

lemma from_to_be_bytes32:
  "from_be_bytes32 (ucast (drop_bit 24 w)) (ucast (drop_bit 16 w)) (ucast (drop_bit 8 w)) (ucast w) = w"
proof (rule bit_word_eqI)
  fix n assume n: "n < LENGTH(32)"
  consider "n < 8" | "8 \<le> n" "n < 16" | "16 \<le> n" "n < 24" | "24 \<le> n" by linarith
  then show "bit (from_be_bytes32 (ucast (drop_bit 24 w)) (ucast (drop_bit 16 w))
      (ucast (drop_bit 8 w)) (ucast w)) n \<longleftrightarrow> bit w n"
    using n by cases (auto simp: from_be_bytes32_def bit_simps)
qed

lemma to_be_bytes32_inj:
  assumes "to_be_bytes32 x = to_be_bytes32 y"
  shows "x = y"
proof -
  have "x = from_be_bytes32 (ucast (drop_bit 24 x)) (ucast (drop_bit 16 x)) (ucast (drop_bit 8 x)) (ucast x)"
    by (rule from_to_be_bytes32 [symmetric])
  also have "\<dots> = from_be_bytes32 (ucast (drop_bit 24 y)) (ucast (drop_bit 16 y)) (ucast (drop_bit 8 y)) (ucast y)"
    using assms unfolding to_be_bytes32_def list.inject by simp
  also have "\<dots> = y" by (rule from_to_be_bytes32)
  finally show ?thesis .
qed

lemma to_be_bytes64_inj: "to_be_bytes64 x = to_be_bytes64 y \<Longrightarrow> x = y"
proof -
  assume eq: "to_be_bytes64 x = to_be_bytes64 y"
  then have "(ucast (drop_bit 32 x) :: u32) = ucast (drop_bit 32 y)" "(ucast x :: u32) = ucast y"
    by (auto simp: to_be_bytes64_def dest: to_be_bytes32_inj)
  then have b: "bit (ucast (drop_bit 32 x) :: u32) n = bit (ucast (drop_bit 32 y) :: u32) n"
    "bit (ucast x :: u32) n = bit (ucast y :: u32) n" for n
    by simp_all
  show "x = y"
  proof (rule bit_word_eqI)
    fix n assume "n < LENGTH(64)"
    then show "bit x n \<longleftrightarrow> bit y n"
      using b(1) [of "n - 32"] b(2) [of n] by (cases "n < 32") (auto simp: bit_simps)
  qed
qed

subsection \<open>\<^verbatim>\<open>u32\<close> counters as natural numbers\<close>

text \<open>
  The controller's \<^verbatim>\<open>u32\<close> fields are natural numbers below \<open>2 ^ 32\<close>; plain \<^verbatim>\<open>+\<close> and \<^verbatim>\<open>*\<close> wrap
  in a release build, \<^verbatim>\<open>saturating_add\<close> and \<^verbatim>\<open>saturating_sub\<close> stop at the bounds.
\<close>

definition u32_max :: nat where "u32_max = 4294967295"

definition u32_add :: "nat \<Rightarrow> nat \<Rightarrow> nat" where
  "u32_add a b = (a + b) mod 4294967296"

definition u32_mul :: "nat \<Rightarrow> nat \<Rightarrow> nat" where
  "u32_mul a b = (a * b) mod 4294967296"

definition saturating_add :: "nat \<Rightarrow> nat \<Rightarrow> nat" where
  "saturating_add a b = min (a + b) u32_max"

definition saturating_sub :: "nat \<Rightarrow> nat \<Rightarrow> nat" where
  "saturating_sub a b = a - b"

definition clamp :: "'a::linorder \<Rightarrow> 'a \<Rightarrow> 'a \<Rightarrow> 'a" where
  "clamp lo hi x = (if x < lo then lo else if hi < x then hi else x)"

lemma clamp_bounds [simp]: "lo \<le> hi \<Longrightarrow> lo \<le> clamp lo hi x" "lo \<le> hi \<Longrightarrow> clamp lo hi x \<le> hi"
  by (auto simp: clamp_def)

lemma clamp_id: "lo \<le> x \<Longrightarrow> x \<le> hi \<Longrightarrow> clamp lo hi x = x"
  by (auto simp: clamp_def)

lemma clamp_mono: "lo \<le> hi \<Longrightarrow> x \<le> y \<Longrightarrow> clamp lo hi x \<le> clamp lo hi y"
  by (auto simp: clamp_def)

lemma u32_add_small: "a + b < 4294967296 \<Longrightarrow> u32_add a b = a + b"
  by (simp add: u32_add_def)

lemma u32_mul_small: "a * b < 4294967296 \<Longrightarrow> u32_mul a b = a * b"
  by (simp add: u32_mul_def)

lemma u32_mul_le: "u32_mul a b \<le> a * b"
  by (simp add: u32_mul_def)

subsection \<open>Searching a list\<close>

text \<open>Rust's \<^verbatim>\<open>iter().position(p)\<close>: the index of the first element satisfying the predicate.\<close>

fun position :: "('a \<Rightarrow> bool) \<Rightarrow> 'a list \<Rightarrow> nat option" where
  "position P [] = None"
| "position P (x # xs) = (if P x then Some 0 else map_option Suc (position P xs))"

lemma position_Some:
  "position P xs = Some i \<longleftrightarrow> i < length xs \<and> P (xs ! i) \<and> (\<forall>j < i. \<not> P (xs ! j))"
  by (induction xs arbitrary: i) (auto simp: nth_Cons less_Suc_eq_0_disj split: nat.splits)

lemma position_None: "position P xs = None \<longleftrightarrow> (\<forall>x \<in> set xs. \<not> P x)"
  by (induction xs) auto

subsection \<open>XOR over byte strings\<close>

text \<open>\<open>xor_into dst src\<close> is Rust's loop over \<^verbatim>\<open>dst.iter_mut().zip(src.iter())\<close> with \<^verbatim>\<open>*dst ^= *src\<close>.\<close>

fun xor_into :: "bytes \<Rightarrow> bytes \<Rightarrow> bytes" where
  "xor_into (d # ds) (s # ss) = (d XOR s) # xor_into ds ss"
| "xor_into ds _ = ds"

definition byte_at :: "bytes \<Rightarrow> nat \<Rightarrow> u8" where
  "byte_at xs i = (if i < length xs then xs ! i else 0)"

lemma length_xor_into [simp]: "length (xor_into ds ss) = length ds"
  by (induction ds ss rule: xor_into.induct) auto

lemma nth_xor_into: "i < length ds \<Longrightarrow> xor_into ds ss ! i = ds ! i XOR byte_at ss i"
  by (induction ds ss arbitrary: i rule: xor_into.induct) (auto simp: byte_at_def nth_Cons split: nat.splits)

interpretation xor8: comm_monoid_set "(XOR)" "0::u8"
  by unfold_locales (simp_all add: ac_simps)

interpretation xor16: comm_monoid_set "(XOR)" "0::u16"
  by unfold_locales (simp_all add: ac_simps)

lemma xor_cancel_word [simp]: "(a XOR b) XOR b = (a :: 'a::len word)"
  by (simp add: xor.assoc)

end
