(* ===== verification/Pulsar_Fec.thy ===== *)
theory Pulsar_Fec
  imports Pulsar_Prelude
begin

text \<open>
  Media-over-session framing and the XOR parity code of
  \<^verbatim>\<open>crates/pulsar-core/src/service/media.rs\<close>: the tagged session payloads, the parity datagram
  (\<^verbatim>\<open>parity_frame\<close>, \<^verbatim>\<open>parse_parity\<close>, \<^verbatim>\<open>recover\<close>), the host's \<^verbatim>\<open>FecEncoder\<close> and the client's
  \<^verbatim>\<open>FecDecoder\<close>. A RTP datagram is a byte list, a sequence number a 16-bit word.
\<close>

subsection \<open>Framing\<close>

definition TAG_VIDEO :: u8 where "TAG_VIDEO = 1"
definition TAG_AUDIO :: u8 where "TAG_AUDIO = 2"
definition TAG_FEC :: u8 where "TAG_FEC = 3"
definition TAG_FEC_RS :: u8 where "TAG_FEC_RS = 4"

definition FEC_MAX_PACKET :: nat where "FEC_MAX_PACKET = 1500"

definition frame :: "u8 \<Rightarrow> bytes \<Rightarrow> bytes" where
  "frame tag rtp = tag # rtp"

definition parse :: "bytes \<Rightarrow> (u8 \<times> bytes) option" where
  "parse payload =
     (case payload of
        [] \<Rightarrow> None
      | tag # rest \<Rightarrow>
          if tag \<in> {TAG_VIDEO, TAG_AUDIO, TAG_FEC, TAG_FEC_RS} \<and> rest \<noteq> [] then Some (tag, rest)
          else None)"

definition rtp_seq :: "bytes \<Rightarrow> u16 option" where
  "rtp_seq rtp = (if length rtp < 4 then None else Some (from_be_bytes16 (rtp ! 2) (rtp ! 3)))"

definition seq_forward :: "u16 \<Rightarrow> u16 \<Rightarrow> u16" where
  "seq_forward a b = b - a"

lemmas tag_defs [media_defs] = TAG_VIDEO_def TAG_AUDIO_def TAG_FEC_def TAG_FEC_RS_def

subsection \<open>Parity datagrams\<close>

record parity =
  base_seq :: u16
  par_n :: u8
  len_xor :: u16
  par_xor :: bytes

definition max_len :: "bytes list \<Rightarrow> nat" where
  "max_len pkts = fold (\<lambda>p m. max (length p) m) pkts 0"

definition xor_all :: "bytes list \<Rightarrow> nat \<Rightarrow> bytes" where
  "xor_all pkts m = foldl xor_into (replicate m 0) pkts"

definition len_xor_all :: "bytes list \<Rightarrow> u16" where
  "len_xor_all pkts = foldl (\<lambda>acc p. acc XOR of_nat (length p)) 0 pkts"

definition parity_frame :: "u16 \<Rightarrow> bytes list \<Rightarrow> bytes option" where
  "parity_frame base pkts =
     (if pkts = [] \<or> length pkts > 255 then None
      else let m = max_len pkts in
        if m = 0 \<or> m > FEC_MAX_PACKET then None
        else Some (TAG_FEC # to_be_bytes16 base @ of_nat (length pkts) # to_be_bytes16 (len_xor_all pkts)
                   @ xor_all pkts m))"

definition parse_parity :: "bytes \<Rightarrow> parity option" where
  "parse_parity body =
     (if length body < 6 then None
      else let base = from_be_bytes16 (body ! 0) (body ! 1); n = body ! 2;
               lx = from_be_bytes16 (body ! 3) (body ! 4)
           in if n = 0 then None
              else Some \<lparr>base_seq = base, par_n = n, len_xor = lx, par_xor = drop 5 body\<rparr>)"

definition recover_step ::
  "u16 \<Rightarrow> nat \<Rightarrow> bool list \<times> bytes \<times> u16 \<Rightarrow> u16 \<times> bytes \<Rightarrow> bool list \<times> bytes \<times> u16" where
  "recover_step base n s e =
     (case s of (have, buf, len) \<Rightarrow> case e of (seq, pkt) \<Rightarrow>
        let idx = unat (seq - base) in
        if idx \<ge> n \<or> have ! idx then (have, buf, len)
        else (have[idx := True], xor_into buf pkt, len XOR of_nat (length pkt)))"

definition recover :: "parity \<Rightarrow> (u16 \<times> bytes) list \<Rightarrow> (u16 \<times> bytes) option" where
  "recover p present =
     (let n = unat (par_n p);
          (have, buf, len) = foldl (recover_step (base_seq p) n) (replicate n False, par_xor p, len_xor p) present;
          missing = filter (\<lambda>i. \<not> have ! i) [0..<n]
      in if length missing \<noteq> 1 then None
         else let l = unat len in
           if l = 0 \<or> l > length buf then None
           else Some (base_seq p + of_nat (missing ! 0), take l buf))"

subsection \<open>Host side: \<^verbatim>\<open>FecEncoder\<close>\<close>

record fec_encoder =
  enc_n :: u8
  enc_group :: "bytes list"
  enc_base :: u16
  enc_next :: "u16 option"

definition FecEncoder_new :: "u8 \<Rightarrow> fec_encoder" where
  "FecEncoder_new n = \<lparr>enc_n = n, enc_group = [], enc_base = 0, enc_next = None\<rparr>"

definition FecEncoder_set_n :: "u8 \<Rightarrow> fec_encoder \<Rightarrow> fec_encoder" where
  "FecEncoder_set_n n e =
     (if n \<noteq> enc_n e then e\<lparr>enc_n := n, enc_group := [], enc_next := None\<rparr> else e)"

definition FecEncoder_push :: "u16 \<Rightarrow> bytes \<Rightarrow> fec_encoder \<Rightarrow> fec_encoder \<times> bytes option" where
  "FecEncoder_push seq rtp e =
     (if enc_n e = 0 \<or> rtp = [] \<or> length rtp > FEC_MAX_PACKET then (e, None)
      else
        let e1 = (if enc_next e \<noteq> Some seq then e\<lparr>enc_group := [], enc_base := seq\<rparr> else e);
            e2 = (if enc_group e1 = [] then e1\<lparr>enc_base := seq\<rparr> else e1);
            e3 = e2\<lparr>enc_next := Some (seq + 1), enc_group := enc_group e2 @ [rtp]\<rparr>
        in if length (enc_group e3) \<ge> unat (enc_n e3)
           then (e3\<lparr>enc_group := []\<rparr>, parity_frame (enc_base e3) (enc_group e3))
           else (e3, None))"

subsection \<open>Client side: \<^verbatim>\<open>FecDecoder\<close>\<close>

record fec_decoder =
  ring :: "(u16 \<times> bytes) list"
  dec_cap :: nat
  last_n :: u8

definition FecDecoder_new :: "nat \<Rightarrow> fec_decoder" where
  "FecDecoder_new c = \<lparr>ring = [], dec_cap = max c 8, last_n = 0\<rparr>"

definition FecDecoder_on_packet :: "u16 \<Rightarrow> bytes \<Rightarrow> fec_decoder \<Rightarrow> fec_decoder" where
  "FecDecoder_on_packet seq rtp d =
     d\<lparr>ring := (if length (ring d) \<ge> dec_cap d then tl (ring d) else ring d) @ [(seq, rtp)]\<rparr>"

definition FecDecoder_on_parity :: "bytes \<Rightarrow> fec_decoder \<Rightarrow> fec_decoder \<times> (u16 \<times> bytes) option" where
  "FecDecoder_on_parity body d =
     (case parse_parity body of
        None \<Rightarrow> (d, None)
      | Some p \<Rightarrow>
          let d1 = d\<lparr>last_n := par_n p\<rparr>;
              inside = filter (\<lambda>(s, _). s - base_seq p < ucast (par_n p)) (ring d1)
          in case recover p inside of
               None \<Rightarrow> (d1, None)
             | Some (seq, pkt) \<Rightarrow> (FecDecoder_on_packet seq pkt d1, Some (seq, pkt)))"

definition FecDecoder_reset :: "fec_decoder \<Rightarrow> fec_decoder" where
  "FecDecoder_reset d = d\<lparr>ring := []\<rparr>"

subsection \<open>Parity bytes and lengths as XOR sums\<close>

lemma fold_max_ge: "m \<le> fold (\<lambda>p m. max (length p) m) pkts m"
  by (induction pkts arbitrary: m) (auto intro: order_trans [OF max.cobounded2])

lemma length_le_max_len: "p \<in> set pkts \<Longrightarrow> length p \<le> max_len pkts"
proof -
  have "p \<in> set pkts \<Longrightarrow> length p \<le> fold (\<lambda>p m. max (length p) m) pkts m" for m
    by (induction pkts arbitrary: m) (auto intro: order_trans [OF max.cobounded1 fold_max_ge])
  then show "p \<in> set pkts \<Longrightarrow> length p \<le> max_len pkts" by (simp add: max_len_def)
qed

lemma length_foldl_xor_into [simp]: "length (foldl xor_into ds pkts) = length ds"
  by (induction pkts arbitrary: ds) auto

lemma length_xor_all [simp]: "length (xor_all pkts m) = m"
  by (simp add: xor_all_def)

lemma foldl_xor_into_nth:
  "i < length ds \<Longrightarrow>
     foldl xor_into ds pkts ! i = ds ! i XOR xor8.F (\<lambda>k. byte_at (pkts ! k) i) {..<length pkts}"
proof (induction pkts arbitrary: ds rule: rev_induct)
  case (snoc p pkts)
  have "xor8.F (\<lambda>k. byte_at ((pkts @ [p]) ! k) i) {..<length (pkts @ [p])} =
      xor8.F (\<lambda>k. byte_at (pkts ! k) i) {..<length pkts} XOR byte_at p i"
  proof -
    have "xor8.F (\<lambda>k. byte_at ((pkts @ [p]) ! k) i) {..<length pkts} =
        xor8.F (\<lambda>k. byte_at (pkts ! k) i) {..<length pkts}"
      by (rule xor8.cong) (auto simp: nth_append)
    then show ?thesis by (simp add: lessThan_Suc ac_simps)
  qed
  with snoc show ?case by (simp add: nth_xor_into xor.assoc)
qed simp

lemma xor_all_nth:
  "i < m \<Longrightarrow> xor_all pkts m ! i = xor8.F (\<lambda>k. byte_at (pkts ! k) i) {..<length pkts}"
  by (simp add: xor_all_def foldl_xor_into_nth)

lemma len_xor_all_eq:
  "len_xor_all pkts = xor16.F (\<lambda>k. of_nat (length (pkts ! k))) {..<length pkts}"
proof (induction pkts rule: rev_induct)
  case (snoc p pkts)
  have "xor16.F (\<lambda>k. of_nat (length ((pkts @ [p]) ! k))) {..<length pkts} =
      xor16.F (\<lambda>k. of_nat (length (pkts ! k))) {..<length pkts}"
    by (rule xor16.cong) (auto simp: nth_append)
  with snoc show ?case by (simp add: len_xor_all_def lessThan_Suc ac_simps)
qed (simp add: len_xor_all_def)

subsection \<open>The repair loop\<close>

text \<open>
  \<open>have_set\<close> is the set of group positions the loop has folded in; \<open>folded\<close> is the loop's
  invariant over it: the buffer and the length are the parity with exactly those packets removed.
\<close>

definition have_set :: "bool list \<Rightarrow> nat set" where
  "have_set have = {i. i < length have \<and> have ! i}"

definition folded :: "bytes list \<Rightarrow> parity \<Rightarrow> bool list \<times> bytes \<times> u16 \<Rightarrow> bool" where
  "folded pkts p s \<longleftrightarrow>
     (case s of (have, buf, len) \<Rightarrow>
        length have = length pkts \<and> length buf = length (par_xor p) \<and>
        (\<forall>k < length buf. buf ! k = par_xor p ! k XOR xor8.F (\<lambda>j. byte_at (pkts ! j) k) (have_set have)) \<and>
        len = len_xor p XOR xor16.F (\<lambda>j. of_nat (length (pkts ! j))) (have_set have))"

lemma have_set_update:
  "i < length have \<Longrightarrow> have_set (have[i := True]) = insert i (have_set have)"
  by (auto simp: have_set_def nth_list_update)

lemma finite_have_set [simp]: "finite (have_set have)"
  by (simp add: have_set_def)

lemma folded_step:
  assumes "folded pkts p s"
    and "unat (fst e - base_seq p) < length pkts \<Longrightarrow> snd e = pkts ! unat (fst e - base_seq p)"
  shows "folded pkts p (recover_step (base_seq p) (length pkts) s e) \<and>
    have_set (fst (recover_step (base_seq p) (length pkts) s e)) =
      have_set (fst s) \<union> ({unat (fst e - base_seq p)} \<inter> {..<length pkts})"
proof -
  obtain have' buf len where s: "s = (have', buf, len)" by (cases s)
  obtain seq pkt where e: "e = (seq, pkt)" by (cases e)
  define i where "i = unat (seq - base_seq p)"
  from assms(1) s have len': "length have' = length pkts" by (simp add: folded_def)
  show ?thesis
  proof (cases "i \<ge> length pkts \<or> have' ! i")
    case True
    with assms(1) s e len' show ?thesis
      by (auto simp: recover_step_def Let_def i_def have_set_def)
  next
    case False
    then have i: "i < length have'" "i \<notin> have_set have'" "pkt = pkts ! i"
      using assms(2) s e len' by (auto simp: i_def have_set_def)
    have step: "recover_step (base_seq p) (length pkts) s e =
        (have'[i := True], xor_into buf pkt, len XOR of_nat (length pkt))"
      using False s e by (simp add: recover_step_def Let_def i_def)
    have hs: "have_set (have'[i := True]) = insert i (have_set have')"
      using i(1) by (rule have_set_update)
    have b: "xor8.F g (insert i (have_set have')) = g i XOR xor8.F g (have_set have')"
      and l: "xor16.F h (insert i (have_set have')) = h i XOR xor16.F h (have_set have')" for g h
      using i(2) by simp_all
    have "folded pkts p (have'[i := True], xor_into buf pkt, len XOR of_nat (length pkt))"
      using assms(1) s i(3) by (simp add: folded_def hs b l nth_xor_into ac_simps)
    with i(1) show ?thesis unfolding step by (auto simp: s e hs [unfolded i_def] i_def len')
  qed
qed

lemma folded_foldl:
  assumes "folded pkts p s"
    and "\<And>q pkt. (q, pkt) \<in> set present \<Longrightarrow> unat (q - base_seq p) < length pkts \<Longrightarrow>
      pkt = pkts ! unat (q - base_seq p)"
  shows "folded pkts p (foldl (recover_step (base_seq p) (length pkts)) s present) \<and>
    have_set (fst (foldl (recover_step (base_seq p) (length pkts)) s present)) =
      have_set (fst s) \<union> ((\<lambda>e. unat (fst e - base_seq p)) ` set present \<inter> {..<length pkts})"
  using assms
proof (induction present arbitrary: s)
  case (Cons e es)
  let ?s = "recover_step (base_seq p) (length pkts) s e"
  have st: "folded pkts p ?s" "have_set (fst ?s) =
      have_set (fst s) \<union> ({unat (fst e - base_seq p)} \<inter> {..<length pkts})"
    using folded_step [OF Cons.prems(1), of e] Cons.prems(2) [of "fst e" "snd e"] by auto
  from Cons.IH [OF st(1) Cons.prems(2)] st(2) show ?case by auto
qed simp

lemma filter_eq_singleton:
  "i < n \<Longrightarrow> (\<And>k. k < n \<Longrightarrow> P k \<longleftrightarrow> k = i) \<Longrightarrow> filter P [0..<n] = [i]"
proof (induction n)
  case (Suc n)
  show ?case
  proof (cases "i = n")
    case True
    with Suc.prems have "filter P [0..<n] = []" by (auto simp: filter_empty_conv)
    with True Suc.prems(2) [of n] show ?thesis by simp
  next
    case False
    with Suc show ?thesis by simp
  qed
qed simp

definition parity_of :: "u16 \<Rightarrow> bytes list \<Rightarrow> parity" where
  "parity_of base pkts =
     \<lparr>base_seq = base, par_n = of_nat (length pkts), len_xor = len_xor_all pkts,
      par_xor = xor_all pkts (max_len pkts)\<rparr>"

lemma unat_of_nat_length: "length xs \<le> 255 \<Longrightarrow> unat (of_nat (length xs) :: u8) = length xs"
  by (simp add: unat_of_nat)

lemma parse_parity_frame:
  assumes "parity_frame base pkts = Some f"
  shows "parse f = Some (TAG_FEC, tl f) \<and> parse_parity (tl f) = Some (parity_of base pkts)"
proof -
  from assms have n: "pkts \<noteq> []" "length pkts \<le> 255" "max_len pkts \<noteq> 0"
    and f: "f = TAG_FEC # to_be_bytes16 base @ of_nat (length pkts) # to_be_bytes16 (len_xor_all pkts)
                   @ xor_all pkts (max_len pkts)"
    by (auto simp: parity_frame_def Let_def split: if_splits)
  have nz: "of_nat (length pkts) \<noteq> (0 :: u8)"
    using n(1,2) unat_of_nat_length [of pkts] by (metis length_0_conv unat_0)
  have "0 < max_len pkts" using n(3) by simp
  then show ?thesis
    using nz by (simp add: f parse_def media_defs parse_parity_def Let_def to_be_bytes16_def
        nth_append parity_of_def nth_Cons')
qed

lemma recover_one_missing:
  assumes n: "length pkts \<le> 255" and i: "i < length pkts" and ne: "pkts ! i \<noteq> []"
    and m: "max_len pkts \<le> FEC_MAX_PACKET"
    and ok: "\<And>q pkt. (q, pkt) \<in> set present \<Longrightarrow> unat (q - base) < length pkts \<Longrightarrow>
      pkt = pkts ! unat (q - base)"
    and miss: "(\<lambda>e. unat (fst e - base)) ` set present \<inter> {..<length pkts} = {..<length pkts} - {i}"
  shows "recover (parity_of base pkts) present = Some (base + of_nat i, pkts ! i)"
proof -
  let ?p = "parity_of base pkts"
  let ?init = "(replicate (length pkts) False, par_xor ?p, len_xor ?p)"
  obtain have' buf len where r: "foldl (recover_step base (length pkts)) ?init present = (have', buf, len)"
    by (metis prod_cases3)
  have "have_set (replicate (length pkts) False) = {}" by (auto simp: have_set_def)
  then have init: "folded pkts ?p ?init" "have_set (fst ?init) = {}" by (auto simp: folded_def)
  have fin: "folded pkts ?p (have', buf, len)" "have_set have' = {..<length pkts} - {i}"
    using folded_foldl [OF init(1), of present] ok miss init(2) r by (auto simp: parity_of_def)
  have lh: "length have' = length pkts" using fin(1) by (simp add: folded_def)
  have hv: "have' ! k \<longleftrightarrow> k \<noteq> i" if "k < length pkts" for k
    using fin(2) lh that by (auto simp: have_set_def)
  have missing: "filter (\<lambda>k. \<not> have' ! k) [0..<length pkts] = [i]"
    using i hv by (intro filter_eq_singleton) auto
  have len: "len = of_nat (length (pkts ! i))"
    using fin xor16.remove [of "{..<length pkts}" i "\<lambda>j. of_nat (length (pkts ! j))"] i
    by (simp add: folded_def parity_of_def len_xor_all_eq)
  have li: "length (pkts ! i) \<le> max_len pkts" using i by (simp add: length_le_max_len)
  then have ul: "unat len = length (pkts ! i)" using m by (simp add: len FEC_MAX_PACKET_def unat_of_nat)
  have lb: "length buf = max_len pkts" using fin(1) by (simp add: folded_def parity_of_def)
  have bytes: "buf ! k = byte_at (pkts ! i) k" if "k < max_len pkts" for k
    using fin xor8.remove [of "{..<length pkts}" i "\<lambda>j. byte_at (pkts ! j) k"] i that lb
    by (simp add: folded_def parity_of_def xor_all_nth)
  have "take (unat len) buf = pkts ! i"
    using li bytes by (auto intro!: nth_equalityI simp: ul lb byte_at_def)
  moreover have "\<not> (unat len = 0 \<or> unat len > length buf)" using ne li by (simp add: ul lb)
  moreover have "base_seq ?p = base" "unat (par_n ?p) = length pkts"
    using n by (simp_all add: parity_of_def unat_of_nat_length)
  ultimately show ?thesis using r missing by (simp add: recover_def Let_def)
qed

lemma recover_not_repairable:
  assumes n: "length pkts \<le> 255"
    and ok: "\<And>q pkt. (q, pkt) \<in> set present \<Longrightarrow> unat (q - base) < length pkts \<Longrightarrow>
      pkt = pkts ! unat (q - base)"
    and miss: "card ({..<length pkts} - (\<lambda>e. unat (fst e - base)) ` set present) \<noteq> 1"
  shows "recover (parity_of base pkts) present = None"
proof -
  let ?p = "parity_of base pkts"
  let ?init = "(replicate (length pkts) False, par_xor ?p, len_xor ?p)"
  obtain have' buf len where r: "foldl (recover_step base (length pkts)) ?init present = (have', buf, len)"
    by (metis prod_cases3)
  have "have_set (replicate (length pkts) False) = {}" by (auto simp: have_set_def)
  then have init: "folded pkts ?p ?init" "have_set (fst ?init) = {}" by (auto simp: folded_def)
  have fin: "folded pkts ?p (have', buf, len)"
    "have_set have' = (\<lambda>e. unat (fst e - base)) ` set present \<inter> {..<length pkts}"
    using folded_foldl [OF init(1), of present] ok init(2) r by (auto simp: parity_of_def)
  have lh: "length have' = length pkts" using fin(1) by (simp add: folded_def)
  have "set (filter (\<lambda>k. \<not> have' ! k) [0..<length pkts]) =
      {..<length pkts} - (\<lambda>e. unat (fst e - base)) ` set present"
    using fin(2) lh by (auto simp: have_set_def)
  moreover have "distinct (filter (\<lambda>k. \<not> have' ! k) [0..<length pkts])" by simp
  ultimately have "length (filter (\<lambda>k. \<not> have' ! k) [0..<length pkts]) \<noteq> 1"
    using miss by (metis distinct_card)
  moreover have "base_seq ?p = base" "unat (par_n ?p) = length pkts"
    using n by (simp_all add: parity_of_def unat_of_nat_length)
  ultimately show ?thesis using r by (simp add: recover_def Let_def)
qed

subsection \<open>The encoder over a run of consecutive packets\<close>

fun FecEncoder_run :: "u16 \<Rightarrow> bytes list \<Rightarrow> fec_encoder \<Rightarrow> fec_encoder \<times> bytes option list" where
  "FecEncoder_run seq [] e = (e, [])"
| "FecEncoder_run seq (p # ps) e =
     (case FecEncoder_push seq p e of (e1, r) \<Rightarrow>
      case FecEncoder_run (seq + 1) ps e1 of (e2, rs) \<Rightarrow> (e2, r # rs))"

definition packet_ok :: "bytes \<Rightarrow> bool" where
  "packet_ok p \<longleftrightarrow> p \<noteq> [] \<and> length p \<le> FEC_MAX_PACKET"

lemma push_continue:
  assumes "packet_ok p" "enc_n e \<noteq> 0" "enc_group e \<noteq> []" "enc_next e = Some seq"
  shows "FecEncoder_push seq p e =
    (let e' = e\<lparr>enc_next := Some (seq + 1), enc_group := enc_group e @ [p]\<rparr> in
     if Suc (length (enc_group e)) \<ge> unat (enc_n e)
     then (e'\<lparr>enc_group := []\<rparr>, parity_frame (enc_base e) (enc_group e @ [p])) else (e', None))"
  using assms by (auto simp: FecEncoder_push_def packet_ok_def Let_def)

lemma push_first:
  assumes "packet_ok p" "enc_n e \<noteq> 0" "enc_group e = [] \<or> enc_next e \<noteq> Some seq"
  shows "FecEncoder_push seq p e =
    (let e' = e\<lparr>enc_base := seq, enc_next := Some (seq + 1), enc_group := [p]\<rparr> in
     if 1 \<ge> unat (enc_n e) then (e'\<lparr>enc_group := []\<rparr>, parity_frame seq [p]) else (e', None))"
  using assms by (auto simp: FecEncoder_push_def packet_ok_def Let_def)

lemma run_continue:
  assumes "\<forall>p \<in> set ps. packet_ok p" "enc_n e \<noteq> 0" "enc_group e \<noteq> []" "enc_next e = Some seq"
    "length (enc_group e) + length ps = unat (enc_n e)" "ps \<noteq> []"
  shows "snd (FecEncoder_run seq ps e) =
      replicate (length ps - 1) None @ [parity_frame (enc_base e) (enc_group e @ ps)] \<and>
    enc_group (fst (FecEncoder_run seq ps e)) = []"
  using assms
proof (induction ps arbitrary: seq e)
  case (Cons p ps)
  show ?case
  proof (cases "ps = []")
    case True
    with Cons.prems show ?thesis by (simp add: push_continue Let_def)
  next
    case False
    let ?e = "e\<lparr>enc_next := Some (seq + 1), enc_group := enc_group e @ [p]\<rparr>"
    from Cons.prems have st: "FecEncoder_push seq p e = (?e, None)"
      using False by (cases ps) (auto simp: push_continue Let_def)
    have "snd (FecEncoder_run (seq + 1) ps ?e) =
        replicate (length ps - 1) None @ [parity_frame (enc_base ?e) (enc_group ?e @ ps)] \<and>
      enc_group (fst (FecEncoder_run (seq + 1) ps ?e)) = []"
      using Cons.prems False by (intro Cons.IH) auto
    with False show ?thesis by (cases ps) (auto simp: st split: prod.splits)
  qed
qed simp

lemma run_group:
  assumes "\<forall>p \<in> set ps. packet_ok p" "ps \<noteq> []" "length ps = unat (enc_n e)"
    "enc_group e = [] \<or> enc_next e \<noteq> Some seq"
  shows "snd (FecEncoder_run seq ps e) = replicate (length ps - 1) None @ [parity_frame seq ps] \<and>
    enc_group (fst (FecEncoder_run seq ps e)) = []"
proof -
  obtain p qs where ps: "ps = p # qs" using assms(2) by (cases ps) auto
  have nz: "enc_n e \<noteq> 0" using assms(2,3) by (metis length_0_conv unat_0)
  let ?e = "e\<lparr>enc_base := seq, enc_next := Some (seq + 1), enc_group := [p]\<rparr>"
  show ?thesis
  proof (cases "qs = []")
    case True
    with assms nz ps show ?thesis by (simp add: push_first Let_def)
  next
    case False
    have "FecEncoder_push seq p e = (?e, None)"
      using assms ps nz False by (cases qs) (auto simp: push_first Let_def)
    moreover have "snd (FecEncoder_run (seq + 1) qs ?e) =
        replicate (length qs - 1) None @ [parity_frame (enc_base ?e) (enc_group ?e @ qs)] \<and>
      enc_group (fst (FecEncoder_run (seq + 1) qs ?e)) = []"
      using assms ps nz False by (intro run_continue) auto
    ultimately show ?thesis using ps False by (cases qs) (auto split: prod.splits)
  qed
qed

lemma max_len_bound: "(\<And>p. p \<in> set ps \<Longrightarrow> length p \<le> b) \<Longrightarrow> max_len ps \<le> b"
proof -
  have "(\<And>p. p \<in> set ps \<Longrightarrow> length p \<le> b) \<Longrightarrow> m \<le> b \<Longrightarrow> fold (\<lambda>p m. max (length p) m) ps m \<le> b" for m
    by (induction ps arbitrary: m) auto
  then show "(\<And>p. p \<in> set ps \<Longrightarrow> length p \<le> b) \<Longrightarrow> max_len ps \<le> b" by (simp add: max_len_def)
qed

lemma parity_frame_Some:
  assumes "\<forall>p \<in> set ps. packet_ok p" "ps \<noteq> []" "length ps \<le> 255"
  shows "\<exists>f. parity_frame base ps = Some f"
proof -
  have "max_len ps \<le> FEC_MAX_PACKET" using assms(1) by (intro max_len_bound) (auto simp: packet_ok_def)
  moreover have "0 < length (hd ps)" using assms(1,2) by (cases ps) (auto simp: packet_ok_def)
  then have "0 < max_len ps"
    using assms(2) length_le_max_len [of "hd ps" ps] by (metis hd_in_set less_le_trans)
  ultimately show ?thesis using assms(2,3) by (auto simp: parity_frame_def Let_def)
qed

lemma unat_add_sub_seq: "j < 65536 \<Longrightarrow> unat ((base + of_nat j) - base :: u16) = j"
  by (simp add: unat_of_nat)

lemma seq_in_group_iff: "(q - base < ucast (of_nat (length ps) :: u8)) \<longleftrightarrow> unat (q - base :: u16) < length ps"
  if "length ps \<le> 255"
  using that by (simp add: word_less_nat_alt unsigned_ucast_eq unat_of_nat take_bit_eq_mod)

subsection \<open>Properties\<close>

text \<open>
  a parity frame parses as media with the FEC tag, its body parses as a parity datagram, and
  from that datagram the repair loop rebuilds any single missing packet of the group exactly, at its
  sequence number, whatever the order, repetition or extra packets among the ones received.
\<close>

theorem xor_parity_repairs_one_loss:
  assumes frame: "parity_frame base pkts = Some f" and i: "i < length pkts" "pkts ! i \<noteq> []"
    and genuine: "\<forall>(q, pkt) \<in> set present. unat (q - base) < length pkts \<longrightarrow> pkt = pkts ! unat (q - base)"
    and all_but_i: "\<forall>j < length pkts. (\<exists>pkt. (base + of_nat j, pkt) \<in> set present) \<longleftrightarrow> j \<noteq> i"
  shows "\<exists>body p. parse f = Some (TAG_FEC, body) \<and> parse_parity body = Some p \<and>
    recover p present = Some (base + of_nat i, pkts ! i)"
proof -
  from frame have n: "length pkts \<le> 255" and m: "max_len pkts \<le> FEC_MAX_PACKET"
    by (auto simp: parity_frame_def Let_def split: if_splits)
  have "(\<lambda>e. unat (fst e - base)) ` set present \<inter> {..<length pkts} = {..<length pkts} - {i}" (is "?A = ?B")
  proof (intro equalityI subsetI)
    fix j assume "j \<in> ?A"
    then obtain q pkt where q: "(q, pkt) \<in> set present" "j = unat (q - base)" "j < length pkts" by auto
    then have "(base + of_nat j, pkt) \<in> set present" by simp
    with all_but_i q(3) show "j \<in> ?B" by auto
  next
    fix j assume "j \<in> ?B"
    with all_but_i obtain pkt where "(base + of_nat j, pkt) \<in> set present" "j < length pkts" by auto
    then show "j \<in> ?A" using n by (force simp: unat_of_nat image_iff)
  qed
  moreover have "\<And>q pkt. (q, pkt) \<in> set present \<Longrightarrow> unat (q - base) < length pkts \<Longrightarrow>
      pkt = pkts ! unat (q - base)" using genuine by auto
  ultimately have "recover (parity_of base pkts) present = Some (base + of_nat i, pkts ! i)"
    using recover_one_missing [OF n i m] by blast
  with parse_parity_frame [OF frame] show ?thesis by auto
qed

theorem xor_parity_repairs_one_loss_witness:
  "\<exists>f body p. parity_frame 65535 [[1, 2, 3], [4, 5], [6]] = Some f \<and> parse f = Some (TAG_FEC, body) \<and>
    parse_parity body = Some p \<and> recover p [(1, [6]), (65535, [1, 2, 3]), (1, [6])] = Some (0, [4, 5])"
proof -
  obtain f where f: "parity_frame 65535 [[1, 2, 3], [4, 5], [6]] = Some f"
    by (simp add: parity_frame_def max_len_def FEC_MAX_PACKET_def)
  have "\<exists>body p. parse f = Some (TAG_FEC, body) \<and> parse_parity body = Some p \<and>
    recover p [(1, [6]), (65535, [1, 2, 3]), (1, [6])] = Some (65535 + of_nat 1, [[1, 2, 3], [4, 5], [6]] ! 1)"
    by (rule xor_parity_repairs_one_loss [OF f]) (auto simp: less_Suc_eq numeral_3_eq_3)
  moreover have "(65535 + of_nat 1, [[1, 2, 3], [4, 5], [6]] ! 1) = (0 :: u16, [4, 5] :: bytes)" by code_simp
  ultimately show ?thesis using f by metis
qed

text \<open>
  XOR parity never invents a packet: when the group is complete, or when two or more of its
  packets are missing, the repair loop returns nothing.
\<close>

theorem xor_parity_refuses_other_losses:
  assumes frame: "parity_frame base pkts = Some f"
    and genuine: "\<forall>(q, pkt) \<in> set present. unat (q - base) < length pkts \<longrightarrow> pkt = pkts ! unat (q - base)"
    and not_one: "card {j. j < length pkts \<and> (\<forall>pkt. (base + of_nat j, pkt) \<notin> set present)} \<noteq> 1"
  shows "\<exists>body p. parse f = Some (TAG_FEC, body) \<and> parse_parity body = Some p \<and> recover p present = None"
proof -
  from frame have n: "length pkts \<le> 255" by (auto simp: parity_frame_def split: if_splits)
  have "{j. j < length pkts \<and> (\<forall>pkt. (base + of_nat j, pkt) \<notin> set present)} =
      {..<length pkts} - (\<lambda>e. unat (fst e - base)) ` set present" (is "?A = ?B")
  proof (intro equalityI subsetI)
    fix j assume j: "j \<in> ?A"
    have "j \<noteq> unat (fst e - base)" if "e \<in> set present" for e
    proof
      assume "j = unat (fst e - base)"
      then have "(base + of_nat j, snd e) \<in> set present" using that by simp
      with j show False by simp
    qed
    with j show "j \<in> ?B" by auto
  next
    fix j assume j: "j \<in> ?B"
    then have "unat (base + of_nat j - base) = j" using n by (intro unat_add_sub_seq) auto
    with j show "j \<in> ?A" by (force simp: image_iff)
  qed
  with not_one have "card ({..<length pkts} - (\<lambda>e. unat (fst e - base)) ` set present) \<noteq> 1" by simp
  with genuine have "recover (parity_of base pkts) present = None"
    by (intro recover_not_repairable [OF n]) auto
  with parse_parity_frame [OF frame] show ?thesis by auto
qed

theorem xor_parity_refuses_other_losses_witness:
  "\<exists>f body p. parity_frame 7 [[1, 2], [3], [4]] = Some f \<and> parse f = Some (TAG_FEC, body) \<and>
     parse_parity body = Some p \<and> recover p [(8, [3])] = None"
proof -
  obtain f where f: "parity_frame 7 [[1, 2], [3], [4]] = Some f"
    by (simp add: parity_frame_def max_len_def FEC_MAX_PACKET_def)
  have eq: "{j. j < length [[1, 2], [3], [4 :: u8]] \<and> (\<forall>pkt. (7 + of_nat j :: u16, pkt) \<notin> set [(8, [3 :: u8])])} = {0, 2}"
    by (auto simp: less_Suc_eq numeral_3_eq_3)
  have "\<exists>body p. parse f = Some (TAG_FEC, body) \<and> parse_parity body = Some p \<and> recover p [(8, [3])] = None"
    by (rule xor_parity_refuses_other_losses [OF f]) (use eq in auto)
  with f show ?thesis by blast
qed

text \<open>
  C14: host encoder to client decoder. The host pushes one group of \<open>n\<close> consecutive datagrams
  (\<open>n\<close> the configured group size) at any sequence base, across the 16-bit wrap or not: it emits nothing
  until the last one and then exactly one parity payload. A client whose ring holds earlier packets
  from outside the group and all of the group but packet \<open>i\<close> gets that packet back from the
  parity, and remembers it.
\<close>

theorem xor_fec_end_to_end:
  assumes ps: "\<forall>p \<in> set ps. packet_ok p" "ps \<noteq> []" "length ps = unat (enc_n e)"
    and fresh: "enc_group e = [] \<or> enc_next e \<noteq> Some base"
    and i: "i < length ps"
    and ring: "ring d = old @ map (\<lambda>j. (base + of_nat j, ps ! j)) (filter (\<lambda>j. j \<noteq> i) [0..<length ps])"
    and old: "\<forall>(q, pkt) \<in> set old. unat (q - base) \<ge> length ps"
  shows "\<exists>f body. snd (FecEncoder_run base ps e) = replicate (length ps - 1) None @ [Some f] \<and>
    parse f = Some (TAG_FEC, body) \<and>
    FecDecoder_on_parity body d =
      (FecDecoder_on_packet (base + of_nat i) (ps ! i) (d\<lparr>last_n := enc_n e\<rparr>), Some (base + of_nat i, ps ! i))"
proof -
  have n: "length ps \<le> 255" using ps(3) unsigned_less [of "enc_n e", where ?'a = nat] by simp
  obtain f where f: "parity_frame base ps = Some f" using parity_frame_Some [OF ps(1,2) n] by blast
  then have run: "snd (FecEncoder_run base ps e) = replicate (length ps - 1) None @ [Some f]"
    using run_group [OF ps fresh] by simp
  have m: "max_len ps \<le> FEC_MAX_PACKET" using ps(1) by (intro max_len_bound) (auto simp: packet_ok_def)
  let ?p = "parity_of base ps"
  have en: "par_n ?p = enc_n e" using ps(3) by (simp add: parity_of_def)
  let ?got = "map (\<lambda>j. (base + of_nat j :: u16, ps ! j)) (filter (\<lambda>j. j \<noteq> i) [0..<length ps])"
  have u: "unat (of_nat j :: u16) = j" if "j < length ps" for j
    using that n by (simp add: unat_of_nat)
  have inside: "filter (\<lambda>(s, _). s - base_seq ?p < ucast (par_n ?p)) (ring d) = ?got"
    using old n by (auto simp: ring parity_of_def seq_in_group_iff filter_empty_conv u intro!: filter_True)
  have "(\<lambda>e. unat (fst e - base)) ` set ?got \<inter> {..<length ps} = {..<length ps} - {i}"
    by (auto simp: image_image u)
  then have "recover ?p ?got = Some (base + of_nat i, ps ! i)"
    using i ps(1) by (intro recover_one_missing [OF n i _ m]) (auto simp: u packet_ok_def)
  then have "FecDecoder_on_parity (tl f) d =
      (FecDecoder_on_packet (base + of_nat i) (ps ! i) (d\<lparr>last_n := enc_n e\<rparr>), Some (base + of_nat i, ps ! i))"
    using parse_parity_frame [OF f] inside en by (simp add: FecDecoder_on_parity_def Let_def)
  with run parse_parity_frame [OF f] show ?thesis by blast
qed

theorem xor_fec_end_to_end_witness:
  "\<exists>f body. snd (FecEncoder_run 65535 [[1, 2], [3], [4, 5, 6]] (FecEncoder_new 3)) = [None, None, Some f] \<and>
     parse f = Some (TAG_FEC, body) \<and>
     snd (FecDecoder_on_parity body \<lparr>ring = [(9, [7]), (65535, [1, 2]), (1, [4, 5, 6])], dec_cap = 8, last_n = 0\<rparr>)
       = Some (0, [3])"
proof -
  let ?d = "\<lparr>ring = [(9, [7]), (65535, [1, 2]), (1, [4, 5, 6])], dec_cap = 8, last_n = 0\<rparr> :: fec_decoder"
  let ?ps = "[[1, 2], [3], [4, 5, 6]] :: bytes list"
  have s: "(65535 + of_nat 1, ?ps ! 1) = (0 :: u16, [3])" by code_simp
  have r: "ring ?d = [(9, [7])] @ map (\<lambda>j. (65535 + of_nat j, ?ps ! j)) (filter (\<lambda>j. j \<noteq> 1) [0..<length ?ps])"
    by code_simp
  have o: "\<forall>(q, pkt) \<in> set [(9, [7 :: u8])]. unat (q - 65535 :: u16) \<ge> length ?ps" by code_simp
  have n: "length ?ps = unat (enc_n (FecEncoder_new 3))" by code_simp
  have k: "\<forall>p \<in> set ?ps. packet_ok p" by (simp add: packet_ok_def FEC_MAX_PACKET_def)
  have fr: "enc_group (FecEncoder_new 3) = [] \<or> enc_next (FecEncoder_new 3) \<noteq> Some 65535"
    by (simp add: FecEncoder_new_def)
  obtain f body where fb: "snd (FecEncoder_run 65535 ?ps (FecEncoder_new 3)) = replicate (length ?ps - 1) None @ [Some f]"
      "parse f = Some (TAG_FEC, body)" "snd (FecDecoder_on_parity body ?d) = Some (65535 + of_nat 1, ?ps ! 1)"
    using xor_fec_end_to_end [OF k _ n fr _ r o] by auto
  have "replicate (length ?ps - 1) None @ [Some f] = [None, None, Some f]" by (simp add: numeral_2_eq_2)
  with fb s show ?thesis by metis
qed

text \<open>
  the client's packet memory is bounded: whatever packets, parity datagrams and resets it
  processes, the ring never holds more than its capacity, and the capacity never changes.
\<close>

datatype dec_event = Packet u16 bytes | Parity bytes | Reset

fun dec_step :: "fec_decoder \<Rightarrow> dec_event \<Rightarrow> fec_decoder" where
  "dec_step d (Packet q p) = FecDecoder_on_packet q p d"
| "dec_step d (Parity b) = fst (FecDecoder_on_parity b d)"
| "dec_step d Reset = FecDecoder_reset d"

lemma on_packet_bound:
  "0 < dec_cap d \<Longrightarrow> length (ring d) \<le> dec_cap d \<Longrightarrow>
     length (ring (FecDecoder_on_packet q p d)) \<le> dec_cap d \<and> dec_cap (FecDecoder_on_packet q p d) = dec_cap d"
  by (auto simp: FecDecoder_on_packet_def)

lemma dec_step_bound:
  assumes "0 < dec_cap d" "length (ring d) \<le> dec_cap d"
  shows "length (ring (dec_step d ev)) \<le> dec_cap d \<and> dec_cap (dec_step d ev) = dec_cap d"
proof (cases ev)
  case (Parity b)
  then show ?thesis
    using assms on_packet_bound [of "d\<lparr>last_n := n\<rparr>" for n]
    by (auto simp: FecDecoder_on_parity_def Let_def split: option.splits)
next
  case (Packet q p)
  with assms on_packet_bound show ?thesis by simp
next
  case Reset
  with assms show ?thesis by (simp add: FecDecoder_reset_def)
qed

theorem fec_decoder_ring_bounded:
  "length (ring (foldl dec_step (FecDecoder_new c) evs)) \<le> max c 8"
proof -
  have "0 < dec_cap d \<Longrightarrow> length (ring d) \<le> dec_cap d \<Longrightarrow>
      length (ring (foldl dec_step d evs)) \<le> dec_cap d" for d
  proof (induction evs arbitrary: d)
    case (Cons ev evs)
    from dec_step_bound [OF Cons.prems, of ev] Cons.IH [of "dec_step d ev"] Cons.prems show ?case by simp
  qed simp
  from this [of "FecDecoder_new c"] show ?thesis by (simp add: FecDecoder_new_def)
qed

text \<open>
  framing round trip. Media payloads with a known tag and a non-empty body parse back to
  themselves; a payload that starts as a JSON control message does (an opening brace or a quote) is never
  taken for media; the sequence number written big-endian at bytes 2 and 3 is read back, and
  \<open>seq_forward\<close> measures the forward distance across the wrap.
\<close>

theorem framing_roundtrip:
  "rtp \<noteq> [] \<Longrightarrow> tag \<in> {TAG_VIDEO, TAG_AUDIO, TAG_FEC, TAG_FEC_RS} \<Longrightarrow>
     parse (frame tag rtp) = Some (tag, rtp) \<and>
     parse (0x7B # rest) = None \<and> parse (0x22 # rest) = None \<and>
     rtp_seq (a # b # to_be_bytes16 s @ payload) = Some s \<and> seq_forward s (s + d) = d"
  by (auto simp: parse_def frame_def media_defs rtp_seq_def seq_forward_def to_be_bytes16_def)

theorem framing_roundtrip_witness:
  "parse (frame TAG_VIDEO [0x80, 96, 0x12, 0x34]) = Some (TAG_VIDEO, [0x80, 96, 0x12, 0x34]) \<and>
     seq_forward 0xFFFE (0xFFFE + 3) = 3"
  using framing_roundtrip [where rtp = "[0x80, 96, 0x12, 0x34]" and tag = TAG_VIDEO and s = "0xFFFE" and d = 3] by simp

end
