(* ===== verification/Pulsar_Float.thy ===== *)
theory Pulsar_Float
  imports Pulsar_Prelude "HOL-Library.Log_Nat"
begin

text \<open>
  Rust's \<^verbatim>\<open>f32\<close> and \<^verbatim>\<open>f64\<close> as executable rational arithmetic: a finite float is the rational it
  denotes, every operation is the exact one followed by the IEEE 754 rounding to nearest, ties to
  even, at 24 or 53 bits of precision (with the subnormal spacing as the smallest unit). Infinities,
  NaN and the sign of zero are not modelled. The locale \<open>rounding\<close> is what the controller's
  proofs use of a rounding: it is monotone and exact on integers up to \<open>2 ^ prec\<close>.
\<close>

subsection \<open>Binary exponent and rounding\<close>

definition ilog2 :: "rat \<Rightarrow> int" where
  "ilog2 x = (case quotient_of x of (n, d) \<Rightarrow>
     let k = bitlen n - bitlen d in if 2 powi k \<le> x then k else k - 1)"

definition round_half_even :: "rat \<Rightarrow> int" where
  "round_half_even x =
     (let f = \<lfloor>x\<rfloor>; r = x - of_int f in
      if r < 1 / 2 then f else if r > 1 / 2 then f + 1 else if even f then f else f + 1)"

definition ulp_exp :: "nat \<Rightarrow> int \<Rightarrow> rat \<Rightarrow> int" where
  "ulp_exp p emin x = max (ilog2 \<bar>x\<bar> + 1 - int p) emin"

definition fround :: "nat \<Rightarrow> int \<Rightarrow> rat \<Rightarrow> rat" where
  "fround p emin x =
     (if x = 0 then 0
      else let u = 2 powi ulp_exp p emin x in of_int (round_half_even (x / u)) * u)"

definition rnd32 :: "rat \<Rightarrow> rat" where "rnd32 = fround 24 (- 149)"
definition rnd64 :: "rat \<Rightarrow> rat" where "rnd64 = fround 53 (- 1074)"

subsection \<open>Float operations of the source\<close>

definition f32_add :: "rat \<Rightarrow> rat \<Rightarrow> rat" where "f32_add a b = rnd32 (a + b)"
definition f32_sub :: "rat \<Rightarrow> rat \<Rightarrow> rat" where "f32_sub a b = rnd32 (a - b)"
definition f32_mul :: "rat \<Rightarrow> rat \<Rightarrow> rat" where "f32_mul a b = rnd32 (a * b)"
definition f32_div :: "rat \<Rightarrow> rat \<Rightarrow> rat" where "f32_div a b = rnd32 (a / b)"
definition f64_add :: "rat \<Rightarrow> rat \<Rightarrow> rat" where "f64_add a b = rnd64 (a + b)"
definition f64_sub :: "rat \<Rightarrow> rat \<Rightarrow> rat" where "f64_sub a b = rnd64 (a - b)"
definition f64_mul :: "rat \<Rightarrow> rat \<Rightarrow> rat" where "f64_mul a b = rnd64 (a * b)"
definition f64_div :: "rat \<Rightarrow> rat \<Rightarrow> rat" where "f64_div a b = rnd64 (a / b)"

text \<open>\<^verbatim>\<open>n as f32\<close>, \<^verbatim>\<open>n as f64\<close>, \<^verbatim>\<open>x as u32\<close> (truncating and saturating) and \<^verbatim>\<open>f64::round\<close>.\<close>

definition f32_of :: "nat \<Rightarrow> rat" where "f32_of n = rnd32 (of_nat n)"
definition f64_of :: "nat \<Rightarrow> rat" where "f64_of n = rnd64 (of_nat n)"
definition as_u32 :: "rat \<Rightarrow> nat" where "as_u32 x = min (nat \<lfloor>x\<rfloor>) u32_max"
definition round_away :: "rat \<Rightarrow> rat" where
  "round_away x = (if 0 \<le> x then of_int \<lfloor>x + 1 / 2\<rfloor> else - of_int \<lfloor>1 / 2 - x\<rfloor>)"

subsection \<open>The rounding interface\<close>

locale rounding =
  fixes rnd :: "rat \<Rightarrow> rat" and prec :: nat
  assumes rnd_mono: "x \<le> y \<Longrightarrow> rnd x \<le> rnd y"
    and rnd_int: "\<bar>n\<bar> \<le> 2 ^ prec \<Longrightarrow> rnd (of_int n) = of_int n"
    and rnd_idem: "rnd (rnd x) = rnd x"
begin

lemma zero: "rnd 0 = 0"
  using rnd_int [of 0] by simp

lemma one: "rnd 1 = 1"
  using rnd_int [of 1] by simp

lemma nonneg: "0 \<le> x \<Longrightarrow> 0 \<le> rnd x"
  using rnd_mono [of 0 x] by (simp add: zero)

lemma nonpos: "x \<le> 0 \<Longrightarrow> rnd x \<le> 0"
  using rnd_mono [of x 0] by (simp add: zero)

lemma le_one: "x \<le> 1 \<Longrightarrow> rnd x \<le> 1"
  using rnd_mono [of x 1] by (simp add: one)

lemma nat_exact: "n \<le> 2 ^ prec \<Longrightarrow> rnd (of_nat n) = of_nat n"
  using rnd_int [of "int n"] by (simp flip: of_nat_power)

lemma le_nat: "x \<le> of_nat n \<Longrightarrow> n \<le> 2 ^ prec \<Longrightarrow> rnd x \<le> of_nat n"
  using rnd_mono [of x "of_nat n"] by (simp add: nat_exact)

lemma ge_nat: "of_nat n \<le> x \<Longrightarrow> n \<le> 2 ^ prec \<Longrightarrow> of_nat n \<le> rnd x"
  using rnd_mono [of "of_nat n" x] by (simp add: nat_exact)

lemma ge_one: "1 \<le> x \<Longrightarrow> 1 \<le> rnd x"
  using rnd_mono [of 1 x] by (simp add: one)

lemma le_rnd: "rnd y = y \<Longrightarrow> x \<le> y \<Longrightarrow> rnd x \<le> y"
  using rnd_mono [of x y] by simp

lemma ge_rnd: "rnd y = y \<Longrightarrow> y \<le> x \<Longrightarrow> y \<le> rnd x"
  using rnd_mono [of y x] by simp

end

subsection \<open>The IEEE rounding is a rounding\<close>

lemma powi_bitlen:
  assumes "0 < (n :: int)"
  shows "2 powi (bitlen n - 1) \<le> (of_int n :: rat)" "(of_int n :: rat) < 2 powi bitlen n"
proof -
  have b: "2 ^ nat (bitlen n - 1) \<le> n" "n < 2 ^ nat (bitlen n)"
    using bitlen_bounds [OF assms] by auto
  have pos: "1 \<le> bitlen n" using assms bitlen_eq_zero_iff [of n] bitlen_nonneg [of n] by linarith
  have "(of_int (2 ^ nat (bitlen n - 1)) :: rat) \<le> of_int n" using b(1) by linarith
  then show "2 powi (bitlen n - 1) \<le> (of_int n :: rat)" using pos by (simp add: power_int_def)
  have "(of_int n :: rat) < of_int (2 ^ nat (bitlen n))" using b(2) by linarith
  then show "(of_int n :: rat) < 2 powi bitlen n" using pos by (simp add: power_int_def)
qed

lemma powi_pos [simp]: "(0 :: rat) < 2 powi k"
  by (simp add: zero_less_power_int)

lemma powi_add: "(2 :: rat) powi (a + b) = 2 powi a * 2 powi b"
  by (simp add: power_int_add)

lemma powi_diff: "(2 :: rat) powi (a - b) = 2 powi a / 2 powi b"
  by (simp add: power_int_diff)

lemma powi_mono: "a \<le> b \<Longrightarrow> (2 :: rat) powi a \<le> 2 powi b"
  by (simp add: power_int_increasing)

lemma powi_less_imp: "(2 :: rat) powi a < 2 powi b \<Longrightarrow> a < b"
  using powi_mono [of b a] by (meson leD not_le_imp_less)

lemma ilog2_bounds:
  assumes "0 < x"
  shows "2 powi ilog2 x \<le> x \<and> x < 2 powi (ilog2 x + 1)"
proof -
  obtain n d where q: "quotient_of x = (n, d)" by (cases "quotient_of x")
  have d: "0 < d" using quotient_of_denom_pos [OF q] .
  have x: "x = of_int n / of_int d" using quotient_of_div [OF q] .
  then have n: "0 < n" using assms d by (simp add: zero_less_divide_iff)
  let ?a = "bitlen n" and ?b = "bitlen d"
  have "x < 2 powi ?a / 2 powi (?b - 1)"
    unfolding x using powi_bitlen [OF n] powi_bitlen [OF d] d n
    by (intro frac_less) (auto intro: less_imp_le)
  also have "\<dots> = 2 powi (?a - ?b + 1)" by (simp flip: powi_diff) (simp add: algebra_simps)
  finally have up: "x < 2 powi (?a - ?b + 1)" .
  have "2 powi (?a - 1) / 2 powi ?b \<le> x"
    unfolding x using powi_bitlen [OF n] powi_bitlen [OF d] d n
    by (intro frac_le) (auto intro: less_imp_le)
  moreover have "(2 :: rat) powi (?a - 1) / 2 powi ?b = 2 powi (?a - ?b - 1)"
    by (simp flip: powi_diff) (simp add: algebra_simps)
  ultimately have lo: "2 powi (?a - ?b - 1) \<le> x" by simp
  from up lo show ?thesis by (auto simp: ilog2_def q Let_def)
qed

lemma ilog2_eqI: "2 powi k \<le> x \<Longrightarrow> x < 2 powi (k + 1) \<Longrightarrow> ilog2 x = k"
proof -
  assume k: "2 powi k \<le> x" "x < 2 powi (k + 1)"
  then have "0 < x" using powi_pos [of k] by linarith
  note b = ilog2_bounds [OF this]
  have "2 powi k < (2 :: rat) powi (ilog2 x + 1)" "2 powi ilog2 x < (2 :: rat) powi (k + 1)"
    using k b by linarith+
  then show ?thesis by (auto dest!: powi_less_imp)
qed

lemma ilog2_mono: "0 < x \<Longrightarrow> x \<le> y \<Longrightarrow> ilog2 x \<le> ilog2 y"
proof -
  assume "0 < x" "x \<le> y"
  then have "2 powi ilog2 x < (2 :: rat) powi (ilog2 y + 1)"
    using ilog2_bounds [of x] ilog2_bounds [of y] by linarith
  then show ?thesis by (auto dest!: powi_less_imp)
qed

lemma round_half_even_int [simp]: "round_half_even (of_int n) = n"
  by (simp add: round_half_even_def)

lemma round_half_even_bounds: "\<lfloor>x\<rfloor> \<le> round_half_even x \<and> round_half_even x \<le> \<lfloor>x\<rfloor> + 1"
  by (simp add: round_half_even_def Let_def)

lemma round_half_even_mono:
  assumes "x \<le> y"
  shows "round_half_even x \<le> round_half_even y"
proof (cases "\<lfloor>x\<rfloor> = \<lfloor>y\<rfloor>")
  case True
  with assms show ?thesis by (auto simp: round_half_even_def Let_def)
next
  case False
  with assms have "\<lfloor>x\<rfloor> + 1 \<le> \<lfloor>y\<rfloor>" using floor_mono [OF assms] by linarith
  with round_half_even_bounds [of x] round_half_even_bounds [of y] show ?thesis by linarith
qed

lemma round_half_even_le: "x \<le> of_int m \<Longrightarrow> round_half_even x \<le> m"
  using round_half_even_mono [of x "of_int m"] by simp

lemma round_half_even_ge: "of_int m \<le> x \<Longrightarrow> m \<le> round_half_even x"
  using round_half_even_mono [of "of_int m" x] by simp

lemma round_half_even_minus: "round_half_even (- x) = - round_half_even x"
proof (cases "of_int \<lfloor>x\<rfloor> = x")
  case True
  then show ?thesis by (metis of_int_minus round_half_even_int)
next
  case False
  then have f: "of_int \<lfloor>x\<rfloor> < x" "x < of_int \<lfloor>x\<rfloor> + 1"
    using of_int_floor_le [of x] floor_correct [of x] by linarith+
  then have "\<lfloor>- x\<rfloor> = - \<lfloor>x\<rfloor> - 1" by (intro floor_unique) simp_all
  then show ?thesis by (auto simp: round_half_even_def Let_def)
qed

text \<open>Powers of two above the unit are fixed points that separate the binades.\<close>

lemma ulp_exp_minus [simp]: "ulp_exp p emin (- x) = ulp_exp p emin x"
  by (simp add: ulp_exp_def)

lemma fround_minus: "fround p emin (- x) = - fround p emin x"
  by (simp add: fround_def Let_def round_half_even_minus)

lemma powi_ratio_int: "a \<le> b \<Longrightarrow> \<exists>m. (2 :: rat) powi b / 2 powi a = of_int m"
  by (rule exI [of _ "2 ^ nat (b - a)"]) (simp add: power_int_nonneg_exp flip: powi_diff)

lemma round_scaled_le:
  assumes "x \<le> 2 powi b" "a \<le> b"
  shows "of_int (round_half_even (x / 2 powi a)) * 2 powi a \<le> (2 :: rat) powi b"
proof -
  obtain m where m: "(2 :: rat) powi b / 2 powi a = of_int m" using powi_ratio_int [OF assms(2)] by blast
  have "x / 2 powi a \<le> of_int m" using assms(1) by (simp flip: m add: divide_right_mono)
  then have "round_half_even (x / 2 powi a) \<le> m" by (rule round_half_even_le)
  then have "of_int (round_half_even (x / 2 powi a)) * 2 powi a \<le> of_int m * (2 :: rat) powi a"
    by (intro mult_right_mono) auto
  then show ?thesis by (simp flip: m)
qed

lemma round_scaled_ge:
  assumes "2 powi b \<le> x" "a \<le> b"
  shows "(2 :: rat) powi b \<le> of_int (round_half_even (x / 2 powi a)) * 2 powi a"
proof -
  obtain m where m: "(2 :: rat) powi b / 2 powi a = of_int m" using powi_ratio_int [OF assms(2)] by blast
  have "of_int m \<le> x / 2 powi a" using assms(1) by (simp flip: m add: divide_right_mono)
  then have "m \<le> round_half_even (x / 2 powi a)" by (rule round_half_even_ge)
  then have "of_int m * (2 :: rat) powi a \<le> of_int (round_half_even (x / 2 powi a)) * 2 powi a"
    by (intro mult_right_mono) auto
  then show ?thesis by (simp flip: m)
qed

lemma fround_nonneg: "0 \<le> x \<Longrightarrow> 0 \<le> fround p emin x"
  using round_half_even_mono [of 0 "x / 2 powi ulp_exp p emin x"] round_half_even_int [of 0]
  by (simp add: fround_def Let_def)

lemma fround_mono_pos:
  assumes p: "1 \<le> p" and x: "0 < x" "x \<le> y"
  shows "fround p emin x \<le> fround p emin y"
proof -
  let ?u = "ulp_exp p emin x" and ?v = "ulp_exp p emin y"
  have y: "0 < y" using x by linarith
  have uv: "?u \<le> ?v" using ilog2_mono [OF x] x y by (simp add: ulp_exp_def)
  show ?thesis
  proof (cases "?u = ?v")
    case True
    have "round_half_even (x / 2 powi ?v) \<le> round_half_even (y / 2 powi ?v)"
      using x(2) by (intro round_half_even_mono divide_right_mono) auto
    then show ?thesis using True x y by (simp add: fround_def Let_def)
  next
    case False
    let ?B = "ilog2 y"
    have v: "?v = ?B + 1 - int p" using False uv y by (auto simp: ulp_exp_def)
    have lxy: "ilog2 x + 1 \<le> ?B" using False uv v x by (auto simp: ulp_exp_def)
    have "x \<le> 2 powi ?B" using ilog2_bounds [OF x(1)] powi_mono [OF lxy] by linarith
    then have "fround p emin x \<le> 2 powi ?B"
      using round_scaled_le [of x ?B ?u] uv v p x(1) by (simp add: fround_def Let_def)
    also have "\<dots> \<le> fround p emin y"
      using round_scaled_ge [of ?B y ?v] ilog2_bounds [OF y] v p y by (simp add: fround_def Let_def)
    finally show ?thesis .
  qed
qed

lemma fround_mono:
  assumes "1 \<le> p" "x \<le> y"
  shows "fround p emin x \<le> fround p emin y"
proof -
  consider "0 < x" | "x \<le> 0" "0 \<le> y" | "y < 0" by linarith
  then show ?thesis
  proof cases
    case 1
    with assms show ?thesis by (rule_tac fround_mono_pos)
  next
    case 2
    then have "fround p emin x \<le> 0" using fround_nonneg [of "- x" p emin] by (simp add: fround_minus)
    with fround_nonneg [OF 2(2), of p emin] show ?thesis by linarith
  next
    case 3
    with assms have "fround p emin (- y) \<le> fround p emin (- x)" by (intro fround_mono_pos) auto
    then show ?thesis by (simp add: fround_minus)
  qed
qed

lemma fround_representable_pos:
  assumes p: "1 \<le> p" and m: "0 < (m :: int)" "m \<le> 2 ^ p" and e: "emin \<le> e"
  shows "fround p emin (of_int m * 2 powi e) = of_int m * 2 powi e"
proof -
  let ?y = "of_int m * 2 powi e :: rat" and ?u = "ulp_exp p emin (of_int m * 2 powi e)"
  have y: "0 < ?y" using m by simp
  have "?u \<le> e \<or> (m = 2 ^ p \<and> ?u \<le> e + 1)"
  proof (cases "m = 2 ^ p")
    case True
    then have "?y = 2 powi (int p + e)" by (simp add: powi_add)
    then have "ilog2 ?y = int p + e" by (intro ilog2_eqI) (auto simp: powi_add)
    then show ?thesis using e y True by (simp add: ulp_exp_def)
  next
    case False
    with m have "m < 2 ^ p" by linarith
    then have "(of_int m :: rat) < 2 ^ p" by (metis of_int_less_iff of_int_numeral of_int_power)
    then have "?y < 2 powi (int p + e)" by (simp add: powi_add)
    then have "2 powi ilog2 ?y < (2 :: rat) powi (int p + e)" using ilog2_bounds [OF y] by linarith
    then have "ilog2 ?y < int p + e" by (rule powi_less_imp)
    then show ?thesis using e y by (simp add: ulp_exp_def)
  qed
  then obtain k where "?y / 2 powi ?u = of_int k"
  proof (elim disjE conjE)
    assume "?u \<le> e"
    then obtain r where "(2 :: rat) powi e / 2 powi ?u = of_int r" using powi_ratio_int by blast
    then have "?y / 2 powi ?u = of_int (m * r)" by (simp add: field_simps)
    then show ?thesis by (rule that)
  next
    assume mp: "m = 2 ^ p" and u: "?u \<le> e + 1"
    then have y2: "?y = 2 powi (int p + e)" by (simp add: powi_add)
    have "?u \<le> int p + e" using u p by linarith
    then obtain r where "(2 :: rat) powi (int p + e) / 2 powi ?u = of_int r" using powi_ratio_int by blast
    then have "?y / 2 powi ?u = of_int r" by (simp only: y2)
    then show ?thesis by (rule that)
  qed
  then show ?thesis using y by (simp add: fround_def Let_def flip: of_int_mult) (simp add: field_simps)
qed

lemma fround_representable:
  assumes "1 \<le> p" "\<bar>m\<bar> \<le> 2 ^ p" "emin \<le> e"
  shows "fround p emin (of_int m * 2 powi e) = of_int m * 2 powi e"
proof -
  consider "m = 0" | "0 < m" | "m < 0" by linarith
  then show ?thesis
  proof cases
    case 3
    with assms fround_representable_pos [of p "- m" emin e] show ?thesis by (simp add: fround_minus)
  qed (use assms fround_representable_pos in \<open>auto simp: fround_def\<close>)
qed

lemma fround_form_pos:
  assumes x: "0 < x"
  shows "\<exists>m. fround p emin x = of_int m * 2 powi ulp_exp p emin x \<and> \<bar>m\<bar> \<le> 2 ^ p"
proof -
  let ?u = "ulp_exp p emin x"
  have "x / 2 powi ?u \<le> 2 powi (ilog2 x + 1) / 2 powi ?u"
    using ilog2_bounds [OF x] by (intro divide_right_mono) auto
  also have "\<dots> = 2 powi (ilog2 x + 1 - ?u)" by (simp add: powi_diff)
  also have "\<dots> \<le> 2 powi int p" using x by (intro powi_mono) (simp add: ulp_exp_def)
  also have "\<dots> = of_int (2 ^ p)" by simp
  finally have up: "round_half_even (x / 2 powi ?u) \<le> 2 ^ p" by (rule round_half_even_le)
  have "0 \<le> round_half_even (x / 2 powi ?u)"
    using round_half_even_mono [of 0 "x / 2 powi ?u"] round_half_even_int [of 0] x by simp
  with up x show ?thesis
    by (intro exI [of _ "round_half_even (x / 2 powi ?u)"]) (simp add: fround_def Let_def)
qed

lemma fround_form:
  "\<exists>m e. fround p emin x = of_int m * 2 powi e \<and> \<bar>m\<bar> \<le> 2 ^ p \<and> emin \<le> e"
proof -
  consider "x = 0" | "0 < x" | "x < 0" by linarith
  then show ?thesis
  proof cases
    case 1
    then show ?thesis by (intro exI [of _ 0] exI [of _ emin]) (simp add: fround_def)
  next
    case 2
    from fround_form_pos [OF this, of p emin] obtain m where
      "fround p emin x = of_int m * 2 powi ulp_exp p emin x" "\<bar>m\<bar> \<le> 2 ^ p" by blast
    then show ?thesis by (intro exI [of _ m] exI [of _ "ulp_exp p emin x"]) (simp add: ulp_exp_def)
  next
    case 3
    then have "0 < - x" by simp
    from fround_form_pos [OF this, of p emin] obtain m where
      m: "- fround p emin x = of_int m * 2 powi ulp_exp p emin x" "\<bar>m\<bar> \<le> 2 ^ p"
      by (auto simp: fround_minus)
    from m(1) have "fround p emin x = of_int (- m) * 2 powi ulp_exp p emin x" by linarith
    with m(2) show ?thesis by (intro exI [of _ "- m"] exI [of _ "ulp_exp p emin x"]) (simp add: ulp_exp_def)
  qed
qed

lemma fround_idem:
  assumes "1 \<le> p"
  shows "fround p emin (fround p emin x) = fround p emin x"
proof -
  obtain m e where m: "fround p emin x = of_int m * 2 powi e" "\<bar>m\<bar> \<le> 2 ^ p" "emin \<le> e"
    using fround_form by blast
  from fround_representable [OF assms m(2,3)] show ?thesis by (simp only: m(1))
qed

lemma round_half_even_error: "\<bar>of_int (round_half_even x) - x\<bar> \<le> 1 / 2"
proof -
  have "of_int \<lfloor>x\<rfloor> \<le> x" "x < of_int \<lfloor>x\<rfloor> + 1" by linarith+
  then show ?thesis unfolding round_half_even_def Let_def by (simp only: of_int_add of_int_1 abs_le_iff split: if_splits) linarith
qed

lemma fround_error:
  assumes x: "\<bar>x\<bar> < 2 powi (k + 1)" and k: "emin \<le> k + 1 - int p"
  shows "\<bar>fround p emin x - x\<bar> \<le> 2 powi (k - int p)"
proof (cases "x = 0")
  case False
  let ?u = "ulp_exp p emin x"
  have "2 powi ilog2 \<bar>x\<bar> < (2 :: rat) powi (k + 1)" using ilog2_bounds [of "\<bar>x\<bar>"] False x by auto
  then have "ilog2 \<bar>x\<bar> < k + 1" by (rule powi_less_imp)
  then have u: "?u \<le> k + 1 - int p" using k by (simp add: ulp_exp_def)
  have "fround p emin x - x = (of_int (round_half_even (x / 2 powi ?u)) - x / 2 powi ?u) * 2 powi ?u"
    using False by (simp add: fround_def Let_def field_simps)
  then have "\<bar>fround p emin x - x\<bar> = \<bar>of_int (round_half_even (x / 2 powi ?u)) - x / 2 powi ?u\<bar> * 2 powi ?u"
    by (simp add: abs_mult)
  also have "\<dots> \<le> 1 / 2 * 2 powi ?u" by (intro mult_right_mono round_half_even_error) auto
  also have "\<dots> \<le> 1 / 2 * 2 powi (k + 1 - int p)" using powi_mono [OF u] by simp
  also have "\<dots> = 2 powi (k - int p)" by (simp add: powi_diff powi_add)
  finally show ?thesis .
qed (simp add: fround_def)

lemma fround_of_int:
  assumes "1 \<le> p" "\<bar>m\<bar> \<le> 2 ^ p" "emin \<le> 0"
  shows "fround p emin (of_int m) = of_int m"
  using fround_representable [OF assms(1,2), of emin 0] assms(3) by simp

interpretation f32: rounding rnd32 24
proof
  show "x \<le> y \<Longrightarrow> rnd32 x \<le> rnd32 y" for x y by (simp add: rnd32_def fround_mono)
  show "\<bar>n\<bar> \<le> 2 ^ 24 \<Longrightarrow> rnd32 (of_int n) = of_int n" for n
    unfolding rnd32_def by (rule fround_of_int) auto
  show "rnd32 (rnd32 x) = rnd32 x" for x by (simp add: rnd32_def fround_idem)
qed

interpretation f64: rounding rnd64 53
proof
  show "x \<le> y \<Longrightarrow> rnd64 x \<le> rnd64 y" for x y by (simp add: rnd64_def fround_mono)
  show "\<bar>n\<bar> \<le> 2 ^ 53 \<Longrightarrow> rnd64 (of_int n) = of_int n" for n
    unfolding rnd64_def by (rule fround_of_int) auto
  show "rnd64 (rnd64 x) = rnd64 x" for x by (simp add: rnd64_def fround_idem)
qed

subsection \<open>Conversions\<close>

lemma as_u32_mono: "x \<le> y \<Longrightarrow> as_u32 x \<le> as_u32 y"
  unfolding as_u32_def by (intro min.mono nat_mono floor_mono) auto

lemma as_u32_le_nat: "x \<le> of_nat n \<Longrightarrow> as_u32 x \<le> n"
proof -
  assume "x \<le> of_nat n"
  then have "\<lfloor>x\<rfloor> \<le> int n" by (simp add: floor_le_iff)
  then show "as_u32 x \<le> n" by (simp add: as_u32_def)
qed

lemma as_u32_ge_nat: "of_nat n \<le> x \<Longrightarrow> n \<le> u32_max \<Longrightarrow> n \<le> as_u32 x"
proof -
  assume "of_nat n \<le> x" "n \<le> u32_max"
  then have "int n \<le> \<lfloor>x\<rfloor>" by (simp add: le_floor_iff)
  then show "n \<le> as_u32 x" using \<open>n \<le> u32_max\<close> by (simp add: as_u32_def)
qed

lemma as_u32_max: "as_u32 x \<le> u32_max"
  by (simp add: as_u32_def)

lemma round_away_mono:
  assumes "x \<le> y"
  shows "round_away x \<le> round_away y"
proof -
  consider "0 \<le> x" | "x < 0" "0 \<le> y" | "y < 0" by linarith
  then show ?thesis
  proof cases
    case 1
    with assms show ?thesis by (simp add: round_away_def floor_mono)
  next
    case 2
    then have "0 \<le> (of_int \<lfloor>1 / 2 - x\<rfloor> :: rat)" "0 \<le> (of_int \<lfloor>y + 1 / 2\<rfloor> :: rat)" by simp_all
    then have "- of_int \<lfloor>1 / 2 - x\<rfloor> \<le> (of_int \<lfloor>y + 1 / 2\<rfloor> :: rat)" by linarith
    with 2 show ?thesis by (simp add: round_away_def)
  next
    case 3
    with assms show ?thesis by (simp add: round_away_def floor_mono)
  qed
qed

lemma f32_of_mono: "a \<le> b \<Longrightarrow> f32_of a \<le> f32_of b"
  unfolding f32_of_def by (rule f32.rnd_mono) simp

lemma f32_of_nonneg [simp]: "0 \<le> f32_of n"
  by (simp add: f32_of_def f32.nonneg)

lemma f32_of_exact: "n \<le> 16777216 \<Longrightarrow> f32_of n = of_nat n"
  unfolding f32_of_def by (rule f32.nat_exact) simp

lemma f64_of_exact: "n \<le> 9007199254740992 \<Longrightarrow> f64_of n = of_nat n"
  unfolding f64_of_def by (rule f64.nat_exact) simp

lemma f64_of_nonneg [simp]: "0 \<le> f64_of n"
  by (simp add: f64_of_def f64.nonneg)

end
