(* ===== verification/Pulsar_Galois.thy ===== *)
theory Pulsar_Galois
  imports Pulsar_Prelude
begin

text \<open>
  The arithmetic under the Reed-Solomon code (\<^verbatim>\<open>reed-solomon-erasure\<close>): the \<^verbatim>\<open>Field\<close> trait as a record of
  operations, the table generators of \<^verbatim>\<open>build.rs\<close>, and \<^verbatim>\<open>galois_8.rs\<close> on bytes with its unrolled slice loops.
  The generated tables are shown to be a field: the powers of two run through all nonzero bytes, so
  multiplication is addition of logarithms and, by linearity of doubling, distributes over XOR. The contract
  the matrix and codec layers rely on is the locale \<open>field_impl\<close>, an embedding of the elements into a field.
\<close>

subsection \<open>The \<^verbatim>\<open>Field\<close> trait\<close>

text \<open>\<^verbatim>\<open>None\<close> stands for a panic: a zero divisor, an index past the field, slices of different lengths.\<close>

record 'e field_ops =
  F_ORDER :: nat
  F_add :: "'e \<Rightarrow> 'e \<Rightarrow> 'e"
  F_mul :: "'e \<Rightarrow> 'e \<Rightarrow> 'e"
  F_div :: "'e \<Rightarrow> 'e \<Rightarrow> 'e option"
  F_exp :: "'e \<Rightarrow> nat \<Rightarrow> 'e"
  F_zero :: 'e
  F_one :: 'e
  F_nth_internal :: "nat \<Rightarrow> 'e"
  F_mul_slice :: "'e \<Rightarrow> 'e list \<Rightarrow> 'e list \<Rightarrow> 'e list option"
  F_mul_slice_add :: "'e \<Rightarrow> 'e list \<Rightarrow> 'e list \<Rightarrow> 'e list option"

definition F_nth :: "'e field_ops \<Rightarrow> nat \<Rightarrow> 'e option" where
  "F_nth F n = (if n \<ge> F_ORDER F then None else Some (F_nth_internal F n))"

subsection \<open>The tables of \<^verbatim>\<open>build.rs\<close>\<close>

definition FIELD_SIZE :: nat where "FIELD_SIZE = 256"
definition GENERATING_POLYNOMIAL :: nat where "GENERATING_POLYNOMIAL = 29"
definition EXP_TABLE_SIZE :: nat where "EXP_TABLE_SIZE = FIELD_SIZE * 2 - 2"

definition next_b :: "nat \<Rightarrow> nat \<Rightarrow> nat" where
  "next_b poly b = (let b = push_bit 1 b in if FIELD_SIZE \<le> b then (b - FIELD_SIZE) XOR poly else b)"

definition log_step :: "nat \<Rightarrow> u8 list \<times> nat \<Rightarrow> nat \<Rightarrow> u8 list \<times> nat" where
  "log_step poly s lg = (case s of (result, b) \<Rightarrow> (result[b := of_nat lg], next_b poly b))"

definition gen_log_table :: "nat \<Rightarrow> u8 list" where
  "gen_log_table poly = fst (foldl (log_step poly) (replicate FIELD_SIZE 0, 1) [0..<FIELD_SIZE - 1])"

definition exp_step :: "u8 list \<Rightarrow> u8 list \<Rightarrow> nat \<Rightarrow> u8 list" where
  "exp_step log_table result i =
     (let lg = unat (log_table ! i) in result[lg := of_nat i, lg + FIELD_SIZE - 1 := of_nat i])"

definition gen_exp_table :: "u8 list \<Rightarrow> u8 list" where
  "gen_exp_table log_table = foldl (exp_step log_table) (replicate EXP_TABLE_SIZE 0) [1..<FIELD_SIZE]"

definition multiply :: "u8 list \<Rightarrow> u8 list \<Rightarrow> u8 \<Rightarrow> u8 \<Rightarrow> u8" where
  "multiply log_table exp_table a b =
     (if a = 0 \<or> b = 0 then 0
      else exp_table ! (unat (log_table ! unat a) + unat (log_table ! unat b)))"

definition gen_mul_table :: "u8 list \<Rightarrow> u8 list \<Rightarrow> u8 list list" where
  "gen_mul_table log_table exp_table =
     map (\<lambda>a. map (\<lambda>b. multiply log_table exp_table (of_nat a) (of_nat b)) [0..<FIELD_SIZE]) [0..<FIELD_SIZE]"

definition LOG_TABLE :: "u8 list" where "LOG_TABLE = gen_log_table GENERATING_POLYNOMIAL"
definition EXP_TABLE :: "u8 list" where "EXP_TABLE = gen_exp_table LOG_TABLE"
definition MUL_TABLE :: "u8 list list" where "MUL_TABLE = gen_mul_table LOG_TABLE EXP_TABLE"

subsection \<open>\<^verbatim>\<open>galois_8.rs\<close>\<close>

definition gf_add :: "u8 \<Rightarrow> u8 \<Rightarrow> u8" where "gf_add a b = a XOR b"
definition gf_mul :: "u8 \<Rightarrow> u8 \<Rightarrow> u8" where "gf_mul a b = MUL_TABLE ! unat a ! unat b"

definition gf_div :: "u8 \<Rightarrow> u8 \<Rightarrow> u8 option" where
  "gf_div a b =
     (if a = 0 then Some 0
      else if b = 0 then None
      else let log_a = uint (LOG_TABLE ! unat a); log_b = uint (LOG_TABLE ! unat b);
               log_result = log_a - log_b;
               log_result = (if log_result < 0 then log_result + 255 else log_result)
           in Some (EXP_TABLE ! nat log_result))"

fun reduce_log :: "nat \<Rightarrow> nat" where
  "reduce_log log_result = (if 255 \<le> log_result then reduce_log (log_result - 255) else log_result)"

declare reduce_log.simps [simp del]

definition gf_exp :: "u8 \<Rightarrow> nat \<Rightarrow> u8" where
  "gf_exp a n =
     (if n = 0 then 1
      else if a = 0 then 0
      else EXP_TABLE ! reduce_log (unat (LOG_TABLE ! unat a) * n))"

definition PURE_RUST_UNROLL :: nat where "PURE_RUST_UNROLL = 4"

text \<open>The loop that writes four bytes per round while more than four are left, and the loop over the rest.\<close>

function unrolled_loop :: "(u8 \<Rightarrow> u8 \<Rightarrow> u8) \<Rightarrow> bytes \<Rightarrow> nat \<Rightarrow> bytes \<Rightarrow> nat \<times> bytes" where
  "unrolled_loop w input n out =
     (if n < length input - PURE_RUST_UNROLL
      then unrolled_loop w input (n + PURE_RUST_UNROLL)
        (out[n := w (out ! n) (input ! n), n + 1 := w (out ! (n + 1)) (input ! (n + 1)),
             n + 2 := w (out ! (n + 2)) (input ! (n + 2)), n + 3 := w (out ! (n + 3)) (input ! (n + 3))])
      else (n, out))"
  by pat_completeness auto
termination by (relation "measure (\<lambda>(w, input, n, out). length input - n)") (auto simp: PURE_RUST_UNROLL_def)

function tail_loop :: "(u8 \<Rightarrow> u8 \<Rightarrow> u8) \<Rightarrow> bytes \<Rightarrow> nat \<Rightarrow> bytes \<Rightarrow> bytes" where
  "tail_loop w input n out =
     (if n < length input then tail_loop w input (n + 1) (out[n := w (out ! n) (input ! n)]) else out)"
  by pat_completeness auto
termination by (relation "measure (\<lambda>(w, input, n, out). length input - n)") auto

declare unrolled_loop.simps [simp del] tail_loop.simps [simp del]

definition slice_loop :: "(u8 \<Rightarrow> u8 \<Rightarrow> u8) \<Rightarrow> bytes \<Rightarrow> bytes \<Rightarrow> bytes option" where
  "slice_loop w input out =
     (if length input \<noteq> length out then None
      else if length input = 0 then Some out
      else case unrolled_loop w input 0 out of (n, out) \<Rightarrow> Some (tail_loop w input n out))"

definition mul_slice :: "u8 \<Rightarrow> bytes \<Rightarrow> bytes \<Rightarrow> bytes option" where
  "mul_slice c = (let mt = MUL_TABLE ! unat c in slice_loop (\<lambda>_ i. mt ! unat i))"

definition mul_slice_xor :: "u8 \<Rightarrow> bytes \<Rightarrow> bytes \<Rightarrow> bytes option" where
  "mul_slice_xor c = (let mt = MUL_TABLE ! unat c in slice_loop (\<lambda>out i. out XOR mt ! unat i))"

definition galois_8 :: "u8 field_ops" where
  "galois_8 = \<lparr>F_ORDER = 256, F_add = gf_add, F_mul = gf_mul, F_div = gf_div, F_exp = gf_exp, F_zero = 0, F_one = 1,
     F_nth_internal = of_nat, F_mul_slice = mul_slice, F_mul_slice_add = mul_slice_xor\<rparr>"

subsection \<open>The powers of two\<close>

abbreviation nb :: "nat \<Rightarrow> nat" where "nb \<equiv> next_b GENERATING_POLYNOMIAL"

definition pow2 :: "nat \<Rightarrow> nat" where "pow2 i = (nb ^^ i) 1"

lemma nb_eq: "nb b = (if b < 128 then 2 * b else (2 * b - 256) XOR 29)"
  by (auto simp: next_b_def FIELD_SIZE_def GENERATING_POLYNOMIAL_def push_bit_eq_mult Let_def mult.commute)

fun orbit :: "nat \<Rightarrow> nat \<Rightarrow> nat list" where "orbit 0 b = []" | "orbit (Suc n) b = b # orbit n (nb b)"

lemma orbit_numeral: "orbit (numeral k) b = b # orbit (pred_numeral k) (nb b)" by (simp add: numeral_eq_Suc)

lemma orbit_nth: "i < n \<Longrightarrow> orbit n b ! i = (nb ^^ i) b"
  by (induction n b arbitrary: i rule: orbit.induct) (auto simp: nth_Cons' funpow_swap1 gr0_conv_Suc)

lemma length_orbit [simp]: "length (orbit n b) = n"
  by (induction n b rule: orbit.induct) auto

lemma orbit_ok: "list_all (\<lambda>x. x \<noteq> 1 \<and> x \<noteq> 0) (tl (orbit 255 1)) \<and> nb (last (orbit 255 1)) = 1"
  by (simp add: orbit_numeral nb_eq)

lemma nb_odd: "odd (nb b) \<longleftrightarrow> 128 \<le> b"
  by (auto simp: nb_eq even_xor_iff)

lemma xor_less_256: "x < 256 \<Longrightarrow> y < 256 \<Longrightarrow> x XOR y < (256 :: nat)"
  using take_bit_nat_eq_self_iff [of 8 "x XOR y"] take_bit_nat_eq_self_iff [of 8 x] take_bit_nat_eq_self_iff [of 8 y]
  by (simp add: take_bit_xor)

lemma nb_less: "b < 256 \<Longrightarrow> nb b < 256"
  using xor_less_256 [of "2 * b - 256" 29] by (simp add: nb_eq)

lemma xor_cancel: "x XOR y = z XOR y \<Longrightarrow> x = (z :: nat)"
  by (metis xor.assoc xor_self_eq xor.right_neutral)

lemma nb_inj: "nb b = nb c \<Longrightarrow> b = c"
  using nb_odd [of b] nb_odd [of c] by (auto simp: nb_eq dest!: xor_cancel split: if_splits)

lemma pow2_Suc: "pow2 (Suc i) = nb (pow2 i)" and pow2_0 [simp]: "pow2 0 = 1"
  by (simp_all add: pow2_def)

lemma pow2_less: "pow2 i < 256"
  by (induction i) (simp_all add: pow2_Suc nb_less)

lemma pow2_not_1: "0 < i \<Longrightarrow> i < 255 \<Longrightarrow> pow2 i \<noteq> 1"
proof -
  assume i: "0 < i" "i < 255"
  then have "pow2 i \<in> set (tl (orbit 255 1))"
    using orbit_nth [of i 255 1] nth_tl [of "i - 1" "orbit 255 1"] nth_mem [of "i - 1" "tl (orbit 255 1)"]
    by (simp add: pow2_def)
  then show ?thesis using orbit_ok by (auto simp: list_all_iff)
qed

lemma pow2_255: "pow2 255 = 1"
proof -
  have "last (orbit 255 1) = pow2 254"
    using orbit_nth [of 254 255 1] last_conv_nth [of "orbit 255 1"] by (simp add: pow2_def flip: length_0_conv)
  then show ?thesis using orbit_ok pow2_Suc [of 254] by simp
qed

lemma pow2_add_eq: "pow2 (i + d) = pow2 i \<Longrightarrow> pow2 d = 1"
proof (induction i)
  case (Suc i)
  then show ?case using nb_inj [of "pow2 (i + d)" "pow2 i"] by (simp add: pow2_Suc)
qed simp

lemma pow2_inj: "i < 255 \<Longrightarrow> j < 255 \<Longrightarrow> pow2 i = pow2 j \<Longrightarrow> i = j"
proof (induction i j rule: linorder_wlog)
  case (le i j)
  then have "pow2 (j - i) = 1" using pow2_add_eq [of i "j - i"] by simp
  then show ?case using le pow2_not_1 [of "j - i"] by (cases "i = j") (auto simp: less_imp_diff_less)
qed auto

lemma pow2_periodic: "pow2 (255 + i) = pow2 i"
proof -
  have "pow2 (i + 255) = (nb ^^ i) (pow2 255)" by (simp add: pow2_def funpow_add)
  also have "\<dots> = pow2 i" unfolding pow2_255 by (simp add: pow2_def)
  finally show ?thesis by (simp add: add.commute)
qed

lemma pow2_mod: "pow2 (i mod 255) = pow2 i"
proof (induction i rule: less_induct)
  case (less i)
  show ?case
  proof (cases "i < 255")
    case False
    then show ?thesis using less [of "i - 255"] pow2_periodic [of "i - 255"] by (simp add: le_mod_geq)
  qed simp
qed

lemma pow2_nz: "pow2 i \<noteq> 0"
proof -
  have "pow2 i \<noteq> 0" if "i < 255" for i
    using orbit_ok nth_mem [of "i - 1" "tl (orbit 255 1)"] that
    by (cases i) (auto simp: list_all_iff nth_tl orbit_nth pow2_def)
  then show ?thesis using pow2_mod [of i] by (metis mod_less_divisor zero_less_numeral)
qed

lemma pow2_surj: assumes "0 < a" "a < 256" obtains i where "i < 255" "a = pow2 i"
proof -
  have "inj_on pow2 {..<255}" using pow2_inj by (auto intro: inj_onI)
  then have "card (pow2 ` {..<255}) = 255" by (simp add: card_image)
  moreover have "pow2 ` {..<255} \<subseteq> {1..<256}" using pow2_less pow2_nz by (auto simp: Suc_le_eq)
  ultimately have "pow2 ` {..<255} = {1..<256}" by (intro card_subset_eq) auto
  then have "a \<in> pow2 ` {..<255}" using assms by auto
  then show thesis using that by auto
qed

subsection \<open>The tables\<close>

lemma log_loop:
  assumes "n \<le> 255"
  defines "s \<equiv> foldl (log_step GENERATING_POLYNOMIAL) (replicate FIELD_SIZE 0, 1) [0..<n]"
  shows "snd s = pow2 n \<and> length (fst s) = 256 \<and> (\<forall>i<n. fst s ! pow2 i = of_nat i)"
  unfolding s_def using assms(1)
proof (induction n)
  case (Suc n)
  have "pow2 n \<noteq> pow2 i" if "i < n" for i using that Suc.prems pow2_inj [of i n] by auto
  then show ?case using Suc pow2_less by (auto simp: log_step_def case_prod_beta pow2_Suc nth_list_update less_Suc_eq)
qed (simp add: FIELD_SIZE_def)

lemma LOG_TABLE_length [simp]: "length LOG_TABLE = 256"
  and LOG_TABLE_nth: "i < 255 \<Longrightarrow> LOG_TABLE ! pow2 i = of_nat i"
  using log_loop [of 255] by (simp_all add: LOG_TABLE_def gen_log_table_def FIELD_SIZE_def)

lemma exp_loop:
  assumes "n \<le> 255"
  defines "s \<equiv> foldl (exp_step LOG_TABLE) (replicate EXP_TABLE_SIZE 0) [1..<Suc n]"
  shows "length s = 510 \<and> (\<forall>i<255. pow2 i \<le> n \<longrightarrow> s ! i = of_nat (pow2 i) \<and> s ! (i + 255) = of_nat (pow2 i))"
  unfolding s_def using assms(1)
proof (induction n)
  case 0
  then show ?case using pow2_nz by (simp add: EXP_TABLE_SIZE_def FIELD_SIZE_def)
next
  case (Suc n)
  let ?s = "foldl (exp_step LOG_TABLE) (replicate EXP_TABLE_SIZE 0) [1..<Suc n]"
  from Suc have s: "length ?s = 510" "\<And>i. i<255 \<Longrightarrow> pow2 i \<le> n \<Longrightarrow> ?s ! i = of_nat (pow2 i) \<and> ?s ! (i + 255) = of_nat (pow2 i)" by auto
  obtain j where j: "j < 255" "Suc n = pow2 j" using pow2_surj [of "Suc n"] Suc.prems by auto
  have lg: "unat (LOG_TABLE ! Suc n) = j" using j LOG_TABLE_nth by (simp add: unat_of_nat)
  have "[1..<Suc (Suc n)] = [1..<Suc n] @ [Suc n]" by simp
  then have step: "foldl (exp_step LOG_TABLE) (replicate EXP_TABLE_SIZE 0) [1..<Suc (Suc n)] =
      ?s[j := of_nat (pow2 j), j + 255 := of_nat (pow2 j)]"
    by (simp only: foldl_append foldl.simps exp_step_def lg Let_def) (simp add: j(2) [symmetric] FIELD_SIZE_def add.commute)
  let ?t = "?s[j := of_nat (pow2 j), j + 255 := of_nat (pow2 j)]"
  have "?t ! i = of_nat (pow2 i) \<and> ?t ! (i + 255) = of_nat (pow2 i)" if "i < 255" "pow2 i \<le> Suc n" for i
  proof (cases "i = j")
    case False
    then have "pow2 i \<le> n" using pow2_inj [OF that(1) j(1)] that(2) j(2) by fastforce
    then show ?thesis using s(2) [OF that(1)] False that(1) j(1) by (simp add: nth_list_update)
  qed (use s(1) j(1) in \<open>simp add: nth_list_update\<close>)
  then show ?case unfolding step using s(1) by (simp only: length_list_update) blast
qed

lemma EXP_TABLE_nth: "i < 510 \<Longrightarrow> EXP_TABLE ! i = of_nat (pow2 i)"
proof -
  assume i: "i < 510"
  have "EXP_TABLE ! j = of_nat (pow2 j) \<and> EXP_TABLE ! (j + 255) = of_nat (pow2 j)" if "j < 255" for j
    using exp_loop [of 255] that pow2_less [of j] unfolding EXP_TABLE_def gen_exp_table_def FIELD_SIZE_def
    by (simp add: less_Suc_eq_le [symmetric])
  from this [of i] this [of "i - 255"] show ?thesis
    using i pow2_periodic [of "i - 255"] by (cases "i < 255") auto
qed

definition gpow :: "nat \<Rightarrow> u8" where "gpow i = of_nat (pow2 i)"

lemma unat_P [simp]: "unat (gpow i) = pow2 i"
  using pow2_less [of i] by (simp add: gpow_def unat_of_nat)

lemma P_nz [simp]: "gpow i \<noteq> 0"
  using pow2_nz [of i] by (metis unat_P unat_0)

lemma P_0 [simp]: "gpow 0 = 1" by (simp add: gpow_def)

lemma P_mod: "gpow (i mod 255) = gpow i" by (simp add: gpow_def pow2_mod)

lemma P_inj: "i < 255 \<Longrightarrow> j < 255 \<Longrightarrow> gpow i = gpow j \<longleftrightarrow> i = j"
  using pow2_inj [of i j] by (metis unat_P)

lemma nonzero_P: assumes "a \<noteq> 0" obtains i where "i < 255" "a = gpow i"
proof -
  have "0 < unat a" "unat a < 256" using assms unsigned_less [of a, where ?'a = nat] by (simp_all add: unat_gt_0)
  then obtain i where "i < 255" "unat a = pow2 i" by (rule pow2_surj)
  then show thesis using that [of i] by (metis unat_P word_unat_eq_iff)
qed

lemma LOG_P: "LOG_TABLE ! pow2 i = of_nat (i mod 255)"
  using LOG_TABLE_nth [of "i mod 255"] by (simp add: pow2_mod)

lemma unat_LOG [simp]: "unat (LOG_TABLE ! pow2 i) = i mod 255"
proof -
  have "i mod 255 < 256" using mod_less_divisor [of 255 i] by linarith
  then show ?thesis by (simp add: LOG_P unat_of_nat)
qed

lemma EXP_P: "i < 510 \<Longrightarrow> EXP_TABLE ! i = gpow i"
  by (simp add: EXP_TABLE_nth gpow_def)

lemma gf_mul_eq: "gf_mul a b = multiply LOG_TABLE EXP_TABLE a b"
  using unsigned_less [of a, where ?'a = nat] unsigned_less [of b, where ?'a = nat]
  by (simp add: gf_mul_def MUL_TABLE_def gen_mul_table_def FIELD_SIZE_def)

lemma gf_mul_zero [simp]: "gf_mul 0 b = 0" "gf_mul a 0 = 0"
  by (simp_all add: gf_mul_eq multiply_def)

lemma gf_mul_P: "gf_mul (gpow i) (gpow j) = gpow (i + j)"
proof -
  have "i mod 255 + j mod 255 < 510" using mod_less_divisor [of 255 i] mod_less_divisor [of 255 j] by linarith
  then have "gf_mul (gpow i) (gpow j) = gpow (i mod 255 + j mod 255)" by (simp add: gf_mul_eq multiply_def EXP_P)
  also have "\<dots> = gpow ((i mod 255 + j mod 255) mod 255)" by (simp only: P_mod)
  also have "\<dots> = gpow ((i + j) mod 255)" by (simp only: mod_add_eq)
  finally show ?thesis by (simp only: P_mod)
qed

subsection \<open>The field of bytes\<close>

definition xtime :: "u8 \<Rightarrow> u8" where "xtime w = push_bit 1 w XOR (if bit w 7 then 29 else 0)"

lemma xtime_xor: "xtime (a XOR b) = xtime a XOR xtime b"
  by (rule bit_word_eqI) (auto simp: xtime_def bit_simps)

lemma of_nat_xor: "(of_nat (x XOR y) :: u8) = of_nat x XOR of_nat y"
  by (rule bit_word_eqI) (simp add: bit_simps)

lemma xtime_P: "xtime (gpow i) = gpow (Suc i)"
proof -
  have le: "bit (gpow i) 7 \<longleftrightarrow> 128 \<le> pow2 i"
  proof -
    have "bit (gpow i) 7 \<longleftrightarrow> bit (unat (gpow i)) 7" by (simp only: bit_unsigned_iff) simp
    then have "bit (gpow i) 7 \<longleftrightarrow> odd (pow2 i div 128)" by (simp add: bit_iff_odd)
    moreover have "pow2 i div 128 = 0 \<or> pow2 i div 128 = 1" using pow2_less [of i] by linarith
    ultimately show ?thesis using pow2_less [of i] by auto
  qed
  have z: "(256 :: u8) = 0" by code_simp
  then show ?thesis unfolding xtime_def le
    by (auto simp: gpow_def pow2_Suc nb_eq of_nat_xor push_bit_eq_mult mult.commute z)
qed

lemma gf_mul_P_xtime: "gf_mul (gpow i) b = (xtime ^^ i) b"
proof (cases "b = 0")
  case True
  have "(xtime ^^ i) 0 = 0" by (induction i) (simp_all add: xtime_def)
  with True show ?thesis by simp
next
  case False
  then obtain j where j: "b = gpow j" by (rule nonzero_P)
  have "(xtime ^^ i) (gpow j) = gpow (i + j)" by (induction i) (simp_all add: xtime_P)
  then show ?thesis by (simp add: j gf_mul_P)
qed

lemma gf_mul_xor: "gf_mul a (b XOR c) = gf_mul a b XOR gf_mul a c"
proof (cases "a = 0")
  case False
  then obtain i where i: "a = gpow i" by (rule nonzero_P)
  have "(xtime ^^ i) (b XOR c) = (xtime ^^ i) b XOR (xtime ^^ i) c" by (induction i) (simp_all add: xtime_xor)
  then show ?thesis by (simp add: i gf_mul_P_xtime)
qed simp

lemma gf_mul_commute: "gf_mul a b = gf_mul b a"
  by (cases "a = 0"; cases "b = 0") (auto simp: gf_mul_P add.commute elim!: nonzero_P)

lemma gf_mul_assoc: "gf_mul (gf_mul a b) c = gf_mul a (gf_mul b c)"
  by (cases "a = 0"; cases "b = 0"; cases "c = 0") (auto simp: gf_mul_P add.assoc elim!: nonzero_P)

lemma gf_mul_one: "gf_mul 1 a = a"
  using gf_mul_P_xtime [of 0 a] by simp

lemma gf_div_P: "gf_div (gpow i) (gpow j) = Some (gpow (i mod 255 + (255 - j mod 255)))"
proof -
  let ?a = "i mod 255" and ?b = "j mod 255"
  have ab: "?a < 255" "?b < 255" by simp_all
  have u: "uint (LOG_TABLE ! pow2 i) = int ?a" "uint (LOG_TABLE ! pow2 j) = int ?b"
    by (metis uint_nat unat_LOG)+
  show ?thesis
  proof (cases "?a < ?b")
    case True
    then have "nat (int ?a - int ?b + 255) = ?a + (255 - ?b)" using ab by linarith
    moreover have "EXP_TABLE ! (?a + (255 - ?b)) = gpow (?a + (255 - ?b))" using True ab by (intro EXP_P) linarith
    ultimately show ?thesis using True by (simp add: gf_div_def u Let_def)
  next
    case False
    then have "nat (int ?a - int ?b) = ?a - ?b" by linarith
    moreover have "gpow (?a + (255 - ?b)) = gpow (?a - ?b)"
      using P_mod [of "?a + (255 - ?b)"] P_mod [of "?a - ?b"] False ab by (simp add: le_mod_geq)
    moreover have "EXP_TABLE ! (?a - ?b) = gpow (?a - ?b)" using ab by (intro EXP_P) linarith
    ultimately show ?thesis using False by (simp add: gf_div_def u Let_def)
  qed
qed

lemma gf_div_mul: "b \<noteq> 0 \<Longrightarrow> \<exists>q. gf_div a b = Some q \<and> gf_mul q b = a"
proof (cases "a = 0")
  case False
  assume "b \<noteq> 0"
  with False obtain i j where ij: "a = gpow i" "b = gpow j" by (metis nonzero_P)
  have "gpow (i mod 255 + (255 - j mod 255) + j) = gpow i"
  proof -
    have "(i mod 255 + (255 - j mod 255) + j) mod 255 = (i mod 255 + (255 - j mod 255) + j mod 255) mod 255"
      by (simp only: mod_add_right_eq)
    also have "\<dots> = (i mod 255 + 255) mod 255" using mod_less_divisor [of 255 j] by (simp add: add.assoc)
    finally have "(i mod 255 + (255 - j mod 255) + j) mod 255 = i mod 255" by simp
    then show ?thesis by (metis P_mod)
  qed
  then show ?thesis by (simp add: ij gf_div_P gf_mul_P)
qed (simp add: gf_div_def)

typedef gf = "UNIV :: u8 set" morphisms byte_of GF by simp

lemmas gf_inverse [simp] = GF_inverse [OF UNIV_I] byte_of_inverse

lemma GF_eq [simp]: "GF a = GF b \<longleftrightarrow> a = b" by (simp add: GF_inject)

instantiation gf :: field
begin
definition zero_gf :: gf where "zero_gf = GF 0"
definition one_gf :: gf where "one_gf = GF 1"
definition plus_gf :: "gf \<Rightarrow> gf \<Rightarrow> gf" where "plus_gf a b = GF (gf_add (byte_of a) (byte_of b))"
definition uminus_gf :: "gf \<Rightarrow> gf" where "uminus_gf a = a"
definition minus_gf :: "gf \<Rightarrow> gf \<Rightarrow> gf" where "minus_gf a b = GF (gf_add (byte_of a) (byte_of b))"
definition times_gf :: "gf \<Rightarrow> gf \<Rightarrow> gf" where "times_gf a b = GF (gf_mul (byte_of a) (byte_of b))"
definition inverse_gf :: "gf \<Rightarrow> gf" where
  "inverse_gf a = (case gf_div 1 (byte_of a) of Some q \<Rightarrow> GF q | None \<Rightarrow> GF 0)"
definition divide_gf :: "gf \<Rightarrow> gf \<Rightarrow> gf" where "divide_gf a b = a * inverse b"

lemmas gf_ops = zero_gf_def one_gf_def plus_gf_def minus_gf_def uminus_gf_def times_gf_def

instance
proof
  fix a b c :: gf
  show "a + b + c = a + (b + c)" "a + b = b + a" "0 + a = a" "- a + a = 0" "a - b = a + - b"
    by (simp_all add: gf_ops gf_add_def ac_simps)
  show "a * b * c = a * (b * c)" "1 * a = a" by (simp_all add: gf_ops gf_mul_assoc gf_mul_one)
  show "a * b = b * a" "(a + b) * c = a * c + b * c"
    using gf_mul_xor [of "byte_of c" "byte_of a" "byte_of b"] by (simp_all add: gf_ops gf_mul_commute gf_add_def)
  show "(0 :: gf) \<noteq> 1" by (simp add: gf_ops)
  show "inverse (0 :: gf) = 0" by (simp add: inverse_gf_def gf_ops gf_div_def)
  show "a div b = a * inverse b" by (rule divide_gf_def)
  assume "a \<noteq> 0"
  then have "byte_of a \<noteq> 0" by (metis zero_gf_def byte_of_inverse)
  then show "inverse a * a = 1" using gf_div_mul [of "byte_of a" 1] by (auto simp: inverse_gf_def gf_ops)
qed
end

lemma reduce_log_mod: "reduce_log n = n mod 255"
  by (induction n rule: reduce_log.induct) (subst reduce_log.simps, simp add: le_mod_geq)

lemma GF_P: "GF (gpow i) = GF (gpow 1) ^ i"
proof (induction i)
  case (Suc i)
  have "GF (gpow (Suc i)) = GF (gpow 1) * GF (gpow i)" using gf_mul_P [of 1 i] by (simp add: times_gf_def)
  with Suc show ?case by simp
qed (simp add: one_gf_def)

lemma GF_exp: "GF (gf_exp a n) = GF a ^ n"
proof (cases "a = 0 \<or> n = 0")
  case True
  then show ?thesis by (auto simp: gf_exp_def one_gf_def zero_gf_def [symmetric] power_0_left)
next
  case False
  then obtain i where i: "a = gpow i" by (auto elim: nonzero_P)
  have "gf_exp a n = gpow ((i mod 255 * n) mod 255)"
    using False by (simp add: gf_exp_def i reduce_log_mod EXP_P mod_less_divisor [THEN order_less_trans])
  also have "\<dots> = gpow (i * n)" by (metis P_mod mod_mult_left_eq)
  finally show ?thesis by (simp add: i GF_P [of "i * n"] GF_P [of i] power_mult)
qed

lemma gf_char2: "a + a = (0 :: gf)"
  by (simp add: gf_ops gf_add_def)

subsection \<open>Slices\<close>

lemma tail_loop_map2:
  "length out = length input \<Longrightarrow> n \<le> length input \<Longrightarrow>
    tail_loop w input n out = take n out @ map2 w (drop n out) (drop n input)"
proof (induction w input n out rule: tail_loop.induct)
  case (1 w input n out)
  show ?case
  proof (cases "n < length input")
    case True
    then have "tail_loop w input n out = take (n + 1) (out[n := w (out ! n) (input ! n)]) @
        map2 w (drop (n + 1) (out[n := w (out ! n) (input ! n)])) (drop (n + 1) input)"
      using 1 by (subst tail_loop.simps) simp
    then show ?thesis using True "1.prems"
      by (simp add: take_Suc_conv_app_nth take_update_swap drop_update_swap Cons_nth_drop_Suc [symmetric] nth_list_update
          list_update_append)
  qed (use "1.prems" in \<open>subst tail_loop.simps, simp\<close>)
qed

lemma tail_step: "n < length input \<Longrightarrow> tail_loop w input n out = tail_loop w input (Suc n) (out[n := w (out ! n) (input ! n)])"
  by (subst tail_loop.simps) simp

lemma unrolled_tail:
  "length out = length input \<Longrightarrow> unrolled_loop w input n out = (n', out') \<Longrightarrow>
    tail_loop w input n' out' = tail_loop w input n out"
proof (induction w input n out rule: unrolled_loop.induct)
  case (1 w input n out)
  show ?case
  proof (cases "n < length input - PURE_RUST_UNROLL")
    case True
    then have "Suc (Suc (Suc n)) < length input" by (simp add: PURE_RUST_UNROLL_def)
    then have four: "tail_loop w input n out = tail_loop w input (n + 4)
        (out[n := w (out ! n) (input ! n), n + 1 := w (out ! (n + 1)) (input ! (n + 1)),
             n + 2 := w (out ! (n + 2)) (input ! (n + 2)), n + 3 := w (out ! (n + 3)) (input ! (n + 3))])"
      by (simp add: tail_step nth_list_update numeral_eq_Suc)
    show ?thesis unfolding four
      using "1.IH" [OF True] "1.prems" True unrolled_loop.simps [of w input n out]
      by (simp add: PURE_RUST_UNROLL_def)
  qed (use "1.prems" unrolled_loop.simps [of w input n out] in simp)
qed

lemma slice_loop_map2: "length input = length out \<Longrightarrow> slice_loop w input out = Some (map2 w out input)"
proof -
  assume len: "length input = length out"
  obtain n' out' where u: "unrolled_loop w input 0 out = (n', out')" by fastforce
  have "tail_loop w input n' out' = map2 w out input"
    using unrolled_tail [OF len [symmetric] u] tail_loop_map2 [OF len [symmetric], of 0 w] by simp
  then show ?thesis using len by (simp add: slice_loop_def u)
qed

lemma mul_slice_map: "length input = length out \<Longrightarrow> mul_slice c input out = Some (map (gf_mul c) input)"
  by (auto simp: mul_slice_def slice_loop_map2 gf_mul_def Let_def intro: nth_equalityI)

lemma mul_slice_xor_map2:
  "length input = length out \<Longrightarrow> mul_slice_xor c input out = Some (map2 (\<lambda>o' i. gf_add o' (gf_mul c i)) out input)"
  by (simp add: mul_slice_xor_def slice_loop_map2 gf_mul_def gf_add_def Let_def)

subsection \<open>The contract of a field implementation\<close>

locale field_impl =
  fixes F :: "'e field_ops" and emb :: "'e \<Rightarrow> 'f :: field"
  assumes emb_inj [simp]: "emb a = emb b \<longleftrightarrow> a = b"
    and emb_add [simp]: "emb (F_add F a b) = emb a + emb b"
    and emb_mul [simp]: "emb (F_mul F a b) = emb a * emb b"
    and emb_zero [simp]: "emb (F_zero F) = 0"
    and emb_one [simp]: "emb (F_one F) = 1"
    and emb_exp [simp]: "emb (F_exp F a n) = emb a ^ n"
    and emb_div: "b \<noteq> F_zero F \<Longrightarrow> \<exists>q. F_div F a b = Some q \<and> emb q = emb a / emb b"
    and nth_inj: "i < F_ORDER F \<Longrightarrow> j < F_ORDER F \<Longrightarrow> F_nth_internal F i = F_nth_internal F j \<Longrightarrow> i = j"
    and emb_char2: "emb a + emb a = 0"
    and mul_slice: "length input = length out \<Longrightarrow> F_mul_slice F c input out = Some (map (F_mul F c) input)"
    and mul_slice_add: "length input = length out \<Longrightarrow>
      F_mul_slice_add F c input out = Some (map2 (\<lambda>o' i. F_add F o' (F_mul F c i)) out input)"
begin

lemma char2 [simp]: "(x :: 'f) + x = 0"
proof -
  have "(1 :: 'f) + 1 = 0" using emb_char2 [of "F_one F"] by simp
  then have "x * (1 + 1) = 0" by simp
  then show ?thesis by (simp add: algebra_simps)
qed

lemma uminus_id: "- (x :: 'f) = x"
  using char2 [of x] by (metis add_eq_0_iff)

lemma emb_eq_0 [simp]: "emb a = 0 \<longleftrightarrow> a = F_zero F" "0 = emb a \<longleftrightarrow> a = F_zero F"
  by (metis emb_inj emb_zero)+

lemma emb_eq_1 [simp]: "emb a = 1 \<longleftrightarrow> a = F_one F"
  by (metis emb_inj emb_one)

end

lemma galois_8_sel [simp]:
  "F_ORDER galois_8 = 256" "F_add galois_8 = gf_add" "F_mul galois_8 = gf_mul" "F_div galois_8 = gf_div" "F_exp galois_8 = gf_exp"
  "F_zero galois_8 = 0" "F_one galois_8 = 1" "F_nth_internal galois_8 = of_nat" "F_mul_slice galois_8 = mul_slice"
  "F_mul_slice_add galois_8 = mul_slice_xor"
  by (simp_all add: galois_8_def)

interpretation g8: field_impl galois_8 GF
proof
  fix a b :: u8 and n i j :: nat
  show "GF (F_add galois_8 a b) = GF a + GF b" "GF (F_mul galois_8 a b) = GF a * GF b"
    "GF (F_zero galois_8) = 0" "GF (F_one galois_8) = 1" "GF a + GF a = 0"
    by (simp_all add: gf_ops gf_add_def)
  show "GF (F_exp galois_8 a n) = GF a ^ n" by (simp add: GF_exp)
  show "\<exists>q. F_div galois_8 a b = Some q \<and> GF q = GF a / GF b" if nz: "b \<noteq> F_zero galois_8"
  proof -
    obtain q where q: "gf_div a b = Some q" "gf_mul q b = a" using gf_div_mul [of b a] nz by auto
    then have "GF q * GF b = GF a" by (simp add: times_gf_def)
    moreover have "GF b \<noteq> 0" using nz by (simp add: zero_gf_def)
    ultimately show ?thesis using q(1) by (auto simp: field_simps)
  qed
  show "i = j" if "i < F_ORDER galois_8" "j < F_ORDER galois_8" "F_nth_internal galois_8 i = F_nth_internal galois_8 j"
    using that by (simp add: word_of_nat_eq_iff take_bit_nat_eq_self)
qed (simp_all add: mul_slice_map mul_slice_xor_map2)

subsection \<open>Properties\<close>


text \<open>
  the unrolled slice loops equal the reference definition. For slices of one length they compute the
  bytewise product, respectively add it into the output, whatever the length modulo four; otherwise they panic.
\<close>

theorem slices_equal_reference:
  "mul_slice c input out = (if length input = length out then Some (map (gf_mul c) input) else None) \<and>
   mul_slice_xor c input out = (if length input = length out then Some (map2 (\<lambda>o' i. gf_add o' (gf_mul c i)) out input) else None)"
  by (simp add: mul_slice_map mul_slice_xor_map2) (simp add: mul_slice_def mul_slice_xor_def slice_loop_def Let_def)

end
