(* ===== verification/Pulsar_Matrix.thy ===== *)
theory Pulsar_Matrix
  imports Pulsar_Galois Complex_Main
begin

text \<open>
  \<^verbatim>\<open>matrix.rs\<close>: matrices over a field given by its operations, stored flat, with the loops of the source as
  folds. \<open>is_mat\<close> reads a matrix as a function; elimination is shown to keep the solutions of the linear system,
  so \<^verbatim>\<open>invert\<close> either returns the inverse or the matrix has a nonzero kernel vector, and Vandermonde rows of
  different points are independent. Accesses are in range for matrices with at least as many columns as rows,
  the only ones the codec eliminates.
\<close>

subsection \<open>Model\<close>

text \<open>\<^verbatim>\<open>MatrixPanic\<close> stands for the panics of the source: a shape that does not fit, a zero divisor.\<close>

datatype matrix_fail = SingularMatrix | MatrixPanic

record 'e matrix =
  row_count :: nat
  col_count :: nat
  mdata :: "'e list"

definition acc :: "'e matrix \<Rightarrow> nat \<Rightarrow> nat \<Rightarrow> 'e" where
  "acc m r c = mdata m ! (r * col_count m + c)"

definition set_acc :: "'e matrix \<Rightarrow> nat \<Rightarrow> nat \<Rightarrow> 'e \<Rightarrow> 'e matrix" where
  "set_acc m r c v = m\<lparr>mdata := (mdata m)[r * col_count m + c := v]\<rparr>"

definition calc_matrix_row_start_end :: "nat \<Rightarrow> nat \<Rightarrow> nat \<times> nat" where
  "calc_matrix_row_start_end cols row = (let start = row * cols in (start, start + cols))"

definition Matrix_new :: "'e field_ops \<Rightarrow> nat \<Rightarrow> nat \<Rightarrow> 'e matrix" where
  "Matrix_new F rows cols = \<lparr>row_count = rows, col_count = cols, mdata = replicate (rows * cols) (F_zero F)\<rparr>"

definition new_with_data :: "'e list list \<Rightarrow> 'e matrix option" where
  "new_with_data init_data =
     (case init_data of
        [] \<Rightarrow> None
      | r0 # _ \<Rightarrow>
          if list_all (\<lambda>r. length r = length r0) init_data
          then Some \<lparr>row_count = length init_data, col_count = length r0, mdata = concat init_data\<rparr>
          else None)"

definition Matrix_identity :: "'e field_ops \<Rightarrow> nat \<Rightarrow> 'e matrix" where
  "Matrix_identity F n = foldl (\<lambda>result i. set_acc result i i (F_one F)) (Matrix_new F n n) [0..<n]"

definition dot :: "'e field_ops \<Rightarrow> 'e matrix \<Rightarrow> 'e matrix \<Rightarrow> nat \<Rightarrow> nat \<Rightarrow> 'e" where
  "dot F lhs rhs r c =
     foldl (\<lambda>val i. F_add F val (F_mul F (acc lhs r i) (acc rhs i c))) (F_zero F) [0..<col_count lhs]"

definition Matrix_multiply :: "'e field_ops \<Rightarrow> 'e matrix \<Rightarrow> 'e matrix \<Rightarrow> 'e matrix option" where
  "Matrix_multiply F lhs rhs =
     (if col_count lhs \<noteq> row_count rhs then None
      else Some (foldl (\<lambda>result r. foldl (\<lambda>result c. set_acc result r c (dot F lhs rhs r c)) result [0..<col_count rhs])
             (Matrix_new F (row_count lhs) (col_count rhs)) [0..<row_count lhs]))"

definition augment :: "'e field_ops \<Rightarrow> 'e matrix \<Rightarrow> 'e matrix \<Rightarrow> 'e matrix option" where
  "augment F lhs rhs =
     (if row_count lhs \<noteq> row_count rhs then None
      else Some (foldl (\<lambda>result r.
               foldl (\<lambda>result c. set_acc result r (col_count lhs + c) (acc rhs r c))
                 (foldl (\<lambda>result c. set_acc result r c (acc lhs r c)) result [0..<col_count lhs]) [0..<col_count rhs])
             (Matrix_new F (row_count lhs) (col_count lhs + col_count rhs)) [0..<row_count lhs]))"

definition sub_matrix :: "'e field_ops \<Rightarrow> nat \<Rightarrow> nat \<Rightarrow> nat \<Rightarrow> nat \<Rightarrow> 'e matrix \<Rightarrow> 'e matrix" where
  "sub_matrix F rmin cmin rmax cmax m =
     foldl (\<lambda>result r. foldl (\<lambda>result c. set_acc result (r - rmin) (c - cmin) (acc m r c)) result [cmin..<cmax])
       (Matrix_new F (rmax - rmin) (cmax - cmin)) [rmin..<rmax]"

definition get_row :: "'e matrix \<Rightarrow> nat \<Rightarrow> 'e list" where
  "get_row m row = (case calc_matrix_row_start_end (col_count m) row of (start, fin) \<Rightarrow> take (fin - start) (drop start (mdata m)))"

definition swap_rows :: "nat \<Rightarrow> nat \<Rightarrow> 'e matrix \<Rightarrow> 'e matrix" where
  "swap_rows r1 r2 m =
     (let r1_s = fst (calc_matrix_row_start_end (col_count m) r1);
          r2_s = fst (calc_matrix_row_start_end (col_count m) r2)
      in if r1 = r2 then m
         else foldl (\<lambda>m i. m\<lparr>mdata := (mdata m)[r1_s + i := mdata m ! (r2_s + i), r2_s + i := mdata m ! (r1_s + i)]\<rparr>)
                m [0..<col_count m])"

definition is_square :: "'e matrix \<Rightarrow> bool" where
  "is_square m \<longleftrightarrow> row_count m = col_count m"

text \<open>The four parts of \<^verbatim>\<open>gaussian_elim\<close>.\<close>

definition find_pivot :: "'e field_ops \<Rightarrow> nat \<Rightarrow> 'e matrix \<Rightarrow> 'e matrix" where
  "find_pivot F r m =
     (if acc m r r = F_zero F
      then case find (\<lambda>r_below. acc m r_below r \<noteq> F_zero F) [r + 1..<row_count m] of
             Some r_below \<Rightarrow> swap_rows r r_below m
           | None \<Rightarrow> m
      else m)"

definition scale_row :: "'e field_ops \<Rightarrow> nat \<Rightarrow> 'e matrix \<Rightarrow> 'e matrix option" where
  "scale_row F r m =
     (if acc m r r \<noteq> F_one F
      then map_option (\<lambda>scale. foldl (\<lambda>m c. set_acc m r c (F_mul F scale (acc m r c))) m [0..<col_count m])
             (F_div F (F_one F) (acc m r r))
      else Some m)"

definition clear_with :: "'e field_ops \<Rightarrow> nat \<Rightarrow> nat \<Rightarrow> 'e matrix \<Rightarrow> 'e matrix" where
  "clear_with F d r m =
     (if acc m r d \<noteq> F_zero F
      then let scale = acc m r d in
           foldl (\<lambda>m c. set_acc m r c (F_add F (acc m r c) (F_mul F scale (acc m d c)))) m [0..<col_count m]
      else m)"

fun elim_down :: "'e field_ops \<Rightarrow> nat list \<Rightarrow> 'e matrix \<Rightarrow> matrix_fail + 'e matrix" where
  "elim_down F [] m = Inr m"
| "elim_down F (r # rs) m =
     (let m = find_pivot F r m in
      if acc m r r = F_zero F then Inl SingularMatrix
      else case scale_row F r m of
             None \<Rightarrow> Inl MatrixPanic
           | Some m \<Rightarrow> elim_down F rs (foldl (\<lambda>m r_below. clear_with F r r_below m) m [r + 1..<row_count m]))"

definition elim_up :: "'e field_ops \<Rightarrow> 'e matrix \<Rightarrow> 'e matrix" where
  "elim_up F m = foldl (\<lambda>m d. foldl (\<lambda>m r_above. clear_with F d r_above m) m [0..<d]) m [0..<row_count m]"

definition gaussian_elim :: "'e field_ops \<Rightarrow> 'e matrix \<Rightarrow> matrix_fail + 'e matrix" where
  "gaussian_elim F m = (case elim_down F [0..<row_count m] m of Inl e \<Rightarrow> Inl e | Inr m \<Rightarrow> Inr (elim_up F m))"

definition invert :: "'e field_ops \<Rightarrow> 'e matrix \<Rightarrow> matrix_fail + 'e matrix" where
  "invert F m =
     (if \<not> is_square m then Inl MatrixPanic
      else case augment F m (Matrix_identity F (row_count m)) of
             None \<Rightarrow> Inl MatrixPanic
           | Some work \<Rightarrow>
               (case gaussian_elim F work of
                  Inl e \<Rightarrow> Inl e
                | Inr work \<Rightarrow> Inr (sub_matrix F 0 (row_count m) (col_count m) (col_count m * 2) work)))"

fun vandermonde_rows :: "'e field_ops \<Rightarrow> nat \<Rightarrow> nat list \<Rightarrow> 'e matrix \<Rightarrow> 'e matrix option" where
  "vandermonde_rows F cols [] result = Some result"
| "vandermonde_rows F cols (r # rs) result =
     (case F_nth F r of
        None \<Rightarrow> None
      | Some r_a \<Rightarrow> vandermonde_rows F cols rs (foldl (\<lambda>result c. set_acc result r c (F_exp F r_a c)) result [0..<cols]))"

definition vandermonde :: "'e field_ops \<Rightarrow> nat \<Rightarrow> nat \<Rightarrow> 'e matrix option" where
  "vandermonde F rows cols = vandermonde_rows F cols [0..<rows] (Matrix_new F rows cols)"

subsection \<open>Matrices as functions\<close>

definition mat_ok :: "nat \<Rightarrow> nat \<Rightarrow> 'e matrix \<Rightarrow> bool" where
  "mat_ok R C m \<longleftrightarrow> row_count m = R \<and> col_count m = C \<and> length (mdata m) = R * C"

lemma index_less: "r < R \<Longrightarrow> c < C \<Longrightarrow> r * C + c < R * (C :: nat)"
proof -
  assume "r < R" "c < C"
  then have "r * C + c < Suc r * C" by simp
  also have "\<dots> \<le> R * C" using \<open>r < R\<close> by (intro mult_le_mono1) simp
  finally show ?thesis .
qed

lemma index_inj: "c < C \<Longrightarrow> c' < C \<Longrightarrow> r * C + c = r' * C + c' \<longleftrightarrow> r = r' \<and> c = (c' :: nat)"
  by (metis add.commute div_mult_self1 div_mult_self1_is_m mod_mult_self1 mod_less div_less add_cancel_right_left less_nat_zero_code not_gr_zero div_mult_self3)

lemma ok_set [simp]: "mat_ok R C m \<Longrightarrow> mat_ok R C (set_acc m r c v)"
  by (simp add: mat_ok_def set_acc_def)

lemma acc_set: "mat_ok R C m \<Longrightarrow> r < R \<Longrightarrow> c < C \<Longrightarrow> r' < R \<Longrightarrow> c' < C \<Longrightarrow>
    acc (set_acc m r c v) r' c' = (if r' = r \<and> c' = c then v else acc m r' c')"
  by (simp add: mat_ok_def set_acc_def acc_def nth_list_update index_less index_inj)

lemma ok_new [simp]: "mat_ok R C (Matrix_new F R C)"
  by (simp add: mat_ok_def Matrix_new_def)

lemma acc_new [simp]: "r < R \<Longrightarrow> c < C \<Longrightarrow> acc (Matrix_new F R C) r c = F_zero F"
  by (simp add: acc_def Matrix_new_def index_less)

lemma mat_eqI:
  assumes "mat_ok R C m" "mat_ok R C m'" "\<And>r c. r < R \<Longrightarrow> c < C \<Longrightarrow> acc m r c = acc m' r c"
  shows "m = m'"
proof -
  have "mdata m ! i = mdata m' ! i" if "i < R * C" for i
  proof -
    have "C > 0" using that by (cases C) auto
    then have "i div C < R" "i mod C < C" using that by (simp_all add: less_mult_imp_div_less)
    from assms(3) [OF this] show ?thesis using assms(1,2) by (simp add: acc_def mat_ok_def)
  qed
  then have "mdata m = mdata m'" using assms(1,2) by (intro nth_equalityI) (simp_all add: mat_ok_def)
  then show ?thesis using assms(1,2) by (cases m; cases m') (simp add: mat_ok_def)
qed

definition is_mat :: "nat \<Rightarrow> nat \<Rightarrow> 'e matrix \<Rightarrow> (nat \<Rightarrow> nat \<Rightarrow> 'e) \<Rightarrow> bool" where
  "is_mat R C m f \<longleftrightarrow> mat_ok R C m \<and> (\<forall>r<R. \<forall>c<C. acc m r c = f r c)"

lemma is_mat_cong: "is_mat R C m f \<Longrightarrow> (\<And>r c. r < R \<Longrightarrow> c < C \<Longrightarrow> f r c = g r c) \<Longrightarrow> is_mat R C m g"
  by (simp add: is_mat_def)

lemma is_mat_acc: "is_mat R C m f \<Longrightarrow> r < R \<Longrightarrow> c < C \<Longrightarrow> acc m r c = f r c"
  by (simp add: is_mat_def)

lemma is_mat_counts: "is_mat R C m f \<Longrightarrow> row_count m = R" "is_mat R C m f \<Longrightarrow> col_count m = C"
  by (simp_all add: is_mat_def mat_ok_def)

lemma is_mat_refl: "mat_ok R C m \<Longrightarrow> is_mat R C m (acc m)"
  by (simp add: is_mat_def)

lemma is_mat_set:
  "is_mat R C m f \<Longrightarrow> r < R \<Longrightarrow> c < C \<Longrightarrow>
    is_mat R C (set_acc m r c v) (\<lambda>r' c'. if r' = r \<and> c' = c then v else f r' c')"
  by (auto simp: is_mat_def acc_set)

lemma is_mat_new: "is_mat R C (Matrix_new F R C) (\<lambda>_ _. F_zero F)"
  by (simp add: is_mat_def)

lemma is_mat_eqI: "is_mat R C m f \<Longrightarrow> is_mat R C m' f \<Longrightarrow> m = m'"
  by (rule mat_eqI [of R C]) (auto simp: is_mat_def)

text \<open>A loop that writes a stretch of one row.\<close>

lemma row_loop:
  assumes "is_mat R C m f" "r < R" "k + n \<le> C"
    and "\<And>m' c. c < n \<Longrightarrow> is_mat R C m' (\<lambda>r' c'. if r' = r \<and> k \<le> c' \<and> c' < k + c then g (c' - k) else f r' c') \<Longrightarrow> h m' c = g c"
  shows "is_mat R C (foldl (\<lambda>m c. set_acc m r (k + c) (h m c)) m [0..<n])
    (\<lambda>r' c'. if r' = r \<and> k \<le> c' \<and> c' < k + n then g (c' - k) else f r' c')"
  using assms(3,4)
proof (induction n)
  case 0
  then show ?case using assms(1) by (auto elim!: is_mat_cong)
next
  case (Suc n)
  let ?m = "foldl (\<lambda>m c. set_acc m r (k + c) (h m c)) m [0..<n]"
  have inv: "is_mat R C ?m (\<lambda>r' c'. if r' = r \<and> k \<le> c' \<and> c' < k + n then g (c' - k) else f r' c')"
    using Suc by simp
  have "h ?m n = g n" using Suc.prems(2) [OF _ inv] by simp
  with is_mat_set [OF inv assms(2), of "k + n" "g n"] Suc.prems(1) show ?case
    by (auto elim!: is_mat_cong)
qed

text \<open>A loop over the rows of a new matrix, each iteration writing its own row.\<close>

lemma fill_rows:
  assumes "\<And>m' r. r < R \<Longrightarrow> is_mat R C m' (\<lambda>r' c'. if r' < r then g r' c' else F_zero F) \<Longrightarrow>
      is_mat R C (step m' r) (\<lambda>r' c'. if r' < Suc r then g r' c' else F_zero F)"
  shows "is_mat R C (foldl step (Matrix_new F R C) [0..<R]) g"
proof -
  have "is_mat R C (foldl step (Matrix_new F R C) [0..<n]) (\<lambda>r' c'. if r' < n then g r' c' else F_zero F)" if "n \<le> R" for n
    using that by (induction n) (simp_all add: is_mat_new assms)
  from this [of R] show ?thesis by (auto elim: is_mat_cong)
qed

lemma is_mat_identity: "is_mat n n (Matrix_identity F n) (\<lambda>r c. if r = c then F_one F else F_zero F)"
  unfolding Matrix_identity_def
  by (rule fill_rows) (auto elim!: is_mat_cong [OF is_mat_set])

lemma is_mat_multiply:
  assumes "is_mat R K a f" "is_mat K C b g"
  obtains m where "Matrix_multiply F a b = Some m" "is_mat R C m (dot F a b)"
proof -
  let ?step = "\<lambda>result r. foldl (\<lambda>result c. set_acc result r c (dot F a b r c)) result [0..<C]"
  have "is_mat R C (foldl ?step (Matrix_new F R C) [0..<R]) (dot F a b)"
  proof (rule fill_rows)
    fix m' r assume r: "r < R" and m': "is_mat R C m' (\<lambda>r' c'. if r' < r then dot F a b r' c' else F_zero F)"
    show "is_mat R C (?step m' r) (\<lambda>r' c'. if r' < Suc r then dot F a b r' c' else F_zero F)"
      using row_loop [OF m' r, of 0 C "dot F a b r" "\<lambda>_. dot F a b r"] by (auto elim!: is_mat_cong)
  qed
  then show thesis using that is_mat_counts [OF assms(1)] is_mat_counts [OF assms(2)] by (simp add: Matrix_multiply_def)
qed

lemma is_mat_augment:
  assumes "is_mat R C a f" "is_mat R D b g"
  obtains m where "augment F a b = Some m" "is_mat R (C + D) m (\<lambda>r c. if c < C then f r c else g r (c - C))"
proof -
  let ?ab = "\<lambda>r c. if c < C then f r c else g r (c - C)"
  let ?step = "\<lambda>result r. foldl (\<lambda>result c. set_acc result r (C + c) (acc b r c))
      (foldl (\<lambda>result c. set_acc result r c (acc a r c)) result [0..<C]) [0..<D]"
  have "is_mat R (C + D) (foldl ?step (Matrix_new F R (C + D)) [0..<R]) ?ab"
  proof (rule fill_rows)
    fix m' r assume r: "r < R" and m': "is_mat R (C + D) m' (\<lambda>r' c'. if r' < r then ?ab r' c' else F_zero F)"
    have 1: "is_mat R (C + D) (foldl (\<lambda>result c. set_acc result r c (acc a r c)) m' [0..<C])
        (\<lambda>r' c'. if r' = r \<and> c' < C then acc a r c' else if r' < r then ?ab r' c' else F_zero F)"
      using row_loop [OF m' r, of 0 C "acc a r" "\<lambda>_. acc a r"] by (auto elim!: is_mat_cong)
    show "is_mat R (C + D) (?step m' r) (\<lambda>r' c'. if r' < Suc r then ?ab r' c' else F_zero F)"
      using row_loop [OF 1 r, of C D "acc b r" "\<lambda>_. acc b r"] r
      by (auto elim!: is_mat_cong simp: is_mat_acc [OF assms(1)] is_mat_acc [OF assms(2)])
  qed
  then show thesis using that is_mat_counts [OF assms(1)] is_mat_counts [OF assms(2)] by (simp add: augment_def)
qed

lemma is_mat_sub_matrix:
  assumes "is_mat R C m f" "rmin \<le> rmax" "cmin \<le> cmax" "rmax \<le> R" "cmax \<le> C"
  shows "is_mat (rmax - rmin) (cmax - cmin) (sub_matrix F rmin cmin rmax cmax m) (\<lambda>r c. f (r + rmin) (c + cmin))"
proof -
  let ?R = "rmax - rmin" and ?C = "cmax - cmin"
  let ?step = "\<lambda>result r. foldl (\<lambda>result c. set_acc result r c (acc m (r + rmin) (c + cmin))) result [0..<?C]"
  have "[rmin..<rmax] = map (\<lambda>r. r + rmin) [0..<?R]" "[cmin..<cmax] = map (\<lambda>c. c + cmin) [0..<?C]"
    using assms(2,3) by (simp_all add: map_add_upt)
  then have eq: "sub_matrix F rmin cmin rmax cmax m = foldl ?step (Matrix_new F ?R ?C) [0..<?R]"
    by (simp add: sub_matrix_def foldl_map)
  show ?thesis unfolding eq
  proof (rule fill_rows)
    fix m' r assume r: "r < ?R" and m': "is_mat ?R ?C m' (\<lambda>r' c'. if r' < r then f (r' + rmin) (c' + cmin) else F_zero F)"
    show "is_mat ?R ?C (?step m' r) (\<lambda>r' c'. if r' < Suc r then f (r' + rmin) (c' + cmin) else F_zero F)"
      using row_loop [OF m' r, of 0 ?C "\<lambda>c. acc m (r + rmin) (c + cmin)" "\<lambda>_ c. acc m (r + rmin) (c + cmin)"] r assms
      by (auto elim!: is_mat_cong simp: is_mat_acc [OF assms(1)])
  qed
qed

lemma is_mat_swap:
  assumes "is_mat R C m f" "r1 < R" "r2 < R"
  shows "is_mat R C (swap_rows r1 r2 m) (\<lambda>r c. if r = r1 then f r2 c else if r = r2 then f r1 c else f r c)"
proof (cases "r1 = r2")
  case True
  then show ?thesis using assms by (auto simp: swap_rows_def elim: is_mat_cong)
next
  case False
  let ?step = "\<lambda>m i. m\<lparr>mdata := (mdata m)[r1 * C + i := mdata m ! (r2 * C + i), r2 * C + i := mdata m ! (r1 * C + i)]\<rparr>"
  have "is_mat R C (foldl ?step m [0..<n]) (\<lambda>r c. if c < n then (if r = r1 then f r2 c else if r = r2 then f r1 c else f r c) else f r c)"
    if "n \<le> C" for n
    using that
  proof (induction n)
    case (Suc n)
    let ?m = "foldl ?step m [0..<n]"
    from Suc have m: "is_mat R C ?m (\<lambda>r c. if c < n then (if r = r1 then f r2 c else if r = r2 then f r1 c else f r c) else f r c)" by simp
    have "?step ?m n = set_acc (set_acc ?m r1 n (acc ?m r2 n)) r2 n (acc ?m r1 n)"
      using is_mat_counts [OF m] by (simp add: set_acc_def acc_def)
    then show ?case
      using is_mat_set [OF is_mat_set [OF m assms(2), of n "acc ?m r2 n"] assms(3), of n "acc ?m r1 n"] Suc.prems assms(2,3) False
      by (auto elim!: is_mat_cong simp: is_mat_acc [OF m])
  qed (use assms in \<open>simp add: is_mat_def\<close>)
  from this [of C] show ?thesis using False is_mat_counts [OF assms(1)]
    by (auto simp: swap_rows_def calc_matrix_row_start_end_def Let_def elim!: is_mat_cong)
qed

lemma get_row_map:
  assumes m: "is_mat R C m f" and r: "r < R"
  shows "get_row m r = map (f r) [0..<C]"
proof (rule nth_equalityI)
  have "Suc r * C \<le> R * C" using r by (intro mult_le_mono1) simp
  moreover have "length (mdata m) = R * C" using m by (simp add: is_mat_def mat_ok_def)
  ultimately have len: "r * C + C \<le> length (mdata m)" by simp
  have row: "get_row m r = take C (drop (r * C) (mdata m))"
    by (simp add: get_row_def calc_matrix_row_start_end_def Let_def is_mat_counts [OF m])
  show "length (get_row m r) = length (map (f r) [0..<C])" using len by (simp add: row)
  fix i assume "i < length (get_row m r)"
  then have "i < C" by (simp add: row)
  then show "get_row m r ! i = map (f r) [0..<C] ! i"
    using is_mat_acc [OF m r, of i] len by (simp add: row acc_def is_mat_counts [OF m])
qed

lemma is_mat_vandermonde:
  assumes "R \<le> F_ORDER F"
  obtains m where "vandermonde F R C = Some m" "is_mat R C m (\<lambda>r c. F_exp F (F_nth_internal F r) c)"
proof -
  let ?step = "\<lambda>result r. foldl (\<lambda>result c. set_acc result r c (F_exp F (F_nth_internal F r) c)) result [0..<C]"
  let ?f = "\<lambda>r c. F_exp F (F_nth_internal F r) c"
  have v: "vandermonde_rows F C rs m = Some (foldl ?step m rs)" if "\<forall>r \<in> set rs. r < F_ORDER F" for rs m
    using that by (induction rs arbitrary: m) (simp_all add: F_nth_def)
  have "is_mat R C (foldl ?step (Matrix_new F R C) [0..<R]) ?f"
  proof (rule fill_rows)
    fix m' r assume r: "r < R" and m': "is_mat R C m' (\<lambda>r' c'. if r' < r then ?f r' c' else F_zero F)"
    show "is_mat R C (?step m' r) (\<lambda>r' c'. if r' < Suc r then ?f r' c' else F_zero F)"
      using row_loop [OF m' r, of 0 C "?f r" "\<lambda>_. ?f r"] by (auto elim!: is_mat_cong)
  qed
  then show thesis using that v [of "[0..<R]"] assms by (simp add: vandermonde_def)
qed

subsection \<open>Linear systems and row operations\<close>

definition solves :: "nat \<Rightarrow> nat \<Rightarrow> (nat \<Rightarrow> nat \<Rightarrow> 'f :: field) \<Rightarrow> (nat \<Rightarrow> 'f) \<Rightarrow> bool" where
  "solves R C g x \<longleftrightarrow> (\<forall>r<R. (\<Sum>c<C. g r c * x c) = 0)"

definition same_solutions :: "nat \<Rightarrow> nat \<Rightarrow> (nat \<Rightarrow> nat \<Rightarrow> 'f :: field) \<Rightarrow> (nat \<Rightarrow> nat \<Rightarrow> 'f) \<Rightarrow> bool" where
  "same_solutions R C g h \<longleftrightarrow> (\<forall>x. solves R C g x \<longleftrightarrow> solves R C h x)"

lemma same_solutions_refl [simp]: "same_solutions R C g g"
  by (simp add: same_solutions_def)

lemma same_solutions_trans [trans]: "same_solutions R C g h \<Longrightarrow> same_solutions R C h k \<Longrightarrow> same_solutions R C g k"
  by (simp add: same_solutions_def)

lemma swap_solutions:
  assumes "a < R" "b < R"
  shows "same_solutions R C g (\<lambda>r c. if r = a then g b c else if r = b then g a c else g r c)"
proof -
  have "solves R C (\<lambda>r c. if r = a then g b c else if r = b then g a c else g r c) x \<longleftrightarrow> solves R C g x" for x
  proof -
    let ?s = "\<lambda>r. \<Sum>c<C. g r c * x c"
    have "(\<Sum>c<C. (if r = a then g b c else if r = b then g a c else g r c) * x c) =
        (if r = a then ?s b else if r = b then ?s a else ?s r)" for r by simp
    then have "solves R C (\<lambda>r c. if r = a then g b c else if r = b then g a c else g r c) x \<longleftrightarrow>
        (\<forall>r<R. (if r = a then ?s b else if r = b then ?s a else ?s r) = 0)"
      by (simp only: solves_def)
    also have "\<dots> \<longleftrightarrow> (\<forall>r<R. ?s r = 0)"
    proof (intro iffI allI impI)
      fix r assume "\<forall>r<R. (if r = a then ?s b else if r = b then ?s a else ?s r) = 0" "r < R"
      then show "?s r = 0" using assms by (cases "r = a"; cases "r = b"; fastforce)
    qed (use assms in auto)
    finally show ?thesis by (simp only: solves_def)
  qed
  then show ?thesis by (simp add: same_solutions_def)
qed

lemma scale_solutions:
  assumes "a < R" "s \<noteq> 0"
  shows "same_solutions R C g (\<lambda>r c. if r = a then g a c / s else g r c)"
proof -
  have "(\<Sum>c<C. g a c / s * x c) = (\<Sum>c<C. g a c * x c) / s" for x :: "nat \<Rightarrow> 'a"
    by (simp add: sum_divide_distrib)
  then have "(\<Sum>c<C. (if r = a then g a c / s else g r c) * x c) = 0 \<longleftrightarrow> (\<Sum>c<C. g r c * x c) = 0" for r and x :: "nat \<Rightarrow> 'a"
    using assms(2) by (cases "r = a") simp_all
  then show ?thesis by (simp add: same_solutions_def solves_def)
qed

lemma add_solutions:
  assumes "d < R" "d \<notin> A"
  shows "same_solutions R C g (\<lambda>r c. if r \<in> A then g r c + s r * g d c else g r c)"
proof -
  let ?g = "\<lambda>r c. if r \<in> A then g r c + s r * g d c else g r c"
  have row: "(\<Sum>c<C. ?g r c * x c) = (\<Sum>c<C. g r c * x c) + (if r \<in> A then s r * (\<Sum>c<C. g d c * x c) else 0)" for r x
    by (simp add: sum.distrib sum_distrib_left algebra_simps)
  have "solves R C ?g x \<longleftrightarrow> solves R C g x" for x
  proof -
    let ?s = "\<lambda>r. \<Sum>c<C. g r c * x c"
    have "solves R C ?g x \<longleftrightarrow> (\<forall>r<R. ?s r + (if r \<in> A then s r * ?s d else 0) = 0)"
      by (simp only: solves_def row)
    also have "\<dots> \<longleftrightarrow> (\<forall>r<R. ?s r = 0)"
    proof
      assume eq: "\<forall>r<R. ?s r + (if r \<in> A then s r * ?s d else 0) = 0"
      then have "?s d = 0" using assms by auto
      then have "?s r + (if r \<in> A then s r * ?s d else 0) = ?s r" for r by simp
      then show "\<forall>r<R. ?s r = 0" using eq by metis
    qed (use assms(1) in auto)
    finally show ?thesis by (simp only: solves_def)
  qed
  then show ?thesis by (simp add: same_solutions_def)
qed

text \<open>The first \<open>n\<close> columns are upper triangular with ones on the diagonal.\<close>

definition tri :: "nat \<Rightarrow> nat \<Rightarrow> (nat \<Rightarrow> nat \<Rightarrow> 'f :: field) \<Rightarrow> bool" where
  "tri R n g \<longleftrightarrow> (\<forall>c<n. g c c = 1 \<and> (\<forall>i<R. c < i \<longrightarrow> g i c = 0))"

lemma back_substitution: "tri R n g \<Longrightarrow> n \<le> R \<Longrightarrow> \<exists>y. \<forall>i<n. (\<Sum>c<n. g i c * y c) = b i"
proof (induction n arbitrary: b)
  case (Suc n)
  have "tri R n g" using Suc.prems(1) by (simp add: tri_def)
  then obtain y where y: "\<forall>i<n. (\<Sum>c<n. g i c * y c) = b i - g i n * b n"
    using Suc.IH [of "\<lambda>i. b i - g i n * b n"] Suc.prems(2) by auto
  have "(\<Sum>c<n. g n c * y c) = 0" "g n n = 1" using Suc.prems by (simp_all add: tri_def)
  then show ?case using y by (intro exI [of _ "y(n := b n)"]) (auto simp: less_Suc_eq)
qed simp

lemma stuck_kernel:
  assumes "tri R r g" "r < R" "\<And>i. r \<le> i \<Longrightarrow> i < R \<Longrightarrow> g i r = 0" "R \<le> C"
  obtains x where "solves R C g x" "x r = 1" "\<And>c. r < c \<Longrightarrow> x c = 0"
proof -
  obtain y where y: "\<And>i. i < r \<Longrightarrow> (\<Sum>c<r. g i c * y c) = - g i r"
    using back_substitution [OF assms(1), of "\<lambda>i. - g i r"] assms(2) by auto
  define x where "x = (\<lambda>c. if c < r then y c else if c = r then 1 else 0)"
  have "(\<Sum>c<C. g i c * x c) = 0" if i: "i < R" for i
  proof -
    have "{..<C} = {..<r} \<union> {r} \<union> {r<..<C}" using assms(2,4) by auto
    then have "(\<Sum>c<C. g i c * x c) = (\<Sum>c \<in> {..<r} \<union> {r} \<union> {r<..<C}. g i c * x c)" by simp
    also have "\<dots> = (\<Sum>c<r. g i c * x c) + g i r * x r + (\<Sum>c\<in>{r<..<C}. g i c * x c)"
      by (subst sum.union_disjoint; (subst sum.union_disjoint)?; auto)
    also have "\<dots> = (\<Sum>c<r. g i c * y c) + g i r" by (simp add: x_def)
    also have "\<dots> = 0"
    proof (cases "i < r")
      case False
      then have "(\<Sum>c<r. g i c * y c) = 0" using assms(1) i by (simp add: tri_def)
      then show ?thesis using assms(3) [of i] False i by simp
    qed (simp add: y)
    finally show ?thesis .
  qed
  then show thesis using that [of x] by (simp add: solves_def x_def)
qed

subsection \<open>Elimination\<close>

definition emat :: "('e \<Rightarrow> 'f) \<Rightarrow> nat \<Rightarrow> nat \<Rightarrow> 'e matrix \<Rightarrow> (nat \<Rightarrow> nat \<Rightarrow> 'f) \<Rightarrow> bool" where
  "emat emb R C m g \<longleftrightarrow> mat_ok R C m \<and> (\<forall>r<R. \<forall>c<C. emb (acc m r c) = g r c)"

lemma emat_is_mat: "emat emb R C m g \<longleftrightarrow> (\<exists>f. is_mat R C m f \<and> (\<forall>r<R. \<forall>c<C. emb (f r c) = g r c))"
  by (auto simp: emat_def is_mat_def)

lemma emat_cong: "emat emb R C m g \<Longrightarrow> (\<And>r c. r < R \<Longrightarrow> c < C \<Longrightarrow> g r c = h r c) \<Longrightarrow> emat emb R C m h"
  by (simp add: emat_def)

lemma emat_acc: "emat emb R C m g \<Longrightarrow> r < R \<Longrightarrow> c < C \<Longrightarrow> emb (acc m r c) = g r c"
  by (simp add: emat_def)

lemma emat_counts: "emat emb R C m g \<Longrightarrow> row_count m = R" "emat emb R C m g \<Longrightarrow> col_count m = C"
  by (simp_all add: emat_def mat_ok_def)

lemma emat_swap: "emat emb R C m g \<Longrightarrow> a < R \<Longrightarrow> b < R \<Longrightarrow>
    emat emb R C (swap_rows a b m) (\<lambda>r c. if r = a then g b c else if r = b then g a c else g r c)"
  using is_mat_swap [of R C m "acc m" a b] by (auto simp: emat_def is_mat_def)

text \<open>What the downward pass leaves: a triangular system with the same solutions, or a column without a pivot.\<close>

definition eliminated :: "('e \<Rightarrow> 'f :: field) \<Rightarrow> nat \<Rightarrow> nat \<Rightarrow> (nat \<Rightarrow> nat \<Rightarrow> 'f) \<Rightarrow> matrix_fail + 'e matrix \<Rightarrow> bool" where
  "eliminated emb R C g res \<longleftrightarrow> (case res of
      Inr m' \<Rightarrow> (\<exists>h. emat emb R C m' h \<and> same_solutions R C g h \<and> tri R R h)
    | Inl e \<Rightarrow> e = SingularMatrix \<and> (\<exists>h i. same_solutions R C g h \<and> i < R \<and> tri R i h \<and> (\<forall>j. i \<le> j \<and> j < R \<longrightarrow> h j i = 0)))"

lemma eliminated_trans: "same_solutions R C g h \<Longrightarrow> eliminated emb R C h res \<Longrightarrow> eliminated emb R C g res"
  unfolding eliminated_def by (auto split: sum.splits intro: same_solutions_trans)

context field_impl
begin

lemma scale_row_emat:
  assumes m: "emat emb R C m g" and r: "r < R" "r < C" and nz: "g r r \<noteq> 0"
  obtains m' where "scale_row F r m = Some m'" "emat emb R C m' (\<lambda>r' c. if r' = r then g r c / g r r else g r' c)"
proof (cases "acc m r r = F_one F")
  case True
  then have "g r r = 1" using emat_acc [OF m r] by simp
  then have "emat emb R C m (\<lambda>r' c. if r' = r then g r c / g r r else g r' c)" using m by (auto elim!: emat_cong)
  then show thesis using that [of m] True by (simp add: scale_row_def)
next
  case False
  have "acc m r r \<noteq> F_zero F" using nz emat_acc [OF m r] by auto
  then obtain q where q: "F_div F (F_one F) (acc m r r) = Some q" "emb q = 1 / g r r"
    using emb_div [of "acc m r r" "F_one F"] emat_acc [OF m r] by auto
  let ?m = "foldl (\<lambda>m c. set_acc m r (0 + c) (F_mul F q (acc m r c))) m [0..<C]"
  have f: "is_mat R C m (acc m)" using m by (simp add: emat_def is_mat_def)
  have "is_mat R C ?m (\<lambda>r' c. if r' = r \<and> 0 \<le> c \<and> c < 0 + C then F_mul F q (acc m r (c - 0)) else acc m r' c)"
    by (rule row_loop [OF f r(1)]) (use r(1) in \<open>auto simp: is_mat_acc\<close>)
  then have "emat emb R C ?m (\<lambda>r' c. if r' = r then g r c / g r r else g r' c)"
    unfolding emat_is_mat using emat_acc [OF m] r(1) q(2) by (auto intro!: exI)
  then show thesis using that [of ?m] False q(1) emat_counts [OF m] by (simp add: scale_row_def)
qed

lemma clear_with_emat:
  assumes m: "emat emb R C m g" and r: "r < R" "d < R" "d < C" "d \<noteq> r"
  shows "emat emb R C (clear_with F d r m) (\<lambda>r' c. if r' = r then g r c + g r d * g d c else g r' c)"
proof (cases "acc m r d = F_zero F")
  case True
  then have "g r d = 0" using emat_acc [OF m r(1,3)] by simp
  then show ?thesis using True m by (auto simp: clear_with_def elim!: emat_cong)
next
  case False
  let ?v = "\<lambda>c. F_add F (acc m r c) (F_mul F (acc m r d) (acc m d c))"
  let ?m = "foldl (\<lambda>m' c. set_acc m' r (0 + c) (F_add F (acc m' r c) (F_mul F (acc m r d) (acc m' d c)))) m [0..<C]"
  have f: "is_mat R C m (acc m)" using m by (simp add: emat_def is_mat_def)
  have "is_mat R C ?m (\<lambda>r' c. if r' = r \<and> 0 \<le> c \<and> c < 0 + C then ?v (c - 0) else acc m r' c)"
    by (rule row_loop [OF f r(1)]) (use r in \<open>auto simp: is_mat_acc\<close>)
  then have "emat emb R C ?m (\<lambda>r' c. if r' = r then g r c + g r d * g d c else g r' c)"
    unfolding emat_is_mat using emat_acc [OF m] r by (auto intro!: exI)
  then show ?thesis using False emat_counts [OF m] by (simp add: clear_with_def Let_def)
qed

lemma clear_rows_emat:
  assumes "emat emb R C m g" "distinct rs" "set rs \<subseteq> {..<R} - {d}" "d < R" "d < C"
  shows "emat emb R C (foldl (\<lambda>m r. clear_with F d r m) m rs)
    (\<lambda>r c. if r \<in> set rs then g r c + g r d * g d c else g r c)"
  using assms
proof (induction rs arbitrary: m g)
  case (Cons r rs)
  have "emat emb R C (clear_with F d r m) (\<lambda>r' c. if r' = r then g r c + g r d * g d c else g r' c)"
    using clear_with_emat [OF Cons.prems(1), of r d] Cons.prems by auto
  from Cons.IH [OF this] Cons.prems show ?case by (auto elim!: emat_cong)
qed simp

lemma find_pivot_emat:
  assumes m: "emat emb R C m g" and r: "r < R" "R \<le> C"
  obtains h where "emat emb R C (find_pivot F r m) h" "same_solutions R C g h" "tri R r g \<Longrightarrow> tri R r h"
    "h r r = 0 \<Longrightarrow> (\<forall>i. r \<le> i \<and> i < R \<longrightarrow> h i r = 0)"
proof (cases "acc m r r = F_zero F")
  case False
  then have "g r r \<noteq> 0" using m r emat_acc [OF m, of r r] by (metis emb_eq_0(1) order_less_le_trans)
  then show thesis using that [of g] m False by (simp add: find_pivot_def)
next
  case True
  have gr: "g r r = 0" using True emat_acc [OF m, of r r] r by simp
  let ?find = "find (\<lambda>b. acc m b r \<noteq> F_zero F) [r + 1..<row_count m]"
  show thesis
  proof (cases ?find)
    case None
    then have "g i r = 0" if "r < i" "i < R" for i
      using that r emat_acc [OF m, of i r] emat_counts [OF m] by (auto simp: find_None_iff)
    then show thesis using that [of g] m None True gr by (auto simp: find_pivot_def le_less)
  next
    case (Some b)
    then have b: "r < b" "b < R" "acc m b r \<noteq> F_zero F" using emat_counts [OF m] by (auto simp: find_Some_iff)
    then have nz: "g b r \<noteq> 0" using emat_acc [OF m b(2), of r] r by auto
    let ?h = "\<lambda>i c. if i = r then g b c else if i = b then g r c else g i c"
    have "tri R r ?h" if "tri R r g" using that b r by (auto simp: tri_def)
    then show thesis
      using that [of ?h] emat_swap [OF m, of r b] swap_solutions [of r R b C g] b r nz True Some by (simp add: find_pivot_def)
  qed
qed

lemma elim_down_emat:
  assumes "emat emb R C m g" "tri R r g" "r \<le> R" "R \<le> C"
  shows "eliminated emb R C g (elim_down F [r..<R] m)"
  using assms
proof (induction "R - r" arbitrary: r m g)
  case 0
  then show ?case by (auto simp: eliminated_def)
next
  case (Suc n)
  then have r: "r < R" "r < C" and list: "[r..<R] = r # [Suc r..<R]" by (auto simp: upt_conv_Cons)
  obtain h where h: "emat emb R C (find_pivot F r m) h" "same_solutions R C g h" "tri R r h"
    "h r r = 0 \<Longrightarrow> (\<forall>i. r \<le> i \<and> i < R \<longrightarrow> h i r = 0)"
    using find_pivot_emat [OF Suc.prems(1) r(1) Suc.prems(4)] Suc.prems(2) by metis
  show ?case
  proof (cases "h r r = 0")
    case True
    then have "acc (find_pivot F r m) r r = F_zero F" using emat_acc [OF h(1) r] by simp
    then show ?thesis using h True r by (auto simp: list Let_def eliminated_def)
  next
    case False
    then have nz: "acc (find_pivot F r m) r r \<noteq> F_zero F" using emat_acc [OF h(1) r] by auto
    let ?k = "\<lambda>r' c. if r' = r then h r c / h r r else h r' c"
    obtain m1 where m1: "scale_row F r (find_pivot F r m) = Some m1" "emat emb R C m1 ?k"
      using scale_row_emat [OF h(1) r False] by blast
    let ?l = "\<lambda>i c. if i \<in> {Suc r..<R} then ?k i c + ?k i r * ?k r c else ?k i c"
    let ?m2 = "foldl (\<lambda>m b. clear_with F r b m) m1 [r + 1..<row_count m1]"
    have m2: "emat emb R C ?m2 ?l"
      using clear_rows_emat [OF m1(2), of "[r + 1..<R]" r] r by (simp add: subset_iff emat_counts(1) [OF m1(2)])
    have "same_solutions R C h ?k" by (rule scale_solutions [OF r(1) False])
    also have "same_solutions R C ?k ?l" by (rule add_solutions) (use r in auto)
    finally have sol: "same_solutions R C g ?l" using h(2) same_solutions_trans by blast
    have tri: "tri R (Suc r) ?l" using h(3) False r by (auto simp: tri_def less_Suc_eq)
    have "elim_down F [r..<R] m = elim_down F [Suc r..<R] ?m2" by (simp add: list nz m1(1))
    moreover have "eliminated emb R C ?l (elim_down F [Suc r..<R] ?m2)"
      by (rule Suc.hyps(1) [OF _ m2 tri]) (use Suc.hyps(2) r Suc.prems(4) in auto)
    ultimately show ?thesis using eliminated_trans [OF sol] by simp
  qed
qed

lemma elim_up_emat:
  assumes "emat emb R C m g" "tri R R g" "R \<le> C"
  shows "\<exists>h. emat emb R C (elim_up F m) h \<and> same_solutions R C g h \<and> (\<forall>r<R. \<forall>c<R. h r c = (if r = c then 1 else 0))"
proof -
  let ?up = "foldl (\<lambda>m d. foldl (\<lambda>m r_above. clear_with F d r_above m) m [0..<d]) m"
  have "\<exists>h. emat emb R C (?up [0..<n]) h \<and> same_solutions R C g h \<and> tri R R h \<and> (\<forall>c<n. \<forall>i<c. h i c = 0)" if "n \<le> R" for n
    using that
  proof (induction n)
    case 0
    then show ?case using assms by auto
  next
    case (Suc n)
    then obtain h where h: "emat emb R C (?up [0..<n]) h" "same_solutions R C g h" "tri R R h" "\<forall>c<n. \<forall>i<c. h i c = 0" by auto
    have n: "n < R" "n < C" using Suc.prems assms(3) by auto
    let ?k = "\<lambda>r c. if r \<in> {0..<n} then h r c + h r n * h n c else h r c"
    have "emat emb R C (?up [0..<Suc n]) ?k"
      using clear_rows_emat [OF h(1), of "[0..<n]" n] n by (simp add: subset_iff)
    moreover have "same_solutions R C h ?k" by (rule add_solutions) (use n in auto)
    moreover have "tri R R ?k" using h(3) n by (auto simp: tri_def)
    moreover have "\<forall>c<Suc n. \<forall>i<c. ?k i c = 0" using h(3,4) n by (auto simp: less_Suc_eq tri_def)
    ultimately show ?case using h(2) same_solutions_trans by blast
  qed
  from this [of R] obtain h where h: "emat emb R C (?up [0..<R]) h" "same_solutions R C g h" "tri R R h" "\<forall>c<R. \<forall>i<c. h i c = 0" by auto
  then have "h r c = (if r = c then 1 else 0)" if "r < R" "c < R" for r c
    using that by (cases r c rule: linorder_cases) (auto simp: tri_def)
  then show ?thesis using h emat_counts [OF assms(1)] by (auto simp: elim_up_def)
qed

end

subsection \<open>Inversion\<close>

definition inverse_of :: "nat \<Rightarrow> (nat \<Rightarrow> nat \<Rightarrow> 'f :: field) \<Rightarrow> (nat \<Rightarrow> nat \<Rightarrow> 'f) \<Rightarrow> bool" where
  "inverse_of n a b \<longleftrightarrow> (\<forall>u v. (\<forall>i<n. (\<Sum>c<n. a i c * u c) = v i) \<longleftrightarrow> (\<forall>i<n. u i = (\<Sum>c<n. b i c * v c)))"

lemma sum_lessThan_add: "(\<Sum>c<n + k. f c) = (\<Sum>c<n. f c) + (\<Sum>c<k. f (n + c :: nat) :: 'f :: comm_monoid_add)"
  by (induction k) (simp_all add: add.assoc)

lemma sum_delta_left: "r < (n :: nat) \<Longrightarrow> (\<Sum>c<n. (if r = c then 1 else 0) * x c) = (x r :: 'f :: field)"
  by (simp add: if_distrib [of "\<lambda>y. y * _"] sum.delta' cong: if_cong)

context field_impl
begin

lemma sum_zero_iff: "(x :: 'f) + y = 0 \<longleftrightarrow> x = y"
  by (metis add.assoc add.left_neutral add.right_neutral char2)

lemma invert_emat:
  assumes m: "emat emb n n m a"
  shows "(\<exists>m' b. invert F m = Inr m' \<and> emat emb n n m' b \<and> inverse_of n a b) \<or>
    invert F m = Inl SingularMatrix \<and> (\<exists>x. (\<exists>c<n. x c \<noteq> 0) \<and> solves n n a x)"
proof -
  let ?g = "\<lambda>r c. if c < n then a r c else if r = c - n then 1 else 0"
  have f: "is_mat n n m (acc m)" using m by (simp add: emat_def is_mat_def)
  obtain w where w: "augment F m (Matrix_identity F n) = Some w"
    "is_mat n (n + n) w (\<lambda>r c. if c < n then acc m r c else if r = c - n then F_one F else F_zero F)"
    using is_mat_augment [OF f is_mat_identity] .
  then have ew: "emat emb n (n + n) w ?g" using emat_acc [OF m] by (auto simp: emat_def is_mat_def)
  have gsum: "(\<Sum>c<n + n. ?g r c * x c) = (\<Sum>c<n. a r c * x c) + x (n + r)" if "r < n" for r and x :: "nat \<Rightarrow> 'f"
    using sum_delta_left [OF that, of "\<lambda>c. x (n + c)"] by (simp add: sum_lessThan_add)
  have res: "eliminated emb n (n + n) ?g (elim_down F [0..<n] w)"
    by (rule elim_down_emat [OF ew]) (simp_all add: tri_def)
  have inv: "invert F m = (case gaussian_elim F w of Inl e \<Rightarrow> Inl e | Inr w \<Rightarrow> Inr (sub_matrix F 0 n n (n * 2) w))"
    using w(1) emat_counts [OF m] by (simp add: invert_def is_square_def split: sum.split)
  show ?thesis
  proof (cases "elim_down F [0..<n] w")
    case (Inl e)
    with res obtain h i where h: "e = SingularMatrix" "same_solutions n (n + n) ?g h" "i < n" "tri n i h"
      "\<And>j. i \<le> j \<Longrightarrow> j < n \<Longrightarrow> h j i = 0" by (auto simp: eliminated_def)
    obtain x where x: "solves n (n + n) h x" "x i = 1" "\<And>c. i < c \<Longrightarrow> x c = 0"
      by (rule stuck_kernel [OF h(4,3,5), of "n + n"]) auto
    then have "solves n (n + n) ?g x" using h(2) by (simp add: same_solutions_def)
    then have "solves n n a x" using x(3) h(3) gsum by (simp add: solves_def)
    then have "\<exists>x. (\<exists>c<n. x c \<noteq> 0) \<and> solves n n a x" using x(2) h(3) by (intro exI [of _ x]) auto
    then show ?thesis using Inl h(1) emat_counts [OF ew] by (simp add: inv gaussian_elim_def)
  next
    case (Inr w1)
    with res obtain h where h: "emat emb n (n + n) w1 h" "same_solutions n (n + n) ?g h" "tri n n h" by (auto simp: eliminated_def)
    obtain k where k: "emat emb n (n + n) (elim_up F w1) k" "same_solutions n (n + n) h k"
      "\<forall>r<n. \<forall>c<n. k r c = (if r = c then 1 else 0)"
      using elim_up_emat [OF h(1,3)] by auto
    let ?b = "\<lambda>r c. k r (c + n)" and ?s = "sub_matrix F 0 n n (n * 2) (elim_up F w1)"
    have "is_mat n (n + n) (elim_up F w1) (acc (elim_up F w1))" using k(1) by (simp add: emat_def is_mat_def)
    from is_mat_sub_matrix [OF this, of 0 n n "n * 2" F] have s: "emat emb n n ?s ?b"
      using emat_acc [OF k(1)] by (auto simp: emat_def is_mat_def)
    have ksum: "(\<Sum>c<n + n. k r c * x c) = x r + (\<Sum>c<n. ?b r c * x (n + c))" if "r < n" for r and x :: "nat \<Rightarrow> 'f"
    proof -
      have "(\<Sum>c<n. k r c * x c) = (\<Sum>c<n. (if r = c then 1 else 0) * x c)" using k(3) that by (intro sum.cong) auto
      then show ?thesis using sum_delta_left [OF that, of x] by (simp add: sum_lessThan_add add.commute)
    qed
    have "inverse_of n a ?b" unfolding inverse_of_def
    proof (intro allI)
      fix u v :: "nat \<Rightarrow> 'f"
      let ?x = "\<lambda>c. if c < n then u c else v (c - n)"
      have "(\<forall>i<n. (\<Sum>c<n. a i c * u c) = v i) \<longleftrightarrow> solves n (n + n) ?g ?x" by (simp add: solves_def gsum sum_zero_iff)
      also have "\<dots> \<longleftrightarrow> solves n (n + n) k ?x" using h(2) k(2) by (simp add: same_solutions_def)
      also have "\<dots> \<longleftrightarrow> (\<forall>i<n. u i = (\<Sum>c<n. ?b i c * v c))" by (simp add: solves_def ksum sum_zero_iff)
      finally show "(\<forall>i<n. (\<Sum>c<n. a i c * u c) = v i) \<longleftrightarrow> (\<forall>i<n. u i = (\<Sum>c<n. ?b i c * v c))" .
    qed
    then show ?thesis using s Inr emat_counts [OF ew] by (auto simp: inv gaussian_elim_def)
  qed
qed

lemma emb_dot: "emb (dot F a b r c) = (\<Sum>i<col_count a. emb (acc a r i) * emb (acc b i c))"
proof -
  have "emb (foldl (\<lambda>val i. F_add F val (F_mul F (acc a r i) (acc b i c))) (F_zero F) [0..<n]) =
      (\<Sum>i<n. emb (acc a r i) * emb (acc b i c))" for n
    by (induction n) simp_all
  then show ?thesis by (simp add: dot_def)
qed

lemma multiply_emat:
  assumes "emat emb R K a f" "emat emb K C b g"
  obtains m where "Matrix_multiply F a b = Some m" "emat emb R C m (\<lambda>r c. \<Sum>i<K. f r i * g i c)"
proof -
  have "is_mat R K a (acc a)" "is_mat K C b (acc b)" using assms by (simp_all add: emat_def is_mat_def)
  then obtain m where "Matrix_multiply F a b = Some m" "is_mat R C m (dot F a b)" by (rule is_mat_multiply)
  then show thesis using that emat_acc [OF assms(1)] emat_acc [OF assms(2)] emat_counts [OF assms(1)]
    by (auto simp: emat_def is_mat_def emb_dot intro!: sum.cong)
qed

end

subsection \<open>Vandermonde rows are independent\<close>

lemma poly_zero:
  fixes x :: "nat \<Rightarrow> 'f :: field"
  assumes "finite A" "n \<le> card A" "\<And>p. p \<in> A \<Longrightarrow> (\<Sum>c<n. x c * p ^ c) = 0" "c < n"
  shows "x c = 0"
  using assms
proof (induction n arbitrary: x A c)
  case (Suc n)
  obtain p where p: "p \<in> A" using Suc.prems(1,2) by (metis card_0_eq equals0I not_less_eq_eq zero_le)
  have top: "x n = 0"
  proof (cases "n = 0")
    case True
    then show ?thesis using Suc.prems(3) [OF p] by simp
  next
    case False
    define b where "b = (\<lambda>j. \<Sum>i = Suc j..n. x i * p ^ (i - j - 1))"
    have "(\<Sum>c<n. b c * q ^ c) = 0" if q: "q \<in> A - {p}" for q
    proof -
      have "(\<Sum>i\<le>n. x i * q ^ i) - (\<Sum>i\<le>n. x i * p ^ i) = (q - p) * (\<Sum>c<n. b c * q ^ c)"
        unfolding b_def by (rule polyfun_diff) (use False in simp)
      then show ?thesis using Suc.prems(3) [OF p] Suc.prems(3) [of q] q by (auto simp: lessThan_Suc_atMost)
    qed
    moreover have "n \<le> card (A - {p})" using Suc.prems(1,2) p by simp
    ultimately have "b (n - 1) = 0" using Suc.IH [of "A - {p}" b "n - 1"] Suc.prems(1) False by simp
    then show ?thesis using False by (simp add: b_def)
  qed
  have "x c = 0" if "c < n" for c
    using Suc.IH [of A x c] Suc.prems(1,2,3) top that by simp
  then show ?case using Suc.prems(4) top by (auto simp: less_Suc_eq)
qed simp

lemma vandermonde_kernel:
  fixes x :: "nat \<Rightarrow> 'f :: field"
  assumes "inj_on p {..<n}" "solves n n (\<lambda>r c. p r ^ c) x" "c < n"
  shows "x c = 0"
  using poly_zero [of "p ` {..<n}" n x c] assms by (auto simp: solves_def card_image mult.commute)

end
