(* ===== verification/Pulsar_Erasure.thy ===== *)
theory Pulsar_Erasure
  imports Pulsar_Matrix
begin

text \<open>
  \<^verbatim>\<open>core.rs\<close>: the Reed-Solomon codec over a field given by its operations, with its checks (\<^verbatim>\<open>macros.rs\<close>), errors
  (\<^verbatim>\<open>errors.rs\<close>) and the cache of decode matrices. The LRU cache is a crate of its own and a parameter here: its
  three operations, and the documented law that a lookup only returns what was stored under that key. A shard
  is a list of field elements, a missing one is \<open>None\<close>; \<^verbatim>\<open>RsPanic\<close> stands for the panics of the source.
\<close>

subsection \<open>Errors and the codec\<close>

datatype rs_error = TooFewShards | TooManyShards | TooFewDataShards | TooManyDataShards | TooFewParityShards | TooManyParityShards
  | TooFewBufferShards | TooManyBufferShards | IncorrectShardSize | TooFewShardsPresent | EmptyShard | InvalidShardFlags | InvalidIndex

datatype rs_fail = RsErr rs_error | RsPanic

datatype sbs_error = TooManyCalls | LeftoverShards | RSError rs_error

datatype sbs_fail = SbsErr sbs_error | SbsPanic

record ('c, 'e) lru_lib =
  lru_new :: "nat \<Rightarrow> 'c"
  lru_get :: "nat list \<Rightarrow> 'c \<Rightarrow> 'e matrix option \<times> 'c"
  lru_put :: "nat list \<Rightarrow> 'e matrix \<Rightarrow> 'c \<Rightarrow> 'c"

definition lru_ok :: "('c, 'e) lru_lib \<Rightarrow> ('c \<Rightarrow> nat list \<rightharpoonup> 'e matrix) \<Rightarrow> bool" where
  "lru_ok lib view \<longleftrightarrow>
     (\<forall>n. view (lru_new lib n) = Map.empty) \<and>
     (\<forall>k c. fst (lru_get lib k c) = view c k \<and> view (snd (lru_get lib k c)) \<subseteq>\<^sub>m view c) \<and>
     (\<forall>k v c. view (lru_put lib k v c) \<subseteq>\<^sub>m (view c)(k \<mapsto> v))"

record ('c, 'e) reed_solomon =
  data_shard_count :: nat
  parity_shard_count :: nat
  total_shard_count :: nat
  rs_matrix :: "'e matrix"
  decode_cache :: 'c

definition DATA_DECODE_MATRIX_CACHE_CAPACITY :: nat where "DATA_DECODE_MATRIX_CACHE_CAPACITY = 254"

definition get_parity_rows :: "('c, 'e) reed_solomon \<Rightarrow> 'e list list" where
  "get_parity_rows rs = map (get_row (rs_matrix rs)) [data_shard_count rs..<total_shard_count rs]"

definition build_matrix :: "'e field_ops \<Rightarrow> nat \<Rightarrow> nat \<Rightarrow> 'e matrix option" where
  "build_matrix F data_shards total_shards =
     (case vandermonde F total_shards data_shards of
        None \<Rightarrow> None
      | Some v \<Rightarrow>
          (case invert F (sub_matrix F 0 0 data_shards data_shards v) of
             Inl _ \<Rightarrow> None
           | Inr top_inv \<Rightarrow> Matrix_multiply F v top_inv))"

definition ReedSolomon_new :: "'e field_ops \<Rightarrow> ('c, 'e) lru_lib \<Rightarrow> nat \<Rightarrow> nat \<Rightarrow> rs_fail + ('c, 'e) reed_solomon" where
  "ReedSolomon_new F lru data_shards parity_shards =
     (if data_shards = 0 then Inl (RsErr TooFewDataShards)
      else if parity_shards = 0 then Inl (RsErr TooFewParityShards)
      else if data_shards + parity_shards > F_ORDER F then Inl (RsErr TooManyShards)
      else let total_shards = data_shards + parity_shards in
        case build_matrix F data_shards total_shards of
          None \<Rightarrow> Inl RsPanic
        | Some m \<Rightarrow> Inr \<lparr>data_shard_count = data_shards, parity_shard_count = parity_shards, total_shard_count = total_shards,
            rs_matrix = m, decode_cache = lru_new lru DATA_DECODE_MATRIX_CACHE_CAPACITY\<rparr>)"

definition code_single_slice :: "'e field_ops \<Rightarrow> 'e list list \<Rightarrow> nat \<Rightarrow> 'e list \<Rightarrow> 'e list list \<Rightarrow> 'e list list option" where
  "code_single_slice F matrix_rows i_input input outputs =
     those (map (\<lambda>(i_row, output).
        if i_row < length matrix_rows \<and> i_input < length (matrix_rows ! i_row)
        then let matrix_row_to_use = matrix_rows ! i_row ! i_input in
             if i_input = 0 then F_mul_slice F matrix_row_to_use input output
             else F_mul_slice_add F matrix_row_to_use input output
        else None) (enumerate 0 outputs))"

fun code_loop :: "'e field_ops \<Rightarrow> 'e list list \<Rightarrow> 'e list list \<Rightarrow> nat list \<Rightarrow> 'e list list \<Rightarrow> 'e list list option" where
  "code_loop F matrix_rows inputs [] outputs = Some outputs"
| "code_loop F matrix_rows inputs (i_input # is) outputs =
     (if i_input < length inputs
      then Option.bind (code_single_slice F matrix_rows i_input (inputs ! i_input) outputs) (code_loop F matrix_rows inputs is)
      else None)"

definition code_some_slices :: "'e field_ops \<Rightarrow> ('c, 'e) reed_solomon \<Rightarrow> 'e list list \<Rightarrow> 'e list list \<Rightarrow> 'e list list \<Rightarrow> 'e list list option" where
  "code_some_slices F rs matrix_rows inputs outputs = code_loop F matrix_rows inputs [0..<data_shard_count rs] outputs"

text \<open>The checks of \<^verbatim>\<open>macros.rs\<close>: the failure a check returns with, if any.\<close>

definition check_count :: "rs_error \<Rightarrow> rs_error \<Rightarrow> nat \<Rightarrow> 'a list \<Rightarrow> rs_fail option" where
  "check_count few many n pieces =
     (if length pieces < n then Some (RsErr few) else if length pieces > n then Some (RsErr many) else None)"

definition check_slices :: "'e list list \<Rightarrow> rs_fail option" where
  "check_slices slices =
     (case slices of
        [] \<Rightarrow> Some RsPanic
      | s0 # _ \<Rightarrow>
          if length s0 = 0 then Some (RsErr EmptyShard)
          else if list_ex (\<lambda>s. length s \<noteq> length s0) slices then Some (RsErr IncorrectShardSize)
          else None)"

definition check_single :: "'e list \<Rightarrow> 'e list \<Rightarrow> rs_fail option" where
  "check_single l r = (if length l \<noteq> length r then Some (RsErr IncorrectShardSize) else None)"

definition check_index :: "nat \<Rightarrow> nat \<Rightarrow> rs_fail option" where
  "check_index count index = (if index \<ge> count then Some (RsErr InvalidIndex) else None)"

fun checks :: "rs_fail option list \<Rightarrow> rs_fail option" where
  "checks [] = None"
| "checks (Some e # _) = Some e"
| "checks (None # cs) = checks cs"

definition or_panic :: "'a option \<Rightarrow> rs_fail + 'a" where
  "or_panic r = (case r of None \<Rightarrow> Inl RsPanic | Some x \<Rightarrow> Inr x)"

definition guarded :: "rs_fail option list \<Rightarrow> rs_fail + 'a \<Rightarrow> rs_fail + 'a" where
  "guarded cs r = (case checks cs of Some e \<Rightarrow> Inl e | None \<Rightarrow> r)"

definition encode_single_sep :: "'e field_ops \<Rightarrow> ('c, 'e) reed_solomon \<Rightarrow> nat \<Rightarrow> 'e list \<Rightarrow> 'e list list \<Rightarrow> rs_fail + 'e list list" where
  "encode_single_sep F rs i_data single_data parity =
     guarded [check_index (data_shard_count rs) i_data,
              check_count TooFewParityShards TooManyParityShards (parity_shard_count rs) parity,
              check_slices parity, check_single (parity ! 0) single_data]
       (or_panic (code_single_slice F (get_parity_rows rs) i_data single_data parity))"

definition encode_single :: "'e field_ops \<Rightarrow> ('c, 'e) reed_solomon \<Rightarrow> nat \<Rightarrow> 'e list list \<Rightarrow> rs_fail + 'e list list" where
  "encode_single F rs i_data slices =
     guarded [check_index (data_shard_count rs) i_data,
              check_count TooFewShards TooManyShards (total_shard_count rs) slices, check_slices slices]
       (let mut_input = take (data_shard_count rs) slices; output = drop (data_shard_count rs) slices in
        case encode_single_sep F rs i_data (mut_input ! i_data) output of
          Inl e \<Rightarrow> Inl e
        | Inr output \<Rightarrow> Inr (mut_input @ output))"

definition encode_sep :: "'e field_ops \<Rightarrow> ('c, 'e) reed_solomon \<Rightarrow> 'e list list \<Rightarrow> 'e list list \<Rightarrow> rs_fail + 'e list list" where
  "encode_sep F rs dat parity =
     guarded [check_count TooFewDataShards TooManyDataShards (data_shard_count rs) dat,
              check_count TooFewParityShards TooManyParityShards (parity_shard_count rs) parity,
              check_slices dat, check_slices parity, check_single (dat ! 0) (parity ! 0)]
       (or_panic (code_some_slices F rs (get_parity_rows rs) dat parity))"

definition encode :: "'e field_ops \<Rightarrow> ('c, 'e) reed_solomon \<Rightarrow> 'e list list \<Rightarrow> rs_fail + 'e list list" where
  "encode F rs slices =
     guarded [check_count TooFewShards TooManyShards (total_shard_count rs) slices, check_slices slices]
       (let input = take (data_shard_count rs) slices; output = drop (data_shard_count rs) slices in
        case encode_sep F rs input output of Inl e \<Rightarrow> Inl e | Inr output \<Rightarrow> Inr (input @ output))"

definition check_some_slices_with_buffer ::
  "'e field_ops \<Rightarrow> ('c, 'e) reed_solomon \<Rightarrow> 'e list list \<Rightarrow> 'e list list \<Rightarrow> 'e list list \<Rightarrow> 'e list list \<Rightarrow> (bool \<times> 'e list list) option" where
  "check_some_slices_with_buffer F rs matrix_rows inputs to_check buffer =
     map_option (\<lambda>buffer.
       (let at_least_one_mismatch_present = list_ex (\<lambda>(i, expected). \<not> expected = to_check ! i) (enumerate 0 buffer)
        in (\<not> at_least_one_mismatch_present, buffer)))
       (code_some_slices F rs matrix_rows inputs buffer)"

definition verify_with_buffer ::
  "'e field_ops \<Rightarrow> ('c, 'e) reed_solomon \<Rightarrow> 'e list list \<Rightarrow> 'e list list \<Rightarrow> rs_fail + (bool \<times> 'e list list)" where
  "verify_with_buffer F rs slices buffer =
     guarded [check_count TooFewShards TooManyShards (total_shard_count rs) slices,
              check_count TooFewBufferShards TooManyBufferShards (parity_shard_count rs) buffer,
              check_slices slices, check_slices buffer, check_single (slices ! 0) (buffer ! 0)]
       (or_panic (check_some_slices_with_buffer F rs (get_parity_rows rs) (take (data_shard_count rs) slices)
          (drop (data_shard_count rs) slices) buffer))"

definition verify :: "'e field_ops \<Rightarrow> ('c, 'e) reed_solomon \<Rightarrow> 'e list list \<Rightarrow> rs_fail + bool" where
  "verify F rs slices =
     guarded [check_count TooFewShards TooManyShards (total_shard_count rs) slices, check_slices slices]
       (let slice_len = length (slices ! 0); buffer = replicate (parity_shard_count rs) (replicate slice_len (F_zero F)) in
        case verify_with_buffer F rs slices buffer of Inl e \<Rightarrow> Inl e | Inr (ok, _) \<Rightarrow> Inr ok)"

subsection \<open>Reconstruction\<close>

definition pick_rows :: "'e field_ops \<Rightarrow> 'e matrix \<Rightarrow> nat \<Rightarrow> nat list \<Rightarrow> 'e matrix" where
  "pick_rows F m n valid_indices =
     foldl (\<lambda>sub (row, valid_index). foldl (\<lambda>sub c. set_acc sub row c (acc m valid_index c)) sub [0..<n])
       (Matrix_new F n n) (enumerate 0 valid_indices)"

definition get_data_decode_matrix ::
  "'e field_ops \<Rightarrow> ('c, 'e) lru_lib \<Rightarrow> nat list \<Rightarrow> nat list \<Rightarrow> ('c, 'e) reed_solomon \<Rightarrow> 'e matrix option \<times> ('c, 'e) reed_solomon" where
  "get_data_decode_matrix F lru valid_indices invalid_indices rs =
     (case lru_get lru invalid_indices (decode_cache rs) of
        (Some entry, cache) \<Rightarrow> (Some entry, rs\<lparr>decode_cache := cache\<rparr>)
      | (None, cache) \<Rightarrow>
          (case invert F (pick_rows F (rs_matrix rs) (data_shard_count rs) valid_indices) of
             Inl _ \<Rightarrow> (None, rs\<lparr>decode_cache := cache\<rparr>)
           | Inr m \<Rightarrow> (Some m, rs\<lparr>decode_cache := lru_put lru invalid_indices m cache\<rparr>)))"

fun scan_shards :: "'e list option list \<Rightarrow> nat \<Rightarrow> nat option \<Rightarrow> rs_fail + (nat \<times> nat option)" where
  "scan_shards [] number_present shard_len = Inr (number_present, shard_len)"
| "scan_shards (None # shards) number_present shard_len = scan_shards shards number_present shard_len"
| "scan_shards (Some s # shards) number_present shard_len =
     (if length s = 0 then Inl (RsErr EmptyShard)
      else case shard_len of
             Some old_len \<Rightarrow>
               if length s \<noteq> old_len then Inl (RsErr IncorrectShardSize)
               else scan_shards shards (number_present + 1) (Some (length s))
           | None \<Rightarrow> scan_shards shards (number_present + 1) (Some (length s)))"

record 'e shard_groups =
  sub_shards :: "'e list list"
  missing_data_slices :: "'e list list"
  missing_parity_slices :: "'e list list"
  valid_indices :: "nat list"
  invalid_indices :: "nat list"

definition group_shard :: "'e field_ops \<Rightarrow> nat \<Rightarrow> bool \<Rightarrow> nat \<Rightarrow> 'e shard_groups \<Rightarrow> nat \<times> 'e list option \<Rightarrow> 'e shard_groups" where
  "group_shard F n data_only shard_len g rowshard =
     (case rowshard of
        (row, Some s) \<Rightarrow>
          if length (sub_shards g) < n
          then g\<lparr>sub_shards := sub_shards g @ [s], valid_indices := valid_indices g @ [row]\<rparr>
          else g
      | (row, None) \<Rightarrow>
          if row \<ge> n \<and> data_only then g\<lparr>invalid_indices := invalid_indices g @ [row]\<rparr>
          else
            let shard = replicate shard_len (F_zero F);
                g = (if row < n then g\<lparr>missing_data_slices := missing_data_slices g @ [shard]\<rparr>
                     else g\<lparr>missing_parity_slices := missing_parity_slices g @ [shard]\<rparr>)
            in g\<lparr>invalid_indices := invalid_indices g @ [row]\<rparr>)"

definition group_shards :: "'e field_ops \<Rightarrow> nat \<Rightarrow> bool \<Rightarrow> nat \<Rightarrow> 'e list option list \<Rightarrow> 'e shard_groups" where
  "group_shards F n data_only shard_len shards =
     foldl (group_shard F n data_only shard_len)
       \<lparr>sub_shards = [], missing_data_slices = [], missing_parity_slices = [], valid_indices = [], invalid_indices = []\<rparr>
       (enumerate 0 shards)"

text \<open>The buffers are borrowed from the shard vector: what is written to them is in the vector afterwards.\<close>

definition write_back :: "nat list \<Rightarrow> 'e list list \<Rightarrow> 'e list option list \<Rightarrow> 'e list option list" where
  "write_back rows bufs shards = foldl (\<lambda>shards (row, buf). shards[row := Some buf]) shards (zip rows bufs)"

text \<open>\<^verbatim>\<open>push_good_up_to\<close> and the loop around it: the data shards in order, old ones and rebuilt ones.\<close>

fun gather_data :: "nat \<Rightarrow> nat list \<Rightarrow> nat \<Rightarrow> 'e list list \<Rightarrow> 'e list list \<Rightarrow> 'e list list" where
  "gather_data n [] next_maybe_good old new = take (n - next_maybe_good) old"
| "gather_data n (i_slice # is) next_maybe_good old new =
     take (i_slice - next_maybe_good) old @ take 1 new @
     gather_data n is (i_slice + 1) (drop (i_slice - next_maybe_good) old) (drop 1 new)"

definition reconstruct_internal ::
  "'e field_ops \<Rightarrow> ('c, 'e) lru_lib \<Rightarrow> bool \<Rightarrow> 'e list option list \<Rightarrow> ('c, 'e) reed_solomon \<Rightarrow>
    (rs_fail + 'e list option list) \<times> ('c, 'e) reed_solomon" where
  "reconstruct_internal F lru data_only shards rs =
     (case check_count TooFewShards TooManyShards (total_shard_count rs) shards of
        Some e \<Rightarrow> (Inl e, rs)
      | None \<Rightarrow>
          (case scan_shards shards 0 None of
             Inl e \<Rightarrow> (Inl e, rs)
           | Inr (number_present, shard_len) \<Rightarrow>
               if number_present = total_shard_count rs then (Inr shards, rs)
               else if number_present < data_shard_count rs then (Inl (RsErr TooFewShardsPresent), rs)
               else
                 (case shard_len of
                    None \<Rightarrow> (Inl RsPanic, rs)
                  | Some len \<Rightarrow>
                      let g = group_shards F (data_shard_count rs) data_only len shards;
                          data_rows = takeWhile (\<lambda>i. i < data_shard_count rs) (invalid_indices g);
                          parity_rows = dropWhile (\<lambda>i. i < data_shard_count rs) (invalid_indices g)
                      in case get_data_decode_matrix F lru (valid_indices g) (invalid_indices g) rs of
                           (None, rs) \<Rightarrow> (Inl RsPanic, rs)
                         | (Some m, rs) \<Rightarrow>
                             (case code_some_slices F rs (map (get_row m) data_rows) (sub_shards g) (missing_data_slices g) of
                                None \<Rightarrow> (Inl RsPanic, rs)
                              | Some new_data \<Rightarrow>
                                  let shards = write_back data_rows new_data shards in
                                  if data_only then (Inr shards, rs)
                                  else
                                    (case code_some_slices F rs (map (\<lambda>i. get_parity_rows rs ! (i - data_shard_count rs)) parity_rows)
                                            (gather_data (data_shard_count rs) data_rows 0 (sub_shards g) new_data)
                                            (missing_parity_slices g) of
                                       None \<Rightarrow> (Inl RsPanic, rs)
                                     | Some new_parity \<Rightarrow> (Inr (write_back parity_rows new_parity shards), rs))))))"

definition reconstruct :: "'e field_ops \<Rightarrow> ('c, 'e) lru_lib \<Rightarrow> 'e list option list \<Rightarrow> ('c, 'e) reed_solomon \<Rightarrow>
    (rs_fail + 'e list option list) \<times> ('c, 'e) reed_solomon" where
  "reconstruct F lru = reconstruct_internal F lru False"

definition reconstruct_data :: "'e field_ops \<Rightarrow> ('c, 'e) lru_lib \<Rightarrow> 'e list option list \<Rightarrow> ('c, 'e) reed_solomon \<Rightarrow>
    (rs_fail + 'e list option list) \<times> ('c, 'e) reed_solomon" where
  "reconstruct_data F lru = reconstruct_internal F lru True"

subsection \<open>Shard by shard\<close>

record ('c, 'e) shard_by_shard =
  codec :: "('c, 'e) reed_solomon"
  cur_input :: nat

definition ShardByShard_new :: "('c, 'e) reed_solomon \<Rightarrow> ('c, 'e) shard_by_shard" where
  "ShardByShard_new c = \<lparr>codec = c, cur_input = 0\<rparr>"

definition parity_ready :: "('c, 'e) shard_by_shard \<Rightarrow> bool" where
  "parity_ready s \<longleftrightarrow> cur_input s = data_shard_count (codec s)"

definition sbs_reset :: "('c, 'e) shard_by_shard \<Rightarrow> sbs_error + ('c, 'e) shard_by_shard" where
  "sbs_reset s = (if cur_input s > 0 \<and> \<not> parity_ready s then Inl LeftoverShards else Inr (s\<lparr>cur_input := 0\<rparr>))"

definition sbs_reset_force :: "('c, 'e) shard_by_shard \<Rightarrow> ('c, 'e) shard_by_shard" where
  "sbs_reset_force s = s\<lparr>cur_input := 0\<rparr>"

definition as_sbs :: "rs_fail option \<Rightarrow> sbs_fail option" where
  "as_sbs r = map_option (\<lambda>f. case f of RsErr e \<Rightarrow> SbsErr (RSError e) | RsPanic \<Rightarrow> SbsPanic) r"

definition sbs_encode_checks :: "('c, 'e) shard_by_shard \<Rightarrow> 'e list list \<Rightarrow> sbs_fail option" where
  "sbs_encode_checks s slices =
     (if parity_ready s then Some (SbsErr TooManyCalls)
      else as_sbs (checks [check_count TooFewShards TooManyShards (total_shard_count (codec s)) slices, check_slices slices]))"

definition sbs_encode_sep_checks :: "('c, 'e) shard_by_shard \<Rightarrow> 'e list list \<Rightarrow> 'e list list \<Rightarrow> sbs_fail option" where
  "sbs_encode_sep_checks s dat parity =
     (if parity_ready s then Some (SbsErr TooManyCalls)
      else as_sbs (checks [check_count TooFewDataShards TooManyDataShards (data_shard_count (codec s)) dat,
             check_count TooFewParityShards TooManyParityShards (parity_shard_count (codec s)) parity,
             check_slices dat, check_slices parity, check_single (dat ! 0) (parity ! 0)]))"

definition sbs_encode :: "'e field_ops \<Rightarrow> 'e list list \<Rightarrow> ('c, 'e) shard_by_shard \<Rightarrow> sbs_fail + ('e list list \<times> ('c, 'e) shard_by_shard)" where
  "sbs_encode F shards s =
     (case sbs_encode_checks s shards of
        Some e \<Rightarrow> Inl e
      | None \<Rightarrow>
          (case encode_single F (codec s) (cur_input s) shards of
             Inl _ \<Rightarrow> Inl SbsPanic
           | Inr shards \<Rightarrow> Inr (shards, s\<lparr>cur_input := cur_input s + 1\<rparr>)))"

definition sbs_encode_sep :: "'e field_ops \<Rightarrow> 'e list list \<Rightarrow> 'e list list \<Rightarrow> ('c, 'e) shard_by_shard \<Rightarrow>
    sbs_fail + ('e list list \<times> ('c, 'e) shard_by_shard)" where
  "sbs_encode_sep F dat parity s =
     (case sbs_encode_sep_checks s dat parity of
        Some e \<Rightarrow> Inl e
      | None \<Rightarrow>
          (case encode_single_sep F (codec s) (cur_input s) (dat ! cur_input s) parity of
             Inl _ \<Rightarrow> Inl SbsPanic
           | Inr parity \<Rightarrow> Inr (parity, s\<lparr>cur_input := cur_input s + 1\<rparr>)))"

end
