(* ===== verification/Pulsar_Reed_Solomon.thy ===== *)
theory Pulsar_Reed_Solomon
  imports Pulsar_Erasure
begin

text \<open>
  Correctness of the Reed-Solomon codec. The encoding matrix is systematic and any \<open>k\<close> of its rows are
  invertible, so any \<open>k\<close> shards of a code word give all of it back; the cache of decode matrices keeps its
  invariant, because the missing rows determine the rows that are used. The properties are stated for the codec
  over bytes, \<^verbatim>\<open>galois_8::ReedSolomon\<close>.
\<close>

subsection \<open>Coding as linear combination\<close>

lemma those_Some: "list_all (\<lambda>x. x \<noteq> None) xs \<Longrightarrow> those xs = Some (map the xs)"
  by (induction xs) auto

text \<open>Shards of one length, and the linear combination a coding step computes.\<close>

definition sized :: "nat \<Rightarrow> nat \<Rightarrow> 'e list list \<Rightarrow> bool" where
  "sized n L xs \<longleftrightarrow> length xs = n \<and> (\<forall>x \<in> set xs. length x = L)"

lemma sizedD: "sized n L xs \<Longrightarrow> i < n \<Longrightarrow> length (xs ! i) = L" "sized n L xs \<Longrightarrow> length xs = n"
  by (simp_all add: sized_def)

lemma sizedI: "length xs = n \<Longrightarrow> (\<And>i. i < n \<Longrightarrow> length (xs ! i) = L) \<Longrightarrow> sized n L xs"
  by (auto simp: sized_def in_set_conv_nth)

lemma sized_eqI:
  "sized n L xs \<Longrightarrow> sized n L ys \<Longrightarrow> (\<And>j t. j < n \<Longrightarrow> t < L \<Longrightarrow> xs ! j ! t = ys ! j ! t) \<Longrightarrow> xs = ys"
  by (rule nth_equalityI) (auto simp: sizedD intro: nth_equalityI)

context field_impl
begin

lemma code_single_slice_sized:
  assumes "sized q k rows" "sized q L outputs" "length input = L" "i < k"
  obtains outs where "code_single_slice F rows i input outputs = Some outs" "sized q L outs"
    "\<And>j t. j < q \<Longrightarrow> t < L \<Longrightarrow> emb (outs ! j ! t) = (if i = 0 then 0 else emb (outputs ! j ! t)) + emb (rows ! j ! i) * emb (input ! t)"
proof -
  let ?f = "\<lambda>(j, out). if j < length rows \<and> i < length (rows ! j)
      then let a = rows ! j ! i in if i = 0 then F_mul_slice F a input out else F_mul_slice_add F a input out else None"
  let ?o = "\<lambda>j. if i = 0 then map (F_mul F (rows ! j ! i)) input
      else map2 (\<lambda>o' x. F_add F o' (F_mul F (rows ! j ! i) x)) (outputs ! j) input"
  have len: "length rows = q" "length outputs = q" using assms(1,2) by (simp_all add: sized_def)
  have f: "?f (j, outputs ! j) = Some (?o j)" if "j < q" for j
    using that assms sizedD(1) [OF assms(1) that] sizedD(1) [OF assms(2) that]
    by (simp add: len mul_slice mul_slice_add Let_def)
  have "map ?f (enumerate 0 outputs) = map (\<lambda>j. Some (?o j)) [0..<q]"
    using f by (intro nth_equalityI) (simp_all add: len nth_enumerate_eq)
  then have "code_single_slice F rows i input outputs = Some (map ?o [0..<q])"
    unfolding code_single_slice_def by (simp add: those_Some list_all_iff comp_def)
  moreover have "sized q L (map ?o [0..<q])" using sizedD(1) [OF assms(2)] assms(3) by (intro sizedI) auto
  moreover have "emb (map ?o [0..<q] ! j ! t) = (if i = 0 then 0 else emb (outputs ! j ! t)) + emb (rows ! j ! i) * emb (input ! t)"
    if "j < q" "t < L" for j t using that sizedD(1) [OF assms(2) that(1)] assms(3) by simp
  ultimately show thesis by (rule that)
qed

lemma code_loop_sized:
  assumes "sized q k rows" "sized q L outputs" "sized k L inputs" "n \<le> k"
  shows "\<exists>outs. code_loop F rows inputs [0..<n] outputs = Some outs \<and> sized q L outs \<and>
    (\<forall>j<q. \<forall>t<L. emb (outs ! j ! t) = (if n = 0 then emb (outputs ! j ! t) else 0) + (\<Sum>i<n. emb (rows ! j ! i) * emb (inputs ! i ! t)))"
  using assms(4)
proof (induction n)
  case 0
  then show ?case using assms(2) by simp
next
  case (Suc n)
  have app: "code_loop F rows inputs (xs @ [i]) outputs = Option.bind (code_loop F rows inputs xs outputs)
      (\<lambda>outs. if i < length inputs then code_single_slice F rows i (inputs ! i) outs else None)" for xs i
    by (induction xs arbitrary: outputs) (auto split: Option.bind_splits)
  from Suc obtain outs where o: "code_loop F rows inputs [0..<n] outputs = Some outs" "sized q L outs"
    "\<forall>j<q. \<forall>t<L. emb (outs ! j ! t) = (if n = 0 then emb (outputs ! j ! t) else 0) + (\<Sum>i<n. emb (rows ! j ! i) * emb (inputs ! i ! t))"
    by auto
  obtain outs' where o': "code_single_slice F rows n (inputs ! n) outs = Some outs'" "sized q L outs'"
    "\<And>j t. j < q \<Longrightarrow> t < L \<Longrightarrow> emb (outs' ! j ! t) = (if n = 0 then 0 else emb (outs ! j ! t)) + emb (rows ! j ! n) * emb (inputs ! n ! t)"
    using code_single_slice_sized [OF assms(1) o(2), of "inputs ! n" n] Suc.prems sizedD(1) [OF assms(3), of n] by auto
  have "code_loop F rows inputs [0..<Suc n] outputs = Some outs'"
    using app [of "[0..<n]" n] o(1) o'(1) Suc.prems sizedD(2) [OF assms(3)] by simp
  moreover have "emb (outs' ! j ! t) = (\<Sum>i<Suc n. emb (rows ! j ! i) * emb (inputs ! i ! t))" if "j < q" "t < L" for j t
    using o'(3) [OF that] o(3) that by auto
  ultimately show ?case using o'(2) by auto
qed

lemma code_some_slices_sized:
  assumes "sized q (data_shard_count rs) rows" "sized q L outputs" "sized (data_shard_count rs) L inputs" "0 < data_shard_count rs"
  obtains outs where "code_some_slices F rs rows inputs outputs = Some outs" "sized q L outs"
    "\<And>j t. j < q \<Longrightarrow> t < L \<Longrightarrow> emb (outs ! j ! t) = (\<Sum>i<data_shard_count rs. emb (rows ! j ! i) * emb (inputs ! i ! t))"
  using code_loop_sized [OF assms(1-3) le_refl] assms(4) that by (auto simp: code_some_slices_def)

end

subsection \<open>The encoding matrix\<close>

text \<open>Systematic, and every choice of \<open>k\<close> different rows is invertible.\<close>

definition mds :: "nat \<Rightarrow> nat \<Rightarrow> (nat \<Rightarrow> nat \<Rightarrow> 'f :: field) \<Rightarrow> bool" where
  "mds k total_rows e \<longleftrightarrow> (\<forall>r<k. \<forall>c<k. e r c = (if r = c then 1 else 0)) \<and>
     (\<forall>p x. inj_on p {..<k} \<and> p ` {..<k} \<subseteq> {..<total_rows} \<and> solves k k (\<lambda>i. e (p i)) x \<longrightarrow> (\<forall>c<k. x c = 0))"

lemma systematic_mds:
  fixes v b :: "nat \<Rightarrow> nat \<Rightarrow> 'f :: field"
  assumes "inverse_of k v b" "k \<le> T" "inj_on a {..<T}" "\<And>r c. r < T \<Longrightarrow> v r c = a r ^ c"
  shows "mds k T (\<lambda>r c. \<Sum>i<k. v r i * b i c)"
proof -
  let ?e = "\<lambda>r c. \<Sum>i<k. v r i * b i c" and ?y = "\<lambda>x i. \<Sum>c<k. b i c * x c"
  have e: "(\<Sum>c<k. ?e r c * x c) = (\<Sum>i<k. v r i * ?y x i)" for r x
  proof -
    have "(\<Sum>c<k. ?e r c * x c) = (\<Sum>c<k. \<Sum>i<k. v r i * b i c * x c)" by (simp add: sum_distrib_right)
    also have "\<dots> = (\<Sum>i<k. \<Sum>c<k. v r i * b i c * x c)" by (rule sum.swap)
    finally show ?thesis by (simp add: sum_distrib_left mult.assoc)
  qed
  have top: "(\<Sum>i<k. v r i * ?y x i) = x r" if "r < k" for r x
    using assms(1) [unfolded inverse_of_def, rule_format, of "?y x" x] that by blast
  have "?e r c = (if r = c then 1 else 0)" if "r < k" "c < k" for r c
  proof -
    have "?e r c = (\<Sum>c'<k. ?e r c' * (if c' = c then 1 else 0))" using that(2) by (simp add: if_distrib sum.delta cong: if_cong)
    also have "\<dots> = (if r = c then 1 else 0)" by (simp only: e top [OF that(1)])
    finally show ?thesis .
  qed
  moreover have "x c = 0" if p: "inj_on p {..<k}" "p ` {..<k} \<subseteq> {..<T}" and sol: "solves k k (\<lambda>i. ?e (p i)) x" and c: "c < k"
    for p :: "nat \<Rightarrow> nat" and x c
  proof -
    have "inj_on (\<lambda>i. a (p i)) {..<k}" using comp_inj_on [OF p(1) inj_on_subset [OF assms(3) p(2)]] by (simp add: comp_def)
    moreover have "solves k k (\<lambda>i c. a (p i) ^ c) (?y x)"
    proof -
      have "v (p i) c = a (p i) ^ c" if "i < k" for i c using assms(4) p(2) that by auto
      then show ?thesis using sol unfolding solves_def e by simp
    qed
    ultimately have "?y x i = 0" if "i < k" for i using vandermonde_kernel that by blast
    then show ?thesis using top [OF c, of x] by simp
  qed
  ultimately show ?thesis unfolding mds_def by blast
qed

context field_impl
begin

lemma build_matrix_mds:
  assumes "k \<le> T" "T \<le> F_ORDER F"
  obtains m e where "build_matrix F k T = Some m" "emat emb T k m e" "mds k T e"
proof -
  let ?v = "\<lambda>r c. emb (F_nth_internal F r) ^ c"
  obtain v where v: "vandermonde F T k = Some v" "is_mat T k v (\<lambda>r c. F_exp F (F_nth_internal F r) c)"
    by (rule is_mat_vandermonde [OF assms(2)])
  then have ev: "emat emb T k v ?v" by (simp add: emat_def is_mat_def)
  have inj: "inj_on (\<lambda>r. emb (F_nth_internal F r)) {..<T}" using nth_inj assms(2) by (intro inj_onI) simp
  from is_mat_sub_matrix [OF v(2), of 0 k 0 k F] assms(1)
  have et: "emat emb k k (sub_matrix F 0 0 k k v) ?v" by (simp add: emat_def is_mat_def)
  have "\<not> ((\<exists>c<k. x c \<noteq> 0) \<and> solves k k ?v x)" for x
    using vandermonde_kernel [OF inj_on_subset [OF inj]] assms(1) by (metis lessThan_subset_iff)
  with invert_emat [OF et] obtain t b where t: "invert F (sub_matrix F 0 0 k k v) = Inr t" "emat emb k k t b" "inverse_of k ?v b" by blast
  obtain m where m: "Matrix_multiply F v t = Some m" "emat emb T k m (\<lambda>r c. \<Sum>i<k. ?v r i * b i c)"
    by (rule multiply_emat [OF ev t(2)])
  show thesis using that [OF _ m(2) systematic_mds [OF t(3) assms(1) inj]] v(1) t(1) m(1) by (simp add: build_matrix_def)
qed

end

subsection \<open>Grouping the shards\<close>

definition present_rows :: "'e list option list \<Rightarrow> nat list" where
  "present_rows shards = filter (\<lambda>i. shards ! i \<noteq> None) [0..<length shards]"

definition missing_rows :: "'e list option list \<Rightarrow> nat list" where
  "missing_rows shards = filter (\<lambda>i. shards ! i = None) [0..<length shards]"

lemma rows_snoc:
  "present_rows (xs @ [x]) = present_rows xs @ (if x \<noteq> None then [length xs] else [])"
  "missing_rows (xs @ [x]) = missing_rows xs @ (if x = None then [length xs] else [])"
  by (auto simp: present_rows_def missing_rows_def nth_append intro!: filter_cong)

lemma group_shards_eq:
  "group_shards F n data_only L shards =
     \<lparr>sub_shards = map (\<lambda>i. the (shards ! i)) (take n (present_rows shards)),
      missing_data_slices = replicate (length (filter (\<lambda>i. i < n) (missing_rows shards))) (replicate L (F_zero F)),
      missing_parity_slices = (if data_only then [] else
        replicate (length (filter (\<lambda>i. \<not> i < n) (missing_rows shards))) (replicate L (F_zero F))),
      valid_indices = take n (present_rows shards), invalid_indices = missing_rows shards\<rparr>"
proof (induction shards rule: rev_induct)
  case Nil
  then show ?case by (simp add: group_shards_def present_rows_def missing_rows_def)
next
  case (snoc x xs)
  have nth: "map (\<lambda>i. the ((xs @ [x]) ! i)) (take n (present_rows xs)) = map (\<lambda>i. the (xs ! i)) (take n (present_rows xs))"
    by (auto simp: present_rows_def nth_append dest: in_set_takeD)
  have "group_shards F n data_only L (xs @ [x]) = group_shard F n data_only L (group_shards F n data_only L xs) (length xs, x)"
    by (simp add: group_shards_def enumerate_append_eq)
  also have "\<dots> = group_shard F n data_only L
     \<lparr>sub_shards = map (\<lambda>i. the (xs ! i)) (take n (present_rows xs)),
      missing_data_slices = replicate (length (filter (\<lambda>i. i < n) (missing_rows xs))) (replicate L (F_zero F)),
      missing_parity_slices = (if data_only then [] else
        replicate (length (filter (\<lambda>i. \<not> i < n) (missing_rows xs))) (replicate L (F_zero F))),
      valid_indices = take n (present_rows xs), invalid_indices = missing_rows xs\<rparr> (length xs, x)"
    by (simp only: snoc)
  finally show ?case
    using nth by (cases x) (auto simp: group_shard_def rows_snoc Let_def replicate_append_same nth_append min_def)
qed

lemma scan_shards_eq:
  assumes "\<And>s. Some s \<in> set shards \<Longrightarrow> length s = L" "0 < L" "sl = None \<or> sl = Some L"
  shows "scan_shards shards p sl = Inr (p + length (filter (\<lambda>s. s \<noteq> None) shards), if list_all (\<lambda>s. s = None) shards then sl else Some L)"
  using assms
proof (induction shards p sl rule: scan_shards.induct)
  case (3 s shards p sl)
  then show ?case by (auto split: option.splits simp: list_all_iff)
qed simp_all

lemma length_present: "length (present_rows shards) = length (filter (\<lambda>s. s \<noteq> None) shards)"
  by (induction shards rule: rev_induct) (auto simp: rows_snoc, simp add: present_rows_def)

lemma write_back_eq:
  assumes "set rows \<subseteq> {..<length shards}" "distinct rows"
  shows "write_back rows (map (\<lambda>i. xs ! i) rows) shards = map (\<lambda>i. if i \<in> set rows then Some (xs ! i) else shards ! i) [0..<length shards]"
  using assms
proof (induction rows arbitrary: shards)
  case Nil
  then show ?case by (simp add: write_back_def map_nth)
next
  case (Cons r rows)
  then have "write_back (r # rows) (map (\<lambda>i. xs ! i) (r # rows)) shards =
      map (\<lambda>i. if i \<in> set rows then Some (xs ! i) else shards[r := Some (xs ! r)] ! i) [0..<length shards]"
    using Cons.IH [of "shards[r := Some (xs ! r)]"] by (simp add: write_back_def)
  then show ?case using Cons.prems by (auto simp: nth_list_update)
qed

lemma gather_data_eq:
  assumes "is = filter (\<lambda>i. \<not> P i) [s..<n]" "s \<le> n"
  shows "gather_data n is s (map f (filter P [s..<n]) @ rest) (map f is) = map f [s..<n]"
  using assms
proof (induction "is" arbitrary: s)
  case Nil
  then have "filter P [s..<n] = [s..<n]" using filter_empty_conv [of "\<lambda>i. \<not> P i" "[s..<n]"] by (intro filter_True) auto
  then show ?case by simp
next
  case (Cons i "is")
  then obtain us vs where u: "[s..<n] = us @ i # vs" "\<forall>u\<in>set us. P u" "\<not> P i" "is = filter (\<lambda>i. \<not> P i) vs"
    by (auto simp: filter_eq_Cons_iff eq_commute [of "i # is"])
  have us: "us = [s..<i]" "vs = [Suc i..<n]" "s \<le> i" "i < n"
  proof -
    let ?k = "length us"
    have k: "s + ?k < n" using arg_cong [OF u(1), of length] by simp
    have "i = [s..<n] ! ?k" by (simp add: u(1))
    with k have i: "i = s + ?k" by simp
    have "us = take ?k [s..<n]" "vs = drop (Suc ?k) [s..<n]" by (simp_all add: u(1))
    then show "us = [s..<i]" "vs = [Suc i..<n]" "s \<le> i" "i < n" using k i by (simp_all add: take_upt drop_upt)
  qed
  have "filter P [s..<n] = [s..<i] @ filter P [Suc i..<n]" using u us by (simp add: filter_True)
  moreover have "gather_data n is (i + 1) (map f (filter P [Suc i..<n]) @ rest) (map f is) = map f [Suc i..<n]"
    using Cons.IH [of "Suc i"] u(4) us by simp
  ultimately show ?case using u(1) us by (simp add: drop_Suc)
qed

lemma split_rows:
  assumes "\<And>i. i \<in> set is \<Longrightarrow> i < n"
  shows "takeWhile (\<lambda>i. i < n) (is @ filter P [n..<t]) = is" "dropWhile (\<lambda>i. i < n) (is @ filter P [n..<t]) = filter P [n..<t]"
proof -
  have "takeWhile (\<lambda>i. i < n) (filter P [n..<t]) = []" "dropWhile (\<lambda>i. i < n) (filter P [n..<t]) = filter P [n..<t]"
    by (auto simp: takeWhile_eq_Nil_iff dropWhile_eq_self_iff dest!: hd_in_set)
  then show "takeWhile (\<lambda>i. i < n) (is @ filter P [n..<t]) = is" "dropWhile (\<lambda>i. i < n) (is @ filter P [n..<t]) = filter P [n..<t]"
    using assms by (auto simp: takeWhile_append2 dropWhile_append2)
qed

subsection \<open>The codec invariant\<close>

definition rows_for :: "nat \<Rightarrow> nat \<Rightarrow> nat list \<Rightarrow> nat list" where
  "rows_for k t key = take k (filter (\<lambda>i. i \<notin> set key) [0..<t])"

definition decodes :: "('e \<Rightarrow> 'f :: field) \<Rightarrow> nat \<Rightarrow> (nat \<Rightarrow> nat \<Rightarrow> 'f) \<Rightarrow> nat list \<Rightarrow> 'e matrix \<Rightarrow> bool" where
  "decodes emb k e vs mt \<longleftrightarrow> (\<exists>b. emat emb k k mt b \<and> inverse_of k (\<lambda>i. e (vs ! i)) b)"

definition codec_ok :: "('e \<Rightarrow> 'f :: field) \<Rightarrow> ('c \<Rightarrow> nat list \<rightharpoonup> 'e matrix) \<Rightarrow> (nat \<Rightarrow> nat \<Rightarrow> 'f) \<Rightarrow> ('c, 'e) reed_solomon \<Rightarrow> bool" where
  "codec_ok emb view e rs \<longleftrightarrow>
     0 < data_shard_count rs \<and> 0 < parity_shard_count rs \<and> total_shard_count rs = data_shard_count rs + parity_shard_count rs \<and>
     emat emb (total_shard_count rs) (data_shard_count rs) (rs_matrix rs) e \<and> mds (data_shard_count rs) (total_shard_count rs) e \<and>
     (\<forall>key mt. view (decode_cache rs) key = Some mt \<longrightarrow>
        decodes emb (data_shard_count rs) e (rows_for (data_shard_count rs) (total_shard_count rs) key) mt)"

definition codeword :: "('e \<Rightarrow> 'f :: field) \<Rightarrow> (nat \<Rightarrow> nat \<Rightarrow> 'f) \<Rightarrow> nat \<Rightarrow> nat \<Rightarrow> nat \<Rightarrow> 'e list list \<Rightarrow> bool" where
  "codeword emb e k t L xs \<longleftrightarrow> sized t L xs \<and>
     (\<forall>r<t. \<forall>i<L. emb (xs ! r ! i) = (\<Sum>c<k. e r c * emb (xs ! c ! i)))"

lemma codec_okD:
  assumes "codec_ok emb view e rs"
  shows "0 < data_shard_count rs" "0 < parity_shard_count rs" "total_shard_count rs = data_shard_count rs + parity_shard_count rs"
    "emat emb (total_shard_count rs) (data_shard_count rs) (rs_matrix rs) e" "mds (data_shard_count rs) (total_shard_count rs) e"
    "view (decode_cache rs) key = Some mt \<Longrightarrow> decodes emb (data_shard_count rs) e (rows_for (data_shard_count rs) (total_shard_count rs) key) mt"
  using assms unfolding codec_ok_def by blast+

lemma lru_okD:
  assumes "lru_ok lib view"
  shows "view (lru_new lib n) = Map.empty" "fst (lru_get lib k c) = view c k" "view (snd (lru_get lib k c)) \<subseteq>\<^sub>m view c"
    "view (lru_put lib k v c) \<subseteq>\<^sub>m (view c)(k \<mapsto> v)"
  using assms unfolding lru_ok_def by blast+

lemma checks_None: "checks cs = None \<longleftrightarrow> list_all (\<lambda>c. c = None) cs"
  by (induction cs rule: checks.induct) auto

lemma check_slices_sized: "sized n L xs \<Longrightarrow> 0 < n \<Longrightarrow> 0 < L \<Longrightarrow> check_slices xs = None"
  by (cases xs) (auto simp: check_slices_def sized_def list_ex_iff)

lemma check_count_None: "length xs = n \<Longrightarrow> check_count few many n xs = None"
  by (simp add: check_count_def)

lemma sized_take_drop: "sized (k + m) L xs \<Longrightarrow> sized k L (take k xs)" "sized (k + m) L xs \<Longrightarrow> sized m L (drop k xs)"
  by (auto simp: sized_def dest: in_set_takeD in_set_dropD)

lemma sized_append: "sized k L xs \<Longrightarrow> sized m L ys \<Longrightarrow> sized (k + m) L (xs @ ys)"
  by (auto simp: sized_def)

context field_impl
begin

lemma new_codec_ok:
  assumes "lru_ok lru view" "0 < k" "0 < m" "k + m \<le> F_ORDER F"
  obtains rs e where "ReedSolomon_new F lru k m = Inr rs" "codec_ok emb view e rs" "data_shard_count rs = k" "parity_shard_count rs = m"
proof -
  obtain mt e where b: "build_matrix F k (k + m) = Some mt" "emat emb (k + m) k mt e" "mds k (k + m) e"
    by (rule build_matrix_mds [of k "k + m"]) (use assms in auto)
  let ?rs = "\<lparr>data_shard_count = k, parity_shard_count = m, total_shard_count = k + m, rs_matrix = mt,
      decode_cache = lru_new lru DATA_DECODE_MATRIX_CACHE_CAPACITY\<rparr>"
  have "ReedSolomon_new F lru k m = Inr ?rs" using b(1) assms(2-4) by (simp add: ReedSolomon_new_def)
  moreover have "codec_ok emb view e ?rs" using b(2,3) assms(2,3) lru_okD(1) [OF assms(1)] by (simp add: codec_ok_def)
  ultimately show thesis using that by simp
qed

lemma parity_rows:
  assumes "codec_ok emb view e rs"
  shows "sized (parity_shard_count rs) (data_shard_count rs) (get_parity_rows rs)"
    "j < parity_shard_count rs \<Longrightarrow> c < data_shard_count rs \<Longrightarrow> emb (get_parity_rows rs ! j ! c) = e (data_shard_count rs + j) c"
proof -
  note em = codec_okD(4) [OF assms] and t = codec_okD(3) [OF assms]
  have im: "is_mat (total_shard_count rs) (data_shard_count rs) (rs_matrix rs) (acc (rs_matrix rs))" using em by (simp add: emat_def is_mat_def)
  have row: "get_parity_rows rs ! j = map (acc (rs_matrix rs) (data_shard_count rs + j)) [0..<data_shard_count rs]" if "j < parity_shard_count rs" for j
    using that get_row_map [OF im, of "data_shard_count rs + j"] by (simp add: get_parity_rows_def t)
  show "sized (parity_shard_count rs) (data_shard_count rs) (get_parity_rows rs)"
    using row by (intro sizedI) (simp_all add: get_parity_rows_def t)
  show "j < parity_shard_count rs \<Longrightarrow> c < data_shard_count rs \<Longrightarrow> emb (get_parity_rows rs ! j ! c) = e (data_shard_count rs + j) c"
    using row emat_acc [OF em, of "data_shard_count rs + j" c] by (simp add: t)
qed

lemma codewordI:
  assumes "codec_ok emb view e rs" "sized (data_shard_count rs) L xs" "sized (parity_shard_count rs) L ys"
    "\<And>j t. j < parity_shard_count rs \<Longrightarrow> t < L \<Longrightarrow> emb (ys ! j ! t) = (\<Sum>i<data_shard_count rs. emb (get_parity_rows rs ! j ! i) * emb (xs ! i ! t))"
  shows "codeword emb e (data_shard_count rs) (total_shard_count rs) L (xs @ ys)"
proof -
  let ?k = "data_shard_count rs" and ?m = "parity_shard_count rs"
  note t = codec_okD(3) [OF assms(1)] and mds = codec_okD(5) [OF assms(1)]
  have len: "length xs = ?k" "length ys = ?m" using assms(2,3) by (simp_all add: sized_def)
  have "emb ((xs @ ys) ! r ! i) = (\<Sum>c<?k. e r c * emb ((xs @ ys) ! c ! i))" if r: "r < ?k + ?m" and i: "i < L" for r i
  proof (cases "r < ?k")
    case True
    have "(\<Sum>c<?k. e r c * emb ((xs @ ys) ! c ! i)) = (\<Sum>c<?k. (if r = c then 1 else 0) * emb (xs ! c ! i))"
      using mds True by (intro sum.cong) (auto simp: mds_def nth_append len)
    then show ?thesis using True sum_delta_left [OF True, of "\<lambda>c. emb (xs ! c ! i)"] by (simp add: nth_append len)
  next
    case False
    then have "emb ((xs @ ys) ! r ! i) = (\<Sum>c<?k. emb (get_parity_rows rs ! (r - ?k) ! c) * emb (xs ! c ! i))"
      using assms(4) [of "r - ?k" i] r i by (simp add: nth_append len)
    also have "\<dots> = (\<Sum>c<?k. e r c * emb ((xs @ ys) ! c ! i))"
      using parity_rows(2) [OF assms(1), of "r - ?k"] False r by (intro sum.cong) (auto simp: nth_append len)
    finally show ?thesis .
  qed
  then show ?thesis using sized_append [OF assms(2,3)] by (simp add: codeword_def t)
qed

lemma codeword_unique:
  assumes "codeword emb e k t L xs" "codeword emb e k t L ys" "take k xs = take k ys"
  shows "xs = ys"
proof (rule sized_eqI)
  show "sized t L xs" "sized t L ys" using assms by (simp_all add: codeword_def)
  fix j i assume "j < t" "i < L"
  moreover have "xs ! c = ys ! c" if "c < k" for c using assms(3) that by (metis nth_take)
  ultimately have "emb (xs ! j ! i) = emb (ys ! j ! i)" using assms(1,2) by (simp add: codeword_def)
  then show "xs ! j ! i = ys ! j ! i" by simp
qed

lemma encode_sep_codeword:
  assumes ok: "codec_ok emb view e rs" and xs: "sized (data_shard_count rs) L xs" "sized (parity_shard_count rs) L ps" "0 < L"
  obtains ys where "encode_sep F rs xs ps = Inr ys" "sized (parity_shard_count rs) L ys"
    "codeword emb e (data_shard_count rs) (total_shard_count rs) L (xs @ ys)"
proof -
  let ?k = "data_shard_count rs" and ?m = "parity_shard_count rs"
  note pos = codec_okD(1,2) [OF ok]
  obtain ys where ys: "code_some_slices F rs (get_parity_rows rs) xs ps = Some ys" "sized ?m L ys"
    "\<And>j t. j < ?m \<Longrightarrow> t < L \<Longrightarrow> emb (ys ! j ! t) = (\<Sum>i<?k. emb (get_parity_rows rs ! j ! i) * emb (xs ! i ! t))"
    by (rule code_some_slices_sized [OF parity_rows(1) [OF ok] xs(2,1) pos(1)]) blast
  have "encode_sep F rs xs ps = Inr ys"
    using ys(1) pos xs check_slices_sized [OF xs(1)] check_slices_sized [OF xs(2)] sizedD(1) [OF xs(1), of 0] sizedD(1) [OF xs(2), of 0]
    by (simp add: encode_sep_def guarded_def or_panic_def check_count_None sizedD(2) check_single_def)
  then show thesis using that ys(2) codewordI [OF ok xs(1) ys(2,3)] by blast
qed

lemma encode_codeword:
  assumes ok: "codec_ok emb view e rs" and xs: "sized (total_shard_count rs) L xs" "0 < L"
  obtains ys where "encode F rs xs = Inr (take (data_shard_count rs) xs @ ys)" "sized (parity_shard_count rs) L ys"
    "codeword emb e (data_shard_count rs) (total_shard_count rs) L (take (data_shard_count rs) xs @ ys)"
proof -
  let ?k = "data_shard_count rs" and ?m = "parity_shard_count rs"
  note t = codec_okD(3) [OF ok] and pos = codec_okD(1) [OF ok]
  from encode_sep_codeword [OF ok sized_take_drop [OF xs(1) [unfolded t]] xs(2)] obtain ys where
    ys: "encode_sep F rs (take ?k xs) (drop ?k xs) = Inr ys" "sized ?m L ys" "codeword emb e ?k (total_shard_count rs) L (take ?k xs @ ys)" .
  then show thesis using that xs check_slices_sized [OF xs(1)] pos t
    by (simp add: encode_def guarded_def check_count_None sizedD(2) Let_def)
qed

subsection \<open>Decoding matrices\<close>

lemma pick_rows_emat:
  assumes m: "emat emb T k m e" and vs: "length vs = k" "set vs \<subseteq> {..<T}"
  shows "emat emb k k (pick_rows F m k vs) (\<lambda>i. e (vs ! i))"
proof -
  let ?step = "\<lambda>sub row. foldl (\<lambda>sub c. set_acc sub row c (acc m (vs ! row) c)) sub [0..<k]"
  have "enumerate 0 vs = map (\<lambda>i. (i, vs ! i)) [0..<k]" using vs(1) by (intro nth_equalityI) (simp_all add: nth_enumerate_eq)
  then have eq: "pick_rows F m k vs = foldl ?step (Matrix_new F k k) [0..<k]" by (simp add: pick_rows_def foldl_map)
  have "is_mat k k (pick_rows F m k vs) (\<lambda>i. acc m (vs ! i))"
    unfolding eq
  proof (rule fill_rows)
    fix m' r assume r: "r < k" and m': "is_mat k k m' (\<lambda>r' c'. if r' < r then acc m (vs ! r') c' else F_zero F)"
    show "is_mat k k (?step m' r) (\<lambda>r' c'. if r' < Suc r then acc m (vs ! r') c' else F_zero F)"
      using row_loop [OF m' r, of 0 k "acc m (vs ! r)" "\<lambda>_. acc m (vs ! r)"] by (auto elim!: is_mat_cong)
  qed
  moreover have "vs ! i < T" if "i < k" for i using vs that nth_mem [of i vs] by blast
  ultimately show ?thesis using emat_acc [OF m] by (auto simp: emat_def is_mat_def)
qed

lemma decode_matrix:
  assumes lru: "lru_ok lru view" and ok: "codec_ok emb view e rs"
    and vs: "vs = rows_for (data_shard_count rs) (total_shard_count rs) key" "length vs = data_shard_count rs"
  obtains mt rs' where "get_data_decode_matrix F lru vs key rs = (Some mt, rs')" "decodes emb (data_shard_count rs) e vs mt"
    "codec_ok emb view e rs'" "data_shard_count rs' = data_shard_count rs" "total_shard_count rs' = total_shard_count rs"
    "get_parity_rows rs' = get_parity_rows rs"
proof -
  let ?k = "data_shard_count rs" and ?t = "total_shard_count rs"
  obtain ent cache where get: "lru_get lru key (decode_cache rs) = (ent, cache)" by fastforce
  have view: "ent = view (decode_cache rs) key" "view cache \<subseteq>\<^sub>m view (decode_cache rs)"
    using lru_okD(2,3) [OF lru, of key "decode_cache rs"] get by simp_all
  have keep: "codec_ok emb view e (rs\<lparr>decode_cache := c\<rparr>)"
    if "\<And>k' mt. view c k' = Some mt \<Longrightarrow> decodes emb ?k e (rows_for ?k ?t k') mt" for c
    using codec_okD(1-5) [OF ok] that by (simp add: codec_ok_def)
  have old: "decodes emb ?k e (rows_for ?k ?t k') mt" if "view cache k' = Some mt" for k' mt
    using that view(2) codec_okD(6) [OF ok] by (force simp: map_le_def dom_def)
  show thesis
  proof (cases ent)
    case (Some mt)
    then have "decodes emb ?k e vs mt" using view(1) codec_okD(6) [OF ok, of key mt] vs(1) by simp
    then show thesis using that [of mt "rs\<lparr>decode_cache := cache\<rparr>"] get Some keep [of cache] old
      by (simp add: get_data_decode_matrix_def get_parity_rows_def)
  next
    case None
    note em = codec_okD(4) [OF ok] and mds = codec_okD(5) [OF ok]
    have sub: "set vs \<subseteq> {..<?t}" "distinct vs" using vs(1) by (auto simp: rows_for_def dest: in_set_takeD)
    have inj: "inj_on (\<lambda>i. vs ! i) {..<?k}" using sub(2) vs(2) by (simp add: inj_on_nth)
    have "vs ! i \<in> set vs" if "i < ?k" for i using that vs(2) by simp
    then have img: "(\<lambda>i. vs ! i) ` {..<?k} \<subseteq> {..<?t}" using sub(1) by blast
    have "x c = 0" if "solves ?k ?k (\<lambda>i. e (vs ! i)) x" "c < ?k" for x c
      using mds that inj img unfolding mds_def by blast
    with invert_emat [OF pick_rows_emat [OF em vs(2) sub(1)]] obtain mt b where
      mt: "invert F (pick_rows F (rs_matrix rs) ?k vs) = Inr mt" "emat emb ?k ?k mt b" "inverse_of ?k (\<lambda>i. e (vs ! i)) b" by blast
    then have dec: "decodes emb ?k e vs mt" by (auto simp: decodes_def)
    let ?c = "lru_put lru key mt cache"
    have "decodes emb ?k e (rows_for ?k ?t k') mt'" if "view ?c k' = Some mt'" for k' mt'
    proof -
      have "((view cache)(key \<mapsto> mt)) k' = Some mt'"
        using lru_okD(4) [OF lru, of key mt cache] that unfolding map_le_def by (metis domI)
      then show ?thesis using old dec vs(1) by (cases "k' = key") auto
    qed
    then show thesis using that [of mt "rs\<lparr>decode_cache := ?c\<rparr>"] get None mt(1) dec keep [of ?c]
      by (simp add: get_data_decode_matrix_def get_parity_rows_def)
  qed
qed

end

subsection \<open>Reconstruction\<close>

definition keep :: "(nat \<Rightarrow> bool) \<Rightarrow> 'a list \<Rightarrow> 'a option list" where
  "keep p xs = map (\<lambda>i. if p i then Some (xs ! i) else None) [0..<length xs]"

lemma length_keep [simp]: "length (keep p xs) = length xs" by (simp add: keep_def)

lemma keep_nth [simp]: "i < length xs \<Longrightarrow> keep p xs ! i = (if p i then Some (xs ! i) else None)" by (simp add: keep_def)

lemma keep_rows: "present_rows (keep p xs) = filter p [0..<length xs]" "missing_rows (keep p xs) = filter (\<lambda>i. \<not> p i) [0..<length xs]"
  by (auto simp: present_rows_def missing_rows_def intro!: filter_cong split: if_splits)

lemma keep_True: "keep (\<lambda>_. True) xs = map Some xs"
  by (rule nth_equalityI) simp_all

lemma keep_cong: "(\<And>i. i < length xs \<Longrightarrow> p i = q i) \<Longrightarrow> keep p xs = keep q xs"
  by (simp add: keep_def)

lemma write_back_keep:
  assumes "\<And>i. i \<in> set rows \<Longrightarrow> i < length xs" "distinct rows"
  shows "write_back rows (map (\<lambda>i. xs ! i) rows) (keep p xs) = keep (\<lambda>i. p i \<or> i \<in> set rows) xs"
proof -
  have "set rows \<subseteq> {..<length (keep p xs)}" using assms(1) by auto
  from write_back_eq [OF this assms(2)] show ?thesis by (simp add: keep_def)
qed

lemma keep_sized: "sized n L xs \<Longrightarrow> Some s \<in> set (keep p xs) \<Longrightarrow> length s = L"
  by (auto simp: keep_def sized_def split: if_splits)

lemma scan_keep:
  assumes "sized n L xs" "0 < L"
  shows "\<exists>sl. scan_shards (keep p xs) 0 None = Inr (length (filter p [0..<n]), sl) \<and> (0 < length (filter p [0..<n]) \<longrightarrow> sl = Some L)"
proof -
  have len: "length (filter (\<lambda>s. s \<noteq> None) (keep p xs)) = length (filter p [0..<n])"
    using length_present [of "keep p xs"] assms(1) by (simp add: keep_rows sized_def)
  have "\<not> list_all (\<lambda>s. s = None) (keep p xs)" if "0 < length (filter p [0..<n])"
  proof
    assume "list_all (\<lambda>s. s = None) (keep p xs)"
    then have "filter (\<lambda>s. s \<noteq> None) (keep p xs) = []" by (auto simp: list_all_iff filter_empty_conv)
    with len that show False by simp
  qed
  then show ?thesis using scan_shards_eq [of "keep p xs" L None 0] keep_sized [OF assms(1)] assms(2) len by auto
qed

lemma keep_all_length: "length (filter p [0..<n]) = n \<longleftrightarrow> (\<forall>i<n. p i)"
  using length_filter_less [of _ "[0..<n]" p] by (auto simp: filter_id_conv) (metis atLeastLessThan_iff le0 length_filter_less length_upt less_irrefl minus_nat.diff_0 set_upt)

context field_impl
begin

lemma rebuilt_data:
  assumes ok: "codec_ok emb view e rs" and cw: "codeword emb e (data_shard_count rs) (total_shard_count rs) L xs"
    and dec: "decodes emb (data_shard_count rs) e vs mt" and vs: "length vs = data_shard_count rs" "set vs \<subseteq> {..<total_shard_count rs}"
    and rows: "set rows \<subseteq> {..<data_shard_count rs}"
  shows "code_some_slices F rs (map (get_row mt) rows) (map (\<lambda>i. xs ! i) vs) (replicate (length rows) (replicate L (F_zero F))) =
    Some (map (\<lambda>i. xs ! i) rows)"
proof -
  let ?k = "data_shard_count rs" and ?t = "total_shard_count rs"
  obtain b where b: "emat emb ?k ?k mt b" "inverse_of ?k (\<lambda>i. e (vs ! i)) b" using dec by (auto simp: decodes_def)
  have row: "get_row mt r = map (acc mt r) [0..<?k]" if "r < ?k" for r
    using get_row_map [of ?k ?k mt "acc mt" r] b(1) that by (simp add: emat_def is_mat_def)
  have lt: "rows ! j < ?k" if "j < length rows" for j using rows that nth_mem by blast
  have vlt: "vs ! i < ?t" if "i < ?k" for i using vs that nth_mem [of i vs] by (simp add: subset_iff)
  have sz: "sized ?t L xs" and t: "?t = ?k + parity_shard_count rs" using cw codec_okD(3) [OF ok] by (simp_all add: codeword_def)
  obtain outs where o: "code_some_slices F rs (map (get_row mt) rows) (map (\<lambda>i. xs ! i) vs) (replicate (length rows) (replicate L (F_zero F))) = Some outs"
    "sized (length rows) L outs"
    "\<And>j t. j < length rows \<Longrightarrow> t < L \<Longrightarrow> emb (outs ! j ! t) = (\<Sum>i<?k. emb (map (get_row mt) rows ! j ! i) * emb (map (\<lambda>i. xs ! i) vs ! i ! t))"
  proof (rule code_some_slices_sized [OF _ _ _ codec_okD(1) [OF ok]])
    show "sized (length rows) ?k (map (get_row mt) rows)" using lt row by (intro sizedI) auto
    show "sized (length rows) L (replicate (length rows) (replicate L (F_zero F)))" by (simp add: sized_def)
    show "sized ?k L (map (\<lambda>i. xs ! i) vs)" using vs vlt sizedD(1) [OF sz] by (intro sizedI) auto
  qed blast
  have "outs = map (\<lambda>i. xs ! i) rows"
  proof (rule sized_eqI [OF o(2)])
    have "length (xs ! (rows ! j)) = L" if "j < length rows" for j using lt [OF that] sizedD(1) [OF sz] t by simp
    then show "sized (length rows) L (map (\<lambda>i. xs ! i) rows)" by (intro sizedI) auto
    fix j i assume j: "j < length rows" and i: "i < L"
    have v: "\<forall>r<?k. (\<Sum>c<?k. e (vs ! r) c * emb (xs ! c ! i)) = emb (xs ! (vs ! r) ! i)"
      using cw vlt i by (simp add: codeword_def)
    have "emb (xs ! (rows ! j) ! i) = (\<Sum>c<?k. b (rows ! j) c * emb (xs ! (vs ! c) ! i))"
      using iffD1 [OF b(2) [unfolded inverse_of_def, rule_format, of "\<lambda>c. emb (xs ! c ! i)" "\<lambda>r. emb (xs ! (vs ! r) ! i)"]] v lt [OF j] by blast
    also have "\<dots> = emb (outs ! j ! i)"
      unfolding o(3) [OF j i] using lt [OF j] row emat_acc [OF b(1)] j vs(1) by (intro sum.cong) simp_all
    finally show "outs ! j ! i = map (\<lambda>i. xs ! i) rows ! j ! i" using j by simp
  qed
  then show ?thesis using o(1) by simp
qed

lemma rebuilt_parity:
  assumes ok: "codec_ok emb view e rs" and cw: "codeword emb e (data_shard_count rs) (total_shard_count rs) L xs"
    and rows: "set rows \<subseteq> {data_shard_count rs..<total_shard_count rs}"
  shows "code_some_slices F rs (map (\<lambda>i. get_parity_rows rs ! (i - data_shard_count rs)) rows) (take (data_shard_count rs) xs)
      (replicate (length rows) (replicate L (F_zero F))) = Some (map (\<lambda>i. xs ! i) rows)"
proof -
  let ?k = "data_shard_count rs" and ?t = "total_shard_count rs"
  have sz: "sized ?t L xs" and t: "?t = ?k + parity_shard_count rs" using cw codec_okD(3) [OF ok] by (simp_all add: codeword_def)
  have lt: "rows ! j \<in> {?k..<?t}" if "j < length rows" for j using rows that nth_mem by blast
  have lt': "rows ! j - ?k < parity_shard_count rs" "?k + (rows ! j - ?k) = rows ! j" if "j < length rows" for j using lt [OF that] t by auto
  obtain outs where o: "code_some_slices F rs (map (\<lambda>i. get_parity_rows rs ! (i - ?k)) rows) (take ?k xs)
      (replicate (length rows) (replicate L (F_zero F))) = Some outs" "sized (length rows) L outs"
    "\<And>j t. j < length rows \<Longrightarrow> t < L \<Longrightarrow> emb (outs ! j ! t) = (\<Sum>i<?k. emb (map (\<lambda>i. get_parity_rows rs ! (i - ?k)) rows ! j ! i) * emb (take ?k xs ! i ! t))"
  proof (rule code_some_slices_sized [OF _ _ _ codec_okD(1) [OF ok]])
    show "sized (length rows) ?k (map (\<lambda>i. get_parity_rows rs ! (i - ?k)) rows)"
      using lt' sizedD(1) [OF parity_rows(1) [OF ok]] by (intro sizedI) auto
    show "sized (length rows) L (replicate (length rows) (replicate L (F_zero F)))" by (simp add: sized_def)
    show "sized ?k L (take ?k xs)" using sized_take_drop(1) sz t by metis
  qed blast
  have "outs = map (\<lambda>i. xs ! i) rows"
  proof (rule sized_eqI [OF o(2)])
    have "length (xs ! (rows ! j)) = L" if "j < length rows" for j using lt [OF that] sizedD(1) [OF sz] by simp
    then show "sized (length rows) L (map (\<lambda>i. xs ! i) rows)" by (intro sizedI) auto
    fix j i assume j: "j < length rows" and i: "i < L"
    have "emb (xs ! (rows ! j) ! i) = (\<Sum>c<?k. e (rows ! j) c * emb (xs ! c ! i))"
      using cw lt [OF j] i by (simp add: codeword_def)
    also have "\<dots> = emb (outs ! j ! i)"
      unfolding o(3) [OF j i] using parity_rows(2) [OF ok lt'(1) [OF j]] lt'(2) [OF j] j by (intro sum.cong) simp_all
    finally show "outs ! j ! i = map (\<lambda>i. xs ! i) rows ! j ! i" using j by simp
  qed
  then show ?thesis using o(1) by simp
qed

lemma reconstruct_keep:
  assumes lru: "lru_ok lru view" and ok: "codec_ok emb view e rs"
    and cw: "codeword emb e (data_shard_count rs) (total_shard_count rs) L xs" "0 < L"
    and enough: "data_shard_count rs \<le> length (filter p [0..<total_shard_count rs])"
  obtains rs' where "reconstruct_internal F lru data_only (keep p xs) rs =
      (Inr (keep (\<lambda>i. p i \<or> i < data_shard_count rs \<or> \<not> data_only) xs), rs')"
    "codec_ok emb view e rs'" "data_shard_count rs' = data_shard_count rs" "total_shard_count rs' = total_shard_count rs"
    "get_parity_rows rs' = get_parity_rows rs"
proof -
  let ?k = "data_shard_count rs" and ?t = "total_shard_count rs"
  have sz: "sized ?t L xs" and len: "length xs = ?t" using cw(1) by (auto simp: codeword_def sized_def)
  note t = codec_okD(3) [OF ok] and k = codec_okD(1) [OF ok]
  obtain sl where scan: "scan_shards (keep p xs) 0 None = Inr (length (filter p [0..<?t]), sl)" "sl = Some L"
    using scan_keep [OF sz cw(2), of p] enough k by auto
  have cnt: "check_count TooFewShards TooManyShards ?t (keep p xs) = None" by (rule check_count_None) (simp add: len)
  show thesis
  proof (cases "length (filter p [0..<?t]) = ?t")
    case True
    then have "keep (\<lambda>i. p i \<or> i < ?k \<or> \<not> data_only) xs = keep p xs" unfolding keep_all_length by (auto simp: keep_def len)
    then show thesis using that [of rs] ok cnt scan True by (simp add: reconstruct_internal_def)
  next
    case False
    let ?g = "group_shards F ?k data_only L (keep p xs)"
    let ?vs = "take ?k (filter p [0..<?t])" and ?bad = "filter (\<lambda>i. \<not> p i) [0..<?t]"
    let ?dr = "filter (\<lambda>i. \<not> p i) [0..<?k]" and ?pr = "filter (\<lambda>i. \<not> p i) [?k..<?t]"
    have up: "[0..<?t] = [0..<?k] @ [?k..<?t]" using t upt_add_eq_append [of 0 ?k "parity_shard_count rs"] by simp
    have bad: "?bad = ?dr @ ?pr" by (simp add: up)
    have "filter (\<lambda>i. i < ?k) ?pr = []" "filter (\<lambda>i. i < ?k) ?dr = ?dr" "filter (\<lambda>i. \<not> i < ?k) ?dr = []" "filter (\<lambda>i. \<not> i < ?k) ?pr = ?pr"
      by (auto simp: filter_empty_conv intro!: filter_cong)
    then have lens: "filter (\<lambda>i. i < ?k) ?bad = ?dr" "filter (\<lambda>i. \<not> i < ?k) ?bad = ?pr" unfolding bad by simp_all
    have vs: "length ?vs = ?k" "set ?vs \<subseteq> {..<?t}" using enough by (auto dest: in_set_takeD)
    have "?vs = rows_for ?k ?t ?bad" unfolding rows_for_def by (rule arg_cong [where f = "take ?k"]) (auto intro: filter_cong)
    then obtain mt rs' where mt: "get_data_decode_matrix F lru ?vs ?bad rs = (Some mt, rs')" "decodes emb ?k e ?vs mt"
      "codec_ok emb view e rs'" "data_shard_count rs' = ?k" "total_shard_count rs' = ?t" "get_parity_rows rs' = get_parity_rows rs"
      using decode_matrix [OF lru ok] vs(1) by metis
    have sub: "map (\<lambda>i. the (keep p xs ! i)) ?vs = map (\<lambda>i. xs ! i) ?vs" by (auto simp: len dest: in_set_takeD)
    have g: "sub_shards ?g = map (\<lambda>i. xs ! i) ?vs" "missing_data_slices ?g = replicate (length ?dr) (replicate L (F_zero F))"
      "missing_parity_slices ?g = (if data_only then [] else replicate (length ?pr) (replicate L (F_zero F)))"
      "valid_indices ?g = ?vs" "invalid_indices ?g = ?bad"
      unfolding group_shards_eq keep_rows len lens using sub by simp_all
    have dr: "takeWhile (\<lambda>i. i < ?k) ?bad = ?dr" "dropWhile (\<lambda>i. i < ?k) ?bad = ?pr" unfolding bad by (rule split_rows; simp)+
    have data: "code_some_slices F rs' (map (get_row mt) ?dr) (map (\<lambda>i. xs ! i) ?vs) (replicate (length ?dr) (replicate L (F_zero F))) =
        Some (map (\<lambda>i. xs ! i) ?dr)"
      using rebuilt_data [OF mt(3), of L xs ?vs mt ?dr] cw(1) mt vs by auto
    have gd: "gather_data ?k ?dr 0 (map (\<lambda>i. xs ! i) ?vs) (map (\<lambda>i. xs ! i) ?dr) = take ?k xs"
    proof -
      have "?vs = filter p [0..<?k] @ take (?k - length (filter p [0..<?k])) (filter p [?k..<?t])"
        using length_filter_le [of p "[0..<?k]"] by (simp add: up)
      moreover have "map (\<lambda>i. xs ! i) [0..<?k] = take ?k xs" using len t by (intro nth_equalityI) auto
      ultimately show ?thesis using gather_data_eq [of ?dr p 0 ?k "\<lambda>i. xs ! i"] by simp
    qed
    have par: "code_some_slices F rs' (map (\<lambda>i. get_parity_rows rs ! (i - ?k)) ?pr) (take ?k xs) (replicate (length ?pr) (replicate L (F_zero F))) =
        Some (map (\<lambda>i. xs ! i) ?pr)"
      using rebuilt_parity [OF mt(3), of L xs ?pr] cw(1) mt(4-6) by (simp add: subset_iff)
    let ?w = "write_back ?dr (map (\<lambda>i. xs ! i) ?dr) (keep p xs)"
    have w: "?w = keep (\<lambda>i. p i \<or> i < ?k) xs"
      using write_back_keep [of ?dr xs p] len t by (auto intro: keep_cong)
    have w2: "write_back ?pr (map (\<lambda>i. xs ! i) ?pr) (keep (\<lambda>i. p i \<or> i < ?k) xs) = keep (\<lambda>_. True) xs"
      using write_back_keep [of ?pr xs "\<lambda>i. p i \<or> i < ?k"] len t by (auto intro: keep_cong)
    have "reconstruct_internal F lru data_only (keep p xs) rs = (Inr (keep (\<lambda>i. p i \<or> i < ?k \<or> \<not> data_only) xs), rs')"
      using False enough cnt scan mt g
      by (cases data_only) (simp_all add: reconstruct_internal_def Let_def dr data w gd par w2)
    then show thesis using that mt by blast
  qed
qed

text \<open>Encoding, then two reconstructions of different losses, the second one with the cached decode matrices.\<close>

lemma rebuilds_any_losses:
  assumes "lru_ok lru view" "0 < k" "0 < m" "k + m \<le> F_ORDER F"
    and "sized k L dat" "sized m L parity" "0 < L"
    and "k \<le> length (filter p [0..<k + m])" "k \<le> length (filter q [0..<k + m])"
  shows "\<exists>rs full. ReedSolomon_new F lru k m = Inr rs \<and> encode F rs (dat @ parity) = Inr full \<and> take k full = dat \<and>
    fst (reconstruct_data F lru (keep p full) rs) = Inr (keep (\<lambda>i. p i \<or> i < k) full) \<and>
    fst (reconstruct F lru (keep q full) (snd (reconstruct_data F lru (keep p full) rs))) = Inr (map Some full)"
proof -
  obtain rs e where new: "ReedSolomon_new F lru k m = Inr rs" and ok: "codec_ok emb view e rs"
    and cnt: "data_shard_count rs = k" "parity_shard_count rs = m"
    by (rule new_codec_ok [OF assms(1-3)]) (use assms(4) in auto)
  have t: "total_shard_count rs = k + m" using codec_okD(3) [OF ok] cnt by simp
  have take: "take k (dat @ parity) = dat" using assms(5) by (simp add: sized_def)
  have "sized (total_shard_count rs) L (dat @ parity)" using sized_append [OF assms(5,6)] by (simp add: t)
  from encode_codeword [OF ok this assms(7)] obtain ys where enc: "encode F rs (dat @ parity) = Inr (dat @ ys)"
    and cw: "codeword emb e (data_shard_count rs) (total_shard_count rs) L (dat @ ys)"
    unfolding cnt(1) take .
  obtain rs' where r: "reconstruct_internal F lru True (keep p (dat @ ys)) rs = (Inr (keep (\<lambda>i. p i \<or> i < k) (dat @ ys)), rs')"
    and ok': "codec_ok emb view e rs'" and cnt': "data_shard_count rs' = k" "total_shard_count rs' = k + m"
    using reconstruct_keep [OF assms(1) ok cw assms(7), of p True] assms(8) by (auto simp: cnt t)
  have cw': "codeword emb e (data_shard_count rs') (total_shard_count rs') L (dat @ ys)" using cw by (simp add: cnt t cnt')
  obtain rs'' where "reconstruct_internal F lru False (keep q (dat @ ys)) rs' = (Inr (keep (\<lambda>i. True) (dat @ ys)), rs'')"
    using reconstruct_keep [OF assms(1) ok' cw' assms(7), of q False] assms(9) by (auto simp: cnt')
  moreover have "keep (\<lambda>i. True) (dat @ ys) = map Some (dat @ ys)" by (rule keep_True)
  ultimately show ?thesis using new enc r assms(5)
    by (intro exI [of _ rs] exI [of _ "dat @ ys"]) (simp add: reconstruct_def reconstruct_data_def sized_def)
qed

end

lemma list_ex_enumerate: "length ys = length zs \<Longrightarrow> list_ex (\<lambda>(i, x). \<not> x = zs ! i) (enumerate 0 ys) \<longleftrightarrow> ys \<noteq> zs"
  using list_eq_iff_nth_eq [of ys zs] by (auto simp: list_ex_iff in_set_enumerate_eq)

context field_impl
begin

lemma verify_exact:
  assumes ok: "codec_ok emb view e rs" and xs: "sized (total_shard_count rs) L xs" "0 < L"
  shows "verify F rs xs = Inr (encode F rs xs = Inr xs)"
proof -
  let ?k = "data_shard_count rs" and ?m = "parity_shard_count rs"
  let ?buf = "replicate ?m (replicate L (F_zero F))"
  note t = codec_okD(3) [OF ok] and pos = codec_okD(1,2) [OF ok]
  have sz: "sized ?k L (take ?k xs)" "sized ?m L (drop ?k xs)" "sized ?m L ?buf"
    using sized_take_drop [OF xs(1) [unfolded t]] by (simp_all add: sized_def)
  obtain ys where ys: "code_some_slices F rs (get_parity_rows rs) (take ?k xs) ?buf = Some ys" "sized ?m L ys"
    "\<And>j t. j < ?m \<Longrightarrow> t < L \<Longrightarrow> emb (ys ! j ! t) = (\<Sum>i<?k. emb (get_parity_rows rs ! j ! i) * emb (take ?k xs ! i ! t))"
    by (rule code_some_slices_sized [OF parity_rows(1) [OF ok] sz(3,1) pos(1)]) blast
  obtain zs where zs: "code_some_slices F rs (get_parity_rows rs) (take ?k xs) (drop ?k xs) = Some zs" "sized ?m L zs"
    "\<And>j t. j < ?m \<Longrightarrow> t < L \<Longrightarrow> emb (zs ! j ! t) = (\<Sum>i<?k. emb (get_parity_rows rs ! j ! i) * emb (take ?k xs ! i ! t))"
    by (rule code_some_slices_sized [OF parity_rows(1) [OF ok] sz(2,1) pos(1)]) blast
  have same: "zs = ys"
  proof (rule sized_eqI [OF zs(2) ys(2)])
    fix j i assume "j < ?m" "i < L"
    then have "emb (zs ! j ! i) = emb (ys ! j ! i)" by (simp add: zs(3) ys(3))
    then show "zs ! j ! i = ys ! j ! i" by simp
  qed
  have chk: "check_slices xs = None" "check_slices (take ?k xs) = None" "check_slices (drop ?k xs) = None" "check_slices ?buf = None"
    "check_single (take ?k xs ! 0) (drop ?k xs ! 0) = None" "check_single (xs ! 0) (?buf ! 0) = None" "length (xs ! 0) = L"
    "length xs = ?k + ?m"
    using check_slices_sized [OF xs(1)] check_slices_sized [OF sz(1)] check_slices_sized [OF sz(2)] check_slices_sized [OF sz(3)]
      sizedD(1) [OF sz(1), of 0] sizedD(1) [OF sz(2), of 0] sizedD(1) [OF xs(1), of 0] sizedD(2) [OF xs(1)] pos xs(2) t
    by (simp_all add: check_single_def)
  have "encode F rs xs = Inr (take ?k xs @ ys)"
    using chk zs(1) by (simp add: encode_def encode_sep_def guarded_def or_panic_def check_count_None t same Let_def)
  then have "encode F rs xs = Inr xs \<longleftrightarrow> ys = drop ?k xs" by (metis Inr_inject append_take_drop_id same_append_eq)
  moreover have "list_ex (\<lambda>(i, expected). \<not> expected = drop ?k xs ! i) (enumerate 0 ys) \<longleftrightarrow> ys \<noteq> drop ?k xs"
    by (rule list_ex_enumerate) (use ys(2) sz(2) in \<open>simp add: sized_def\<close>)
  ultimately show ?thesis
    using chk ys(1) by (simp add: verify_def verify_with_buffer_def check_some_slices_with_buffer_def guarded_def or_panic_def check_count_None t Let_def)
qed

end

subsection \<open>Errors and shard-by-shard coding\<close>

lemma scan_bad:
  assumes "\<And>s. Some s \<in> set pre \<Longrightarrow> length s = L" "0 < L" "sl = None \<or> sl = Some L"
  shows "scan_shards (pre @ Some s # post) n sl =
    (if s = [] then Inl (RsErr EmptyShard)
     else if length s \<noteq> L \<and> (sl = Some L \<or> \<not> list_all (\<lambda>x. x = None) pre) then Inl (RsErr IncorrectShardSize)
     else scan_shards post (n + length (filter (\<lambda>x. x \<noteq> None) pre) + 1) (Some (length s)))"
  using assms
proof (induction pre arbitrary: n sl)
  case Nil
  then show ?case by auto
next
  case (Cons x pre)
  then show ?case by (cases x) (auto simp: list_all_iff)
qed

fun sbs_calls :: "'e field_ops \<Rightarrow> nat \<Rightarrow> 'e list list \<Rightarrow> ('c, 'e) shard_by_shard \<Rightarrow> sbs_fail + ('e list list \<times> ('c, 'e) shard_by_shard)" where
  "sbs_calls F 0 shards s = Inr (shards, s)"
| "sbs_calls F (Suc n) shards s =
     (case sbs_calls F n shards s of Inl e \<Rightarrow> Inl e | Inr (shards, s) \<Rightarrow> sbs_encode F shards s)"

context field_impl
begin

lemma code_loop_snoc:
  "code_loop F rows inputs (is @ [i]) outputs = Option.bind (code_loop F rows inputs is outputs)
      (\<lambda>outs. if i < length inputs then code_single_slice F rows i (inputs ! i) outs else None)"
  by (induction "is" arbitrary: outputs) (auto split: Option.bind_splits)

lemma sbs_calls_code:
  assumes ok: "codec_ok emb view e rs" and xs: "sized (total_shard_count rs) L xs" "0 < L" and n: "n \<le> data_shard_count rs"
  obtains ys where "sbs_calls F n xs (ShardByShard_new rs) = Inr (take (data_shard_count rs) xs @ ys, \<lparr>codec = rs, cur_input = n\<rparr>)"
    "code_loop F (get_parity_rows rs) (take (data_shard_count rs) xs) [0..<n] (drop (data_shard_count rs) xs) = Some ys"
    "sized (parity_shard_count rs) L ys"
proof -
  let ?k = "data_shard_count rs" and ?m = "parity_shard_count rs"
  note t = codec_okD(3) [OF ok] and pos = codec_okD(1,2) [OF ok]
  have sz: "sized ?k L (take ?k xs)" "sized ?m L (drop ?k xs)" using sized_take_drop [OF xs(1) [unfolded t]] .
  have "\<exists>ys. sbs_calls F n xs (ShardByShard_new rs) = Inr (take ?k xs @ ys, \<lparr>codec = rs, cur_input = n\<rparr>) \<and>
    code_loop F (get_parity_rows rs) (take ?k xs) [0..<n] (drop ?k xs) = Some ys \<and> sized ?m L ys"
    using n
  proof (induction n)
    case 0
    then show ?case using sz by (simp add: ShardByShard_new_def)
  next
    case (Suc n)
    then obtain ys where ys: "sbs_calls F n xs (ShardByShard_new rs) = Inr (take ?k xs @ ys, \<lparr>codec = rs, cur_input = n\<rparr>)"
      "code_loop F (get_parity_rows rs) (take ?k xs) [0..<n] (drop ?k xs) = Some ys" "sized ?m L ys" by auto
    have n: "n < ?k" using Suc.prems by simp
    obtain zs where zs: "code_single_slice F (get_parity_rows rs) n (take ?k xs ! n) ys = Some zs" "sized ?m L zs"
      by (rule code_single_slice_sized [OF parity_rows(1) [OF ok] ys(3) sizedD(1) [OF sz(1) n] n])
    let ?all = "take ?k xs @ ys"
    have all: "sized (?k + ?m) L ?all" by (rule sized_append [OF sz(1) ys(3)])
    have tk: "take ?k ?all = take ?k xs" "drop ?k ?all = ys" using sizedD(2) [OF sz(1)] by simp_all
    have chk: "check_slices ?all = None" "check_slices ys = None" "check_single (ys ! 0) (take ?k xs ! n) = None"
      using check_slices_sized [OF all _ xs(2)] check_slices_sized [OF ys(3) _ xs(2)] sizedD(1) [OF ys(3), of 0] sizedD(1) [OF sz(1) n] pos
      by (simp_all add: check_single_def)
    have "encode_single F rs n ?all = Inr (take ?k xs @ zs)"
      using n chk zs(1) sizedD(2) [OF all] sizedD(2) [OF ys(3)]
      by (simp only: encode_single_def encode_single_sep_def tk Let_def guarded_def check_index_def check_count_def t)
        (simp add: or_panic_def)
    then have "sbs_calls F (Suc n) xs (ShardByShard_new rs) = Inr (take ?k xs @ zs, \<lparr>codec = rs, cur_input = Suc n\<rparr>)"
      using ys(1) n chk(1) sizedD(2) [OF all]
      by (simp add: sbs_encode_def sbs_encode_checks_def parity_ready_def as_sbs_def check_count_def t)
    moreover have "code_loop F (get_parity_rows rs) (take ?k xs) [0..<Suc n] (drop ?k xs) = Some zs"
      using ys(2) zs(1) n sizedD(2) [OF sz(1)] by (simp add: code_loop_snoc)
    ultimately show ?case using zs(2) by blast
  qed
  then show thesis using that by blast
qed

end

lemma write_back_Cons: "write_back (r # rows) (b # bufs) shards = write_back rows bufs (shards[r := Some b])"
  by (simp add: write_back_def)

lemma write_back_Nil: "write_back [] bufs shards = shards"
  by (simp add: write_back_def)

lemma write_back_length: "length (write_back rows bufs shards) = length shards"
proof (induction rows arbitrary: bufs shards)
  case (Cons r rows)
  then show ?case by (cases bufs) (simp_all add: write_back_Cons, simp add: write_back_def)
qed (simp add: write_back_Nil)

lemma write_back_other: "i \<notin> set rows \<Longrightarrow> write_back rows bufs shards ! i = shards ! i"
proof (induction rows arbitrary: bufs shards)
  case (Cons r rows)
  then show ?case by (cases bufs) (simp_all add: write_back_Cons, simp add: write_back_def)
qed (simp add: write_back_Nil)

lemma write_back_row:
  "distinct rows \<Longrightarrow> length bufs = length rows \<Longrightarrow> j < length rows \<Longrightarrow> rows ! j < length shards \<Longrightarrow>
    write_back rows bufs shards ! (rows ! j) = Some (bufs ! j)"
proof (induction rows arbitrary: bufs shards j)
  case (Cons r rows)
  then obtain b bs where b: "bufs = b # bs" by (cases bufs) auto
  show ?case
  proof (cases j)
    case 0
    then show ?thesis using Cons.prems by (simp add: b write_back_Cons write_back_other)
  next
    case (Suc j')
    then show ?thesis using Cons.prems Cons.IH [of bs j' "shards[r := Some b]"] by (simp add: b write_back_Cons)
  qed
qed simp

context field_impl
begin

lemma reconstruct_data_total:
  assumes lru: "lru_ok lru view" and ok: "codec_ok emb view e rs"
    and len: "length shards = total_shard_count rs" and sz: "\<And>s. Some s \<in> set shards \<Longrightarrow> length s = L" "0 < L"
    and enough: "data_shard_count rs \<le> length (present_rows shards)"
  shows "\<exists>out rs'. reconstruct_internal F lru True shards rs = (Inr out, rs') \<and> length out = length shards \<and>
    (\<forall>i<data_shard_count rs. \<exists>s. out ! i = Some s \<and> length s = L)"
proof -
  let ?k = "data_shard_count rs" and ?t = "total_shard_count rs"
  note t = codec_okD(3) [OF ok] and k = codec_okD(1) [OF ok]
  have present: "length (the (shards ! i)) = L" if "i < ?t" "shards ! i \<noteq> None" for i
  proof -
    from that(2) show ?thesis using sz(1) nth_mem [of i shards] that(1) len by (cases "shards ! i") simp_all
  qed
  have ne: "\<not> list_all (\<lambda>s. s = None) shards"
  proof
    assume "list_all (\<lambda>s. s = None) shards"
    then have "filter (\<lambda>s. s \<noteq> None) shards = []" by (auto simp: list_all_iff filter_empty_conv)
    then show False using enough k by (simp add: length_present)
  qed
  have scan: "scan_shards shards 0 None = Inr (length (present_rows shards), Some L)"
    using scan_shards_eq [of shards L None 0] sz ne by (simp add: length_present)
  have cnt: "check_count TooFewShards TooManyShards ?t shards = None" by (rule check_count_None) (simp add: len)
  show ?thesis
  proof (cases "length (present_rows shards) = ?t")
    case True
    have full: "shards ! i \<noteq> None" if "i < ?t" for i
    proof
      assume "shards ! i = None"
      then have "length (present_rows shards) < length [0..<length shards]"
        unfolding present_rows_def using that len by (intro length_filter_less [of i]) auto
      with True len show False by simp
    qed
    have "\<exists>s. shards ! i = Some s \<and> length s = L" if "i < ?k" for i
      using that full [of i] present [of i] t by (cases "shards ! i") auto
    then show ?thesis using scan cnt True by (simp add: reconstruct_internal_def)
  next
    case False
    let ?g = "group_shards F ?k True L shards" and ?vs = "take ?k (present_rows shards)"
    let ?bad = "missing_rows shards" and ?dr = "filter (\<lambda>i. shards ! i = None) [0..<?k]"
    have up: "[0..<?t] = [0..<?k] @ [?k..<?t]" using t upt_add_eq_append [of 0 ?k "parity_shard_count rs"] by simp
    have bad: "?bad = ?dr @ filter (\<lambda>i. shards ! i = None) [?k..<?t]" by (simp add: missing_rows_def len up)
    have lens: "filter (\<lambda>i. i < ?k) ?bad = ?dr" unfolding bad by (auto simp: filter_empty_conv intro!: filter_cong)
    have vs: "length ?vs = ?k" "set ?vs \<subseteq> {..<?t}" using enough by (auto simp: present_rows_def len dest: in_set_takeD)
    have "?vs = rows_for ?k ?t ?bad" unfolding rows_for_def
      by (rule arg_cong [where f = "take ?k"]) (auto simp: present_rows_def missing_rows_def len intro: filter_cong)
    then obtain mt rs' where mt: "get_data_decode_matrix F lru ?vs ?bad rs = (Some mt, rs')" "decodes emb ?k e ?vs mt" "data_shard_count rs' = ?k"
      using decode_matrix [OF lru ok] vs(1) by metis
    obtain b where b: "emat emb ?k ?k mt b" using mt(2) by (auto simp: decodes_def)
    have row: "length (get_row mt r) = ?k" if "r < ?k" for r
      using get_row_map [of ?k ?k mt "acc mt" r] b that by (simp add: emat_def is_mat_def)
    have drk: "?dr ! j < ?k" if "j < length ?dr" for j using nth_mem [OF that] by simp
    have dr: "takeWhile (\<lambda>i. i < ?k) ?bad = ?dr" unfolding bad by (rule split_rows) simp
    have g: "sub_shards ?g = map (\<lambda>i. the (shards ! i)) ?vs" "missing_data_slices ?g = replicate (length ?dr) (replicate L (F_zero F))"
      "valid_indices ?g = ?vs" "invalid_indices ?g = ?bad"
      unfolding group_shards_eq lens by simp_all
    have "?vs ! i \<in> set (present_rows shards)" if "i < ?k" for i using that vs(1) nth_mem [of i ?vs] in_set_takeD by metis
    then have sub: "length (the (shards ! (?vs ! i))) = L" if "i < ?k" for i
      using that present by (auto simp: present_rows_def len)
    obtain outs where outs: "code_some_slices F rs' (map (get_row mt) ?dr) (map (\<lambda>i. the (shards ! i)) ?vs) (replicate (length ?dr) (replicate L (F_zero F))) = Some outs"
      "sized (length ?dr) L outs"
    proof -
      have 1: "sized (length ?dr) (data_shard_count rs') (map (get_row mt) ?dr)" using row drk mt(3) by (intro sizedI) auto
      have 2: "sized (length ?dr) L (replicate (length ?dr) (replicate L (F_zero F)))" by (simp add: sized_def)
      have 3: "sized (data_shard_count rs') L (map (\<lambda>i. the (shards ! i)) ?vs)" using sub vs(1) mt(3) by (intro sizedI) auto
      have 4: "0 < data_shard_count rs'" using k mt(3) by simp
      show thesis by (rule code_some_slices_sized [OF 1 2 3 4]) (rule that)
    qed
    let ?out = "write_back ?dr outs shards"
    have d: "distinct ?dr" "length outs = length ?dr" using outs(2) by (simp_all add: sized_def)
    have "\<exists>s. ?out ! i = Some s \<and> length s = L" if i: "i < ?k" for i
    proof (cases "shards ! i = None")
      case True
      then have "i \<in> set ?dr" using i by simp
      then obtain j where j: "j < length ?dr" "?dr ! j = i" by (metis in_set_conv_nth)
      then show ?thesis using write_back_row [OF d, of j shards] sizedD(1) [OF outs(2) j(1)] i t len by simp
    next
      case False
      then have "?out ! i = shards ! i" by (intro write_back_other) simp
      then show ?thesis using False present [of i] i t by auto
    qed
    moreover have "reconstruct_internal F lru True shards rs = (Inr ?out, rs')"
      using False enough cnt scan mt outs(1) by (simp add: reconstruct_internal_def Let_def g dr)
    ultimately show ?thesis using write_back_length by blast
  qed
qed

end

subsection \<open>Properties of the codec over bytes\<close>

text \<open>An example cache for the witnesses: an association list cut to its capacity.\<close>

definition list_lru :: "(nat \<times> (nat list \<times> 'e matrix) list, 'e) lru_lib" where
  "list_lru = \<lparr>lru_new = (\<lambda>n. (n, [])),
     lru_get = (\<lambda>k c. (map_of (snd c) k, c)),
     lru_put = (\<lambda>k v c. (fst c, take (fst c) ((k, v) # snd c)))\<rparr>"

lemma map_of_take: "map_of (take n xs) \<subseteq>\<^sub>m map_of xs"
proof (induction xs arbitrary: n)
  case (Cons x xs)
  show ?case using Cons [of "n - 1"] by (cases n) (auto simp: map_le_def dom_def)
qed simp

lemma list_lru_ok: "lru_ok (list_lru :: (nat \<times> (nat list \<times> 'e matrix) list, 'e) lru_lib) (\<lambda>c. map_of (snd c))"
proof -
  have "map_of (snd (lru_put list_lru k v c)) \<subseteq>\<^sub>m (map_of (snd c))(k \<mapsto> v)" for k and v :: "'e matrix" and c
  proof -
    have "lru_put list_lru k v c = (fst c, take (fst c) ((k, v) # snd c))" by (simp add: list_lru_def)
    then show ?thesis using map_of_take [of "fst c" "(k, v) # snd c"] by simp
  qed
  then show ?thesis unfolding lru_ok_def by (simp add: list_lru_def)
qed

lemma new_g8:
  assumes "lru_ok lru view" "ReedSolomon_new galois_8 lru k m = Inr rs"
  obtains e where "codec_ok GF view e rs" "data_shard_count rs = k" "parity_shard_count rs = m" "total_shard_count rs = k + m"
proof -
  have km: "0 < k" "0 < m" "k + m \<le> F_ORDER galois_8" using assms(2) by (auto simp: ReedSolomon_new_def split: if_splits)
  obtain rs' e where new: "ReedSolomon_new galois_8 lru k m = Inr rs'" "codec_ok GF view e rs'"
    "data_shard_count rs' = k" "parity_shard_count rs' = m"
    by (rule g8.new_codec_ok [OF assms(1) km])
  then have "rs' = rs" using assms(2) by simp
  then show thesis using that new codec_okD(3) [OF new(2)] by simp
qed

text \<open>
  C5: any \<open>k\<close> of the \<open>k + m\<close> shards rebuild the rest. For every number of data and parity shards
  the byte field admits, creating the codec and encoding succeed, encoding leaves the data shards alone, and from
  any subset of at least \<open>k\<close> shards \<^verbatim>\<open>reconstruct_data\<close> restores every data shard and leaves the rest, also when the
  codec then decodes another loss pattern with the decode matrices it has cached: \<^verbatim>\<open>reconstruct\<close> restores all.
\<close>

theorem rs_rebuilds_any_losses:
  assumes "lru_ok lru view" "0 < k" "0 < m" "k + m \<le> 256"
    and "sized k L dat" "sized m L parity" "0 < L"
    and "k \<le> length (filter p [0..<k + m])" "k \<le> length (filter q [0..<k + m])"
  shows "\<exists>rs full. ReedSolomon_new galois_8 lru k m = Inr rs \<and> encode galois_8 rs (dat @ parity) = Inr full \<and> take k full = dat \<and>
    fst (reconstruct_data galois_8 lru (keep p full) rs) = Inr (keep (\<lambda>i. p i \<or> i < k) full) \<and>
    fst (reconstruct galois_8 lru (keep q full) (snd (reconstruct_data galois_8 lru (keep p full) rs))) = Inr (map Some full)"
  using g8.rebuilds_any_losses [OF assms(1-3) _ assms(5-9)] assms(4) by simp

theorem rs_rebuilds_any_losses_witness:
  "\<exists>rs full. ReedSolomon_new galois_8 list_lru 2 1 = Inr rs \<and> encode galois_8 rs [[1, 2], [3, 4], [0, 0]] = Inr full \<and>
    take 2 full = [[1, 2], [3, 4]] \<and>
    fst (reconstruct_data galois_8 list_lru (keep (\<lambda>i. i \<noteq> 0) full) rs) = Inr (keep (\<lambda>i. i \<noteq> 0 \<or> i < 2) full) \<and>
    fst (reconstruct galois_8 list_lru (keep (\<lambda>i. i \<noteq> 1) full) (snd (reconstruct_data galois_8 list_lru (keep (\<lambda>i. i \<noteq> 0) full) rs))) = Inr (map Some full)"
  using rs_rebuilds_any_losses [OF list_lru_ok, of 2 1 2 "[[1, 2], [3, 4]]" "[[0, 0]]" "\<lambda>i. i \<noteq> 0" "\<lambda>i. i \<noteq> 1"]
  by (simp add: sized_def upt_rec)

text \<open>
  the errors of reconstruction. A wrong number of shards, an empty shard, shards of different
  lengths and too few present shards are reported with the documented error, in the order the scan meets them,
  and the codec is unchanged.
\<close>

theorem rs_reconstruct_errors:
  assumes "\<forall>s. Some s \<in> set pre \<longrightarrow> length s = L" "0 < L"
    and "length few < total_shard_count rs" "total_shard_count rs < length many"
    and "length (pre @ Some [] # post) = total_shard_count rs"
    and "length (pre @ Some bad # post') = total_shard_count rs" "bad \<noteq> []" "length bad \<noteq> L" "pre \<noteq> replicate (length pre) None"
    and "length (pre @ rest) = total_shard_count rs" "\<forall>s. Some s \<in> set rest \<longrightarrow> length s = L"
    and "length (filter (\<lambda>s. s \<noteq> None) (pre @ rest)) < min (data_shard_count rs) (total_shard_count rs)"
  shows "reconstruct galois_8 lru few rs = (Inl (RsErr TooFewShards), rs) \<and>
    reconstruct galois_8 lru many rs = (Inl (RsErr TooManyShards), rs) \<and>
    reconstruct galois_8 lru (pre @ Some [] # post) rs = (Inl (RsErr EmptyShard), rs) \<and>
    reconstruct galois_8 lru (pre @ Some bad # post') rs = (Inl (RsErr IncorrectShardSize), rs) \<and>
    reconstruct galois_8 lru (pre @ rest) rs = (Inl (RsErr TooFewShardsPresent), rs)"
proof -
  have pre: "\<not> list_all (\<lambda>x. x = None) pre"
  proof
    assume "list_all (\<lambda>x. x = None) pre"
    then have "replicate (length pre) None = pre" by (intro replicate_length_same) (simp add: list_all_iff)
    with assms(9) show False by simp
  qed
  have "scan_shards (pre @ Some [] # post) 0 None = Inl (RsErr EmptyShard)"
    "scan_shards (pre @ Some bad # post') 0 None = Inl (RsErr IncorrectShardSize)"
    using scan_bad [of pre L None _ _ 0] assms(1,2,7,8) pre by simp_all
  moreover have "\<exists>sl. scan_shards (pre @ rest) 0 None = Inr (length (filter (\<lambda>s. s \<noteq> None) (pre @ rest)), sl)"
    using scan_shards_eq [of "pre @ rest" L None 0] assms(1,2,11) by auto
  ultimately show ?thesis using assms(3-6,10,12)
    by (auto simp: reconstruct_def reconstruct_internal_def check_count_def)
qed

theorem rs_reconstruct_errors_witness:
  "\<exists>rs. ReedSolomon_new galois_8 list_lru 2 1 = Inr rs \<and>
    fst (reconstruct galois_8 list_lru [] rs) = Inl (RsErr TooFewShards) \<and>
    fst (reconstruct galois_8 list_lru [Some [1], Some [2], None, None] rs) = Inl (RsErr TooManyShards) \<and>
    fst (reconstruct galois_8 list_lru [Some [1], Some [], None] rs) = Inl (RsErr EmptyShard) \<and>
    fst (reconstruct galois_8 list_lru [Some [1], Some [2, 3], None] rs) = Inl (RsErr IncorrectShardSize) \<and>
    fst (reconstruct galois_8 list_lru [Some [1], None, None] rs) = Inl (RsErr TooFewShardsPresent)"
proof -
  obtain rs e where new: "ReedSolomon_new galois_8 list_lru 2 1 = Inr rs" "data_shard_count rs = 2" "parity_shard_count rs = 1"
    "codec_ok GF (\<lambda>c. map_of (snd c)) e rs"
    by (rule g8.new_codec_ok [OF list_lru_ok, of 2 1]) auto
  have t: "total_shard_count rs = 3" using codec_okD(3) [OF new(4)] new by simp
  show ?thesis using new(1,2) t rs_reconstruct_errors [of "[Some [1]]" 1 "[]" rs "[Some [1], Some [2], None, None]" "[None]" "[2, 3]" "[None]"
      "[None, None]" list_lru] by auto
qed

text \<open>
  verification accepts exactly the encoded shards. For a full set of shards of one positive length,
  \<^verbatim>\<open>verify\<close> answers whether encoding would leave the shards as they are; it never fails on them.
\<close>

theorem rs_verify_exact:
  assumes "lru_ok lru view" "ReedSolomon_new galois_8 lru k m = Inr rs" "sized (k + m) L xs" "0 < L"
  shows "verify galois_8 rs xs = Inr (encode galois_8 rs xs = Inr xs) \<and>
    (\<exists>full. encode galois_8 rs xs = Inr full \<and> verify galois_8 rs full = Inr True)"
proof -
  obtain e where ok: "codec_ok GF view e rs" and cnt: "data_shard_count rs = k" "parity_shard_count rs = m" "total_shard_count rs = k + m"
    by (rule new_g8 [OF assms(1,2)])
  have xs: "sized (total_shard_count rs) L xs" using assms(3) cnt by simp
  obtain ys where ys: "encode galois_8 rs xs = Inr (take k xs @ ys)" "sized m L ys" "codeword GF e k (k + m) L (take k xs @ ys)"
    using g8.encode_codeword [OF ok xs assms(4)] cnt by metis
  let ?full = "take k xs @ ys"
  have full: "sized (total_shard_count rs) L ?full"
    using sized_append [OF sized_take_drop(1) [OF assms(3)] ys(2)] cnt by simp
  obtain zs where zs: "encode galois_8 rs ?full = Inr (take k ?full @ zs)" "codeword GF e k (k + m) L (take k ?full @ zs)"
    using g8.encode_codeword [OF ok full assms(4)] cnt by metis
  have "take k (take k ?full @ zs) = take k ?full" using assms(3) by (simp add: sized_def)
  then have "encode galois_8 rs ?full = Inr ?full" using zs(1) g8.codeword_unique [OF zs(2) ys(3)] by simp
  then show ?thesis using g8.verify_exact [OF ok xs assms(4)] g8.verify_exact [OF ok full assms(4)] ys(1) by simp
qed

theorem rs_verify_exact_witness:
  "\<exists>rs. ReedSolomon_new galois_8 list_lru 2 1 = Inr rs \<and>
    verify galois_8 rs [[1], [2], [3]] = Inr (encode galois_8 rs [[1], [2], [3]] = Inr [[1], [2], [3]]) \<and>
    (\<exists>full. encode galois_8 rs [[1], [2], [3]] = Inr full \<and> verify galois_8 rs full = Inr True)"
proof -
  obtain rs e where new: "ReedSolomon_new galois_8 list_lru 2 1 = Inr rs" "codec_ok GF (\<lambda>c. map_of (snd c)) e rs"
    by (rule g8.new_codec_ok [OF list_lru_ok, of 2 1]) auto
  have "sized (2 + 1) 1 [[1], [2], [3 :: u8]]" by (simp add: sized_def)
  with new(1) rs_verify_exact [OF list_lru_ok new(1), of 1 "[[1], [2], [3]]"] show ?thesis by auto
qed

text \<open>
  C19: shard-by-shard coding equals coding at once. Feeding the data shards one by one through the
  bookkeeping struct never fails and gives after the last one exactly the shards \<^verbatim>\<open>encode\<close> gives; only then is the
  parity ready, a further call is refused with \<^verbatim>\<open>TooManyCalls\<close> and a reset starts over, while a reset in the middle
  reports \<^verbatim>\<open>LeftoverShards\<close>.
\<close>

theorem shard_by_shard_equals_encode:
  assumes "lru_ok lru view" "ReedSolomon_new galois_8 lru k m = Inr rs" "sized (k + m) L xs" "0 < L" "0 < n" "n < k"
  shows "\<exists>full s part s'. encode galois_8 rs xs = Inr full \<and> sbs_calls galois_8 k xs (ShardByShard_new rs) = Inr (full, s) \<and>
    parity_ready s \<and> sbs_encode galois_8 full s = Inl (SbsErr TooManyCalls) \<and> sbs_reset s = Inr (ShardByShard_new rs) \<and>
    sbs_calls galois_8 n xs (ShardByShard_new rs) = Inr (part, s') \<and> \<not> parity_ready s' \<and> sbs_reset s' = Inl LeftoverShards"
proof -
  obtain e where ok: "codec_ok GF view e rs" and cnt: "data_shard_count rs = k" "parity_shard_count rs = m" "total_shard_count rs = k + m"
    by (rule new_g8 [OF assms(1,2)])
  have xs: "sized (total_shard_count rs) L xs" using assms(3) cnt by simp
  obtain ys where ys: "sbs_calls galois_8 k xs (ShardByShard_new rs) = Inr (take k xs @ ys, \<lparr>codec = rs, cur_input = k\<rparr>)"
    "code_loop galois_8 (get_parity_rows rs) (take k xs) [0..<k] (drop k xs) = Some ys"
    using g8.sbs_calls_code [OF ok xs assms(4), of k] cnt by auto
  obtain part where part: "sbs_calls galois_8 n xs (ShardByShard_new rs) = Inr (part, \<lparr>codec = rs, cur_input = n\<rparr>)"
    using g8.sbs_calls_code [OF ok xs assms(4), of n] cnt assms(6) by auto
  have sz: "sized k L (take k xs)" "sized m L (drop k xs)" using sized_take_drop [OF assms(3)] .
  have "0 < m" using codec_okD(2) [OF ok] cnt by simp
  then have "encode galois_8 rs xs = Inr (take k xs @ ys)"
    using ys(2) assms(4-6) check_slices_sized [OF assms(3)] check_slices_sized [OF sz(1)] check_slices_sized [OF sz(2)]
      sizedD(1) [OF sz(1), of 0] sizedD(1) [OF sz(2), of 0] sizedD(2) [OF assms(3)]
    by (simp add: encode_def encode_sep_def guarded_def or_panic_def check_count_def check_single_def cnt Let_def code_some_slices_def)
  then show ?thesis using ys(1) part assms(5,6)
    by (auto simp: parity_ready_def sbs_reset_def sbs_encode_def sbs_encode_checks_def ShardByShard_new_def cnt)
qed

theorem shard_by_shard_equals_encode_witness:
  "\<exists>rs full s. ReedSolomon_new galois_8 list_lru 2 1 = Inr rs \<and> encode galois_8 rs [[1], [2], [3]] = Inr full \<and>
    sbs_calls galois_8 2 [[1], [2], [3]] (ShardByShard_new rs) = Inr (full, s) \<and> parity_ready s"
proof -
  obtain rs e where new: "ReedSolomon_new galois_8 list_lru 2 1 = Inr rs" "codec_ok GF (\<lambda>c. map_of (snd c)) e rs"
    by (rule g8.new_codec_ok [OF list_lru_ok, of 2 1]) auto
  have "sized (2 + 1) 1 [[1], [2], [3 :: u8]]" by (simp add: sized_def)
  with new(1) shard_by_shard_equals_encode [OF list_lru_ok new(1), of 1 "[[1], [2], [3]]" 1] show ?thesis by auto
qed

end
