(* ===== verification/Pulsar_RsFec.thy ===== *)
theory Pulsar_RsFec
  imports Pulsar_Fec Pulsar_Float Pulsar_Reed_Solomon
begin

text \<open>
  The Reed-Solomon half of \<^verbatim>\<open>service/media.rs\<close>: the parity datagrams of a video frame, the host's
  \<^verbatim>\<open>RsFecEncoder\<close>, which groups the outgoing datagrams by RTP timestamp and marker, and the client's
  \<^verbatim>\<open>RsFecDecoder\<close>, which rebuilds the missing packets of a frame once as many parity shards as losses have come in.
  The outer \<open>option\<close> of the operations is \<open>None\<close> for a panic. Ratios are \<^verbatim>\<open>f32\<close> values as rationals.
\<close>

subsection \<open>Parity datagrams\<close>

definition RS_MAX_DATA :: nat where "RS_MAX_DATA = 200"
definition RS_HDR :: nat where "RS_HDR = 7"

record rs_parity =
  rp_base_seq :: u16
  rp_k :: u8
  rp_m :: u8
  rp_idx :: u8
  rp_shard_len :: u16
  rp_shard :: bytes

definition parse_rs_parity :: "bytes \<Rightarrow> rs_parity option" where
  "parse_rs_parity body =
     (if length body < RS_HDR then None
      else
        let base = from_be_bytes16 (body ! 0) (body ! 1);
            k = body ! 2; m = body ! 3; idx = body ! 4;
            shard_len = unat (from_be_bytes16 (body ! 5) (body ! 6))
        in if k = 0 \<or> m = 0 \<or> idx \<ge> m \<or> shard_len < 2 \<or> length body < RS_HDR + shard_len then None
           else Some \<lparr>rp_base_seq = base, rp_k = k, rp_m = m, rp_idx = idx, rp_shard_len = of_nat shard_len,
                  rp_shard = take shard_len (drop RS_HDR body)\<rparr>)"

text \<open>Callers pass a shard length of at least two more than the packet, so the slice writes are in range.\<close>

definition rs_data_shard :: "bytes \<Rightarrow> nat \<Rightarrow> bytes" where
  "rs_data_shard pkt shard_len =
     to_be_bytes16 (of_nat (length pkt)) @ pkt @ replicate (shard_len - (2 + length pkt)) 0"

definition rs_m :: "nat \<Rightarrow> rat \<Rightarrow> nat" where
  "rs_m k ratio = clamp 1 (255 - k) (nat \<lceil>f32_mul (f32_of k) ratio\<rceil>)"

definition rs_parity_frame :: "u16 \<Rightarrow> nat \<Rightarrow> nat \<Rightarrow> nat \<Rightarrow> nat \<Rightarrow> bytes \<Rightarrow> bytes" where
  "rs_parity_frame base k m shard_len j par =
     TAG_FEC_RS # to_be_bytes16 base @ [of_nat k, of_nat m, of_nat j] @ to_be_bytes16 (of_nat shard_len) @ par"

definition rs_parity_frames :: "('c, u8) lru_lib \<Rightarrow> u16 \<Rightarrow> bytes list \<Rightarrow> rat \<Rightarrow> bytes list option" where
  "rs_parity_frames lru base pkts ratio =
     (let k = length pkts in
      if k = 0 \<or> k > RS_MAX_DATA \<or> ratio \<le> 0 then Some []
      else
        let mx = max_len pkts in
        if mx = 0 \<or> mx > FEC_MAX_PACKET then Some []
        else
          let m = rs_m k ratio;
              shard_len = mx + 2;
              shards = map (\<lambda>p. rs_data_shard p shard_len) pkts @ replicate m (replicate shard_len 0)
          in case ReedSolomon_new galois_8 lru k m of
               Inl (RsErr _) \<Rightarrow> Some []
             | Inl RsPanic \<Rightarrow> None
             | Inr rs \<Rightarrow>
                 (case encode galois_8 rs shards of
                    Inl (RsErr _) \<Rightarrow> Some []
                  | Inl RsPanic \<Rightarrow> None
                  | Inr shards \<Rightarrow> Some (map (\<lambda>(j, par). rs_parity_frame base k m shard_len j par) (enumerate 0 (drop k shards)))))"

subsection \<open>Host side: \<^verbatim>\<open>RsFecEncoder\<close>\<close>

record rs_fec_encoder =
  re_ratio :: rat
  re_group :: "bytes list"
  re_base :: u16
  re_next :: "u16 option"
  re_cur_ts :: "u32 option"

definition RsFecEncoder_new :: "rat \<Rightarrow> rs_fec_encoder" where
  "RsFecEncoder_new ratio = \<lparr>re_ratio = max ratio 0, re_group = [], re_base = 0, re_next = None, re_cur_ts = None\<rparr>"

definition RsFecEncoder_set_ratio :: "rat \<Rightarrow> rs_fec_encoder \<Rightarrow> rs_fec_encoder" where
  "RsFecEncoder_set_ratio ratio e = e\<lparr>re_ratio := max ratio 0\<rparr>"

function flush_chunks :: "('c, u8) lru_lib \<Rightarrow> rat \<Rightarrow> u16 \<Rightarrow> bytes list \<Rightarrow> bytes list option" where
  "flush_chunks lru ratio base grp =
     (if grp = [] then Some []
      else
        let chunk = take RS_MAX_DATA grp in
        case rs_parity_frames lru base chunk ratio of
          None \<Rightarrow> None
        | Some fs \<Rightarrow> map_option ((@) fs) (flush_chunks lru ratio (base + of_nat (length chunk)) (drop RS_MAX_DATA grp)))"
  by pat_completeness auto
termination by (relation "measure (\<lambda>(lru, ratio, base, grp). length grp)") (auto simp: RS_MAX_DATA_def)

declare flush_chunks.simps [simp del]

definition RsFecEncoder_flush :: "('c, u8) lru_lib \<Rightarrow> rs_fec_encoder \<Rightarrow> (rs_fec_encoder \<times> bytes list) option" where
  "RsFecEncoder_flush lru e =
     (if re_group e = [] \<or> re_ratio e \<le> 0 then Some (e\<lparr>re_group := []\<rparr>, [])
      else map_option (Pair (e\<lparr>re_group := []\<rparr>))
             (flush_chunks lru (re_ratio e) (re_base e) (re_group e)))"

definition rtp_timestamp :: "bytes \<Rightarrow> u32" where
  "rtp_timestamp rtp = from_be_bytes32 (rtp ! 4) (rtp ! 5) (rtp ! 6) (rtp ! 7)"

definition rtp_marker :: "bytes \<Rightarrow> bool" where
  "rtp_marker rtp \<longleftrightarrow> rtp ! 1 AND 0x80 \<noteq> 0"

definition RsFecEncoder_push :: "('c, u8) lru_lib \<Rightarrow> u16 \<Rightarrow> bytes \<Rightarrow> rs_fec_encoder \<Rightarrow> (rs_fec_encoder \<times> bytes list) option" where
  "RsFecEncoder_push lru seq rtp e =
     (if re_ratio e \<le> 0 \<or> length rtp < 12 \<or> length rtp > FEC_MAX_PACKET
      then Some (e\<lparr>re_group := [], re_next := Some (seq + 1)\<rparr>, [])
      else
        let ts = rtp_timestamp rtp; marker = rtp_marker rtp in
        case (if re_next e \<noteq> Some seq then Some (e\<lparr>re_group := []\<rparr>, [])
              else if re_cur_ts e \<noteq> Some ts \<and> re_group e \<noteq> [] then RsFecEncoder_flush lru e
              else Some (e, [])) of
          None \<Rightarrow> None
        | Some (e, out) \<Rightarrow>
            let e = (if re_group e = [] then e\<lparr>re_base := seq\<rparr> else e);
                e = e\<lparr>re_cur_ts := Some ts, re_next := Some (seq + 1), re_group := re_group e @ [rtp]\<rparr>
            in if marker then map_option (\<lambda>(e, fs). (e, out @ fs)) (RsFecEncoder_flush lru e)
               else Some (e, out))"

subsection \<open>Client side: \<^verbatim>\<open>RsFecDecoder\<close>\<close>

record rs_block =
  blk_base :: u16
  blk_k :: u8
  blk_m :: u8
  blk_shard_len :: nat
  blk_parity :: "bytes option list"
  blk_age :: u32

record rs_fec_decoder =
  rd_ring :: "(u16 \<times> bytes) list"
  rd_cap :: nat
  rd_blocks :: "rs_block list"
  rd_last_ratio :: rat
  rd_tick :: u32

definition RsFecDecoder_new :: "nat \<Rightarrow> rs_fec_decoder" where
  "RsFecDecoder_new cap = \<lparr>rd_ring = [], rd_cap = max cap 16, rd_blocks = [], rd_last_ratio = 0, rd_tick = 0\<rparr>"

definition RsFecDecoder_on_packet :: "u16 \<Rightarrow> bytes \<Rightarrow> rs_fec_decoder \<Rightarrow> rs_fec_decoder" where
  "RsFecDecoder_on_packet seq rtp d =
     d\<lparr>rd_ring := (if length (rd_ring d) \<ge> rd_cap d then tl (rd_ring d) else rd_ring d) @ [(seq, rtp)]\<rparr>"

definition RsFecDecoder_find :: "u16 \<Rightarrow> rs_fec_decoder \<Rightarrow> bytes option" where
  "RsFecDecoder_find seq d = map_option snd (find (\<lambda>(s, _). s = seq) (rev (rd_ring d)))"

definition same_block :: "rs_parity \<Rightarrow> rs_block \<Rightarrow> bool" where
  "same_block p b \<longleftrightarrow> blk_base b = rp_base_seq p \<and> blk_k b = rp_k p \<and> blk_m b = rp_m p"

definition block_position :: "rs_parity \<Rightarrow> u32 \<Rightarrow> rs_block list \<Rightarrow> nat \<times> rs_block list" where
  "block_position p tick blocks =
     (case find (\<lambda>i. same_block p (blocks ! i)) [0..<length blocks] of
        Some i \<Rightarrow> (i, blocks)
      | None \<Rightarrow>
          let blocks = (if length blocks \<ge> 32 then tl blocks else blocks) @
                [\<lparr>blk_base = rp_base_seq p, blk_k = rp_k p, blk_m = rp_m p, blk_shard_len = unat (rp_shard_len p),
                  blk_parity = replicate (unat (rp_m p)) None, blk_age = tick\<rparr>]
          in (length blocks - 1, blocks))"

definition data_shards :: "u16 \<Rightarrow> nat \<Rightarrow> nat \<Rightarrow> rs_fec_decoder \<Rightarrow> bytes option list" where
  "data_shards base k shard_len d =
     map (\<lambda>i. case RsFecDecoder_find (base + of_nat i) d of
                Some pkt \<Rightarrow> if length pkt + 2 \<le> shard_len then Some (rs_data_shard pkt shard_len) else None
              | None \<Rightarrow> None) [0..<k]"

definition take_rebuilt :: "u16 \<Rightarrow> nat \<Rightarrow> bytes option list \<Rightarrow> rs_fec_decoder \<times> (u16 \<times> bytes) list \<Rightarrow> nat \<Rightarrow>
    rs_fec_decoder \<times> (u16 \<times> bytes) list" where
  "take_rebuilt base shard_len shards s i =
     (case s of (d, out) \<Rightarrow>
        case shards ! i of
          None \<Rightarrow> (d, out)
        | Some shard \<Rightarrow>
            let len = unat (from_be_bytes16 (shard ! 0) (shard ! 1)) in
            if len \<ge> 12 \<and> len + 2 \<le> shard_len
            then let pkt = take len (drop 2 shard); seq = base + of_nat i
                 in (RsFecDecoder_on_packet seq pkt d, out @ [(seq, pkt)])
            else (d, out))"

definition remove_block :: "nat \<Rightarrow> rs_fec_decoder \<Rightarrow> rs_fec_decoder" where
  "remove_block pos d = d\<lparr>rd_blocks := take pos (rd_blocks d) @ drop (Suc pos) (rd_blocks d)\<rparr>"

text \<open>The part of \<^verbatim>\<open>on_parity\<close> that finds or opens the block of a parity shard.\<close>

definition open_block :: "rs_parity \<Rightarrow> rs_fec_decoder \<Rightarrow> nat \<times> rs_fec_decoder" where
  "open_block p d =
     (let d = d\<lparr>rd_tick := rd_tick d + 1, rd_last_ratio := f32_div (f32_of (unat (rp_m p))) (f32_of (unat (rp_k p)))\<rparr>;
          (pos, blocks) = block_position p (rd_tick d) (rd_blocks d)
      in (pos, d\<lparr>rd_blocks := blocks\<rparr>))"

text \<open>The part that rebuilds the block at a position when it is repairable.\<close>

definition rebuild_block :: "('c, u8) lru_lib \<Rightarrow> nat \<Rightarrow> rs_fec_decoder \<Rightarrow> (rs_fec_decoder \<times> (u16 \<times> bytes) list) option" where
  "rebuild_block lru pos d =
     (let b = rd_blocks d ! pos;
          k = unat (blk_k b); m = unat (blk_m b); base = blk_base b; shard_len = blk_shard_len b;
          shards = data_shards base k shard_len d;
          missing = filter (\<lambda>i. shards ! i = None) [0..<k]
      in if missing = [] then Some (remove_block pos d, [])
         else if length missing > length (filter (\<lambda>s. s \<noteq> None) (blk_parity b)) then Some (d, [])
         else
           (case ReedSolomon_new galois_8 lru k m of
              Inl (RsErr _) \<Rightarrow> Some (remove_block pos d, [])
            | Inl RsPanic \<Rightarrow> None
            | Inr rs \<Rightarrow>
                (case fst (reconstruct_data galois_8 lru (shards @ blk_parity b) rs) of
                   Inl (RsErr _) \<Rightarrow> Some (remove_block pos d, [])
                 | Inl RsPanic \<Rightarrow> None
                 | Inr shards \<Rightarrow>
                     (case foldl (take_rebuilt base shard_len shards) (d, []) missing of
                        (d, out) \<Rightarrow> Some (remove_block pos d, out)))))"

definition store_parity :: "rs_parity \<Rightarrow> u32 \<Rightarrow> rs_block \<Rightarrow> rs_block" where
  "store_parity p tick b = b\<lparr>blk_parity := (blk_parity b)[unat (rp_idx p) := Some (rp_shard p)], blk_age := tick\<rparr>"

definition RsFecDecoder_on_parity :: "('c, u8) lru_lib \<Rightarrow> bytes \<Rightarrow> rs_fec_decoder \<Rightarrow> (rs_fec_decoder \<times> (u16 \<times> bytes) list) option" where
  "RsFecDecoder_on_parity lru body d =
     (case parse_rs_parity body of
        None \<Rightarrow> Some (d, [])
      | Some p \<Rightarrow>
          (case open_block p d of
             (pos, d) \<Rightarrow>
               let b = rd_blocks d ! pos in
               if blk_shard_len b \<noteq> unat (rp_shard_len p) then Some (d, [])
               else if unat (rp_idx p) \<ge> length (blk_parity b) then None
               else rebuild_block lru pos (d\<lparr>rd_blocks := (rd_blocks d)[pos := store_parity p (rd_tick d) b]\<rparr>)))"

definition RsFecDecoder_reset :: "rs_fec_decoder \<Rightarrow> rs_fec_decoder" where
  "RsFecDecoder_reset d = d\<lparr>rd_ring := [], rd_blocks := []\<rparr>"

subsection \<open>The decoder never panics\<close>

definition block_ok :: "rs_block \<Rightarrow> bool" where
  "block_ok b \<longleftrightarrow> blk_k b \<noteq> 0 \<and> blk_m b \<noteq> 0 \<and> 2 \<le> blk_shard_len b \<and> length (blk_parity b) = unat (blk_m b) \<and>
     (\<forall>s. Some s \<in> set (blk_parity b) \<longrightarrow> length s = blk_shard_len b)"

definition decoder_ok :: "rs_fec_decoder \<Rightarrow> bool" where
  "decoder_ok d \<longleftrightarrow> length (rd_ring d) \<le> rd_cap d \<and> 0 < rd_cap d \<and> length (rd_blocks d) \<le> 32 \<and> list_all block_ok (rd_blocks d)"

definition parity_ok :: "rs_parity \<Rightarrow> bool" where
  "parity_ok p \<longleftrightarrow> rp_k p \<noteq> 0 \<and> rp_m p \<noteq> 0 \<and> rp_idx p < rp_m p \<and> 2 \<le> unat (rp_shard_len p) \<and> length (rp_shard p) = unat (rp_shard_len p)"

lemma parse_rs_parity_ok: "parse_rs_parity body = Some p \<Longrightarrow> parity_ok p"
proof -
  assume p: "parse_rs_parity body = Some p"
  have u: "unat (of_nat (unat x) :: u16) = unat x" for x :: u16 by simp
  from p show ?thesis by (auto simp: parse_rs_parity_def parity_ok_def Let_def u split: if_splits)
qed

lemma length_rs_data_shard [simp]: "length pkt + 2 \<le> n \<Longrightarrow> length (rs_data_shard pkt n) = n"
  by (simp add: rs_data_shard_def)

lemma data_shards_sized: "Some s \<in> set (data_shards base k L d) \<Longrightarrow> length s = L"
  by (auto simp: data_shards_def split: option.splits if_splits)

lemma length_data_shards [simp]: "length (data_shards base k L d) = k"
  by (simp add: data_shards_def)

lemma block_position_ok:
  assumes "parity_ok p" "list_all block_ok blocks" "length blocks \<le> 32" "block_position p tick blocks = (pos, blocks')"
  shows "pos < length blocks'" "same_block p (blocks' ! pos)" "list_all block_ok blocks'" "length blocks' \<le> 32"
proof -
  let ?f = "find (\<lambda>i. same_block p (blocks ! i)) [0..<length blocks]"
  have "pos < length blocks' \<and> same_block p (blocks' ! pos) \<and> list_all block_ok blocks' \<and> length blocks' \<le> 32"
  proof (cases ?f)
    case None
    let ?b = "\<lparr>blk_base = rp_base_seq p, blk_k = rp_k p, blk_m = rp_m p, blk_shard_len = unat (rp_shard_len p),
        blk_parity = replicate (unat (rp_m p)) None, blk_age = tick\<rparr>"
    have "block_ok ?b" using assms(1) by (auto simp: block_ok_def parity_ok_def)
    moreover have "list_all block_ok (tl blocks)" using assms(2) by (cases blocks) simp_all
    ultimately show ?thesis using assms None by (auto simp: block_position_def Let_def nth_append same_block_def)
  next
    case (Some i)
    then have "i < length blocks" "same_block p (blocks ! i)" by (auto simp: find_Some_iff)
    then show ?thesis using assms(2-4) Some by (auto simp: block_position_def)
  qed
  then show "pos < length blocks'" "same_block p (blocks' ! pos)" "list_all block_ok blocks'" "length blocks' \<le> 32" by blast+
qed

lemma new_g8_total:
  assumes "lru_ok lru view" "0 < k" "0 < m"
  shows "(\<exists>e. ReedSolomon_new galois_8 lru k m = Inl (RsErr e)) \<or>
    (\<exists>rs e. ReedSolomon_new galois_8 lru k m = Inr rs \<and> codec_ok GF view e rs \<and> data_shard_count rs = k \<and> total_shard_count rs = k + m)"
proof (cases "k + m \<le> 256")
  case True
  then obtain rs e where "ReedSolomon_new galois_8 lru k m = Inr rs" "codec_ok GF view e rs" "data_shard_count rs = k" "parity_shard_count rs = m"
    using g8.new_codec_ok [OF assms] by auto
  then show ?thesis using codec_okD(3) by fastforce
qed (use assms in \<open>simp add: ReedSolomon_new_def\<close>)

lemma on_packet_ok: "decoder_ok d \<Longrightarrow> decoder_ok (RsFecDecoder_on_packet seq rtp d)"
  by (auto simp: decoder_ok_def RsFecDecoder_on_packet_def)

lemma remove_block_ok: "decoder_ok d \<Longrightarrow> decoder_ok (remove_block pos d)"
  by (auto simp: decoder_ok_def remove_block_def list_all_iff dest: in_set_takeD in_set_dropD)

lemma keeps_cap [simp]: "rd_cap (RsFecDecoder_on_packet seq rtp d) = rd_cap d" "rd_cap (remove_block pos d) = rd_cap d"
  by (simp_all add: RsFecDecoder_on_packet_def remove_block_def)

lemma take_rebuilt_ok:
  assumes "decoder_ok d" "\<And>i. i \<in> set is \<Longrightarrow> \<exists>s. shards ! i = Some s \<and> length s = L"
    and "foldl (take_rebuilt base L shards) (d, out) is = (d', out')" "\<forall>(q, pkt) \<in> set out. 12 \<le> length pkt"
  shows "decoder_ok d' \<and> rd_cap d' = rd_cap d \<and> (\<forall>(q, pkt) \<in> set out'. 12 \<le> length pkt)"
  using assms
proof (induction "is" arbitrary: d out)
  case (Cons i "is")
  obtain s where s: "shards ! i = Some s" "length s = L" using Cons.prems(2) by auto
  let ?r = "take_rebuilt base L shards (d, out) i"
  have "decoder_ok (fst ?r) \<and> rd_cap (fst ?r) = rd_cap d \<and> (\<forall>(q, pkt) \<in> set (snd ?r). 12 \<le> length pkt)"
    using Cons.prems(1,4) s on_packet_ok [OF Cons.prems(1)] by (auto simp: take_rebuilt_def Let_def)
  then show ?case using Cons.IH [of "fst ?r" "snd ?r"] Cons.prems by simp
qed simp

lemma count_missing:
  "length (filter (\<lambda>s. s \<noteq> None) (xs :: bytes option list)) + length (filter (\<lambda>i. xs ! i = None) [0..<length xs]) = length xs"
  using length_present [of xs] sum_length_filter_compl [of "\<lambda>i. xs ! i = None" "[0..<length xs]"] by (simp add: present_rows_def)

lemma rebuild_block_total:
  assumes lru: "lru_ok lru view" and ok: "decoder_ok d" and pos: "pos < length (rd_blocks d)"
  obtains d' out where "rebuild_block lru pos d = Some (d', out)" "decoder_ok d'" "rd_cap d' = rd_cap d" "\<forall>(q, pkt) \<in> set out. 12 \<le> length pkt"
proof -
  define b where "b = rd_blocks d ! pos"
  have bok: "block_ok b" using ok pos by (simp add: b_def decoder_ok_def list_all_length)
  let ?k = "unat (blk_k b)" and ?m = "unat (blk_m b)" and ?L = "blk_shard_len b"
  define sh where "sh = data_shards (blk_base b) ?k ?L d"
  define mis where "mis = filter (\<lambda>i. sh ! i = None) [0..<?k]"
  note defs = rebuild_block_def Let_def b_def [symmetric] sh_def [symmetric] mis_def [symmetric]
  show thesis
  proof (cases "mis = [] \<or> length mis > length (filter (\<lambda>s. s \<noteq> None) (blk_parity b))")
    case True
    then show thesis using that ok remove_block_ok [OF ok] unfolding defs by (cases "mis = []") auto
  next
    case enough: False
    have "0 < ?k" "0 < ?m" using bok by (simp_all add: block_ok_def unat_gt_0)
    from new_g8_total [OF lru this] show thesis
    proof (elim disjE exE conjE)
      fix e assume "ReedSolomon_new galois_8 lru ?k ?m = Inl (RsErr e)"
      then show thesis using that enough remove_block_ok [OF ok] unfolding defs by simp
    next
      fix rs e assume rs: "ReedSolomon_new galois_8 lru ?k ?m = Inr rs" "codec_ok GF view e rs" "data_shard_count rs = ?k" "total_shard_count rs = ?k + ?m"
      let ?all = "sh @ blk_parity b"
      have "length (filter (\<lambda>s. s \<noteq> None) sh) + length mis = ?k"
        using count_missing [of sh] by (simp add: mis_def sh_def)
      then have "?k \<le> length (present_rows ?all)" using enough by (simp add: length_present)
      moreover have "length ?all = ?k + ?m" using bok by (simp add: sh_def block_ok_def)
      moreover have "length s = ?L" if "Some s \<in> set ?all" for s
        using that bok data_shards_sized unfolding sh_def block_ok_def by auto
      moreover have "0 < ?L" using bok by (simp add: block_ok_def)
      ultimately obtain outs rs' where outs: "reconstruct_internal galois_8 lru True ?all rs = (Inr outs, rs')"
        "\<forall>i<?k. \<exists>s. outs ! i = Some s \<and> length s = ?L"
        using g8.reconstruct_data_total [OF lru rs(2), of ?all ?L] rs(3,4) by auto
      obtain d4 out where d4: "foldl (take_rebuilt (blk_base b) ?L outs) (d, []) mis = (d4, out)" by fastforce
      have "decoder_ok d4 \<and> rd_cap d4 = rd_cap d \<and> (\<forall>(q, pkt) \<in> set out. 12 \<le> length pkt)"
        by (rule take_rebuilt_ok [OF ok _ d4]) (use outs(2) in \<open>auto simp: mis_def\<close>)
      then show thesis using that [of "remove_block pos d4" out] enough rs(1) outs(1) d4 remove_block_ok unfolding defs
        by (simp add: reconstruct_data_def)
    qed
  qed
qed

lemma store_parity_ok:
  assumes "block_ok b" "parity_ok p" "blk_shard_len b = unat (rp_shard_len p)"
  shows "block_ok (store_parity p tick b)"
  using assms set_update_subset_insert [of "blk_parity b" "unat (rp_idx p)" "Some (rp_shard p)"]
  by (fastforce simp: store_parity_def block_ok_def parity_ok_def)

lemma on_parity_total:
  assumes lru: "lru_ok lru view" and ok: "decoder_ok d"
  obtains d' out where "RsFecDecoder_on_parity lru body d = Some (d', out)" "decoder_ok d'" "rd_cap d' = rd_cap d"
    "\<forall>(q, pkt) \<in> set out. 12 \<le> length pkt"
proof (cases "parse_rs_parity body")
  case None
  then show thesis using that ok by (simp add: RsFecDecoder_on_parity_def)
next
  case (Some p)
  note pok = parse_rs_parity_ok [OF Some]
  obtain pos d2 where d2: "open_block p d = (pos, d2)" by fastforce
  define b where "b = rd_blocks d2 ! pos"
  have blk: "pos < length (rd_blocks d2)" "same_block p b" "decoder_ok d2" "rd_cap d2 = rd_cap d"
    using d2 ok block_position_ok [OF pok, of "rd_blocks d" "rd_tick d + 1"]
    by (auto simp: open_block_def Let_def decoder_ok_def b_def split: prod.splits)
  have bok: "block_ok b" using blk(1,3) by (simp add: b_def decoder_ok_def list_all_length)
  show thesis
  proof (cases "blk_shard_len b = unat (rp_shard_len p)")
    case False
    then show thesis using that [of d2 "[]"] blk by (simp add: RsFecDecoder_on_parity_def Some d2 flip: b_def)
  next
    case True
    have idx: "unat (rp_idx p) < length (blk_parity b)"
      using pok bok blk(2) by (simp add: parity_ok_def block_ok_def same_block_def word_less_nat_alt)
    let ?d = "d2\<lparr>rd_blocks := (rd_blocks d2)[pos := store_parity p (rd_tick d2) b]\<rparr>"
    have "decoder_ok ?d"
      using blk(3) store_parity_ok [OF bok pok True, of "rd_tick d2"] set_update_subset_insert [of "rd_blocks d2" pos]
      by (fastforce simp: decoder_ok_def list_all_iff)
    from rebuild_block_total [OF lru this, of pos] obtain d' out where "rebuild_block lru pos ?d = Some (d', out)" "decoder_ok d'"
      "rd_cap d' = rd_cap d2" "\<forall>(q, pkt) \<in> set out. 12 \<le> length pkt"
      using blk(1) by auto
    then show thesis using that blk(4) True idx by (simp add: RsFecDecoder_on_parity_def Some d2 flip: b_def)
  qed
qed

datatype rs_event = RsPacket u16 bytes | RsParity bytes | RsReset

fun rs_events :: "('c, u8) lru_lib \<Rightarrow> rs_event list \<Rightarrow> rs_fec_decoder \<Rightarrow> (rs_fec_decoder \<times> (u16 \<times> bytes) list) option" where
  "rs_events lru [] d = Some (d, [])"
| "rs_events lru (RsPacket seq rtp # es) d = rs_events lru es (RsFecDecoder_on_packet seq rtp d)"
| "rs_events lru (RsReset # es) d = rs_events lru es (RsFecDecoder_reset d)"
| "rs_events lru (RsParity body # es) d =
     Option.bind (RsFecDecoder_on_parity lru body d) (\<lambda>(d, out). map_option (\<lambda>(d, out'). (d, out @ out')) (rs_events lru es d))"

text \<open>
  the Reed-Solomon decoder survives every input. Whatever packets, parity payloads and
  resets arrive, in any order and with any bytes, no operation panics; the ring never holds more packets than its
  capacity, at most 32 blocks are open, and every packet it rebuilds has at least the twelve bytes of an RTP header.
\<close>

theorem rs_decoder_robust:
  assumes "lru_ok lru view"
  shows "\<exists>d out. rs_events lru es (RsFecDecoder_new cap) = Some (d, out) \<and> length (rd_ring d) \<le> max cap 16 \<and>
    length (rd_blocks d) \<le> 32 \<and> (\<forall>(q, pkt) \<in> set out. 12 \<le> length pkt)"
proof -
  have "\<exists>d' out. rs_events lru es d = Some (d', out) \<and> decoder_ok d' \<and> rd_cap d' = rd_cap d \<and> (\<forall>(q, pkt) \<in> set out. 12 \<le> length pkt)"
    if "decoder_ok d" for d
    using that
  proof (induction es arbitrary: d)
    case (Cons e es)
    show ?case
    proof (cases e)
      case (RsPacket q r)
      then show ?thesis using Cons.IH [OF on_packet_ok [OF Cons.prems], of q r] by (auto simp: RsFecDecoder_on_packet_def)
    next
      case RsReset
      have "decoder_ok (RsFecDecoder_reset d)" using Cons.prems by (simp add: decoder_ok_def RsFecDecoder_reset_def)
      from Cons.IH [OF this] show ?thesis by (auto simp: RsReset RsFecDecoder_reset_def)
    next
      case (RsParity body)
      obtain d' out where out: "RsFecDecoder_on_parity lru body d = Some (d', out)" "decoder_ok d'" "rd_cap d' = rd_cap d" "\<forall>(q, pkt) \<in> set out. 12 \<le> length pkt"
        by (rule on_parity_total [OF assms Cons.prems])
      obtain d'' out' where "rs_events lru es d' = Some (d'', out')" "decoder_ok d''" "rd_cap d'' = rd_cap d'" "\<forall>(q, pkt) \<in> set out'. 12 \<le> length pkt"
        using Cons.IH [OF out(2)] by blast
      then show ?thesis using out by (auto simp: RsParity)
    qed
  qed simp
  from this [of "RsFecDecoder_new cap"] show ?thesis
    by (force simp: decoder_ok_def RsFecDecoder_new_def)
qed

subsection \<open>Host to client\<close>

text \<open>A datagram a frame may contain, and the packets of one frame: one timestamp, the marker on the last one only.\<close>

definition rtp_ok :: "bytes \<Rightarrow> bool" where
  "rtp_ok p \<longleftrightarrow> 12 \<le> length p \<and> length p \<le> FEC_MAX_PACKET"

definition one_frame :: "bytes list \<Rightarrow> bool" where
  "one_frame ps \<longleftrightarrow> ps \<noteq> [] \<and> length ps \<le> RS_MAX_DATA \<and> list_all rtp_ok ps \<and>
     list_all (\<lambda>p. rtp_timestamp p = rtp_timestamp (hd ps)) ps \<and> list_all (\<lambda>p. \<not> rtp_marker p) (butlast ps) \<and> rtp_marker (last ps)"

fun rs_send :: "('c, u8) lru_lib \<Rightarrow> u16 \<Rightarrow> bytes list \<Rightarrow> rs_fec_encoder \<Rightarrow> bytes list list option" where
  "rs_send lru seq [] e = Some []"
| "rs_send lru seq (p # ps) e =
     Option.bind (RsFecEncoder_push lru seq p e) (\<lambda>(e, out). map_option ((#) out) (rs_send lru (seq + 1) ps e))"

fun rs_receive :: "('c, u8) lru_lib \<Rightarrow> bytes list \<Rightarrow> rs_fec_decoder \<Rightarrow> (u16 \<times> bytes) list list option" where
  "rs_receive lru [] d = Some []"
| "rs_receive lru (b # bs) d =
     Option.bind (RsFecDecoder_on_parity lru b d) (\<lambda>(d, out). map_option ((#) out) (rs_receive lru bs d))"

lemma max_len_pos: "ps \<noteq> [] \<Longrightarrow> list_all rtp_ok ps \<Longrightarrow> 12 \<le> max_len ps"
  using length_le_max_len [of "hd ps" ps] by (cases ps) (auto simp: rtp_ok_def)

lemma max_len_rtp: "list_all rtp_ok ps \<Longrightarrow> max_len ps \<le> FEC_MAX_PACKET"
  by (rule max_len_bound) (auto simp: rtp_ok_def list_all_iff)

lemma rs_m_bounds: "k \<le> RS_MAX_DATA \<Longrightarrow> 0 < rs_m k ratio \<and> k + rs_m k ratio \<le> 255"
proof -
  assume "k \<le> RS_MAX_DATA"
  then have k: "1 \<le> 255 - k" "k \<le> 200" by (simp_all add: RS_MAX_DATA_def)
  from clamp_bounds [OF this(1), of "nat \<lceil>f32_mul (f32_of k) ratio\<rceil>"] k show ?thesis
    unfolding rs_m_def by linarith
qed

text \<open>What the host computes for a frame: the data shards, the parity shards behind them, and the codec of both ends.\<close>

lemma frame_code:
  assumes "lru_ok lru view" "ps \<noteq> []" "length ps \<le> RS_MAX_DATA" "list_all rtp_ok ps" "0 < ratio"
  defines "L \<equiv> max_len ps + 2"
  obtains rs e full where "ReedSolomon_new galois_8 lru (length ps) (rs_m (length ps) ratio) = Inr rs" "codec_ok GF view e rs"
    "data_shard_count rs = length ps" "total_shard_count rs = length ps + rs_m (length ps) ratio"
    "codeword GF e (data_shard_count rs) (total_shard_count rs) L full"
    "take (length ps) full = map (\<lambda>p. rs_data_shard p L) ps"
    "rs_parity_frames lru base ps ratio =
       Some (map (\<lambda>j. rs_parity_frame base (length ps) (rs_m (length ps) ratio) L j (full ! (length ps + j))) [0..<rs_m (length ps) ratio])"
proof -
  let ?k = "length ps" and ?m = "rs_m (length ps) ratio"
  let ?sh = "map (\<lambda>p. rs_data_shard p L) ps"
  have k: "0 < ?k" and m: "0 < ?m" "?k + ?m \<le> 255" using assms(2) rs_m_bounds [OF assms(3)] by auto
  obtain rs e where rs: "ReedSolomon_new galois_8 lru ?k ?m = Inr rs" "codec_ok GF view e rs" "data_shard_count rs = ?k" "parity_shard_count rs = ?m"
    using g8.new_codec_ok [OF assms(1) k m(1)] m(2) by auto
  have t: "total_shard_count rs = ?k + ?m" using codec_okD(3) [OF rs(2)] rs by simp
  have len: "length p + 2 \<le> L" if "p \<in> set ps" for p using length_le_max_len [OF that] by (simp add: L_def)
  have "sized ?k L ?sh" using len by (auto simp: sized_def)
  moreover have "sized ?m L (replicate ?m (replicate L (0 :: u8)))" by (simp add: sized_def)
  ultimately have sz: "sized (total_shard_count rs) L (?sh @ replicate ?m (replicate L 0))" unfolding t by (rule sized_append)
  have L: "0 < L" by (simp add: L_def)
  obtain ys where ys: "encode galois_8 rs (?sh @ replicate ?m (replicate L 0)) = Inr (?sh @ ys)" "sized ?m L ys"
    "codeword GF e (data_shard_count rs) (total_shard_count rs) L (?sh @ ys)"
    using g8.encode_codeword [OF rs(2) sz L] rs(3,4) by auto
  have "map (\<lambda>(j, par). rs_parity_frame base ?k ?m L j par) (enumerate 0 ys) =
      map (\<lambda>j. rs_parity_frame base ?k ?m L j ((?sh @ ys) ! (?k + j))) [0..<?m]"
    using ys(2) by (intro nth_equalityI) (auto simp: sized_def nth_enumerate_eq nth_append)
  moreover have "12 \<le> max_len ps" "max_len ps \<le> FEC_MAX_PACKET" using max_len_pos max_len_rtp assms(2,4) by auto
  ultimately have "rs_parity_frames lru base ps ratio =
      Some (map (\<lambda>j. rs_parity_frame base ?k ?m L j ((?sh @ ys) ! (?k + j))) [0..<?m])"
    using assms(2,3,5) rs(1) ys(1) by (simp add: rs_parity_frames_def Let_def L_def)
  then show thesis using that [of rs e "?sh @ ys"] rs t ys(3) by simp
qed

lemma parse_rs_frame:
  assumes "0 < k" "k + m \<le> 255" "j < m" "2 \<le> L" "L < 65536" "length par = L"
  shows "parse (rs_parity_frame base k m L j par) = Some (TAG_FEC_RS, tl (rs_parity_frame base k m L j par))"
    "parse_rs_parity (tl (rs_parity_frame base k m L j par)) =
      Some \<lparr>rp_base_seq = base, rp_k = of_nat k, rp_m = of_nat m, rp_idx = of_nat j, rp_shard_len = of_nat L, rp_shard = par\<rparr>"
proof -
  have u: "unat (of_nat L :: u16) = L" "(of_nat k :: u8) \<noteq> 0" "(of_nat m :: u8) \<noteq> 0" "\<not> (of_nat m :: u8) \<le> of_nat j"
    using assms by (simp_all add: unat_of_nat word_of_nat_eq_0_iff word_le_nat_alt not_le unat_eq_0 flip: unat_eq_zero)
  show "parse (rs_parity_frame base k m L j par) = Some (TAG_FEC_RS, tl (rs_parity_frame base k m L j par))"
    by (simp add: parse_def rs_parity_frame_def to_be_bytes16_def)
  show "parse_rs_parity (tl (rs_parity_frame base k m L j par)) =
      Some \<lparr>rp_base_seq = base, rp_k = of_nat k, rp_m = of_nat m, rp_idx = of_nat j, rp_shard_len = of_nat L, rp_shard = par\<rparr>"
    using assms u by (simp add: parse_rs_parity_def rs_parity_frame_def to_be_bytes16_def RS_HDR_def Let_def)
qed

text \<open>A block that has collected part of its parity shards, as the last one of the decoder's list.\<close>

definition block_for :: "u16 \<Rightarrow> nat \<Rightarrow> nat \<Rightarrow> rs_block \<Rightarrow> bool" where
  "block_for base k m b \<longleftrightarrow> blk_base b = base \<and> blk_k b = of_nat k \<and> blk_m b = of_nat m"

definition collecting :: "u16 \<Rightarrow> nat \<Rightarrow> nat \<Rightarrow> nat \<Rightarrow> bytes option list \<Rightarrow> rs_fec_decoder \<Rightarrow> bool" where
  "collecting base k m L par d \<longleftrightarrow>
     list_all (\<lambda>b. \<not> block_for base k m b) (rd_blocks d) \<and> par = replicate m None \<or>
     (\<exists>bs b. rd_blocks d = bs @ [b] \<and> list_all (\<lambda>b. \<not> block_for base k m b) bs \<and> block_for base k m b \<and>
        blk_shard_len b = L \<and> blk_parity b = par)"

lemma find_append_None: "find p xs = None \<Longrightarrow> find p (xs @ ys) = find p ys"
  by (induction xs) (auto split: if_splits)

lemma open_collecting:
  assumes "collecting base k m L par d" "m \<le> 255" "L < 65536" "length par = m"
    and p: "rp_base_seq p = base" "rp_k p = of_nat k" "rp_m p = of_nat m" "rp_shard_len p = of_nat L"
  obtains bs b d' where "open_block p d = (length bs, d')" "rd_blocks d' = bs @ [b]" "list_all (\<lambda>b. \<not> block_for base k m b) bs"
    "block_for base k m b" "blk_shard_len b = L" "blk_parity b = par" "rd_ring d' = rd_ring d" "rd_cap d' = rd_cap d"
proof -
  have same: "same_block p b \<longleftrightarrow> block_for base k m b" for b using p by (simp add: same_block_def block_for_def)
  from assms(1) show thesis unfolding collecting_def
  proof (elim disjE conjE exE)
    assume none: "list_all (\<lambda>b. \<not> block_for base k m b) (rd_blocks d)" and par: "par = replicate m None"
    let ?d = "d\<lparr>rd_tick := rd_tick d + 1, rd_last_ratio := f32_div (f32_of (unat (rp_m p))) (f32_of (unat (rp_k p)))\<rparr>"
    let ?nb = "\<lparr>blk_base = base, blk_k = of_nat k, blk_m = of_nat m, blk_shard_len = L, blk_parity = par, blk_age = rd_tick d + 1\<rparr>"
    let ?bs = "if length (rd_blocks d) \<ge> 32 then tl (rd_blocks d) else rd_blocks d"
    have "find (\<lambda>i. same_block p (rd_blocks d ! i)) [0..<length (rd_blocks d)] = None"
      using none by (auto simp: find_None_iff same list_all_length)
    moreover have "list_all (\<lambda>b. \<not> block_for base k m b) ?bs" using none by (cases "rd_blocks d") auto
    moreover have "unat (of_nat L :: u16) = L" "unat (of_nat m :: u8) = m" using assms(2,3) by (simp_all add: unat_of_nat)
    ultimately show thesis using p par
      by (intro that [of ?bs "?d\<lparr>rd_blocks := ?bs @ [?nb]\<rparr>" ?nb]) (simp_all add: open_block_def block_position_def Let_def block_for_def)
  next
    fix bs b assume d: "rd_blocks d = bs @ [b]" and none: "list_all (\<lambda>b. \<not> block_for base k m b) bs"
      and b: "block_for base k m b" "blk_shard_len b = L" "blk_parity b = par"
    have "find (\<lambda>i. same_block p ((bs @ [b]) ! i)) [0..<length (bs @ [b])] = Some (length bs)"
    proof -
      have "find (\<lambda>i. same_block p ((bs @ [b]) ! i)) [0..<length bs] = None"
        using none by (auto simp: find_None_iff same list_all_length nth_append)
      then show ?thesis using b(1) by (simp add: find_append_None same)
    qed
    let ?d = "d\<lparr>rd_tick := rd_tick d + 1, rd_last_ratio := f32_div (f32_of (unat (rp_m p))) (f32_of (unat (rp_k p))), rd_blocks := bs @ [b]\<rparr>"
    show thesis using \<open>find _ _ = _\<close> d none b by (intro that [of bs ?d b]) (simp_all add: open_block_def block_position_def Let_def)
  qed
qed

lemma fold_rebuilt:
  assumes "\<And>i. i \<in> set is \<Longrightarrow> shards ! i = Some (rs_data_shard (ps ! i) L) \<and> rtp_ok (ps ! i) \<and> length (ps ! i) + 2 \<le> L"
  shows "snd (foldl (take_rebuilt base L shards) (d, out) is) = out @ map (\<lambda>i. (base + of_nat i, ps ! i)) is"
  using assms
proof (induction "is" arbitrary: d out)
  case (Cons i "is")
  let ?s = "rs_data_shard (ps ! i) L"
  have i: "shards ! i = Some ?s" "rtp_ok (ps ! i)" "length (ps ! i) + 2 \<le> L" using Cons.prems by auto
  have "unat (from_be_bytes16 (?s ! 0) (?s ! 1)) = length (ps ! i)"
    using i(2) by (simp add: rs_data_shard_def to_be_bytes16_def unat_of_nat rtp_ok_def FEC_MAX_PACKET_def)
  moreover have "take (length (ps ! i)) (drop 2 ?s) = ps ! i" by (simp add: rs_data_shard_def to_be_bytes16_def)
  ultimately have "take_rebuilt base L shards (d, out) i =
      (RsFecDecoder_on_packet (base + of_nat i) (ps ! i) d, out @ [(base + of_nat i, ps ! i)])"
    using i by (simp add: take_rebuilt_def Let_def rtp_ok_def)
  then show ?case using Cons.IH Cons.prems by simp
qed simp

text \<open>A parity shard of a frame reaches its block, which then holds one shard more.\<close>

lemma keep_update: "j < length xs \<Longrightarrow> (keep q xs)[j := Some (xs ! j)] = keep (q(j := True)) xs"
  by (rule nth_equalityI) (auto simp: nth_list_update)

lemma on_parity_collects:
  assumes col: "collecting base k m L (keep q P) d" and sz: "0 < k" "k + m \<le> 255" "2 \<le> L" "L < 65536" "sized m L P" and j: "j < m"
  obtains bs b d' where
    "RsFecDecoder_on_parity lru (tl (rs_parity_frame base k m L j (P ! j))) d = rebuild_block lru (length bs) d'"
    "rd_blocks d' = bs @ [b]" "list_all (\<lambda>b. \<not> block_for base k m b) bs" "block_for base k m b" "blk_shard_len b = L"
    "blk_parity b = keep (q(j := True)) P" "rd_ring d' = rd_ring d"
proof -
  let ?p = "\<lparr>rp_base_seq = base, rp_k = of_nat k, rp_m = of_nat m, rp_idx = of_nat j, rp_shard_len = of_nat L, rp_shard = P ! j\<rparr>"
  have P: "length P = m" "length (P ! j) = L" using sz(5) j by (auto simp: sized_def)
  have parse: "parse_rs_parity (tl (rs_parity_frame base k m L j (P ! j))) = Some ?p"
    by (rule parse_rs_frame(2)) (use sz j P in auto)
  obtain bs b d2 where d2: "open_block ?p d = (length bs, d2)" "rd_blocks d2 = bs @ [b]" "list_all (\<lambda>b. \<not> block_for base k m b) bs"
    "block_for base k m b" "blk_shard_len b = L" "blk_parity b = keep q P" "rd_ring d2 = rd_ring d"
    by (rule open_collecting [OF col, of ?p]) (use sz P in auto)
  have u: "unat (of_nat L :: u16) = L" "unat (of_nat j :: u8) = j" using sz j by (simp_all add: unat_of_nat)
  let ?b = "store_parity ?p (rd_tick d2) b"
  show thesis
    by (rule that [of bs "d2\<lparr>rd_blocks := bs @ [?b]\<rparr>" ?b])
      (use d2 P j u in \<open>simp_all add: RsFecDecoder_on_parity_def parse store_parity_def block_for_def keep_update\<close>)
qed

text \<open>What the client holds of a frame: the data packets that came in, by the ring.\<close>

definition ring_holds :: "u16 \<Rightarrow> bytes list \<Rightarrow> (nat \<Rightarrow> bool) \<Rightarrow> rs_fec_decoder \<Rightarrow> bool" where
  "ring_holds base ps lost d \<longleftrightarrow>
     list_all (\<lambda>i. RsFecDecoder_find (base + of_nat i) d = (if lost i then None else Some (ps ! i))) [0..<length ps]"

lemma ring_holds_cong: "rd_ring d = rd_ring d' \<Longrightarrow> ring_holds base ps lost d = ring_holds base ps lost d'"
  by (simp add: ring_holds_def RsFecDecoder_find_def)

lemma data_shards_held:
  assumes "ring_holds base ps lost d" "\<And>p. p \<in> set ps \<Longrightarrow> length p + 2 \<le> L"
  shows "data_shards base (length ps) L d = keep (\<lambda>i. \<not> lost i) (map (\<lambda>p. rs_data_shard p L) ps)"
  by (rule nth_equalityI) (use assms in \<open>auto simp: data_shards_def ring_holds_def list_all_length\<close>)

lemma keep_append: "keep p xs @ keep q ys = keep (\<lambda>i. if i < length xs then p i else q (i - length xs)) (xs @ ys)"
  by (rule nth_equalityI) (auto simp: nth_append)

lemma count_keep_append:
  "length (filter (\<lambda>i. if i < k then p i else q (i - k)) [0..<k + m]) = length (filter p [0..<k]) + length (filter q [0..<m])"
proof -
  have "filter (\<lambda>i. if i < k then p i else q (i - k)) [0..<k] = filter p [0..<k]" by (rule filter_cong) auto
  moreover have "[k..<k + m] = map (\<lambda>i. i + k) [0..<m]" by (simp add: map_add_upt add.commute)
  then have "length (filter (\<lambda>i. if i < k then p i else q (i - k)) [k..<k + m]) = length (filter q [0..<m])"
    by (simp add: filter_map comp_def)
  ultimately show ?thesis by (simp add: upt_add_eq_append [of 0 k m])
qed

lemma filter_keep_missing: "filter (\<lambda>i. keep (\<lambda>i. \<not> lost i) xs ! i = None) [0..<length xs] = filter lost [0..<length xs]"
  by (rule filter_cong) auto

text \<open>The block of a frame is left alone while parity shards are missing, and rebuilt as soon as there are enough.\<close>

lemma rebuild_waits:
  assumes "rd_blocks d = bs @ [b]" "block_for base (length ps) m b" "blk_shard_len b = L" "blk_parity b = keep q P"
    and "length ps \<le> 255" "ring_holds base ps lost d" "\<And>p. p \<in> set ps \<Longrightarrow> length p + 2 \<le> L"
    and "length (filter q [0..<length P]) < length (filter lost [0..<length ps])"
  shows "rebuild_block lru (length bs) d = Some (d, [])"
proof -
  have u: "unat (of_nat (length ps) :: u8) = length ps" using assms(5) by (simp add: unat_of_nat)
  have "length (filter (\<lambda>s. s \<noteq> None) (keep q P)) = length (filter q [0..<length P])"
    using length_present [of "keep q P"] by (simp add: keep_rows)
  moreover have "filter lost [0..<length ps] \<noteq> []" using assms(8) by (metis less_nat_zero_code list.size(3))
  ultimately show ?thesis using assms(1-4,8) data_shards_held [OF assms(6,7)] filter_keep_missing [of lost "map (\<lambda>p. rs_data_shard p L) ps"]
    by (simp add: rebuild_block_def block_for_def Let_def u)
qed

lemma rebuild_frame:
  assumes lru: "lru_ok lru view" and blk: "rd_blocks d = bs @ [b]" "block_for base (length ps) m b" "blk_shard_len b = L"
      "blk_parity b = keep q (drop (length ps) full)"
    and sz: "0 < length ps" "length ps + m \<le> 255" "list_all rtp_ok ps" "\<And>p. p \<in> set ps \<Longrightarrow> length p + 2 \<le> L" "0 < L"
    and rs: "ReedSolomon_new galois_8 lru (length ps) m = Inr rs" "codec_ok GF view e rs" "data_shard_count rs = length ps"
      "total_shard_count rs = length ps + m" "codeword GF e (data_shard_count rs) (total_shard_count rs) L full"
      "take (length ps) full = map (\<lambda>p. rs_data_shard p L) ps"
    and held: "ring_holds base ps lost d"
    and cnt: "length (filter q [0..<m]) = length (filter lost [0..<length ps])" "filter lost [0..<length ps] \<noteq> []"
  obtains d' where "rebuild_block lru (length bs) d = Some (d', map (\<lambda>i. (base + of_nat i, ps ! i)) (filter lost [0..<length ps]))"
proof -
  let ?k = "length ps" and ?sh = "map (\<lambda>p. rs_data_shard p L) ps" and ?mis = "filter lost [0..<length ps]"
  define pr where "pr = (\<lambda>i. if i < length ps then \<not> lost i else q (i - length ps))"
  have len: "length full = ?k + m" using rs(4,5) by (simp add: codeword_def sized_def)
  have u: "unat (of_nat ?k :: u8) = ?k" "unat (of_nat m :: u8) = m" using sz(2) by (simp_all add: unat_of_nat)
  have all: "keep (\<lambda>i. \<not> lost i) ?sh @ keep q (drop ?k full) = keep pr full"
    unfolding rs(6) [symmetric] pr_def using len by (subst keep_append) simp
  have "length (filter (\<lambda>i. \<not> lost i) [0..<?k]) + length ?mis = ?k"
    using sum_length_filter_compl [of lost "[0..<?k]"] by simp
  then have "data_shard_count rs \<le> length (filter pr [0..<total_shard_count rs])"
    using cnt(1) count_keep_append [of ?k "\<lambda>i. \<not> lost i" q m] by (simp only: rs(3,4) pr_def)
  from g8.reconstruct_keep [OF lru rs(2,5) sz(5) this, of True] obtain rs' where
    "reconstruct_internal galois_8 lru True (keep pr full) rs = (Inr (keep (\<lambda>i. pr i \<or> i < data_shard_count rs \<or> \<not> True) full), rs')" .
  then obtain out where rec: "fst (reconstruct_data galois_8 lru (keep pr full) rs) = Inr out" and out: "\<And>i. i < ?k \<Longrightarrow> out ! i = Some (full ! i)"
    using len by (simp add: reconstruct_data_def rs(3))
  have "snd (foldl (take_rebuilt base L out) (d, []) ?mis) = [] @ map (\<lambda>i. (base + of_nat i, ps ! i)) ?mis"
  proof (rule fold_rebuilt)
    fix i assume "i \<in> set ?mis"
    then have i: "i < ?k" by simp
    have "full ! i = take ?k full ! i" using i by simp
    also have "\<dots> = rs_data_shard (ps ! i) L" unfolding rs(6) using i by simp
    finally show "out ! i = Some (rs_data_shard (ps ! i) L) \<and> rtp_ok (ps ! i) \<and> length (ps ! i) + 2 \<le> L"
      using i out sz(3,4) by (simp add: list_all_length)
  qed
  then obtain d4 where "foldl (take_rebuilt base L out) (d, []) ?mis = (d4, map (\<lambda>i. (base + of_nat i, ps ! i)) ?mis)"
    by (cases "foldl (take_rebuilt base L out) (d, []) ?mis") simp
  moreover have "length (filter (\<lambda>s. s \<noteq> None) (keep q (drop ?k full))) = length ?mis"
    using length_present [of "keep q (drop ?k full)"] cnt(1) len by (simp add: keep_rows)
  moreover have "data_shards base ?k L d = keep (\<lambda>i. \<not> lost i) ?sh" by (rule data_shards_held [OF held sz(4)])
  moreover have "filter (\<lambda>i. keep (\<lambda>i. \<not> lost i) ?sh ! i = None) [0..<?k] = ?mis" using filter_keep_missing [of lost ?sh] by simp
  ultimately have "rebuild_block lru (length bs) d = Some (remove_block (length bs) d4, map (\<lambda>i. (base + of_nat i, ps ! i)) ?mis)"
    using blk cnt(2) rec rs(1) all unfolding rebuild_block_def block_for_def Let_def by (simp add: u del: filter_empty_conv)
  then show thesis by (rule that)
qed

text \<open>A whole run of distinct parity shards, as many as there are losses.\<close>

lemma count_update: "j < m \<Longrightarrow> \<not> q j \<Longrightarrow> length (filter (q(j := True)) [0..<m]) = Suc (length (filter q [0..<m]))"
proof -
  assume j: "j < m" "\<not> q j"
  have c: "length (filter r [0..<m]) = card {i. i < m \<and> r i}" for r
    using length_filter_conv_card [of r "[0..<m]"] by (simp cong: conj_cong)
  have "{i. i < m \<and> (q(j := True)) i} = insert j {i. i < m \<and> q i}" using j by auto
  then show ?thesis unfolding c using j by simp
qed

lemma receive_frame:
  assumes lru: "lru_ok lru view"
    and sz: "0 < length ps" "length ps + m \<le> 255" "list_all rtp_ok ps" "\<And>p. p \<in> set ps \<Longrightarrow> length p + 2 \<le> L" "2 \<le> L" "L < 65536"
    and rs: "ReedSolomon_new galois_8 lru (length ps) m = Inr rs" "codec_ok GF view e rs" "data_shard_count rs = length ps"
      "total_shard_count rs = length ps + m" "codeword GF e (data_shard_count rs) (total_shard_count rs) L full"
      "take (length ps) full = map (\<lambda>p. rs_data_shard p L) ps"
    and "ring_holds base ps lost d" "collecting base (length ps) m L (keep q (drop (length ps) full)) d"
    and "distinct js" "list_all (\<lambda>j. j < m \<and> \<not> q j) js" "js \<noteq> []"
    and "length (filter q [0..<m]) + length js = length (filter lost [0..<length ps])"
  shows "rs_receive lru (map (\<lambda>j. tl (rs_parity_frame base (length ps) m L j (drop (length ps) full ! j))) js) d =
    Some (replicate (length js - 1) [] @ [map (\<lambda>i. (base + of_nat i, ps ! i)) (filter lost [0..<length ps])])"
  using assms(14-)
proof (induction js arbitrary: q d)
  case (Cons j js)
  let ?k = "length ps" and ?P = "drop (length ps) full" and ?q = "q(j := True)"
  have j: "j < m" "\<not> q j" "j \<notin> set js" using Cons.prems by auto
  have P: "sized m L ?P" using rs(4,5) in_set_dropD by (fastforce simp: codeword_def sized_def)
  then have lP: "length ?P = m" by (simp add: sized_def)
  obtain bs b d2 where d2: "RsFecDecoder_on_parity lru (tl (rs_parity_frame base ?k m L j (?P ! j))) d = rebuild_block lru (length bs) d2"
    "rd_blocks d2 = bs @ [b]" "list_all (\<lambda>b. \<not> block_for base ?k m b) bs" "block_for base ?k m b" "blk_shard_len b = L"
    "blk_parity b = keep ?q ?P" "rd_ring d2 = rd_ring d"
    by (rule on_parity_collects [OF Cons.prems(2) sz(1,2,5,6) P j(1)])
  have held: "ring_holds base ps lost d2" using Cons.prems(1) ring_holds_cong [OF d2(7)] by simp
  have cnt: "length (filter ?q [0..<m]) + length js = length (filter lost [0..<?k])"
    using Cons.prems(6) count_update [of j m q] j by simp
  show ?case
  proof (cases "js = []")
    case True
    then have fin: "length (filter ?q [0..<m]) = length (filter lost [0..<?k])" "filter lost [0..<?k] \<noteq> []"
      using cnt count_update [of j m q] j by auto
    obtain d' where "rebuild_block lru (length bs) d2 = Some (d', map (\<lambda>i. (base + of_nat i, ps ! i)) (filter lost [0..<?k]))"
      by (rule rebuild_frame [OF lru d2(2,4,5,6) sz(1-4) _ rs held fin]) (use sz in auto)
    then show ?thesis using d2(1) True by simp
  next
    case False
    have "rebuild_block lru (length bs) d2 = Some (d2, [])"
      by (rule rebuild_waits [OF d2(2,4,5,6) _ held sz(4)]) (use sz cnt lP False in \<open>auto simp flip: length_greater_0_conv\<close>)
    moreover have "rs_receive lru (map (\<lambda>j. tl (rs_parity_frame base ?k m L j (?P ! j))) js) d2 =
        Some (replicate (length js - 1) [] @ [map (\<lambda>i. (base + of_nat i, ps ! i)) (filter lost [0..<?k])])"
    proof (rule Cons.IH [OF held, of ?q])
      show "collecting base ?k m L (keep ?q ?P) d2" using d2 unfolding collecting_def by blast
      show "list_all (\<lambda>j. j < m \<and> \<not> ?q j) js" using Cons.prems(4) j(3) by (auto simp: list_all_iff)
      show "length (filter ?q [0..<m]) + length js = length (filter lost [0..<?k])" by (rule cnt)
    qed (use Cons.prems False in auto)
    ultimately show ?thesis using d2(1) False by (cases js) simp_all
  qed
qed simp

text \<open>The host collects the packets of a frame and flushes them at the marker.\<close>

lemma push_middle:
  assumes "0 < re_ratio e" "rtp_ok p" "\<not> rtp_marker p" "re_group e = [] \<or> re_next e \<noteq> Some seq \<or> re_cur_ts e = Some (rtp_timestamp p)"
  defines "g \<equiv> if re_next e = Some seq then re_group e else []"
  shows "RsFecEncoder_push lru seq p e =
    Some (e\<lparr>re_group := g @ [p], re_base := (if g = [] then seq else re_base e), re_next := Some (seq + 1), re_cur_ts := Some (rtp_timestamp p)\<rparr>, [])"
  using assms(1-4) by (auto simp: RsFecEncoder_push_def Let_def g_def rtp_ok_def)

lemma push_last:
  assumes "0 < re_ratio e" "rtp_ok p" "rtp_marker p" "re_group e = [] \<or> re_next e \<noteq> Some seq \<or> re_cur_ts e = Some (rtp_timestamp p)"
  defines "g \<equiv> if re_next e = Some seq then re_group e else []"
  assumes "length g < RS_MAX_DATA" "rs_parity_frames lru (if g = [] then seq else re_base e) (g @ [p]) (re_ratio e) = Some fs"
  shows "\<exists>e'. RsFecEncoder_push lru seq p e = Some (e', fs)"
proof -
  let ?b = "if g = [] then seq else re_base e"
  have "flush_chunks lru (re_ratio e) ?b (g @ [p]) = Some fs"
    using assms(6,7) by (simp add: flush_chunks.simps [of _ _ _ "g @ [p]"] flush_chunks.simps [of _ _ _ "[]"] Let_def)
  then show ?thesis using assms(1-4) by (auto simp: RsFecEncoder_push_def RsFecEncoder_flush_def Let_def g_def rtp_ok_def)
qed

lemma send_frame:
  assumes "list_all rtp_ok ps" "ps \<noteq> []" "list_all (\<lambda>p. rtp_timestamp p = ts) ps" "list_all (\<lambda>p. \<not> rtp_marker p) (butlast ps)" "rtp_marker (last ps)"
    and "0 < re_ratio e" "re_group e \<noteq> [] \<and> re_next e = Some seq \<longrightarrow> re_cur_ts e = Some ts"
  defines "g \<equiv> if re_next e = Some seq then re_group e else []"
  assumes "length g + length ps \<le> RS_MAX_DATA" "rs_parity_frames lru (if g = [] then seq else re_base e) (g @ ps) (re_ratio e) = Some fs"
  shows "rs_send lru seq ps e = Some (replicate (length ps - 1) [] @ [fs])"
  using assms(1-7,9,10) unfolding g_def
proof (induction ps arbitrary: seq e)
  case (Cons p ps)
  have ts: "re_group e = [] \<or> re_next e \<noteq> Some seq \<or> re_cur_ts e = Some (rtp_timestamp p)" using Cons.prems(3,7) by auto
  show ?case
  proof (cases "ps = []")
    case True
    then obtain e' where "RsFecEncoder_push lru seq p e = Some (e', fs)"
      using push_last [OF Cons.prems(6) _ _ ts] Cons.prems by auto
    then show ?thesis using True by simp
  next
    case False
    let ?g = "if re_next e = Some seq then re_group e else []"
    let ?e = "e\<lparr>re_group := ?g @ [p], re_base := (if ?g = [] then seq else re_base e), re_next := Some (seq + 1), re_cur_ts := Some (rtp_timestamp p)\<rparr>"
    have "RsFecEncoder_push lru seq p e = Some (?e, [])"
      using Cons.prems False by (intro push_middle ts) auto
    moreover have "rs_send lru (seq + 1) ps ?e = Some (replicate (length ps - 1) [] @ [fs])"
      using Cons.prems False by (intro Cons.IH) auto
    ultimately show ?thesis using False by (cases ps) simp_all
  qed
qed simp

text \<open>
  C6: Reed-Solomon protection works end to end. When the host pushes the packets of one frame, the last push
  returns the parity datagrams of the frame and every earlier push none. A client whose ring holds the packets that were not lost, and
  which has no open block of the frame yet, gets nothing out of the first parity datagrams, and with the one that
  makes them as many as the losses, whichever they are and in whichever order they come, exactly the
  lost packets with their sequence numbers, byte for byte.
\<close>

theorem rs_fec_end_to_end:
  assumes "lru_ok lru view" "one_frame ps" "0 < re_ratio e" "re_next e \<noteq> Some base \<or> re_group e = []"
    and "ring_holds base ps lost d" "list_all (\<lambda>b. \<not> block_for base (length ps) (rs_m (length ps) (re_ratio e)) b) (rd_blocks d)"
    and "distinct js" "list_all (\<lambda>j. j < rs_m (length ps) (re_ratio e)) js" "js \<noteq> []"
    and "length js = length (filter lost [0..<length ps])"
  shows "\<exists>frames. rs_send lru base ps e = Some (replicate (length ps - 1) [] @ [frames]) \<and>
    length frames = rs_m (length ps) (re_ratio e) \<and> list_all (\<lambda>f. parse f = Some (TAG_FEC_RS, tl f)) frames \<and>
    rs_receive lru (map (\<lambda>j. tl (frames ! j)) js) d =
      Some (replicate (length js - 1) [] @ [map (\<lambda>i. (base + of_nat i, ps ! i)) (filter lost [0..<length ps])])"
proof -
  let ?k = "length ps" and ?m = "rs_m (length ps) (re_ratio e)" and ?L = "max_len ps + 2"
  have ps: "ps \<noteq> []" "?k \<le> RS_MAX_DATA" "list_all rtp_ok ps" using assms(2) by (auto simp: one_frame_def)
  have m: "0 < ?m" "?k + ?m \<le> 255" using rs_m_bounds [OF ps(2)] by auto
  have L: "2 \<le> ?L" "?L < 65536" "length p + 2 \<le> ?L" if "p \<in> set ps" for p
    using max_len_rtp [OF ps(3)] length_le_max_len [OF that] by (auto simp: FEC_MAX_PACKET_def)
  have L: "2 \<le> ?L" "?L < 65536" "\<And>p. p \<in> set ps \<Longrightarrow> length p + 2 \<le> ?L" using L [of "hd ps"] L(3) ps(1) by auto
  obtain rs a full where rs: "ReedSolomon_new galois_8 lru ?k ?m = Inr rs" "codec_ok GF view a rs"
    "data_shard_count rs = ?k" "total_shard_count rs = ?k + ?m"
    "codeword GF a (data_shard_count rs) (total_shard_count rs) ?L full"
    "take ?k full = map (\<lambda>p. rs_data_shard p ?L) ps"
    and fr: "rs_parity_frames lru base ps (re_ratio e) = Some (map (\<lambda>j. rs_parity_frame base ?k ?m ?L j (full ! (?k + j))) [0..<?m])"
    by (rule frame_code [OF assms(1) ps assms(3), of base])
  let ?fs = "map (\<lambda>j. rs_parity_frame base ?k ?m ?L j (full ! (?k + j))) [0..<?m]"
  have len: "length full = ?k + ?m" "\<And>j. j < ?m \<Longrightarrow> length (full ! (?k + j)) = ?L"
    using rs(4,5) by (auto simp: codeword_def sized_def)
  have "rs_send lru base ps e = Some (replicate (?k - 1) [] @ [?fs])"
    by (rule send_frame [of ps "rtp_timestamp (hd ps)"]) (use assms(2-4) fr in \<open>auto simp: one_frame_def\<close>)
  moreover have "list_all (\<lambda>f. parse f = Some (TAG_FEC_RS, tl f)) ?fs"
    using parse_rs_frame(1) [of ?k ?m _ ?L] m ps(1) L len(2) by (auto simp: list_all_iff)
  moreover have "rs_receive lru (map (\<lambda>j. tl (rs_parity_frame base ?k ?m ?L j (drop ?k full ! j))) js) d =
      Some (replicate (length js - 1) [] @ [map (\<lambda>i. (base + of_nat i, ps ! i)) (filter lost [0..<?k])])"
  proof (rule receive_frame [OF assms(1) _ m(2) ps(3) L(3) L(1,2) rs assms(5), of "\<lambda>_. False"])
    have "keep (\<lambda>_. False) (drop ?k full) = replicate ?m None" using len(1) by (intro nth_equalityI) auto
    then show "collecting base ?k ?m ?L (keep (\<lambda>_. False) (drop ?k full)) d" using assms(6) by (simp add: collecting_def)
  qed (use assms(7-10) ps(1) in auto)
  moreover have "map (\<lambda>j. tl (?fs ! j)) js = map (\<lambda>j. tl (rs_parity_frame base ?k ?m ?L j (drop ?k full ! j))) js"
    using assms(8) len(1) by (auto simp: list_all_iff)
  moreover have "length ?fs = ?m" by simp
  ultimately show ?thesis by (intro exI [of _ ?fs] conjI) (assumption | simp only:)+
qed

text \<open>Two packets of one frame, the second of which is lost.\<close>

definition frame_example :: "bytes list" where
  "frame_example = [[0x80, 0x60, 0, 7, 0, 0, 0, 9, 1, 1, 1, 1, 42], [0x80, 0xE0, 0, 8, 0, 0, 0, 9, 1, 1, 1, 1, 43, 44]]"

theorem rs_fec_end_to_end_witness:
  "\<exists>frames. rs_send list_lru 7 frame_example (RsFecEncoder_new (1 / 2)) = Some [[], frames] \<and>
    rs_receive list_lru [tl (frames ! 0)] (RsFecDecoder_on_packet 7 (frame_example ! 0) (RsFecDecoder_new 64)) = Some [[(8, frame_example ! 1)]]"
proof -
  have "\<exists>frames. rs_send list_lru 7 frame_example (RsFecEncoder_new (1 / 2)) = Some (replicate (length frame_example - 1) [] @ [frames]) \<and>
    length frames = rs_m (length frame_example) (re_ratio (RsFecEncoder_new (1 / 2))) \<and> list_all (\<lambda>f. parse f = Some (TAG_FEC_RS, tl f)) frames \<and>
    rs_receive list_lru (map (\<lambda>j. tl (frames ! j)) [0]) (RsFecDecoder_on_packet 7 (frame_example ! 0) (RsFecDecoder_new 64)) =
      Some (replicate (length [0 :: nat] - 1) [] @ [map (\<lambda>i. (7 + of_nat i, frame_example ! i)) (filter (\<lambda>i. i = 1) [0..<length frame_example])])"
    by (rule rs_fec_end_to_end [OF list_lru_ok, of frame_example "RsFecEncoder_new (1 / 2)" 7 "\<lambda>i. i = 1" "RsFecDecoder_on_packet 7 (frame_example ! 0) (RsFecDecoder_new 64)" "[0]"])
      (simp_all add: one_frame_def frame_example_def rtp_ok_def FEC_MAX_PACKET_def RS_MAX_DATA_def rtp_timestamp_def rtp_marker_def
         ring_holds_def RsFecDecoder_find_def RsFecDecoder_on_packet_def RsFecDecoder_new_def RsFecEncoder_new_def rs_m_bounds upt_rec)
  then show ?thesis by (auto simp: frame_example_def upt_rec)
qed

theorem rs_decoder_robust_witness:
  "\<exists>d out. rs_events list_lru [RsParity [], RsParity [0, 7, 200, 100, 3, 0, 2, 1, 1], RsPacket 7 [], RsReset] (RsFecDecoder_new 0) = Some (d, out) \<and>
    length (rd_ring d) \<le> 16 \<and> length (rd_blocks d) \<le> 32 \<and> (\<forall>(q, pkt) \<in> set out. 12 \<le> length pkt)"
  using rs_decoder_robust [OF list_lru_ok, of "[RsParity [], RsParity [0, 7, 200, 100, 3, 0, 2, 1, 1], RsPacket 7 [], RsReset]" 0] by simp


end
