(* ===== verification/Pulsar_Galois16.thy ===== *)
theory Pulsar_Galois16
  imports Pulsar_Reed_Solomon
begin

text \<open>
  The field of 65536 elements of \<^verbatim>\<open>galois_16.rs\<close>: pairs of bytes as linear polynomials over the byte field
  modulo \<open>x\<^sup>2 + 2x + 128\<close>, with division by the extended Euclidean algorithm. It satisfies the
  contract \<open>field_impl\<close>, so that everything proved of the codec holds over it. \<open>None\<close> stands for a panic.
\<close>

subsection \<open>Elements\<close>

type_synonym elem = "u8 \<times> u8"

definition EXT_POLY :: "u8 \<times> u8 \<times> u8" where "EXT_POLY = (1, 2, 128)"

definition el_zero :: elem where "el_zero = (0, 0)"

definition el_constant :: "u8 \<Rightarrow> elem" where "el_constant n = (0, n)"

definition is_zero :: "elem \<Rightarrow> bool" where "is_zero a \<longleftrightarrow> a = (0, 0)"

definition el_degree :: "elem \<Rightarrow> nat" where "el_degree a = (if fst a \<noteq> 0 then 1 else 0)"

definition el_add :: "elem \<Rightarrow> elem \<Rightarrow> elem" where
  "el_add a b = (fst a XOR fst b, snd a XOR snd b)"

definition reduce_from :: "u8 \<times> u8 \<times> u8 \<Rightarrow> elem" where
  "reduce_from = (\<lambda>(x0, x1, x2).
     if x0 \<noteq> 0 then (x1 XOR gf_mul 2 x0, x2 XOR gf_mul 128 x0) else (x1, x2))"

definition el_mul :: "elem \<Rightarrow> elem \<Rightarrow> elem" where
  "el_mul a b = reduce_from (gf_mul (fst a) (fst b), gf_add (gf_mul (snd a) (fst b)) (gf_mul (fst a) (snd b)), gf_mul (snd a) (snd b))"

definition el_scale :: "elem \<Rightarrow> u8 \<Rightarrow> elem" where
  "el_scale a r = (gf_mul r (fst a), gf_mul r (snd a))"

definition el_exp :: "elem \<Rightarrow> nat \<Rightarrow> elem" where
  "el_exp a n =
     (if n = 0 then el_constant 1 else if a = el_zero then el_zero
      else foldl (\<lambda>s _. el_mul s a) a [1..<n])"

subsection \<open>Division\<close>

definition div_ext_by :: "elem \<Rightarrow> (elem \<times> elem) option" where
  "div_ext_by rhs =
     (if el_degree rhs = 0 then Some (el_zero, el_zero)
      else Option.bind (gf_div 1 (fst rhs)) (\<lambda>inv1.
        let monic = el_scale rhs inv1;
            p0 = fst EXT_POLY; p1 = fst (snd EXT_POLY); p2 = snd (snd EXT_POLY);
            p1 = (if snd rhs \<noteq> 0 then p1 XOR gf_mul (snd monic) p0 else p1);
            p2 = (if snd rhs \<noteq> 0 then p2 XOR gf_mul (snd monic) p1 else p2)
        in Some (el_scale (p0, p1) inv1, el_constant p2)))"

definition polynom_div :: "elem \<Rightarrow> elem \<Rightarrow> (elem \<times> elem) option" where
  "polynom_div a rhs =
     (if is_zero rhs then None
      else if el_degree a < el_degree rhs then Some (el_zero, a)
      else if el_degree rhs = 0
      then map_option (\<lambda>invert1. ((gf_mul invert1 (fst a), gf_mul invert1 (snd a)), el_zero)) (gf_div 1 (snd rhs))
      else map_option (\<lambda>inv1.
             let monic = (gf_mul inv1 (fst rhs), gf_mul inv1 (snd rhs));
                 remainder = (if snd monic \<noteq> 0 then snd a XOR gf_mul (snd monic) (fst a) else snd a)
             in (el_constant (gf_mul inv1 (fst a)), el_constant remainder)) (gf_div 1 (fst rhs)))"

datatype egcd_rhs = RhsElement elem | RhsExtPoly

definition egcd_div :: "elem \<Rightarrow> egcd_rhs \<Rightarrow> (elem \<times> elem) option" where
  "egcd_div a rhs = (case rhs of RhsElement r \<Rightarrow> polynom_div r a | RhsExtPoly \<Rightarrow> div_ext_by a)"

definition el_size :: "elem \<Rightarrow> nat" where
  "el_size a = (if is_zero a then 0 else Suc (el_degree a))"

lemma egcd_div_smaller: "egcd_div a rhs = Some (q, r) \<Longrightarrow> \<not> is_zero a \<Longrightarrow> el_size r < el_size a"
  by (cases rhs)
    (auto simp: egcd_div_def polynom_div_def div_ext_by_def el_size_def is_zero_def el_degree_def el_zero_def el_constant_def Let_def
      bind_eq_Some_conv split: if_splits)

function const_egcd :: "elem \<Rightarrow> egcd_rhs \<Rightarrow> (u8 \<times> elem \<times> elem) option" where
  "const_egcd a rhs =
     (if is_zero a
      then (case rhs of RhsElement r \<Rightarrow> Some (snd r, el_constant 0, el_constant 1) | RhsExtPoly \<Rightarrow> None)
      else case egcd_div a rhs of
             None \<Rightarrow> None
           | Some (q, r) \<Rightarrow> map_option (\<lambda>(g, x, y). (g, el_add y (el_mul q x), x)) (const_egcd r (RhsElement a)))"
  by pat_completeness auto
termination by (relation "measure (\<lambda>(a, _). el_size a)") (auto dest: egcd_div_smaller)

declare const_egcd.simps [simp del]

definition el_inverse :: "elem \<Rightarrow> elem option" where
  "el_inverse a =
     (if is_zero a then None
      else case const_egcd a RhsExtPoly of
             None \<Rightarrow> None
           | Some (gcd1, y, _) \<Rightarrow> if gcd1 \<noteq> 0 then map_option (el_scale y) (gf_div 1 gcd1) else None)"

definition el_div :: "elem \<Rightarrow> elem \<Rightarrow> elem option" where
  "el_div a b = map_option (el_mul a) (el_inverse b)"

text \<open>The slice operations a field inherits from the trait.\<close>

definition default_mul_slice :: "('e \<Rightarrow> 'e \<Rightarrow> 'e) \<Rightarrow> 'e \<Rightarrow> 'e list \<Rightarrow> 'e list \<Rightarrow> 'e list option" where
  "default_mul_slice mul c input out =
     (if length input \<noteq> length out then None else Some (map (\<lambda>(i, _). mul c i) (zip input out)))"

definition default_mul_slice_add :: "('e \<Rightarrow> 'e \<Rightarrow> 'e) \<Rightarrow> ('e \<Rightarrow> 'e \<Rightarrow> 'e) \<Rightarrow> 'e \<Rightarrow> 'e list \<Rightarrow> 'e list \<Rightarrow> 'e list option" where
  "default_mul_slice_add add mul c input out =
     (if length input \<noteq> length out then None else Some (map (\<lambda>(i, o'). add o' (mul c i)) (zip input out)))"

definition galois_16 :: "elem field_ops" where
  "galois_16 = \<lparr>F_ORDER = 65536, F_add = el_add, F_mul = el_mul, F_div = el_div, F_exp = el_exp, F_zero = (0, 0), F_one = (0, 1),
     F_nth_internal = (\<lambda>n. (of_nat (n div 256), of_nat n)), F_mul_slice = default_mul_slice el_mul,
     F_mul_slice_add = default_mul_slice_add el_add el_mul\<rparr>"

subsection \<open>The extension field\<close>

text \<open>The modulus has no root: its values at the powers of two, side by side.\<close>

fun no_root :: "nat \<Rightarrow> nat \<Rightarrow> nat \<Rightarrow> bool" where
  "no_root 0 a b = True"
| "no_root (Suc n) a b = (a XOR b \<noteq> 128 \<and> no_root n (nb (nb a)) (nb b))"

lemma no_root_numeral: "no_root (numeral k) a b = (a XOR b \<noteq> 128 \<and> no_root (pred_numeral k) (nb (nb a)) (nb b))"
  by (simp add: numeral_eq_Suc)

lemma no_root_ok: "no_root 255 1 2"
  by (simp add: no_root_numeral nb_eq) (simp flip: numeral_3_eq_3)

lemma no_root_pow: "no_root n (pow2 (2 * j)) (pow2 (j + 1)) \<Longrightarrow> i < n \<Longrightarrow> pow2 (2 * (j + i)) XOR pow2 (j + i + 1) \<noteq> 128"
proof (induction n arbitrary: i j)
  case (Suc n)
  show ?case
  proof (cases i)
    case 0
    then show ?thesis using Suc.prems by simp
  next
    case (Suc i')
    have "no_root n (pow2 (2 * Suc j)) (pow2 (Suc j + 1))" using Suc.prems(1) by (simp add: pow2_Suc)
    from Suc.IH [OF this, of i'] show ?thesis using Suc.prems(2) Suc by simp
  qed
qed simp

lemma byte_pow: "GF (gpow 1) = GF 2" "GF (gpow 7) = GF 128"
proof -
  have "nb 1 = 2" "nb 2 = 4" "nb 4 = 8" "nb 8 = 16" "nb 16 = 32" "nb 32 = 64" "nb 64 = 128" by (simp_all add: nb_eq)
  then have "pow2 1 = 2" "pow2 7 = 128" by (simp_all add: pow2_def numeral_eq_Suc)
  then show "GF (gpow 1) = GF 2" "GF (gpow 7) = GF 128" by (simp_all add: gpow_def)
qed

lemma irreducible: "t * t + GF 2 * t + GF 128 \<noteq> 0"
proof (cases "byte_of t = 0")
  case True
  then have "t = 0" by (metis byte_of_inverse zero_gf_def)
  moreover have "GF 128 \<noteq> 0" by (simp add: zero_gf_def)
  ultimately show ?thesis by simp
next
  case False
  then obtain i where i: "i < 255" "byte_of t = gpow i" by (rule nonzero_P)
  then have t: "t = GF (gpow i)" by (metis byte_of_inverse)
  have "t * t = GF (gpow (2 * i))" "GF 2 * t = GF (gpow (i + 1))"
    using gf_mul_P [of i i] gf_mul_P [of 1 i] byte_pow(1) by (simp_all add: t times_gf_def mult_2)
  then have e: "t * t + GF 2 * t + GF 128 = GF (gpow (2 * i) XOR gpow (i + 1) XOR 128)" by (simp add: plus_gf_def gf_add_def xor.assoc)
  have "pow2 (2 * i) XOR pow2 (i + 1) \<noteq> 128"
    using no_root_pow [of 255 0 i] no_root_ok i(1) pow2_Suc [of 0] by (simp add: nb_eq)
  then have "unat (gpow (2 * i) XOR gpow (i + 1)) \<noteq> unat (128 :: u8)" by (simp add: unsigned_xor_eq)
  then have ne: "gpow (2 * i) XOR gpow (i + 1) \<noteq> 128" by metis
  have "(gpow (2 * i) XOR gpow (i + 1) XOR 128) XOR 128 = gpow (2 * i) XOR gpow (i + 1)" by (simp add: xor.assoc)
  then have "gpow (2 * i) XOR gpow (i + 1) XOR 128 \<noteq> 0" using ne by auto
  then show ?thesis by (simp add: e zero_gf_def)
qed

typedef gf16 = "UNIV :: (gf \<times> gf) set" morphisms coeffs GF16 by simp

lemmas gf16_inverse [simp] = GF16_inverse [OF UNIV_I] coeffs_inverse

lemma GF16_eq [simp]: "GF16 a = GF16 b \<longleftrightarrow> a = b" by (simp add: GF16_inject)

definition norm16 :: "gf \<Rightarrow> gf \<Rightarrow> gf" where
  "norm16 a1 a0 = a0 * a0 + GF 2 * a0 * a1 + GF 128 * a1 * a1"

lemma norm16_nonzero: "a1 \<noteq> 0 \<or> a0 \<noteq> 0 \<Longrightarrow> norm16 a1 a0 \<noteq> 0"
proof (cases "a1 = 0")
  case False
  let ?t = "a0 / a1"
  have "norm16 a1 a0 = a1 * a1 * (?t * ?t + GF 2 * ?t + GF 128)" using False by (simp add: norm16_def field_simps)
  then show ?thesis using False irreducible [of ?t] by simp
qed (simp add: norm16_def)

instantiation gf16 :: field
begin
definition zero_gf16 :: gf16 where "zero_gf16 = GF16 (0, 0)"
definition one_gf16 :: gf16 where "one_gf16 = GF16 (0, 1)"
definition plus_gf16 :: "gf16 \<Rightarrow> gf16 \<Rightarrow> gf16" where
  "plus_gf16 a b = GF16 (fst (coeffs a) + fst (coeffs b), snd (coeffs a) + snd (coeffs b))"
definition uminus_gf16 :: "gf16 \<Rightarrow> gf16" where "uminus_gf16 a = a"
definition minus_gf16 :: "gf16 \<Rightarrow> gf16 \<Rightarrow> gf16" where "minus_gf16 a b = a + (b :: gf16)"
definition times_gf16 :: "gf16 \<Rightarrow> gf16 \<Rightarrow> gf16" where
  "times_gf16 a b = (case (coeffs a, coeffs b) of ((a1, a0), (b1, b0)) \<Rightarrow>
     GF16 (a0 * b1 + a1 * b0 + GF 2 * (a1 * b1), a0 * b0 + GF 128 * (a1 * b1)))"
definition inverse_gf16 :: "gf16 \<Rightarrow> gf16" where
  "inverse_gf16 a = (case coeffs a of (a1, a0) \<Rightarrow> GF16 (a1 / norm16 a1 a0, (a0 + GF 2 * a1) / norm16 a1 a0))"
definition divide_gf16 :: "gf16 \<Rightarrow> gf16 \<Rightarrow> gf16" where "divide_gf16 a b = a * inverse b"

lemmas gf16_ops = zero_gf16_def one_gf16_def plus_gf16_def minus_gf16_def uminus_gf16_def times_gf16_def

instance
proof
  fix a b c :: gf16
  obtain a1 a0 b1 b0 c1 c0 where abc: "a = GF16 (a1, a0)" "b = GF16 (b1, b0)" "c = GF16 (c1, c0)"
    by (metis coeffs_inverse prod.collapse)
  show "a + b + c = a + (b + c)" "a + b = b + a" "0 + a = a" "- a + a = 0" "a - b = a + - b"
    by (simp_all add: gf16_ops abc ac_simps gf_char2)
  show "a * b * c = a * (b * c)" "1 * a = a" "a * b = b * a" "(a + b) * c = a * c + b * c"
    by (simp_all add: gf16_ops abc algebra_simps)
  show "(0 :: gf16) \<noteq> 1" by (simp add: gf16_ops)
  show "inverse (0 :: gf16) = 0" by (simp add: inverse_gf16_def zero_gf16_def norm16_def)
  show "a div b = a * inverse b" by (rule divide_gf16_def)
  assume "a \<noteq> 0"
  then have n: "norm16 a1 a0 \<noteq> 0" using norm16_nonzero [of a1 a0] by (auto simp: abc zero_gf16_def)
  have z: "x + x = 0" for x :: gf by (rule gf_char2)
  have "(a0 + GF 2 * a1) * a1 + a1 * a0 + GF 2 * (a1 * a1) = 0"
  proof -
    have "(a0 + GF 2 * a1) * a1 + a1 * a0 + GF 2 * (a1 * a1) = (a0 * a1 + a0 * a1) + (GF 2 * (a1 * a1) + GF 2 * (a1 * a1))"
      by (simp only: ring_distribs ac_simps)
    then show ?thesis by (simp only: z add_0)
  qed
  moreover have "(a0 + GF 2 * a1) * a0 + GF 128 * (a1 * a1) = norm16 a1 a0" by (simp add: norm16_def algebra_simps)
  ultimately have "((a0 + GF 2 * a1) / norm16 a1 a0) * a1 + (a1 / norm16 a1 a0) * a0 + GF 2 * ((a1 / norm16 a1 a0) * a1) = 0"
    "((a0 + GF 2 * a1) / norm16 a1 a0) * a0 + GF 128 * ((a1 / norm16 a1 a0) * a1) = 1"
    using n by (simp_all add: divide_simps mult.assoc)
  then show "inverse a * a = 1" by (simp add: inverse_gf16_def times_gf16_def one_gf16_def abc)
qed
end

subsection \<open>The implementation computes in the extension field\<close>

definition emb16 :: "elem \<Rightarrow> gf16" where "emb16 a = GF16 (GF (fst a), GF (snd a))"

lemma GF_xor: "GF (a XOR b) = GF a + GF b" and GF_mul: "GF (gf_mul a b) = GF a * GF b" and GF_0: "GF 0 = 0" and GF_1: "GF 1 = 1"
  by (simp_all add: gf_ops gf_add_def)

lemma emb16_add: "emb16 (el_add a b) = emb16 a + emb16 b"
  by (simp add: emb16_def el_add_def plus_gf16_def GF_xor)

lemma reduce_from_emb: "emb16 (reduce_from (x, y, z)) = GF16 (GF y + GF 2 * GF x, GF z + GF 128 * GF x)"
  by (simp add: reduce_from_def emb16_def GF_xor GF_mul GF_0)

lemma emb16_mul: "emb16 (el_mul a b) = emb16 a * emb16 b"
  unfolding el_mul_def reduce_from_emb by (simp add: times_gf16_def emb16_def GF_mul GF_xor gf_add_def)

lemma emb16_consts: "emb16 (0, 0) = 0" "emb16 (0, 1) = 1"
  by (simp_all add: emb16_def zero_gf16_def one_gf16_def GF_0 GF_1)

lemma emb16_inj: "emb16 a = emb16 b \<longleftrightarrow> a = b"
  by (cases a; cases b) (simp add: emb16_def)

lemma gf_mul_one_right: "gf_mul a 1 = a" by (subst gf_mul_commute) (rule gf_mul_one)

lemma el_mul_unit: "el_mul a (0, 1) = a"
  using emb16_mul [of a "(0, 1)"] by (simp add: emb16_consts emb16_inj)

lemma emb16_exp: "emb16 (el_exp a n) = emb16 a ^ n"
proof (cases "n = 0 \<or> a = el_zero")
  case True
  then show ?thesis by (auto simp: el_exp_def el_constant_def el_zero_def emb16_consts power_0_left)
next
  case False
  have "emb16 (foldl (\<lambda>s _. el_mul s a) a [1..<Suc k]) = emb16 a ^ Suc k" for k
    by (induction k) (simp_all add: emb16_mul mult.commute)
  moreover obtain k where "n = Suc k" using False by (cases n) auto
  ultimately show ?thesis using False by (simp add: el_exp_def del: upt_Suc)
qed

text \<open>The Euclidean algorithm on a constant and on a linear polynomial, step by step.\<close>

lemma gf_recip: "b \<noteq> 0 \<Longrightarrow> \<exists>q. gf_div 1 b = Some q \<and> GF q = inverse (GF b)"
  using g8.emb_div [of b 1] by (simp add: divide_inverse GF_1)

lemma egcd_const: "c \<noteq> 0 \<Longrightarrow> const_egcd (0, 0) (RhsElement (p, c)) = Some (c, (0, 0), (0, 1))"
  by (simp add: const_egcd.simps [of "(0, 0)"] is_zero_def el_constant_def)

lemma egcd_of_const:
  assumes "c \<noteq> 0"
  shows "const_egcd (0, c) (RhsElement r) = Some (c, (0, 1), (0, 0))"
proof -
  obtain i where "gf_div 1 c = Some i" using gf_recip [OF assms] by blast
  then show ?thesis using assms
    by (simp add: const_egcd.simps [of "(0, c)"] egcd_div_def polynom_div_def is_zero_def el_degree_def el_zero_def egcd_const
        el_mul_def reduce_from_def el_add_def gf_mul_zero gf_add_def)
qed

lemma egcd_constant:
  "c \<noteq> 0 \<Longrightarrow> const_egcd (0, c) RhsExtPoly = Some (c, (0, 1), (0, 0))"
  by (simp add: const_egcd.simps [of "(0, c)"] egcd_div_def div_ext_by_def is_zero_def el_degree_def el_zero_def egcd_const
      el_mul_def reduce_from_def el_add_def gf_mul_zero gf_add_def)

lemma egcd_linear:
  assumes "p \<noteq> 0"
  obtains q r x where "const_egcd (p, c) RhsExtPoly = Some (r, q, x)" "r \<noteq> 0" "emb16 (p, c) * emb16 q = emb16 (0, r)"
proof -
  obtain i where i: "gf_div 1 p = Some i" "GF i = inverse (GF p)" using gf_recip [OF assms] by blast
  have p0: "GF p \<noteq> 0" using assms by (simp add: zero_gf_def)
  define t where "t = gf_mul i c"
  define r where "r = (128 XOR gf_mul t (2 XOR t))"
  define q where "q = (gf_mul i 1, gf_mul i (2 XOR t))"
  have t0: "c = 0 \<Longrightarrow> t = 0" by (simp add: t_def gf_mul_zero)
  have div: "div_ext_by (p, c) = Some (q, (0, r))"
    using assms i(1) t0
    by (simp add: div_ext_by_def el_degree_def el_scale_def EXT_POLY_def el_constant_def Let_def q_def r_def t_def [symmetric] gf_mul_one_right)
  have GFt: "GF t = GF c / GF p" by (simp add: t_def GF_mul i(2) divide_inverse mult.commute)
  have r: "GF r = GF t * GF t + GF 2 * GF t + GF 128"
    by (simp add: r_def GF_xor GF_mul algebra_simps)
  have "r \<noteq> 0"
  proof
    assume "r = 0"
    then show False using r irreducible [of "GF t"] by (simp add: GF_0)
  qed
  moreover have "const_egcd (p, c) RhsExtPoly = Some (r, q, (0, 1))"
    using div assms egcd_of_const [OF \<open>r \<noteq> 0\<close>]
    by (simp add: const_egcd.simps [of "(p, c)"] egcd_div_def is_zero_def el_mul_unit el_add_def)
  moreover have "emb16 (p, c) * emb16 q = emb16 (0, r)"
  proof -
    have pi: "GF p * GF i = 1" using p0 by (simp add: i(2))
    have c: "GF c = GF p * GF t" using p0 by (simp add: GFt)
    have z: "x + x = 0" for x :: gf by (rule gf_char2)
    have "GF c * GF i + GF p * (GF i * (GF 2 + GF t)) + GF 2 * (GF p * GF i) = (GF p * GF i) * ((GF t + GF t) + (GF 2 + GF 2))"
      unfolding c by (simp only: ring_distribs ac_simps)
    then have a: "GF c * GF i + GF p * (GF i * (GF 2 + GF t)) + GF 2 * (GF p * GF i) = 0" by (simp only: z add_0 mult_zero_right)
    have "GF c * (GF i * (GF 2 + GF t)) + GF 128 * (GF p * GF i) = (GF p * GF i) * (GF t * (GF 2 + GF t) + GF 128)"
      unfolding c by (simp only: ring_distribs ac_simps)
    then have b: "GF c * (GF i * (GF 2 + GF t)) + GF 128 * (GF p * GF i) = GF r" unfolding pi r by (simp add: algebra_simps)
    show ?thesis using a b by (simp add: emb16_def times_gf16_def q_def GF_mul GF_xor GF_0 GF_1)
  qed
  ultimately show thesis using that by blast
qed

lemma el_inverse_ok:
  assumes "b \<noteq> (0, 0)"
  obtains y where "el_inverse b = Some y" "emb16 b * emb16 y = 1"
proof -
  obtain p c where b: "b = (p, c)" by fastforce
  obtain r q x where e: "const_egcd b RhsExtPoly = Some (r, q, x)" "r \<noteq> 0" "emb16 b * emb16 q = emb16 (0, r)"
  proof (cases "p = 0")
    case True
    then have c: "c \<noteq> 0" using assms b by simp
    show thesis using that [of c "(0, 1)" "(0, 0)"] egcd_constant [OF c] c True by (simp add: b emb16_consts)
  next
    case False
    then show thesis using egcd_linear [of p c] that b by metis
  qed
  obtain i where i: "gf_div 1 r = Some i" "GF i = inverse (GF r)" using gf_recip [OF e(2)] by blast
  have r0: "GF r \<noteq> 0" using e(2) by (simp add: zero_gf_def)
  have scale: "emb16 (el_scale q i) = emb16 (0, i) * emb16 q"
    by (cases q) (simp add: el_scale_def emb16_def times_gf16_def GF_mul GF_0)
  have "emb16 b * emb16 (el_scale q i) = emb16 (0, i) * (emb16 b * emb16 q)" by (simp add: scale ac_simps)
  also have "\<dots> = emb16 (0, i) * emb16 (0, r)" by (simp only: e(3))
  also have "\<dots> = 1" using r0 by (simp add: emb16_def times_gf16_def one_gf16_def GF_0 i(2))
  finally have "emb16 b * emb16 (el_scale q i) = 1" .
  then show thesis using that [of "el_scale q i"] e i assms by (simp add: el_inverse_def is_zero_def)
qed

lemma galois_16_sel [simp]:
  "F_ORDER galois_16 = 65536" "F_add galois_16 = el_add" "F_mul galois_16 = el_mul" "F_div galois_16 = el_div" "F_exp galois_16 = el_exp"
  "F_zero galois_16 = (0, 0)" "F_one galois_16 = (0, 1)" "F_nth_internal galois_16 = (\<lambda>n. (of_nat (n div 256), of_nat n))"
  "F_mul_slice galois_16 = default_mul_slice el_mul" "F_mul_slice_add galois_16 = default_mul_slice_add el_add el_mul"
  by (simp_all add: galois_16_def)

lemma default_slices:
  "length input = length out \<Longrightarrow> default_mul_slice f c input out = Some (map (f c) input)"
  "length input = length out \<Longrightarrow> default_mul_slice_add g f c input out = Some (map2 (\<lambda>o' i. g o' (f c i)) out input)"
  by (auto simp: default_mul_slice_def default_mul_slice_add_def intro: nth_equalityI)

interpretation g16: field_impl galois_16 emb16
proof
  fix a b :: elem and i j :: nat
  show "\<exists>q. F_div galois_16 a b = Some q \<and> emb16 q = emb16 a / emb16 b" if "b \<noteq> F_zero galois_16"
  proof -
    from that have nz: "b \<noteq> (0, 0)" by simp
    obtain y where y: "el_inverse b = Some y" "emb16 b * emb16 y = 1" by (rule el_inverse_ok [OF nz])
    then have b0: "emb16 b \<noteq> 0" by auto
    then have "emb16 y = 1 / emb16 b" using y(2) by (simp add: nonzero_eq_divide_eq mult.commute)
    then show ?thesis using y(1) by (simp add: el_div_def emb16_mul)
  qed
  show "i = j" if "i < F_ORDER galois_16" "j < F_ORDER galois_16" "F_nth_internal galois_16 i = F_nth_internal galois_16 j"
  proof -
    have "i div 256 < 256" "j div 256 < 256" using that by auto
    then have "i div 256 = j div 256" "i mod 256 = j mod 256"
      using that(3) by (simp_all add: word_of_nat_eq_iff take_bit_nat_eq_self take_bit_nat_def)
    then show ?thesis by (metis div_mult_mod_eq)
  qed
  show "emb16 a + emb16 a = 0" by (simp add: emb16_def plus_gf16_def zero_gf16_def gf_char2)
qed (simp_all add: emb16_inj emb16_add emb16_mul emb16_consts emb16_exp default_slices)

subsection \<open>Properties\<close>

text \<open>
  the two-byte elements are a field. Multiplication is commutative, associative and distributive over XOR with
  neutral element \<open>(0, 1)\<close>; the Euclidean division finds the quotient for every nonzero divisor and panics exactly on
  zero; \<^verbatim>\<open>exp\<close> is repeated multiplication.
\<close>

theorem word_field:
  "el_mul a b = el_mul b a \<and> el_mul (el_mul a b) c = el_mul a (el_mul b c) \<and> el_mul (0, 1) a = a \<and>
   el_mul a (el_add b c) = el_add (el_mul a b) (el_mul a c) \<and>
   (el_div a b = None \<longleftrightarrow> b = (0, 0)) \<and> (b \<noteq> (0, 0) \<longrightarrow> el_div (el_mul a b) b = Some a) \<and>
   el_exp a 0 = (0, 1) \<and> el_exp a (Suc n) = el_mul a (el_exp a n)"
proof -
  have "el_mul a b = el_mul b a" "el_mul (el_mul a b) c = el_mul a (el_mul b c)" "el_mul (0, 1) a = a"
    "el_mul a (el_add b c) = el_add (el_mul a b) (el_mul a c)" "el_exp a 0 = (0, 1)" "el_exp a (Suc n) = el_mul a (el_exp a n)"
    by (simp_all only: emb16_inj [symmetric] emb16_mul emb16_add emb16_exp emb16_consts power_0 power_Suc ac_simps distrib_left mult_1)
  moreover have "el_div a b = None \<longleftrightarrow> b = (0, 0)"
    using g16.emb_div [of b a] by (auto simp: el_div_def el_inverse_def is_zero_def)
  moreover have "el_div (el_mul a b) b = Some a" if nz: "b \<noteq> (0, 0)"
  proof -
    obtain q where q: "el_div (el_mul a b) b = Some q" "emb16 q = emb16 (el_mul a b) / emb16 b"
      using g16.emb_div [of b "el_mul a b"] nz unfolding galois_16_sel by blast
    have "emb16 b \<noteq> 0" using nz emb16_inj [of b "(0, 0)"] by (simp add: emb16_consts)
    then have "q = a" using q(2) by (simp add: emb16_mul flip: emb16_inj)
    then show ?thesis using q(1) by simp
  qed
  ultimately show ?thesis by blast
qed

theorem word_field_witness:
  "el_div (el_mul (3, 5) (7, 9)) (7, 9) = Some (3, 5)"
proof -
  have "(7, 9) \<noteq> ((0, 0) :: elem)" by simp
  then show ?thesis using word_field [of "(3, 5)" "(7, 9)" "(0, 0)" 0] by blast
qed

text \<open>
  C22: Reed-Solomon coding over two-byte elements. For up to 65536 shards of such elements, encoding keeps the
  data shards, and any \<open>k\<close> of the \<open>k + m\<close> shards restore the data, and then, under another loss pattern and with
  the cached decode matrices, all shards.
\<close>

theorem rs16_rebuilds_any_losses:
  assumes "lru_ok lru view" "0 < k" "0 < m" "k + m \<le> 65536"
    and "sized k L dat" "sized m L parity" "0 < L"
    and "k \<le> length (filter p [0..<k + m])" "k \<le> length (filter q [0..<k + m])"
  shows "\<exists>rs full. ReedSolomon_new galois_16 lru k m = Inr rs \<and> encode galois_16 rs (dat @ parity) = Inr full \<and> take k full = dat \<and>
    fst (reconstruct_data galois_16 lru (keep p full) rs) = Inr (keep (\<lambda>i. p i \<or> i < k) full) \<and>
    fst (reconstruct galois_16 lru (keep q full) (snd (reconstruct_data galois_16 lru (keep p full) rs))) = Inr (map Some full)"
  using g16.rebuilds_any_losses [OF assms(1-3) _ assms(5-9)] assms(4) by simp

theorem rs16_rebuilds_any_losses_witness:
  "\<exists>rs full. ReedSolomon_new galois_16 list_lru 2 1 = Inr rs \<and> encode galois_16 rs [[(1, 2)], [(3, 4)], [(0, 0)]] = Inr full \<and>
    take 2 full = [[(1, 2)], [(3, 4)]] \<and>
    fst (reconstruct_data galois_16 list_lru (keep (\<lambda>i. i \<noteq> 0) full) rs) = Inr (keep (\<lambda>i. i \<noteq> 0 \<or> i < 2) full)"
  using rs16_rebuilds_any_losses [OF list_lru_ok, of 2 1 1 "[[(1, 2)], [(3, 4)]]" "[[(0, 0)]]" "\<lambda>i. i \<noteq> 0" "\<lambda>i. i \<noteq> 1"]
  by (auto simp: sized_def upt_rec)

end
