(* ===== verification/Pulsar_Ladder.thy ===== *)
theory Pulsar_Ladder
  imports Pulsar_Float "HOL-Library.Product_Lexorder"
begin

text \<open>
  The operating-point ladder of \<^verbatim>\<open>adapt/ladder.rs\<close> and the parity sizing of
  \<^verbatim>\<open>adapt/fec_policy.rs\<close>: \<open>build\<close> lists the resolution and frame-rate points of a session with the
  minimum bitrate of each, \<open>pick\<close> chooses one for a budget; \<open>group_size\<close> and \<open>parity_ratio\<close>
  size the parity from the reported loss.
\<close>

subsection \<open>\<^verbatim>\<open>ladder.rs\<close>\<close>

datatype vcodec = H264 | H265 | Av1

record point =
  width :: nat
  height :: nat
  fps :: nat
  min_kbps :: nat

definition REF_H264 :: "(nat \<times> nat \<times> nat) list" where
  "REF_H264 = [(1080, 60, 8000), (1080, 30, 5000), (720, 60, 4000), (720, 30, 2500), (540, 30, 1200), (360, 30, 600)]"

fun codec_factor :: "vcodec \<Rightarrow> rat" where
  "codec_factor H264 = rnd32 1"
| "codec_factor H265 = rnd32 (7 / 10)"
| "codec_factor Av1 = rnd32 (65 / 100)"

definition min_kbps_upto60 :: "nat \<Rightarrow> nat \<Rightarrow> nat \<Rightarrow> nat" where
  "min_kbps_upto60 w h f =
     (let bpp = (if f \<ge> 50 then rnd64 (64 / 1000) else rnd64 (85 / 1000));
          bits = f64_mul (f64_mul (f64_mul (f64_of w) (f64_of h)) (f64_of f)) bpp
      in max (as_u32 (round_away (f64_div bits 1000))) 200)"

definition min_kbps_for :: "nat \<Rightarrow> nat \<Rightarrow> nat \<Rightarrow> nat" where
  "min_kbps_for w h f =
     (if f > 60 then
        let at60 = f64_of (min_kbps_upto60 w h 60) in
        as_u32 (round_away (f64_mul at60 (f64_add 1 (f64_div (f64_mul (1 / 2) (f64_of (f - 60))) 60))))
      else min_kbps_upto60 w h f)"

definition even16 :: "rat \<Rightarrow> nat" where
  "even16 w = max (u32_mul (as_u32 (round_away (f64_div w 16))) 16) 160"

definition load :: "point \<Rightarrow> nat" where
  "load p = (width p * height p * fps p) mod 18446744073709551616"

definition ladder_heights :: "nat \<Rightarrow> nat list" where
  "ladder_heights nh =
     foldl (\<lambda>hs (h, _, _). if h < nh \<and> h \<notin> set hs then hs @ [h] else hs) [nh] REF_H264"

definition ladder_fps :: "nat \<Rightarrow> nat list" where
  "ladder_fps nfps =
     (if nfps > 60 then [nfps, 60, 30] else if nfps \<ge> 50 then [nfps, 30] else [max nfps 1])"

definition ladder_point :: "vcodec \<Rightarrow> nat \<Rightarrow> nat \<Rightarrow> nat \<Rightarrow> point" where
  "ladder_point codec w h f =
     (let reference = map_option (\<lambda>(_, _, k). k) (find (\<lambda>(rh, rf, _). rh = h \<and> rf = f) REF_H264);
          base = (case reference of Some k \<Rightarrow> k | None \<Rightarrow> min_kbps_for w h f)
      in \<lparr>width = w, height = h, fps = f,
          min_kbps = max (as_u32 (round_away (f64_mul (f64_of base) (codec_factor codec)))) 200\<rparr>)"

definition ladder_rungs :: "vcodec \<Rightarrow> nat \<Rightarrow> nat \<Rightarrow> nat \<Rightarrow> point list" where
  "ladder_rungs codec nw nh nfps =
     (let aspect = f64_div (f64_of nw) (f64_of nh); rungs = ladder_fps nfps in
      concat (map (\<lambda>h.
        let w = (if h = nh then nw else even16 (f64_mul (f64_of h) aspect)) in
        map (ladder_point codec w h) (filter (\<lambda>f. \<not> (h \<le> 540 \<and> f \<noteq> last rungs)) rungs))
       (ladder_heights nh)))"

definition ladder_key :: "point \<Rightarrow> int \<times> int" where
  "ladder_key p = (- int (min_kbps p), - int (load p))"

definition build :: "vcodec \<Rightarrow> nat \<Rightarrow> nat \<Rightarrow> nat \<Rightarrow> point list" where
  "build codec native_w native_h native_fps =
     (let nw = (if native_w = 0 then 1920 else native_w);
          nh = (if native_h = 0 then 1080 else native_h);
          nfps = (if native_fps = 0 then 60 else native_fps)
      in remdups_adj (sort_key ladder_key (ladder_rungs codec nw nh nfps)))"

definition pick :: "point list \<Rightarrow> nat \<Rightarrow> rat \<Rightarrow> nat" where
  "pick points budget_kbps margin =
     (let budget = f32_mul (f32_of budget_kbps) margin in
      case position (\<lambda>p. f32_of (min_kbps p) \<le> budget) points of
        Some i \<Rightarrow> i
      | None \<Rightarrow> saturating_sub (length points) 1)"

text \<open>Specification: what it means that a rung's minimum fits a budget.\<close>

definition affordable :: "nat \<Rightarrow> rat \<Rightarrow> point \<Rightarrow> bool" where
  "affordable budget margin p \<longleftrightarrow> f32_of (min_kbps p) \<le> f32_mul (f32_of budget) margin"

subsection \<open>\<^verbatim>\<open>fec_policy.rs\<close>\<close>

definition MAX_OVERHEAD :: rat where "MAX_OVERHEAD = rnd32 (20 / 100)"
definition MIN_N :: nat where "MIN_N = 5"
definition MAX_N :: nat where "MAX_N = 32"
definition OFF_BELOW :: rat where "OFF_BELOW = rnd32 (5 / 1000)"
definition OFF_AFTER_CLEAN :: nat where "OFF_AFTER_CLEAN = 5"
definition RS_MIN_RATIO :: rat where "RS_MIN_RATIO = rnd32 (10 / 100)"
definition RS_MAX_RATIO :: rat where "RS_MAX_RATIO = rnd32 (30 / 100)"
definition RS_HYSTERESIS :: rat where "RS_HYSTERESIS = rnd32 (5 / 100)"

definition as_u8 :: "rat \<Rightarrow> nat" where "as_u8 x = min (nat \<lfloor>x\<rfloor>) 255"

definition group_size :: "rat \<Rightarrow> nat \<Rightarrow> nat \<Rightarrow> nat" where
  "group_size loss prev_n clean_windows =
     (if loss < OFF_BELOW then
        (if prev_n = 0 \<or> clean_windows \<ge> OFF_AFTER_CLEAN then 0 else prev_n)
      else
        let overhead = clamp (f32_div 1 (f32_of MAX_N)) MAX_OVERHEAD (f32_mul loss 2);
            want = clamp MIN_N MAX_N (as_u8 (round_away (f32_div 1 overhead)))
        in if prev_n > 0 \<and> (max want prev_n - min want prev_n) \<le> max (prev_n div 4) 1 then prev_n
           else want)"

definition encoder_share :: "nat \<Rightarrow> rat" where
  "encoder_share n = (if n = 0 then 1 else f32_div (f32_of n) (f32_add (f32_of n) 1))"

definition encoder_share_ratio :: "rat \<Rightarrow> rat" where
  "encoder_share_ratio overhead = f32_div 1 (f32_add 1 (max overhead 0))"

definition parity_ratio :: "rat \<Rightarrow> rat \<Rightarrow> nat \<Rightarrow> rat" where
  "parity_ratio loss prev clean_windows =
     (if loss < OFF_BELOW then
        (if prev \<le> 0 \<or> clean_windows \<ge> OFF_AFTER_CLEAN then 0 else prev)
      else
        let want = clamp RS_MIN_RATIO RS_MAX_RATIO (f32_add (f32_mul loss (5 / 2)) (rnd32 (5 / 100)))
        in if prev > 0 \<and> \<bar>f32_sub want prev\<bar> < RS_HYSTERESIS then prev else want)"

subsection \<open>Shape of the ladder\<close>

lemma sorted_wrt_remdups_adj: "sorted_wrt P xs \<Longrightarrow> sorted_wrt P (remdups_adj xs)"
  by (induction xs rule: remdups_adj.induct) auto

lemma set_build:
  "set (build codec w h f) = set (ladder_rungs codec (if w = 0 then 1920 else w) (if h = 0 then 1080 else h) (if f = 0 then 60 else f))"
  by (simp add: build_def Let_def)

lemma build_sorted: "sorted_wrt (\<lambda>p q. min_kbps q \<le> min_kbps p) (build codec w h f)"
proof -
  have "sorted_wrt (\<lambda>p q. ladder_key p \<le> ladder_key q) (build codec w h f)"
    unfolding build_def Let_def by (rule sorted_wrt_remdups_adj) (metis sorted_map sorted_sort_key)
  then show ?thesis by (rule sorted_wrt_mono_rel [rotated]) (auto simp: ladder_key_def less_eq_prod_def)
qed

lemma build_hd_max: "p \<in> set (build codec w h f) \<Longrightarrow> min_kbps p \<le> min_kbps (hd (build codec w h f))"
  using build_sorted [of codec w h f] by (cases "build codec w h f") auto

lemma set_ladder_heights: "h \<in> set (ladder_heights nh) \<Longrightarrow> h \<le> nh"
  by (auto simp: ladder_heights_def REF_H264_def split: if_splits)

lemma nh_in_heights: "nh \<in> set (ladder_heights nh)"
proof -
  have "nh \<in> set hs \<Longrightarrow>
      nh \<in> set (foldl (\<lambda>hs (h, _, _). if h < nh \<and> h \<notin> set hs then hs @ [h] else hs) hs refs)"
    for hs and refs :: "(nat \<times> nat \<times> nat) list"
    by (induction refs arbitrary: hs) auto
  then show ?thesis by (simp add: ladder_heights_def)
qed

lemma set_ladder_fps: "f \<in> set (ladder_fps nfps) \<Longrightarrow> 0 < nfps \<Longrightarrow> f \<le> nfps"
  by (auto simp: ladder_fps_def split: if_splits)

lemma last_ladder_fps: "last (ladder_fps nfps) \<in> set (ladder_fps nfps)"
  by (simp add: ladder_fps_def)

lemma ladder_point_sel [simp]:
  "width (ladder_point codec w h f) = w" "height (ladder_point codec w h f) = h"
  "fps (ladder_point codec w h f) = f" "200 \<le> min_kbps (ladder_point codec w h f)"
  by (simp_all add: ladder_point_def Let_def)

lemma in_ladder_rungs:
  "p \<in> set (ladder_rungs codec nw nh nfps) \<longleftrightarrow>
     (\<exists>h \<in> set (ladder_heights nh). \<exists>f \<in> set (ladder_fps nfps).
        (h \<le> 540 \<longrightarrow> f = last (ladder_fps nfps)) \<and>
        p = ladder_point codec (if h = nh then nw else even16 (f64_mul (f64_of h) (f64_div (f64_of nw) (f64_of nh)))) h f)"
  by (auto simp: ladder_rungs_def Let_def)

lemma ladder_rungs_nonempty: "ladder_rungs codec nw nh nfps \<noteq> []"
proof -
  have "\<exists>p. p \<in> set (ladder_rungs codec nw nh nfps)"
    unfolding in_ladder_rungs using nh_in_heights last_ladder_fps by blast
  then show ?thesis by auto
qed

lemma build_nonempty: "build codec w h f \<noteq> []"
  using ladder_rungs_nonempty set_build [of codec w h f] by fastforce

lemma build_rungs:
  assumes "p \<in> set (build codec w h f)"
  shows "200 \<le> min_kbps p" "height p \<le> (if h = 0 then 1080 else h)" "fps p \<le> (if f = 0 then 60 else f)"
proof -
  let ?nh = "if h = 0 then 1080 else h" and ?nf = "if f = 0 then 60 else f"
  from assms obtain h' f' where hf: "h' \<in> set (ladder_heights ?nh)" "f' \<in> set (ladder_fps ?nf)"
    and p: "\<exists>w'. p = ladder_point codec w' h' f'"
    unfolding set_build in_ladder_rungs by blast
  from p show "200 \<le> min_kbps p" by auto
  from p set_ladder_heights [OF hf(1)] show "height p \<le> ?nh" by auto
  have "0 < ?nf" by simp
  with p set_ladder_fps [OF hf(2)] show "fps p \<le> ?nf" by auto
qed

lemma pick_affordable:
  "pick points b m = (case position (affordable b m) points of Some i \<Rightarrow> i | None \<Rightarrow> saturating_sub (length points) 1)"
  by (simp add: pick_def affordable_def [abs_def])

lemma pick_less: "points \<noteq> [] \<Longrightarrow> pick points b m < length points"
  by (auto simp: pick_def saturating_sub_def position_Some split: option.splits)

lemma native_rung:
  assumes "540 < h \<or> f < 50" "0 < w" "0 < h" "0 < f"
  shows "ladder_point codec w h f \<in> set (build codec w h f)"
proof -
  have "f \<in> set (ladder_fps f)" using assms by (auto simp: ladder_fps_def)
  moreover have "h \<le> 540 \<longrightarrow> f = last (ladder_fps f)" using assms by (auto simp: ladder_fps_def)
  moreover have "ladder_point codec w h f =
      ladder_point codec (if h = h then w else even16 (f64_mul (f64_of h) (f64_div (f64_of w) (f64_of h)))) h f" by simp
  ultimately show ?thesis using assms nh_in_heights unfolding set_build in_ladder_rungs by auto
qed

subsection \<open>Properties of the ladder\<close>

text \<open>
  every ladder is well formed: it is never empty, its rungs are ordered by the bitrate
  they need, most demanding first, each needs at least 200 kbit/s, and none exceeds the native height or
  frame rate (1080 and 60 where the native value is unknown).
\<close>

theorem ladder_wellformed:
  "build codec w h f \<noteq> [] \<and> sorted_wrt (\<lambda>p q. min_kbps q \<le> min_kbps p) (build codec w h f) \<and>
   list_all (\<lambda>p. 200 \<le> min_kbps p \<and> height p \<le> (if h = 0 then 1080 else h) \<and> fps p \<le> (if f = 0 then 60 else f))
     (build codec w h f)"
  using build_nonempty build_sorted build_rungs by (auto simp: list_all_iff)

text \<open>
  \<open>pick\<close> returns the best affordable rung: the rung it returns is on the ladder, and either it
  fits the budget and no fitting rung needs more bitrate, or nothing fits and it is the last, cheapest rung.
\<close>

theorem pick_is_best:
  "pick (build codec w h f) budget margin < length (build codec w h f) \<and>
   (affordable budget margin (build codec w h f ! pick (build codec w h f) budget margin) \<and>
      list_all (\<lambda>q. \<not> affordable budget margin q \<or>
        min_kbps q \<le> min_kbps (build codec w h f ! pick (build codec w h f) budget margin)) (build codec w h f)
    \<or> list_all (\<lambda>q. \<not> affordable budget margin q \<and> min_kbps (last (build codec w h f)) \<le> min_kbps q)
        (build codec w h f) \<and>
      build codec w h f ! pick (build codec w h f) budget margin = last (build codec w h f))"
proof -
  define points where "points = build codec w h f"
  define fits where "fits = affordable budget margin"
  have ne: "points \<noteq> []" by (simp add: points_def build_nonempty)
  have sorted: "min_kbps (points ! j) \<le> min_kbps (points ! i)" if "i \<le> j" "j < length points" for i j
    using build_sorted [of codec w h f] that unfolding points_def
    by (cases "i = j") (auto simp: sorted_wrt_iff_nth_less)
  show ?thesis
  proof (cases "position fits points")
    case None
    then have "pick points budget margin = length points - 1"
      by (simp add: pick_affordable fits_def saturating_sub_def)
    moreover from None have "\<forall>q \<in> set points. \<not> fits q" by (simp add: position_None)
    moreover have "min_kbps (last points) \<le> min_kbps q" if "q \<in> set points" for q
      using that ne sorted by (auto simp: in_set_conv_nth last_conv_nth)
    ultimately show ?thesis using ne unfolding points_def [symmetric] fits_def [symmetric]
      by (simp add: list_all_iff last_conv_nth)
  next
    case (Some i)
    then have i: "i < length points" "fits (points ! i)" "\<forall>j < i. \<not> fits (points ! j)"
      by (simp_all add: position_Some)
    have "pick points budget margin = i" using Some by (simp add: pick_affordable fits_def)
    moreover have "\<not> fits q \<or> min_kbps q \<le> min_kbps (points ! i)" if "q \<in> set points" for q
    proof -
      from that obtain j where j: "q = points ! j" "j < length points" by (auto simp: in_set_conv_nth)
      with i(3) sorted [of i j] show ?thesis by (cases "j < i") auto
    qed
    ultimately show ?thesis using i unfolding points_def [symmetric] fits_def [symmetric]
      by (simp add: list_all_iff)
  qed
qed

theorem pick_is_best_witness:
  "pick (build H264 1920 1080 60) 12000 1 < length (build H264 1920 1080 60) \<and>
   8000 \<le> min_kbps (build H264 1920 1080 60 ! pick (build H264 1920 1080 60) 12000 1)"
proof -
  let ?l = "build H264 1920 1080 60" and ?q = "ladder_point H264 1920 1080 60"
  have m: "min_kbps ?q = 8000" by code_simp
  have "affordable 12000 1 ?q" by code_simp
  moreover have "?q \<in> set ?l" by (rule native_rung) simp_all
  ultimately show ?thesis
    using pick_is_best [of H264 1920 1080 60 12000 1] m unfolding list_all_iff by metis
qed

text \<open>
  the documented promise that the native point is always the top rung does not hold: on a
  1600x1200 display at 60 fps the native point is on the ladder but a smaller one, 1440x1080, is ranked above
  it, so the top rung is not the native point.
\<close>

lemma min_1600x1200: "min_kbps (ladder_point H264 1600 1200 60) = 7373"
  by code_simp

lemma rung_1440x1080: "ladder_point H264 1440 1080 60 \<in> set (build H264 1600 1200 60)"
proof -
  have w: "even16 (f64_mul (f64_of 1080) (f64_div (f64_of 1600) (f64_of 1200))) = 1440" by code_simp
  have "1080 \<in> set (ladder_heights 1200)" "60 \<in> set (ladder_fps 60)" by code_simp+
  then show ?thesis unfolding set_build in_ladder_rungs using w
    by (intro bexI [of _ 1080] bexI [of _ 60]) simp_all
qed

theorem native_point_not_always_top:
  "hd (build H264 1600 1200 60) \<noteq> ladder_point H264 1600 1200 60 \<and>
   ladder_point H264 1600 1200 60 \<in> set (build H264 1600 1200 60) \<and>
   ladder_point H264 1440 1080 60 \<in> set (build H264 1600 1200 60) \<and>
   min_kbps (ladder_point H264 1600 1200 60) < min_kbps (hd (build H264 1600 1200 60))"
proof -
  let ?l = "build H264 1600 1200 60"
  have "min_kbps (ladder_point H264 1440 1080 60) = 8000" by code_simp
  moreover have "min_kbps (ladder_point H264 1440 1080 60) \<le> min_kbps (hd ?l)"
    by (rule build_hd_max [OF rung_1440x1080])
  ultimately have "min_kbps (ladder_point H264 1600 1200 60) < min_kbps (hd ?l)"
    using min_1600x1200 by simp
  then show ?thesis using rung_1440x1080 native_rung [of 1200 60 1600 H264] by force
qed

subsection \<open>Properties of the parity policy\<close>

lemma rs_ratio_order: "RS_MIN_RATIO \<le> RS_MAX_RATIO" "0 < RS_MIN_RATIO"
proof -
  show "RS_MIN_RATIO \<le> RS_MAX_RATIO"
    unfolding RS_MIN_RATIO_def RS_MAX_RATIO_def by (rule f32.rnd_mono) simp
  show "0 < RS_MIN_RATIO" by code_simp
qed

text \<open>
  the parity policy keeps its overhead bounds. From a group size that is off or between 5
  and 32 the next one is again off or between 5 and 32 (at most 20 % overhead), and it is on whenever the loss
  reaches the threshold; from a ratio that is off or within 10 to 30 % the next one is again off or within
  10 to 30 %; below the threshold both switch off after the clean stretch and keep their value before it.
\<close>

theorem parity_policy_bounds:
  assumes "n = 0 \<or> MIN_N \<le> n \<and> n \<le> MAX_N" and "r = 0 \<or> RS_MIN_RATIO \<le> r \<and> r \<le> RS_MAX_RATIO"
  shows "(group_size loss n cw = 0 \<or> MIN_N \<le> group_size loss n cw \<and> group_size loss n cw \<le> MAX_N) \<and>
    (parity_ratio loss r cw = 0 \<or> RS_MIN_RATIO \<le> parity_ratio loss r cw \<and> parity_ratio loss r cw \<le> RS_MAX_RATIO) \<and>
    (if OFF_BELOW \<le> loss then 0 < group_size loss n cw \<and> 0 < parity_ratio loss r cw
     else group_size loss n cw = (if OFF_AFTER_CLEAN \<le> cw then 0 else n) \<and>
       parity_ratio loss r cw = (if OFF_AFTER_CLEAN \<le> cw then 0 else r))"
proof -
  have mn: "MIN_N \<le> MAX_N" "0 < MIN_N" by (simp_all add: MIN_N_def MAX_N_def)
  have w: "MIN_N \<le> clamp MIN_N MAX_N k" "clamp MIN_N MAX_N k \<le> MAX_N" "0 < clamp MIN_N MAX_N k" for k
    using mn less_le_trans [OF mn(2) clamp_bounds(1) [OF mn(1), of k]] by simp_all
  have v: "RS_MIN_RATIO \<le> clamp RS_MIN_RATIO RS_MAX_RATIO x" "clamp RS_MIN_RATIO RS_MAX_RATIO x \<le> RS_MAX_RATIO"
    "0 < clamp RS_MIN_RATIO RS_MAX_RATIO x" for x
    using rs_ratio_order less_le_trans [OF rs_ratio_order(2) clamp_bounds(1) [OF rs_ratio_order(1), of x]] by simp_all
  have r0: "r \<le> 0 \<longleftrightarrow> r = 0" using assms(2) rs_ratio_order by auto
  show ?thesis
    using assms w v r0 by (auto simp: group_size_def parity_ratio_def Let_def)
qed

theorem parity_policy_bounds_witness:
  "group_size (rnd32 (3 / 100)) 0 0 = 17 \<and> 17 \<le> MAX_N \<and>
   (parity_ratio (rnd32 (3 / 100)) 0 0 = 0 \<or>
      RS_MIN_RATIO \<le> parity_ratio (rnd32 (3 / 100)) 0 0 \<and> parity_ratio (rnd32 (3 / 100)) 0 0 \<le> RS_MAX_RATIO)"
proof -
  have g: "group_size (rnd32 (3 / 100)) 0 0 = 17" by code_simp
  show ?thesis using parity_policy_bounds [of 0 0 "rnd32 (3 / 100)" 0] g by auto
qed

end
