(* ===== verification/Pulsar_Delay.thy ===== *)
theory Pulsar_Delay
  imports Pulsar_Float
begin

text \<open>
  The delay-gradient estimator of \<^verbatim>\<open>adapt/delay.rs\<close>: \<open>trendline\<close> is its state,
  \<open>Trendline_on_frame\<close> the whole per-frame step (wrap-aware send delta, smoothing, least-squares
  slope over the last 20 samples, overuse detector, adaptive threshold), over the \<^verbatim>\<open>f64\<close> arithmetic of
  \<open>Pulsar_Float\<close>. Times are milliseconds on a monotonic clock, finite by assumption of the float model.
\<close>

subsection \<open>State and constants\<close>

datatype delay_state = Normal | Overuse | Underuse

definition WINDOW :: nat where "WINDOW = 20"
definition SMOOTHING :: rat where "SMOOTHING = rnd64 (9 / 10)"
definition THRESHOLD_GAIN :: rat where "THRESHOLD_GAIN = 4"
definition INITIAL_THRESHOLD_MS :: rat where "INITIAL_THRESHOLD_MS = 25 / 2"
definition K_UP :: rat where "K_UP = rnd64 (87 / 10000)"
definition K_DOWN :: rat where "K_DOWN = rnd64 (39 / 1000)"
definition OVERUSE_TIME_MS :: rat where "OVERUSE_TIME_MS = 10"
definition MAX_ADAPT_OFFSET_MS :: rat where "MAX_ADAPT_OFFSET_MS = 15"
definition DELTAS_CAP :: nat where "DELTAS_CAP = 60"
definition MIN_THRESHOLD_MS :: rat where "MIN_THRESHOLD_MS = 6"
definition MAX_THRESHOLD_MS :: rat where "MAX_THRESHOLD_MS = 600"

record trendline =
  first_arrival_ms :: "rat option"
  prev_send_ts :: "u32 option"
  prev_arrival_ms :: rat
  accumulated_ms :: rat
  smoothed_ms :: rat
  samples :: "(rat \<times> rat) list"
  num_deltas :: nat
  trend :: rat
  prev_trend :: rat
  threshold_ms :: rat
  last_threshold_update_ms :: "rat option"
  time_over_using_ms :: rat
  overuse_counter :: nat
  state :: delay_state
  overuse_since_ms :: "rat option"
  last_arrival_ms :: rat

definition Trendline_new :: trendline where
  "Trendline_new = \<lparr>first_arrival_ms = None, prev_send_ts = None, prev_arrival_ms = 0,
     accumulated_ms = 0, smoothed_ms = 0, samples = [], num_deltas = 0, trend = 0, prev_trend = 0,
     threshold_ms = INITIAL_THRESHOLD_MS, last_threshold_update_ms = None, time_over_using_ms = - 1,
     overuse_counter = 0, state = Normal, overuse_since_ms = None, last_arrival_ms = 0\<rparr>"

definition Trendline_reset :: "trendline \<Rightarrow> trendline" where
  "Trendline_reset t = Trendline_new"

subsection \<open>Operations\<close>

definition Trendline_trend :: "trendline \<Rightarrow> rat" where
  "Trendline_trend t = f64_mul (f64_mul (trend t) (f64_of (min (num_deltas t) DELTAS_CAP))) THRESHOLD_GAIN"

definition overuse_ms :: "trendline \<Rightarrow> rat \<Rightarrow> rat" where
  "overuse_ms t now_ms =
     (case (state t, overuse_since_ms t) of
        (Overuse, Some s) \<Rightarrow> max (f64_sub now_ms s) 0
      | _ \<Rightarrow> 0)"

definition linear_fit_slope :: "(rat \<times> rat) list \<Rightarrow> rat option" where
  "linear_fit_slope xs =
     (let n = f64_of (length xs);
          (sx, sy) = foldl (\<lambda>(a, b) (x, y). (f64_add a x, f64_add b y)) (0, 0) xs;
          (mx, my) = (f64_div sx n, f64_div sy n);
          (num, den) = foldl (\<lambda>(num, den) (x, y).
             (f64_add num (f64_mul (f64_sub x mx) (f64_sub y my)),
              f64_add den (f64_mul (f64_sub x mx) (f64_sub x mx)))) (0, 0) xs
      in if den > 0 then Some (f64_div num den) else None)"

definition update_threshold :: "rat \<Rightarrow> rat \<Rightarrow> trendline \<Rightarrow> trendline" where
  "update_threshold modified_trend now_ms t =
     (case last_threshold_update_ms t of
        None \<Rightarrow> t\<lparr>last_threshold_update_ms := Some now_ms\<rparr>
      | Some prev \<Rightarrow>
          if \<bar>modified_trend\<bar> > f64_add (threshold_ms t) MAX_ADAPT_OFFSET_MS
          then t\<lparr>last_threshold_update_ms := Some now_ms\<rparr>
          else
            let k = (if \<bar>modified_trend\<bar> < threshold_ms t then K_DOWN else K_UP);
                dt = clamp 0 100 (f64_sub now_ms prev);
                th = f64_add (threshold_ms t)
                  (f64_mul (f64_mul k (f64_sub \<bar>modified_trend\<bar> (threshold_ms t))) dt)
            in t\<lparr>threshold_ms := clamp MIN_THRESHOLD_MS MAX_THRESHOLD_MS th,
                 last_threshold_update_ms := Some now_ms\<rparr>)"

text \<open>
  The branch on the gain-scaled slope of \<^verbatim>\<open>detect\<close>: the timers and the next hypothesis.
\<close>

definition detect_next :: "rat \<Rightarrow> rat \<Rightarrow> trendline \<Rightarrow> trendline \<times> delay_state" where
  "detect_next modified ts_delta_ms t =
     (if modified > threshold_ms t then
        let time = (if time_over_using_ms t < 0 then f64_div ts_delta_ms 2
                    else f64_add (time_over_using_ms t) ts_delta_ms);
            counter = u32_add (overuse_counter t) 1
        in if time > OVERUSE_TIME_MS \<and> counter > 1 \<and> trend t \<ge> prev_trend t
           then (t\<lparr>time_over_using_ms := 0, overuse_counter := 0\<rparr>, Overuse)
           else (t\<lparr>time_over_using_ms := time, overuse_counter := counter\<rparr>, state t)
      else if modified < - threshold_ms t
        then (t\<lparr>time_over_using_ms := - 1, overuse_counter := 0\<rparr>, Underuse)
      else (t\<lparr>time_over_using_ms := - 1, overuse_counter := 0\<rparr>, Normal))"

definition detect :: "rat \<Rightarrow> rat \<Rightarrow> trendline \<Rightarrow> trendline" where
  "detect ts_delta_ms now_ms t =
     (if num_deltas t < 2 then t\<lparr>state := Normal\<rparr>
      else
        let modified = Trendline_trend t;
            (t, next) = detect_next modified ts_delta_ms t;
            t = t\<lparr>prev_trend := trend t\<rparr>;
            t = (if next = Overuse
                 then (if state t \<noteq> Overuse then t\<lparr>overuse_since_ms := Some now_ms\<rparr> else t)
                 else t\<lparr>overuse_since_ms := None\<rparr>);
            t = t\<lparr>state := next\<rparr>
        in update_threshold modified now_ms t)"

text \<open>The middle of \<^verbatim>\<open>on_frame\<close>: a usable delta is accumulated, smoothed, sampled and fitted.\<close>

definition absorb_delta :: "rat \<Rightarrow> rat \<Rightarrow> rat \<Rightarrow> trendline \<Rightarrow> trendline" where
  "absorb_delta d_arrival_ms d_send_ms arrival_ms t =
     (let delta = f64_sub d_arrival_ms d_send_ms;
          acc = f64_add (accumulated_ms t) delta;
          smoothed = f64_add (f64_mul SMOOTHING (smoothed_ms t)) (f64_mul (f64_sub 1 SMOOTHING) acc);
          x = f64_sub arrival_ms (case first_arrival_ms t of Some a \<Rightarrow> a | None \<Rightarrow> arrival_ms);
          pushed = samples t @ [(x, smoothed)];
          kept = drop (length pushed - WINDOW) pushed;
          t = t\<lparr>num_deltas := u32_add (num_deltas t) 1, accumulated_ms := acc,
                smoothed_ms := smoothed, samples := kept\<rparr>
      in if length kept = WINDOW
         then (case linear_fit_slope kept of Some slope \<Rightarrow> t\<lparr>trend := slope\<rparr> | None \<Rightarrow> t)
         else t)"

definition Trendline_on_frame :: "u32 \<Rightarrow> rat \<Rightarrow> trendline \<Rightarrow> trendline" where
  "Trendline_on_frame send_ts_90k arrival_ms t0 =
     (let t = t0\<lparr>last_arrival_ms := arrival_ms\<rparr> in
      case prev_send_ts t of
        None \<Rightarrow> t\<lparr>prev_send_ts := Some send_ts_90k, prev_arrival_ms := arrival_ms,
                    first_arrival_ms := Some arrival_ms\<rparr>
      | Some prev_ts \<Rightarrow>
          let d_send_ms = f64_div (rnd64 (of_int (sint (send_ts_90k - prev_ts)))) 90;
              d_arrival_ms = f64_sub arrival_ms (prev_arrival_ms t);
              t = t\<lparr>prev_send_ts := Some send_ts_90k, prev_arrival_ms := arrival_ms\<rparr>
          in if d_send_ms \<le> 0 \<or> d_send_ms > 5000 \<or> d_arrival_ms < 0 then t
             else detect d_send_ms arrival_ms (absorb_delta d_arrival_ms d_send_ms arrival_ms t))"

text \<open>A run of the estimator: frames and stream restarts in any order.\<close>

datatype delay_event = Frame u32 rat | Restart

fun delay_step :: "delay_event \<Rightarrow> trendline \<Rightarrow> trendline" where
  "delay_step (Frame ts a) t = Trendline_on_frame ts a t"
| "delay_step Restart t = Trendline_reset t"

subsection \<open>Invariant of the estimator\<close>

lemma update_threshold_sel [simp]:
  "state (update_threshold m now t) = state t" "samples (update_threshold m now t) = samples t"
  "overuse_since_ms (update_threshold m now t) = overuse_since_ms t" "trend (update_threshold m now t) = trend t"
  "num_deltas (update_threshold m now t) = num_deltas t" "accumulated_ms (update_threshold m now t) = accumulated_ms t"
  "smoothed_ms (update_threshold m now t) = smoothed_ms t" "prev_send_ts (update_threshold m now t) = prev_send_ts t"
  "prev_arrival_ms (update_threshold m now t) = prev_arrival_ms t"
  "first_arrival_ms (update_threshold m now t) = first_arrival_ms t"
  by (simp_all add: update_threshold_def Let_def split: option.splits)

lemma detect_next_sel:
  "detect_next m d t = (t', next) \<Longrightarrow>
     samples t' = samples t \<and> trend t' = trend t \<and> num_deltas t' = num_deltas t \<and> state t' = state t \<and>
     accumulated_ms t' = accumulated_ms t \<and> smoothed_ms t' = smoothed_ms t \<and> prev_send_ts t' = prev_send_ts t \<and>
     prev_arrival_ms t' = prev_arrival_ms t \<and> first_arrival_ms t' = first_arrival_ms t \<and>
     overuse_since_ms t' = overuse_since_ms t \<and> threshold_ms t' = threshold_ms t"
  by (auto simp: detect_next_def Let_def split: if_splits)

lemma detect_sel [simp]:
  "samples (detect d now t) = samples t" "trend (detect d now t) = trend t"
  "num_deltas (detect d now t) = num_deltas t" "accumulated_ms (detect d now t) = accumulated_ms t"
  "smoothed_ms (detect d now t) = smoothed_ms t" "prev_send_ts (detect d now t) = prev_send_ts t"
  "prev_arrival_ms (detect d now t) = prev_arrival_ms t" "first_arrival_ms (detect d now t) = first_arrival_ms t"
  by (auto simp: detect_def Let_def split: prod.split dest: detect_next_sel)

lemma absorb_delta_sel [simp]:
  "state (absorb_delta da ds a t) = state t" "threshold_ms (absorb_delta da ds a t) = threshold_ms t"
  "overuse_counter (absorb_delta da ds a t) = overuse_counter t" "prev_trend (absorb_delta da ds a t) = prev_trend t"
  "overuse_since_ms (absorb_delta da ds a t) = overuse_since_ms t" "prev_send_ts (absorb_delta da ds a t) = prev_send_ts t"
  "prev_arrival_ms (absorb_delta da ds a t) = prev_arrival_ms t"
  "accumulated_ms (absorb_delta da ds a t) = f64_add (accumulated_ms t) (f64_sub da ds)"
  "smoothed_ms (absorb_delta da ds a t) = f64_add (f64_mul SMOOTHING (smoothed_ms t))
     (f64_mul (f64_sub 1 SMOOTHING) (f64_add (accumulated_ms t) (f64_sub da ds)))"
  by (simp_all add: absorb_delta_def Let_def split: option.split)

lemma absorb_delta_samples:
  "length (samples t) \<le> WINDOW \<Longrightarrow> length (samples (absorb_delta da ds a t)) \<le> WINDOW"
  "set (samples (absorb_delta da ds a t)) \<subseteq> set (samples t) \<union> UNIV \<times> {smoothed_ms (absorb_delta da ds a t)}"
  by (auto simp: absorb_delta_def Let_def split: option.splits if_splits dest!: in_set_dropD)

lemma absorb_delta_trend:
  "trend (absorb_delta da ds a t) = trend t \<or>
   linear_fit_slope (samples (absorb_delta da ds a t)) = Some (trend (absorb_delta da ds a t))"
  by (simp add: absorb_delta_def Let_def split: option.splits)

definition threshold_ok :: "rat \<Rightarrow> bool" where
  "threshold_ok th \<longleftrightarrow> MIN_THRESHOLD_MS \<le> th \<and> th \<le> MAX_THRESHOLD_MS"

definition delay_inv :: "trendline \<Rightarrow> bool" where
  "delay_inv t \<longleftrightarrow> threshold_ok (threshold_ms t) \<and> length (samples t) \<le> WINDOW \<and>
     (state t = Overuse \<longrightarrow> overuse_since_ms t \<noteq> None)"

lemma threshold_bounds: "MIN_THRESHOLD_MS \<le> MAX_THRESHOLD_MS"
  by (simp add: MIN_THRESHOLD_MS_def MAX_THRESHOLD_MS_def)

lemma update_threshold_ok: "threshold_ok (threshold_ms t) \<Longrightarrow> threshold_ok (threshold_ms (update_threshold m now t))"
  using threshold_bounds by (simp add: update_threshold_def threshold_ok_def Let_def split: option.splits)

lemma detect_threshold_ok: "threshold_ok (threshold_ms t) \<Longrightarrow> threshold_ok (threshold_ms (detect d now t))"
  by (auto simp: detect_def Let_def split: prod.split intro!: update_threshold_ok dest: detect_next_sel)

lemma detect_overuse_since:
  "state t = Overuse \<longrightarrow> overuse_since_ms t \<noteq> None \<Longrightarrow>
   state (detect d now t) = Overuse \<Longrightarrow> overuse_since_ms (detect d now t) \<noteq> None"
  by (auto simp: detect_def Let_def split: prod.splits if_splits dest: detect_next_sel)

lemma delay_inv_detect: "delay_inv t \<Longrightarrow> delay_inv (detect d now t)"
  using detect_overuse_since detect_threshold_ok by (auto simp: delay_inv_def)

lemma delay_inv_new: "delay_inv Trendline_new"
  by (simp add: delay_inv_def threshold_ok_def Trendline_new_def INITIAL_THRESHOLD_MS_def
      MIN_THRESHOLD_MS_def MAX_THRESHOLD_MS_def)

lemma delay_inv_on_frame: "delay_inv t \<Longrightarrow> delay_inv (Trendline_on_frame ts a t)"
  unfolding Trendline_on_frame_def Let_def
  using absorb_delta_samples(1)
  by (auto split: option.split intro!: delay_inv_detect) (auto simp: delay_inv_def)

lemma delay_inv_run: "delay_inv t \<Longrightarrow> delay_inv (fold delay_step es t)"
proof (induction es arbitrary: t)
  case (Cons e es)
  have "delay_inv (delay_step e t)"
    using Cons.prems delay_inv_new by (cases e) (auto simp: Trendline_reset_def delay_inv_on_frame)
  then show ?case using Cons.IH by simp
qed simp

subsection \<open>Entering the overuse hypothesis\<close>

lemma detect_enters_overuse:
  assumes "state t \<noteq> Overuse" "state (detect d now t) = Overuse"
  shows "threshold_ms t < Trendline_trend t \<and> 1 \<le> overuse_counter t \<and> prev_trend t \<le> trend t \<and>
    overuse_since_ms (detect d now t) = Some now"
  using assms
  by (auto simp: detect_def detect_next_def Let_def u32_add_def split: prod.splits if_splits)

subsection \<open>A path of constant delay\<close>

lemma f64_zero [simp]:
  "f64_add 0 0 = 0" "f64_mul 0 x = 0" "f64_mul x 0 = 0" "f64_div 0 x = 0" "f64_sub x x = 0"
  by (simp_all add: f64_add_def f64_mul_def f64_div_def f64_sub_def f64.zero)

lemma fit_fold_flat:
  assumes "\<forall>(x, y) \<in> set xs. y = 0"
  shows "snd (foldl (\<lambda>(a, b) (x, y). (f64_add a x, f64_add b y)) (a, 0) xs) = 0"
    and "fst (foldl (\<lambda>(num, den) (x, y).
             (f64_add num (f64_mul (f64_sub x mx) (f64_sub y 0)),
              f64_add den (f64_mul (f64_sub x mx) (f64_sub x mx)))) (0, b) xs) = 0"
  using assms by (induction xs arbitrary: a b) auto

lemma linear_fit_flat:
  assumes "\<forall>(x, y) \<in> set xs. y = 0" "linear_fit_slope xs = Some s"
  shows "s = 0"
proof -
  obtain sx sy where sums: "foldl (\<lambda>(a, b) (x, y). (f64_add a x, f64_add b y)) (0, 0) xs = (sx, sy)"
    by fastforce
  have "sy = 0" using fit_fold_flat(1) [OF assms(1), of 0] unfolding sums by simp
  let ?mx = "f64_div sx (f64_of (length xs))"
  obtain num den where fit: "foldl (\<lambda>(num, den) (x, y).
      (f64_add num (f64_mul (f64_sub x ?mx) (f64_sub y 0)),
       f64_add den (f64_mul (f64_sub x ?mx) (f64_sub x ?mx)))) (0, 0) xs = (num, den)"
    by fastforce
  have "num = 0" using fit_fold_flat(2) [OF assms(1), of ?mx 0] unfolding fit by simp
  moreover have "s = f64_div num den"
    using assms(2) sums fit \<open>sy = 0\<close> by (simp add: linear_fit_slope_def Let_def split: if_splits)
  ultimately show ?thesis by simp
qed

lemma detect_flat:
  assumes "trend t = 0" "threshold_ok (threshold_ms t)"
  shows "state (detect d now t) = Normal"
proof -
  have "Trendline_trend t = 0" using assms by (simp add: Trendline_trend_def)
  moreover have "0 < threshold_ms t" using assms by (simp add: threshold_ok_def MIN_THRESHOLD_MS_def)
  ultimately show ?thesis by (simp add: detect_def detect_next_def Let_def)
qed

text \<open>The frames of a sender at \<open>d\<close> milliseconds per frame over a path of constant delay.\<close>

definition steady_frame :: "u32 \<Rightarrow> nat \<Rightarrow> nat \<Rightarrow> nat \<Rightarrow> delay_event" where
  "steady_frame ts0 a0 d k = Frame (ts0 + of_nat (90 * d * k)) (of_nat (a0 + d * k))"

definition steady_inv :: "u32 \<Rightarrow> nat \<Rightarrow> nat \<Rightarrow> nat \<Rightarrow> trendline \<Rightarrow> bool" where
  "steady_inv ts0 a0 d k t \<longleftrightarrow>
     prev_send_ts t = Some (ts0 + of_nat (90 * d * k)) \<and> prev_arrival_ms t = of_nat (a0 + d * k) \<and>
     accumulated_ms t = 0 \<and> smoothed_ms t = 0 \<and> trend t = 0 \<and> state t = Normal \<and>
     threshold_ok (threshold_ms t) \<and> (\<forall>(x, y) \<in> set (samples t). y = 0)"

lemma sint_of_nat_small: "n < 2147483648 \<Longrightarrow> sint (of_nat n :: u32) = int n"
  by (simp add: signed_of_nat signed_take_bit_int_eq_self)

lemma send_delta:
  assumes "d \<le> 5000"
  shows "f64_div (rnd64 (of_int (sint ((ts0 + of_nat (90 * d * Suc k)) - (ts0 + of_nat (90 * d * k)) :: u32)))) 90 = of_nat d"
proof -
  have "((ts0 + of_nat (90 * d * Suc k)) - (ts0 + of_nat (90 * d * k)) :: u32) = of_nat (90 * d)"
    by (simp add: algebra_simps)
  moreover have "sint (of_nat (90 * d) :: u32) = int (90 * d)"
    using assms by (intro sint_of_nat_small) simp
  moreover have "rnd64 (of_int (int (90 * d))) = of_nat (90 * d)"
    using f64.nat_exact [of "90 * d"] assms by simp
  moreover have "rnd64 (of_nat d) = of_nat d" using f64.nat_exact [of d] assms by simp
  ultimately show ?thesis by (simp add: f64_div_def)
qed

lemma arrival_delta:
  assumes "a0 + d * Suc k \<le> 9007199254740992"
  shows "f64_sub (of_nat (a0 + d * Suc k)) (of_nat (a0 + d * k)) = of_nat d"
  using assms f64.nat_exact [of d] by (simp add: f64_sub_def algebra_simps)

lemma steady_step:
  assumes inv: "steady_inv ts0 a0 d k t" and d: "1 \<le> d" "d \<le> 5000" and a: "a0 + d * Suc k \<le> 9007199254740992"
  shows "steady_inv ts0 a0 d (Suc k) (delay_step (steady_frame ts0 a0 d (Suc k)) t)"
proof -
  let ?ts = "ts0 + of_nat (90 * d * Suc k)" and ?a = "of_nat (a0 + d * Suc k) :: rat" and ?d = "of_nat d :: rat"
  let ?t1 = "t\<lparr>last_arrival_ms := ?a, prev_send_ts := Some ?ts, prev_arrival_ms := ?a\<rparr>"
  let ?t = "absorb_delta ?d ?d ?a ?t1"
  have prev: "prev_send_ts t = Some (ts0 + of_nat (90 * d * k))" "f64_sub ?a (prev_arrival_ms t) = ?d"
    using inv arrival_delta [OF a] by (simp_all only: steady_inv_def)
  have "\<not> ?d \<le> 0" "\<not> 5000 < ?d" using d by auto
  then have step: "Trendline_on_frame ?ts ?a t = detect ?d ?a ?t"
    using prev send_delta [OF d(2), of ts0 k]
    by (simp add: Trendline_on_frame_def Let_def del: of_nat_mult of_nat_add mult_Suc_right)
  have flat: "\<forall>(x, y) \<in> set (samples ?t). y = 0"
    using inv absorb_delta_samples(2) [of ?d ?d ?a ?t1] by (fastforce simp: steady_inv_def)
  have "trend ?t = 0"
    using inv absorb_delta_trend [of ?d ?d ?a ?t1] linear_fit_flat [OF flat] by (auto simp: steady_inv_def)
  then show ?thesis
    using inv flat step detect_flat [of ?t ?d ?a] detect_threshold_ok [of ?t ?d ?a]
    by (simp add: steady_inv_def steady_frame_def del: of_nat_mult of_nat_add mult_Suc_right)
qed

lemma steady_run:
  assumes d: "1 \<le> d" "d \<le> 5000" and a: "a0 + d * n \<le> 9007199254740992"
  shows "steady_inv ts0 a0 d n (fold delay_step (map (steady_frame ts0 a0 d) [0..<Suc n]) Trendline_new)"
  using a
proof (induction n)
  case 0
  show ?case
    using delay_inv_new
    by (simp add: steady_inv_def steady_frame_def Trendline_on_frame_def Trendline_new_def delay_inv_def)
next
  case (Suc n)
  then show ?case using steady_step [OF _ d, of ts0 a0 n] by simp
qed

subsection \<open>Properties\<close>

text \<open>
  C16: after any sequence of frames and stream restarts the estimator keeps its invariant: the
  adaptive threshold stays between 6 and 600 ms, at most 20 samples are held, the overuse hypothesis always has
  its start time, and the overuse duration reported is never negative.
\<close>

theorem delay_estimator_invariant:
  "MIN_THRESHOLD_MS \<le> threshold_ms (fold delay_step es Trendline_new) \<and>
   threshold_ms (fold delay_step es Trendline_new) \<le> MAX_THRESHOLD_MS \<and>
   length (samples (fold delay_step es Trendline_new)) \<le> WINDOW \<and>
   (state (fold delay_step es Trendline_new), overuse_since_ms (fold delay_step es Trendline_new)) \<noteq> (Overuse, None) \<and>
   0 \<le> overuse_ms (fold delay_step es Trendline_new) now"
proof -
  have "delay_inv (fold delay_step es Trendline_new)" by (rule delay_inv_run [OF delay_inv_new])
  then show ?thesis
    by (auto simp: delay_inv_def threshold_ok_def overuse_ms_def split: delay_state.splits option.splits)
qed

text \<open>
  overuse is never declared on one frame alone: when a frame moves the estimator into the
  overuse hypothesis, the gain-scaled slope is above the threshold at that frame and had been above it at the
  frame before (the counter is running), the slope is not falling, and the hypothesis is dated at the frame's
  arrival, so the fast reflex starts counting from there.
\<close>

theorem overuse_needs_evidence:
  assumes "state t \<noteq> Overuse" and "state (Trendline_on_frame ts a t) = Overuse"
  shows "threshold_ms t < Trendline_trend (Trendline_on_frame ts a t) \<and> 1 \<le> overuse_counter t \<and>
    prev_trend t \<le> trend (Trendline_on_frame ts a t) \<and>
    overuse_since_ms (Trendline_on_frame ts a t) = Some a \<and> overuse_ms (Trendline_on_frame ts a t) a = 0"
proof -
  obtain ds da where t': "Trendline_on_frame ts a t = detect ds a
      (absorb_delta da ds a (t\<lparr>last_arrival_ms := a, prev_send_ts := Some ts, prev_arrival_ms := a\<rparr>))"
    using assms by (simp add: Trendline_on_frame_def Let_def split: option.splits if_splits)
  define t' where "t' = absorb_delta da ds a (t\<lparr>last_arrival_ms := a, prev_send_ts := Some ts, prev_arrival_ms := a\<rparr>)"
  note t' = t' [folded t'_def]
  have sel: "state t' = state t" "threshold_ms t' = threshold_ms t" "overuse_counter t' = overuse_counter t"
    "prev_trend t' = prev_trend t" by (simp_all add: t'_def)
  from detect_enters_overuse [of t' ds a] assms t' sel
  have "threshold_ms t < Trendline_trend t' \<and> 1 \<le> overuse_counter t \<and> prev_trend t \<le> trend t' \<and>
    overuse_since_ms (detect ds a t') = Some a" by simp
  then show ?thesis using t' assms(2) by (simp add: Trendline_trend_def overuse_ms_def)
qed

definition suspicious :: trendline where
  "suspicious = Trendline_new\<lparr>prev_send_ts := Some 0, trend := 1, num_deltas := 10,
     time_over_using_ms := 100, overuse_counter := 1\<rparr>"

theorem overuse_needs_evidence_witness:
  "state (Trendline_on_frame 1440 17 suspicious) = Overuse \<and> overuse_since_ms (Trendline_on_frame 1440 17 suspicious) = Some 17"
proof -
  have "state suspicious \<noteq> Overuse" "state (Trendline_on_frame 1440 17 suspicious) = Overuse" by code_simp+
  with overuse_needs_evidence [of suspicious 1440 17] show ?thesis by simp
qed

text \<open>
  a path of constant delay is never mistaken for a filling queue: frames sent every \<open>d\<close>
  milliseconds (up to 5 s) and received at the same pace keep the hypothesis at Normal with a zero trend,
  however long the stream runs and wherever the 32-bit 90 kHz send clock wraps.
\<close>

theorem steady_path_stays_normal:
  assumes "1 \<le> d" "d \<le> 5000" "a0 + d * n \<le> 9007199254740992"
  shows "state (fold delay_step (map (steady_frame ts0 a0 d) [0..<Suc n]) Trendline_new) = Normal \<and>
    Trendline_trend (fold delay_step (map (steady_frame ts0 a0 d) [0..<Suc n]) Trendline_new) = 0 \<and>
    overuse_ms (fold delay_step (map (steady_frame ts0 a0 d) [0..<Suc n]) Trendline_new) now = 0"
  using steady_run [OF assms, of ts0]
  by (simp add: steady_inv_def Trendline_trend_def overuse_ms_def del: upt_Suc)

theorem steady_path_stays_normal_witness:
  "state (fold delay_step (map (steady_frame 4294960000 1000 16) [0..<Suc 1000]) Trendline_new) = Normal"
  using steady_path_stays_normal [of 16 1000 1000 4294960000 0] by (simp del: upt_Suc)

end
