(* ===== verification/Pulsar_Controller.thy ===== *)
theory Pulsar_Controller
  imports Pulsar_Ladder Pulsar_Delay
begin

text \<open>
  The adaptive bitrate controller of \<^verbatim>\<open>adapt/controller.rs\<close>. The record \<open>controller\<close> is its state;
  every method is a function on it, returning the new state and, where the source fills one, the \<open>decision\<close>.
  \<^verbatim>\<open>u32\<close> counters and rates are natural numbers with the wrapping \<open>u32_add\<close> and \<open>u32_mul\<close> of a release
  build, \<^verbatim>\<open>f32\<close> and \<^verbatim>\<open>f64\<close> values are the rounded rationals of \<open>Pulsar_Float\<close>; the texts of the
  \<^verbatim>\<open>reason\<close> field are the constructors of \<open>reason\<close>.
\<close>

subsection \<open>Constants\<close>

definition FLOOR_KBPS :: nat where "FLOOR_KBPS = 300"
definition LOSS_CLEAN :: rat where "LOSS_CLEAN = rnd32 (5 / 1000)"
definition LOSS_DOWN :: rat where "LOSS_DOWN = rnd32 (3 / 100)"
definition LOSS_SEVERE :: rat where "LOSS_SEVERE = rnd32 (15 / 100)"
definition RTT_OK_MS :: rat where "RTT_OK_MS = 25"
definition RTT_EXCESS_MS :: rat where "RTT_EXCESS_MS = 35"
definition RTT_BAD_MS :: rat where "RTT_BAD_MS = 90"
definition CLEAN_WINDOWS_UP :: nat where "CLEAN_WINDOWS_UP = 10"
definition PROBE_WAIT_MIN :: nat where "PROBE_WAIT_MIN = 30"
definition PROBE_WAIT_MAX :: nat where "PROBE_WAIT_MAX = 480"
definition PROBE_PUNISH_WINDOWS :: nat where "PROBE_PUNISH_WINDOWS = 10"
definition COOLDOWN_WINDOWS :: nat where "COOLDOWN_WINDOWS = 3"
definition RECOVERY_LOSS :: rat where "RECOVERY_LOSS = rnd32 (5 / 1000)"
definition RECOVERY_WINDOWS :: nat where "RECOVERY_WINDOWS = 2"
definition PROBE_DOWN_WINDOWS :: nat where "PROBE_DOWN_WINDOWS = 2"
definition DEADBAND_LEARN_WINDOWS :: nat where "DEADBAND_LEARN_WINDOWS = 5"
definition LAST_GOOD_WINDOWS :: nat where "LAST_GOOD_WINDOWS = 15"
definition POINT_MARGIN :: rat where "POINT_MARGIN = rnd32 (85 / 100)"
definition UP_HEADROOM :: rat where "UP_HEADROOM = rnd32 (12 / 10)"
definition POINT_DEBOUNCE :: nat where "POINT_DEBOUNCE = 2"
definition FAST_OVERUSE_MS :: rat where "FAST_OVERUSE_MS = 500"
definition FAST_COOLDOWN_MS :: rat where "FAST_COOLDOWN_MS = 1500"
definition HOST_BOUND_CUTS :: nat where "HOST_BOUND_CUTS = 3"
definition POINT_RETRY_WINDOWS :: nat where "POINT_RETRY_WINDOWS = 150"
definition POINT_RETRY_MAX :: nat where "POINT_RETRY_MAX = 1200"
definition FAST_CLIMB_SHARE :: rat where "FAST_CLIMB_SHARE = 1 / 2"

subsection \<open>Data\<close>

datatype reason = NoReason | LossRecoveryMode | ProbeInconclusive | LossFollowedRate | LossLearnedNoise
  | DelayOveruse | DelayOveruseFast | RttBloatSevere | RttBloat | SevereLoss | LossQueued | LossProbeDown
  | StartupProbe | FastClimb | CleanClimb | CeilingProbe | MildLossNoise | FecShareChanged | HostBound
  | PointDown | PointUp

record sample =
  recv :: nat
  lost :: nat
  rtt_ms :: "rat list"
  nack_sent :: nat
  nack_ok :: nat
  fec_ok :: nat

record signals =
  sig_loss :: rat
  eff_loss :: rat
  sig_rtt_ms :: rat
  excess_ms :: rat
  jitter_ms :: rat
  sig_delay :: delay_state
  sig_trend :: rat

record decision =
  bitrate :: "nat option"
  dec_point :: "point option"
  dec_recovery :: "loss_recovery option"
  dec_reason :: reason

definition is_change :: "decision \<Rightarrow> bool" where
  "is_change d \<longleftrightarrow> bitrate d \<noteq> None \<or> dec_point d \<noteq> None \<or> dec_recovery d \<noteq> None"

record ctrl_config =
  codec :: vcodec
  native :: "nat \<times> nat \<times> nat"
  cap_kbps :: nat
  start_kbps :: nat
  ir_capable :: bool
  ladder :: bool
  startup_windows :: nat

definition Config_new :: "vcodec \<Rightarrow> nat \<Rightarrow> ctrl_config" where
  "Config_new c cap = \<lparr>codec = c, native = (0, 0, 0), cap_kbps = cap, start_kbps = 0, ir_capable = False,
     ladder = False, startup_windows = 5\<rparr>"

record probe_down =
  pd_from :: nat
  pre_loss :: rat
  pd_windows :: nat
  loss_acc :: rat
  pd_fec_overhead :: rat

record controller =
  cfg :: ctrl_config
  target :: nat
  cap :: nat
  ceiling :: nat
  clean :: nat
  at_ceiling :: nat
  probe_wait :: nat
  probe_age :: "nat option"
  since_step :: nat
  over :: nat
  lossy :: nat
  noise_loss :: rat
  probing_down :: "probe_down option"
  rtt_base :: rat
  rtt_ema :: rat
  rtt_last :: rat
  deadband :: nat
  recovery :: loss_recovery
  startup_left :: nat
  windows :: nat
  last_signals :: signals
  points :: "point list"
  point_idx :: nat
  point_age :: nat
  clean_at_point :: nat
  manual_point :: bool
  queue_cuts :: nat
  point_cap :: nat
  at_point_cap :: nat
  point_retry :: nat
  drain_left :: nat
  encoder_kbps :: nat
  fec_overhead :: rat
  delay :: trendline
  last_fast_cut_ms :: rat
  clean_at_target :: nat
  last_good :: nat

definition Signals_default :: signals where
  "Signals_default = \<lparr>sig_loss = 0, eff_loss = 0, sig_rtt_ms = 0, excess_ms = 0, jitter_ms = 0,
     sig_delay = Normal, sig_trend = 0\<rparr>"

definition Decision_default :: decision where
  "Decision_default = \<lparr>bitrate = None, dec_point = None, dec_recovery = None, dec_reason = NoReason\<rparr>"

definition encoder_rate :: "controller \<Rightarrow> nat" where
  "encoder_rate c = max (as_u32 (f32_mul (f32_of (target c)) (encoder_share_ratio (fec_overhead c))))
     (min FLOOR_KBPS (target c))"

definition Controller_new :: "ctrl_config \<Rightarrow> controller" where
  "Controller_new cf =
     (let cp = max (cap_kbps cf) FLOOR_KBPS;
          start = (if start_kbps cf = 0 then cp else clamp FLOOR_KBPS cp (start_kbps cf));
          pts = (case native cf of (w, h, f) \<Rightarrow> build (codec cf) w h f);
          idx = (if ladder cf then pick pts start POINT_MARGIN else 0);
          c = \<lparr>cfg = cf, target = start, cap = cp, ceiling = cp, clean = 0, at_ceiling = 0,
            probe_wait = PROBE_WAIT_MIN, probe_age = None, since_step = COOLDOWN_WINDOWS, over = 0, lossy = 0,
            noise_loss = 0, probing_down = None, rtt_base = 0, rtt_ema = 0, rtt_last = 0, deadband = 0,
            recovery = RecNormal, startup_left = startup_windows cf, windows = 0, last_signals = Signals_default,
            points = pts, point_idx = idx, point_age = POINT_DEBOUNCE, clean_at_point = 0,
            manual_point = (\<not> ladder cf), queue_cuts = 0, point_cap = 0, at_point_cap = 0, point_retry = 0,
            drain_left = 0, encoder_kbps = 0, fec_overhead = 0, delay = Trendline_new,
            last_fast_cut_ms = - 1000000000, clean_at_target = 0, last_good = 0\<rparr>
      in c\<lparr>encoder_kbps := encoder_rate c\<rparr>)"

definition Controller_point :: "controller \<Rightarrow> point" where
  "Controller_point c = points c ! point_idx c"

definition preferred_recovery :: "controller \<Rightarrow> loss_recovery" where
  "preferred_recovery c = (if ir_capable (cfg c) then IntraRefresh else ShortGop)"

subsection \<open>Inputs between windows\<close>

definition Controller_on_frame :: "u32 \<Rightarrow> rat \<Rightarrow> controller \<Rightarrow> controller" where
  "Controller_on_frame ts a c = c\<lparr>delay := Trendline_on_frame ts a (delay c)\<rparr>"

definition set_fec_overhead :: "rat \<Rightarrow> controller \<Rightarrow> controller" where
  "set_fec_overhead overhead c = c\<lparr>fec_overhead := max overhead 0\<rparr>"

definition set_fec_n :: "u8 \<Rightarrow> controller \<Rightarrow> controller" where
  "set_fec_n n c = set_fec_overhead (if n = 0 then 0 else f32_div 1 (f32_of (unat n))) c"

definition set_target :: "nat \<Rightarrow> controller \<Rightarrow> controller" where
  "set_target kbps c0 =
     (let c = c0\<lparr>target := clamp FLOOR_KBPS (cap c0) kbps, since_step := 0\<rparr>
      in c\<lparr>encoder_kbps := encoder_rate c\<rparr>)"

definition set_manual_point :: "bool \<Rightarrow> controller \<Rightarrow> controller" where
  "set_manual_point manual c0 =
     (let c = c0\<lparr>manual_point := manual\<rparr> in
      if \<not> manual
      then c\<lparr>point_idx := max (pick (points c) (target c) POINT_MARGIN) (point_cap c), point_age := 0\<rparr>
      else c)"

definition on_stream_restart :: "controller \<Rightarrow> controller" where
  "on_stream_restart c = c\<lparr>delay := Trendline_reset (delay c)\<rparr>"

subsection \<open>Rate and ladder moves\<close>

type_synonym outcome = "controller \<times> decision"

definition punish :: "nat \<Rightarrow> controller \<Rightarrow> controller" where
  "punish bad_rate c =
     c\<lparr>ceiling := clamp FLOOR_KBPS (cap c) (bad_rate * 85 div 100),
       probe_wait := (case probe_age c of
           Some a \<Rightarrow> if a \<le> PROBE_PUNISH_WINDOWS then min (u32_mul (probe_wait c) 2) PROBE_WAIT_MAX else probe_wait c
         | None \<Rightarrow> probe_wait c),
       probe_age := None, clean := 0, at_ceiling := 0, over := 0, clean_at_point := 0, startup_left := 0\<rparr>"

definition apply_rate :: "nat \<Rightarrow> outcome \<Rightarrow> outcome" where
  "apply_rate kbps0 = (\<lambda>(c, out).
     let kbps = clamp FLOOR_KBPS (cap c) kbps0;
         c = c\<lparr>since_step := 0, clean_at_target := (if kbps \<noteq> target c then 0 else clean_at_target c), target := kbps\<rparr>;
         enc = encoder_rate c
     in if enc \<noteq> encoder_kbps c then (c\<lparr>encoder_kbps := enc\<rparr>, out\<lparr>bitrate := Some enc\<rparr>) else (c, out))"

definition host_bound_next :: "controller \<Rightarrow> nat option" where
  "host_bound_next c =
     (let cur = points c ! point_idx c in
      find (\<lambda>i. load (points c ! i) < load cur \<and> fps (points c ! i) \<le> fps cur) [point_idx c + 1 ..< length (points c)])"

definition step_down_host_bound :: "outcome \<Rightarrow> outcome option" where
  "step_down_host_bound = (\<lambda>(c, out).
     if manual_point c then None
     else case host_bound_next c of
       None \<Rightarrow> None
     | Some next \<Rightarrow>
         Some (c\<lparr>point_retry := (if point_retry c = 0 then POINT_RETRY_WINDOWS
                                  else min (u32_mul (point_retry c) 2) POINT_RETRY_MAX),
                 point_idx := next, point_cap := next, at_point_cap := 0, point_age := 0, clean_at_point := 0,
                 since_step := 0, startup_left := 0, drain_left := 2\<rparr>,
               out\<lparr>dec_point := Some (points c ! next), dec_reason := HostBound\<rparr>))"

definition rate_cut :: "nat \<Rightarrow> nat \<Rightarrow> outcome \<Rightarrow> outcome" where
  "rate_cut prev_rate to = (\<lambda>(c, out).
     let old = ceiling c; c = punish prev_rate c;
         c = (if queue_cuts c > 1 then c\<lparr>ceiling := max (ceiling c) old\<rparr> else c)
     in apply_rate to (c, out))"

definition queue_cut :: "nat \<Rightarrow> nat \<Rightarrow> outcome \<Rightarrow> outcome" where
  "queue_cut prev_rate to = (\<lambda>(c0, out).
     let c = c0\<lparr>queue_cuts := u32_add (queue_cuts c0) 1\<rparr> in
     case (if queue_cuts c \<ge> HOST_BOUND_CUTS then step_down_host_bound (c, out) else None) of
       Some (c', out') \<Rightarrow> (c'\<lparr>queue_cuts := 0\<rparr>, out')
     | None \<Rightarrow> rate_cut prev_rate to (c, out))"

definition set_reason_if_empty :: "reason \<Rightarrow> decision \<Rightarrow> decision" where
  "set_reason_if_empty r out = (if dec_reason out = NoReason then out\<lparr>dec_reason := r\<rparr> else out)"

definition ladder_down :: "bool \<Rightarrow> outcome \<Rightarrow> outcome" where
  "ladder_down urgent = (\<lambda>(c, out).
     let cur = points c ! point_idx c;
         severe = f32_of (target c) < f32_mul (f32_of (min_kbps cur)) (rnd32 (7 / 10))
     in if point_age c \<ge> POINT_DEBOUNCE \<or> severe \<or> urgent then
          let want = max (pick (points c) (target c) POINT_MARGIN) (point_idx c + 1);
              idx = min want (length (points c) - 1)
          in (c\<lparr>point_idx := idx, point_age := 0, clean_at_point := 0\<rparr>,
              set_reason_if_empty PointDown (out\<lparr>dec_point := Some (points c ! idx)\<rparr>))
        else (c, out))"

definition ladder_up :: "outcome \<Rightarrow> outcome" where
  "ladder_up = (\<lambda>(c, out).
     let need = (if startup_left c > 0 then 2 else CLEAN_WINDOWS_UP);
         want = max (pick (points c) (target c) (f32_div 1 UP_HEADROOM)) (point_cap c)
     in if want < point_idx c \<and> clean_at_point c \<ge> need \<and> point_age c \<ge> POINT_DEBOUNCE then
          (c\<lparr>point_idx := want, point_age := 0, clean_at_point := 0\<rparr>,
           set_reason_if_empty PointUp (out\<lparr>dec_point := Some (points c ! want)\<rparr>))
        else (c, out))"

definition apply_ladder :: "bool \<Rightarrow> outcome \<Rightarrow> outcome" where
  "apply_ladder urgent = (\<lambda>(c, out).
     if manual_point c \<or> length (points c) < 2 then (c, out)
     else if target c < min_kbps (points c ! point_idx c) \<and> point_idx c + 1 < length (points c)
       then ladder_down urgent (c, out)
     else if point_idx c > 0 then ladder_up (c, out)
     else (c, out))"

definition poll_fast :: "rat \<Rightarrow> controller \<Rightarrow> controller \<times> decision option" where
  "poll_fast now_ms c0 =
     (if overuse_ms (delay c0) now_ms < FAST_OVERUSE_MS \<or> f64_sub now_ms (last_fast_cut_ms c0) < FAST_COOLDOWN_MS
         \<or> target c0 \<le> FLOOR_KBPS \<or> drain_left c0 > 0
      then (c0, None)
      else
        let c = c0\<lparr>last_fast_cut_ms := now_ms\<rparr>; prev_rate = target c;
            d = Decision_default\<lparr>dec_reason := DelayOveruseFast\<rparr>;
            (c, d) = apply_ladder True (queue_cut prev_rate (u32_mul prev_rate 85 div 100) (c, d))
        in (c, Some d))"

subsection \<open>The window decision\<close>

definition finish :: "outcome \<Rightarrow> outcome" where
  "finish = (\<lambda>(c0, out0).
     let (c, out) = apply_ladder False
           (c0\<lparr>startup_left := saturating_sub (startup_left c0) 1, drain_left := saturating_sub (drain_left c0) 1\<rparr>, out0);
         enc = encoder_rate c
     in if enc \<noteq> encoder_kbps c then
          (c\<lparr>encoder_kbps := enc\<rparr>,
           if bitrate out = None then set_reason_if_empty FecShareChanged (out\<lparr>bitrate := Some enc\<rparr>) else out)
        else (c, out))"

record rtt_acc =
  acc_base :: rat
  acc_last :: rat
  jitter_acc :: rat
  jitter_n :: nat
  rtt_sum :: rat
  rtt_n :: nat

definition rtt_sample :: "rtt_acc \<Rightarrow> rat \<Rightarrow> rtt_acc" where
  "rtt_sample a x =
     (if x \<le> 0 then a
      else
        a\<lparr>rtt_sum := f32_add (rtt_sum a) x, rtt_n := u32_add (rtt_n a) 1,
          acc_base := (if acc_base a \<le> 0 \<or> x < acc_base a then x else acc_base a),
          jitter_acc := (if acc_last a > 0 then f32_add (jitter_acc a) \<bar>f32_sub x (acc_last a)\<bar> else jitter_acc a),
          jitter_n := (if acc_last a > 0 then u32_add (jitter_n a) 1 else jitter_n a),
          acc_last := x\<rparr>)"

definition update_rtt :: "rat list \<Rightarrow> controller \<Rightarrow> controller \<times> rat \<times> rat \<times> rat" where
  "update_rtt xs c =
     (let a = foldl rtt_sample
            \<lparr>acc_base = rtt_base c, acc_last = rtt_last c, jitter_acc = 0, jitter_n = 0, rtt_sum = 0, rtt_n = 0\<rparr> xs;
          mean = f32_div (rtt_sum a) (f32_of (rtt_n a));
          ema = (if rtt_n a > 0
                 then (if rtt_ema c \<le> 0 \<or> rtt_n a \<ge> 2 then mean else f32_mul (f32_add (rtt_ema c) mean) (1 / 2))
                 else rtt_ema c);
          base = (if acc_base a > 0 \<and> ema > acc_base a
                  then f32_add (acc_base a) (f32_mul (f32_sub ema (acc_base a)) (rnd32 (2 / 100)))
                  else acc_base a);
          excess = (if base > 0 \<and> ema > 0 then max (f32_sub ema base) 0 else 0);
          jitter = (if jitter_n a > 0 then f32_div (jitter_acc a) (f32_of (jitter_n a)) else 0)
      in (c\<lparr>rtt_base := base, rtt_last := acc_last a, rtt_ema := ema\<rparr>, ema, excess, jitter))"

definition tick_count :: "controller \<Rightarrow> controller" where
  "tick_count c =
     c\<lparr>windows := u32_add (windows c) 1, since_step := saturating_add (since_step c) 1,
       point_age := saturating_add (point_age c) 1, probe_age := map_option (\<lambda>a. u32_add a 1) (probe_age c)\<rparr>"

definition window_loss :: "sample \<Rightarrow> rat" where
  "window_loss s = (let tot = u32_add (recv s) (lost s) in
     if tot > 0 then f32_div (f32_of (lost s)) (f32_of tot) else 0)"

definition tick_signals :: "sample \<Rightarrow> controller \<Rightarrow> controller" where
  "tick_signals s c0 =
     (let loss = window_loss s;
          (c, rtt, excess, jitter) = update_rtt (rtt_ms s) c0;
          c = (if loss < noise_loss c then c\<lparr>noise_loss := loss\<rparr> else c)
      in c\<lparr>last_signals := \<lparr>sig_loss = loss, eff_loss = max (f32_sub loss (noise_loss c)) 0, sig_rtt_ms = rtt,
             excess_ms = excess, jitter_ms = jitter, sig_delay = state (delay c),
             sig_trend = rnd32 (Trendline_trend (delay c))\<rparr>\<rparr>)"

definition tick_recovery :: "nat \<Rightarrow> rat \<Rightarrow> outcome \<Rightarrow> outcome" where
  "tick_recovery tot loss = (\<lambda>(c0, out).
     let c = c0\<lparr>lossy := (if tot > 50 \<and> loss > RECOVERY_LOSS then u32_add (lossy c0) 1 else 0)\<rparr>
     in if recovery c = RecNormal \<and> tot > 50 \<and> (lossy c \<ge> RECOVERY_WINDOWS \<or> loss > LOSS_DOWN)
        then (c\<lparr>recovery := preferred_recovery c\<rparr>,
              out\<lparr>dec_recovery := Some (preferred_recovery c), dec_reason := LossRecoveryMode\<rparr>)
        else (c, out))"

definition with_reason :: "reason \<Rightarrow> outcome \<Rightarrow> outcome" where
  "with_reason r = (\<lambda>(c, out). (c, out\<lparr>dec_reason := r\<rparr>))"

definition judge_probe_down :: "rat \<Rightarrow> probe_down \<Rightarrow> outcome \<Rightarrow> outcome" where
  "judge_probe_down loss pd0 = (\<lambda>(c, out).
     let pd = pd0\<lparr>pd_windows := u32_add (pd_windows pd0) 1, loss_acc := f32_add (loss_acc pd0) loss\<rparr> in
     if pd_windows pd < PROBE_DOWN_WINDOWS then (c\<lparr>probing_down := Some pd\<rparr>, out)
     else
       let c = c\<lparr>probing_down := None\<rparr>; after = f32_div (loss_acc pd) (f32_of (pd_windows pd)) in
       if \<bar>f32_sub (pd_fec_overhead pd) (fec_overhead c)\<bar> > rnd32 (1 / 1000000)
         then with_reason ProbeInconclusive (apply_rate (pd_from pd) (c, out))
       else if after \<le> f32_mul (pre_loss pd) (rnd32 (6 / 10))
         then with_reason LossFollowedRate (punish (pd_from pd) c, out)
       else with_reason LossLearnedNoise
         (apply_rate (pd_from pd) (c\<lparr>noise_loss := max (noise_loss c) after\<rparr>, out)))"

definition excess_now :: "controller \<Rightarrow> rat" where
  "excess_now c = (if rtt_base c > 0 \<and> rtt_last c > 0 then max (f32_sub (rtt_last c) (rtt_base c)) 0 else 0)"

definition draining :: "controller \<Rightarrow> bool" where
  "draining c \<longleftrightarrow> (sig_delay (last_signals c) = Underuse \<or>
     excess_ms (last_signals c) \<ge> RTT_OK_MS \<and> excess_now c < RTT_OK_MS)"

definition queued :: "controller \<Rightarrow> bool" where
  "queued c \<longleftrightarrow> (\<not> draining c \<and> (excess_ms (last_signals c) \<ge> RTT_OK_MS \<or> sig_delay (last_signals c) = Overuse))"

definition sustained_loss :: "rat \<Rightarrow> outcome \<Rightarrow> outcome" where
  "sustained_loss loss = (\<lambda>(c0, out).
     let c = c0\<lparr>over := u32_add (over c0) 1, clean := 0, at_ceiling := 0, clean_at_point := 0\<rparr>; prev_rate = target c in
     if over c \<ge> 2 \<and> since_step c \<ge> COOLDOWN_WINDOWS \<and> target c > FLOOR_KBPS then
       (if queued c then with_reason LossQueued (apply_rate (u32_mul prev_rate 7 div 10) (punish prev_rate c, out))
        else with_reason LossProbeDown (apply_rate (u32_mul prev_rate 4 div 5)
          (c\<lparr>over := 0, probing_down := Some \<lparr>pd_from = prev_rate, pre_loss = loss, pd_windows = 0, loss_acc = 0,
             pd_fec_overhead = fec_overhead c\<rparr>\<rparr>, out)))
     else (c, out))"

definition clean_bookkeeping :: "controller \<Rightarrow> controller" where
  "clean_bookkeeping c0 =
     (let c = c0\<lparr>over := 0, deadband := 0\<rparr>;
          c = (case probe_age c of
                 Some a \<Rightarrow> if a \<ge> PROBE_PUNISH_WINDOWS
                   then c\<lparr>probe_age := None, probe_wait := max (probe_wait c div 2) PROBE_WAIT_MIN\<rparr> else c
               | None \<Rightarrow> c);
          c = c\<lparr>clean_at_point := u32_add (clean_at_point c) 1, clean_at_target := u32_add (clean_at_target c) 1\<rparr>;
          c = (if clean_at_target c \<ge> LAST_GOOD_WINDOWS then c\<lparr>last_good := target c\<rparr> else c)
      in if point_cap c > 0 \<and> point_idx c = point_cap c then
           let c = c\<lparr>at_point_cap := u32_add (at_point_cap c) 1\<rparr>
           in if at_point_cap c \<ge> point_retry c then c\<lparr>at_point_cap := 0, point_cap := point_cap c - 1\<rparr> else c
         else c)"

definition climb_rule :: "controller \<Rightarrow> nat \<times> rat \<times> reason" where
  "climb_rule c =
     (let far = f32_of (target c) < f32_mul (f32_of (ceiling c)) FAST_CLIMB_SHARE in
      if startup_left c > 0 then (1, 3 / 2, StartupProbe)
      else if far then (2, 3 / 2, FastClimb)
      else (CLEAN_WINDOWS_UP, 5 / 4, CleanClimb))"

definition climb :: "outcome \<Rightarrow> outcome" where
  "climb = (\<lambda>(c0, out).
     if target c0 < ceiling c0 then
       let c = c0\<lparr>clean := u32_add (clean c0) 1, at_ceiling := 0\<rparr>; (need, factor, why) = climb_rule c in
       if clean c \<ge> need then
         with_reason why
           (apply_rate (min (as_u32 (f64_mul (f64_of (target c)) factor)) (ceiling c)) (c\<lparr>clean := 0\<rparr>, out))
       else (c, out)
     else
       let c = c0\<lparr>clean := 0, at_ceiling := u32_add (at_ceiling c0) 1\<rparr> in
       if at_ceiling c \<ge> probe_wait c \<and> ceiling c < cap c then
         let next = min (target c * 11 div 10) (cap c) in
         with_reason CeilingProbe
           (apply_rate next (c\<lparr>at_ceiling := 0, ceiling := max next (ceiling c), probe_age := Some 0\<rparr>, out))
       else (c, out))"

definition deadband_window :: "nat \<Rightarrow> rat \<Rightarrow> rat \<Rightarrow> outcome \<Rightarrow> outcome" where
  "deadband_window tot loss eff = (\<lambda>(c0, out).
     let c = c0\<lparr>over := 0, clean := 0, at_ceiling := 0\<rparr> in
     if tot > 100 \<and> eff > 0 \<and> eff \<le> LOSS_DOWN \<and> \<not> queued c \<and> sig_delay (last_signals c) \<noteq> Underuse then
       let c = c\<lparr>deadband := u32_add (deadband c) 1\<rparr> in
       if deadband c \<ge> DEADBAND_LEARN_WINDOWS
       then (c\<lparr>deadband := 0, noise_loss := max (noise_loss c) loss\<rparr>, out\<lparr>dec_reason := MildLossNoise\<rparr>)
       else (c, out)
     else (c\<lparr>deadband := 0\<rparr>, out))"

definition delay_cut_due :: "controller \<Rightarrow> bool" where
  "delay_cut_due c \<longleftrightarrow> sig_delay (last_signals c) = Overuse \<and> target c > FLOOR_KBPS \<and> since_step c \<ge> 1 \<and> drain_left c = 0"

definition rtt_cut_due :: "controller \<Rightarrow> bool" where
  "rtt_cut_due c \<longleftrightarrow> excess_ms (last_signals c) \<ge> RTT_EXCESS_MS \<and> \<not> draining c \<and> drain_left c = 0 \<and>
     target c > FLOOR_KBPS \<and> since_step c \<ge> 1"

definition clean_window :: "nat \<Rightarrow> rat \<Rightarrow> controller \<Rightarrow> bool" where
  "clean_window tot eff c \<longleftrightarrow> tot > 0 \<and> eff < LOSS_CLEAN \<and> \<not> queued c \<and> sig_delay (last_signals c) \<noteq> Underuse"

text \<open>The rate rules after the probe-down judgement, in the order of the source's early returns.\<close>

definition loss_rules :: "nat \<Rightarrow> rat \<Rightarrow> outcome \<Rightarrow> outcome" where
  "loss_rules tot loss = (\<lambda>(c0, out).
     let c = (if \<not> queued c0 then c0\<lparr>queue_cuts := 0\<rparr> else c0); eff = eff_loss (last_signals c) in
     if tot > 100 \<and> loss > LOSS_SEVERE \<and> target c > FLOOR_KBPS
       then with_reason SevereLoss (apply_rate (target c div 2) (punish (target c) c, out))
     else if tot > 100 \<and> eff > LOSS_DOWN then sustained_loss loss (c, out)
     else if clean_window tot eff c then climb (clean_bookkeeping c, out)
     else deadband_window tot loss eff (c, out))"

definition rate_rules :: "nat \<Rightarrow> rat \<Rightarrow> outcome \<Rightarrow> outcome" where
  "rate_rules tot loss = (\<lambda>(c, out).
     let prev_rate = target c; excess = excess_ms (last_signals c) in
     if delay_cut_due c then queue_cut prev_rate (u32_mul prev_rate 85 div 100) (c, out\<lparr>dec_reason := DelayOveruse\<rparr>)
     else if rtt_cut_due c then
       queue_cut prev_rate (if excess \<ge> RTT_BAD_MS then prev_rate div 2 else u32_mul prev_rate 7 div 10)
         (c, out\<lparr>dec_reason := (if excess \<ge> RTT_BAD_MS then RttBloatSevere else RttBloat)\<rparr>)
     else loss_rules tot loss (c, out))"

definition tick :: "sample \<Rightarrow> controller \<Rightarrow> outcome" where
  "tick s c0 =
     (let tot = u32_add (recv s) (lost s); loss = window_loss s;
          (c, out) = tick_recovery tot loss (tick_signals s (tick_count c0), Decision_default)
      in finish (case probing_down c of
           Some pd \<Rightarrow> judge_probe_down loss pd (c, out)
         | None \<Rightarrow> rate_rules tot loss (c, out)))"

subsection \<open>Invariant of the controller\<close>

definition probe_ok :: "nat \<Rightarrow> probe_down option \<Rightarrow> bool" where
  "probe_ok cp p = (case p of None \<Rightarrow> True
     | Some pd \<Rightarrow> FLOOR_KBPS \<le> pd_from pd \<and> pd_from pd \<le> cp \<and> pd_windows pd < PROBE_DOWN_WINDOWS)"

definition rate_inv :: "controller \<Rightarrow> bool" where
  "rate_inv c \<longleftrightarrow> FLOOR_KBPS \<le> cap c \<and> cap c \<le> u32_max \<and> FLOOR_KBPS \<le> target c \<and> target c \<le> cap c \<and>
     FLOOR_KBPS \<le> ceiling c \<and> ceiling c \<le> cap c \<and> probe_ok (cap c) (probing_down c)"

definition wait_inv :: "controller \<Rightarrow> bool" where
  "wait_inv c \<longleftrightarrow> PROBE_WAIT_MIN \<le> probe_wait c \<and> probe_wait c \<le> PROBE_WAIT_MAX \<and>
     point_retry c \<le> POINT_RETRY_MAX \<and> drain_left c \<le> 2"

definition point_inv :: "controller \<Rightarrow> bool" where
  "point_inv c \<longleftrightarrow> points c \<noteq> [] \<and> point_cap c \<le> point_idx c \<and> point_idx c < length (points c)"

definition signal_inv :: "controller \<Rightarrow> bool" where
  "signal_inv c \<longleftrightarrow> 0 \<le> noise_loss c \<and> 0 \<le> fec_overhead c \<and> delay_inv (delay c)"

lemmas bound_defs = PROBE_WAIT_MIN_def PROBE_WAIT_MAX_def POINT_RETRY_MAX_def POINT_RETRY_WINDOWS_def

lemma probe_ok_None [simp]: "probe_ok cp None"
  by (simp add: probe_ok_def)

lemma window_loss_nonneg: "0 \<le> window_loss s"
  by (simp add: window_loss_def Let_def f32_div_def f32.nonneg)

lemma rate_inv_apply_rate: "rate_inv c \<Longrightarrow> rate_inv (fst (apply_rate k (c, out)))"
  by (simp add: apply_rate_def rate_inv_def Let_def)

lemma rate_inv_punish: "rate_inv c \<Longrightarrow> rate_inv (punish k c)"
  by (simp add: punish_def rate_inv_def)

lemma rate_inv_rate_cut: "rate_inv c \<Longrightarrow> rate_inv (fst (rate_cut k k' (c, out)))"
  by (auto simp: rate_cut_def Let_def intro!: rate_inv_apply_rate rate_inv_punish)
    (auto simp: rate_inv_def punish_def max.coboundedI2)

lemma rate_inv_step_down: "rate_inv c \<Longrightarrow> step_down_host_bound (c, out) = Some r \<Longrightarrow> rate_inv (fst r)"
  by (auto simp: step_down_host_bound_def rate_inv_def split: if_splits option.splits)

lemma queue_cut_cases:
  "\<exists>q. queue_cut k k' (c, out) = rate_cut k k' (c\<lparr>queue_cuts := q\<rparr>, out) \<or>
     (\<exists>c' out'. step_down_host_bound (c\<lparr>queue_cuts := q\<rparr>, out) = Some (c', out') \<and>
       queue_cut k k' (c, out) = (c'\<lparr>queue_cuts := 0\<rparr>, out'))"
  by (rule exI [of _ "u32_add (queue_cuts c) 1"]) (auto simp: queue_cut_def Let_def split: option.split)

lemma rate_inv_queue_cut:
  assumes "rate_inv c"
  shows "rate_inv (fst (queue_cut k k' (c, out)))"
proof -
  have q: "rate_inv (c\<lparr>queue_cuts := q\<rparr>)" for q using assms by (simp add: rate_inv_def)
  have "rate_inv c' \<Longrightarrow> rate_inv (c'\<lparr>queue_cuts := 0\<rparr>)" for c' by (simp add: rate_inv_def)
  then show ?thesis using queue_cut_cases [of k k' c out] rate_inv_rate_cut [OF q] rate_inv_step_down [OF q] by force
qed

text \<open>A ladder move writes the point fields of the state and of the decision and nothing else.\<close>

lemma ladder_move_form:
  "\<exists>i a k p r. apply_ladder u (c, out) =
     (c\<lparr>point_idx := i, point_age := a, clean_at_point := k\<rparr>, out\<lparr>dec_point := p, dec_reason := r\<rparr>)"
proof -
  have keep: "(c, out) = (c\<lparr>point_idx := point_idx c, point_age := point_age c, clean_at_point := clean_at_point c\<rparr>,
      out\<lparr>dec_point := dec_point out, dec_reason := dec_reason out\<rparr>)" by simp
  have reason: "set_reason_if_empty r (out\<lparr>dec_point := p\<rparr>) =
      out\<lparr>dec_point := p, dec_reason := (if dec_reason out = NoReason then r else dec_reason out)\<rparr>" for r p
    by (simp add: set_reason_if_empty_def)
  have "\<exists>i a k p r. ladder_down u (c, out) =
     (c\<lparr>point_idx := i, point_age := a, clean_at_point := k\<rparr>, out\<lparr>dec_point := p, dec_reason := r\<rparr>)"
    unfolding ladder_down_def Let_def prod.case reason by (subst if_split) (use keep in blast)
  moreover have "\<exists>i a k p r. ladder_up (c, out) =
     (c\<lparr>point_idx := i, point_age := a, clean_at_point := k\<rparr>, out\<lparr>dec_point := p, dec_reason := r\<rparr>)"
    unfolding ladder_up_def Let_def prod.case reason by (subst if_split) (use keep in blast)
  moreover have "apply_ladder u (c, out) = (c, out) \<or> apply_ladder u (c, out) = ladder_down u (c, out) \<or>
      apply_ladder u (c, out) = ladder_up (c, out)" by (simp add: apply_ladder_def)
  moreover have "\<exists>i a k p r. (c, out) =
     (c\<lparr>point_idx := i, point_age := a, clean_at_point := k\<rparr>, out\<lparr>dec_point := p, dec_reason := r\<rparr>)"
    using keep by blast
  ultimately show ?thesis by metis
qed

lemma apply_ladder_rate [simp]:
  "target (fst (apply_ladder u (c, out))) = target c" "cap (fst (apply_ladder u (c, out))) = cap c"
  "ceiling (fst (apply_ladder u (c, out))) = ceiling c" "probing_down (fst (apply_ladder u (c, out))) = probing_down c"
  "fec_overhead (fst (apply_ladder u (c, out))) = fec_overhead c" "encoder_kbps (fst (apply_ladder u (c, out))) = encoder_kbps c"
  "bitrate (snd (apply_ladder u (c, out))) = bitrate out" "dec_recovery (snd (apply_ladder u (c, out))) = dec_recovery out"
  "recovery (fst (apply_ladder u (c, out))) = recovery c" "points (fst (apply_ladder u (c, out))) = points c"
  "probe_wait (fst (apply_ladder u (c, out))) = probe_wait c" "point_retry (fst (apply_ladder u (c, out))) = point_retry c"
  "drain_left (fst (apply_ladder u (c, out))) = drain_left c" "noise_loss (fst (apply_ladder u (c, out))) = noise_loss c"
  "delay (fst (apply_ladder u (c, out))) = delay c" "point_cap (fst (apply_ladder u (c, out))) = point_cap c"
  "startup_left (fst (apply_ladder u (c, out))) = startup_left c" "queue_cuts (fst (apply_ladder u (c, out))) = queue_cuts c"
  "last_fast_cut_ms (fst (apply_ladder u (c, out))) = last_fast_cut_ms c"
  using ladder_move_form [of u c out] by auto

lemma rate_inv_finish: "rate_inv c \<Longrightarrow> rate_inv (fst (finish (c, out)))"
  by (simp add: finish_def rate_inv_def Let_def case_prod_beta)

lemma with_reason_sel [simp]:
  "fst (with_reason r x) = fst x" "bitrate (snd (with_reason r x)) = bitrate (snd x)"
  "dec_point (snd (with_reason r x)) = dec_point (snd x)" "dec_recovery (snd (with_reason r x)) = dec_recovery (snd x)"
  by (simp_all add: with_reason_def case_prod_beta)

lemma rate_inv_judge: "rate_inv c \<Longrightarrow> rate_inv (fst (judge_probe_down loss pd (c, out)))" if "probe_ok (cap c) (Some pd)"
  using that
  by (auto simp: judge_probe_down_def Let_def intro!: rate_inv_apply_rate rate_inv_punish)
    (auto simp: rate_inv_def probe_ok_def)

lemma rate_inv_sustained: "rate_inv c \<Longrightarrow> rate_inv (fst (sustained_loss loss (c, out)))"
  by (auto simp: sustained_loss_def Let_def intro!: rate_inv_apply_rate rate_inv_punish)
    (auto simp: rate_inv_def probe_ok_def PROBE_DOWN_WINDOWS_def)

lemma rate_inv_clean: "rate_inv c \<Longrightarrow> rate_inv (clean_bookkeeping c)"
  by (simp add: clean_bookkeeping_def Let_def rate_inv_def split: option.split)

lemma rate_inv_climb: "rate_inv c \<Longrightarrow> rate_inv (fst (climb (c, out)))"
  by (auto simp: climb_def climb_rule_def Let_def intro!: rate_inv_apply_rate)
    (auto simp: rate_inv_def max.coboundedI2)

lemma rate_inv_deadband: "rate_inv c \<Longrightarrow> rate_inv (fst (deadband_window tot loss eff (c, out)))"
  by (simp add: deadband_window_def Let_def rate_inv_def)

lemma rate_inv_rules: "rate_inv c \<Longrightarrow> rate_inv (fst (rate_rules tot loss (c, out)))"
proof -
  assume "rate_inv c"
  then have "rate_inv (if \<not> queued c then c\<lparr>queue_cuts := 0\<rparr> else c)" by (simp add: rate_inv_def)
  with \<open>rate_inv c\<close> show ?thesis
    by (simp add: rate_rules_def loss_rules_def Let_def rate_inv_queue_cut rate_inv_apply_rate rate_inv_punish
        rate_inv_sustained rate_inv_clean rate_inv_climb rate_inv_deadband)
qed

definition tick_prepare :: "sample \<Rightarrow> controller \<Rightarrow> outcome" where
  "tick_prepare s c = tick_recovery (u32_add (recv s) (lost s)) (window_loss s) (tick_signals s (tick_count c), Decision_default)"

lemma tick_split:
  "tick s c0 = finish (case probing_down (fst (tick_prepare s c0)) of
       Some pd \<Rightarrow> judge_probe_down (window_loss s) pd (tick_prepare s c0)
     | None \<Rightarrow> rate_rules (u32_add (recv s) (lost s)) (window_loss s) (tick_prepare s c0))"
  unfolding tick_def tick_prepare_def [symmetric] Let_def by (cases "tick_prepare s c0") (simp split: option.split)

lemma update_rtt_frame:
  "\<exists>b l e r1 r2 r3. update_rtt xs c = (c\<lparr>rtt_base := b, rtt_last := l, rtt_ema := e\<rparr>, r1, r2, r3)"
  unfolding update_rtt_def Let_def by blast

lemma tick_signals_sel [simp]:
  "target (tick_signals s c) = target c" "cap (tick_signals s c) = cap c"
  "ceiling (tick_signals s c) = ceiling c" "probing_down (tick_signals s c) = probing_down c"
  "fec_overhead (tick_signals s c) = fec_overhead c" "encoder_kbps (tick_signals s c) = encoder_kbps c"
  "points (tick_signals s c) = points c" "point_idx (tick_signals s c) = point_idx c"
  "point_cap (tick_signals s c) = point_cap c" "probe_wait (tick_signals s c) = probe_wait c"
  "point_retry (tick_signals s c) = point_retry c" "drain_left (tick_signals s c) = drain_left c"
  "delay (tick_signals s c) = delay c" "cfg (tick_signals s c) = cfg c"
  "queue_cuts (tick_signals s c) = queue_cuts c" "manual_point (tick_signals s c) = manual_point c"
  "startup_left (tick_signals s c) = startup_left c" "clean (tick_signals s c) = clean c"
  "since_step (tick_signals s c) = since_step c" "recovery (tick_signals s c) = recovery c"
  "lossy (tick_signals s c) = lossy c" "noise_loss (tick_signals s c) = min (window_loss s) (noise_loss c)"
  "sig_delay (last_signals (tick_signals s c)) = state (delay c)" "sig_loss (last_signals (tick_signals s c)) = window_loss s"
  "eff_loss (last_signals (tick_signals s c)) = max (f32_sub (window_loss s) (min (window_loss s) (noise_loss c))) 0"
  using update_rtt_frame [of "rtt_ms s" c] by (auto simp: tick_signals_def Let_def split: if_splits)

lemma tick_prepare_sel [simp]:
  "target (fst (tick_prepare s c)) = target c" "cap (fst (tick_prepare s c)) = cap c"
  "ceiling (fst (tick_prepare s c)) = ceiling c" "probing_down (fst (tick_prepare s c)) = probing_down c"
  "fec_overhead (fst (tick_prepare s c)) = fec_overhead c" "encoder_kbps (fst (tick_prepare s c)) = encoder_kbps c"
  "points (fst (tick_prepare s c)) = points c" "point_idx (fst (tick_prepare s c)) = point_idx c"
  "point_cap (fst (tick_prepare s c)) = point_cap c" "probe_wait (fst (tick_prepare s c)) = probe_wait c"
  "point_retry (fst (tick_prepare s c)) = point_retry c" "drain_left (fst (tick_prepare s c)) = drain_left c"
  "delay (fst (tick_prepare s c)) = delay c" "cfg (fst (tick_prepare s c)) = cfg c"
  "queue_cuts (fst (tick_prepare s c)) = queue_cuts c" "manual_point (fst (tick_prepare s c)) = manual_point c"
  "startup_left (fst (tick_prepare s c)) = startup_left c" "clean (fst (tick_prepare s c)) = clean c"
  "since_step (fst (tick_prepare s c)) = saturating_add (since_step c) 1"
  "bitrate (snd (tick_prepare s c)) = None" "dec_point (snd (tick_prepare s c)) = None"
  "noise_loss (fst (tick_prepare s c)) = min (window_loss s) (noise_loss c)"
  "sig_delay (last_signals (fst (tick_prepare s c))) = state (delay c)"
  "eff_loss (last_signals (fst (tick_prepare s c))) = max (f32_sub (window_loss s) (min (window_loss s) (noise_loss c))) 0"
  by (simp_all add: tick_prepare_def tick_recovery_def tick_count_def Decision_default_def Let_def)

lemma tick_cases:
  assumes "\<And>pd. probing_down c = Some pd \<Longrightarrow> P (judge_probe_down (window_loss s) pd (tick_prepare s c))"
    and "probing_down c = None \<Longrightarrow> P (rate_rules (u32_add (recv s) (lost s)) (window_loss s) (tick_prepare s c))"
  obtains x where "tick s c = finish x" "P x"
  using assms by (cases "probing_down c") (auto simp: tick_split)

lemma rate_inv_tick: "rate_inv c \<Longrightarrow> rate_inv (fst (tick s c))"
proof -
  assume inv: "rate_inv c"
  obtain c1 o1 where p: "tick_prepare s c = (c1, o1)" by fastforce
  have c1: "rate_inv c1" "cap c1 = cap c" using inv tick_prepare_sel [of s c] unfolding p by (simp_all add: rate_inv_def)
  obtain x where "tick s c = finish x" "rate_inv (fst x)"
  proof (rule tick_cases [where P = "\<lambda>x. rate_inv (fst x)"])
    fix pd assume "probing_down c = Some pd"
    with inv c1 have "probe_ok (cap c1) (Some pd)" by (simp add: rate_inv_def)
    then show "rate_inv (fst (judge_probe_down (window_loss s) pd (tick_prepare s c)))"
      unfolding p using c1 by (rule_tac rate_inv_judge)
  next
    show "rate_inv (fst (rate_rules (u32_add (recv s) (lost s)) (window_loss s) (tick_prepare s c)))"
      unfolding p using c1 by (simp add: rate_inv_rules)
  qed
  then show ?thesis using rate_inv_finish by (metis prod.collapse)
qed

definition aux_inv :: "controller \<Rightarrow> bool" where
  "aux_inv c \<longleftrightarrow> wait_inv c \<and> point_inv c \<and> signal_inv c"

lemmas aux_inv_defs = aux_inv_def wait_inv_def point_inv_def signal_inv_def

lemma aux_inv_apply_rate: "aux_inv c \<Longrightarrow> aux_inv (fst (apply_rate k (c, out)))"
  by (simp add: apply_rate_def aux_inv_defs Let_def)

lemma aux_inv_punish: "aux_inv c \<Longrightarrow> aux_inv (punish k c)"
  by (auto simp: punish_def aux_inv_defs bound_defs u32_mul_small split: option.split)

lemma host_bound_next_range: "host_bound_next c = Some n \<Longrightarrow> point_idx c < n \<and> n < length (points c)"
  by (auto simp: host_bound_next_def Let_def find_Some_iff nth_upt)

lemma aux_inv_step_down: "aux_inv c \<Longrightarrow> step_down_host_bound (c, out) = Some r \<Longrightarrow> aux_inv (fst r)"
  by (auto simp: step_down_host_bound_def aux_inv_defs bound_defs
      split: if_splits option.splits dest: host_bound_next_range)

lemma aux_inv_queue_cut:
  assumes "aux_inv c"
  shows "aux_inv (fst (queue_cut k k' (c, out)))"
proof -
  have q: "aux_inv c' \<Longrightarrow> aux_inv (c'\<lparr>queue_cuts := q\<rparr>)" "aux_inv c' \<Longrightarrow> aux_inv (c'\<lparr>ceiling := q\<rparr>)" for c' q
    by (simp_all add: aux_inv_defs)
  then have "aux_inv (fst (rate_cut k k' (c', out)))" if "aux_inv c'" for c'
    using that by (simp add: rate_cut_def Let_def aux_inv_apply_rate aux_inv_punish)
  then show ?thesis
    using queue_cut_cases [of k k' c out] aux_inv_step_down [OF q(1)] q assms by force
qed

lemma point_inv_apply_ladder: "point_inv c \<Longrightarrow> point_inv (fst (apply_ladder u (c, out)))"
proof -
  assume inv: "point_inv c"
  have "point_inv (fst (ladder_down u (c, out)))" if "point_idx c + 1 < length (points c)"
    using inv that by (simp add: ladder_down_def point_inv_def Let_def) linarith
  moreover have "point_inv (fst (ladder_up (c, out)))"
    using inv by (simp add: ladder_up_def point_inv_def Let_def)
  ultimately show ?thesis using inv by (simp add: apply_ladder_def)
qed

lemma aux_inv_apply_ladder: "aux_inv c \<Longrightarrow> aux_inv (fst (apply_ladder u (c, out)))"
  using point_inv_apply_ladder by (simp add: aux_inv_def wait_inv_def signal_inv_def)

lemma aux_inv_finish:
  assumes "aux_inv c"
  shows "aux_inv (fst (finish (c, out)))"
proof -
  have e: "aux_inv c' \<Longrightarrow> aux_inv (c'\<lparr>encoder_kbps := e\<rparr>)" for c' e by (simp add: aux_inv_defs)
  have "aux_inv (c\<lparr>startup_left := saturating_sub (startup_left c) 1, drain_left := saturating_sub (drain_left c) 1\<rparr>)"
    using assms by (auto simp: aux_inv_defs saturating_sub_def)
  from aux_inv_apply_ladder [OF this] show ?thesis by (simp add: finish_def Let_def case_prod_beta e)
qed

lemma aux_inv_judge: "aux_inv c \<Longrightarrow> aux_inv (fst (judge_probe_down loss pd (c, out)))"
  by (auto simp: judge_probe_down_def Let_def intro!: aux_inv_apply_rate aux_inv_punish) (auto simp: aux_inv_defs)

lemma aux_inv_sustained: "aux_inv c \<Longrightarrow> aux_inv (fst (sustained_loss loss (c, out)))"
  by (auto simp: sustained_loss_def Let_def intro!: aux_inv_apply_rate aux_inv_punish) (auto simp: aux_inv_defs)

lemma aux_inv_clean: "aux_inv c \<Longrightarrow> aux_inv (clean_bookkeeping c)"
  by (auto simp: clean_bookkeeping_def Let_def aux_inv_defs bound_defs split: option.split)

lemma aux_inv_climb: "aux_inv c \<Longrightarrow> aux_inv (fst (climb (c, out)))"
  by (auto simp: climb_def climb_rule_def Let_def intro!: aux_inv_apply_rate) (auto simp: aux_inv_defs)

lemma aux_inv_deadband: "0 \<le> loss \<Longrightarrow> aux_inv c \<Longrightarrow> aux_inv (fst (deadband_window tot loss eff (c, out)))"
  by (simp add: deadband_window_def Let_def aux_inv_defs max.coboundedI1)

lemma aux_inv_rules: "0 \<le> loss \<Longrightarrow> aux_inv c \<Longrightarrow> aux_inv (fst (rate_rules tot loss (c, out)))"
proof -
  assume l: "0 \<le> loss" and "aux_inv c"
  then have "aux_inv (if \<not> queued c then c\<lparr>queue_cuts := 0\<rparr> else c)" by (simp add: aux_inv_defs)
  with \<open>aux_inv c\<close> l show ?thesis
    by (simp add: rate_rules_def loss_rules_def Let_def aux_inv_queue_cut aux_inv_apply_rate aux_inv_punish
        aux_inv_sustained aux_inv_clean aux_inv_climb aux_inv_deadband)
qed

lemma aux_inv_tick: "aux_inv c \<Longrightarrow> aux_inv (fst (tick s c))"
proof -
  assume inv: "aux_inv c"
  obtain c1 o1 where p: "tick_prepare s c = (c1, o1)" by fastforce
  have c1: "aux_inv c1"
    using inv window_loss_nonneg [of s] tick_prepare_sel [of s c] unfolding p by (simp add: aux_inv_defs)
  obtain x where "tick s c = finish x" "aux_inv (fst x)"
    by (rule tick_cases [where P = "\<lambda>x. aux_inv (fst x)" and s = s and c = c])
      (simp_all add: p c1 aux_inv_judge aux_inv_rules window_loss_nonneg)
  then show ?thesis using aux_inv_finish by (metis prod.collapse)
qed

subsection \<open>Runs of the controller\<close>

text \<open>Everything the session calls on the controller, in any order.\<close>

datatype ctrl_event = Tick sample | PollFast rat | OnFrame u32 rat | SetFecOverhead rat | SetFecN u8
  | SetTarget nat | SetManualPoint bool | OnStreamRestart

fun ctrl_step :: "ctrl_event \<Rightarrow> controller \<Rightarrow> controller" where
  "ctrl_step (Tick s) c = fst (tick s c)"
| "ctrl_step (PollFast now) c = fst (poll_fast now c)"
| "ctrl_step (OnFrame ts a) c = Controller_on_frame ts a c"
| "ctrl_step (SetFecOverhead ov) c = set_fec_overhead ov c"
| "ctrl_step (SetFecN n) c = set_fec_n n c"
| "ctrl_step (SetTarget k) c = set_target k c"
| "ctrl_step (SetManualPoint m) c = set_manual_point m c"
| "ctrl_step OnStreamRestart c = on_stream_restart c"

inductive reachable :: "ctrl_config \<Rightarrow> controller \<Rightarrow> bool" for cf where
  start: "reachable cf (Controller_new cf)"
| step: "reachable cf c \<Longrightarrow> reachable cf (ctrl_step e c)"

definition fast_cut_blocked :: "rat \<Rightarrow> controller \<Rightarrow> bool" where
  "fast_cut_blocked now c \<longleftrightarrow> overuse_ms (delay c) now < FAST_OVERUSE_MS \<or>
     f64_sub now (last_fast_cut_ms c) < FAST_COOLDOWN_MS \<or> target c \<le> FLOOR_KBPS \<or> drain_left c > 0"

lemma poll_fast_eq:
  "poll_fast now c = (if fast_cut_blocked now c then (c, None)
     else map_prod id Some (apply_ladder True (queue_cut (target c) (u32_mul (target c) 85 div 100)
       (c\<lparr>last_fast_cut_ms := now\<rparr>, Decision_default\<lparr>dec_reason := DelayOveruseFast\<rparr>))))"
  unfolding poll_fast_def fast_cut_blocked_def [symmetric] Let_def by (simp split: prod.split)

lemma apply_ladder_rate_inv: "rate_inv (fst x) \<Longrightarrow> rate_inv (fst (apply_ladder u x))"
  by (cases x) (simp add: rate_inv_def)

lemma apply_ladder_aux_inv: "aux_inv (fst x) \<Longrightarrow> aux_inv (fst (apply_ladder u x))"
  by (cases x) (simp add: aux_inv_apply_ladder)

lemma poll_fast_inv:
  assumes "rate_inv c" "aux_inv c"
  shows "rate_inv (fst (poll_fast now c))" "aux_inv (fst (poll_fast now c))"
proof -
  have c: "rate_inv (c\<lparr>last_fast_cut_ms := now\<rparr>)" "aux_inv (c\<lparr>last_fast_cut_ms := now\<rparr>)"
    using assms by (simp_all add: rate_inv_def aux_inv_defs)
  show "rate_inv (fst (poll_fast now c))"
    using assms by (simp add: poll_fast_eq apply_ladder_rate_inv rate_inv_queue_cut [OF c(1)])
  show "aux_inv (fst (poll_fast now c))"
    using assms by (simp add: poll_fast_eq apply_ladder_aux_inv aux_inv_queue_cut [OF c(2)])
qed

lemma setter_inv:
  assumes "rate_inv c" "aux_inv c"
  shows "rate_inv (Controller_on_frame ts a c) \<and> aux_inv (Controller_on_frame ts a c)"
    "rate_inv (set_fec_overhead ov c) \<and> aux_inv (set_fec_overhead ov c)"
    "rate_inv (set_target k c) \<and> aux_inv (set_target k c)"
    "rate_inv (set_manual_point m c) \<and> aux_inv (set_manual_point m c)"
    "rate_inv (on_stream_restart c) \<and> aux_inv (on_stream_restart c)"
  using assms pick_less [of "points c"]
  by (simp_all add: Controller_on_frame_def set_fec_overhead_def set_target_def set_manual_point_def
      on_stream_restart_def rate_inv_def aux_inv_defs Let_def delay_inv_on_frame Trendline_reset_def delay_inv_new)

lemma ctrl_step_inv: "rate_inv c \<Longrightarrow> aux_inv c \<Longrightarrow> rate_inv (ctrl_step e c) \<and> aux_inv (ctrl_step e c)"
  by (cases e) (simp_all add: rate_inv_tick aux_inv_tick poll_fast_inv setter_inv set_fec_n_def)

lemma Controller_new_inv: "cap_kbps cf \<le> u32_max \<Longrightarrow> rate_inv (Controller_new cf) \<and> aux_inv (Controller_new cf)"
  by (auto simp: Controller_new_def rate_inv_def aux_inv_defs Let_def build_nonempty delay_inv_new
      FLOOR_KBPS_def u32_max_def bound_defs pick_less split: prod.split)

lemma reachable_inv: "reachable cf c \<Longrightarrow> cap_kbps cf \<le> u32_max \<Longrightarrow> rate_inv c \<and> aux_inv c"
  by (induction rule: reachable.induct) (auto simp: Controller_new_inv ctrl_step_inv)

subsection \<open>What the rules of a window may change\<close>

definition agree :: "controller \<Rightarrow> controller \<Rightarrow> bool" where
  "agree c c' \<longleftrightarrow> cap c' = cap c \<and> points c' = points c \<and> recovery c' = recovery c \<and> encoder_kbps c' = encoder_kbps c \<and>
     point_idx c' = point_idx c"

definition rate_effect :: "outcome \<Rightarrow> outcome \<Rightarrow> bool" where
  "rate_effect x y \<longleftrightarrow>
     bitrate (snd y) = bitrate (snd x) \<and> encoder_kbps (fst y) = encoder_kbps (fst x) \<or>
     bitrate (snd y) = Some (encoder_kbps (fst y)) \<and> encoder_kbps (fst y) \<noteq> encoder_kbps (fst x) \<and>
       encoder_rate (fst y) = encoder_kbps (fst y)"

definition point_effect :: "outcome \<Rightarrow> outcome \<Rightarrow> bool" where
  "point_effect x y \<longleftrightarrow>
     dec_point (snd y) = dec_point (snd x) \<and> point_idx (fst y) = point_idx (fst x) \<or>
     dec_point (snd y) = Some (Controller_point (fst y)) \<and> point_idx (fst x) < point_idx (fst y) \<and>
       clean_at_point (fst y) = 0"

definition window_effect :: "outcome \<Rightarrow> outcome \<Rightarrow> bool" where
  "window_effect x y \<longleftrightarrow> cap (fst y) = cap (fst x) \<and> points (fst y) = points (fst x) \<and> recovery (fst y) = recovery (fst x) \<and>
     dec_recovery (snd y) = dec_recovery (snd x) \<and> rate_effect x y \<and> point_effect x y"

lemmas effect_defs = window_effect_def rate_effect_def point_effect_def

lemma agree_effect:
  assumes "agree c c'" "bitrate out' = bitrate out" "dec_point out' = dec_point out" "dec_recovery out' = dec_recovery out"
  shows "window_effect (c, out) (c', out')"
  using assms by (simp add: effect_defs agree_def)

lemma apply_rate_effect:
  assumes "agree c c'" "bitrate out' = bitrate out" "dec_point out' = dec_point out" "dec_recovery out' = dec_recovery out"
  shows "window_effect (c, out) (apply_rate k (c', out'))"
  using assms by (simp add: effect_defs agree_def apply_rate_def encoder_rate_def Let_def)

lemma with_reason_effect [simp]: "window_effect x (with_reason r y) = window_effect x y"
  by (simp add: effect_defs)

lemma agree_punish [simp]: "agree c (punish k c') = agree c c'"
  by (simp add: agree_def punish_def)

lemma rate_cut_effect: "agree c c' \<Longrightarrow> window_effect (c, out) (rate_cut k k' (c', out))"
  unfolding rate_cut_def Let_def prod.case
  by (rule apply_rate_effect) (simp_all add: agree_def punish_def)

lemma step_down_effect:
  "step_down_host_bound (c\<lparr>queue_cuts := q\<rparr>, out) = Some (c', out') \<Longrightarrow>
   window_effect (c, out) (c'\<lparr>queue_cuts := q'\<rparr>, out')"
  by (auto simp: step_down_host_bound_def effect_defs Controller_point_def
      split: if_splits option.splits dest: host_bound_next_range)

lemma queue_cut_effect: "window_effect (c, out) (queue_cut k k' (c, out))"
proof -
  have a: "agree c (c\<lparr>queue_cuts := q\<rparr>)" for q by (simp add: agree_def)
  from queue_cut_cases [of k k' c out] show ?thesis
    by (elim exE disjE conjE) (simp_all add: rate_cut_effect [OF a] step_down_effect)
qed

lemma judge_effect: "window_effect (c, out) (judge_probe_down loss pd (c, out))"
  unfolding judge_probe_down_def Let_def prod.case
  by (auto intro!: apply_rate_effect agree_effect) (auto simp: agree_def)

lemma sustained_effect: "window_effect (c, out) (sustained_loss loss (c, out))"
  unfolding sustained_loss_def Let_def prod.case
  by (auto intro!: apply_rate_effect agree_effect) (auto simp: agree_def)

lemma agree_clean: "agree c (clean_bookkeeping c)"
  by (simp add: clean_bookkeeping_def Let_def agree_def split: option.split)

lemma climb_effect: "agree c c' \<Longrightarrow> window_effect (c, out) (climb (c', out))"
  unfolding climb_def Let_def prod.case
  by (auto intro!: apply_rate_effect agree_effect split: prod.split) (auto simp: agree_def)

lemma deadband_effect: "window_effect (c, out) (deadband_window tot loss eff (c, out))"
  unfolding deadband_window_def Let_def prod.case
  by (auto intro!: agree_effect) (auto simp: agree_def)

lemma effect_from:
  "agree c c' \<Longrightarrow> bitrate out' = bitrate out \<Longrightarrow> dec_point out' = dec_point out \<Longrightarrow> dec_recovery out' = dec_recovery out \<Longrightarrow>
   window_effect (c', out') y \<Longrightarrow> window_effect (c, out) y"
  by (simp add: effect_defs agree_def)

lemma loss_rules_effect: "window_effect (c, out) (loss_rules tot loss (c, out))"
proof -
  let ?c = "if \<not> queued c then c\<lparr>queue_cuts := 0\<rparr> else c"
  have a: "agree c ?c" by (simp add: agree_def)
  then have "agree c (clean_bookkeeping ?c)" using agree_clean [of ?c] by (simp add: agree_def)
  then show ?thesis
    unfolding loss_rules_def Let_def prod.case
    using a effect_from [OF a, of out out] sustained_effect deadband_effect climb_effect apply_rate_effect by simp
qed

lemma rate_rules_effect: "window_effect (c, out) (rate_rules tot loss (c, out))"
proof -
  have "agree c c" by (simp add: agree_def)
  then have "window_effect (c, out) (queue_cut k k' (c, out\<lparr>dec_reason := r\<rparr>))" for k k' r
    using effect_from [OF _ _ _ _ queue_cut_effect] by simp
  then show ?thesis by (simp add: rate_rules_def Let_def loss_rules_effect)
qed

definition ladder_moved :: "controller \<Rightarrow> decision \<Rightarrow> outcome \<Rightarrow> bool" where
  "ladder_moved c out y \<longleftrightarrow>
     dec_point (snd y) = dec_point out \<and> point_idx (fst y) = point_idx c \<or>
     dec_point (snd y) = Some (Controller_point (fst y)) \<and>
       (point_idx c < point_idx (fst y) \<or> point_idx (fst y) < point_idx c \<and> 0 < clean_at_point c)"

lemma ladder_effect: "ladder_moved c out (apply_ladder u (c, out))"
proof -
  have "ladder_moved c out (ladder_down u (c, out))" if "point_idx c + 1 < length (points c)"
    using that by (auto simp: ladder_moved_def ladder_down_def Controller_point_def set_reason_if_empty_def Let_def)
  moreover have "ladder_moved c out (ladder_up (c, out))"
    by (auto simp: ladder_moved_def ladder_up_def Controller_point_def set_reason_if_empty_def CLEAN_WINDOWS_UP_def Let_def)
  moreover have "ladder_moved c out (c, out)" by (simp add: ladder_moved_def)
  ultimately show ?thesis by (simp add: apply_ladder_def)
qed

lemma finish_sync:
  assumes eff: "window_effect (c0, out0) (c, out)" and none: "bitrate out0 = None" "dec_point out0 = None"
    and fin: "finish (c, out) = (c', out')"
  shows "encoder_kbps c' = encoder_rate c'"
    "bitrate out' = (if encoder_kbps c' = encoder_kbps c0 then None else Some (encoder_kbps c'))"
    "dec_point out' = (if point_idx c' = point_idx c0 then None else Some (Controller_point c'))"
    "recovery c' = recovery c0" "dec_recovery out' = dec_recovery out0" "points c' = points c0" "cap c' = cap c0"
proof -
  let ?c = "c\<lparr>startup_left := saturating_sub (startup_left c) 1, drain_left := saturating_sub (drain_left c) 1\<rparr>"
  obtain d od where lad: "apply_ladder False (?c, out) = (d, od)" by fastforce
  have sel: "target d = target c" "fec_overhead d = fec_overhead c" "encoder_kbps d = encoder_kbps c"
    "bitrate od = bitrate out" "dec_recovery od = dec_recovery out" "recovery d = recovery c" "points d = points c" "cap d = cap c"
    using apply_ladder_rate [of False ?c out] unfolding lad by simp_all
  have er: "encoder_rate d = encoder_rate c" "encoder_rate (d\<lparr>encoder_kbps := e\<rparr>) = encoder_rate d" for e
    using sel by (simp_all add: encoder_rate_def)
  have re: "rate_effect (c0, out0) (c, out)" and pe: "point_effect (c0, out0) (c, out)"
    using eff by (simp_all add: window_effect_def)
  have fx: "(c', out') = (if encoder_rate d \<noteq> encoder_kbps d then (d\<lparr>encoder_kbps := encoder_rate d\<rparr>,
      if bitrate od = None then set_reason_if_empty FecShareChanged (od\<lparr>bitrate := Some (encoder_rate d)\<rparr>) else od)
      else (d, od))"
    unfolding fin [symmetric] finish_def prod.case Let_def lad ..
  have c': "c' = d\<lparr>encoder_kbps := encoder_rate d\<rparr>"
    and b': "bitrate out' = (if encoder_rate d \<noteq> encoder_kbps d \<and> bitrate od = None then Some (encoder_rate d) else bitrate od)"
    and p': "dec_point out' = dec_point od" "dec_recovery out' = dec_recovery od"
    using fx by (cases "encoder_rate d = encoder_kbps d", simp_all add: set_reason_if_empty_def)+
  show "encoder_kbps c' = encoder_rate c'" by (simp add: c' er)
  have "bitrate od = None \<and> encoder_kbps d = encoder_kbps c0 \<or>
      bitrate od = Some (encoder_kbps d) \<and> encoder_kbps d \<noteq> encoder_kbps c0 \<and> encoder_rate d = encoder_kbps d"
    using re none(1) sel(3,4) er(1) by (simp add: rate_effect_def)
  moreover have "encoder_kbps c' = encoder_rate d" by (simp add: c')
  ultimately show "bitrate out' = (if encoder_kbps c' = encoder_kbps c0 then None else Some (encoder_kbps c'))"
    unfolding b' by (elim disjE conjE) simp_all
  from ladder_effect [of ?c out False]
  have "dec_point od = dec_point out \<and> point_idx d = point_idx c \<or>
    dec_point od = Some (Controller_point d) \<and> (point_idx c < point_idx d \<or> point_idx d < point_idx c \<and> 0 < clean_at_point c)"
    unfolding lad ladder_moved_def by simp
  then show "dec_point out' = (if point_idx c' = point_idx c0 then None else Some (Controller_point c'))"
    using pe none sel by (auto simp: p' c' point_effect_def Controller_point_def)
  show "recovery c' = recovery c0" "dec_recovery out' = dec_recovery out0" "points c' = points c0" "cap c' = cap c0"
    using eff sel by (simp_all add: c' p' effect_defs)
qed

lemma tick_sync:
  assumes "tick s c = (c', out')"
  shows "encoder_kbps c' = encoder_rate c'"
    "bitrate out' = (if encoder_kbps c' = encoder_kbps c then None else Some (encoder_kbps c'))"
    "dec_point out' = (if point_idx c' = point_idx c then None else Some (Controller_point c'))"
    "recovery c' = recovery (fst (tick_prepare s c))" "dec_recovery out' = dec_recovery (snd (tick_prepare s c))"
    "points c' = points c" "cap c' = cap c"
proof -
  obtain c1 o1 where p: "tick_prepare s c = (c1, o1)" by fastforce
  have sel: "encoder_kbps c1 = encoder_kbps c" "point_idx c1 = point_idx c" "points c1 = points c" "cap c1 = cap c"
    "bitrate o1 = None" "dec_point o1 = None" using tick_prepare_sel [of s c] unfolding p by simp_all
  obtain c2 o2 where fin: "tick s c = finish (c2, o2)" and eff: "window_effect (c1, o1) (c2, o2)"
    by (rule tick_cases [where P = "window_effect (c1, o1)" and s = s and c = c])
      (auto simp: p judge_effect rate_rules_effect)
  note sync = finish_sync [OF eff sel(5,6) fin [symmetric, unfolded assms]]
  show "encoder_kbps c' = encoder_rate c'"
    "bitrate out' = (if encoder_kbps c' = encoder_kbps c then None else Some (encoder_kbps c'))"
    "dec_point out' = (if point_idx c' = point_idx c then None else Some (Controller_point c'))"
    "recovery c' = recovery (fst (tick_prepare s c))" "dec_recovery out' = dec_recovery (snd (tick_prepare s c))"
    "points c' = points c" "cap c' = cap c" using sync sel by (simp_all add: p)
qed

lemmas tick_outcome = tick_sync [OF prod.collapse [symmetric]]

lemma poll_fast_keeps:
  "cap (fst (poll_fast now c)) = cap c" "points (fst (poll_fast now c)) = points c" "recovery (fst (poll_fast now c)) = recovery c"
proof -
  let ?c = "c\<lparr>last_fast_cut_ms := now\<rparr>" and ?d = "Decision_default\<lparr>dec_reason := DelayOveruseFast\<rparr>"
  obtain c1 o1 where q: "queue_cut (target c) (u32_mul (target c) 85 div 100) (?c, ?d) = (c1, o1)" by fastforce
  have "cap c1 = cap c" "points c1 = points c" "recovery c1 = recovery c"
    using queue_cut_effect [of ?c ?d "target c" "u32_mul (target c) 85 div 100"] unfolding q by (simp_all add: window_effect_def)
  then show "cap (fst (poll_fast now c)) = cap c" "points (fst (poll_fast now c)) = points c"
    "recovery (fst (poll_fast now c)) = recovery c"
    by (simp_all add: poll_fast_eq q)
qed

lemma ctrl_step_keeps: "cap (ctrl_step e c) = cap c \<and> points (ctrl_step e c) = points c"
proof (cases e)
  case (Tick s)
  then show ?thesis by (simp add: tick_outcome(6,7))
qed (simp_all add: poll_fast_keeps Controller_on_frame_def set_fec_n_def set_fec_overhead_def set_target_def
    set_manual_point_def on_stream_restart_def Let_def)

lemma reachable_cap: "reachable cf c \<Longrightarrow> cap c = max (cap_kbps cf) FLOOR_KBPS"
  by (induction rule: reachable.induct) (simp_all add: ctrl_step_keeps Controller_new_def Let_def split: prod.split)

subsection \<open>Properties: invariant and decisions\<close>

text \<open>
  C9: the controller keeps its rate inside the session's limits. In every state reachable from
  \<open>Controller_new\<close> by any sequence of windows, fast polls, frames, FEC and user updates and stream restarts, the
  target and the punished ceiling lie between the 300 kbit/s floor and the cap of the configuration, the probe
  wait between 30 and 480 windows, the operating point is on the ladder and never above the host-bound cap,
  the learned noise floor is non-negative and the delay threshold stays between 6 and 600 ms.
\<close>

theorem controller_stays_in_limits:
  assumes "reachable cf c" and "cap_kbps cf \<le> u32_max"
  shows "FLOOR_KBPS \<le> target c \<and> target c \<le> max (cap_kbps cf) FLOOR_KBPS \<and>
    FLOOR_KBPS \<le> ceiling c \<and> ceiling c \<le> max (cap_kbps cf) FLOOR_KBPS \<and>
    PROBE_WAIT_MIN \<le> probe_wait c \<and> probe_wait c \<le> PROBE_WAIT_MAX \<and> drain_left c \<le> 2 \<and>
    point_cap c \<le> point_idx c \<and> point_idx c < length (points c) \<and> 0 \<le> noise_loss c \<and>
    MIN_THRESHOLD_MS \<le> threshold_ms (delay c) \<and> threshold_ms (delay c) \<le> MAX_THRESHOLD_MS"
  using reachable_inv [OF assms] reachable_cap [OF assms(1)]
  by (simp add: rate_inv_def aux_inv_defs delay_inv_def threshold_ok_def)

theorem controller_stays_in_limits_witness:
  "FLOOR_KBPS \<le> target (ctrl_step (SetTarget 9999999) (Controller_new (Config_new H264 8000))) \<and>
   target (ctrl_step (SetTarget 9999999) (Controller_new (Config_new H264 8000))) \<le> 8000"
proof -
  let ?cf = "Config_new H264 8000"
  have "reachable ?cf (ctrl_step (SetTarget 9999999) (Controller_new ?cf))"
    by (rule reachable.step) (rule reachable.start)
  from controller_stays_in_limits [OF this] show ?thesis by (simp add: Config_new_def u32_max_def FLOOR_KBPS_def)
qed

text \<open>
  C15: the decision of a window is exactly the change of state. After \<open>tick\<close> the remembered
  encoder bitrate is the one the target and the FEC share call for; the decision carries a bitrate, a point or a
  recovery mode if and only if the controller's own value changed, and then carries the new value, so a host
  that applies every decision always runs at what the controller believes it runs at.
\<close>

theorem decision_is_state_change:
  "encoder_kbps (fst (tick s c)) = encoder_rate (fst (tick s c)) \<and>
   bitrate (snd (tick s c)) =
     (if encoder_kbps (fst (tick s c)) = encoder_kbps c then None else Some (encoder_kbps (fst (tick s c)))) \<and>
   dec_point (snd (tick s c)) =
     (if point_idx (fst (tick s c)) = point_idx c then None else Some (Controller_point (fst (tick s c)))) \<and>
   dec_recovery (snd (tick s c)) =
     (if recovery (fst (tick s c)) = recovery c then None else Some (recovery (fst (tick s c))))"
proof -
  have "dec_recovery (snd (tick_prepare s c)) =
     (if recovery (fst (tick_prepare s c)) = recovery c then None else Some (recovery (fst (tick_prepare s c))))"
    by (simp add: tick_prepare_def tick_recovery_def tick_count_def Decision_default_def preferred_recovery_def Let_def)
  then show ?thesis
    using tick_outcome(2,3) [of s c] by (simp add: tick_outcome(1,4,5) [of s c])
qed

subsection \<open>Targets of the rate rules\<close>

lemma apply_rate_target [simp]: "target (fst (apply_rate k (c, out))) = clamp FLOOR_KBPS (cap c) k"
  "ceiling (fst (apply_rate k (c, out))) = ceiling c" "startup_left (fst (apply_rate k (c, out))) = startup_left c"
  "queue_cuts (fst (apply_rate k (c, out))) = queue_cuts c"
  by (simp_all add: apply_rate_def Let_def)

lemma punish_sel [simp]: "cap (punish k c) = cap c" "target (punish k c) = target c" "queue_cuts (punish k c) = queue_cuts c"
  "ceiling (punish k c) = clamp FLOOR_KBPS (cap c) (k * 85 div 100)" "startup_left (punish k c) = 0"
  by (simp_all add: punish_def)

lemma clamp_le: "lo \<le> t \<Longrightarrow> k \<le> t \<Longrightarrow> clamp lo hi k \<le> (t :: nat)" if "lo \<le> hi"
  using that by (simp add: clamp_def)

lemma u32_mul_div_le: "a \<le> b \<Longrightarrow> u32_mul t a div b \<le> t"
proof -
  assume "a \<le> b"
  have "u32_mul t a \<le> t * b" using u32_mul_le [of t a] \<open>a \<le> b\<close> by (meson le_trans mult_le_mono2)
  then show ?thesis by (metis div_le_mono div_mult_self_is_m mult.commute mult_0_right gr0I \<open>a \<le> b\<close> div_by_0 le0)
qed

lemma rate_cut_target [simp]: "target (fst (rate_cut k k' (c, out))) = clamp FLOOR_KBPS (cap c) k'"
  by (simp add: rate_cut_def Let_def)

lemma step_down_target: "step_down_host_bound (c, out) = Some (c', out') \<Longrightarrow> target c' = target c"
  by (auto simp: step_down_host_bound_def split: if_splits option.splits)

lemma queue_cut_target:
  "target (fst (queue_cut k k' (c, out))) = target c \<or> target (fst (queue_cut k k' (c, out))) = clamp FLOOR_KBPS (cap c) k'"
  using queue_cut_cases [of k k' c out] by (auto dest!: step_down_target)

lemma finish_target [simp]: "target (fst (finish x)) = target (fst x)" "ceiling (fst (finish x)) = ceiling (fst x)"
  "startup_left (fst (finish x)) = saturating_sub (startup_left (fst x)) 1" "queue_cuts (fst (finish x)) = queue_cuts (fst x)"
  by (cases x; simp add: finish_def Let_def case_prod_beta)+

lemma sustained_target: "rate_inv c \<Longrightarrow> target (fst (sustained_loss loss (c, out))) \<le> target c"
  by (simp add: sustained_loss_def Let_def rate_inv_def clamp_le u32_mul_div_le)

lemma clean_bookkeeping_sel [simp]:
  "target (clean_bookkeeping c) = target c" "cap (clean_bookkeeping c) = cap c" "ceiling (clean_bookkeeping c) = ceiling c"
  "startup_left (clean_bookkeeping c) = startup_left c" "clean (clean_bookkeeping c) = clean c"
  by (simp_all add: clean_bookkeeping_def Let_def split: option.split)

lemma climb_target_le:
  assumes "rate_inv c"
  shows "target (fst (climb (c, out))) \<le> max (ceiling c) (target c * 11 div 10)"
proof -
  have fl: "FLOOR_KBPS \<le> cap c" "FLOOR_KBPS \<le> ceiling c" using assms by (simp_all add: rate_inv_def)
  have up: "clamp FLOOR_KBPS (cap c) (min x (ceiling c)) \<le> ceiling c" for x by (rule clamp_le) (use fl in simp_all)
  have pr: "clamp FLOOR_KBPS (cap c) (min x (cap c)) \<le> max (ceiling c) x" for x using fl by (auto simp: clamp_def)
  show ?thesis
    using up pr [of "target c * 11 div 10"] fl
    by (auto simp: climb_def climb_rule_def Let_def max.coboundedI1)
qed

lemma deadband_target [simp]: "target (fst (deadband_window tot loss eff (c, out))) = target c"
  by (simp add: deadband_window_def Let_def)

lemma loss_rules_climb:
  assumes "rate_inv c" "target c < target (fst (loss_rules tot loss (c, out)))"
  shows "clean_window tot (eff_loss (last_signals c)) c \<and>
    target (fst (loss_rules tot loss (c, out))) \<le> max (ceiling c) (target c * 11 div 10)"
proof -
  let ?c = "if \<not> queued c then c\<lparr>queue_cuts := 0\<rparr> else c"
  have inv: "rate_inv ?c" using assms by (simp add: rate_inv_def)
  have sel: "target ?c = target c" "cap ?c = cap c" "ceiling ?c = ceiling c" "last_signals ?c = last_signals c" by simp_all
  have cw: "clean_window tot eff ?c = clean_window tot eff c" for eff
    by (simp add: clean_window_def queued_def draining_def excess_now_def)
  have half: "target c div 2 \<le> target c" by simp
  have fl: "FLOOR_KBPS \<le> cap c" "FLOOR_KBPS \<le> target c" using assms by (simp_all add: rate_inv_def)
  show ?thesis
    using assms(2) climb_target_le [OF rate_inv_clean [OF inv], of out] sustained_target [OF inv, of loss out]
      clamp_le [OF fl half] fl
    unfolding loss_rules_def Let_def prod.case cw sel
    by (auto split: if_splits simp: sel)
qed

lemma rate_rules_climb:
  assumes inv: "rate_inv c" and up: "target c < target (fst (rate_rules tot loss (c, out)))"
  shows "clean_window tot (eff_loss (last_signals c)) c \<and> \<not> delay_cut_due c \<and>
    target (fst (rate_rules tot loss (c, out))) \<le> max (ceiling c) (target c * 11 div 10)"
proof -
  have fl: "FLOOR_KBPS \<le> cap c" "FLOOR_KBPS \<le> target c" using inv by (simp_all add: rate_inv_def)
  have no: "\<not> target c < target (fst (queue_cut k k' (c, out')))" if "k' \<le> target c" for k k' out'
    using queue_cut_target [of k k' c out'] clamp_le [OF fl that] by auto
  show ?thesis
    using up no u32_mul_div_le loss_rules_climb [OF inv, of tot loss out]
    by (auto simp: rate_rules_def Let_def split: if_splits)
qed

subsection \<open>A clean startup window\<close>

lemma queued_queue_cuts [simp]: "queued (c\<lparr>queue_cuts := q\<rparr>) = queued c"
  by (simp add: queued_def draining_def excess_now_def)

definition quiet :: "sample \<Rightarrow> controller \<Rightarrow> bool" where
  "quiet s c \<longleftrightarrow> rtt_ms s = [] \<and> rtt_base c = 0 \<and> state (delay c) = Normal \<and> probing_down c = None"

lemma quiet_prepare:
  assumes "quiet s c"
  shows "excess_ms (last_signals (fst (tick_prepare s c))) = 0" "\<not> delay_cut_due (fst (tick_prepare s c))"
    "\<not> rtt_cut_due (fst (tick_prepare s c))" "\<not> queued (fst (tick_prepare s c))"
proof -
  show e: "excess_ms (last_signals (fst (tick_prepare s c))) = 0"
    using assms by (simp add: quiet_def tick_prepare_def tick_recovery_def tick_signals_def tick_count_def
        update_rtt_def Let_def)
  show "\<not> delay_cut_due (fst (tick_prepare s c))" "\<not> rtt_cut_due (fst (tick_prepare s c))"
    "\<not> queued (fst (tick_prepare s c))"
    using assms e by (simp_all add: quiet_def delay_cut_due_def rtt_cut_due_def RTT_EXCESS_MS_def queued_def RTT_OK_MS_def)
qed

lemma startup_climb:
  assumes q: "quiet s c" and s: "0 < recv s" "recv s \<le> u32_max" "lost s = 0"
    and c: "0 < startup_left c" "target c < ceiling c" "clean c = 0" "0 \<le> noise_loss c"
  shows "target (fst (tick s c)) =
    clamp FLOOR_KBPS (cap c) (min (as_u32 (f64_mul (f64_of (target c)) (3 / 2))) (ceiling c))"
proof -
  obtain c1 o1 where p: "tick_prepare s c = (c1, o1)" by fastforce
  note qp = quiet_prepare [OF q, unfolded p, simplified]
  have tot: "u32_add (recv s) (lost s) = recv s" using s by (simp add: u32_add_small u32_max_def)
  have loss: "window_loss s = 0" using s by (simp add: window_loss_def Let_def f32_of_def f32_div_def f32.zero)
  have pos: "0 < LOSS_SEVERE" "0 < LOSS_DOWN" "0 < LOSS_CLEAN" by code_simp+
  have sel: "target c1 = target c" "cap c1 = cap c" "ceiling c1 = ceiling c" "probing_down c1 = None"
    "startup_left c1 = startup_left c" "clean c1 = 0" "sig_delay (last_signals c1) = Normal"
    "eff_loss (last_signals c1) = 0"
    using tick_prepare_sel [of s c] q c unfolding p
    by (simp_all add: quiet_def loss f32_sub_def f32.zero min_absorb1)
  have "clean_window (recv s) 0 (c1\<lparr>queue_cuts := 0\<rparr>)"
    using s qp(4) pos sel by (simp add: clean_window_def)
  then have t: "tick s c = finish (climb (clean_bookkeeping (c1\<lparr>queue_cuts := 0\<rparr>), o1))"
    using qp pos sel by (simp add: tick_split p rate_rules_def loss_rules_def Let_def tot loss)
  show ?thesis
    unfolding t finish_target using c sel by (simp add: climb_def climb_rule_def Let_def u32_add_def)
qed

subsection \<open>Properties: rate rules\<close>

text \<open>
  no climb on a queued or lossy link. When a window that judges no probe-down raises the
  target, it carried traffic, its loss above the learned noise floor was under 0.5 %, the link did not count as
  queued, and the new target is at most the punished ceiling or, for a probe past it, 10 % above the old
  target. The delay estimator is then in its normal state, except in one corner: at the floor rate, or while a
  host-bound step drains, a window whose last RTT sample is already flat may climb even under overuse.
\<close>

theorem no_climb_on_queued_link:
  assumes "reachable cf c" "cap_kbps cf \<le> u32_max" "probing_down c = None" "target c < target (fst (tick s c))"
  shows "0 < u32_add (recv s) (lost s) \<and> eff_loss (last_signals (fst (tick_prepare s c))) < LOSS_CLEAN \<and>
    \<not> queued (fst (tick_prepare s c)) \<and>
    (state (delay c) = Normal \<or> state (delay c) = Overuse \<and> excess_now (fst (tick_prepare s c)) < RTT_OK_MS \<and>
       (target c = FLOOR_KBPS \<or> 0 < drain_left c)) \<and>
    target (fst (tick s c)) \<le> max (ceiling c) (target c * 11 div 10)"
proof -
  obtain c1 o1 where p: "tick_prepare s c = (c1, o1)" by fastforce
  have sel: "target c1 = target c" "cap c1 = cap c" "ceiling c1 = ceiling c" "probing_down c1 = None"
    "sig_delay (last_signals c1) = state (delay c)" "since_step c1 = saturating_add (since_step c) 1"
    "drain_left c1 = drain_left c" using tick_prepare_sel [of s c] assms(3) unfolding p by simp_all
  have inv: "rate_inv c1" using reachable_inv [OF assms(1,2)] sel assms(3) by (simp add: rate_inv_def)
  have t: "tick s c = finish (rate_rules (u32_add (recv s) (lost s)) (window_loss s) (c1, o1))"
    using assms(3) by (simp add: tick_split p sel)
  from rate_rules_climb [OF inv] assms(4)
  have r: "clean_window (u32_add (recv s) (lost s)) (eff_loss (last_signals c1)) c1" "\<not> delay_cut_due c1"
    "target (fst (tick s c)) \<le> max (ceiling c) (target c * 11 div 10)" by (auto simp: t sel)
  have "state (delay c) = Normal \<or> state (delay c) = Overuse \<and> excess_now c1 < RTT_OK_MS \<and>
      (target c = FLOOR_KBPS \<or> 0 < drain_left c)"
  proof (cases "state (delay c)")
    case Overuse
    then have "excess_now c1 < RTT_OK_MS"
      using r(1) sel by (auto simp: clean_window_def queued_def draining_def)
    moreover have "1 \<le> since_step c1" "FLOOR_KBPS \<le> target c"
      using sel(6) inv sel(1) by (simp_all add: saturating_add_def u32_max_def rate_inv_def)
    ultimately show ?thesis using Overuse r(2) sel by (auto simp: delay_cut_due_def)
  qed (use r(1) sel in \<open>auto simp: clean_window_def\<close>)
  with r show ?thesis by (simp add: p clean_window_def)
qed

definition cf20 :: ctrl_config where "cf20 = (Config_new H264 20000)\<lparr>start_kbps := 3000\<rparr>"

definition traffic :: "nat \<Rightarrow> nat \<Rightarrow> sample" where
  "traffic r l = \<lparr>recv = r, lost = l, rtt_ms = [], nack_sent = 0, nack_ok = 0, fec_ok = 0\<rparr>"

lemma cf20_sel:
  "target (Controller_new cf20) = 3000" "cap (Controller_new cf20) = 20000" "ceiling (Controller_new cf20) = 20000"
  "startup_left (Controller_new cf20) = 5" "clean (Controller_new cf20) = 0" "noise_loss (Controller_new cf20) = 0"
  "quiet (traffic r l) (Controller_new cf20)" "probing_down (Controller_new cf20) = None"
  by (simp_all add: cf20_def Config_new_def Controller_new_def FLOOR_KBPS_def clamp_def quiet_def traffic_def
      Trendline_new_def Let_def)

lemma cf20_climbs: "target (fst (tick (traffic 2000 0) (Controller_new cf20))) = 4500"
proof -
  have "as_u32 (f64_mul (f64_of 3000) (3 / 2)) = 4500" by code_simp
  then show ?thesis
    using startup_climb [of "traffic 2000 0" "Controller_new cf20"]
    by (simp add: cf20_sel) (simp add: traffic_def u32_max_def clamp_def FLOOR_KBPS_def)
qed

theorem no_climb_on_queued_link_witness:
  "target (fst (tick (traffic 2000 0) (Controller_new cf20))) = 4500 \<and>
   \<not> queued (fst (tick_prepare (traffic 2000 0) (Controller_new cf20)))"
proof -
  have "cap_kbps cf20 \<le> u32_max" by (simp add: cf20_def Config_new_def u32_max_def)
  with no_climb_on_queued_link [OF reachable.start, of cf20 "traffic 2000 0"] show ?thesis
    by (simp add: cf20_sel cf20_climbs)
qed

text \<open>
  severe loss halves the rate. In a window with more than 100 packets and more than 15 % loss,
  when no queue-driven cut is due and no probe-down is judged, the target is halved (down to the floor), the old
  rate becomes the punished ceiling, and the startup phase ends.
\<close>

theorem severe_loss_halves:
  assumes "probing_down c = None" "\<not> delay_cut_due (fst (tick_prepare s c))" "\<not> rtt_cut_due (fst (tick_prepare s c))"
    "100 < u32_add (recv s) (lost s)" "LOSS_SEVERE < window_loss s" "FLOOR_KBPS < target c"
  shows "target (fst (tick s c)) = clamp FLOOR_KBPS (cap c) (target c div 2) \<and>
    ceiling (fst (tick s c)) = clamp FLOOR_KBPS (cap c) (target c * 85 div 100) \<and> startup_left (fst (tick s c)) = 0"
proof -
  obtain c1 o1 where p: "tick_prepare s c = (c1, o1)" by fastforce
  have sel: "target c1 = target c" "cap c1 = cap c" "probing_down c1 = None"
    using tick_prepare_sel [of s c] assms(1) unfolding p by simp_all
  let ?c = "if \<not> queued c1 then c1\<lparr>queue_cuts := 0\<rparr> else c1"
  have sel2: "target ?c = target c" "cap ?c = cap c" using sel by simp_all
  have t: "tick s c = finish (with_reason SevereLoss (apply_rate (target c div 2) (punish (target c) ?c, o1)))"
    using assms sel unfolding tick_split p rate_rules_def loss_rules_def Let_def by simp
  show ?thesis
    unfolding t using sel2
    by (simp add: saturating_sub_def)
qed

theorem severe_loss_halves_witness:
  "target (fst (tick (traffic 800 200) (Controller_new cf20))) = 1500 \<and>
   ceiling (fst (tick (traffic 800 200) (Controller_new cf20))) = 2550"
proof -
  have "u32_add (recv (traffic 800 200)) (lost (traffic 800 200)) = 1000" by (simp add: traffic_def u32_add_def)
  moreover have "LOSS_SEVERE < window_loss (traffic 800 200)" by code_simp
  ultimately show ?thesis
    using severe_loss_halves [of "Controller_new cf20" "traffic 800 200"] quiet_prepare [OF cf20_sel(7)]
    by (simp add: cf20_sel) (simp add: FLOOR_KBPS_def clamp_def)
qed

text \<open>
  the loss-recovery mode flips exactly once. A window in the normal mode flips it, to the mode
  the client prefers, precisely when it has more than 50 packets and is over 3 % loss or the second lossy window
  in a row; once flipped no event of the session changes it again.
\<close>

theorem recovery_flips_once:
  "recovery (fst (tick s c)) =
     (if recovery c = RecNormal \<and> 50 < u32_add (recv s) (lost s) \<and>
         (LOSS_DOWN < window_loss s \<or> RECOVERY_LOSS < window_loss s \<and> RECOVERY_WINDOWS \<le> u32_add (lossy c) 1)
      then preferred_recovery c else recovery c) \<and>
   preferred_recovery c \<noteq> RecNormal \<and> (recovery c = RecNormal \<or> recovery (ctrl_step e c) = recovery c)"
proof -
  have flip: "recovery (fst (tick s c)) =
     (if recovery c = RecNormal \<and> 50 < u32_add (recv s) (lost s) \<and>
         (LOSS_DOWN < window_loss s \<or> RECOVERY_LOSS < window_loss s \<and> RECOVERY_WINDOWS \<le> u32_add (lossy c) 1)
      then preferred_recovery c else recovery c)" for s
    unfolding tick_outcome(4) [of s c]
    by (auto simp: tick_prepare_def tick_recovery_def tick_count_def preferred_recovery_def RECOVERY_WINDOWS_def Let_def)
  then have "recovery c \<noteq> RecNormal \<Longrightarrow> recovery (ctrl_step e c) = recovery c"
    by (cases e) (simp_all add: poll_fast_keeps Controller_on_frame_def set_fec_n_def set_fec_overhead_def
        set_target_def set_manual_point_def on_stream_restart_def Let_def)
  then show ?thesis using flip [of s] by (auto simp: preferred_recovery_def)
qed

lemma host_bound_next_lighter:
  "host_bound_next c = Some n \<Longrightarrow> load (points c ! n) < load (Controller_point c) \<and> fps (points c ! n) \<le> fps (Controller_point c)"
  by (auto simp: host_bound_next_def Let_def find_Some_iff Controller_point_def)

text \<open>
  a queue that survives the rate cuts is treated as the host's. On the third queue-driven cut
  in a row of an automatic ladder that has a lighter rung, the controller moves to the first rung with fewer
  pixels per second and no more frames per second, caps the ladder there, leaves target and ceiling alone, and
  makes no queue-driven cut, fast or windowed, while the host drains; without such a rung the cut is applied.
\<close>

theorem persistent_queue_steps_point:
  assumes "HOST_BOUND_CUTS \<le> u32_add (queue_cuts c) 1" "\<not> manual_point c"
  shows "case host_bound_next c of
      Some n \<Rightarrow>
        load (points c ! n) < load (Controller_point c) \<and> fps (points c ! n) \<le> fps (Controller_point c) \<and>
        Controller_point (fst (queue_cut k k' (c, out))) = points c ! n \<and> point_cap (fst (queue_cut k k' (c, out))) = n \<and>
        target (fst (queue_cut k k' (c, out))) = target c \<and> ceiling (fst (queue_cut k k' (c, out))) = ceiling c \<and>
        queue_cuts (fst (queue_cut k k' (c, out))) = 0 \<and>
        \<not> delay_cut_due (fst (queue_cut k k' (c, out))) \<and> \<not> rtt_cut_due (fst (queue_cut k k' (c, out))) \<and>
        snd (poll_fast now (fst (queue_cut k k' (c, out)))) = None
    | None \<Rightarrow> target (fst (queue_cut k k' (c, out))) = clamp FLOOR_KBPS (cap c) k' \<and>
        ceiling c \<le> ceiling (fst (queue_cut k k' (c, out)))"
proof (cases "host_bound_next c")
  case None
  then have "host_bound_next (c\<lparr>queue_cuts := q\<rparr>) = None" for q by (simp add: host_bound_next_def)
  then have "queue_cut k k' (c, out) = rate_cut k k' (c\<lparr>queue_cuts := u32_add (queue_cuts c) 1\<rparr>, out)"
    using assms by (simp add: queue_cut_def step_down_host_bound_def Let_def)
  moreover have "ceiling c \<le> ceiling (fst (rate_cut k k' (c\<lparr>queue_cuts := u32_add (queue_cuts c) 1\<rparr>, out)))"
    using assms(1) by (simp add: rate_cut_def Let_def HOST_BOUND_CUTS_def)
  ultimately show ?thesis using None by simp
next
  case (Some n)
  then have "host_bound_next (c\<lparr>queue_cuts := q\<rparr>) = Some n" for q by (simp add: host_bound_next_def)
  then have q: "fst (queue_cut k k' (c, out)) = c\<lparr>
      point_retry := (if point_retry c = 0 then POINT_RETRY_WINDOWS else min (u32_mul (point_retry c) 2) POINT_RETRY_MAX),
      point_idx := n, point_cap := n, at_point_cap := 0, point_age := 0, clean_at_point := 0, since_step := 0,
      startup_left := 0, drain_left := 2, queue_cuts := 0\<rparr>"
    using assms by (simp add: queue_cut_def step_down_host_bound_def Let_def)
  show ?thesis
    using Some host_bound_next_lighter [OF Some] q
    by (simp add: Controller_point_def delay_cut_due_def rtt_cut_due_def poll_fast_eq fast_cut_blocked_def)
qed

definition p1080 :: point where "p1080 = \<lparr>width = 1920, height = 1080, fps = 60, min_kbps = 8000\<rparr>"
definition p720 :: point where "p720 = \<lparr>width = 1280, height = 720, fps = 60, min_kbps = 4000\<rparr>"

definition host_bound :: controller where
  "host_bound = (Controller_new cf20)\<lparr>points := [p1080, p720], manual_point := False, queue_cuts := 2, point_idx := 0\<rparr>"

theorem persistent_queue_steps_point_witness:
  "Controller_point (fst (queue_cut 3000 2550 (host_bound, Decision_default))) = p720 \<and>
   target (fst (queue_cut 3000 2550 (host_bound, Decision_default))) = 3000"
proof -
  have "host_bound_next host_bound = Some 1"
    by (simp add: host_bound_next_def host_bound_def p1080_def p720_def load_def)
  moreover have "HOST_BOUND_CUTS \<le> u32_add (queue_cuts host_bound) 1" "\<not> manual_point host_bound"
    by (simp_all add: host_bound_def HOST_BOUND_CUTS_def u32_add_def)
  ultimately show ?thesis
    using persistent_queue_steps_point [of host_bound 3000 2550 Decision_default 0]
    by (simp add: host_bound_def cf20_sel)
qed

lemma apply_rate_fast [simp]: "last_fast_cut_ms (fst (apply_rate k (c, out))) = last_fast_cut_ms c"
  by (simp add: apply_rate_def Let_def)

lemma queue_cut_fast: "last_fast_cut_ms (fst (queue_cut k k' (c, out))) = last_fast_cut_ms c"
proof -
  have "last_fast_cut_ms (fst (rate_cut k k' (c', out))) = last_fast_cut_ms c'" for c'
    by (simp add: rate_cut_def punish_def Let_def)
  moreover have "last_fast_cut_ms c'' = last_fast_cut_ms c'" if "step_down_host_bound (c', out) = Some (c'', o'')" for c' c'' o''
    using that by (auto simp: step_down_host_bound_def split: if_splits option.splits)
  ultimately show ?thesis using queue_cut_cases [of k k' c out] by fastforce
qed

text \<open>
  the fast reflex is rate limited and only ever lowers the rate. When \<open>poll_fast\<close> acts in a
  state that satisfies the rate invariant (every reachable one does, see \<open>reachable_inv\<close>), the
  overuse hypothesis had held for at least 500 ms, the target was above the floor and does not rise, and no
  further poll within the next 1500 ms acts, whatever frames or FEC updates arrive in between.
\<close>

theorem fast_reflex_limited:
  assumes "rate_inv c" "snd (poll_fast now c) \<noteq> None"
  shows "FAST_OVERUSE_MS \<le> overuse_ms (delay c) now \<and> FLOOR_KBPS < target c \<and>
    target (fst (poll_fast now c)) \<le> target c \<and> last_fast_cut_ms (fst (poll_fast now c)) = now \<and>
    (\<not> f64_sub now' now < FAST_COOLDOWN_MS \<or>
      snd (poll_fast now' ((fst (poll_fast now c))\<lparr>delay := d, fec_overhead := ov\<rparr>)) = None)"
proof -
  let ?c = "c\<lparr>last_fast_cut_ms := now\<rparr>" and ?d = "Decision_default\<lparr>dec_reason := DelayOveruseFast\<rparr>"
  have act: "\<not> fast_cut_blocked now c" using assms(2) by (auto simp: poll_fast_eq)
  obtain c1 o1 where q: "queue_cut (target c) (u32_mul (target c) 85 div 100) (?c, ?d) = (c1, o1)" by fastforce
  have fl: "FLOOR_KBPS \<le> cap c" "FLOOR_KBPS \<le> target c"
    using assms(1) by (simp_all add: rate_inv_def)
  have "target c1 \<le> target c"
    using queue_cut_target [of "target c" "u32_mul (target c) 85 div 100" ?c ?d] clamp_le [OF fl] u32_mul_div_le [of 85 100]
    unfolding q by auto
  moreover have "last_fast_cut_ms c1 = now"
    using queue_cut_fast [of "target c" "u32_mul (target c) 85 div 100" ?c ?d] unfolding q by simp
  ultimately show ?thesis
    using act by (simp add: poll_fast_eq q) (simp add: fast_cut_blocked_def not_less)
qed

definition overusing :: controller where
  "overusing = (Controller_new cf20)\<lparr>delay := Trendline_new\<lparr>state := Overuse, overuse_since_ms := Some 1000\<rparr>\<rparr>"

theorem fast_reflex_limited_witness:
  "snd (poll_fast 1600 overusing) \<noteq> None \<and> target (fst (poll_fast 1600 overusing)) \<le> 3000 \<and>
   snd (poll_fast 2600 ((fst (poll_fast 1600 overusing))\<lparr>delay := delay overusing, fec_overhead := 0\<rparr>)) = None"
proof -
  have f: "f64_sub 1600 1000 = 600" "f64_sub 1600 (- 1000000000) = 1000001600" "f64_sub 2600 1600 = 1000" by code_simp+
  have ov: "overuse_ms (delay overusing) 1600 = 600" by (simp add: overusing_def overuse_ms_def f)
  have t: "target overusing = 3000" "drain_left overusing = 0" "last_fast_cut_ms overusing = - 1000000000"
    by (simp_all add: overusing_def cf20_sel) (simp_all add: Controller_new_def Let_def split: prod.split)
  have act: "snd (poll_fast 1600 overusing) \<noteq> None"
    by (simp add: poll_fast_eq fast_cut_blocked_def ov t f FAST_OVERUSE_MS_def FAST_COOLDOWN_MS_def FLOOR_KBPS_def)
  have "rate_inv overusing" using Controller_new_inv [of cf20]
    by (simp add: overusing_def rate_inv_def cf20_def Config_new_def u32_max_def)
  from fast_reflex_limited [OF this act, where now' = 2600 and d = "delay overusing" and ov = 0] act show ?thesis
    by (simp add: t f FAST_COOLDOWN_MS_def)
qed

text \<open>
  the parity never pushes the wire rate past the target: for rates up to \<open>2 ^ 24\<close> kbit/s the
  bitrate asked of the encoder is at most the target, for every observed parity overhead, is the whole target
  when there is no parity, and never falls under the floor.
\<close>

theorem encoder_share_within_target:
  assumes "target c \<le> 16777216" "0 \<le> fec_overhead c" "FLOOR_KBPS \<le> target c"
  shows "FLOOR_KBPS \<le> encoder_rate c \<and> encoder_rate c \<le> target c \<and> (fec_overhead c \<noteq> 0 \<or> encoder_rate c = target c)"
proof -
  let ?r = "encoder_share_ratio (fec_overhead c)"
  have add: "1 \<le> f32_add 1 (max (fec_overhead c) 0)" using assms by (simp add: f32_add_def f32.ge_one)
  then have r: "0 \<le> ?r" "?r \<le> 1"
    by (simp_all add: encoder_share_ratio_def f32_div_def f32.nonneg f32.le_one)
  have ft: "f32_of (target c) = of_nat (target c)" using assms by (simp add: f32_of_exact)
  have "f32_mul (f32_of (target c)) ?r \<le> of_nat (target c)"
    unfolding f32_mul_def ft using assms r by (intro f32.le_nat) (simp_all add: mult_left_le)
  then have le: "as_u32 (f32_mul (f32_of (target c)) ?r) \<le> target c" by (rule as_u32_le_nat)
  have "fec_overhead c = 0 \<Longrightarrow> as_u32 (f32_mul (f32_of (target c)) ?r) = target c"
  proof -
    assume "fec_overhead c = 0"
    then have "f32_mul (f32_of (target c)) ?r = of_nat (target c)"
      using assms f32.nat_exact [of "target c"]
      by (simp add: encoder_share_ratio_def f32_add_def f32_div_def f32.one f32_mul_def ft)
    then show ?thesis using assms by (simp add: as_u32_def u32_max_def)
  qed
  then show ?thesis using le assms by (auto simp: encoder_rate_def)
qed

theorem encoder_share_within_target_witness:
  "encoder_rate ((Controller_new cf20)\<lparr>fec_overhead := 1 / 4\<rparr>) \<le> 3000 \<and> encoder_rate (Controller_new cf20) = 3000"
proof -
  have "fec_overhead (Controller_new cf20) = 0" by (simp add: Controller_new_def Let_def split: prod.split)
  then show ?thesis
    using encoder_share_within_target [of "(Controller_new cf20)\<lparr>fec_overhead := 1 / 4\<rparr>"]
      encoder_share_within_target [of "Controller_new cf20"] by (simp add: cf20_sel FLOOR_KBPS_def)
qed

end
