(* ===== verification/Pulsar_Replay.thy ===== *)
theory Pulsar_Replay
  imports Pulsar_Prelude
begin

text \<open>
  The anti-replay window of \<^verbatim>\<open>crypto.rs\<close>: \<open>ReplayWindow\<close>, a 1024-bit bitmap in sixteen 64-bit words
  with its in-place multi-word shift, and \<open>accept\<close>. The locale \<open>replay_filter\<close> states what a receiver
  relies on; the bitmap is shown to refine the set of recent sequence numbers and to provide that interface.
\<close>

subsection \<open>The interface a receiver relies on\<close>

locale replay_filter =
  fixes accept :: "'s \<Rightarrow> 'n \<Rightarrow> bool \<times> 's"
    and blocked :: "'s \<Rightarrow> 'n \<Rightarrow> bool"
    and ok :: "'s \<Rightarrow> bool"
  assumes accept_iff: "ok s \<Longrightarrow> fst (accept s n) \<longleftrightarrow> \<not> blocked s n"
    and blocked_self: "ok s \<Longrightarrow> blocked (snd (accept s n)) n"
    and blocked_mono: "ok s \<Longrightarrow> blocked s m \<Longrightarrow> blocked (snd (accept s n)) m"
    and ok_accept: "ok s \<Longrightarrow> ok (snd (accept s n))"
begin

primrec accepted :: "'s \<Rightarrow> 'n list \<Rightarrow> 'n list" where
  "accepted s [] = []"
| "accepted s (n # ns) = (if fst (accept s n) then [n] else []) @ accepted (snd (accept s n)) ns"

lemma blocked_not_accepted: "ok s \<Longrightarrow> blocked s n \<Longrightarrow> n \<notin> set (accepted s ns)"
  by (induction ns arbitrary: s) (auto simp: accept_iff blocked_mono ok_accept)

lemma accepted_distinct: "ok s \<Longrightarrow> distinct (accepted s ns)"
  by (induction ns arbitrary: s) (auto simp: ok_accept dest: blocked_not_accepted [OF ok_accept blocked_self])

end

subsection \<open>\<^verbatim>\<open>ReplayWindow\<close>\<close>

definition REPLAY_WINDOW :: nat where "REPLAY_WINDOW = 1024"
definition WORDS :: nat where "WORDS = REPLAY_WINDOW div 64"

record replay_window =
  high :: "u64 option"
  bitmap :: "u64 list"

definition ReplayWindow_default :: replay_window where
  "ReplayWindow_default = \<lparr>high = None, bitmap = replicate WORDS 0\<rparr>"

definition get_bit :: "u64 \<Rightarrow> replay_window \<Rightarrow> bool" where
  "get_bit offset r = (bitmap r ! (unat offset div 64) AND push_bit (unat offset mod 64) 1 \<noteq> 0)"

definition set_bit_at :: "u64 \<Rightarrow> replay_window \<Rightarrow> replay_window" where
  "set_bit_at offset r = (let word = unat offset div 64 in
     r\<lparr>bitmap := (bitmap r)[word := bitmap r ! word OR push_bit (unat offset mod 64) 1]\<rparr>)"

definition shift_word :: "nat \<Rightarrow> nat \<Rightarrow> u64 list \<Rightarrow> nat \<Rightarrow> u64" where
  "shift_word word_shift bit_shift bm i =
     (if bit_shift = 0 then (if i \<ge> word_shift then bm ! (i - word_shift) else 0)
      else if i \<ge> word_shift then
        push_bit bit_shift (bm ! (i - word_shift)) OR
        (if i > word_shift then drop_bit (64 - bit_shift) (bm ! (i - word_shift - 1)) else 0)
      else 0)"

definition shift :: "u64 \<Rightarrow> replay_window \<Rightarrow> replay_window" where
  "shift sh r =
     (if unat sh \<ge> REPLAY_WINDOW then r\<lparr>bitmap := replicate WORDS 0\<rparr>
      else
        let word_shift = unat sh div 64; bit_shift = unat sh mod 64 in
        r\<lparr>bitmap := foldl (\<lambda>bm i. bm[i := shift_word word_shift bit_shift bm i]) (bitmap r) (rev [0..<WORDS])\<rparr>)"

definition accept :: "replay_window \<Rightarrow> u64 \<Rightarrow> bool \<times> replay_window" where
  "accept r seq =
     (case high r of
        None \<Rightarrow> (True, set_bit_at 0 (r\<lparr>high := Some seq, bitmap := replicate WORDS 0\<rparr>))
      | Some h \<Rightarrow>
          if seq > h then (True, set_bit_at 0 ((shift (seq - h) r)\<lparr>high := Some seq\<rparr>))
          else
            let offset = h - seq in
            if unat offset \<ge> REPLAY_WINDOW then (False, r)
            else if get_bit offset r then (False, r)
            else (True, set_bit_at offset r))"

subsection \<open>The in-place shift\<close>

lemma foldl_update_rev:
  assumes "\<And>b b' i. i < n \<Longrightarrow> (\<forall>j \<le> i. b ! j = b' ! j) \<Longrightarrow> f b i = f b' i" and "n \<le> length bm"
  shows "length (foldl (\<lambda>b i. b[i := f b i]) bm (rev [0..<n])) = length bm \<and>
    (\<forall>i < length bm. foldl (\<lambda>b i. b[i := f b i]) bm (rev [0..<n]) ! i = (if i < n then f bm i else bm ! i))"
  using assms
proof (induction n arbitrary: bm)
  case (Suc n)
  let ?b = "bm[n := f bm n]"
  have IH: "length (foldl (\<lambda>b i. b[i := f b i]) ?b (rev [0..<n])) = length ?b \<and>
    (\<forall>i < length ?b. foldl (\<lambda>b i. b[i := f b i]) ?b (rev [0..<n]) ! i = (if i < n then f ?b i else ?b ! i))"
    using Suc.prems by (intro Suc.IH) auto
  have "f ?b i = f bm i" if "i < n" for i using that by (intro Suc.prems(1)) auto
  with IH Suc.prems(2) show ?case by (auto simp: less_Suc_eq)
qed simp

lemma shift_bitmap:
  assumes "length (bitmap r) = WORDS" "unat sh < REPLAY_WINDOW"
  shows "length (bitmap (shift sh r)) = WORDS"
    "i < WORDS \<Longrightarrow> bitmap (shift sh r) ! i = shift_word (unat sh div 64) (unat sh mod 64) (bitmap r) i"
proof -
  have dep: "(\<forall>j \<le> i. b ! j = b' ! j) \<Longrightarrow> shift_word ws bs b i = shift_word ws bs b' i" for b b' ws bs i
    by (simp add: shift_word_def)
  note in_place = foldl_update_rev [where n = WORDS and f = "shift_word (unat sh div 64) (unat sh mod 64)", OF dep]
  show "length (bitmap (shift sh r)) = WORDS"
    "i < WORDS \<Longrightarrow> bitmap (shift sh r) ! i = shift_word (unat sh div 64) (unat sh mod 64) (bitmap r) i"
    using in_place [of "bitmap r"] assms by (simp_all add: shift_def Let_def)
qed

subsection \<open>Bits of the window\<close>

definition seen_at :: "replay_window \<Rightarrow> nat \<Rightarrow> bool" where
  "seen_at r k = bit (bitmap r ! (k div 64)) (k mod 64)"

definition window_ok :: "replay_window \<Rightarrow> bool" where
  "window_ok r \<longleftrightarrow> length (bitmap r) = WORDS"

lemma WORDS_eq: "WORDS = 16" "REPLAY_WINDOW = 1024"
  by (simp_all add: WORDS_def REPLAY_WINDOW_def)

lemma get_bit_seen: "get_bit k r = seen_at r (unat k)"
  by (simp add: get_bit_def seen_at_def bit_iff_and_push_bit_not_eq_0)

lemma seen_at_set_bit:
  assumes "window_ok r" "unat k < REPLAY_WINDOW"
  shows "seen_at (set_bit_at k r) j \<longleftrightarrow> j = unat k \<or> seen_at r j"
proof -
  have len: "unat k div 64 < length (bitmap r)" using assms by (simp add: window_ok_def WORDS_eq less_mult_imp_div_less)
  have push: "bit (push_bit (unat k mod 64) 1 :: u64) m \<longleftrightarrow> m = unat k mod 64" if "m < 64" for m
    using that by (auto simp: bit_simps)
  show ?thesis
  proof (cases "j div 64 = unat k div 64")
    case True
    then have "j = unat k \<longleftrightarrow> j mod 64 = unat k mod 64" by (metis div_mult_mod_eq)
    with True len push [of "j mod 64"] show ?thesis
      by (simp add: seen_at_def set_bit_at_def Let_def bit_or_iff disj_commute del: push_bit_of_1)
  next
    case False
    then show ?thesis by (auto simp: seen_at_def set_bit_at_def Let_def)
  qed
qed

lemma seen_at_shift:
  assumes "window_ok r" "unat sh < REPLAY_WINDOW" "j < REPLAY_WINDOW"
  shows "seen_at (shift sh r) j \<longleftrightarrow> unat sh \<le> j \<and> seen_at r (j - unat sh)"
proof -
  define ws bs i k where "ws = unat sh div 64" and "bs = unat sh mod 64" and "i = j div 64" and "k = j mod 64"
  have sh: "unat sh = ws * 64 + bs" "bs < 64" and j: "j = i * 64 + k" "k < 64" "i < WORDS"
    using assms by (simp_all add: ws_def bs_def i_def k_def WORDS_eq less_mult_imp_div_less)
  have word: "seen_at (shift sh r) j = bit (shift_word ws bs (bitmap r) i) k"
    using shift_bitmap(2) [OF _ assms(2), of r i] assms(1) j(3)
    by (simp add: seen_at_def window_ok_def ws_def bs_def i_def k_def)
  consider "k < bs" "i \<le> ws" | "k < bs" "ws < i" | "bs \<le> k" "i < ws" | "bs \<le> k" "ws \<le> i" by linarith
  then show ?thesis
  proof cases
    case 1
    then have "\<not> unat sh \<le> j" using sh j by auto
    then show ?thesis using word 1 by (auto simp: shift_word_def bit_simps)
  next
    case 2
    then have "j - unat sh = (i - ws - 1) * 64 + (64 - bs + k)" "64 - bs + k < 64" "unat sh \<le> j"
      using sh j by (auto simp: algebra_simps diff_mult_distrib)
    then show ?thesis using word 2 j by (auto simp: shift_word_def bit_simps seen_at_def)
  next
    case 3
    then have "\<not> unat sh \<le> j" using sh j by auto
    then show ?thesis using word 3 by (auto simp: shift_word_def)
  next
    case 4
    then obtain m where m: "k = bs + m" using le_Suc_ex by blast
    with 4 have "j - unat sh = (i - ws) * 64 + m" "unat sh \<le> j" "m < 64"
      using sh j by (auto simp: algebra_simps diff_mult_distrib)
    then have "seen_at r (j - unat sh) = bit (bitmap r ! (i - ws)) m" "unat sh \<le> j" by (simp_all add: seen_at_def)
    then show ?thesis using word 4 m j(2)
      by (auto simp: shift_word_def bit_simps dest: bit_imp_le_length)
  qed
qed

subsection \<open>Specification: the set of recent sequence numbers\<close>

type_synonym replay_spec = "u64 option \<times> u64 set"

definition spec_accept :: "replay_spec \<Rightarrow> u64 \<Rightarrow> bool \<times> replay_spec" where
  "spec_accept = (\<lambda>(edge, seen) seq.
     case edge of
       None \<Rightarrow> (True, (Some seq, {seq}))
     | Some h \<Rightarrow>
         if h < seq then (True, (Some seq, insert seq {x \<in> seen. unat (seq - x) < REPLAY_WINDOW}))
         else if unat (h - seq) \<ge> REPLAY_WINDOW \<or> seq \<in> seen then (False, (edge, seen))
         else (True, (edge, insert seq seen)))"

definition abs_window :: "replay_window \<Rightarrow> replay_spec" where
  "abs_window r = (high r, case high r of None \<Rightarrow> {}
     | Some h \<Rightarrow> {x. x \<le> h \<and> unat (h - x) < REPLAY_WINDOW \<and> seen_at r (unat (h - x))})"

lemma unat_diff: "x \<le> h \<Longrightarrow> unat (h - x) = unat h - unat (x :: u64)"
  by (simp add: unat_sub)

lemma window_ok_set_bit [simp]: "window_ok (set_bit_at k r) = window_ok r"
  by (simp add: window_ok_def set_bit_at_def Let_def)

lemma high_set_bit [simp]: "high (set_bit_at k r) = high r" "high (shift sh r) = high r"
  by (simp_all add: set_bit_at_def shift_def Let_def)

lemma window_ok_shift: "window_ok r \<Longrightarrow> window_ok (shift sh r)"
  using shift_bitmap(1) [of r sh] by (cases "unat sh < REPLAY_WINDOW") (auto simp: window_ok_def shift_def)

lemma window_ok_high [simp]: "window_ok (r\<lparr>high := h\<rparr>) = window_ok r" "seen_at (r\<lparr>high := h\<rparr>) = seen_at r"
  by (simp_all add: window_ok_def seen_at_def fun_eq_iff)

lemma seen_at_zero: "j < REPLAY_WINDOW \<Longrightarrow> bitmap r = replicate WORDS 0 \<Longrightarrow> \<not> seen_at r j"
  by (simp add: seen_at_def WORDS_eq less_mult_imp_div_less)

lemma window_ok_accept: "window_ok r \<Longrightarrow> window_ok (snd (accept r seq))"
  by (auto simp: accept_def Let_def window_ok_shift split: option.split) (simp add: window_ok_def)

lemma seen_at_shift_all:
  assumes "window_ok r" "j < REPLAY_WINDOW"
  shows "seen_at (shift sh r) j \<longleftrightarrow> unat sh < REPLAY_WINDOW \<and> unat sh \<le> j \<and> seen_at r (j - unat sh)"
proof (cases "unat sh < REPLAY_WINDOW")
  case False
  then have "bitmap (shift sh r) = replicate WORDS 0" by (simp add: shift_def)
  with False seen_at_zero assms(2) show ?thesis by blast
qed (simp add: seen_at_shift assms)

lemma accept_ahead:
  assumes ok: "window_ok r" and h: "high r = Some h" and "h < seq"
  shows "abs_window (set_bit_at 0 ((shift (seq - h) r)\<lparr>high := Some seq\<rparr>)) =
    (Some seq, insert seq {x \<in> snd (abs_window r). unat (seq - x) < REPLAY_WINDOW})"
proof -
  have sh: "unat (seq - h) = unat seq - unat h" "unat h < unat seq"
    using assms(3) by (simp_all add: unat_diff less_imp_le word_less_nat_alt)
  have edge: "0 < REPLAY_WINDOW" by (simp add: WORDS_eq)
  have "x \<le> seq \<and> unat (seq - x) < REPLAY_WINDOW \<and>
      (unat (seq - x) = 0 \<or> seen_at (shift (seq - h) r) (unat (seq - x))) \<longleftrightarrow>
    x = seq \<or> x \<le> h \<and> unat (h - x) < REPLAY_WINDOW \<and> seen_at r (unat (h - x)) \<and> unat (seq - x) < REPLAY_WINDOW" for x
  proof -
    consider "seq < x" | "x = seq" | "h < x" "x < seq" | "x \<le> h" by fastforce
    then show ?thesis
    proof cases
      case 3
      then have "unat (seq - x) = unat seq - unat x" "unat x < unat seq" "unat h < unat x"
        by (simp_all add: unat_diff less_imp_le word_less_nat_alt)
      then have "unat (seq - x) \<noteq> 0" "\<not> unat (seq - h) \<le> unat (seq - x)" using sh by linarith+
      then show ?thesis using 3 seen_at_shift_all [OF ok, of "unat (seq - x)" "seq - h"] by auto
    next
      case 4
      then have "unat (seq - x) = unat seq - unat x" "unat (h - x) = unat h - unat x" "unat x \<le> unat h" "x \<le> seq"
        using assms(3) by (auto simp: unat_diff word_le_nat_alt word_less_nat_alt)
      then have "unat (seq - x) \<noteq> 0" "unat (seq - h) \<le> unat (seq - x)" "unat (seq - x) - unat (seq - h) = unat (h - x)"
        "x \<noteq> seq" "x \<le> seq" using sh by auto
      then show ?thesis using 4 seen_at_shift_all [OF ok, of "unat (seq - x)" "seq - h"] by auto
    qed (use assms(3) edge in auto)
  qed
  then show ?thesis
    using h seen_at_set_bit [of "(shift (seq - h) r)\<lparr>high := Some seq\<rparr>" 0] window_ok_shift [OF ok] edge
    by (simp add: abs_window_def insert_compr)
qed

lemma accept_inside:
  assumes ok: "window_ok r" and h: "high r = Some h" and le: "seq \<le> h" and k: "unat (h - seq) < REPLAY_WINDOW"
  shows "abs_window (set_bit_at (h - seq) r) = (Some h, insert seq (snd (abs_window r)))"
proof -
  have "h - x = h - seq \<longleftrightarrow> x = seq" for x
    by (simp only: diff_conv_add_uminus add_left_cancel neg_equal_iff_equal)
  then have "unat (h - x) = unat (h - seq) \<longleftrightarrow> x = seq" for x using word_unat_eq_iff [of "h - x" "h - seq"] by simp
  then have "x \<le> h \<and> unat (h - x) < REPLAY_WINDOW \<and> (unat (h - x) = unat (h - seq) \<or> seen_at r (unat (h - x))) \<longleftrightarrow>
      x = seq \<or> x \<le> h \<and> unat (h - x) < REPLAY_WINDOW \<and> seen_at r (unat (h - x))" for x
    using le k by metis
  then show ?thesis
    using h seen_at_set_bit [OF ok k] by (simp add: abs_window_def insert_compr)
qed

lemma accept_refines:
  assumes "window_ok r"
  shows "fst (accept r seq) = fst (spec_accept (abs_window r) seq)"
    "abs_window (snd (accept r seq)) = snd (spec_accept (abs_window r) seq)"
proof -
  have first: "abs_window (set_bit_at 0 (r\<lparr>high := Some seq, bitmap := replicate WORDS 0\<rparr>)) = (Some seq, {seq})"
  proof -
    let ?r = "r\<lparr>high := Some seq, bitmap := replicate WORDS 0\<rparr>"
    have "window_ok ?r" by (simp add: window_ok_def)
    moreover have "x \<le> seq \<and> unat (seq - x) < REPLAY_WINDOW \<and> (unat (seq - x) = 0 \<or> seen_at ?r (unat (seq - x))) \<longleftrightarrow> x = seq" for x
      using seen_at_zero [of "unat (seq - x)" ?r] by (auto simp: WORDS_eq unsigned_eq_0_iff)
    ultimately show ?thesis using seen_at_set_bit [of ?r 0] by (simp add: abs_window_def WORDS_eq)
  qed
  have mem: "high r = Some h \<Longrightarrow> seq \<le> h \<Longrightarrow> unat (h - seq) < REPLAY_WINDOW \<Longrightarrow>
      seq \<in> snd (abs_window r) \<longleftrightarrow> get_bit (h - seq) r" for h
    by (simp add: abs_window_def get_bit_seen)
  show "fst (accept r seq) = fst (spec_accept (abs_window r) seq)"
    using mem by (auto simp: accept_def spec_accept_def abs_window_def Let_def not_less split: option.split)
  show "abs_window (snd (accept r seq)) = snd (spec_accept (abs_window r) seq)"
  proof (cases "high r")
    case None
    then show ?thesis using first by (simp add: accept_def spec_accept_def abs_window_def [of r])
  next
    case (Some h)
    have a: "abs_window r = (Some h, snd (abs_window r))" using Some by (simp add: abs_window_def)
    have sp: "spec_accept (abs_window r) seq =
      (if h < seq then (True, (Some seq, insert seq {x \<in> snd (abs_window r). unat (seq - x) < REPLAY_WINDOW}))
       else if unat (h - seq) \<ge> REPLAY_WINDOW \<or> seq \<in> snd (abs_window r) then (False, abs_window r)
       else (True, (Some h, insert seq (snd (abs_window r)))))"
      using a by (cases "abs_window r") (simp add: spec_accept_def)
    show ?thesis
      unfolding sp using Some mem [OF Some] accept_ahead [OF assms Some] accept_inside [OF assms Some]
      by (cases "h < seq") (auto simp: accept_def Let_def)
  qed
qed

subsection \<open>The bitmap window is a replay filter\<close>

definition blocked :: "replay_window \<Rightarrow> u64 \<Rightarrow> bool" where
  "blocked r seq = (case high r of None \<Rightarrow> False
     | Some h \<Rightarrow> seq \<le> h \<and> (unat (h - seq) \<ge> REPLAY_WINDOW \<or> seq \<in> snd (abs_window r)))"

lemma blocked_spec:
  "blocked r seq = (case fst (abs_window r) of None \<Rightarrow> False
     | Some h \<Rightarrow> seq \<le> h \<and> (unat (h - seq) \<ge> REPLAY_WINDOW \<or> seq \<in> snd (abs_window r)))"
  by (simp add: blocked_def abs_window_def split: option.split)

lemma abs_window_edge: "fst (abs_window r) = None \<Longrightarrow> snd (abs_window r) = {}"
  by (simp add: abs_window_def split: option.splits)

interpretation rw: replay_filter accept blocked window_ok
proof
  fix r :: replay_window and n m :: u64
  assume ok: "window_ok r"
  note ref = accept_refines [OF ok]
  show "fst (accept r n) \<longleftrightarrow> \<not> blocked r n"
    unfolding ref blocked_spec by (auto simp: spec_accept_def split: prod.splits option.splits)
  show "blocked (snd (accept r n)) n"
    unfolding ref blocked_spec by (auto simp: spec_accept_def not_less split: prod.splits option.splits)
  show "blocked (snd (accept r n)) m" if "blocked r m"
  proof -
    have "unat (n - m) \<ge> unat (h - m)" if "m \<le> h" "h < n" for h
      using that by (simp add: unat_diff word_le_nat_alt word_less_nat_alt)
    then show ?thesis
      using that unfolding ref blocked_spec
      by (fastforce simp: spec_accept_def not_less split: prod.splits option.splits if_splits)
  qed
  show "window_ok (snd (accept r n))" by (rule window_ok_accept [OF ok])
qed

lemma window_ok_default: "window_ok ReplayWindow_default"
  by (simp add: window_ok_def ReplayWindow_default_def)

subsection \<open>Runs\<close>

primrec accept_all :: "replay_window \<Rightarrow> u64 list \<Rightarrow> replay_window" where
  "accept_all r [] = r"
| "accept_all r (n # ns) = accept_all (snd (accept r n)) ns"

lemma accept_all_snoc: "accept_all r (ns @ [n]) = snd (accept (accept_all r ns) n)"
  by (induction ns arbitrary: r) auto

lemma window_ok_accept_all: "window_ok r \<Longrightarrow> window_ok (accept_all r ns)"
  by (induction ns arbitrary: r) (auto simp: window_ok_accept)

text \<open>After a run the right edge is the largest sequence number offered and only offered numbers are marked.\<close>

lemma accept_all_history:
  "fst (abs_window (accept_all ReplayWindow_default ns)) = (if ns = [] then None else Some (Max (set ns))) \<and>
   snd (abs_window (accept_all ReplayWindow_default ns)) \<subseteq> set ns"
proof (induction ns rule: rev_induct)
  case Nil
  then show ?case by (simp add: abs_window_def ReplayWindow_default_def)
next
  case (snoc n ns)
  let ?r = "accept_all ReplayWindow_default ns"
  have ref: "abs_window (snd (accept ?r n)) = snd (spec_accept (abs_window ?r) n)"
    by (rule accept_refines(2)) (rule window_ok_accept_all [OF window_ok_default])
  obtain e S where a: "abs_window ?r = (e, S)" by fastforce
  have e: "e = (if ns = [] then None else Some (Max (set ns)))" "S \<subseteq> set ns" using snoc a by simp_all
  show ?case
  proof (cases "ns = []")
    case True
    then show ?thesis using e ref a by (simp add: accept_all_snoc spec_accept_def)
  next
    case False
    then have "Max (set (ns @ [n])) = (if Max (set ns) < n then n else Max (set ns))" by (auto simp: max_def simp del: Max_less_iff Max_ge_iff)
    then show ?thesis
      using e False by (auto simp: accept_all_snoc ref a spec_accept_def simp del: Max_less_iff Max_ge_iff Max_insert)
  qed
qed

subsection \<open>Properties\<close>

text \<open>
  C4: the bitmap window refines the set of recent sequence numbers: \<open>accept\<close> answers, and moves
  its abstraction, exactly as the specification that keeps the right edge and the set of accepted numbers less
  than 1024 behind it, with the multi-word in-place shift included.
\<close>

theorem replay_window_refines_set:
  assumes "length (bitmap r) = WORDS"
  shows "fst (accept r seq) = fst (spec_accept (abs_window r) seq) \<and>
    abs_window (snd (accept r seq)) = snd (spec_accept (abs_window r) seq) \<and>
    length (bitmap (snd (accept r seq))) = WORDS"
  using assms accept_refines [of r seq] window_ok_accept [of r seq] by (simp add: window_ok_def)

theorem replay_window_refines_set_witness:
  "abs_window (snd (accept ReplayWindow_default 7)) = (Some 7, {7})"
  using replay_window_refines_set [of ReplayWindow_default 7]
  by (simp add: ReplayWindow_default_def abs_window_def [of "\<lparr>high = None, bitmap = replicate WORDS 0\<rparr>"] spec_accept_def)

text \<open>
  no sequence number is accepted twice: over any sequence of arrivals the numbers the window
  accepts are pairwise different, whatever the order, gaps and repetitions.
\<close>

theorem replay_accepts_at_most_once:
  "distinct (rw.accepted ReplayWindow_default seqs)"
  by (rule rw.accepted_distinct [OF window_ok_default])

text \<open>
  a late datagram is not mistaken for a replay: a sequence number that was not offered before
  is accepted if it is ahead of every number offered so far or less than 1024 behind the largest of them, so
  reordering within the window never loses a packet.
\<close>

theorem fresh_in_window_accepted:
  assumes "seq \<notin> set ns" and "list_all (\<lambda>m. unat m < unat seq + 1024) ns"
  shows "fst (accept (accept_all ReplayWindow_default ns) seq)"
proof (cases "ns = []")
  case True
  then show ?thesis by (simp add: accept_def ReplayWindow_default_def)
next
  case False
  let ?r = "accept_all ReplayWindow_default ns"
  have "Max (set ns) \<in> set ns" using False by simp
  then have m: "unat (Max (set ns)) < unat seq + 1024" using assms(2) by (simp add: list_all_iff)
  have h: "fst (abs_window ?r) = Some (Max (set ns))" "seq \<notin> snd (abs_window ?r)"
    using accept_all_history [of ns] False assms(1) by auto
  have "\<not> blocked ?r seq"
    using h m by (auto simp: blocked_spec unat_diff WORDS_eq word_le_nat_alt)
  then show ?thesis using rw.accept_iff [OF window_ok_accept_all [OF window_ok_default]] by blast
qed

theorem fresh_in_window_accepted_witness:
  "fst (accept (accept_all ReplayWindow_default [5000, 3990, 4999]) 3977)"
  by (rule fresh_in_window_accepted) simp_all

end
