(* ===== verification/Pulsar_Crypto.thy ===== *)
theory Pulsar_Crypto
  imports Pulsar_Replay
begin

text \<open>
  The end-to-end encryption of \<^verbatim>\<open>crypto.rs\<close>: identities, the per-session key derivations v2 and v3, the
  directional nonces and \<open>Session\<close> with its authenticate-then-advance receive path. The primitives of the
  external crates (X25519, SHA-256, ChaCha20-Poly1305) are the fields of the parameter \<open>crypto_lib\<close>; what the
  code relies on is stated as \<open>dh_agrees\<close> and \<open>aead_opens\<close>. Randomness is an argument.
\<close>

subsection \<open>External primitives\<close>

record crypto_lib =
  pubkey :: "bytes \<Rightarrow> bytes"
  dh :: "bytes \<Rightarrow> bytes \<Rightarrow> bytes"
  sha256 :: "bytes \<Rightarrow> bytes"
  aead_encrypt :: "bytes \<Rightarrow> bytes \<Rightarrow> bytes \<Rightarrow> bytes"
  aead_decrypt :: "bytes \<Rightarrow> bytes \<Rightarrow> bytes \<Rightarrow> bytes option"

text \<open>Diffie--Hellman agreement, and that authenticated decryption inverts encryption under one key and nonce.\<close>

definition dh_agrees :: "crypto_lib \<Rightarrow> bool" where
  "dh_agrees lib \<longleftrightarrow> (\<forall>a b. dh lib a (pubkey lib b) = dh lib b (pubkey lib a))"

definition aead_opens :: "crypto_lib \<Rightarrow> bool" where
  "aead_opens lib \<longleftrightarrow> (\<forall>k n p. aead_decrypt lib k n (aead_encrypt lib k n p) = Some p)"

subsection \<open>Handshake state and identity\<close>

record local_hs =
  hs_salt :: bytes
  hs_eph :: bytes
  hs_eph_public :: bytes

definition LocalHs_new :: "crypto_lib \<Rightarrow> bytes \<Rightarrow> bytes \<Rightarrow> local_hs" where
  "LocalHs_new lib rand_salt rand_eph =
     \<lparr>hs_salt = rand_salt, hs_eph = rand_eph, hs_eph_public = pubkey lib rand_eph\<rparr>"

record peer_hs =
  ph_salt :: bytes
  ph_eph :: "bytes option"

datatype crypto_error = Decrypt | Replay

datatype role = Initiator | Responder

record identity =
  id_secret :: bytes
  id_public :: bytes

definition from_secret_bytes :: "crypto_lib \<Rightarrow> bytes \<Rightarrow> identity" where
  "from_secret_bytes lib b = \<lparr>id_secret = b, id_public = pubkey lib b\<rparr>"

text \<open>
  \<^verbatim>\<open>load_or_create\<close>: the file's content (if it can be read) and fresh randomness in, the identity and the
  content written back (if any) out.
\<close>

definition load_or_create :: "crypto_lib \<Rightarrow> bytes option \<Rightarrow> bytes \<Rightarrow> identity \<times> bytes option" where
  "load_or_create lib file rand =
     (case file of
        Some b \<Rightarrow> if length b = 32 then (from_secret_bytes lib b, None)
                    else (from_secret_bytes lib rand, Some rand)
      | None \<Rightarrow> (from_secret_bytes lib rand, Some rand))"

subsection \<open>Key derivation\<close>

definition ascii :: "string \<Rightarrow> bytes" where "ascii s = map of_char s"

fun bytes_le :: "bytes \<Rightarrow> bytes \<Rightarrow> bool" where
  "bytes_le [] _ = True"
| "bytes_le (_ # _) [] = False"
| "bytes_le (a # as) (b # bs) = (a < b \<or> a = b \<and> bytes_le as bs)"

definition sorted_pair :: "bytes \<Rightarrow> bytes \<Rightarrow> bytes \<times> bytes" where
  "sorted_pair a b = (if bytes_le a b then (a, b) else (b, a))"

definition key_input_v3 :: "bytes \<times> bytes \<Rightarrow> bytes \<Rightarrow> bytes \<times> bytes \<Rightarrow> bytes \<Rightarrow> u64 \<Rightarrow> bytes \<times> bytes \<Rightarrow> bytes" where
  "key_input_v3 statics static_shared ephs eph_shared session_id salts =
     (let (lo, hi) = sorted_pair (fst statics) (snd statics);
          (elo, ehi) = sorted_pair (fst ephs) (snd ephs);
          (slo, shi) = sorted_pair (fst salts) (snd salts)
      in ascii ''pulsar-session-key-v3'' @ lo @ hi @ static_shared @ elo @ ehi @ eph_shared @ slo @ shi @
         to_be_bytes64 session_id)"

definition derive_key_v3 ::
  "crypto_lib \<Rightarrow> bytes \<times> bytes \<Rightarrow> bytes \<Rightarrow> bytes \<times> bytes \<Rightarrow> bytes \<Rightarrow> u64 \<Rightarrow> bytes \<times> bytes \<Rightarrow> bytes" where
  "derive_key_v3 lib statics static_shared ephs eph_shared session_id salts =
     sha256 lib (key_input_v3 statics static_shared ephs eph_shared session_id salts)"

definition key_input_v2 :: "bytes \<Rightarrow> bytes \<Rightarrow> bytes \<Rightarrow> u64 \<Rightarrow> bytes \<Rightarrow> bytes \<Rightarrow> bytes" where
  "key_input_v2 a b shared session_id salt_a salt_b =
     (let (lo, hi) = sorted_pair a b; (lo_salt, hi_salt) = sorted_pair salt_a salt_b
      in ascii ''pulsar-session-key-v2'' @ lo @ hi @ shared @ lo_salt @ hi_salt @ to_be_bytes64 session_id)"

definition derive_key :: "crypto_lib \<Rightarrow> bytes \<Rightarrow> bytes \<Rightarrow> bytes \<Rightarrow> u64 \<Rightarrow> bytes \<Rightarrow> bytes \<Rightarrow> bytes" where
  "derive_key lib a b shared session_id salt_a salt_b =
     sha256 lib (key_input_v2 a b shared session_id salt_a salt_b)"

subsection \<open>\<^verbatim>\<open>Session\<close>\<close>

record session =
  cipher_key :: bytes
  sess_role :: role
  binding :: bytes
  forward_secret :: bool
  recv_window :: replay_window

definition from_key :: "crypto_lib \<Rightarrow> bytes \<Rightarrow> role \<Rightarrow> bool \<Rightarrow> session" where
  "from_key lib key r fs =
     \<lparr>cipher_key = key, sess_role = r, binding = sha256 lib (ascii ''pulsar-channel-binding-v1'' @ key),
      forward_secret = fs, recv_window = ReplayWindow_default\<rparr>"

definition Identity_session :: "crypto_lib \<Rightarrow> identity \<Rightarrow> bytes \<Rightarrow> role \<Rightarrow> u64 \<Rightarrow> bytes \<Rightarrow> bytes \<Rightarrow> session" where
  "Identity_session lib me peer_public r session_id our_salt peer_salt =
     (let shared = dh lib (id_secret me) peer_public;
          key = derive_key lib (id_public me) peer_public shared session_id our_salt peer_salt
      in from_key lib key r False)"

definition session_hs :: "crypto_lib \<Rightarrow> identity \<Rightarrow> bytes \<Rightarrow> role \<Rightarrow> u64 \<Rightarrow> local_hs \<Rightarrow> peer_hs \<Rightarrow> session" where
  "session_hs lib me peer_public r session_id ours peer =
     (case ph_eph peer of
        None \<Rightarrow> Identity_session lib me peer_public r session_id (hs_salt ours) (ph_salt peer)
      | Some peer_eph \<Rightarrow>
          let shared = dh lib (id_secret me) peer_public;
              eph_shared = dh lib (hs_eph ours) peer_eph;
              key = derive_key_v3 lib (id_public me, peer_public) shared (hs_eph_public ours, peer_eph) eph_shared
                      session_id (hs_salt ours, ph_salt peer)
          in from_key lib key r True)"

definition nonce :: "u8 \<Rightarrow> u64 \<Rightarrow> bytes" where
  "nonce dir seq = [dir, 0, 0, 0] @ to_be_bytes64 seq"

definition send_dir :: "session \<Rightarrow> u8" where
  "send_dir s = (case sess_role s of Initiator \<Rightarrow> 0 | Responder \<Rightarrow> 1)"

definition recv_dir :: "session \<Rightarrow> u8" where
  "recv_dir s = 1 - send_dir s"

definition seal :: "crypto_lib \<Rightarrow> session \<Rightarrow> u64 \<Rightarrow> bytes \<Rightarrow> bytes" where
  "seal lib s seq plaintext = aead_encrypt lib (cipher_key s) (nonce (send_dir s) seq) plaintext"

definition Session_open :: "crypto_lib \<Rightarrow> session \<Rightarrow> u64 \<Rightarrow> bytes \<Rightarrow> (crypto_error + bytes) \<times> session" where
  "Session_open lib s seq ciphertext =
     (case aead_decrypt lib (cipher_key s) (nonce (recv_dir s) seq) ciphertext of
        None \<Rightarrow> (Inl Decrypt, s)
      | Some plain \<Rightarrow>
          (case accept (recv_window s) seq of
             (False, w) \<Rightarrow> (Inl Replay, s\<lparr>recv_window := w\<rparr>)
           | (True, w) \<Rightarrow> (Inr plain, s\<lparr>recv_window := w\<rparr>)))"

text \<open>
  \<^verbatim>\<open>open_in_place\<close>: the buffer becomes the plaintext as soon as it authenticates, also when the window then
  rejects the sequence number; on a failed authentication the caller drops it unread.
\<close>

definition open_in_place :: "crypto_lib \<Rightarrow> session \<Rightarrow> u64 \<Rightarrow> bytes \<Rightarrow> (crypto_error + unit) \<times> bytes \<times> session" where
  "open_in_place lib s seq buf =
     (case aead_decrypt lib (cipher_key s) (nonce (recv_dir s) seq) buf of
        None \<Rightarrow> (Inl Decrypt, buf, s)
      | Some plain \<Rightarrow>
          (case accept (recv_window s) seq of
             (False, w) \<Rightarrow> (Inl Replay, plain, s\<lparr>recv_window := w\<rparr>)
           | (True, w) \<Rightarrow> (Inr (), plain, s\<lparr>recv_window := w\<rparr>)))"

subsection \<open>Ordering and input encoding\<close>

lemma bytes_le_total: "bytes_le a b \<or> bytes_le b a"
  by (induction a b rule: bytes_le.induct) auto

lemma bytes_le_antisym: "bytes_le a b \<Longrightarrow> bytes_le b a \<Longrightarrow> a = b"
  by (induction a b rule: bytes_le.induct) (auto elim: bytes_le.elims)

lemma sorted_pair_commute: "sorted_pair a b = sorted_pair b a"
  using bytes_le_total bytes_le_antisym by (auto simp: sorted_pair_def)

lemma sorted_pair_set: "sorted_pair a b = (x, y) \<Longrightarrow> {x, y} = {a, b} \<and> (length a = n \<longrightarrow> length b = n \<longrightarrow> length x = n \<and> length y = n)"
  by (auto simp: sorted_pair_def split: if_splits)

lemma key_input_v2_inj:
  assumes "length a = 32" "length b = 32" "length sh = 32" "length s = 32" "length t = 32"
    and "length a' = 32" "length b' = 32" "length sh' = 32" "length s' = 32" "length t' = 32"
    and eq: "key_input_v2 a b sh sid s t = key_input_v2 a' b' sh' sid' s' t'"
  shows "{a, b} = {a', b'} \<and> sh = sh' \<and> {s, t} = {s', t'} \<and> sid = sid'"
proof -
  obtain lo hi slo shi where p: "sorted_pair a b = (lo, hi)" "sorted_pair s t = (slo, shi)" by fastforce
  obtain lo' hi' slo' shi' where p': "sorted_pair a' b' = (lo', hi')" "sorted_pair s' t' = (slo', shi')" by fastforce
  have len: "length lo = 32" "length hi = 32" "length slo = 32" "length shi = 32"
    "length lo' = 32" "length hi' = 32" "length slo' = 32" "length shi' = 32"
    using sorted_pair_set [OF p(1), of 32] sorted_pair_set [OF p(2), of 32]
      sorted_pair_set [OF p'(1), of 32] sorted_pair_set [OF p'(2), of 32] assms(1-10) by auto
  have "lo @ hi @ sh @ slo @ shi @ to_be_bytes64 sid = lo' @ hi' @ sh' @ slo' @ shi' @ to_be_bytes64 sid'"
    using eq by (simp add: key_input_v2_def p p')
  then have "lo = lo'" "hi = hi'" "sh = sh'" "slo = slo'" "shi = shi'" "to_be_bytes64 sid = to_be_bytes64 sid'"
    using len assms(3,8) by (auto simp: append_eq_append_conv)
  then show ?thesis
    using sorted_pair_set [OF p(1)] sorted_pair_set [OF p(2)] sorted_pair_set [OF p'(1)] sorted_pair_set [OF p'(2)]
      to_be_bytes64_inj by auto
qed

lemma length_key_inputs:
  assumes "length a = 32" "length b = 32" "length sh = 32" "length s = 32" "length t = 32"
  shows "length (key_input_v2 a b sh sid s t) = 189"
proof -
  obtain lo hi slo shi where p: "sorted_pair a b = (lo, hi)" "sorted_pair s t = (slo, shi)" by fastforce
  have "length lo = 32" "length hi = 32" "length slo = 32" "length shi = 32"
    using sorted_pair_set [OF p(1), of 32] sorted_pair_set [OF p(2), of 32] assms by auto
  then show ?thesis using assms by (simp add: key_input_v2_def p ascii_def)
qed

lemma key_input_v3_inj:
  assumes "list_all (\<lambda>x. length x = 32) [a, b, sh, ea, eb, esh, s, t, a', b', sh', ea', eb', esh', s', t']"
    and eq: "key_input_v3 (a, b) sh (ea, eb) esh sid (s, t) = key_input_v3 (a', b') sh' (ea', eb') esh' sid' (s', t')"
  shows "{a, b} = {a', b'} \<and> sh = sh' \<and> {ea, eb} = {ea', eb'} \<and> esh = esh' \<and> {s, t} = {s', t'} \<and> sid = sid'"
proof -
  obtain lo hi elo ehi slo shi where p: "sorted_pair a b = (lo, hi)" "sorted_pair ea eb = (elo, ehi)" "sorted_pair s t = (slo, shi)"
    by fastforce
  obtain lo' hi' elo' ehi' slo' shi' where p': "sorted_pair a' b' = (lo', hi')" "sorted_pair ea' eb' = (elo', ehi')"
    "sorted_pair s' t' = (slo', shi')" by fastforce
  have len: "length lo = 32" "length hi = 32" "length elo = 32" "length ehi = 32" "length slo = 32" "length shi = 32"
    "length lo' = 32" "length hi' = 32" "length elo' = 32" "length ehi' = 32" "length slo' = 32" "length shi' = 32"
    using sorted_pair_set [OF p(1), of 32] sorted_pair_set [OF p(2), of 32] sorted_pair_set [OF p(3), of 32]
      sorted_pair_set [OF p'(1), of 32] sorted_pair_set [OF p'(2), of 32] sorted_pair_set [OF p'(3), of 32] assms(1)
    by auto
  have "lo @ hi @ sh @ elo @ ehi @ esh @ slo @ shi @ to_be_bytes64 sid =
      lo' @ hi' @ sh' @ elo' @ ehi' @ esh' @ slo' @ shi' @ to_be_bytes64 sid'"
    using eq by (simp add: key_input_v3_def p p')
  then have "lo = lo'" "hi = hi'" "sh = sh'" "elo = elo'" "ehi = ehi'" "esh = esh'" "slo = slo'" "shi = shi'"
    "to_be_bytes64 sid = to_be_bytes64 sid'"
    using len assms(1) by (auto simp: append_eq_append_conv)
  then show ?thesis
    using sorted_pair_set [OF p(1)] sorted_pair_set [OF p(2)] sorted_pair_set [OF p(3)]
      sorted_pair_set [OF p'(1)] sorted_pair_set [OF p'(2)] sorted_pair_set [OF p'(3)] to_be_bytes64_inj by auto
qed

lemma nonce_inj: "nonce d q = nonce d' q' \<longleftrightarrow> d = d' \<and> q = q'"
  using to_be_bytes64_inj by (auto simp: nonce_def)

subsection \<open>The two ends of a session\<close>

definition paired :: "session \<Rightarrow> session \<Rightarrow> bool" where
  "paired s r \<longleftrightarrow> cipher_key r = cipher_key s \<and> sess_role r \<noteq> sess_role s"

lemma paired_dirs: "paired s r \<Longrightarrow> recv_dir r = send_dir s \<and> recv_dir s = send_dir r \<and> send_dir s \<noteq> send_dir r"
  by (cases "sess_role s"; cases "sess_role r") (simp_all add: paired_def send_dir_def recv_dir_def)

lemma open_sealed:
  assumes "aead_opens lib" "paired s r"
  shows "Session_open lib r seq (seal lib s seq p) =
    (if fst (accept (recv_window r) seq) then Inr p else Inl Replay, r\<lparr>recv_window := snd (accept (recv_window r) seq)\<rparr>)"
proof -
  have "aead_decrypt lib (cipher_key r) (nonce (recv_dir r) seq) (seal lib s seq p) = Some p"
    using assms paired_dirs [OF assms(2)] by (simp add: seal_def aead_opens_def paired_def)
  then show ?thesis by (cases "accept (recv_window r) seq"; cases "fst (accept (recv_window r) seq)") (auto simp: Session_open_def)
qed

text \<open>The sequence numbers a receiver delivers from any stream of datagrams, genuine or forged.\<close>

fun delivered :: "crypto_lib \<Rightarrow> session \<Rightarrow> (u64 \<times> bytes) list \<Rightarrow> u64 list" where
  "delivered lib s [] = []"
| "delivered lib s ((seq, ct) # ds) =
     (case Session_open lib s seq ct of (r, s') \<Rightarrow> (case r of Inr _ \<Rightarrow> [seq] | Inl _ \<Rightarrow> []) @ delivered lib s' ds)"

definition authentic :: "crypto_lib \<Rightarrow> session \<Rightarrow> u64 \<times> bytes \<Rightarrow> bool" where
  "authentic lib s d \<longleftrightarrow> aead_decrypt lib (cipher_key s) (nonce (recv_dir s) (fst d)) (snd d) \<noteq> None"

lemma authentic_window [simp]: "authentic lib (s\<lparr>recv_window := w\<rparr>) = authentic lib s"
  by (simp add: authentic_def recv_dir_def send_dir_def fun_eq_iff)

lemma delivered_accepted:
  "delivered lib s ds = rw.accepted (recv_window s) (map fst (filter (authentic lib s) ds))"
proof (induction ds arbitrary: s)
  case (Cons d ds)
  obtain seq ct where d: "d = (seq, ct)" by fastforce
  obtain b w where a: "accept (recv_window s) seq = (b, w)" by fastforce
  show ?case
    using Cons.IH
    by (cases b; cases "aead_decrypt lib (cipher_key s) (nonce (recv_dir s) seq) ct")
      (simp_all add: d a Session_open_def authentic_def [of lib s "(seq, ct)"])
qed simp

lemma session_hs_agree:
  fixes a b sid salt_a ea salt_b fs eb
  defines "sA lib \<equiv> session_hs lib (from_secret_bytes lib a) (pubkey lib b) Initiator sid (LocalHs_new lib salt_a ea)
      \<lparr>ph_salt = salt_b, ph_eph = (if fs then Some (pubkey lib eb) else None)\<rparr>"
    and "sB lib \<equiv> session_hs lib (from_secret_bytes lib b) (pubkey lib a) Responder sid (LocalHs_new lib salt_b eb)
      \<lparr>ph_salt = salt_a, ph_eph = (if fs then Some (pubkey lib ea) else None)\<rparr>"
  assumes "dh_agrees lib"
  shows "cipher_key (sA lib) = cipher_key (sB lib) \<and> binding (sA lib) = binding (sB lib) \<and>
    forward_secret (sA lib) = fs \<and> forward_secret (sB lib) = fs \<and>
    sess_role (sA lib) = Initiator \<and> sess_role (sB lib) = Responder \<and>
    recv_window (sA lib) = ReplayWindow_default \<and> recv_window (sB lib) = ReplayWindow_default"
proof -
  have dhs: "dh lib b (pubkey lib a) = dh lib a (pubkey lib b)" "dh lib eb (pubkey lib ea) = dh lib ea (pubkey lib eb)"
    using assms(3) by (simp_all add: dh_agrees_def)
  have v2: "key_input_v2 (pubkey lib b) (pubkey lib a) sh sid salt_b salt_a = key_input_v2 (pubkey lib a) (pubkey lib b) sh sid salt_a salt_b" for sh
    unfolding key_input_v2_def using sorted_pair_commute by metis
  have v3: "key_input_v3 (pubkey lib b, pubkey lib a) sh (pubkey lib eb, pubkey lib ea) esh sid (salt_b, salt_a) =
      key_input_v3 (pubkey lib a, pubkey lib b) sh (pubkey lib ea, pubkey lib eb) esh sid (salt_a, salt_b)" for sh esh
    unfolding key_input_v3_def fst_conv snd_conv using sorted_pair_commute by metis
  show ?thesis
    unfolding sA_def sB_def
    by (simp add: session_hs_def Identity_session_def from_key_def derive_key_def derive_key_v3_def
        from_secret_bytes_def LocalHs_new_def Let_def dhs v2 v3)
qed

lemma open_fresh:
  assumes "aead_opens lib" "paired s r" "recv_window r = ReplayWindow_default"
  shows "open_in_place lib r seq (seal lib s seq p) =
    (Inr (), p, r\<lparr>recv_window := snd (accept ReplayWindow_default seq)\<rparr>)"
proof -
  have "fst (accept ReplayWindow_default seq)" by (simp add: accept_def ReplayWindow_default_def Let_def)
  moreover have "aead_decrypt lib (cipher_key r) (nonce (recv_dir r) seq) (seal lib s seq p) = Some p"
    using assms paired_dirs [OF assms(2)] by (simp add: seal_def aead_opens_def paired_def)
  ultimately show ?thesis by (cases "accept ReplayWindow_default seq") (simp add: open_in_place_def assms(3))
qed

lemma replayed_refused:
  assumes "aead_opens lib" "paired s r" "\<not> fst (accept (recv_window r) seq)"
  shows "fst (open_in_place lib r seq (seal lib s seq p)) = Inl Replay"
proof -
  have "aead_decrypt lib (cipher_key r) (nonce (recv_dir r) seq) (seal lib s seq p) = Some p"
    using assms paired_dirs [OF assms(2)] by (simp add: seal_def aead_opens_def paired_def)
  then show ?thesis using assms(3) by (cases "accept (recv_window r) seq") (simp add: open_in_place_def)
qed

subsection \<open>Properties\<close>

text \<open>
  both ends derive the same session. Under Diffie--Hellman agreement, initiator and responder
  that exchanged public keys, salts and (both or neither) ephemeral keys get the same data key, the same channel
  binding and the same forward-secrecy flag, and each end sends in the direction the other one receives.
\<close>

theorem both_ends_agree:
  assumes "dh_agrees lib"
    and "sA = session_hs lib (from_secret_bytes lib a) (pubkey lib b) Initiator sid (LocalHs_new lib salt_a ea)
      \<lparr>ph_salt = salt_b, ph_eph = (if fs then Some (pubkey lib eb) else None)\<rparr>"
    and "sB = session_hs lib (from_secret_bytes lib b) (pubkey lib a) Responder sid (LocalHs_new lib salt_b eb)
      \<lparr>ph_salt = salt_a, ph_eph = (if fs then Some (pubkey lib ea) else None)\<rparr>"
  shows "cipher_key sA = cipher_key sB \<and> binding sA = binding sB \<and> forward_secret sA = fs \<and> forward_secret sB = fs \<and>
    send_dir sA = recv_dir sB \<and> send_dir sB = recv_dir sA \<and> send_dir sA \<noteq> send_dir sB"
proof -
  note agree = session_hs_agree [OF assms(1), of a b sid salt_a ea salt_b fs eb, folded assms(2,3)]
  then have "paired sA sB" by (simp add: paired_def)
  from paired_dirs [OF this] agree show ?thesis by simp
qed

definition toy_lib :: crypto_lib where
  "toy_lib = \<lparr>pubkey = (\<lambda>s. s), dh = (\<lambda>a b. fst (sorted_pair a b) @ snd (sorted_pair a b)), sha256 = (\<lambda>x. x),
     aead_encrypt = (\<lambda>k n p. n @ k @ p),
     aead_decrypt = (\<lambda>k n c. if take (length n + length k) c = n @ k then Some (drop (length n + length k) c) else None)\<rparr>"

lemma toy_aead: "aead_opens toy_lib"
  by (simp add: aead_opens_def toy_lib_def)

lemma toy_dh: "dh_agrees toy_lib"
  by (simp add: dh_agrees_def toy_lib_def sorted_pair_commute)

theorem both_ends_agree_witness:
  "cipher_key (session_hs toy_lib (from_secret_bytes toy_lib [1]) (pubkey toy_lib [2]) Initiator 9
      (LocalHs_new toy_lib [3] [4]) \<lparr>ph_salt = [5], ph_eph = Some (pubkey toy_lib [6])\<rparr>) =
   cipher_key (session_hs toy_lib (from_secret_bytes toy_lib [2]) (pubkey toy_lib [1]) Responder 9
      (LocalHs_new toy_lib [5] [6]) \<lparr>ph_salt = [3], ph_eph = Some (pubkey toy_lib [4])\<rparr>)"
  using both_ends_agree [where a = "[1]" and b = "[2]" and sid = 9 and salt_a = "[3]" and ea = "[4]"
      and salt_b = "[5]" and eb = "[6]" and fs = True,
      OF toy_dh refl refl, THEN conjunct1] unfolding if_True .

text \<open>
  sealed payloads round-trip once. What one end of a session seals under a sequence number the
  other end opens to the same plaintext if its window has not blocked that number, and the window then rejects
  a second copy as a replay; \<open>open_in_place\<close> behaves as \<open>open\<close>.
\<close>

theorem seal_open_roundtrip:
  assumes "aead_opens lib" "paired s r" "window_ok (recv_window r)" "\<not> blocked (recv_window r) seq"
  shows "fst (Session_open lib r seq (seal lib s seq p)) = Inr p \<and>
    fst (Session_open lib (snd (Session_open lib r seq (seal lib s seq p))) seq (seal lib s seq p)) = Inl Replay \<and>
    fst (open_in_place lib r seq (seal lib s seq p)) = Inr () \<and>
    fst (snd (open_in_place lib r seq (seal lib s seq p))) = p \<and>
    snd (snd (open_in_place lib r seq (seal lib s seq p))) = snd (Session_open lib r seq (seal lib s seq p))"
proof -
  obtain b w where a: "accept (recv_window r) seq = (b, w)" by fastforce
  have b: "b" using rw.accept_iff [OF assms(3), of seq] assms(4) a by simp
  have w: "\<not> fst (accept w seq)"
    using rw.accept_iff rw.blocked_self [OF assms(3), of seq] rw.ok_accept [OF assms(3), of seq] a by auto
  have d: "aead_decrypt lib (cipher_key r) (nonce (recv_dir r) seq) (seal lib s seq p) = Some p"
    using assms paired_dirs [OF assms(2)] by (simp add: seal_def aead_opens_def paired_def)
  have p': "paired s (r\<lparr>recv_window := w\<rparr>)" using assms(2) by (simp add: paired_def)
  show ?thesis
    using open_sealed [OF assms(1,2), of seq p] open_sealed [OF assms(1) p', of seq p] w b a d
    by (simp add: open_in_place_def)
qed

theorem seal_open_roundtrip_witness:
  "fst (Session_open toy_lib (from_key toy_lib [7] Responder False) 5
     (seal toy_lib (from_key toy_lib [7] Initiator False) 5 [1, 2, 3])) = Inr [1, 2, 3]"
  using seal_open_roundtrip [OF toy_aead, of "from_key toy_lib [7] Initiator False" "from_key toy_lib [7] Responder False" 5 "[1, 2, 3]"]
    window_ok_default by (simp add: from_key_def paired_def blocked_def ReplayWindow_default_def)

text \<open>
  C11: no datagram is delivered twice and no forgery moves the window: over any stream of datagrams,
  replayed, reordered or forged, the sequence numbers delivered by a session are pairwise different, and a
  datagram that does not authenticate is refused with \<open>Decrypt\<close> and leaves the session unchanged.
\<close>

theorem session_delivers_at_most_once:
  "distinct (delivered lib (from_key lib key r fs) ds) \<and>
   (authentic lib s (seq, ct) \<or> Session_open lib s seq ct = (Inl Decrypt, s))"
proof -
  have "recv_window (from_key lib key r fs) = ReplayWindow_default" by (simp add: from_key_def)
  then have "distinct (delivered lib (from_key lib key r fs) ds)"
    unfolding delivered_accepted using rw.accepted_distinct [OF window_ok_default] by simp
  moreover have "authentic lib s (seq, ct) \<or> Session_open lib s seq ct = (Inl Decrypt, s)"
    by (cases "aead_decrypt lib (cipher_key s) (nonce (recv_dir s) seq) ct") (simp_all add: authentic_def Session_open_def)
  ultimately show ?thesis ..
qed

text \<open>
  No (key, nonce) pair is used twice: the nonce determines direction and sequence number, and
  the two ends of a session send in different directions, so distinct sequence numbers of one end, and any two
  numbers of opposite ends, never share a nonce.
\<close>

lemma nonces_never_collide:
  assumes "paired s r"
  shows "(nonce (send_dir s) q = nonce (send_dir s) q' \<longleftrightarrow> q = q') \<and> nonce (send_dir s) q \<noteq> nonce (send_dir r) q' \<and>
    length (nonce (send_dir s) q) = 12"
  using paired_dirs [OF assms] by (simp add: nonce_inj) (simp add: nonce_def)

text \<open>
  two sessions of the same devices use different keys: when the session ids differ, or the
  salts, or (v3) the ephemeral keys, the derivation hashes different inputs, so the keys differ unless
  SHA-256 collides on exactly these two inputs; this holds for the v2 and the forward-secret v3 key.
\<close>

theorem session_keys_separate:
  assumes "list_all (\<lambda>x. length x = 32) [a, b, sh, ea, eb, esh, s, t, ea', eb', esh', s', t']"
    and "sid \<noteq> sid' \<or> {s, t} \<noteq> {s', t'}"
    and "inj_on (sha256 lib) {key_input_v2 a b sh sid s t, key_input_v2 a b sh sid' s' t'}"
    and "inj_on (sha256 lib) {key_input_v3 (a, b) sh (ea, eb) esh sid (s, t), key_input_v3 (a, b) sh (ea', eb') esh' sid' (s', t')}"
  shows "derive_key lib a b sh sid s t \<noteq> derive_key lib a b sh sid' s' t' \<and>
    derive_key_v3 lib (a, b) sh (ea, eb) esh sid (s, t) \<noteq> derive_key_v3 lib (a, b) sh (ea', eb') esh' sid' (s', t')"
proof -
  have "key_input_v2 a b sh sid s t \<noteq> key_input_v2 a b sh sid' s' t'"
    using assms(1,2) key_input_v2_inj [of a b sh s t a b sh s' t' sid sid'] by auto
  moreover have "key_input_v3 (a, b) sh (ea, eb) esh sid (s, t) \<noteq> key_input_v3 (a, b) sh (ea', eb') esh' sid' (s', t')"
    using assms(1,2) key_input_v3_inj [of a b sh ea eb esh s t a b sh ea' eb' esh' s' t' sid sid'] by auto
  ultimately show ?thesis using assms(3,4) by (auto simp: derive_key_def derive_key_v3_def inj_on_def)
qed

theorem session_keys_separate_witness:
  "derive_key toy_lib (replicate 32 1) (replicate 32 2) (replicate 32 3) 1 (replicate 32 4) (replicate 32 5) \<noteq>
   derive_key toy_lib (replicate 32 1) (replicate 32 2) (replicate 32 3) 2 (replicate 32 4) (replicate 32 5)"
  using session_keys_separate [where lib = toy_lib and a = "replicate 32 1" and b = "replicate 32 2" and sh = "replicate 32 3"
      and s = "replicate 32 4" and t = "replicate 32 5" and s' = "replicate 32 4" and t' = "replicate 32 5"
      and ea = "replicate 32 6" and eb = "replicate 32 6" and esh = "replicate 32 6" and ea' = "replicate 32 6"
      and eb' = "replicate 32 6" and esh' = "replicate 32 6" and sid = 1 and sid' = 2]
  by (simp add: toy_lib_def)

end
