(* ===== verification/Pulsar_Handshake.thy ===== *)
theory Pulsar_Handshake
  imports Pulsar_Crypto
begin

text \<open>
  The relay-path handshake blob of \<^verbatim>\<open>connection.rs\<close>: \<open>handshake_blob\<close> writes public key, salt, LAN
  candidate and the version-1 extension, \<open>split_handshake\<close> and \<open>parse_lan_candidate\<close> read an untrusted blob
  back. Socket addresses are IPv4 octets or opaque IPv6 bytes with a port. The capability byte a build advertises
  is a constant of the external protocol crate and an argument here.
\<close>

subsection \<open>Socket addresses\<close>

datatype sock_addr = V4 u8 u8 u8 u8 u16 | V6 bytes u16

fun is_private_v4 :: "sock_addr \<Rightarrow> bool" where
  "is_private_v4 (V4 a b c d _) \<longleftrightarrow>
     a = 10 \<or> a = 172 \<and> 16 \<le> b \<and> b \<le> 31 \<or> a = 192 \<and> b = 168 \<or> a = 169 \<and> b = 254 \<or> a = 127"
| "is_private_v4 (V6 _ _) \<longleftrightarrow> False"

subsection \<open>The blob\<close>

definition HS_EXT_V1 :: u8 where "HS_EXT_V1 = 1"
definition HS_BLOB_LEN :: nat where "HS_BLOB_LEN = 104"

text \<open>Rust's \<^verbatim>\<open>slice.get(a..b)\<close>.\<close>

definition slice :: "nat \<Rightarrow> nat \<Rightarrow> bytes \<Rightarrow> bytes option" where
  "slice a b xs = (if a \<le> b \<and> b \<le> length xs then Some (take (b - a) (drop a xs)) else None)"

definition split_handshake :: "bytes \<Rightarrow> (bytes \<times> peer_hs \<times> u8) option" where
  "split_handshake blob =
     (if length blob < 64 then None
      else
        let pk = take 32 blob; salt = take 32 (drop 32 blob);
            (eph, caps) = (case slice 70 HS_BLOB_LEN blob of
               Some t \<Rightarrow> if t ! 0 = HS_EXT_V1 then (Some (take 32 (drop 2 t)), t ! 1) else (None, 0)
             | None \<Rightarrow> (None, 0))
        in Some (pk, \<lparr>ph_salt = salt, ph_eph = eph\<rparr>, caps))"

definition lan_slot :: "sock_addr option \<Rightarrow> bytes" where
  "lan_slot lan = (case lan of Some (V4 a b c d port) \<Rightarrow> [a, b, c, d] @ to_be_bytes16 port | _ \<Rightarrow> replicate 6 0)"

definition handshake_blob :: "u8 \<Rightarrow> bytes \<Rightarrow> local_hs \<Rightarrow> sock_addr option \<Rightarrow> bytes" where
  "handshake_blob our_caps pk hs lan =
     pk @ hs_salt hs @ lan_slot lan @ [HS_EXT_V1] @ [our_caps] @ hs_eph_public hs"

definition parse_lan_candidate :: "bytes \<Rightarrow> sock_addr option" where
  "parse_lan_candidate blob =
     (case slice 64 70 blob of
        None \<Rightarrow> None
      | Some t \<Rightarrow>
          let port = from_be_bytes16 (t ! 4) (t ! 5) in
          if \<not> (t ! 0 = 0 \<and> t ! 1 = 0 \<and> t ! 2 = 0 \<and> t ! 3 = 0) \<and> port \<noteq> 0
          then Some (V4 (t ! 0) (t ! 1) (t ! 2) (t ! 3) port) else None)"

text \<open>What a candidate survives the trip: an IPv4 address that is not 0.0.0.0, with a port.\<close>

fun wire_candidate :: "sock_addr option \<Rightarrow> sock_addr option" where
  "wire_candidate (Some (V4 a b c d port)) =
     (if (a, b, c, d) \<noteq> (0, 0, 0, 0) \<and> port \<noteq> 0 then Some (V4 a b c d port) else None)"
| "wire_candidate _ = None"

subsection \<open>Properties\<close>

lemma length_lan_slot [simp]: "length (lan_slot lan) = 6"
  by (simp add: lan_slot_def split: option.split sock_addr.split)

lemma split_blob:
  assumes "length pk = 32" "length (hs_salt hs) = 32" "length (hs_eph_public hs) = 32"
  shows "split_handshake (handshake_blob caps pk hs lan) =
    Some (pk, \<lparr>ph_salt = hs_salt hs, ph_eph = Some (hs_eph_public hs)\<rparr>, caps)"
  using assms by (simp add: split_handshake_def handshake_blob_def slice_def HS_BLOB_LEN_def HS_EXT_V1_def)

lemma parse_lan_slot:
  assumes "length pk = 32" "length salt = 32"
  shows "parse_lan_candidate (pk @ salt @ lan_slot lan @ rest) = wire_candidate lan"
proof -
  have "slice 64 70 (pk @ salt @ lan_slot lan @ rest) = Some (lan_slot lan)"
    using assms by (simp add: slice_def)
  moreover have "from_be_bytes16 0 0 = 0" by (simp add: from_be_bytes16_def)
  ultimately show ?thesis
    by (cases lan rule: wire_candidate.cases)
      (auto simp: parse_lan_candidate_def lan_slot_def Let_def to_be_bytes16_def)
qed

text \<open>
  the handshake blob round-trips between builds: what \<open>handshake_blob\<close> writes, \<open>split_handshake\<close>
  reads back as the same public key, salt, ephemeral key and capabilities, and \<open>parse_lan_candidate\<close> as the same
  LAN candidate (absent for IPv6, 0.0.0.0 or port 0); the 64- and 70-byte prefixes an older build sends are read
  as a peer without ephemeral key and capabilities, and anything shorter is refused.
\<close>

theorem handshake_roundtrip:
  assumes "length pk = 32" "length (hs_salt hs) = 32" "length (hs_eph_public hs) = 32"
  shows "split_handshake (handshake_blob caps pk hs lan) =
      Some (pk, \<lparr>ph_salt = hs_salt hs, ph_eph = Some (hs_eph_public hs)\<rparr>, caps) \<and>
    parse_lan_candidate (handshake_blob caps pk hs lan) = wire_candidate lan \<and>
    length (handshake_blob caps pk hs lan) = HS_BLOB_LEN \<and>
    split_handshake (pk @ hs_salt hs) = Some (pk, \<lparr>ph_salt = hs_salt hs, ph_eph = None\<rparr>, 0) \<and>
    split_handshake (pk @ hs_salt hs @ lan_slot lan) = Some (pk, \<lparr>ph_salt = hs_salt hs, ph_eph = None\<rparr>, 0) \<and>
    parse_lan_candidate (pk @ hs_salt hs @ lan_slot lan) = wire_candidate lan \<and>
    parse_lan_candidate (pk @ hs_salt hs) = None \<and>
    split_handshake (take 63 blob) = None"
proof -
  have "parse_lan_candidate (handshake_blob caps pk hs lan) = wire_candidate lan"
    unfolding handshake_blob_def by (rule parse_lan_slot [OF assms(1,2)])
  moreover have "parse_lan_candidate (pk @ hs_salt hs @ lan_slot lan) = wire_candidate lan"
    using parse_lan_slot [OF assms(1,2), of lan "[]"] by simp
  moreover have "length (take 63 blob) < 64" by simp
  ultimately show ?thesis
    using split_blob [OF assms, of caps lan] assms
    by (simp add: handshake_blob_def HS_BLOB_LEN_def split_handshake_def slice_def parse_lan_candidate_def Let_def
        del: length_take)
qed

theorem handshake_roundtrip_witness:
  "parse_lan_candidate (handshake_blob 1 (replicate 32 7) \<lparr>hs_salt = replicate 32 8, hs_eph = [], hs_eph_public = replicate 32 9\<rparr>
     (Some (V4 192 168 1 20 21118))) = Some (V4 192 168 1 20 21118)"
  using handshake_roundtrip [of "replicate 32 7" "\<lparr>hs_salt = replicate 32 8, hs_eph = [], hs_eph_public = replicate 32 9\<rparr>"
      1 "Some (V4 192 168 1 20 21118)" "[]"] by simp

end
