(* ===== verification/Pulsar_Connection.thy ===== *)
theory Pulsar_Connection
  imports Pulsar_Handshake Pulsar_Float
begin

text \<open>
  The connection layer of \<^verbatim>\<open>connection/\<close>: the node's shared state (\<open>inner\<close>, \<open>session_state\<close> of
  \<^verbatim>\<open>types.rs\<close>), the datagram handlers of \<^verbatim>\<open>handlers.rs\<close>, the registration, connect and cleanup phases of
  \<^verbatim>\<open>node.rs\<close>, sending (\<^verbatim>\<open>session.rs\<close>) and the path choice (\<^verbatim>\<open>path.rs\<close>). Every handler is a function
  from the state to the new state and the list of its effects (datagrams sent, waiters notified, sessions
  emitted, payloads delivered); an \<^verbatim>\<open>async\<close> function that waits is split at its waits. Messages are the
  decoded values of the external protocol crate, whose \<^verbatim>\<open>encode\<close>/\<^verbatim>\<open>decode\<close> are fields of \<open>node\<close>.
\<close>

subsection \<open>Messages of the protocol crate used here\<close>

type_synonym session_id = u64
type_synonym device_id = nat
type_synonym token = bytes

datatype err_code = ErrNotRegistered | ErrIncompatibleVersion | ErrProtocol | ErrBadAuth | ErrOther nat

record auth_proof =
  ap_nonce :: bytes
  ap_password :: "bytes option"
  ap_totp :: "string option"
  ap_key :: "string option"

datatype peer_msg =
    Punch session_id u32
  | PunchAck session_id u32
  | Data session_id u64 bytes
  | KeepAlive session_id
  | Hello session_id bytes bytes
  | Hello2 session_id bytes bytes bytes u8
  | HelloAck session_id bytes bytes
  | HelloAck2 session_id bytes bytes bytes u8

datatype relay_msg =
    Registered device_id token bool "string option"
  | HeartbeatAck
  | Incoming device_id sock_addr session_id bytes
  | PeerFound device_id sock_addr session_id bytes nat
  | RelayedData session_id bytes
  | AuthRequired bool bool bytes
  | RelayError err_code string

datatype client_msg =
    Register nat bytes "string option" "auth_proof option"
  | Connect device_id token device_id session_id bytes
  | Accept device_id token session_id bytes
  | RelayData device_id token session_id bytes
  | Heartbeat device_id token

subsection \<open>State\<close>

datatype network_mode = Auto | P2pOnly | RelayOnly

datatype transport = Direct | Relay

datatype conn_error = NotRegistered | RelayTimeout | IncompatibleVersion | TargetUnreachable device_id | P2pFailed
  | IdentityChanged device_id | RelayAuthRequired bool bool | RelayAuthFailed | PeerOutdated | SessionClosed

record session_state =
  peer_addr :: sock_addr
  peer_lan :: "sock_addr option"
  crypto :: session
  peer_pubkey :: bytes
  transport :: transport
  send_seq :: u64
  direct_ok :: bool
  data_tx :: bool
  our_hs :: local_hs
  peer_caps :: u8
  path_checked :: bool
  relay_preferred :: bool
  measure_on_direct :: bool
  path_ms :: "(rat option \<times> rat option) option"

record path_probe =
  probe_sent :: "u32 \<rightharpoonup> rat"
  probe_direct :: "rat list"
  probe_relay :: "rat list"

record inner =
  self_id :: "device_id option"
  token :: "token option"
  register_error :: "err_code option"
  sessions :: "session_id \<rightharpoonup> session_state"
  probes :: "session_id \<rightharpoonup> path_probe"
  peer_found :: "session_id set"
  punched :: "session_id set"
  hello_done :: "session_id set"
  pending_salt :: "session_id \<rightharpoonup> local_hs"
  pending_rate_cap :: "session_id \<rightharpoonup> nat"
  expected_pubkey :: "session_id \<rightharpoonup> bytes"
  identity_mismatch :: "session_id \<rightharpoonup> bool"
  auth_required :: "(bool \<times> bool \<times> bytes) option"
  e2e_required :: bool
  issued_key :: "string option"

definition Inner_default :: inner where
  "Inner_default = \<lparr>self_id = None, token = None, register_error = None, sessions = Map.empty, probes = Map.empty,
     peer_found = {}, punched = {}, hello_done = {}, pending_salt = Map.empty, pending_rate_cap = Map.empty,
     expected_pubkey = Map.empty, identity_mismatch = Map.empty, auth_required = None, e2e_required = False,
     issued_key = None\<rparr>"

record relay_creds =
  cred_key :: "string option"
  cred_password :: "string option"
  cred_totp :: "string option"

text \<open>
  The node's immutable part, with what it uses of the protocol crate (codec, version, password proof, capability
  byte) and of the operating system (its routed LAN address).
\<close>

record node =
  n_lib :: crypto_lib
  n_identity :: identity
  n_relay :: sock_addr
  n_mode :: network_mode
  n_name :: string
  n_creds :: relay_creds
  lan_candidate :: "sock_addr option"
  our_caps :: u8
  proto_version :: nat
  password_proof :: "bytes \<Rightarrow> string \<Rightarrow> bytes"
  encode_peer :: "peer_msg \<Rightarrow> bytes"
  decode_peer :: "bytes \<Rightarrow> peer_msg option"
  decode_relay :: "bytes \<Rightarrow> relay_msg option"

datatype action =
    ToRelay client_msg
  | ToPeer peer_msg sock_addr
  | NotifyRegistered | NotifyIdChanged | NotifyVersionError
  | NotifyPeerFound session_id | NotifyPunched session_id | NotifyHelloDone session_id
  | EmitIncoming session_id device_id transport
  | DeliverData session_id bytes
  | SpawnPathChoice session_id

type_synonym result = "inner \<times> action list"

definition PUNCH_ATTEMPTS :: nat where "PUNCH_ATTEMPTS = 4"

definition punch_burst :: "session_id \<Rightarrow> sock_addr \<Rightarrow> sock_addr option \<Rightarrow> action list" where
  "punch_burst s a lan = concat (map (\<lambda>i. ToPeer (Punch s (of_nat i)) a #
     (case lan of Some l \<Rightarrow> [ToPeer (Punch s (of_nat i)) l] | None \<Rightarrow> [])) [0..<PUNCH_ATTEMPTS])"

definition Node_handshake_blob :: "node \<Rightarrow> local_hs \<Rightarrow> bytes" where
  "Node_handshake_blob n hs = handshake_blob (our_caps n) (id_public (n_identity n)) hs (lan_candidate n)"

subsection \<open>Path choice (\<^verbatim>\<open>path.rs\<close>)\<close>

definition PROBE_SEQ :: u32 where "PROBE_SEQ = 0x80000000"
definition RELAY_BIT :: u32 where "RELAY_BIT = 0x1000"
definition PROBES :: nat where "PROBES = 5"
definition RELAY_MARGIN_MS :: rat where "RELAY_MARGIN_MS = 20"
definition RELAY_RATIO :: rat where "RELAY_RATIO = rnd32 (7 / 10)"

definition PathProbe_record :: "u32 \<Rightarrow> rat \<Rightarrow> path_probe \<Rightarrow> path_probe" where
  "PathProbe_record seq now p =
     (case probe_sent p seq of
        None \<Rightarrow> p
      | Some sent_at \<Rightarrow>
          let ms = f32_mul (rnd32 (now - sent_at)) 1000; p = p\<lparr>probe_sent := (probe_sent p)(seq := None)\<rparr> in
          if seq - PROBE_SEQ \<ge> RELAY_BIT then p\<lparr>probe_relay := probe_relay p @ [ms]\<rparr>
          else p\<lparr>probe_direct := probe_direct p @ [ms]\<rparr>)"

definition PathProbe_complete :: "path_probe \<Rightarrow> bool" where
  "PathProbe_complete p \<longleftrightarrow> length (probe_direct p) \<ge> PROBES \<and> length (probe_relay p) \<ge> PROBES"

definition best :: "rat list \<Rightarrow> rat option" where
  "best v = (case v of [] \<Rightarrow> None | x # xs \<Rightarrow> Some (foldl min x xs))"

definition prefer_relay :: "rat list \<Rightarrow> rat list \<Rightarrow> bool" where
  "prefer_relay direct relay =
     (case (best direct, best relay) of
        (_, None) \<Rightarrow> False
      | (None, Some _) \<Rightarrow> True
      | (Some d, Some r) \<Rightarrow> f32_add r RELAY_MARGIN_MS < d \<and> r < f32_mul d RELAY_RATIO)"

text \<open>\<^verbatim>\<open>pick_faster_path\<close> up to its probes: an early return, or the address to probe and the credentials.\<close>

definition pick_start :: "node \<Rightarrow> session_id \<Rightarrow> inner \<Rightarrow> (transport + sock_addr \<times> device_id \<times> token) \<times> inner" where
  "pick_start n s g =
     (case sessions g s of
        None \<Rightarrow> (Inl Relay, g)
      | Some st \<Rightarrow>
          if n_mode n \<noteq> Auto \<or> \<not> direct_ok st \<or> path_checked st then (Inl (transport st), g)
          else
            let g = g\<lparr>sessions := (sessions g)(s \<mapsto> st\<lparr>path_checked := True\<rparr>),
                      probes := (probes g)(s \<mapsto> \<lparr>probe_sent = Map.empty, probe_direct = [], probe_relay = []\<rparr>)\<rparr>
            in case (self_id g, token g) of
                 (Some i, Some t) \<Rightarrow> (Inr (peer_addr st, i, t), g)
               | _ \<Rightarrow> (Inl Direct, g\<lparr>probes := (probes g)(s := None)\<rparr>))"

text \<open>One round of the probe loop, and the decision after the wait.\<close>

definition pick_probe :: "node \<Rightarrow> session_id \<Rightarrow> sock_addr \<times> device_id \<times> token \<Rightarrow> nat \<Rightarrow> rat \<Rightarrow> inner \<Rightarrow> result" where
  "pick_probe n s = (\<lambda>(addr, i, t) k now g.
     let d_seq = PROBE_SEQ + of_nat k; r_seq = PROBE_SEQ + RELAY_BIT + of_nat k in
     (case probes g s of
        Some p \<Rightarrow> g\<lparr>probes := (probes g)(s \<mapsto> p\<lparr>probe_sent := (probe_sent p)(d_seq \<mapsto> now, r_seq \<mapsto> now)\<rparr>)\<rparr>
      | None \<Rightarrow> g,
      [ToPeer (Punch s d_seq) addr, ToRelay (RelayData i t s (encode_peer n (Punch s r_seq)))]))"

definition pick_end :: "session_id \<Rightarrow> inner \<Rightarrow> transport \<times> inner" where
  "pick_end s g =
     (let p = (case probes g s of Some p \<Rightarrow> p | None \<Rightarrow> \<lparr>probe_sent = Map.empty, probe_direct = [], probe_relay = []\<rparr>);
          g = g\<lparr>probes := (probes g)(s := None)\<rparr>; relay = prefer_relay (probe_direct p) (probe_relay p)
      in case sessions g s of
           None \<Rightarrow> (Relay, g)
         | Some st \<Rightarrow>
             let st = st\<lparr>path_ms := Some (best (probe_direct p), best (probe_relay p))\<rparr>;
                 st = (if relay then st\<lparr>relay_preferred := True, transport := Relay\<rparr> else st)
             in (transport st, g\<lparr>sessions := (sessions g)(s \<mapsto> st)\<rparr>))"

definition record_probe :: "session_id \<Rightarrow> u32 \<Rightarrow> rat \<Rightarrow> inner \<Rightarrow> inner" where
  "record_probe s seq now g =
     (if seq < PROBE_SEQ then g
      else case probes g s of
        Some p \<Rightarrow> g\<lparr>probes := (probes g)(s \<mapsto> PathProbe_record seq now p)\<rparr>
      | None \<Rightarrow> g)"

definition answer_relay_probe :: "node \<Rightarrow> session_id \<Rightarrow> u32 \<Rightarrow> inner \<Rightarrow> action list" where
  "answer_relay_probe n s seq g =
     (if seq < PROBE_SEQ \<or> n_mode n = RelayOnly \<or> sessions g s = None then []
      else case (self_id g, token g) of
        (Some i, Some t) \<Rightarrow> [ToRelay (RelayData i t s (encode_peer n (PunchAck s seq)))]
      | _ \<Rightarrow> [])"

subsection \<open>Registration (\<^verbatim>\<open>node.rs\<close>)\<close>

definition build_auth_proof :: "node \<Rightarrow> bytes \<Rightarrow> auth_proof" where
  "build_auth_proof n nc =
     \<lparr>ap_nonce = nc, ap_password = map_option (password_proof n nc) (cred_password (n_creds n)),
      ap_totp = cred_totp (n_creds n), ap_key = cred_key (n_creds n)\<rparr>"

definition key_only_proof :: "node \<Rightarrow> auth_proof option" where
  "key_only_proof n = map_option (\<lambda>k. \<lparr>ap_nonce = replicate 16 0, ap_password = None, ap_totp = None, ap_key = Some k\<rparr>)
     (cred_key (n_creds n))"

definition register_msg_with :: "node \<Rightarrow> auth_proof option \<Rightarrow> client_msg" where
  "register_msg_with n auth = Register (proto_version n) (id_public (n_identity n)) (Some (n_name n)) auth"

datatype register_outcome = Done device_id | Fail conn_error | Retry auth_proof | Wait

text \<open>One evaluation of the registration outcome after attempt number \<open>attempts\<close>, as the loop of \<^verbatim>\<open>register\<close> does.\<close>

definition register_step :: "node \<Rightarrow> nat \<Rightarrow> inner \<Rightarrow> register_outcome \<times> inner" where
  "register_step n attempts g =
     (case self_id g of
        Some i \<Rightarrow> (Done i, g)
      | None \<Rightarrow>
          (case auth_required g of
             Some (need_pw, need_totp, nc) \<Rightarrow>
               let g = g\<lparr>auth_required := None\<rparr>;
                   missing_pw = (need_pw \<and> cred_password (n_creds n) = None);
                   missing_totp = (need_totp \<and> cred_totp (n_creds n) = None)
               in if missing_pw \<or> missing_totp then (Fail (RelayAuthRequired missing_pw missing_totp), g)
                  else if attempts \<ge> 4 then (Fail RelayAuthFailed, g)
                  else (Retry (build_auth_proof n nc), g\<lparr>register_error := None\<rparr>)
           | None \<Rightarrow>
               (case register_error g of
                  None \<Rightarrow> (Wait, g)
                | Some ErrBadAuth \<Rightarrow> (Fail RelayAuthFailed, g)
                | Some ErrIncompatibleVersion \<Rightarrow> (Fail IncompatibleVersion, g)
                | Some ErrProtocol \<Rightarrow> (Fail IncompatibleVersion, g)
                | Some _ \<Rightarrow> (Fail RelayTimeout, g))))"

text \<open>
  The whole of \<^verbatim>\<open>register\<close>: \<open>waits k g\<close> is the state in which the wait after the k-th \<^verbatim>\<open>Register\<close> ends, or
  \<open>None\<close> when its deadline passes. The result comes with the messages sent to the relay.
\<close>

function register_loop :: "node \<Rightarrow> (nat \<Rightarrow> inner \<Rightarrow> inner option) \<Rightarrow> auth_proof option \<Rightarrow> nat \<Rightarrow> inner \<Rightarrow>
    (conn_error + device_id) \<times> client_msg list \<times> inner" where
  "register_loop n waits proof attempts g =
     (let msg = register_msg_with n proof in
      case waits (Suc attempts) g of
        None \<Rightarrow> (Inl RelayTimeout, [msg], g)
      | Some g \<Rightarrow>
          (case register_step n (Suc attempts) g of
             (Done i, g) \<Rightarrow> (Inr i, [msg], g)
           | (Fail e, g) \<Rightarrow> (Inl e, [msg], g)
           | (Wait, g) \<Rightarrow> (Inl RelayTimeout, [msg], g)
           | (Retry p, g) \<Rightarrow>
               (case register_loop n waits (Some p) (Suc attempts) g of (r, msgs, g) \<Rightarrow> (r, msg # msgs, g))))"
  by pat_completeness auto

lemma register_step_retry: "register_step n attempts g = (Retry p, g') \<Longrightarrow> attempts < 4"
  by (auto simp: register_step_def Let_def split: option.splits if_splits err_code.splits)

termination register_loop
  by (relation "measure (\<lambda>(n, waits, proof, attempts, g). 4 - attempts)") (auto dest: register_step_retry [OF sym])

declare register_loop.simps [simp del]

definition register :: "node \<Rightarrow> (nat \<Rightarrow> inner \<Rightarrow> inner option) \<Rightarrow> inner \<Rightarrow> (conn_error + device_id) \<times> client_msg list \<times> inner" where
  "register n waits g = register_loop n waits (key_only_proof n) 0 g"

subsection \<open>Datagram handlers (\<^verbatim>\<open>handlers.rs\<close>)\<close>

definition new_session :: "sock_addr \<Rightarrow> sock_addr option \<Rightarrow> session \<Rightarrow> bytes \<Rightarrow> transport \<Rightarrow> bool \<Rightarrow> local_hs \<Rightarrow> u8 \<Rightarrow>
    bool \<Rightarrow> bool \<Rightarrow> session_state" where
  "new_session addr lan cr key tr tx hs caps checked msr =
     \<lparr>peer_addr = addr, peer_lan = lan, crypto = cr, peer_pubkey = key, transport = tr, send_seq = 0,
      direct_ok = False, data_tx = tx, our_hs = hs, peer_caps = caps, path_checked = checked,
      relay_preferred = False, measure_on_direct = msr, path_ms = None\<rparr>"

definition flag_mismatch :: "session_id \<Rightarrow> inner \<Rightarrow> inner" where
  "flag_mismatch s g = (case identity_mismatch g s of
     Some _ \<Rightarrow> g\<lparr>identity_mismatch := (identity_mismatch g)(s \<mapsto> True)\<rparr> | None \<Rightarrow> g)"

definition pin_violated :: "session_id \<Rightarrow> bytes \<Rightarrow> inner \<Rightarrow> bool" where
  "pin_violated s key g = (case expected_pubkey g s of Some expected \<Rightarrow> key \<noteq> expected | None \<Rightarrow> False)"

definition on_registered :: "device_id \<Rightarrow> token \<Rightarrow> bool \<Rightarrow> string option \<Rightarrow> inner \<Rightarrow> result" where
  "on_registered i t e2e auth_key g =
     (let rotated = (case self_id g of Some prev \<Rightarrow> prev \<noteq> i | None \<Rightarrow> False)
      in (g\<lparr>self_id := Some i, token := Some t, e2e_required := e2e,
            issued_key := (if auth_key \<noteq> None then auth_key else issued_key g),
            auth_required := None, register_error := None\<rparr>,
          NotifyRegistered # (if rotated then [NotifyIdChanged] else [])))"

definition on_peer_found :: "node \<Rightarrow> sock_addr \<Rightarrow> session_id \<Rightarrow> bytes \<Rightarrow> nat \<Rightarrow> inner \<Rightarrow> result" where
  "on_peer_found n target_addr s answer rate_cap g =
     (case split_handshake answer of
        None \<Rightarrow> (g, [])
      | Some (key, hs, caps) \<Rightarrow>
          if pin_violated s key g then (flag_mismatch s g, [])
          else
            (case pending_salt g s of
               None \<Rightarrow> (g, [])
             | Some ours \<Rightarrow>
                 let cr = session_hs (n_lib n) (n_identity n) key Initiator s ours hs;
                     st = new_session target_addr (parse_lan_candidate answer) cr key Relay False ours caps False False
                 in (g\<lparr>pending_salt := (pending_salt g)(s := None), expected_pubkey := (expected_pubkey g)(s := None),
                       sessions := (sessions g)(s \<mapsto> st), pending_rate_cap := (pending_rate_cap g)(s \<mapsto> rate_cap)\<rparr>,
                     if s \<in> peer_found g then [NotifyPeerFound s] else [])))"

definition on_incoming :: "node \<Rightarrow> local_hs \<Rightarrow> device_id \<Rightarrow> sock_addr \<Rightarrow> session_id \<Rightarrow> bytes \<Rightarrow> inner \<Rightarrow> result" where
  "on_incoming n fresh from_id from_addr s hello g =
     (case split_handshake hello of
        None \<Rightarrow> (g, [])
      | Some (key, hs, caps) \<Rightarrow>
          (case sessions g s of
             Some st \<Rightarrow>
               (g, case (self_id g, token g) of
                     (Some i, Some t) \<Rightarrow> [ToRelay (Accept i t s (Node_handshake_blob n (our_hs st)))]
                   | _ \<Rightarrow> [])
           | None \<Rightarrow>
               (case (self_id g, token g) of
                  (Some i, Some t) \<Rightarrow>
                    let cr = session_hs (n_lib n) (n_identity n) key Responder s fresh hs;
                        lan = parse_lan_candidate hello;
                        st = new_session from_addr lan cr key Relay True fresh caps False True
                    in (g\<lparr>sessions := (sessions g)(s \<mapsto> st)\<rparr>,
                        [ToRelay (Accept i t s (Node_handshake_blob n fresh))] @
                        (if n_mode n \<noteq> RelayOnly then punch_burst s from_addr lan else []) @
                        [EmitIncoming s from_id Relay])
                | _ \<Rightarrow> (g, []))))"

definition on_auth_required :: "node \<Rightarrow> bool \<Rightarrow> bool \<Rightarrow> bytes \<Rightarrow> inner \<Rightarrow> result" where
  "on_auth_required n pw totp nc g =
     (if self_id g = None then (g\<lparr>auth_required := Some (pw, totp, nc)\<rparr>, [NotifyRegistered])
      else if \<not> totp \<and> (\<not> pw \<or> cred_password (n_creds n) \<noteq> None)
        then (g, [ToRelay (register_msg_with n (Some (build_auth_proof n nc)))])
      else (g, []))"

definition on_relay_error :: "node \<Rightarrow> err_code \<Rightarrow> string \<Rightarrow> inner \<Rightarrow> result" where
  "on_relay_error n code message g =
     (let (g, acts) =
        (if self_id g = None then (g\<lparr>register_error := Some code\<rparr>, [NotifyRegistered])
         else if code = ErrIncompatibleVersion \<or> code = ErrProtocol \<and> message = ''incompatible protocol version''
           then (g, [NotifyVersionError])
         else (g, []))
      in (g, acts @ (if code = ErrNotRegistered then [ToRelay (register_msg_with n None)] else [])))"

definition deliver :: "node \<Rightarrow> session_id \<Rightarrow> u64 \<Rightarrow> bytes \<Rightarrow> inner \<Rightarrow> result" where
  "deliver n s seq ciphertext g =
     (case sessions g s of
        None \<Rightarrow> (g, [])
      | Some st \<Rightarrow>
          (case open_in_place (n_lib n) (crypto st) seq ciphertext of
             (r, buf, cr) \<Rightarrow>
               (g\<lparr>sessions := (sessions g)(s \<mapsto> st\<lparr>crypto := cr\<rparr>)\<rparr>,
                case r of Inr _ \<Rightarrow> if data_tx st then [DeliverData s buf] else [] | Inl _ \<Rightarrow> [])))"

definition handle_relay :: "node \<Rightarrow> local_hs \<Rightarrow> rat \<Rightarrow> relay_msg \<Rightarrow> inner \<Rightarrow> result" where
  "handle_relay n fresh now msg g =
     (case msg of
        Registered i t e2e auth_key \<Rightarrow> on_registered i t e2e auth_key g
      | HeartbeatAck \<Rightarrow> (g, [])
      | Incoming from_id from_addr s hello \<Rightarrow> on_incoming n fresh from_id from_addr s hello g
      | PeerFound _ target_addr s answer rate_cap \<Rightarrow> on_peer_found n target_addr s answer rate_cap g
      | RelayedData s payload \<Rightarrow>
          (case decode_peer n payload of
             Some (Data _ seq p) \<Rightarrow> deliver n s seq p g
           | Some (Punch _ seq) \<Rightarrow> (g, answer_relay_probe n s seq g)
           | Some (PunchAck _ seq) \<Rightarrow> (record_probe s seq now g, [])
           | _ \<Rightarrow> (g, []))
      | AuthRequired pw totp nc \<Rightarrow> on_auth_required n pw totp nc g
      | RelayError code message \<Rightarrow> on_relay_error n code message g)"

definition candidate :: "sock_addr \<Rightarrow> session_state \<Rightarrow> bool" where
  "candidate src st \<longleftrightarrow> src = peer_addr st \<or> Some src = peer_lan st"

text \<open>The part the \<^verbatim>\<open>Punch\<close> and \<^verbatim>\<open>PunchAck\<close> arms share: adopt a verified path, preferring a private one.\<close>

definition adopt_path :: "sock_addr \<Rightarrow> session_state \<Rightarrow> session_state" where
  "adopt_path src st =
     (let st = (if \<not> (direct_ok st \<and> is_private_v4 (peer_addr st)) \<or> is_private_v4 src
                then st\<lparr>peer_addr := src\<rparr> else st);
          st = st\<lparr>direct_ok := True\<rparr>
      in if \<not> relay_preferred st then st\<lparr>transport := Direct\<rparr> else st)"

definition path_choice_due :: "node \<Rightarrow> session_state \<Rightarrow> bool" where
  "path_choice_due n st \<longleftrightarrow> measure_on_direct st \<and> \<not> path_checked st \<and> n_mode n = Auto"

definition on_punch :: "node \<Rightarrow> session_id \<Rightarrow> u32 \<Rightarrow> sock_addr \<Rightarrow> inner \<Rightarrow> result" where
  "on_punch n s seq src g =
     (if n_mode n = RelayOnly then (g, [])
      else case sessions g s of
        Some st \<Rightarrow>
          if candidate src st
          then (g\<lparr>sessions := (sessions g)(s \<mapsto> adopt_path src st)\<rparr>,
                [ToPeer (PunchAck s seq) src] @ (if path_choice_due n st then [SpawnPathChoice s] else []))
          else (g, [ToPeer (PunchAck s seq) src])
      | None \<Rightarrow> (g, [ToPeer (PunchAck s seq) src]))"

definition on_punch_ack :: "node \<Rightarrow> session_id \<Rightarrow> u32 \<Rightarrow> sock_addr \<Rightarrow> rat \<Rightarrow> inner \<Rightarrow> result" where
  "on_punch_ack n s seq src now g0 =
     (if n_mode n = RelayOnly then (g0, [])
      else
        let g = record_probe s seq now g0 in
        case sessions g s of
          None \<Rightarrow> (g, [])
        | Some st \<Rightarrow>
            if \<not> candidate src st then (g, [])
            else (g\<lparr>sessions := (sessions g)(s \<mapsto> adopt_path src st)\<rparr>,
                  (if path_choice_due n st then [SpawnPathChoice s] else []) @
                  (if s \<in> punched g then [NotifyPunched s] else [])))"

definition hello_ack :: "node \<Rightarrow> session_id \<Rightarrow> local_hs \<Rightarrow> bool \<Rightarrow> peer_msg" where
  "hello_ack n s hs v2 =
     (if v2 then HelloAck2 s (id_public (n_identity n)) (hs_salt hs) (hs_eph_public hs) (our_caps n)
      else HelloAck s (id_public (n_identity n)) (hs_salt hs))"

definition on_hello :: "node \<Rightarrow> local_hs \<Rightarrow> sock_addr \<Rightarrow> session_id \<Rightarrow> bytes \<Rightarrow> peer_hs \<Rightarrow> u8 \<Rightarrow> inner \<Rightarrow> result" where
  "on_hello n fresh src s pk hs caps g =
     (if pending_salt g s \<noteq> None \<or> s \<in> hello_done g then (g, [])
      else case sessions g s of
        Some st \<Rightarrow> (g, [ToPeer (hello_ack n s (our_hs st) (forward_secret (crypto st))) src])
      | None \<Rightarrow>
          let cr = session_hs (n_lib n) (n_identity n) pk Responder s fresh hs;
              st = new_session src None cr pk Direct True fresh caps True False
          in (g\<lparr>sessions := (sessions g)(s \<mapsto> st)\<rparr>,
              [ToPeer (hello_ack n s fresh (ph_eph hs \<noteq> None)) src] @ punch_burst s src None @
              [EmitIncoming s 0 Direct]))"

definition on_hello_ack :: "node \<Rightarrow> sock_addr \<Rightarrow> session_id \<Rightarrow> bytes \<Rightarrow> peer_hs \<Rightarrow> u8 \<Rightarrow> inner \<Rightarrow> result" where
  "on_hello_ack n src s pk hs caps g =
     (let fin = (if s \<in> hello_done g then [NotifyHelloDone s] else []) in
      case sessions g s of
        None \<Rightarrow>
          if pin_violated s pk g then (flag_mismatch s g, [])
          else
            (case pending_salt g s of
               None \<Rightarrow> (g, [])
             | Some ours \<Rightarrow>
                 let cr = session_hs (n_lib n) (n_identity n) pk Initiator s ours hs;
                     st = new_session src None cr pk Direct False ours caps True False
                 in (g\<lparr>pending_salt := (pending_salt g)(s := None), expected_pubkey := (expected_pubkey g)(s := None),
                       sessions := (sessions g)(s \<mapsto> st)\<rparr>, fin))
      | Some st \<Rightarrow>
          if pin_violated s (peer_pubkey st) g
          then (flag_mismatch s (g\<lparr>sessions := (sessions g)(s := None)\<rparr>), [])
          else (g, fin))"

definition handle_peer :: "node \<Rightarrow> local_hs \<Rightarrow> rat \<Rightarrow> peer_msg \<Rightarrow> sock_addr \<Rightarrow> inner \<Rightarrow> result" where
  "handle_peer n fresh now msg src g =
     (case msg of
        Punch s seq \<Rightarrow> on_punch n s seq src g
      | PunchAck s seq \<Rightarrow> on_punch_ack n s seq src now g
      | Data s seq payload \<Rightarrow> deliver n s seq payload g
      | KeepAlive _ \<Rightarrow> (g, [])
      | Hello s pk salt \<Rightarrow> on_hello n fresh src s pk \<lparr>ph_salt = salt, ph_eph = None\<rparr> 0 g
      | Hello2 s pk salt eph caps \<Rightarrow> on_hello n fresh src s pk \<lparr>ph_salt = salt, ph_eph = Some eph\<rparr> caps g
      | HelloAck s pk salt \<Rightarrow> on_hello_ack n src s pk \<lparr>ph_salt = salt, ph_eph = None\<rparr> 0 g
      | HelloAck2 s pk salt eph caps \<Rightarrow> on_hello_ack n src s pk \<lparr>ph_salt = salt, ph_eph = Some eph\<rparr> caps g)"

definition handle_datagram :: "node \<Rightarrow> local_hs \<Rightarrow> rat \<Rightarrow> bytes \<Rightarrow> sock_addr \<Rightarrow> inner \<Rightarrow> result" where
  "handle_datagram n fresh now buf src g =
     (if src = n_relay n
      then (case decode_relay n buf of Some msg \<Rightarrow> handle_relay n fresh now msg g | None \<Rightarrow> (g, []))
      else (case decode_peer n buf of Some msg \<Rightarrow> handle_peer n fresh now msg src g | None \<Rightarrow> (g, [])))"

subsection \<open>Connecting and sending (\<^verbatim>\<open>node.rs\<close>, \<^verbatim>\<open>session.rs\<close>)\<close>

definition new_session_id :: "u64 \<Rightarrow> session_id" where
  "new_session_id r = r AND mask 53"

text \<open>\<^verbatim>\<open>connect_pinned\<close>: up to the rendezvous wait, the cleanup after it, and the wiring after the punch.\<close>

definition connect_begin :: "node \<Rightarrow> local_hs \<Rightarrow> session_id \<Rightarrow> device_id \<Rightarrow> bytes option \<Rightarrow> inner \<Rightarrow> (conn_error + action list) \<times> inner" where
  "connect_begin n fresh s tgt expected g =
     (case (self_id g, token g) of
        (Some i, Some t) \<Rightarrow>
          (Inr [ToRelay (Connect i t tgt s (Node_handshake_blob n fresh))],
           g\<lparr>peer_found := insert s (peer_found g), pending_salt := (pending_salt g)(s \<mapsto> fresh),
             expected_pubkey := (case expected of Some pk \<Rightarrow> (expected_pubkey g)(s \<mapsto> pk) | None \<Rightarrow> expected_pubkey g),
             identity_mismatch := (case expected of Some _ \<Rightarrow> (identity_mismatch g)(s \<mapsto> False) | None \<Rightarrow> identity_mismatch g)\<rparr>)
      | _ \<Rightarrow> (Inl NotRegistered, g))"

definition connect_rendezvous :: "session_id \<Rightarrow> device_id \<Rightarrow> bool \<Rightarrow> inner \<Rightarrow> conn_error option \<times> inner" where
  "connect_rendezvous s tgt found g =
     (let mismatched = (identity_mismatch g s = Some True);
          g = g\<lparr>peer_found := peer_found g - {s}, identity_mismatch := (identity_mismatch g)(s := None)\<rparr>
      in if found then (None, g)
         else (Some (if mismatched then IdentityChanged tgt else TargetUnreachable tgt),
               g\<lparr>pending_salt := (pending_salt g)(s := None), expected_pubkey := (expected_pubkey g)(s := None),
                 pending_rate_cap := (pending_rate_cap g)(s := None), sessions := (sessions g)(s := None)\<rparr>))"

definition establish_begin :: "node \<Rightarrow> session_id \<Rightarrow> inner \<Rightarrow> (conn_error + transport option) \<times> result" where
  "establish_begin n s g =
     (if n_mode n = RelayOnly then (Inr (Some Relay), (g, []))
      else case sessions g s of
        None \<Rightarrow> (Inl P2pFailed, (g, []))
      | Some st \<Rightarrow> (Inr None, (g\<lparr>punched := insert s (punched g)\<rparr>, punch_burst s (peer_addr st) (peer_lan st))))"

definition establish_end :: "node \<Rightarrow> session_id \<Rightarrow> bool \<Rightarrow> inner \<Rightarrow> (conn_error + transport) \<times> inner" where
  "establish_end n s notified g =
     (if notified then Inr Direct else if n_mode n = Auto then Inr Relay else Inl P2pFailed,
      g\<lparr>punched := punched g - {s}\<rparr>)"

definition direct_punch_begin :: "session_id \<Rightarrow> sock_addr \<Rightarrow> inner \<Rightarrow> result" where
  "direct_punch_begin s addr g = (g\<lparr>punched := insert s (punched g)\<rparr>, punch_burst s addr None)"

definition direct_punch_end :: "session_id \<Rightarrow> inner \<Rightarrow> inner" where
  "direct_punch_end s g = g\<lparr>punched := punched g - {s}\<rparr>"

definition connect_failed :: "session_id \<Rightarrow> inner \<Rightarrow> inner" where
  "connect_failed s g = g\<lparr>sessions := (sessions g)(s := None), pending_rate_cap := (pending_rate_cap g)(s := None)\<rparr>"

definition connect_finish :: "session_id \<Rightarrow> transport \<Rightarrow> inner \<Rightarrow> (transport \<times> nat) \<times> inner" where
  "connect_finish s tr g =
     (let cp = (case pending_rate_cap g s of Some c \<Rightarrow> c | None \<Rightarrow> 0);
          g = g\<lparr>pending_rate_cap := (pending_rate_cap g)(s := None)\<rparr>
      in case sessions g s of
           Some st \<Rightarrow>
             let st = st\<lparr>transport := (if direct_ok st \<and> \<not> relay_preferred st then Direct else tr), data_tx := True\<rparr>
             in ((transport st, cp), g\<lparr>sessions := (sessions g)(s \<mapsto> st)\<rparr>)
         | None \<Rightarrow> ((tr, cp), g))"

definition connect_direct_begin :: "node \<Rightarrow> local_hs \<Rightarrow> session_id \<Rightarrow> sock_addr \<Rightarrow> bytes option \<Rightarrow> inner \<Rightarrow> result" where
  "connect_direct_begin n fresh s addr pk g =
     (let hello2 = Hello2 s (id_public (n_identity n)) (hs_salt fresh) (hs_eph_public fresh) (our_caps n);
          hello = Hello s (id_public (n_identity n)) (hs_salt fresh)
      in (g\<lparr>hello_done := insert s (hello_done g), pending_salt := (pending_salt g)(s \<mapsto> fresh),
            expected_pubkey := (case pk of Some k \<Rightarrow> (expected_pubkey g)(s \<mapsto> k) | None \<Rightarrow> expected_pubkey g),
            identity_mismatch := (case pk of Some _ \<Rightarrow> (identity_mismatch g)(s \<mapsto> False) | None \<Rightarrow> identity_mismatch g)\<rparr>,
          concat (map (\<lambda>i. ToPeer hello2 addr # (if i \<ge> 2 then [ToPeer hello addr] else [])) [0..<PUNCH_ATTEMPTS])))"

definition connect_direct_timeout :: "session_id \<Rightarrow> inner \<Rightarrow> conn_error \<times> inner" where
  "connect_direct_timeout s g =
     (if identity_mismatch g s = Some True then IdentityChanged 0 else P2pFailed,
      g\<lparr>hello_done := hello_done g - {s}, pending_salt := (pending_salt g)(s := None),
        expected_pubkey := (expected_pubkey g)(s := None), identity_mismatch := (identity_mismatch g)(s := None),
        sessions := (sessions g)(s := None)\<rparr>)"

definition direct_guard_drop :: "session_id \<Rightarrow> inner \<Rightarrow> inner" where
  "direct_guard_drop s g =
     g\<lparr>hello_done := hello_done g - {s}, pending_salt := (pending_salt g)(s := None),
       expected_pubkey := (expected_pubkey g)(s := None), identity_mismatch := (identity_mismatch g)(s := None),
       punched := punched g - {s}, pending_rate_cap := (pending_rate_cap g)(s := None),
       sessions := (sessions g)(s := None)\<rparr>"

definition connect_direct_finish :: "session_id \<Rightarrow> inner \<Rightarrow> conn_error option \<times> inner" where
  "connect_direct_finish s g =
     (let g = g\<lparr>hello_done := hello_done g - {s}, identity_mismatch := (identity_mismatch g)(s := None)\<rparr>
      in case sessions g s of
           Some st \<Rightarrow> (None, g\<lparr>sessions := (sessions g)(s \<mapsto> st\<lparr>data_tx := True\<rparr>)\<rparr>)
         | None \<Rightarrow> (Some P2pFailed, direct_guard_drop s g))"

definition session_drop :: "session_id \<Rightarrow> inner \<Rightarrow> inner" where
  "session_drop s g = g\<lparr>sessions := (sessions g)(s := None)\<rparr>"

definition live_transport :: "session_id \<Rightarrow> transport \<Rightarrow> inner \<Rightarrow> transport" where
  "live_transport s mine g =
     (case sessions g s of
        Some st \<Rightarrow> if direct_ok st \<and> \<not> relay_preferred st then Direct else transport st
      | None \<Rightarrow> mine)"

definition send_payload :: "node \<Rightarrow> session_id \<Rightarrow> bytes \<Rightarrow> inner \<Rightarrow> (conn_error + action) \<times> inner" where
  "send_payload n s payload g =
     (case sessions g s of
        None \<Rightarrow> (Inl P2pFailed, g)
      | Some st \<Rightarrow>
          let seq = send_seq st;
              g = g\<lparr>sessions := (sessions g)(s \<mapsto> st\<lparr>send_seq := seq + 1\<rparr>)\<rparr>;
              msg = Data s seq (seal (n_lib n) (crypto st) seq payload)
          in case transport st of
               Direct \<Rightarrow> (Inr (ToPeer msg (peer_addr st)), g)
             | Relay \<Rightarrow>
                 (case (self_id g, token g) of
                    (Some i, Some t) \<Rightarrow> (Inr (ToRelay (RelayData i t s (encode_peer n msg))), g)
                  | _ \<Rightarrow> (Inl NotRegistered, g)))"

text \<open>What a \<^verbatim>\<open>Session\<close> handle reads from the live state.\<close>

definition path_latency :: "session_id \<Rightarrow> inner \<Rightarrow> (rat option \<times> rat option) option" where
  "path_latency s g = Option.bind (sessions g s) path_ms"

definition Session_peer_addr :: "session_id \<Rightarrow> inner \<Rightarrow> sock_addr option" where
  "Session_peer_addr s g = map_option peer_addr (sessions g s)"

definition Session_peer_pubkey :: "session_id \<Rightarrow> inner \<Rightarrow> bytes option" where
  "Session_peer_pubkey s g = map_option peer_pubkey (sessions g s)"

definition is_forward_secret :: "session_id \<Rightarrow> inner \<Rightarrow> bool" where
  "is_forward_secret s g = (case sessions g s of Some st \<Rightarrow> forward_secret (crypto st) | None \<Rightarrow> False)"

definition peer_supports_pake :: "u8 \<Rightarrow> session_id \<Rightarrow> inner \<Rightarrow> bool" where
  "peer_supports_pake cap_pake s g = (case sessions g s of Some st \<Rightarrow> peer_caps st AND cap_pake \<noteq> 0 | None \<Rightarrow> False)"

definition channel_binding :: "session_id \<Rightarrow> inner \<Rightarrow> bytes option" where
  "channel_binding s g = map_option (\<lambda>st. binding (crypto st)) (sessions g s)"

definition heartbeat :: "inner \<Rightarrow> action list" where
  "heartbeat g = (case (self_id g, token g) of (Some i, Some t) \<Rightarrow> [ToRelay (Heartbeat i t)] | _ \<Rightarrow> [])"

subsection \<open>Runs of a node\<close>

datatype node_event =
    Datagram bytes sock_addr local_hs rat
  | EvSend session_id bytes
  | EvPickStart session_id
  | EvPickProbe session_id "sock_addr \<times> device_id \<times> token" nat rat
  | EvPickEnd session_id
  | EvConnectBegin local_hs session_id device_id "bytes option"
  | EvRendezvous session_id device_id bool
  | EvEstablishBegin session_id
  | EvEstablishEnd session_id bool
  | EvConnectFailed session_id
  | EvConnectFinish session_id transport
  | EvDirectBegin local_hs session_id sock_addr "bytes option"
  | EvDirectPunchBegin session_id sock_addr
  | EvDirectPunchEnd session_id
  | EvDirectTimeout session_id
  | EvDirectFinish session_id
  | EvGuardDrop session_id
  | EvDrop session_id

fun node_step :: "node \<Rightarrow> node_event \<Rightarrow> inner \<Rightarrow> result" where
  "node_step n (Datagram buf src fresh now) g = handle_datagram n fresh now buf src g"
| "node_step n (EvSend s p) g = (case send_payload n s p g of (Inr a, g') \<Rightarrow> (g', [a]) | (Inl _, g') \<Rightarrow> (g', []))"
| "node_step n (EvPickStart s) g = (snd (pick_start n s g), [])"
| "node_step n (EvPickProbe s c k now) g = pick_probe n s c k now g"
| "node_step n (EvPickEnd s) g = (snd (pick_end s g), [])"
| "node_step n (EvConnectBegin fresh s tgt ex) g =
     (case connect_begin n fresh s tgt ex g of (Inr a, g') \<Rightarrow> (g', a) | (Inl _, g') \<Rightarrow> (g', []))"
| "node_step n (EvRendezvous s tgt found) g = (snd (connect_rendezvous s tgt found g), [])"
| "node_step n (EvEstablishBegin s) g = snd (establish_begin n s g)"
| "node_step n (EvEstablishEnd s ok) g = (snd (establish_end n s ok g), [])"
| "node_step n (EvConnectFailed s) g = (connect_failed s g, [])"
| "node_step n (EvConnectFinish s tr) g = (snd (connect_finish s tr g), [])"
| "node_step n (EvDirectBegin fresh s a pk) g = connect_direct_begin n fresh s a pk g"
| "node_step n (EvDirectPunchBegin s a) g = direct_punch_begin s a g"
| "node_step n (EvDirectPunchEnd s) g = (direct_punch_end s g, [])"
| "node_step n (EvDirectTimeout s) g = (snd (connect_direct_timeout s g), [])"
| "node_step n (EvDirectFinish s) g = (snd (connect_direct_finish s g), [])"
| "node_step n (EvGuardDrop s) g = (direct_guard_drop s g, [])"
| "node_step n (EvDrop s) g = (session_drop s g, [])"

fun node_run :: "node \<Rightarrow> node_event list \<Rightarrow> inner \<Rightarrow> inner" where
  "node_run n [] g = g"
| "node_run n (e # es) g = node_run n es (fst (node_step n e g))"

text \<open>
  The events that may happen around a session while its connect waits: any datagram, sends and path choices, and
  every local operation on other sessions.
\<close>

fun around :: "session_id \<Rightarrow> node_event \<Rightarrow> bool" where
  "around s (EvConnectBegin _ s' _ _) \<longleftrightarrow> s' \<noteq> s"
| "around s (EvRendezvous s' _ _) \<longleftrightarrow> s' \<noteq> s"
| "around s (EvConnectFailed s') \<longleftrightarrow> s' \<noteq> s"
| "around s (EvDirectBegin _ s' _ _) \<longleftrightarrow> s' \<noteq> s"
| "around s (EvDirectTimeout s') \<longleftrightarrow> s' \<noteq> s"
| "around s (EvDirectFinish s') \<longleftrightarrow> s' \<noteq> s"
| "around s (EvGuardDrop s') \<longleftrightarrow> s' \<noteq> s"
| "around s (EvDrop s') \<longleftrightarrow> s' \<noteq> s"
| "around s _ \<longleftrightarrow> True"

text \<open>A concrete node for the witnesses: it reads every relay datagram as one given message and every peer datagram as another.\<close>

definition demo_node :: "network_mode \<Rightarrow> relay_msg \<Rightarrow> peer_msg \<Rightarrow> node" where
  "demo_node m r p =
     \<lparr>n_lib = toy_lib, n_identity = from_secret_bytes toy_lib (replicate 32 1), n_relay = V4 203 0 113 1 21116, n_mode = m,
      n_name = ''demo'', n_creds = \<lparr>cred_key = None, cred_password = None, cred_totp = None\<rparr>, lan_candidate = None, our_caps = 0,
      proto_version = 1, password_proof = (\<lambda>nc pw. nc), encode_peer = (\<lambda>_. []), decode_peer = (\<lambda>_. Some p),
      decode_relay = (\<lambda>_. Some r)\<rparr>"

end
