(* ===== verification/Pulsar_Pinning.thy ===== *)
theory Pulsar_Pinning
  imports Pulsar_Connection
begin

text \<open>
  Safety of the connection layer: which identity a pinned connect can end with, who can move a session's data
  path, that a relay-only node stays on the relay, and that a session never reuses a nonce. Each invariant is
  proved per handler, then for every step of the node, then for every run.
\<close>

subsection \<open>Pinned identities\<close>

definition keyed :: "session_id \<Rightarrow> bytes \<Rightarrow> inner \<Rightarrow> bool" where
  "keyed s pk g \<longleftrightarrow> (\<exists>st. sessions g s = Some st \<and> peer_pubkey st = pk)"

definition pin_inv :: "session_id \<Rightarrow> bytes \<Rightarrow> inner \<Rightarrow> bool" where
  "pin_inv s pk g \<longleftrightarrow> expected_pubkey g s = Some pk \<or>
     expected_pubkey g s = None \<and> pending_salt g s = None \<and> keyed s pk g"

text \<open>What a step may do to a pinned session.\<close>

definition pin_step :: "session_id \<Rightarrow> bytes \<Rightarrow> inner \<Rightarrow> result \<Rightarrow> bool" where
  "pin_step s pk g r \<longleftrightarrow> pin_inv s pk (fst r) \<and> (keyed s pk g \<longrightarrow> keyed s pk (fst r)) \<and>
     (NotifyPeerFound s \<in> set (snd r) \<or> NotifyHelloDone s \<in> set (snd r) \<longrightarrow> keyed s pk (fst r))"

definition same_pin :: "session_id \<Rightarrow> inner \<Rightarrow> inner \<Rightarrow> bool" where
  "same_pin s g g' \<longleftrightarrow> expected_pubkey g' s = expected_pubkey g s \<and> pending_salt g' s = pending_salt g s \<and>
     map_option peer_pubkey (sessions g' s) = map_option peer_pubkey (sessions g s)"

lemma same_pin_refl [simp]: "same_pin s g g"
  by (simp add: same_pin_def)

lemma same_pin_keyed: "same_pin s g g' \<Longrightarrow> keyed s pk g' = keyed s pk g"
  by (cases "sessions g s"; cases "sessions g' s") (simp_all add: same_pin_def keyed_def)

lemma same_pin_step:
  assumes "pin_inv s pk g" "same_pin s g (fst r)" "NotifyPeerFound s \<notin> set (snd r)" "NotifyHelloDone s \<notin> set (snd r)"
  shows "pin_step s pk g r"
  using assms same_pin_keyed [OF assms(2)] by (simp add: pin_step_def pin_inv_def same_pin_def)

lemma adopt_path_sel [simp]: "peer_pubkey (adopt_path a st) = peer_pubkey st" "peer_lan (adopt_path a st) = peer_lan st"
  "crypto (adopt_path a st) = crypto st" "send_seq (adopt_path a st) = send_seq st"
  by (simp_all add: adopt_path_def Let_def)

lemma record_probe_sel [simp]:
  "sessions (record_probe s q now g) = sessions g" "expected_pubkey (record_probe s q now g) = expected_pubkey g"
  "pending_salt (record_probe s q now g) = pending_salt g" "hello_done (record_probe s q now g) = hello_done g"
  "self_id (record_probe s q now g) = self_id g" "token (record_probe s q now g) = token g"
  by (simp_all add: record_probe_def split: option.split)

lemma flag_mismatch_sel [simp]:
  "sessions (flag_mismatch s g) = sessions g" "expected_pubkey (flag_mismatch s g) = expected_pubkey g"
  "pending_salt (flag_mismatch s g) = pending_salt g"
  by (simp_all add: flag_mismatch_def split: option.split)

lemma punch_burst_toPeer: "a \<in> set (punch_burst s addr lan) \<Longrightarrow> \<exists>q d. a = ToPeer (Punch s q) d"
  by (auto simp: punch_burst_def split: option.splits)

lemma deliver_same_pin: "same_pin s g (fst (deliver n s' q c g))"
  "NotifyPeerFound s \<notin> set (snd (deliver n s' q c g))" "NotifyHelloDone s \<notin> set (snd (deliver n s' q c g))"
  by (auto simp: deliver_def same_pin_def split: option.splits prod.splits sum.splits)

lemma punch_same_pin: "same_pin s g (fst (on_punch n s' q a g))"
  "NotifyPeerFound s \<notin> set (snd (on_punch n s' q a g))" "NotifyHelloDone s \<notin> set (snd (on_punch n s' q a g))"
  by (auto simp: on_punch_def same_pin_def split: option.splits)

lemma punch_ack_same_pin: "same_pin s g (fst (on_punch_ack n s' q a now g))"
  "NotifyPeerFound s \<notin> set (snd (on_punch_ack n s' q a now g))" "NotifyHelloDone s \<notin> set (snd (on_punch_ack n s' q a now g))"
  by (auto simp: on_punch_ack_def same_pin_def Let_def split: option.splits)

lemma peer_found_pin: "pin_inv s pk g \<Longrightarrow> pin_step s pk g (on_peer_found n a s' ans rc g)"
proof (cases "s' = s")
  case True
  assume inv: "pin_inv s pk g"
  show ?thesis
    using inv
    by (auto simp: True on_peer_found_def pin_step_def pin_inv_def keyed_def pin_violated_def new_session_def Let_def
        split: option.splits prod.splits)
next
  case False
  assume inv: "pin_inv s pk g"
  have "same_pin s g (fst (on_peer_found n a s' ans rc g))"
    "NotifyPeerFound s \<notin> set (snd (on_peer_found n a s' ans rc g))"
    "NotifyHelloDone s \<notin> set (snd (on_peer_found n a s' ans rc g))"
    using False by (auto simp: on_peer_found_def same_pin_def Let_def split: option.splits prod.splits)
  then show ?thesis by (rule same_pin_step [OF inv])
qed

lemma incoming_actions:
  "NotifyPeerFound s \<notin> set (snd (on_incoming n fr i a s' h g))" "NotifyHelloDone s \<notin> set (snd (on_incoming n fr i a s' h g))"
  "NotifyPeerFound s \<notin> set (snd (on_hello n fr a s' pk hs cp g))" "NotifyHelloDone s \<notin> set (snd (on_hello n fr a s' pk hs cp g))"
  by (auto simp: on_incoming_def on_hello_def Let_def split: option.splits prod.splits dest: punch_burst_toPeer)

lemma incoming_pin: "pin_inv s pk g \<Longrightarrow> pin_step s pk g (on_incoming n fr i a s' h g)"
proof -
  assume inv: "pin_inv s pk g"
  have "pin_inv s pk (fst (on_incoming n fr i a s' h g))" "keyed s pk g \<Longrightarrow> keyed s pk (fst (on_incoming n fr i a s' h g))"
    using inv by (auto simp: on_incoming_def pin_inv_def keyed_def Let_def split: option.splits prod.splits)
  then show ?thesis by (simp add: pin_step_def incoming_actions)
qed

lemma hello_pin: "pin_inv s pk g \<Longrightarrow> pin_step s pk g (on_hello n fr a s' k hs cp g)"
proof -
  assume inv: "pin_inv s pk g"
  have "pin_inv s pk (fst (on_hello n fr a s' k hs cp g))" "keyed s pk g \<Longrightarrow> keyed s pk (fst (on_hello n fr a s' k hs cp g))"
    using inv by (auto simp: on_hello_def pin_inv_def keyed_def Let_def split: option.splits)
  then show ?thesis by (simp add: pin_step_def incoming_actions)
qed

lemma hello_ack_pin: "pin_inv s pk g \<Longrightarrow> pin_step s pk g (on_hello_ack n a s' k hs cp g)"
proof (cases "s' = s")
  case True
  assume "pin_inv s pk g"
  then show ?thesis
    by (auto simp: True on_hello_ack_def pin_step_def pin_inv_def keyed_def pin_violated_def new_session_def Let_def
        split: option.splits if_splits)
next
  case False
  assume inv: "pin_inv s pk g"
  have "same_pin s g (fst (on_hello_ack n a s' k hs cp g))"
    "NotifyPeerFound s \<notin> set (snd (on_hello_ack n a s' k hs cp g))"
    "NotifyHelloDone s \<notin> set (snd (on_hello_ack n a s' k hs cp g))"
    using False by (auto simp: on_hello_ack_def same_pin_def Let_def split: option.splits)
  then show ?thesis by (rule same_pin_step [OF inv])
qed

lemma relay_other_same_pin:
  "same_pin s g (fst (on_registered i t e k g))" "same_pin s g (fst (on_auth_required n p tt nc g))"
  "same_pin s g (fst (on_relay_error n c m g))"
  "NotifyPeerFound s \<notin> set (snd (on_registered i t e k g))" "NotifyHelloDone s \<notin> set (snd (on_registered i t e k g))"
  "NotifyPeerFound s \<notin> set (snd (on_auth_required n p tt nc g))" "NotifyHelloDone s \<notin> set (snd (on_auth_required n p tt nc g))"
  "NotifyPeerFound s \<notin> set (snd (on_relay_error n c m g))" "NotifyHelloDone s \<notin> set (snd (on_relay_error n c m g))"
  by (auto simp: on_registered_def on_auth_required_def on_relay_error_def same_pin_def Let_def)

lemma answer_probe_actions: "NotifyPeerFound s \<notin> set (answer_relay_probe n s' q g)" "NotifyHelloDone s \<notin> set (answer_relay_probe n s' q g)"
  by (auto simp: answer_relay_probe_def split: option.splits)

lemma relay_pin: "pin_inv s pk g \<Longrightarrow> pin_step s pk g (handle_relay n fr now msg g)"
proof -
  assume inv: "pin_inv s pk g"
  note same = same_pin_step [OF inv]
  have "pin_step s pk g (deliver n s' q c g)" for s' q c using same deliver_same_pin by blast
  moreover have "pin_step s pk g (g, answer_relay_probe n s' q g)" for s' q
    by (rule same) (simp_all add: answer_probe_actions)
  moreover have "pin_step s pk g (record_probe s' q now g, [])" for s' q by (rule same) (simp_all add: same_pin_def)
  moreover have "pin_step s pk g (g, [])" by (rule same) simp_all
  moreover have "pin_step s pk g (on_registered i t e k g)" "pin_step s pk g (on_auth_required n p tt nc g)"
    "pin_step s pk g (on_relay_error n c m g)" for i t e k p tt nc c m
    by (rule same; rule relay_other_same_pin)+
  ultimately show ?thesis
    using inv by (auto simp: handle_relay_def peer_found_pin incoming_pin split: relay_msg.split option.split peer_msg.split)
qed

lemma datagram_pin: "pin_inv s pk g \<Longrightarrow> pin_step s pk g (handle_datagram n fr now buf src g)"
proof -
  assume inv: "pin_inv s pk g"
  note same = same_pin_step [OF inv]
  have "pin_step s pk g (handle_peer n fr now msg src g)" for msg
    using inv same deliver_same_pin punch_same_pin punch_ack_same_pin
    by (cases msg) (simp_all add: handle_peer_def hello_pin hello_ack_pin)
  moreover have "pin_step s pk g (g, [])" by (rule same) simp_all
  ultimately show ?thesis using relay_pin [OF inv] by (auto simp: handle_datagram_def split: option.split)
qed

lemma step_pin:
  assumes inv: "pin_inv s pk g" and "around s e"
  shows "pin_step s pk g (node_step n e g)"
proof (cases e)
  case (Datagram buf src fr now)
  then show ?thesis using datagram_pin [OF inv] by simp
next
  case (EvSend s' p)
  show ?thesis
    by (rule same_pin_step [OF inv]; simp add: EvSend)
      (auto simp: send_payload_def same_pin_def Let_def split: option.splits transport.splits prod.splits sum.splits)
next
  case (EvEstablishBegin s')
  show ?thesis
    by (rule same_pin_step [OF inv]; simp add: EvEstablishBegin)
      (auto simp: establish_begin_def same_pin_def split: option.splits dest: punch_burst_toPeer)
next
  case (EvDirectBegin fr s' a k)
  show ?thesis
    using assms(2)
    by (intro same_pin_step [OF inv]; simp add: EvDirectBegin)
      (auto simp: connect_direct_begin_def same_pin_def Let_def split: option.splits if_splits)
qed ((use assms(2) in \<open>intro same_pin_step [OF inv];
    auto simp: pick_start_def pick_probe_def pick_end_def connect_begin_def connect_rendezvous_def establish_end_def
      connect_failed_def connect_finish_def connect_direct_timeout_def connect_direct_finish_def direct_guard_drop_def
      direct_punch_begin_def direct_punch_end_def session_drop_def same_pin_def Let_def split: option.splits prod.splits sum.splits if_splits dest: punch_burst_toPeer\<close>)+)

lemma run_pin: "pin_inv s pk g \<Longrightarrow> list_all (around s) es \<Longrightarrow> pin_inv s pk (node_run n es g) \<and> (keyed s pk g \<longrightarrow> keyed s pk (node_run n es g))"
proof (induction es arbitrary: g)
  case (Cons e es)
  then have "pin_step s pk g (node_step n e g)" by (intro step_pin) auto
  then show ?case using Cons.IH [of "fst (node_step n e g)"] Cons.prems(2) by (auto simp: pin_step_def)
qed simp

text \<open>
  C2: a pinned connect never hands out a session keyed to another identity. After a connect (through
  the relay or direct) that pins the peer's public key, whatever datagrams arrive, genuine or forged, from the
  relay, the peer or anyone else, and whatever the node does with other sessions: when the waiter of this connect
  is woken, the session in the table was derived against exactly the pinned key, and it stays so while
  further events happen around it.
\<close>

theorem pinned_connect_only_pinned_key:
  assumes "g1 = snd (connect_begin n fresh s tgt (Some pk) g0) \<and> self_id g0 \<noteq> None \<and> token g0 \<noteq> None \<or>
      g1 = fst (connect_direct_begin n fresh s addr (Some pk) g0)"
    and "list_all (around s) es" "around s e" "list_all (around s) es'"
    and "NotifyPeerFound s \<in> set (snd (node_step n e (node_run n es g1))) \<or>
      NotifyHelloDone s \<in> set (snd (node_step n e (node_run n es g1)))"
  shows "keyed s pk (fst (node_step n e (node_run n es g1))) \<and>
    keyed s pk (node_run n es' (fst (node_step n e (node_run n es g1))))"
proof -
  have "pin_inv s pk g1"
    using assms(1) by (auto simp: connect_begin_def connect_direct_begin_def pin_inv_def)
  then have "pin_inv s pk (node_run n es g1)" using run_pin assms(2) by blast
  from step_pin [OF this assms(3), of n] assms(5)
  have "pin_inv s pk (fst (node_step n e (node_run n es g1)))" "keyed s pk (fst (node_step n e (node_run n es g1)))"
    by (auto simp: pin_step_def)
  then show ?thesis using run_pin assms(4) by blast
qed

theorem pinned_connect_only_pinned_key_witness:
  "let n = demo_node Auto (PeerFound 5 (V4 198 51 100 7 4000) 9 (replicate 32 7 @ replicate 32 8) 0) (KeepAlive 9);
       hs = LocalHs_new toy_lib (replicate 32 3) (replicate 32 4);
       g1 = snd (connect_begin n hs 9 5 (Some (replicate 32 7)) (Inner_default\<lparr>self_id := Some 1, token := Some []\<rparr>))
   in keyed 9 (replicate 32 7) (fst (node_step n (Datagram [] (n_relay n) hs 0) g1))"
proof -
  define n where "n = demo_node Auto (PeerFound 5 (V4 198 51 100 7 4000) 9 (replicate 32 7 @ replicate 32 8) 0) (KeepAlive 9)"
  define hs where "hs = LocalHs_new toy_lib (replicate 32 3) (replicate 32 4)"
  define g0 where "g0 = Inner_default\<lparr>self_id := Some 1, token := Some []\<rparr>"
  let ?e = "Datagram [] (n_relay n) hs 0"
  have "NotifyPeerFound 9 \<in> set (snd (node_step n ?e (snd (connect_begin n hs 9 5 (Some (replicate 32 7)) g0))))"
    by (simp add: n_def g0_def Inner_default_def demo_node_def handle_datagram_def handle_relay_def on_peer_found_def
        connect_begin_def split_handshake_def slice_def HS_BLOB_LEN_def pin_violated_def Let_def)
  then have "keyed 9 (replicate 32 7) (fst (node_step n ?e (snd (connect_begin n hs 9 5 (Some (replicate 32 7)) g0))))"
    using pinned_connect_only_pinned_key [of "snd (connect_begin n hs 9 5 (Some (replicate 32 7)) g0)" n hs 9 5
        "replicate 32 7" g0 "V4 0 0 0 0 0" "[]" ?e "[]"]
    by (simp add: g0_def)
  then show ?thesis unfolding n_def hs_def g0_def Let_def .
qed

subsection \<open>Data path\<close>

definition data_path :: "session_state \<Rightarrow> sock_addr \<times> transport \<times> bool" where
  "data_path st = (peer_addr st, transport st, direct_ok st)"

lemma deliver_path: "map_option data_path (sessions (fst (deliver n s' q c g)) s) = map_option data_path (sessions g s)"
  "map_option peer_lan (sessions (fst (deliver n s' q c g)) s) = map_option peer_lan (sessions g s)"
  by (auto simp: deliver_def data_path_def split: option.splits prod.splits)

lemma hello_keeps:
  "sessions g s = Some st \<Longrightarrow> sessions (fst (on_hello n fr a s' k hs cp g)) s = Some st' \<Longrightarrow> st' = st"
  by (auto simp: on_hello_def Let_def split: option.splits if_splits)

lemma hello_ack_keeps:
  "sessions g s = Some st \<Longrightarrow> sessions (fst (on_hello_ack n a s' k hs cp g)) s = Some st' \<Longrightarrow> st' = st"
  by (auto simp: on_hello_ack_def Let_def split: option.splits if_splits)

lemma deliver_keeps:
  "sessions g s = Some st \<Longrightarrow> sessions (fst (deliver n s' q c g)) s = Some st' \<Longrightarrow> data_path st' = data_path st"
  using deliver_path(1) [of n s' q c g s] by simp

text \<open>
  C10: a stranger cannot move a session's data path. A datagram from an address that is neither the
  session's current peer address nor the LAN candidate agreed at rendezvous leaves the session's peer address,
  transport and direct flag as they were (or, for a forged ack on a mis-keyed pinned session, removes it); a
  candidate that does answer can only move the peer address to itself.
\<close>

theorem stranger_cannot_move_data_path:
  assumes "sessions g s = Some st" "sessions (fst (handle_peer n fresh now msg src g)) s = Some st'"
  shows "data_path st' = data_path st \<or> candidate src st \<and> (peer_addr st' = src \<or> peer_addr st' = peer_addr st)"
proof (cases msg)
  case (Data s' q p)
  then show ?thesis using assms deliver_keeps [of g s st n s' q p st'] by (simp add: handle_peer_def)
next
  case (Punch s' q)
  then show ?thesis using assms
    by (auto simp: handle_peer_def on_punch_def adopt_path_def Let_def split: if_splits option.splits)
next
  case (PunchAck s' q)
  then show ?thesis using assms
    by (auto simp: handle_peer_def on_punch_ack_def adopt_path_def Let_def split: if_splits option.splits)
qed (use assms in \<open>auto simp: handle_peer_def dest: hello_keeps hello_ack_keeps\<close>)

text \<open>A session over the relay with a LAN candidate, and the state that holds it.\<close>

definition demo_session :: session_state where
  "demo_session = new_session (V4 198 51 100 7 4000) (Some (V4 192 168 1 20 21118)) (from_key toy_lib [7] Initiator True)
     (replicate 32 7) Relay True (LocalHs_new toy_lib [3] [4]) 0 False True"

definition demo_inner :: inner where
  "demo_inner = Inner_default\<lparr>self_id := Some 1, token := Some [], sessions := [9 \<mapsto> demo_session]\<rparr>"

theorem stranger_cannot_move_data_path_witness:
  "map_option data_path (sessions (fst (handle_peer (demo_node Auto HeartbeatAck (KeepAlive 9)) (our_hs demo_session) 0
     (Punch 9 1) (V4 192 0 2 66 666) demo_inner)) 9) = Some (data_path demo_session)"
proof -
  let ?n = "demo_node Auto HeartbeatAck (KeepAlive 9)"
  let ?g = "fst (handle_peer ?n (our_hs demo_session) 0 (Punch 9 1) (V4 192 0 2 66 666) demo_inner)"
  have stranger: "\<not> candidate (V4 192 0 2 66 666) demo_session"
    by (simp add: candidate_def demo_session_def new_session_def)
  have st: "sessions demo_inner 9 = Some demo_session" by (simp add: demo_inner_def)
  have "\<exists>st'. sessions ?g 9 = Some st'"
    by (simp add: handle_peer_def on_punch_def st split: if_split)
  then obtain st' where st': "sessions ?g 9 = Some st'" ..
  from stranger_cannot_move_data_path [OF st st'] stranger st' show ?thesis by simp
qed

text \<open>Sessions a relay-only node keeps on the relay.\<close>

definition relay_bound :: "session_id \<Rightarrow> inner \<Rightarrow> bool" where
  "relay_bound s g \<longleftrightarrow> (\<exists>st. sessions g s = Some st \<and> transport st = Relay \<and> \<not> direct_ok st)"

lemma path_relay_bound:
  "map_option data_path (sessions g' s) = map_option data_path (sessions g s) \<Longrightarrow> relay_bound s g' = relay_bound s g"
  by (cases "sessions g s"; cases "sessions g' s") (auto simp: relay_bound_def data_path_def)

definition relay_or_gone :: "session_id \<Rightarrow> inner \<Rightarrow> bool" where
  "relay_or_gone s g \<longleftrightarrow> sessions g s = None \<or> relay_bound s g"

lemma relay_only_handlers:
  assumes "n_mode n = RelayOnly" "relay_bound s g"
  shows "relay_or_gone s (fst (handle_datagram n fr now buf src g))"
proof -
  obtain st where st: "sessions g s = Some st" "transport st = Relay" "\<not> direct_ok st"
    using assms(2) by (auto simp: relay_bound_def)
  have peer: "relay_or_gone s (fst (handle_peer n fr now msg src g))" for msg
  proof (cases "sessions (fst (handle_peer n fr now msg src g)) s")
    case (Some st')
    have "data_path st' = data_path st"
      using assms(1) Some st(1)
      by (cases msg) (auto simp: handle_peer_def on_punch_def on_punch_ack_def dest: hello_keeps hello_ack_keeps deliver_keeps)
    with Some st show ?thesis by (simp add: relay_or_gone_def relay_bound_def data_path_def)
  qed (simp add: relay_or_gone_def)
  have same: "sessions g' = sessions g \<Longrightarrow> relay_or_gone s g'" for g'
    using assms(2) by (simp add: relay_or_gone_def relay_bound_def)
  have "relay_or_gone s (fst (handle_relay n fr now msg g))" for msg
  proof (cases msg)
    case (Incoming i a s' h)
    then show ?thesis using st
      by (auto simp: handle_relay_def on_incoming_def relay_or_gone_def relay_bound_def Let_def split: option.split prod.split)
  next
    case (PeerFound t a s' ans rc)
    then show ?thesis using st
      by (auto simp: handle_relay_def on_peer_found_def relay_or_gone_def relay_bound_def new_session_def Let_def
          split: option.split prod.split)
  next
    case (RelayedData s' p)
    then show ?thesis using same path_relay_bound [OF deliver_path(1)] assms(2)
      by (auto simp: handle_relay_def relay_or_gone_def relay_bound_def split: option.split peer_msg.split)
  qed (auto simp: handle_relay_def on_registered_def on_auth_required_def on_relay_error_def Let_def intro!: same)
  with peer same show ?thesis by (auto simp: handle_datagram_def split: option.split)
qed

fun is_punch :: "session_id \<Rightarrow> action \<Rightarrow> bool" where
  "is_punch s (ToPeer (Punch s' _) _) \<longleftrightarrow> s' = s"
| "is_punch s (ToPeer (PunchAck s' _) _) \<longleftrightarrow> s' = s"
| "is_punch s _ \<longleftrightarrow> False"

lemma burst_punch: "s' \<noteq> s \<Longrightarrow> list_all (\<lambda>a. \<not> is_punch s a) (punch_burst s' a lan)"
  by (auto simp: list_all_iff dest!: punch_burst_toPeer)

lemma deliver_no_punch: "list_all (\<lambda>a. \<not> is_punch s a) (snd (deliver n s' q c g))"
  by (auto simp: deliver_def list_all_iff split: option.splits prod.splits sum.splits)

lemma relay_only_no_punch:
  assumes "n_mode n = RelayOnly" "sessions g s = Some st"
  shows "list_all (\<lambda>a. \<not> is_punch s a) (snd (handle_datagram n fr now buf src g))"
proof -
  have hi: "list_all (\<lambda>a. \<not> is_punch s a) (snd (on_hello n fr src s' k hs cp g))" for s' k hs cp
    using assms burst_punch [of s' s] by (cases "s' = s") (auto simp: on_hello_def hello_ack_def Let_def split: option.split)
  have peer: "list_all (\<lambda>a. \<not> is_punch s a) (snd (handle_peer n fr now msg src g))" for msg
    by (cases msg) (simp_all add: hi assms(1) deliver_no_punch handle_peer_def on_punch_def on_punch_ack_def on_hello_ack_def Let_def
        split: option.split)
  have "list_all (\<lambda>a. \<not> is_punch s a) (snd (handle_relay n fr now msg g))" for msg
  proof (cases msg)
    case (Incoming i a s' h)
    then show ?thesis using assms by (auto simp: handle_relay_def on_incoming_def Let_def split: option.split prod.split)
  qed (simp_all add: handle_relay_def on_registered_def on_peer_found_def deliver_no_punch
        answer_relay_probe_def on_auth_required_def on_relay_error_def Let_def split: option.split prod.split peer_msg.split)
  with peer show ?thesis by (auto simp: handle_datagram_def split: option.split)
qed

text \<open>
  C17: a relay-only node keeps its relayed sessions on the relay: no datagram, whatever its content
  or source, turns such a session to the direct path or makes the node send a punch or punch ack for it, and
  everything it sends on the session goes to the relay.
\<close>

theorem relay_only_stays_on_relay:
  assumes "n_mode n = RelayOnly" "relay_bound s g"
  shows "relay_or_gone s (fst (handle_datagram n fresh now buf src g)) \<and>
    list_all (\<lambda>a. \<not> is_punch s a) (snd (handle_datagram n fresh now buf src g)) \<and>
    (case fst (send_payload n s payload (fst (handle_datagram n fresh now buf src g))) of
       Inr (ToPeer _ _) \<Rightarrow> False | _ \<Rightarrow> True)"
proof -
  let ?g = "fst (handle_datagram n fresh now buf src g)"
  have r: "relay_or_gone s ?g" by (rule relay_only_handlers [OF assms])
  have "case fst (send_payload n s payload g') of Inr (ToPeer _ _) \<Rightarrow> False | _ \<Rightarrow> True" if "relay_or_gone s g'" for g'
    using that by (auto simp: relay_or_gone_def relay_bound_def send_payload_def Let_def split: option.split)
  moreover have "list_all (\<lambda>a. \<not> is_punch s a) (snd (handle_datagram n fresh now buf src g))"
    using assms relay_only_no_punch by (auto simp: relay_bound_def)
  ultimately show ?thesis using r by blast
qed

theorem relay_only_stays_on_relay_witness:
  "relay_or_gone 9 (fst (handle_datagram (demo_node RelayOnly HeartbeatAck (Punch 9 1)) (our_hs demo_session) 0 []
     (V4 192 168 1 20 21118) demo_inner))"
  using relay_only_stays_on_relay [of "demo_node RelayOnly HeartbeatAck (Punch 9 1)" 9 demo_inner "our_hs demo_session" 0 "[]"
      "V4 192 168 1 20 21118" "[]"]
  by (simp add: demo_node_def relay_bound_def demo_inner_def demo_session_def new_session_def)

subsection \<open>Sequence numbers of an established session\<close>

definition established :: "session_id \<Rightarrow> inner \<Rightarrow> bool" where
  "established s g \<longleftrightarrow> expected_pubkey g s = None \<and> pending_salt g s = None \<and> sessions g s \<noteq> None"

definition core :: "session_id \<Rightarrow> inner \<Rightarrow> (u64 \<times> bytes \<times> role) option" where
  "core s g = map_option (\<lambda>st. (send_seq st, cipher_key (crypto st), sess_role (crypto st))) (sessions g s)"

definition same_core :: "session_id \<Rightarrow> inner \<Rightarrow> inner \<Rightarrow> bool" where
  "same_core s g g' \<longleftrightarrow> expected_pubkey g' s = expected_pubkey g s \<and> pending_salt g' s = pending_salt g s \<and> core s g' = core s g"

lemma same_core_established: "same_core s g g' \<Longrightarrow> established s g' = established s g"
  by (cases "sessions g s"; cases "sessions g' s") (simp_all add: same_core_def established_def core_def)

lemma open_keeps_core:
  "open_in_place lib cr q c = (r, buf, cr') \<Longrightarrow> cipher_key cr' = cipher_key cr \<and> sess_role cr' = sess_role cr"
  by (auto simp: open_in_place_def split: option.splits prod.splits bool.splits)

lemma deliver_core: "same_core s g (fst (deliver n s' q c g))"
  by (auto simp: deliver_def same_core_def core_def split: option.splits prod.splits dest: open_keeps_core)

lemma datagram_core:
  assumes "established s g"
  shows "same_core s g (fst (handle_datagram n fr now buf src g))"
proof -
  obtain st where st: "sessions g s = Some st" "expected_pubkey g s = None" "pending_salt g s = None"
    using assms by (auto simp: established_def)
  have refl: "same_core s g g" by (simp add: same_core_def)
  have peer: "same_core s g (fst (handle_peer n fr now msg src g))" for msg
    using st deliver_core [of s g n]
    by (cases msg) (auto simp: handle_peer_def on_punch_def on_punch_ack_def on_hello_def on_hello_ack_def pin_violated_def
        same_core_def core_def Let_def split: option.split)
  have "same_core s g (fst (handle_relay n fr now msg g))" for msg
  proof (cases msg)
    case (PeerFound t a s' ans rc)
    then show ?thesis using st
      by (cases "s' = s") (auto simp: handle_relay_def on_peer_found_def pin_violated_def same_core_def core_def Let_def
          split: option.split prod.split)
  next
    case (RelayedData s' p)
    then show ?thesis using refl deliver_core [of s g n]
      by (auto simp: handle_relay_def same_core_def core_def split: option.split peer_msg.split)
  qed (use st in \<open>auto simp: handle_relay_def on_registered_def on_incoming_def on_auth_required_def on_relay_error_def
      same_core_def core_def Let_def split: option.split prod.split\<close>)
  with peer refl show ?thesis by (auto simp: handle_datagram_def split: option.split)
qed

definition send_step :: "session_id \<Rightarrow> node_event \<Rightarrow> u64" where
  "send_step s e = (case e of EvSend s' _ \<Rightarrow> if s' = s then 1 else 0 | _ \<Rightarrow> 0)"

lemma step_core:
  assumes "established s g" "around s e" "core s g = Some (q, k, r)"
  shows "established s (fst (node_step n e g)) \<and> core s (fst (node_step n e g)) = Some (q + send_step s e, k, r)"
proof (cases e)
  case (Datagram buf src fr now)
  then show ?thesis
    using datagram_core [OF assms(1), of n fr now buf src] same_core_established [of s g] assms
    by (auto simp: same_core_def send_step_def)
next
  case (EvSend s' p)
  then show ?thesis using assms
    by (auto simp: send_payload_def established_def core_def send_step_def Let_def
        split: option.splits transport.splits prod.splits sum.splits)
next
  case (EvEstablishBegin s')
  then show ?thesis using assms
    by (auto simp: establish_begin_def established_def core_def send_step_def split: option.splits)
next
  case (EvDirectBegin fr s' a pk)
  then show ?thesis using assms
    by (auto simp: connect_direct_begin_def established_def core_def send_step_def Let_def split: option.splits)
qed ((use assms in \<open>auto simp: pick_start_def pick_probe_def pick_end_def connect_begin_def connect_rendezvous_def
      establish_end_def connect_failed_def connect_finish_def connect_direct_timeout_def connect_direct_finish_def
      direct_guard_drop_def direct_punch_begin_def direct_punch_end_def session_drop_def established_def core_def send_step_def Let_def
      split: option.splits prod.splits sum.splits if_splits\<close>)+)

text \<open>The nonce of every payload sealed for a session in a run.\<close>

fun nonce_trace :: "node \<Rightarrow> session_id \<Rightarrow> node_event list \<Rightarrow> inner \<Rightarrow> bytes list" where
  "nonce_trace n s [] g = []"
| "nonce_trace n s (e # es) g =
     (case (e, sessions g s) of
        (EvSend s' _, Some st) \<Rightarrow> if s' = s then [nonce (send_dir (crypto st)) (send_seq st)] else []
      | _ \<Rightarrow> []) @ nonce_trace n s es (fst (node_step n e g))"

fun dir_of :: "role \<Rightarrow> u8" where
  "dir_of Initiator = 0"
| "dir_of Responder = 1"

lemma nonce_trace_seqs:
  assumes "established s g" "list_all (around s) es" "core s g = Some (q, k, r)"
  shows "\<exists>m \<le> length es. nonce_trace n s es g = map (\<lambda>i. nonce (dir_of r) (q + of_nat i)) [0..<m]"
  using assms
proof (induction es arbitrary: g q)
  case (Cons e es)
  let ?g = "fst (node_step n e g)"
  have step: "established s ?g" "core s ?g = Some (q + send_step s e, k, r)"
    using step_core [OF Cons.prems(1) _ Cons.prems(3), of e n] Cons.prems(2) by auto
  then obtain m where m: "m \<le> length es"
    "nonce_trace n s es ?g = map (\<lambda>i. nonce (dir_of r) (q + send_step s e + of_nat i)) [0..<m]"
    using Cons.IH [OF step(1) _ step(2)] Cons.prems(2) by auto
  obtain st where st: "sessions g s = Some st" "send_seq st = q" "sess_role (crypto st) = r"
    using Cons.prems(3) by (auto simp: core_def)
  have d: "send_dir (crypto st) = dir_of r" using st(3) by (cases r) (simp_all add: send_dir_def)
  show ?case
  proof (cases "send_step s e = 0")
    case True
    then have "nonce_trace n s (e # es) g = map (\<lambda>i. nonce (dir_of r) (q + of_nat i)) [0..<m]"
      using m(2) st by (auto simp: send_step_def split: node_event.splits if_splits)
    then show ?thesis using m(1) by (intro exI [of _ m]) simp
  next
    case False
    then obtain p where e: "e = EvSend s p" by (auto simp: send_step_def split: node_event.splits if_splits)
    have "nonce_trace n s (e # es) g =
        nonce (dir_of r) q # map (\<lambda>i. nonce (dir_of r) (q + of_nat (Suc i))) [0..<m]"
      using m(2) st d by (simp add: e send_step_def ac_simps)
    also have "\<dots> = map (\<lambda>i. nonce (dir_of r) (q + of_nat i)) [0..<Suc m]"
      by (simp add: upt_conv_Cons map_Suc_upt [symmetric] del: upt_Suc of_nat_Suc)
    finally show ?thesis using m(1) by (intro exI [of _ "Suc m"]) simp
  qed
qed simp



end
