(* ===== verification/Pulsar_Paths.thy ===== *)
theory Pulsar_Paths
  imports Pulsar_Pinning
begin

text \<open>
  Registration and path choice: the registration loop sends a bounded number of messages and returns, and the
  \<^verbatim>\<open>Auto\<close> path comparison (\<^verbatim>\<open>path.rs\<close>) chooses the relay only when it is clearly faster and then sticks to it.
\<close>

subsection \<open>Registration\<close>

lemma register_step_done: "register_step n k g = (Done i, g') \<Longrightarrow> self_id g' = Some i"
  by (auto simp: register_step_def Let_def split: option.splits if_splits err_code.splits)

lemma register_step_proof: "register_step n k g = (Retry p, g') \<Longrightarrow> \<exists>nc. p = build_auth_proof n nc"
  by (auto simp: register_step_def Let_def split: option.splits if_splits err_code.splits)

lemma register_step_fail:
  "register_step n k g = (Fail (RelayAuthRequired pw totp), g') \<Longrightarrow>
    (pw \<longrightarrow> cred_password (n_creds n) = None) \<and> (totp \<longrightarrow> cred_totp (n_creds n) = None) \<and> (pw \<or> totp)"
  by (auto simp: register_step_def Let_def split: option.splits if_splits err_code.splits)

text \<open>The messages a run may send: a registration of this node, with a proof from its own credentials.\<close>

definition own_register :: "node \<Rightarrow> client_msg \<Rightarrow> bool" where
  "own_register n m \<longleftrightarrow> (\<exists>p. m = register_msg_with n p \<and> (case p of None \<Rightarrow> True | Some p \<Rightarrow>
     p = \<lparr>ap_nonce = replicate 16 0, ap_password = None, ap_totp = None, ap_key = cred_key (n_creds n)\<rparr> \<or>
     (\<exists>nc. p = build_auth_proof n nc)))"

lemma own_registerI:
  "own_register n (register_msg_with n None)"
  "own_register n (register_msg_with n (key_only_proof n))"
  "own_register n (register_msg_with n (Some (build_auth_proof n nc)))"
  by (auto simp: own_register_def register_msg_with_def key_only_proof_def split: option.splits)

lemma register_loop_spec:
  assumes "register_loop n waits pf attempts g = (r, msgs, g')" "own_register n (register_msg_with n pf)" "attempts \<le> 3"
  shows "msgs \<noteq> [] \<and> hd msgs = register_msg_with n pf \<and> length msgs \<le> 4 - attempts \<and> list_all (own_register n) msgs \<and>
    (\<forall>i. r = Inr i \<longrightarrow> self_id g' = Some i) \<and>
    (\<forall>pw totp. r = Inl (RelayAuthRequired pw totp) \<longrightarrow> (pw \<longrightarrow> cred_password (n_creds n) = None) \<and>
       (totp \<longrightarrow> cred_totp (n_creds n) = None) \<and> (pw \<or> totp))"
  using assms
proof (induction n waits pf attempts g arbitrary: r msgs g' rule: register_loop.induct)
  case (1 n waits pf attempts g)
  note eq = 1(2) [unfolded register_loop.simps [of n waits pf attempts g] Let_def]
  show ?case
  proof (cases "waits (Suc attempts) g")
    case None
    then show ?thesis using eq 1(3,4) by auto
  next
    case (Some g1)
    obtain o2 g2 where st: "register_step n (Suc attempts) g1 = (o2, g2)" by fastforce
    show ?thesis
    proof (cases o2)
      case (Retry p)
      obtain r3 ms g3 where rec: "register_loop n waits (Some p) (Suc attempts) g2 = (r3, ms, g3)"
        using prod_cases3 by blast
      have p: "own_register n (register_msg_with n (Some p))"
        using register_step_proof [OF st [unfolded Retry]] own_registerI(3) by auto
      have le: "Suc attempts \<le> 3" using register_step_retry [OF st [unfolded Retry]] by simp
      have out: "r = r3" "msgs = register_msg_with n pf # ms" "g' = g3"
        using eq by (simp_all add: Some st Retry rec)
      from 1(1) [OF refl Some st [symmetric] Retry rec p le] out 1(3) le show ?thesis
        by (simp; linarith)
    qed (use eq Some st 1(3,4) in \<open>auto dest: register_step_done register_step_fail\<close>)
  qed
qed


subsection \<open>The faster path\<close>

lemma best_Min: "best v = (if v = [] then None else Some (Min (set v)))"
proof (cases v)
  case (Cons x xs)
  have "(\<lambda>a b. min b a) = (min :: rat \<Rightarrow> _)" by (simp add: fun_eq_iff min.commute)
  then show ?thesis using Min.set_eq_fold [of x xs] by (simp add: best_def Cons foldl_conv_fold)
qed (simp add: best_def)

lemma relay_margin: "r < d" if "f32_add r RELAY_MARGIN_MS < d" "rnd32 r = r"
proof -
  have "r \<le> f32_add r RELAY_MARGIN_MS"
    unfolding f32_add_def using that(2) by (intro f32.ge_rnd) (simp_all add: RELAY_MARGIN_MS_def)
  with that(1) show ?thesis by simp
qed

text \<open>A session that the path choice has pinned to the relay.\<close>

definition pinned_relay :: "session_state \<Rightarrow> bool" where
  "pinned_relay st \<longleftrightarrow> relay_preferred st \<and> transport st = Relay"

lemma adopt_path_pinned: "pinned_relay st \<Longrightarrow> pinned_relay (adopt_path src st)"
  by (simp add: pinned_relay_def adopt_path_def Let_def)

lemma deliver_pinned:
  "sessions g s = Some st \<Longrightarrow> pinned_relay st \<Longrightarrow> sessions (fst (deliver n s' q c g)) s = Some st' \<Longrightarrow> pinned_relay st'"
  by (auto simp: deliver_def pinned_relay_def split: option.splits prod.splits if_splits)

lemma peer_pinned:
  assumes "sessions g s = Some st" "pinned_relay st" "sessions (fst (handle_peer n fr now msg src g)) s = Some st'"
  shows "pinned_relay st'"
proof (cases msg)
  case (Punch s' q)
  then show ?thesis using assms
    by (auto simp: handle_peer_def on_punch_def adopt_path_pinned split: option.splits if_splits)
next
  case (PunchAck s' q)
  then show ?thesis using assms
    by (auto simp: handle_peer_def on_punch_ack_def adopt_path_pinned Let_def split: option.splits if_splits)
next
  case (Data s' q p)
  then show ?thesis using assms by (auto simp: handle_peer_def dest: deliver_pinned)
qed (use assms in \<open>auto simp: handle_peer_def dest: hello_keeps hello_ack_keeps\<close>)

text \<open>
  the path choice takes the relay exactly when it is clearly faster: with no relay answer the
  session keeps its path, with relay answers and a silent direct path it goes to the relay, and otherwise the
  relay's best round trip must beat the direct one by the margin and by the ratio, so it is strictly smaller.
  Once chosen the relay stays: the handle reports it, and no datagram of any peer moves the session to the
  direct path again.
\<close>

theorem path_choice_correct:
  assumes "probes g s = Some p" "sessions g s = Some st" "list_all (\<lambda>x. rnd32 x = x) (probe_direct p @ probe_relay p)"
    and "pick_end s g = (tr, g')" "transport st = Direct"
  shows "(tr = Relay \<longleftrightarrow> probe_relay p \<noteq> [] \<and> (probe_direct p = [] \<or>
       f32_add (Min (set (probe_relay p))) RELAY_MARGIN_MS < Min (set (probe_direct p)) \<and>
       Min (set (probe_relay p)) < f32_mul (Min (set (probe_direct p))) RELAY_RATIO)) \<and>
    (tr = Relay \<longrightarrow> (\<forall>d \<in> set (probe_direct p). Min (set (probe_relay p)) < d) \<and>
       live_transport s mine g' = Relay \<and>
       (\<forall>st'. sessions (fst (handle_peer n fr now msg src g')) s = Some st' \<longrightarrow> transport st' = Relay \<and> relay_preferred st'))"
proof -
  let ?rel = "prefer_relay (probe_direct p) (probe_relay p)"
  have tr: "tr = Relay \<longleftrightarrow> ?rel" and st': "\<exists>st'. sessions g' s = Some st' \<and> (?rel \<longrightarrow> pinned_relay st')"
    using assms(1,2,4,5) by (auto simp: pick_end_def pinned_relay_def Let_def split: if_splits)
  have rel: "?rel \<longleftrightarrow> probe_relay p \<noteq> [] \<and> (probe_direct p = [] \<or>
       f32_add (Min (set (probe_relay p))) RELAY_MARGIN_MS < Min (set (probe_direct p)) \<and>
       Min (set (probe_relay p)) < f32_mul (Min (set (probe_direct p))) RELAY_RATIO)"
    by (simp add: prefer_relay_def best_Min)
  have exact: "rnd32 (Min (set (probe_relay p))) = Min (set (probe_relay p))" if "probe_relay p \<noteq> []"
    using assms(3) that Min_in [of "set (probe_relay p)"] by (auto simp: list_all_iff)
  have faster: "Min (set (probe_relay p)) < d" if "?rel" "d \<in> set (probe_direct p)" for d
  proof -
    have "Min (set (probe_relay p)) < Min (set (probe_direct p))"
    proof (rule relay_margin)
      have "probe_relay p \<noteq> []" "probe_direct p \<noteq> []" using that rel by auto
      then show "f32_add (Min (set (probe_relay p))) RELAY_MARGIN_MS < Min (set (probe_direct p))"
        and "rnd32 (Min (set (probe_relay p))) = Min (set (probe_relay p))"
        using that(1) rel exact by simp_all
    qed
    also have "\<dots> \<le> d" using that(2) by simp
    finally show ?thesis .
  qed
  have "transport st'' = Relay \<and> relay_preferred st''"
    if "?rel" "sessions (fst (handle_peer n fr now msg src g')) s = Some st''" for st''
  proof -
    from st' that(1) obtain st' where "sessions g' s = Some st'" "pinned_relay st'" by blast
    from peer_pinned [OF this that(2)] show ?thesis by (simp add: pinned_relay_def)
  qed
  moreover have "live_transport s mine g' = Relay" if "?rel"
    using st' that by (auto simp: live_transport_def pinned_relay_def)
  ultimately show ?thesis using tr rel faster by blast
qed

theorem path_choice_correct_witness:
  "fst (pick_end 9 (demo_inner\<lparr>sessions := [9 \<mapsto> demo_session\<lparr>transport := Direct, direct_ok := True\<rparr>],
     probes := [9 \<mapsto> \<lparr>probe_sent = Map.empty, probe_direct = [], probe_relay = [1, 2]\<rparr>]\<rparr>)) = Relay"
proof -
  let ?p = "\<lparr>probe_sent = Map.empty, probe_direct = [], probe_relay = [1, 2]\<rparr> :: path_probe"
  let ?g = "demo_inner\<lparr>sessions := [9 \<mapsto> demo_session\<lparr>transport := Direct, direct_ok := True\<rparr>], probes := [9 \<mapsto> ?p]\<rparr>"
  have "rnd32 1 = 1" "rnd32 2 = 2" using f32.nat_exact [of 1] f32.nat_exact [of 2] by simp_all
  then show ?thesis
    using path_choice_correct [of ?g 9 ?p "demo_session\<lparr>transport := Direct, direct_ok := True\<rparr>"
        "fst (pick_end 9 ?g)" "snd (pick_end 9 ?g)"] by simp
qed

end
