(* ===== verification/Pulsar_Input.thy ===== *)
theory Pulsar_Input
  imports Pulsar_Float
begin

text \<open>
  Controller input (\<^verbatim>\<open>input/types.rs\<close>): controller families and their detection, emulation targets, the
  normalised gamepad state, the axis and trigger scaling and the two host report encodings (XInput, DualShock 4).
\<close>

type_synonym i16 = "16 word"
type_synonym i32 = "32 word"

datatype gamepad_kind = Ds3 | Ds4 | Ds5 | Xbox | Standard | UnknownPad

definition from_vid_pid :: "u16 \<Rightarrow> u16 \<Rightarrow> gamepad_kind" where
  "from_vid_pid vid pid =
     (if vid = 0x054C \<and> pid = 0x0268 then Ds3
      else if vid = 0x054C \<and> (pid = 0x05C4 \<or> pid = 0x09CC \<or> pid = 0x0BA0) then Ds4
      else if vid = 0x054C \<and> (pid = 0x0CE6 \<or> pid = 0x0DF2) then Ds5
      else if vid = 0x045E then Xbox
      else if vid = 0x054C then Standard
      else if vid = 0 \<and> pid = 0 then UnknownPad
      else Standard)"

fun kind_label :: "gamepad_kind \<Rightarrow> string" where
  "kind_label Ds3 = ''DualShock 3''"
| "kind_label Ds4 = ''DualShock 4''"
| "kind_label Ds5 = ''DualSense''"
| "kind_label Xbox = ''Xbox''"
| "kind_label Standard = ''Standart Gamepad''"
| "kind_label UnknownPad = ''Bilinmeyen''"

datatype emulation_target = EmAuto | EmXbox360 | EmDs4

datatype resolved_target = ResXbox360 | ResDs4

fun resolve_target :: "emulation_target \<Rightarrow> gamepad_kind \<Rightarrow> resolved_target" where
  "resolve_target EmXbox360 _ = ResXbox360"
| "resolve_target EmDs4 _ = ResDs4"
| "resolve_target EmAuto kind = (if kind \<in> {Ds3, Ds4, Ds5} then ResDs4 else ResXbox360)"

record controller_info =
  ci_index :: u32
  ci_uuid :: string
  ci_name :: string
  ci_kind :: gamepad_kind
  ci_connected :: bool

definition vid_pid_from_sdl_guid :: "bytes \<Rightarrow> u16 \<times> u16" where
  "vid_pid_from_sdl_guid guid =
     (from_be_bytes16 (guid ! 5) (guid ! 4), from_be_bytes16 (guid ! 9) (guid ! 8))"

subsection \<open>Gamepad state\<close>

definition btn_A :: u32 where "btn_A = push_bit 0 1"
definition btn_B :: u32 where "btn_B = push_bit 1 1"
definition btn_X :: u32 where "btn_X = push_bit 2 1"
definition btn_Y :: u32 where "btn_Y = push_bit 3 1"
definition btn_LB :: u32 where "btn_LB = push_bit 4 1"
definition btn_RB :: u32 where "btn_RB = push_bit 5 1"
definition btn_BACK :: u32 where "btn_BACK = push_bit 6 1"
definition btn_START :: u32 where "btn_START = push_bit 7 1"
definition btn_GUIDE :: u32 where "btn_GUIDE = push_bit 8 1"
definition btn_L3 :: u32 where "btn_L3 = push_bit 9 1"
definition btn_R3 :: u32 where "btn_R3 = push_bit 10 1"
definition btn_DPAD_UP :: u32 where "btn_DPAD_UP = push_bit 11 1"
definition btn_DPAD_DOWN :: u32 where "btn_DPAD_DOWN = push_bit 12 1"
definition btn_DPAD_LEFT :: u32 where "btn_DPAD_LEFT = push_bit 13 1"
definition btn_DPAD_RIGHT :: u32 where "btn_DPAD_RIGHT = push_bit 14 1"

lemmas btn_defs = btn_A_def btn_B_def btn_X_def btn_Y_def btn_LB_def btn_RB_def btn_BACK_def btn_START_def
  btn_GUIDE_def btn_L3_def btn_R3_def btn_DPAD_UP_def btn_DPAD_DOWN_def btn_DPAD_LEFT_def btn_DPAD_RIGHT_def

record gamepad_state =
  buttons :: u32
  left_x :: i16
  left_y :: i16
  right_x :: i16
  right_y :: i16
  left_trigger :: u8
  right_trigger :: u8

definition GamepadState_default :: gamepad_state where
  "GamepadState_default = \<lparr>buttons = 0, left_x = 0, left_y = 0, right_x = 0, right_y = 0, left_trigger = 0, right_trigger = 0\<rparr>"

definition is_pressed :: "gamepad_state \<Rightarrow> u32 \<Rightarrow> bool" where
  "is_pressed st button \<longleftrightarrow> buttons st AND button \<noteq> 0"

definition set_button :: "gamepad_state \<Rightarrow> u32 \<Rightarrow> bool \<Rightarrow> gamepad_state" where
  "set_button st button pressed =
     (if pressed then st\<lparr>buttons := buttons st OR button\<rparr> else st\<lparr>buttons := buttons st AND NOT button\<rparr>)"

text \<open>Scaling of normalised axes and triggers; the products are below 2^24, so \<^verbatim>\<open>as i16\<close> and \<^verbatim>\<open>as u8\<close> never saturate.\<close>

definition clampf :: "rat \<Rightarrow> rat \<Rightarrow> rat \<Rightarrow> rat" where
  "clampf lo hi v = (if v < lo then lo else if v > hi then hi else v)"

definition axis_to_i16 :: "rat \<Rightarrow> i16" where
  "axis_to_i16 v = word_of_int \<lfloor>round_away (f32_mul (clampf (- 1) 1 v) 32767)\<rfloor>"

definition trigger_to_u8 :: "rat \<Rightarrow> u8" where
  "trigger_to_u8 v = word_of_int \<lfloor>round_away (f32_mul (clampf 0 1 v) 255)\<rfloor>"

definition touch_to_delta :: "i32 \<times> i32 \<Rightarrow> i32 \<times> i32 \<Rightarrow> rat \<Rightarrow> rat \<times> rat" where
  "touch_to_delta prev cur sens =
     (f64_mul (rnd64 (of_int (sint (fst cur - fst prev)))) sens, f64_mul (rnd64 (of_int (sint (snd cur - snd prev)))) sens)"

subsection \<open>The recording pad\<close>

record recording_pad =
  kind_override :: "gamepad_kind option"
  applied :: nat
  last_state :: "gamepad_state option"

definition RecordingPad_new :: "gamepad_kind \<Rightarrow> recording_pad" where
  "RecordingPad_new kind = \<lparr>kind_override = Some kind, applied = 0, last_state = None\<rparr>"

definition RecordingPad_kind :: "recording_pad \<Rightarrow> gamepad_kind" where
  "RecordingPad_kind p = (case kind_override p of Some k \<Rightarrow> k | None \<Rightarrow> Standard)"

definition RecordingPad_apply :: "recording_pad \<Rightarrow> gamepad_state \<Rightarrow> recording_pad" where
  "RecordingPad_apply p st = p\<lparr>applied := applied p + 1, last_state := Some st\<rparr>"

subsection \<open>Host reports\<close>

definition XINPUT_MAP :: "(u32 \<times> u16) list" where
  "XINPUT_MAP = [(btn_DPAD_UP, 0x0001), (btn_DPAD_DOWN, 0x0002), (btn_DPAD_LEFT, 0x0004), (btn_DPAD_RIGHT, 0x0008),
     (btn_START, 0x0010), (btn_BACK, 0x0020), (btn_L3, 0x0040), (btn_R3, 0x0080), (btn_LB, 0x0100), (btn_RB, 0x0200),
     (btn_GUIDE, 0x0400), (btn_A, 0x1000), (btn_B, 0x2000), (btn_X, 0x4000), (btn_Y, 0x8000)]"

definition xinput_buttons :: "gamepad_state \<Rightarrow> u16" where
  "xinput_buttons st = foldl (\<lambda>bits (our, xinput). if is_pressed st our then bits OR xinput else bits) 0 XINPUT_MAP"

fun ds4_hat :: "bool \<Rightarrow> bool \<Rightarrow> bool \<Rightarrow> bool \<Rightarrow> u16" where
  "ds4_hat True False False False = 0"
| "ds4_hat True False False True = 1"
| "ds4_hat False False False True = 2"
| "ds4_hat False True False True = 3"
| "ds4_hat False True False False = 4"
| "ds4_hat False True True False = 5"
| "ds4_hat False False True False = 6"
| "ds4_hat True False True False = 7"
| "ds4_hat _ _ _ _ = 8"

definition saturating_neg :: "i16 \<Rightarrow> i16" where
  "saturating_neg v = (if v = 0x8000 then 0x7FFF else - v)"

definition ds4_stick :: "i16 \<Rightarrow> u8" where
  "ds4_stick v = word_of_int (max 0 (min 255 (sint v div 256 + 128)))"

definition flag :: "bool \<Rightarrow> nat \<Rightarrow> u16" where
  "flag c k = (if c then push_bit k 1 else 0)"

definition ds4_report_fields :: "gamepad_state \<Rightarrow> u16 \<times> u8 \<times> u8 \<times> u8 \<times> u8 \<times> u8" where
  "ds4_report_fields st =
     (let hat = ds4_hat (is_pressed st btn_DPAD_UP) (is_pressed st btn_DPAD_DOWN) (is_pressed st btn_DPAD_LEFT)
            (is_pressed st btn_DPAD_RIGHT);
          btns = hat OR flag (is_pressed st btn_X) 4 OR flag (is_pressed st btn_A) 5 OR flag (is_pressed st btn_B) 6 OR
            flag (is_pressed st btn_Y) 7 OR flag (is_pressed st btn_LB) 8 OR flag (is_pressed st btn_RB) 9 OR
            flag (left_trigger st > 0) 10 OR flag (right_trigger st > 0) 11 OR flag (is_pressed st btn_BACK) 12 OR
            flag (is_pressed st btn_START) 13 OR flag (is_pressed st btn_L3) 14 OR flag (is_pressed st btn_R3) 15;
          special = (if is_pressed st btn_GUIDE then 1 else 0)
      in (btns, special, ds4_stick (left_x st), ds4_stick (saturating_neg (left_y st)),
          ds4_stick (right_x st), ds4_stick (saturating_neg (right_y st))))"

subsection \<open>Properties\<close>

lemma xinput_fold_bit:
  "bit (foldl (\<lambda>bits (our, x). if is_pressed st our then bits OR x else bits) b m) k \<longleftrightarrow>
    bit b k \<or> list_ex (\<lambda>(our, x). is_pressed st our \<and> bit x k) m"
proof (induction m arbitrary: b)
  case (Cons p m)
  show ?case by (cases p) (simp add: Cons.IH bit_or_iff)
qed simp

lemma hat_bounds: "ds4_hat u d l r \<le> 8"
  by (cases "(u, d, l, r)" rule: ds4_hat.cases) simp_all

lemma hat_high_bits: "4 \<le> k \<Longrightarrow> \<not> bit (ds4_hat u d l r) k"
proof -
  assume k: "4 \<le> k"
  have "unat (ds4_hat u d l r) < 2 ^ 4" using hat_bounds [of u d l r] by (simp add: word_le_nat_alt)
  also have "(2 :: nat) ^ 4 \<le> 2 ^ k" using k by (rule power_increasing) simp
  finally have "\<not> bit (unat (ds4_hat u d l r)) k" by (simp add: bit_iff_odd)
  then show ?thesis by (simp add: bit_unsigned_iff)
qed

lemma flag_bit [simp]: "bit (flag c k) n \<longleftrightarrow> c \<and> n = k \<and> k < 16"
  by (auto simp: flag_def bit_exp_iff)

lemma is_pressed_bits: "is_pressed st (push_bit k 1) \<longleftrightarrow> bit (buttons st) k"
  by (simp add: is_pressed_def bit_iff_and_push_bit_not_eq_0)

lemma and_single_bit: "x = push_bit k 1 \<Longrightarrow> (w :: u16) AND x \<noteq> 0 \<longleftrightarrow> bit w k"
  by (simp add: bit_iff_and_push_bit_not_eq_0)

lemma and_eq_0_iff_bits: "(a :: 'a :: len word) AND b = 0 \<longleftrightarrow> (\<forall>n. \<not> (bit a n \<and> bit b n))"
  by (auto simp: bit_eq_iff bit_simps dest: bit_imp_le_length)

lemma set_button_same: "b \<noteq> 0 \<Longrightarrow> is_pressed (set_button st b p) b \<longleftrightarrow> p"
  by (auto simp: is_pressed_def set_button_def and_eq_0_iff_bits bit_simps bit_eq_iff)

lemma set_button_other: "b AND b' = 0 \<Longrightarrow> is_pressed (set_button st b p) b' \<longleftrightarrow> is_pressed st b'"
proof -
  assume b: "b AND b' = 0"
  then have "(buttons st AND NOT b) AND b' = buttons st AND b'" "(buttons st OR b) AND b' = buttons st AND b'"
    by (auto simp: bit_eq_iff bit_simps)
  then show ?thesis by (simp add: is_pressed_def set_button_def)
qed

lemma i16_range: "- 32768 \<le> sint (v :: i16)" "sint (v :: i16) < 32768"
  using sint_ge [of v] sint_lt [of v] by simp_all

lemma ds4_stick_value: "uint (ds4_stick v) = sint v div 256 + 128"
proof -
  let ?k = "sint v div 256 + 128"
  have k: "0 \<le> ?k" "?k \<le> 255" using i16_range [of v] by linarith+
  then have "ds4_stick v = word_of_int ?k" by (simp add: ds4_stick_def max_def min_def)
  moreover have "take_bit 8 ?k = ?k" using k by (simp add: take_bit_int_eq_self_iff)
  ultimately show ?thesis using k by (simp add: unsigned_of_int del: of_int_add)
qed

lemma sint_saturating_neg: "sint (saturating_neg v) = min 32767 (- sint v)"
proof (cases "v = 0x8000")
  case False
  have "sint v \<noteq> - 32768"
  proof
    assume "sint v = - 32768"
    then have "word_of_int (sint v) = (word_of_int (- 32768) :: i16)" by simp
    then show False using False by simp
  qed
  then have r: "- 32767 \<le> sint v" using i16_range [of v] by simp
  have "sint (- v) = signed_take_bit 15 (- sint v)"
    using sint_word_ariths(4) [of v] by simp
  also have "\<dots> = - sint v" using r i16_range [of v] by (simp add: signed_take_bit_int_eq_self_iff)
  finally show ?thesis using False r by (simp add: saturating_neg_def)
qed (simp add: saturating_neg_def)

lemma ds4_hat_low: "ds4_hat u d l r < 8 \<longleftrightarrow> (u \<or> d \<or> l \<or> r) \<and> \<not> (u \<and> d) \<and> \<not> (l \<and> r)"
  by (cases u; cases d; cases l; cases r) simp_all

definition DS4_BITS :: "(u32 \<times> nat) list" where
  "DS4_BITS = [(btn_X, 4), (btn_A, 5), (btn_B, 6), (btn_Y, 7), (btn_LB, 8), (btn_RB, 9), (btn_BACK, 12), (btn_START, 13),
     (btn_L3, 14), (btn_R3, 15)]"

lemma xinput_faithful:
  "list_all (\<lambda>(our, x). (xinput_buttons st AND x \<noteq> 0) = is_pressed st our) XINPUT_MAP" "\<not> bit (xinput_buttons st) 11"
proof -
  have bit: "bit (xinput_buttons st) k \<longleftrightarrow> list_ex (\<lambda>(our, x). is_pressed st our \<and> bit x k) XINPUT_MAP" for k
    by (simp add: xinput_buttons_def xinput_fold_bit)
  have and_bit: "xinput_buttons st AND 0x0001 \<noteq> 0 \<longleftrightarrow> bit (xinput_buttons st) 0"
    "xinput_buttons st AND 0x0002 \<noteq> 0 \<longleftrightarrow> bit (xinput_buttons st) 1" "xinput_buttons st AND 0x0004 \<noteq> 0 \<longleftrightarrow> bit (xinput_buttons st) 2"
    "xinput_buttons st AND 0x0008 \<noteq> 0 \<longleftrightarrow> bit (xinput_buttons st) 3" "xinput_buttons st AND 0x0010 \<noteq> 0 \<longleftrightarrow> bit (xinput_buttons st) 4"
    "xinput_buttons st AND 0x0020 \<noteq> 0 \<longleftrightarrow> bit (xinput_buttons st) 5" "xinput_buttons st AND 0x0040 \<noteq> 0 \<longleftrightarrow> bit (xinput_buttons st) 6"
    "xinput_buttons st AND 0x0080 \<noteq> 0 \<longleftrightarrow> bit (xinput_buttons st) 7" "xinput_buttons st AND 0x0100 \<noteq> 0 \<longleftrightarrow> bit (xinput_buttons st) 8"
    "xinput_buttons st AND 0x0200 \<noteq> 0 \<longleftrightarrow> bit (xinput_buttons st) 9" "xinput_buttons st AND 0x0400 \<noteq> 0 \<longleftrightarrow> bit (xinput_buttons st) 10"
    "xinput_buttons st AND 0x1000 \<noteq> 0 \<longleftrightarrow> bit (xinput_buttons st) 12" "xinput_buttons st AND 0x2000 \<noteq> 0 \<longleftrightarrow> bit (xinput_buttons st) 13"
    "xinput_buttons st AND 0x4000 \<noteq> 0 \<longleftrightarrow> bit (xinput_buttons st) 14" "xinput_buttons st AND 0x8000 \<noteq> 0 \<longleftrightarrow> bit (xinput_buttons st) 15"
    by (rule and_single_bit, simp add: push_bit_of_1)+
  show "list_all (\<lambda>(our, x). (xinput_buttons st AND x \<noteq> 0) = is_pressed st our) XINPUT_MAP"
    by (simp add: XINPUT_MAP_def and_bit) (simp add: bit XINPUT_MAP_def)
  show "\<not> bit (xinput_buttons st) 11" by (simp add: bit XINPUT_MAP_def)
qed

text \<open>
  the host reports carry exactly the client's pad. Every XInput bit of the map is set exactly when
  its button is pressed and the reserved bit is clear; in the DualShock 4 report the face, shoulder and menu bits
  are set exactly when pressed, the trigger bits exactly when the trigger is off zero, the hat is a direction
  exactly when a direction is pressed and no opposite pair is, and the sticks map monotonically onto 0..255 with
  128 at rest, the vertical ones inverted.
\<close>

theorem pad_reports_faithful:
  "list_all (\<lambda>(our, x). (xinput_buttons st AND x \<noteq> 0) = is_pressed st our) XINPUT_MAP \<and> \<not> bit (xinput_buttons st) 11 \<and>
   (case ds4_report_fields st of (b, special, lx, ly, rx, ry) \<Rightarrow>
      list_all (\<lambda>(our, k). bit b k = is_pressed st our) DS4_BITS \<and>
      bit b 10 = (left_trigger st > 0) \<and> bit b 11 = (right_trigger st > 0) \<and> (special = 1) = is_pressed st btn_GUIDE \<and>
      (b AND mask 4 < 8) =
        ((is_pressed st btn_DPAD_UP \<or> is_pressed st btn_DPAD_DOWN \<or> is_pressed st btn_DPAD_LEFT \<or> is_pressed st btn_DPAD_RIGHT) \<and>
         \<not> (is_pressed st btn_DPAD_UP \<and> is_pressed st btn_DPAD_DOWN) \<and>
         \<not> (is_pressed st btn_DPAD_LEFT \<and> is_pressed st btn_DPAD_RIGHT)) \<and>
      uint lx = sint (left_x st) div 256 + 128 \<and> uint ly = min 32767 (- sint (left_y st)) div 256 + 128 \<and>
      uint rx = sint (right_x st) div 256 + 128 \<and> uint ry = min 32767 (- sint (right_y st)) div 256 + 128)"
proof -
  obtain b special lx ly rx ry where f: "ds4_report_fields st = (b, special, lx, ly, rx, ry)" using prod_cases6 by blast
  let ?hat = "ds4_hat (is_pressed st btn_DPAD_UP) (is_pressed st btn_DPAD_DOWN) (is_pressed st btn_DPAD_LEFT) (is_pressed st btn_DPAD_RIGHT)"
  have b: "b = fst (ds4_report_fields st)" by (simp add: f)
  have bits: "bit b k \<longleftrightarrow> bit ?hat k \<or> (is_pressed st btn_X \<and> k = 4) \<or> (is_pressed st btn_A \<and> k = 5) \<or> (is_pressed st btn_B \<and> k = 6) \<or>
      (is_pressed st btn_Y \<and> k = 7) \<or> (is_pressed st btn_LB \<and> k = 8) \<or> (is_pressed st btn_RB \<and> k = 9) \<or> (left_trigger st > 0 \<and> k = 10) \<or>
      (right_trigger st > 0 \<and> k = 11) \<or> (is_pressed st btn_BACK \<and> k = 12) \<or> (is_pressed st btn_START \<and> k = 13) \<or>
      (is_pressed st btn_L3 \<and> k = 14) \<or> (is_pressed st btn_R3 \<and> k = 15)" for k
    unfolding b by (simp add: ds4_report_fields_def Let_def bit_or_iff; blast)
  have hat: "b AND mask 4 = ?hat"
  proof (rule bit_word_eqI)
    fix k assume "k < LENGTH(16)"
    show "bit (b AND mask 4) k \<longleftrightarrow> bit ?hat k"
      using hat_high_bits [of k] by (cases "k < 4") (simp_all add: bit_and_iff bit_mask_iff bits)
  qed
  have high: "list_all (\<lambda>(our, k). bit b k = is_pressed st our) DS4_BITS" "bit b 10 = (left_trigger st > 0)" "bit b 11 = (right_trigger st > 0)"
    by (simp_all add: DS4_BITS_def bits hat_high_bits)
  have rest: "special = (if is_pressed st btn_GUIDE then 1 else 0)" "lx = ds4_stick (left_x st)" "ly = ds4_stick (saturating_neg (left_y st))"
    "rx = ds4_stick (right_x st)" "ry = ds4_stick (saturating_neg (right_y st))"
    using f by (simp_all add: ds4_report_fields_def Let_def)
  show ?thesis
    unfolding f using xinput_faithful [of st] high
    by (simp add: hat ds4_hat_low rest ds4_stick_value sint_saturating_neg)
qed

end
