(* ===== verification/Pulsar_Wire.thy ===== *)
theory Pulsar_Wire
  imports Pulsar_Input
begin

text \<open>
  Data exchanged over a session: the audio layout and policy of \<^verbatim>\<open>audio/settings.rs\<close>, the wire types of
  \<^verbatim>\<open>service/wire.rs\<close> and the message enum of \<^verbatim>\<open>service.rs\<close>. The JSON codec is the external serde crate: where the
  code calls it, the parser is an argument.
\<close>

subsection \<open>Audio layout and policy\<close>

definition SAMPLE_RATE :: nat where "SAMPLE_RATE = 48000"
definition CHANNELS :: nat where "CHANNELS = 2"

datatype channel_layout = Stereo | Surround51 | Surround71

definition ChannelLayout_default :: channel_layout where "ChannelLayout_default = Stereo"

fun channels :: "channel_layout \<Rightarrow> nat" where
  "channels Stereo = 2"
| "channels Surround51 = 6"
| "channels Surround71 = 8"

fun opus_streams :: "channel_layout \<Rightarrow> nat \<times> nat" where
  "opus_streams Stereo = (1, 1)"
| "opus_streams Surround51 = (4, 2)"
| "opus_streams Surround71 = (5, 3)"

definition opus_mapping :: "channel_layout \<Rightarrow> nat list" where
  "opus_mapping l = [0..<channels l]"

fun mapping_family :: "channel_layout \<Rightarrow> nat" where
  "mapping_family Stereo = 0"
| "mapping_family Surround51 = 1"
| "mapping_family Surround71 = 1"

fun ffmpeg_layout :: "channel_layout \<Rightarrow> string" where
  "ffmpeg_layout Stereo = ''stereo''"
| "ffmpeg_layout Surround51 = ''5.1''"
| "ffmpeg_layout Surround71 = ''7.1''"

record audio_settings =
  as_transmit :: bool
  as_mute_host :: bool
  as_layout :: channel_layout

definition AudioSettings_default :: audio_settings where
  "AudioSettings_default = \<lparr>as_transmit = True, as_mute_host = False, as_layout = Stereo\<rparr>"

record audio_policy =
  pol_transmit :: bool
  pol_mute_host :: bool
  pol_layout :: channel_layout

definition AudioSettings_policy :: "audio_settings \<Rightarrow> bool \<Rightarrow> audio_policy" where
  "AudioSettings_policy s game_mode =
     \<lparr>pol_transmit = as_transmit s \<or> game_mode, pol_mute_host = as_mute_host s, pol_layout = as_layout s\<rparr>"

datatype audio_input = Dshow string | Pulse string | AvFoundation u32

datatype os = Windows | MacOs | OtherOs

definition AudioInput_default_for_os :: "os \<Rightarrow> audio_input" where
  "AudioInput_default_for_os t =
     (case t of Windows \<Rightarrow> Dshow ''virtual-audio-capturer'' | MacOs \<Rightarrow> AvFoundation 0
      | OtherOs \<Rightarrow> Pulse ''@DEFAULT_MONITOR@'')"

subsection \<open>Wire types\<close>

record game_info =
  gi_id :: string
  gi_title :: string
  gi_kind :: string
  gi_image :: string

datatype input_event =
    Gamepad gamepad_state
  | GamepadSlot u8 gamepad_kind emulation_target gamepad_state
  | GamepadDisconnect u8
  | PointerMotion rat rat
  | PointerRelative rat rat
  | PointerButton u8 bool
  | Scroll rat rat
  | Key u32 bool
  | CharEv nat

datatype quality_pref = Latency | Balanced | Quality

definition LossRecovery_is_active :: "loss_recovery \<Rightarrow> bool" where
  "LossRecovery_is_active r \<longleftrightarrow> r \<noteq> RecNormal"

record display_info =
  di_idx :: u32
  di_name :: string
  di_width :: u32
  di_height :: u32
  di_primary :: bool
  di_modes :: "(u32 \<times> u32) list"

record stream_caps =
  sc_codecs :: "string list"
  sc_encoders :: "string list"
  sc_features :: "string list"
  sc_displays :: "display_info list"

definition StreamCaps_default :: stream_caps where
  "StreamCaps_default = \<lparr>sc_codecs = [], sc_encoders = [], sc_features = [], sc_displays = []\<rparr>"

record window_info =
  wi_hwnd :: int
  wi_title :: string

record stream_req =
  sr_port :: u16
  sr_codec :: string
  sr_encoder :: string
  sr_width :: u32
  sr_height :: u32
  sr_fps :: u32
  sr_audio_port :: u16
  sr_transmit_audio :: bool
  sr_mute_host :: bool
  sr_game_mode :: bool
  sr_bitrate_kbps :: u32
  sr_quality :: quality_pref
  sr_hdr :: bool
  sr_yuv444 :: bool
  sr_decode_codecs :: "string list"
  sr_media_over_session :: bool
  sr_cursor_external :: bool
  sr_display_idx :: u32
  sr_window_hwnd :: "int option"
  sr_adapt :: "(u32 \<times> u32) option"
  sr_audio_layout :: channel_layout
  sr_loss_recovery :: loss_recovery
  sr_fec :: bool
  sr_fec_rs :: bool

record client_stats =
  cs_v :: u32
  cs_loss :: rat
  cs_rtt_ms :: rat
  cs_jitter_ms :: rat
  cs_kbps :: u32
  cs_recovery :: loss_recovery
  cs_nack_sent :: u32
  cs_nack_ok :: u32
  cs_fec_ok :: u32
  cs_point :: string

definition CLIENT_STATS_VERSION :: u32 where "CLIENT_STATS_VERSION = 1"

text \<open>\<^verbatim>\<open>trim_start\<close> drops leading white space (here its ASCII part).\<close>

definition is_white :: "char \<Rightarrow> bool" where
  "is_white c \<longleftrightarrow> (of_char c :: nat) = 32 \<or> 9 \<le> (of_char c :: nat) \<and> (of_char c :: nat) \<le> 13"

definition ClientStats_parse :: "(string \<Rightarrow> client_stats option) \<Rightarrow> string \<Rightarrow> client_stats option" where
  "ClientStats_parse from_json payload =
     (case dropWhile is_white payload of
        c # cs \<Rightarrow> if c = CHR ''{'' then from_json (c # cs) else None
      | [] \<Rightarrow> None)"

record fs_entry =
  fe_name :: string
  fe_dir :: bool
  fe_size :: u64
  fe_sentinel :: bool

datatype data_msg =
    Clipboard string
  | Chat string
  | FileBegin u32 string u64 u32
  | FileChunk u32 u32 bytes
  | FileEnd u32
  | Audio bytes
  | AudioEnd
  | Stats string
  | ReverseRequest string
  | DisplayRotation u32
  | MediaNack "u16 list"
  | Avatar bytes
  | FsList string
  | FsEntries string "fs_entry list"
  | FsGet string
  | PeerName string
  | PeerId string
  | CursorPos rat rat
  | CursorShape u32 u32 u32 u32 bytes
  | CursorHidden
  | Rumble u8 u8 u8
  | CursorLabel bool

text \<open>The shadow enum that the JSON deserialiser builds, and the hand-written conversion.\<close>

datatype data_msg_wire =
    WClipboard string
  | WChat string
  | WFileBegin u32 string u64 u32
  | WFileChunk u32 u32 bytes
  | WFileEnd u32
  | WAudio bytes
  | WAudioEnd
  | WStats string
  | WReverseRequest string
  | WDisplayRotation u32
  | WMediaNack "u16 list"
  | WAvatar bytes
  | WFsList string
  | WFsEntries string "fs_entry list"
  | WFsGet string
  | WPeerName string
  | WPeerId string
  | WCursorPos rat rat
  | WCursorShape u32 u32 u32 u32 bytes
  | WCursorHidden
  | WRumble u8 u8 u8
  | WCursorLabel bool

fun DataMsg_from :: "data_msg_wire \<Rightarrow> data_msg" where
  "DataMsg_from (WClipboard s) = Clipboard s"
| "DataMsg_from (WChat s) = Chat s"
| "DataMsg_from (WFileBegin i nm sz chunks) = FileBegin i nm sz chunks"
| "DataMsg_from (WFileChunk i index dat) = FileChunk i index dat"
| "DataMsg_from (WFileEnd i) = FileEnd i"
| "DataMsg_from (WAudio v) = Audio v"
| "DataMsg_from WAudioEnd = AudioEnd"
| "DataMsg_from (WStats s) = Stats s"
| "DataMsg_from (WReverseRequest s) = ReverseRequest s"
| "DataMsg_from (WDisplayRotation n) = DisplayRotation n"
| "DataMsg_from (WMediaNack v) = MediaNack v"
| "DataMsg_from (WAvatar v) = Avatar v"
| "DataMsg_from (WFsList path) = FsList path"
| "DataMsg_from (WFsEntries path entries) = FsEntries path entries"
| "DataMsg_from (WFsGet path) = FsGet path"
| "DataMsg_from (WPeerName s) = PeerName s"
| "DataMsg_from (WPeerId s) = PeerId s"
| "DataMsg_from (WCursorPos x y) = CursorPos x y"
| "DataMsg_from (WCursorShape w h hx hy png) = CursorShape w h hx hy png"
| "DataMsg_from WCursorHidden = CursorHidden"
| "DataMsg_from (WRumble slot large small) = Rumble slot large small"
| "DataMsg_from (WCursorLabel on) = CursorLabel on"

definition is_legacy_file_end :: "string \<Rightarrow> bool" where
  "is_legacy_file_end raw \<longleftrightarrow> raw = [CHR 0x22] @ ''FileEnd'' @ [CHR 0x22]"

definition DataMsg_deserialize :: "(string \<Rightarrow> data_msg_wire option) \<Rightarrow> string \<Rightarrow> data_msg option" where
  "DataMsg_deserialize from_json raw =
     (if is_legacy_file_end raw then Some (FileEnd 0) else map_option DataMsg_from (from_json raw))"

subsection \<open>Properties\<close>

lemma opus_streams_consistent:
  "channels l = 2 * snd (opus_streams l) + (fst (opus_streams l) - snd (opus_streams l)) \<and> snd (opus_streams l) \<le> fst (opus_streams l) \<and>
   length (opus_mapping l) = channels l \<and> (mapping_family l = 0 \<longleftrightarrow> channels l = CHANNELS)"
  by (cases l) (simp_all add: opus_mapping_def CHANNELS_def)

lemma policy_game_mode:
  "pol_transmit (AudioSettings_policy s True)" "pol_mute_host (AudioSettings_policy s g) = as_mute_host s"
  "pol_layout (AudioSettings_policy s g) = as_layout s"
  by (simp_all add: AudioSettings_policy_def)

text \<open>No variant is lost or confused by the shadow enum.\<close>

lemma DataMsg_from_bij: "bij DataMsg_from"
proof (rule bijI)
  show "inj DataMsg_from"
  proof (rule injI)
    fix a b assume "DataMsg_from a = DataMsg_from b"
    then show "a = b" by (cases a; cases b) simp_all
  qed
  show "surj DataMsg_from"
    by (rule surjI [of _ "\<lambda>m. case m of Clipboard s \<Rightarrow> WClipboard s | Chat s \<Rightarrow> WChat s | FileBegin i nm z c \<Rightarrow> WFileBegin i nm z c
        | FileChunk i x d \<Rightarrow> WFileChunk i x d | FileEnd i \<Rightarrow> WFileEnd i | Audio v \<Rightarrow> WAudio v | AudioEnd \<Rightarrow> WAudioEnd
        | Stats s \<Rightarrow> WStats s | ReverseRequest s \<Rightarrow> WReverseRequest s | DisplayRotation n \<Rightarrow> WDisplayRotation n
        | MediaNack v \<Rightarrow> WMediaNack v | Avatar v \<Rightarrow> WAvatar v | FsList p \<Rightarrow> WFsList p | FsEntries p e \<Rightarrow> WFsEntries p e
        | FsGet p \<Rightarrow> WFsGet p | PeerName s \<Rightarrow> WPeerName s | PeerId s \<Rightarrow> WPeerId s | CursorPos x y \<Rightarrow> WCursorPos x y
        | CursorShape w h x y p \<Rightarrow> WCursorShape w h x y p | CursorHidden \<Rightarrow> WCursorHidden | Rumble s l t \<Rightarrow> WRumble s l t
        | CursorLabel b \<Rightarrow> WCursorLabel b"])
      (simp split: data_msg.split)
qed

end
