(* ===== verification/Pulsar_Auth.thy ===== *)
theory Pulsar_Auth
  imports Pulsar_Wire Pulsar_Connection
begin

text \<open>
  Session authentication: the messages of \<^verbatim>\<open>service.rs\<close>, the PAKE exchange of \<^verbatim>\<open>service/pake.rs\<close> and the access
  handshake of \<^verbatim>\<open>service/auth.rs\<close>. SPAKE2, HMAC and the non-ASCII case tables are fields of the parameter
  \<open>pake_lib\<close>, the JSON codec is a parameter of its own. Strings are lists of Unicode scalar values. A read of the
  session is an element of a list of received frames, where \<open>None\<close> is the end of the session.
\<close>

subsection \<open>Strings\<close>

type_synonym rstr = "nat list"

definition utf8 :: "nat \<Rightarrow> bytes" where
  "utf8 c =
     (if c < 0x80 then [of_nat c]
      else if c < 0x800 then [of_nat (0xC0 + c div 64), of_nat (0x80 + c mod 64)]
      else if c < 0x10000 then [of_nat (0xE0 + c div 4096), of_nat (0x80 + c div 64 mod 64), of_nat (0x80 + c mod 64)]
      else [of_nat (0xF0 + c div 262144), of_nat (0x80 + c div 4096 mod 64), of_nat (0x80 + c div 64 mod 64), of_nat (0x80 + c mod 64)])"

definition as_bytes :: "rstr \<Rightarrow> bytes" where
  "as_bytes s = concat (map utf8 s)"

subsection \<open>PAKE\<close>

record pake_lib =
  unicode_lower :: "nat \<Rightarrow> nat list"
  start_a :: "bytes \<Rightarrow> bytes \<Rightarrow> bytes \<Rightarrow> bytes \<Rightarrow> bytes \<times> bytes"
  start_b :: "bytes \<Rightarrow> bytes \<Rightarrow> bytes \<Rightarrow> bytes \<Rightarrow> bytes \<times> bytes"
  finish :: "bytes \<Rightarrow> bytes \<Rightarrow> bytes option"
  hmac :: "bytes \<Rightarrow> bytes \<Rightarrow> bytes"

definition ID_CLIENT :: bytes where "ID_CLIENT = ascii ''pulsar-auth-client''"
definition ID_HOST :: bytes where "ID_HOST = ascii ''pulsar-auth-host''"
definition SLOT_OTP :: u8 where "SLOT_OTP = 0"
definition SLOT_FIXED :: u8 where "SLOT_FIXED = 1"

definition to_lowercase :: "pake_lib \<Rightarrow> nat \<Rightarrow> nat list" where
  "to_lowercase lib c = (if 65 \<le> c \<and> c \<le> 90 then [c + 32] else if c < 128 then [c] else unicode_lower lib c)"

definition norm_otp :: "pake_lib \<Rightarrow> rstr \<Rightarrow> rstr" where
  "norm_otp lib s = concat (map (to_lowercase lib) (filter (\<lambda>c. c \<noteq> 45) s))"

record offer =
  of_otp :: bytes
  of_fixed :: bytes

record reply_slot =
  rs_slot :: u8
  rs_msg :: bytes
  rs_mac :: bytes

record reply =
  re_slots :: "reply_slot list"

record confirm =
  cf_slot :: "u8 option"
  cf_mac :: bytes

datatype credential = OneTime | Fixed | NoCredential

record client_pending =
  cp_otp :: "bytes option"
  cp_fixed :: "bytes option"
  cp_otp_msg :: bytes
  cp_fixed_msg :: bytes

definition mac_input :: "bytes \<Rightarrow> u8 \<Rightarrow> bytes \<Rightarrow> bytes \<Rightarrow> bytes \<Rightarrow> bytes" where
  "mac_input side slot bnd a b =
     ascii ''pulsar-pake-v1'' @ side @ [slot] @ bnd @ to_be_bytes32 (of_nat (length a)) @ a @ to_be_bytes32 (of_nat (length b)) @ b"

definition pake_mac :: "pake_lib \<Rightarrow> bytes \<Rightarrow> bytes \<Rightarrow> u8 \<Rightarrow> bytes \<Rightarrow> bytes \<Rightarrow> bytes \<Rightarrow> bytes" where
  "pake_mac lib key side slot bnd a b = hmac lib key (mac_input side slot bnd a b)"

text \<open>The randomness of the two SPAKE2 starts is an argument.\<close>

definition client_begin :: "pake_lib \<Rightarrow> bytes \<times> bytes \<Rightarrow> rstr \<Rightarrow> client_pending \<times> offer" where
  "client_begin lib rnd password =
     (let (otp, otp_msg) = start_a lib (as_bytes (norm_otp lib password)) ID_CLIENT ID_HOST (fst rnd);
          (fixed, fixed_msg) = start_a lib (as_bytes password) ID_CLIENT ID_HOST (snd rnd)
      in (\<lparr>cp_otp = Some otp, cp_fixed = Some fixed, cp_otp_msg = otp_msg, cp_fixed_msg = fixed_msg\<rparr>,
          \<lparr>of_otp = otp_msg, of_fixed = fixed_msg\<rparr>))"

text \<open>Taking the pending state of a reply slot: \<open>None\<close> for an unknown slot or a state already taken.\<close>

definition take_state :: "client_pending \<Rightarrow> u8 \<Rightarrow> (bytes \<times> bytes) option \<times> client_pending" where
  "take_state p slot =
     (if slot = SLOT_OTP then (map_option (\<lambda>st. (st, cp_otp_msg p)) (cp_otp p), p\<lparr>cp_otp := None\<rparr>)
      else if slot = SLOT_FIXED then (map_option (\<lambda>st. (st, cp_fixed_msg p)) (cp_fixed p), p\<lparr>cp_fixed := None\<rparr>)
      else (None, p))"

fun client_confirm :: "pake_lib \<Rightarrow> client_pending \<Rightarrow> reply_slot list \<Rightarrow> bytes \<Rightarrow> confirm" where
  "client_confirm lib p [] bnd = \<lparr>cf_slot = None, cf_mac = []\<rparr>"
| "client_confirm lib p (s # ss) bnd =
     (case take_state p (rs_slot s) of
        (None, p) \<Rightarrow> client_confirm lib p ss bnd
      | (Some (st, a_msg), p) \<Rightarrow>
          (case finish lib st (rs_msg s) of
             None \<Rightarrow> client_confirm lib p ss bnd
           | Some key \<Rightarrow>
               if pake_mac lib key (ascii ''host'') (rs_slot s) bnd a_msg (rs_msg s) \<noteq> rs_mac s then client_confirm lib p ss bnd
               else \<lparr>cf_slot = Some (rs_slot s), cf_mac = pake_mac lib key (ascii ''client'') (rs_slot s) bnd a_msg (rs_msg s)\<rparr>))"

type_synonym host_keys = "(u8 \<times> bytes \<times> bytes \<times> bytes) list"

fun host_slots :: "pake_lib \<Rightarrow> bytes \<Rightarrow> (u8 \<times> bytes \<times> bytes \<times> bytes) list \<Rightarrow> reply_slot list \<times> host_keys" where
  "host_slots lib bnd [] = ([], [])"
| "host_slots lib bnd ((slot, pw, a_msg, rnd) # rest) =
     (let (slots, keys) = host_slots lib bnd rest in
      if pw = [] then (slots, keys)
      else
        let (st, b_msg) = start_b lib pw ID_CLIENT ID_HOST rnd in
        case finish lib st a_msg of
          None \<Rightarrow> (slots, keys)
        | Some key \<Rightarrow>
            (\<lparr>rs_slot = slot, rs_msg = b_msg, rs_mac = pake_mac lib key (ascii ''host'') slot bnd a_msg b_msg\<rparr> # slots,
             (slot, key, a_msg, b_msg) # keys))"

definition host_reply :: "pake_lib \<Rightarrow> bytes \<times> bytes \<Rightarrow> offer \<Rightarrow> rstr \<Rightarrow> rstr \<Rightarrow> bytes \<Rightarrow> reply \<times> host_keys" where
  "host_reply lib rnd off otp fixed bnd =
     (let (slots, keys) = host_slots lib bnd
        [(SLOT_OTP, as_bytes (norm_otp lib otp), of_otp off, fst rnd), (SLOT_FIXED, as_bytes fixed, of_fixed off, snd rnd)]
      in (\<lparr>re_slots = slots\<rparr>, keys))"

definition host_check :: "pake_lib \<Rightarrow> host_keys \<Rightarrow> confirm \<Rightarrow> bytes \<Rightarrow> credential" where
  "host_check lib keys c bnd =
     (case cf_slot c of
        None \<Rightarrow> NoCredential
      | Some slot \<Rightarrow>
          (case find (\<lambda>k. fst k = slot) keys of
             None \<Rightarrow> NoCredential
           | Some (_, key, a, b) \<Rightarrow>
               if pake_mac lib key (ascii ''client'') slot bnd a b \<noteq> cf_mac c then NoCredential
               else if slot = SLOT_OTP then OneTime else Fixed))"

definition secret_eq :: "bytes \<Rightarrow> bytes \<Rightarrow> bool" where
  "secret_eq a b = (if length a \<noteq> length b then False else foldl (\<lambda>acc (x, y). acc OR (x XOR y)) 0 (zip a b) = 0)"

subsection \<open>Service messages\<close>

datatype msg =
    Auth rstr
  | NeedPassword
  | Denied
  | ListGames
  | Games "game_info list"
  | Launch string
  | StartStream stream_req
  | MsgInput input_event
  | MsgData data_msg
  | Ping
  | Pong
  | Bye
  | MsgOk
  | QueryStreamCaps
  | MsgStreamCaps stream_caps
  | QueryWindows
  | MsgWindows "window_info list"
  | AuthPake offer
  | AuthPakeReply reply
  | AuthPakeConfirm confirm

definition MAX_WAIT_MSGS :: nat where "MAX_WAIT_MSGS = 16"

text \<open>
  \<^verbatim>\<open>gen_password\<close>: eight draws from the alphabet, a dash after the fourth. The draws are an argument.
\<close>

definition PASSWORD_ALPHABET :: string where "PASSWORD_ALPHABET = ''abcdefghjkmnpqrstuvwxyz23456789''"

definition gen_password :: "(nat \<Rightarrow> nat) \<Rightarrow> string" where
  "gen_password draw = concat (map (\<lambda>i. (if i = 4 then ''-'' else []) @
     [PASSWORD_ALPHABET ! (draw i mod length PASSWORD_ALPHABET)]) [0..<8])"

text \<open>What the service functions use of a session: its binding, the peer's capability, the outcome of a send and the codec.\<close>

record svc =
  svc_binding :: "bytes option"
  svc_pake :: bool
  svc_send :: "msg \<Rightarrow> conn_error option"
  svc_dec :: "bytes \<Rightarrow> msg option"

text \<open>Client state kept on the session, and the result of an operation that sends.\<close>

definition client_start :: "pake_lib \<Rightarrow> bytes \<times> bytes \<Rightarrow> rstr \<Rightarrow> client_pending \<times> msg" where
  "client_start lib rnd password = (case client_begin lib rnd password of (p, off) \<Rightarrow> (p, AuthPake off))"

definition client_on_reply :: "pake_lib \<Rightarrow> svc \<Rightarrow> reply \<Rightarrow> client_pending option \<Rightarrow>
    conn_error option \<times> msg list \<times> client_pending option" where
  "client_on_reply lib s rep pending =
     (case pending of
        None \<Rightarrow> (None, [], None)
      | Some p \<Rightarrow>
          (case svc_binding s of
             None \<Rightarrow> (Some SessionClosed, [], None)
           | Some bnd \<Rightarrow>
               let m = AuthPakeConfirm (client_confirm lib p (re_slots rep) bnd) in (svc_send s m, [m], None)))"

text \<open>The wait for a confirmation: at most \<open>MAX_WAIT_MSGS\<close> messages; the frames end when the deadline passes.\<close>

fun wait_confirm :: "svc \<Rightarrow> nat \<Rightarrow> bytes option list \<Rightarrow> confirm option \<times> bytes option list" where
  "wait_confirm s 0 fs = (None, fs)"
| "wait_confirm s (Suc n) [] = (None, [])"
| "wait_confirm s (Suc n) (f # fs) =
     (case Option.bind f (svc_dec s) of
        Some (AuthPakeConfirm c) \<Rightarrow> (Some c, fs)
      | Some _ \<Rightarrow> wait_confirm s n fs
      | None \<Rightarrow> (None, fs))"

definition host_verify :: "pake_lib \<Rightarrow> svc \<Rightarrow> bytes \<times> bytes \<Rightarrow> offer \<Rightarrow> rstr \<Rightarrow> rstr \<Rightarrow> bytes option list \<Rightarrow>
    credential \<times> msg list \<times> bytes option list" where
  "host_verify lib s rnd off otp fixed fs =
     (case svc_binding s of
        None \<Rightarrow> (NoCredential, [], fs)
      | Some bnd \<Rightarrow>
          let (rep, keys) = host_reply lib rnd off otp fixed bnd; m = AuthPakeReply rep in
          if svc_send s m \<noteq> None then (NoCredential, [m], fs)
          else
            case wait_confirm s MAX_WAIT_MSGS fs of
              (Some c, fs) \<Rightarrow> (host_check lib keys c bnd, [m], fs)
            | (None, fs) \<Rightarrow> (NoCredential, [m], fs))"

subsection \<open>The access handshake\<close>

datatype auth_outcome = Accepted | OutDenied | OutNeedPassword

definition send_attempt :: "pake_lib \<Rightarrow> svc \<Rightarrow> bytes \<times> bytes \<Rightarrow> rstr \<Rightarrow> client_pending option \<Rightarrow>
    conn_error option \<times> msg list \<times> client_pending option" where
  "send_attempt lib s rnd password pending =
     (if password = [] then (svc_send s (Auth []), [Auth []], None)
      else if \<not> svc_pake s then (Some PeerOutdated, [], pending)
      else (case client_start lib rnd password of (p, m) \<Rightarrow> (svc_send s m, [m], Some p)))"

text \<open>The reply loop of \<^verbatim>\<open>authenticate\<close>; \<open>None\<close> when the frames run out before a verdict: it is still waiting.\<close>

fun authenticate_loop :: "pake_lib \<Rightarrow> svc \<Rightarrow> client_pending option \<Rightarrow> bytes option list \<Rightarrow>
    (conn_error + auth_outcome) option \<times> msg list" where
  "authenticate_loop lib s pending [] = (None, [])"
| "authenticate_loop lib s pending (None # fs) = (Some (Inr OutDenied), [])"
| "authenticate_loop lib s pending (Some b # fs) =
     (case svc_dec s b of
        Some MsgOk \<Rightarrow> (Some (Inr Accepted), [])
      | Some Denied \<Rightarrow> (Some (Inr OutDenied), [])
      | Some NeedPassword \<Rightarrow> (Some (Inr OutNeedPassword), [])
      | Some (AuthPakeReply r) \<Rightarrow>
          (case client_on_reply lib s r pending of
             (Some e, ms, _) \<Rightarrow> (Some (Inl e), ms)
           | (None, ms, pending) \<Rightarrow> (case authenticate_loop lib s pending fs of (res, ms') \<Rightarrow> (res, ms @ ms')))
      | _ \<Rightarrow> authenticate_loop lib s pending fs)"

definition authenticate :: "pake_lib \<Rightarrow> svc \<Rightarrow> bytes \<times> bytes \<Rightarrow> rstr \<Rightarrow> client_pending option \<Rightarrow> bytes option list \<Rightarrow>
    (conn_error + auth_outcome) option \<times> msg list" where
  "authenticate lib s rnd password pending fs =
     (case send_attempt lib s rnd password pending of
        (Some e, ms, _) \<Rightarrow> (Some (Inl e), ms)
      | (None, ms, pending) \<Rightarrow> (case authenticate_loop lib s pending fs of (res, ms') \<Rightarrow> (res, ms @ ms')))"

datatype auth_attempt = Legacy rstr | Pake offer

definition AuthAttempt_is_empty :: "auth_attempt \<Rightarrow> bool" where
  "AuthAttempt_is_empty a = (case a of Legacy p \<Rightarrow> p = [] | Pake _ \<Rightarrow> False)"

definition legacy_verify :: "pake_lib \<Rightarrow> rstr \<Rightarrow> rstr \<Rightarrow> rstr \<Rightarrow> credential" where
  "legacy_verify lib pw otp fixed =
     (if pw = [] then NoCredential
      else if otp \<noteq> [] \<and> secret_eq (as_bytes (norm_otp lib pw)) (as_bytes (norm_otp lib otp)) then OneTime
      else if fixed \<noteq> [] \<and> secret_eq (as_bytes pw) (as_bytes fixed) then Fixed
      else NoCredential)"

definition AuthAttempt_verify :: "pake_lib \<Rightarrow> svc \<Rightarrow> bytes \<times> bytes \<Rightarrow> auth_attempt \<Rightarrow> rstr \<Rightarrow> rstr \<Rightarrow> bytes option list \<Rightarrow>
    credential \<times> msg list \<times> bytes option list" where
  "AuthAttempt_verify lib s rnd a otp fixed fs =
     (case a of
        Legacy pw \<Rightarrow> (legacy_verify lib pw otp fixed, [], fs)
      | Pake off \<Rightarrow> host_verify lib s rnd off otp fixed fs)"

fun as_attempt :: "msg \<Rightarrow> auth_attempt option" where
  "as_attempt (Auth pw) = Some (Legacy pw)"
| "as_attempt (AuthPake off) = Some (Pake off)"
| "as_attempt _ = None"

definition recv_auth :: "svc \<Rightarrow> bytes option \<Rightarrow> auth_attempt option" where
  "recv_auth s f = Option.bind (Option.bind f (svc_dec s)) as_attempt"

datatype client_auth = Attempt auth_attempt | Keepalive | ClientGone

definition recv_client_auth :: "svc \<Rightarrow> bytes option \<Rightarrow> client_auth" where
  "recv_client_auth s f =
     (case Option.bind f (svc_dec s) of
        Some m \<Rightarrow> (case as_attempt m of Some a \<Rightarrow> Attempt a | None \<Rightarrow> Keepalive)
      | None \<Rightarrow> ClientGone)"

datatype host_auth = HostOk | HostDenied | HostNeedPassword | HostGone | HostOther

fun recv_host_auth :: "pake_lib \<Rightarrow> svc \<Rightarrow> client_pending option \<Rightarrow> bytes option list \<Rightarrow> host_auth option \<times> msg list" where
  "recv_host_auth lib s pending [] = (None, [])"
| "recv_host_auth lib s pending (f # fs) =
     (case Option.bind f (svc_dec s) of
        Some MsgOk \<Rightarrow> (Some HostOk, [])
      | Some Denied \<Rightarrow> (Some HostDenied, [])
      | Some NeedPassword \<Rightarrow> (Some HostNeedPassword, [])
      | Some (AuthPakeReply r) \<Rightarrow>
          (case client_on_reply lib s r pending of
             (Some _, ms, _) \<Rightarrow> (Some HostGone, ms)
           | (None, ms, pending) \<Rightarrow> (case recv_host_auth lib s pending fs of (res, ms') \<Rightarrow> (res, ms @ ms')))
      | None \<Rightarrow> (Some HostGone, [])
      | _ \<Rightarrow> (Some HostOther, []))"

subsection \<open>Constant-time comparison\<close>

lemma fold_or_zero: "foldl (\<lambda>acc (x, y). acc OR (x XOR y)) (acc :: u8) ps = 0 \<longleftrightarrow> acc = 0 \<and> list_all (\<lambda>(x, y). x = y) ps"
proof (induction ps arbitrary: acc)
  case (Cons p ps)
  obtain x y where p: "p = (x, y)" by fastforce
  have "x XOR y = 0 \<longleftrightarrow> x = y" by (auto simp: bit_eq_iff bit_simps)
  then show ?case by (simp add: p Cons.IH or_eq_0_iff conj_ac)
qed simp

lemma secret_eq_iff: "secret_eq a b \<longleftrightarrow> a = b"
proof (cases "length a = length b")
  case True
  have "list_all (\<lambda>(x, y). x = y) (zip a b) \<longleftrightarrow> a = b"
    using True by (induction a b rule: list_induct2) auto
  with True show ?thesis by (simp add: secret_eq_def fold_or_zero)
qed (auto simp: secret_eq_def)

subsection \<open>What the exchange relies on\<close>

text \<open>
  SPAKE2 gives both sides one key when they use the same password and different keys when they do not; HMAC is
  idealised as collision free.
\<close>

definition spake_agrees :: "pake_lib \<Rightarrow> bool" where
  "spake_agrees lib \<longleftrightarrow> (\<forall>pw ia ib ra rb. \<exists>k. finish lib (fst (start_a lib pw ia ib ra)) (snd (start_b lib pw ia ib rb)) = Some k \<and>
     finish lib (fst (start_b lib pw ia ib rb)) (snd (start_a lib pw ia ib ra)) = Some k)"

definition spake_separates :: "pake_lib \<Rightarrow> bool" where
  "spake_separates lib \<longleftrightarrow> (\<forall>pw pw' ia ib ra rb k k'. pw \<noteq> pw' \<longrightarrow>
     finish lib (fst (start_a lib pw ia ib ra)) (snd (start_b lib pw' ia ib rb)) = Some k \<longrightarrow>
     finish lib (fst (start_b lib pw' ia ib rb)) (snd (start_a lib pw ia ib ra)) = Some k' \<longrightarrow> k \<noteq> k')"

definition hmac_collision_free :: "pake_lib \<Rightarrow> bool" where
  "hmac_collision_free lib \<longleftrightarrow> (\<forall>k x k' x'. hmac lib k x = hmac lib k' x' \<longrightarrow> k = k' \<and> x = x')"

lemma hmac_inj: "hmac_collision_free lib \<Longrightarrow> hmac lib k x = hmac lib k' x' \<Longrightarrow> k = k' \<and> x = x'"
  unfolding hmac_collision_free_def by blast

lemma mac_input_binding:
  assumes "mac_input side slot bnd a b = mac_input side slot' bnd' a' b'" "length bnd = length bnd'"
  shows "slot = slot' \<and> bnd = bnd'"
  using assms by (auto simp: mac_input_def)

lemma pake_mac_binding:
  assumes "hmac_collision_free lib" "pake_mac lib key side slot bnd a b = pake_mac lib key' side slot' bnd' a' b'"
    and "length bnd = length bnd'"
  shows "key = key' \<and> bnd = bnd'"
  using hmac_inj [OF assms(1) assms(2) [unfolded pake_mac_def]] mac_input_binding [OF _ assms(3)] by blast

text \<open>A confirmation names a slot only with a MAC over the client's own channel.\<close>

lemma client_confirm_mac:
  "cf_slot (client_confirm lib p ss bnd) = Some slot \<Longrightarrow>
    \<exists>key a b. cf_mac (client_confirm lib p ss bnd) = pake_mac lib key (ascii ''client'') slot bnd a b"
proof (induction lib p ss bnd rule: client_confirm.induct)
  case (2 lib p s ss bnd)
  then show ?case by (auto split: prod.splits option.splits if_splits)
qed simp

lemma host_check_mac:
  assumes "host_check lib keys c bnd \<noteq> NoCredential"
  shows "\<exists>slot key a b. cf_slot c = Some slot \<and> cf_mac c = pake_mac lib key (ascii ''client'') slot bnd a b"
proof -
  obtain slot where slot: "cf_slot c = Some slot" using assms by (auto simp: host_check_def split: option.splits)
  obtain s key a b where f: "find (\<lambda>k. fst k = slot) keys = Some (s, key, a, b)"
    using assms slot by (auto simp: host_check_def split: option.splits)
  have "cf_mac c = pake_mac lib key (ascii ''client'') slot bnd a b"
    using assms by (auto simp: host_check_def slot f split: if_splits)
  with slot show ?thesis by blast
qed

text \<open>
  C7: a man in the middle cannot relay the password proof. A confirmation that an honest client
  computes on its own channel, whatever reply it was sent, is never accepted by a host whose channel binding
  differs, whatever offer that host was sent and whatever credentials it has.
\<close>

theorem pake_bound_to_channel:
  assumes "hmac_collision_free lib" "length client_bnd = 32" "length host_bnd = 32" "client_bnd \<noteq> host_bnd"
  shows "host_check lib (snd (host_reply lib rnd off otp fixed host_bnd)) (client_confirm lib p slots client_bnd) host_bnd = NoCredential"
proof (rule ccontr)
  let ?c = "client_confirm lib p slots client_bnd"
  assume "\<not> ?thesis"
  from host_check_mac [OF this] obtain slot key a b where
    h: "cf_slot ?c = Some slot" "cf_mac ?c = pake_mac lib key (ascii ''client'') slot host_bnd a b" by blast
  from client_confirm_mac [OF h(1)] obtain key' a' b' where
    "cf_mac ?c = pake_mac lib key' (ascii ''client'') slot client_bnd a' b'" by blast
  with h(2) have "host_bnd = client_bnd"
    using pake_mac_binding [OF assms(1), of key "ascii ''client''" slot host_bnd a b key' slot client_bnd a' b'] assms(2,3) by simp
  with assms(4) show False by simp
qed

text \<open>A concrete instance: the key is the pair of passwords, MACs are length-prefixed concatenations.\<close>

definition toy_pake :: pake_lib where
  "toy_pake = \<lparr>unicode_lower = (\<lambda>c. [c]), start_a = (\<lambda>pw ia ib r. (pw, pw)), start_b = (\<lambda>pw ia ib r. (pw, pw)),
     finish = (\<lambda>st m. Some (replicate (length st) 1 @ [0] @ st @ m)), hmac = (\<lambda>k x. replicate (length k) 1 @ [0] @ k @ x)\<rparr>"

lemma prefixed_inj: "replicate (length k) 1 @ [0] @ k @ x = replicate (length k') 1 @ [0] @ k' @ (x' :: bytes) \<Longrightarrow> k = k' \<and> x = x'"
proof -
  assume eq: "replicate (length k) 1 @ [0] @ k @ x = replicate (length k') 1 @ [0] @ k' @ x'"
  have len: "length (takeWhile (\<lambda>b. b = 1) (replicate n 1 @ [0] @ ys)) = n" for n and ys :: bytes
    by (simp add: takeWhile_append)
  have "length k = length k'" using arg_cong [OF eq, of "\<lambda>l. length (takeWhile (\<lambda>b. b = 1) l)"] unfolding len .
  with eq show ?thesis by simp
qed

lemma toy_pake_laws: "spake_agrees toy_pake" "spake_separates toy_pake" "hmac_collision_free toy_pake"
proof -
  show "spake_agrees toy_pake" by (simp add: spake_agrees_def toy_pake_def)
  show "hmac_collision_free toy_pake"
    unfolding hmac_collision_free_def toy_pake_def by (auto dest: prefixed_inj simp del: append.simps)
  show "spake_separates toy_pake"
    unfolding spake_separates_def toy_pake_def by (auto dest: prefixed_inj simp del: append.simps)
qed

theorem pake_bound_to_channel_witness:
  "host_check toy_pake (snd (host_reply toy_pake ([], []) (snd (client_begin toy_pake ([], []) [97])) [97] [] (replicate 32 2)))
     (client_confirm toy_pake (fst (client_begin toy_pake ([], []) [97]))
        (re_slots (fst (host_reply toy_pake ([], []) (snd (client_begin toy_pake ([], []) [97])) [97] [] (replicate 32 1)))) (replicate 32 1))
     (replicate 32 2) = NoCredential"
  by (rule pake_bound_to_channel [OF toy_pake_laws(3)]) simp_all

subsection \<open>The verdict of a whole exchange\<close>

text \<open>What the host should conclude from a typed password.\<close>

definition verdict :: "pake_lib \<Rightarrow> rstr \<Rightarrow> rstr \<Rightarrow> rstr \<Rightarrow> credential" where
  "verdict lib pw otp fixed =
     (if as_bytes (norm_otp lib otp) \<noteq> [] \<and> as_bytes (norm_otp lib pw) = as_bytes (norm_otp lib otp) then OneTime
      else if as_bytes fixed \<noteq> [] \<and> as_bytes pw = as_bytes fixed then Fixed
      else NoCredential)"

text \<open>One slot: the host MAC verifies at the client exactly when both used the same password.\<close>

lemma slot_mac_iff:
  assumes "spake_agrees lib" "spake_separates lib" "hmac_collision_free lib"
    and "start_a lib pw ia ib ra = (sa, am)" "start_b lib pw' ia ib rb = (sb, bm)"
    and "finish lib sa bm = Some k" "finish lib sb am = Some k'"
  shows "pake_mac lib k side slot bnd am bm = pake_mac lib k' side slot bnd am bm \<longleftrightarrow> pw = pw'"
proof
  assume "pake_mac lib k side slot bnd am bm = pake_mac lib k' side slot bnd am bm"
  then have "k = k'" unfolding pake_mac_def using hmac_inj [OF assms(3)] by blast
  then show "pw = pw'" using assms(2,4-7) unfolding spake_separates_def by (metis fst_conv snd_conv)
next
  assume "pw = pw'"
  then have "k = k'" using assms(1,4-7) unfolding spake_agrees_def by (metis fst_conv option.inject snd_conv)
  then show "pake_mac lib k side slot bnd am bm = pake_mac lib k' side slot bnd am bm" by simp
qed

lemma same_password_finishes:
  assumes "spake_agrees lib" "start_a lib pw ia ib ra = (sa, am)" "start_b lib pw ia ib rb = (sb, bm)"
  shows "\<exists>k. finish lib sa bm = Some k \<and> finish lib sb am = Some k"
  using assms unfolding spake_agrees_def by (metis fst_conv snd_conv)

lemma exchange_verdict:
  assumes "spake_agrees lib" "spake_separates lib" "hmac_collision_free lib"
    and "client_begin lib rc pw = (p, off)" "host_reply lib rh off otp fixed bnd = (rep, keys)"
  shows "host_check lib keys (client_confirm lib p (re_slots rep) bnd) bnd = verdict lib pw otp fixed"
proof -
  let ?o = "as_bytes (norm_otp lib otp)" and ?f = "as_bytes fixed" and ?po = "as_bytes (norm_otp lib pw)" and ?pf = "as_bytes pw"
  obtain so ao where a0: "start_a lib ?po ID_CLIENT ID_HOST (fst rc) = (so, ao)" by fastforce
  obtain sf af where a1: "start_a lib ?pf ID_CLIENT ID_HOST (snd rc) = (sf, af)" by fastforce
  obtain ho bo where b0: "start_b lib ?o ID_CLIENT ID_HOST (fst rh) = (ho, bo)" by fastforce
  obtain hf bf where b1: "start_b lib ?f ID_CLIENT ID_HOST (snd rh) = (hf, bf)" by fastforce
  have p: "p = \<lparr>cp_otp = Some so, cp_fixed = Some sf, cp_otp_msg = ao, cp_fixed_msg = af\<rparr>" "off = \<lparr>of_otp = ao, of_fixed = af\<rparr>"
    using assms(4) by (simp_all add: client_begin_def a0 a1)
  note iff0 = slot_mac_iff [OF assms(1-3) a0 b0] and iff1 = slot_mac_iff [OF assms(1-3) a1 b1]
  have same0: "?po = ?o \<Longrightarrow> \<exists>k. finish lib so bo = Some k \<and> finish lib ho ao = Some k"
    using same_password_finishes [OF assms(1) a0] b0 by auto
  have same1: "?pf = ?f \<Longrightarrow> \<exists>k. finish lib sf bf = Some k \<and> finish lib hf af = Some k"
    using same_password_finishes [OF assms(1) a1] b1 by auto
  note defs = host_reply_def host_check_def take_state_def verdict_def SLOT_OTP_def SLOT_FIXED_def p b0 b1 Let_def
  show ?thesis
    using assms(5) iff0 iff1 same0 same1
    by (cases "finish lib so bo"; cases "finish lib ho ao"; cases "finish lib sf bf"; cases "finish lib hf af"; cases "?o = []"; cases "?f = []")
      (auto simp: defs)
qed

text \<open>Frames the host skips while it waits for the confirmation.\<close>

definition is_noise :: "svc \<Rightarrow> bytes option \<Rightarrow> bool" where
  "is_noise s f = (case Option.bind f (svc_dec s) of None \<Rightarrow> False | Some (AuthPakeConfirm _) \<Rightarrow> False | Some _ \<Rightarrow> True)"

lemma wait_confirm_noise:
  assumes "list_all (is_noise s) ks" "length ks < n" "svc_dec s b = Some (AuthPakeConfirm c)"
  shows "wait_confirm s n (ks @ Some b # fs) = (Some c, fs)"
  using assms
proof (induction ks arbitrary: n)
  case Nil
  then show ?case by (cases n) simp_all
next
  case (Cons k ks)
  then show ?case by (cases n) (auto simp: is_noise_def split: option.splits msg.splits)
qed

text \<open>
  C12: the PAKE exchange proves exactly the typed password. Client and host on one channel, with the
  reply and the confirmation delivered (behind fewer than sixteen other messages): the host reports the one-time
  password if the typed text normalises to the live one, else the fixed password if it is typed exactly, else
  nothing. A non-empty plaintext attempt of an old client gets the same verdict, provided the live code is unset
  or does not normalise to nothing.
\<close>

theorem pake_exchange_verdict:
  assumes "spake_agrees lib" "spake_separates lib" "hmac_collision_free lib"
    and "svc_binding sC = Some bnd" "svc_binding sH = Some bnd"
    and "send_attempt lib sC rc pw old = (None, [AuthPake off], pending)"
    and "host_reply lib rh off otp fixed bnd = (rep, keys)" "svc_send sH (AuthPakeReply rep) = None"
    and "client_on_reply lib sC rep pending = (None, [cm], None)" "svc_dec sH b = Some cm"
    and "list_all (is_noise sH) ks" "length ks < MAX_WAIT_MSGS"
  shows "host_verify lib sH rh off otp fixed (ks @ Some b # fs) = (verdict lib pw otp fixed, [AuthPakeReply rep], fs) \<and>
    (as_bytes otp = [] \<or> as_bytes (norm_otp lib otp) \<noteq> [] \<longrightarrow> as_bytes pw \<noteq> [] \<longrightarrow>
       fst (AuthAttempt_verify lib sH rh (Legacy pw) otp fixed fs) = verdict lib pw otp fixed)"
proof -
  obtain p where p: "client_begin lib rc pw = (p, off)" "pending = Some p"
    using assms(6) by (auto simp: send_attempt_def client_start_def split: if_splits prod.splits)
  have cm: "cm = AuthPakeConfirm (client_confirm lib p (re_slots rep) bnd)"
    using assms(4,9) p(2) by (simp add: client_on_reply_def Let_def)
  have "wait_confirm sH MAX_WAIT_MSGS (ks @ Some b # fs) = (Some (client_confirm lib p (re_slots rep) bnd), fs)"
    by (rule wait_confirm_noise [OF assms(11,12)]) (simp add: assms(10) cm)
  then have "host_verify lib sH rh off otp fixed (ks @ Some b # fs) = (verdict lib pw otp fixed, [AuthPakeReply rep], fs)"
    using exchange_verdict [OF assms(1-3) p(1) assms(7)] by (simp add: host_verify_def assms(5,7,8))
  moreover have "as_bytes x = [] \<longleftrightarrow> x = []" for x
    by (cases x) (simp_all add: as_bytes_def utf8_def)
  ultimately show ?thesis
    by (auto simp: AuthAttempt_verify_def legacy_verify_def secret_eq_iff verdict_def norm_otp_def)
qed

text \<open>A service end on a fixed channel whose every frame decodes to one message.\<close>

definition demo_svc :: "msg \<Rightarrow> svc" where
  "demo_svc m = \<lparr>svc_binding = Some (replicate 32 1), svc_pake = True, svc_send = (\<lambda>_. None), svc_dec = (\<lambda>_. Some m)\<rparr>"

theorem pake_exchange_verdict_witness:
  "\<exists>m r. fst (host_verify toy_pake (demo_svc m) ([], []) (snd (client_begin toy_pake ([], []) [65, 45, 98])) [97, 98] [] [Some r]) = OneTime"
proof -
  obtain p off where c: "client_begin toy_pake ([], []) [65, 45, 98] = (p, off)" by fastforce
  obtain rep keys where h: "host_reply toy_pake ([], []) off [97, 98] [] (replicate 32 1) = (rep, keys)" by fastforce
  define cm where "cm = AuthPakeConfirm (client_confirm toy_pake p (re_slots rep) (replicate 32 1))"
  have "host_verify toy_pake (demo_svc cm) ([], []) off [97, 98] [] ([] @ Some [] # []) =
      (verdict toy_pake [65, 45, 98] [97, 98] [], [AuthPakeReply rep], [])"
    by (rule pake_exchange_verdict [OF toy_pake_laws, of "demo_svc cm" "replicate 32 1" "demo_svc cm" "([], [])" "[65, 45, 98]" None off
        "Some p", THEN conjunct1])
      (simp_all add: demo_svc_def send_attempt_def client_start_def c h client_on_reply_def cm_def MAX_WAIT_MSGS_def)
  moreover have "verdict toy_pake [65, 45, 98] [97, 98] [] = OneTime"
    by (simp add: verdict_def norm_otp_def to_lowercase_def as_bytes_def utf8_def)
  ultimately show ?thesis using c by (intro exI [of _ cm] exI [of _ "[]"]) simp
qed

end
