(* ===== verification/Pulsar_Serve.thy ===== *)
theory Pulsar_Serve
  imports Pulsar_Auth
begin

text \<open>
  Requests over an authenticated session: the client helpers of \<^verbatim>\<open>service/client.rs\<close> and the host's serve loop of
  \<^verbatim>\<open>service/host.rs\<close>. The host's callbacks are effects in the loop's output, the values it asks its application
  for (games, capabilities, windows, peer address) are fields of \<open>host_env\<close>, and time is a parameter of each
  iteration.
\<close>

subsection \<open>Client requests\<close>

text \<open>A read with a deadline: a frame, the end of the session, or the deadline.\<close>

datatype read = Frame bytes | Closed | TimedOut

fun wait_reply :: "(bytes \<Rightarrow> msg option) \<Rightarrow> (msg \<Rightarrow> 'a option) \<Rightarrow> nat \<Rightarrow> read list \<Rightarrow> 'a option" where
  "wait_reply dec pick (Suc n) (Frame b # rs) =
     (case Option.bind (dec b) pick of Some x \<Rightarrow> Some x | None \<Rightarrow> wait_reply dec pick n rs)"
| "wait_reply dec pick _ _ = None"

definition request_games :: "svc \<Rightarrow> read list \<Rightarrow> conn_error + game_info list" where
  "request_games s rs =
     (case svc_send s ListGames of
        Some e \<Rightarrow> Inl e
      | None \<Rightarrow> (case wait_reply (svc_dec s) (\<lambda>m. case m of Games g \<Rightarrow> Some g | _ \<Rightarrow> None) MAX_WAIT_MSGS rs of
                    Some g \<Rightarrow> Inr g | None \<Rightarrow> Inr []))"

definition query_stream_caps :: "svc \<Rightarrow> read list \<Rightarrow> conn_error + stream_caps" where
  "query_stream_caps s rs =
     (case svc_send s QueryStreamCaps of
        Some e \<Rightarrow> Inl e
      | None \<Rightarrow> (case wait_reply (svc_dec s) (\<lambda>m. case m of MsgStreamCaps c \<Rightarrow> Some c | _ \<Rightarrow> None) MAX_WAIT_MSGS rs of
                    Some c \<Rightarrow> Inr c | None \<Rightarrow> Inr StreamCaps_default))"

definition query_windows :: "svc \<Rightarrow> read list \<Rightarrow> conn_error + window_info list" where
  "query_windows s rs =
     (case svc_send s QueryWindows of
        Some e \<Rightarrow> Inl e
      | None \<Rightarrow> (case wait_reply (svc_dec s) (\<lambda>m. case m of MsgWindows w \<Rightarrow> Some w | _ \<Rightarrow> None) MAX_WAIT_MSGS rs of
                    Some w \<Rightarrow> Inr w | None \<Rightarrow> Inr []))"

definition decode_windows :: "svc \<Rightarrow> bytes \<Rightarrow> window_info list option" where
  "decode_windows s b = (case svc_dec s b of Some (MsgWindows w) \<Rightarrow> Some w | _ \<Rightarrow> None)"

definition decode_data :: "svc \<Rightarrow> bytes \<Rightarrow> data_msg option" where
  "decode_data s b = (case svc_dec s b of Some (MsgData d) \<Rightarrow> Some d | _ \<Rightarrow> None)"

definition is_pong :: "svc \<Rightarrow> bytes \<Rightarrow> bool" where
  "is_pong s b \<longleftrightarrow> svc_dec s b = Some Pong"

definition is_bye :: "svc \<Rightarrow> bytes \<Rightarrow> bool" where
  "is_bye s b \<longleftrightarrow> svc_dec s b = Some Bye"

definition request_launch :: "svc \<Rightarrow> string \<Rightarrow> conn_error option" where
  "request_launch s i = svc_send s (Launch i)"

definition request_stream :: "svc \<Rightarrow> stream_req \<Rightarrow> conn_error option" where
  "request_stream s req = svc_send s (StartStream req)"

definition send_input :: "svc \<Rightarrow> input_event \<Rightarrow> conn_error option" where
  "send_input s ev = svc_send s (MsgInput ev)"

definition send_keepalive :: "svc \<Rightarrow> conn_error option" where
  "send_keepalive s = svc_send s Ping"

definition send_bye :: "svc \<Rightarrow> conn_error option" where
  "send_bye s = svc_send s Bye"

definition send_data :: "svc \<Rightarrow> data_msg \<Rightarrow> conn_error option" where
  "send_data s m = svc_send s (MsgData m)"

subsection \<open>The host's serve loop\<close>

definition PEER_TIMEOUT :: rat where "PEER_TIMEOUT = 6"

record host_env =
  he_games :: "game_info list"
  he_stream_caps :: stream_caps
  he_windows :: "window_info list"
  he_peer_addr :: "sock_addr option"
  he_dec :: "bytes \<Rightarrow> msg option"
  he_stats_json :: "string \<Rightarrow> client_stats option"

definition DataHandlers_default_caps :: stream_caps where
  "DataHandlers_default_caps = \<lparr>sc_codecs = [''h264''], sc_encoders = [''software''], sc_features = [], sc_displays = []\<rparr>"

datatype host_effect =
    SendMsg msg
  | OnLaunch string
  | OnStream stream_req sock_addr
  | OnInput input_event
  | OnClipboard string
  | OnChat string
  | OnFile data_msg
  | OnAudio data_msg
  | OnStats client_stats
  | OnReverse string
  | OnNack "u16 list"
  | OnAvatar bytes
  | OnPeerName string
  | OnPeerId string
  | OnCursorLabel bool
  | OnFs data_msg

fun serve_data :: "host_env \<Rightarrow> data_msg \<Rightarrow> host_effect list" where
  "serve_data e (Clipboard s) = [OnClipboard s]"
| "serve_data e (Chat s) = [OnChat s]"
| "serve_data e (FileBegin i nm sz c) = [OnFile (FileBegin i nm sz c)]"
| "serve_data e (FileChunk i x d) = [OnFile (FileChunk i x d)]"
| "serve_data e (FileEnd i) = [OnFile (FileEnd i)]"
| "serve_data e (Audio v) = [OnAudio (Audio v)]"
| "serve_data e AudioEnd = [OnAudio AudioEnd]"
| "serve_data e (Stats s) = (case ClientStats_parse (he_stats_json e) s of Some cs \<Rightarrow> [OnStats cs] | None \<Rightarrow> [])"
| "serve_data e (DisplayRotation _) = []"
| "serve_data e (ReverseRequest i) = [OnReverse i]"
| "serve_data e (MediaNack seqs) = [OnNack seqs]"
| "serve_data e (Avatar png) = [OnAvatar png]"
| "serve_data e (PeerName nm) = [OnPeerName nm]"
| "serve_data e (PeerId i) = [OnPeerId i]"
| "serve_data e (CursorLabel on) = [OnCursorLabel on]"
| "serve_data e (FsList p) = [OnFs (FsList p)]"
| "serve_data e (FsGet p) = [OnFs (FsGet p)]"
| "serve_data e (FsEntries _ _) = []"
| "serve_data e (CursorPos _ _) = []"
| "serve_data e (CursorShape _ _ _ _ _) = []"
| "serve_data e CursorHidden = []"
| "serve_data e (Rumble _ _ _) = []"

definition start_stream :: "host_env \<Rightarrow> stream_req \<Rightarrow> host_effect list" where
  "start_stream e req = (case he_peer_addr e of Some a \<Rightarrow> [OnStream req a] | None \<Rightarrow> [])"

text \<open>One inbound message: the effects, and whether the loop goes on.\<close>

definition serve_msg :: "host_env \<Rightarrow> msg option \<Rightarrow> host_effect list \<times> bool" where
  "serve_msg e m =
     (case m of
        Some Ping \<Rightarrow> ([SendMsg Pong], True)
      | Some Bye \<Rightarrow> ([], False)
      | Some ListGames \<Rightarrow> ([SendMsg (Games (he_games e))], True)
      | Some QueryStreamCaps \<Rightarrow> ([SendMsg (MsgStreamCaps (he_stream_caps e))], True)
      | Some QueryWindows \<Rightarrow> ([SendMsg (MsgWindows (he_windows e))], True)
      | Some (Launch i) \<Rightarrow> ([OnLaunch i, SendMsg MsgOk], True)
      | Some (StartStream req) \<Rightarrow> (start_stream e req @ [SendMsg MsgOk], True)
      | Some (MsgInput ev) \<Rightarrow> ([OnInput ev], True)
      | Some (MsgData d) \<Rightarrow> (serve_data e d, True)
      | _ \<Rightarrow> ([], True))"

record serve_state =
  outbound_open :: bool
  restream_open :: bool
  last_inbound :: rat

datatype serve_ev = EvIn read | EvOut "data_msg option" | EvRestream "stream_req option"

text \<open>
  One iteration: it starts at \<open>t0\<close>, and the select yields \<open>ev\<close> at \<open>t1\<close>. A side channel that is gone is not
  selected on.
\<close>

definition serve_iter :: "host_env \<Rightarrow> rat \<Rightarrow> rat \<Rightarrow> serve_ev \<Rightarrow> serve_state \<Rightarrow> host_effect list \<times> serve_state option" where
  "serve_iter e t0 t1 ev st =
     (if PEER_TIMEOUT \<le> t0 - last_inbound st then ([], None)
      else case ev of
        EvIn (Frame b) \<Rightarrow>
          (case serve_msg e (he_dec e b) of (effs, go) \<Rightarrow> (effs, if go then Some (st\<lparr>last_inbound := t1\<rparr>) else None))
      | EvIn Closed \<Rightarrow> ([], None)
      | EvIn TimedOut \<Rightarrow> ([], None)
      | EvOut (Some m) \<Rightarrow> (if outbound_open st then [SendMsg (MsgData m)] else [], Some st)
      | EvOut None \<Rightarrow> ([], Some (st\<lparr>outbound_open := False\<rparr>))
      | EvRestream (Some req) \<Rightarrow> (if restream_open st then start_stream e req else [], Some st)
      | EvRestream None \<Rightarrow> ([], Some (st\<lparr>restream_open := False\<rparr>)))"

fun serve_with :: "host_env \<Rightarrow> (rat \<times> rat \<times> serve_ev) list \<Rightarrow> serve_state \<Rightarrow> host_effect list \<times> serve_state option" where
  "serve_with e [] st = ([], Some st)"
| "serve_with e ((t0, t1, ev) # es) st =
     (case serve_iter e t0 t1 ev st of
        (effs, None) \<Rightarrow> (effs, None)
      | (effs, Some st) \<Rightarrow> (case serve_with e es st of (effs', r) \<Rightarrow> (effs @ effs', r)))"

subsection \<open>Properties\<close>

definition inbound :: "serve_ev \<Rightarrow> bool" where
  "inbound ev \<longleftrightarrow> (case ev of EvIn (Frame _) \<Rightarrow> True | _ \<Rightarrow> False)"

lemma iter_keeps_last:
  "serve_iter e t0 t1 ev st = (effs, Some st') \<Longrightarrow> \<not> inbound ev \<Longrightarrow> last_inbound st' = last_inbound st \<and> t0 - last_inbound st < PEER_TIMEOUT"
  by (auto simp: serve_iter_def inbound_def split: if_splits serve_ev.splits read.splits option.splits)

lemma iter_over_time: "PEER_TIMEOUT \<le> t0 - last_inbound st \<Longrightarrow> serve_iter e t0 t1 ev st = ([], None)"
  by (simp add: serve_iter_def)

text \<open>
  C8: a silent client is dropped. Whatever the host streams to it or restarts meanwhile, once the peer
  timeout has passed since the last inbound frame the serve loop ends at its next iteration: a long outbound
  transfer cannot keep a dead client alive. It produces no effect after that point.
\<close>

theorem silent_peer_dropped:
  assumes "list_all (\<lambda>(t0, t1, ev). \<not> inbound ev) es" "PEER_TIMEOUT \<le> t0 - last_inbound st"
  shows "snd (serve_with e (es @ (t0, t1, ev) # rest) st) = None \<and>
    fst (serve_with e (es @ (t0, t1, ev) # rest) st) = fst (serve_with e es st)"
  using assms
proof (induction es arbitrary: st)
  case Nil
  then show ?case by (simp add: iter_over_time)
next
  case (Cons x es)
  obtain u0 u1 u where x: "x = (u0, u1, u)" using prod_cases3 by blast
  obtain effs r where it: "serve_iter e u0 u1 u st = (effs, r)" by fastforce
  show ?case
  proof (cases r)
    case (Some st')
    have "last_inbound st' = last_inbound st" using iter_keeps_last [OF it [unfolded Some]] Cons.prems(1) by (simp add: x)
    then show ?thesis using Cons.IH [of st'] Cons.prems by (simp add: x it Some case_prod_beta)
  qed (simp add: x it)
qed

definition demo_env :: host_env where
  "demo_env = \<lparr>he_games = [], he_stream_caps = DataHandlers_default_caps, he_windows = [], he_peer_addr = None, he_dec = (\<lambda>_. Some Ping),
     he_stats_json = (\<lambda>_. None)\<rparr>"

theorem silent_peer_dropped_witness:
  "serve_with demo_env ([(1, 1, EvOut (Some AudioEnd))] @ (7, 7, EvOut (Some AudioEnd)) # [])
     \<lparr>outbound_open = True, restream_open = False, last_inbound = 0\<rparr> = ([SendMsg (MsgData AudioEnd)], None)"
proof -
  let ?st = "\<lparr>outbound_open = True, restream_open = False, last_inbound = 0\<rparr>" and ?es = "[(1, 1, EvOut (Some AudioEnd))]"
  have "fst (serve_with demo_env ?es ?st) = [SendMsg (MsgData AudioEnd)]"
    by (simp add: serve_iter_def PEER_TIMEOUT_def)
  with silent_peer_dropped [of ?es 7 ?st demo_env 7 "EvOut (Some AudioEnd)" "[]"] show ?thesis
    by (intro prod_eqI) (simp_all add: inbound_def PEER_TIMEOUT_def)
qed

text \<open>A reply behind other messages is found as long as there are fewer than the budget.\<close>

lemma wait_reply_found:
  assumes "list_all (\<lambda>b. Option.bind (dec b) pick = None) bs" "length bs < n" "Option.bind (dec b) pick = Some x"
  shows "wait_reply dec pick n (map Frame bs @ Frame b # rs) = Some x"
  using assms
proof (induction bs arbitrary: n)
  case Nil
  then show ?case by (cases n) simp_all
next
  case (Cons c bs)
  then show ?case by (cases n) simp_all
qed

text \<open>What the host answers to a request frame.\<close>

definition host_answer :: "host_env \<Rightarrow> serve_state \<Rightarrow> bytes \<Rightarrow> msg option" where
  "host_answer e st b = (case fst (serve_iter e (last_inbound st) (last_inbound st) (EvIn (Frame b)) st) of [SendMsg m] \<Rightarrow> Some m | _ \<Rightarrow> None)"

text \<open>
  requests are answered end to end. With one codec on both ends, the host's serve loop answers the
  client's game-list, capability and window requests with exactly one message each, and the client returns
  exactly what the host's application offered, also when up to fifteen unrelated frames arrive first; it returns
  the empty answer when nothing arrives, and never waits for more than sixteen frames.
\<close>

theorem requests_answered:
  assumes "list_all (\<lambda>m. he_dec e (enc m) = Some m) [ListGames, QueryStreamCaps, QueryWindows, Pong, Games (he_games e),
      MsgStreamCaps (he_stream_caps e), MsgWindows (he_windows e)]"
    and "svc_dec s = he_dec e" "list_all (\<lambda>m. svc_send s m = None) [ListGames, QueryStreamCaps, QueryWindows]"
    and "list_all (\<lambda>b. he_dec e b = Some Pong) bs" "length bs < MAX_WAIT_MSGS"
  shows "\<exists>g c w. host_answer e st (enc ListGames) = Some g \<and> host_answer e st (enc QueryStreamCaps) = Some c \<and> host_answer e st (enc QueryWindows) = Some w \<and>
    request_games s (map Frame bs @ Frame (enc g) # rs) = Inr (he_games e) \<and>
    query_stream_caps s (map Frame bs @ Frame (enc c) # rs) = Inr (he_stream_caps e) \<and>
    query_windows s (map Frame bs @ Frame (enc w) # rs) = Inr (he_windows e) \<and>
    request_games s (map Frame bs) = Inr [] \<and> request_games s (map Frame bs @ TimedOut # rs) = Inr [] \<and>
    query_stream_caps s (replicate MAX_WAIT_MSGS (Frame (enc Pong)) @ rs) = Inr StreamCaps_default"
proof -
  note dec = assms(1) [simplified] and send = assms(3) [simplified]
  have "PEER_TIMEOUT \<noteq> 0" "\<not> PEER_TIMEOUT \<le> 0" by (simp_all add: PEER_TIMEOUT_def)
  then have ans: "host_answer e st (enc ListGames) = Some (Games (he_games e))"
    "host_answer e st (enc QueryStreamCaps) = Some (MsgStreamCaps (he_stream_caps e))"
    "host_answer e st (enc QueryWindows) = Some (MsgWindows (he_windows e))"
    by (simp_all add: host_answer_def serve_iter_def serve_msg_def dec)
  have noise: "list_all (\<lambda>b. Option.bind (he_dec e b) pick = None) bs" if "pick Pong = None" for pick :: "msg \<Rightarrow> 'b option"
    using assms(4) that by (auto simp: list_all_iff)
  have stop: "wait_reply (he_dec e) pick n (map Frame bs) = None" "wait_reply (he_dec e) pick n (map Frame bs @ TimedOut # rs) = None"
    if "pick Pong = None" for pick :: "msg \<Rightarrow> 'b option" and n rs
    using assms(4) that by (induction bs arbitrary: n; case_tac n; simp)+
  have budget: "wait_reply (he_dec e) pick n (replicate n (Frame (enc Pong)) @ rs) = None" if "pick Pong = None"
    for pick :: "msg \<Rightarrow> 'b option" and n rs
    using that by (induction n) (simp_all add: dec)
  show ?thesis
    using ans by (simp add: request_games_def query_stream_caps_def query_windows_def assms(2) send dec stop budget
        wait_reply_found [OF noise assms(5)])
qed

text \<open>A small codec for the witness: one byte per message.\<close>

definition demo_msgs :: "msg list" where
  "demo_msgs = [ListGames, QueryStreamCaps, QueryWindows, Pong, Games [], MsgStreamCaps DataHandlers_default_caps, MsgWindows []]"

definition demo_enc :: "msg \<Rightarrow> bytes" where
  "demo_enc m = [of_nat (length (takeWhile (\<lambda>x. x \<noteq> m) demo_msgs))]"

definition demo_dec :: "bytes \<Rightarrow> msg option" where
  "demo_dec b = (case b of [x] \<Rightarrow> if unat x < length demo_msgs then Some (demo_msgs ! unat x) else None | _ \<Rightarrow> None)"

theorem requests_answered_witness:
  "request_games \<lparr>svc_binding = None, svc_pake = False, svc_send = (\<lambda>_. None), svc_dec = demo_dec\<rparr>
     (map Frame [demo_enc Pong] @ Frame (demo_enc (Games [])) # []) = Inr []"
proof -
  let ?e = "demo_env\<lparr>he_dec := demo_dec\<rparr>" and ?s = "\<lparr>svc_binding = None, svc_pake = False, svc_send = (\<lambda>_. None), svc_dec = demo_dec\<rparr>"
  let ?st = "\<lparr>outbound_open = True, restream_open = False, last_inbound = 0\<rparr>"
  have codec: "list_all (\<lambda>m. demo_dec (demo_enc m) = Some m) demo_msgs"
    by (simp add: demo_msgs_def demo_enc_def demo_dec_def)
  have "host_answer ?e ?st (demo_enc ListGames) = Some (Games [])"
    by (simp add: host_answer_def serve_iter_def serve_msg_def demo_env_def demo_dec_def demo_enc_def demo_msgs_def PEER_TIMEOUT_def)
  moreover have "\<exists>g c w. host_answer ?e ?st (demo_enc ListGames) = Some g \<and> host_answer ?e ?st (demo_enc QueryStreamCaps) = Some c \<and>
      host_answer ?e ?st (demo_enc QueryWindows) = Some w \<and> request_games ?s (map Frame [demo_enc Pong] @ Frame (demo_enc g) # []) = Inr (he_games ?e)"
    using requests_answered [of ?e demo_enc ?s "[demo_enc Pong]" ?st "[]"] codec
    by (simp add: demo_msgs_def demo_env_def MAX_WAIT_MSGS_def; blast)
  ultimately show ?thesis by (auto simp: demo_env_def)
qed

end
