(* ===== verification/Pulsar_Discovery.thy ===== *)
theory Pulsar_Discovery
  imports Pulsar_Auth "HOL-Library.List_Lexorder"
begin

text \<open>
  LAN discovery (\<^verbatim>\<open>discovery.rs\<close>): the beacon a node multicasts, the table of peers heard of, its bounds, the
  deduplicated list shown to the user, and the announce and receive loops. The datagram codec and \<^verbatim>\<open>DeviceId::new\<close> of the
  protocol crate and the Unicode lower-case table are arguments. The iteration order of Rust's \<^verbatim>\<open>HashMap\<close>
  is unspecified: it is an argument too, of which \<open>iter_ok\<close> says that it lists every entry once. Instants are rational seconds.
\<close>

subsection \<open>Constants and data\<close>

definition ANNOUNCE_INTERVAL :: rat where "ANNOUNCE_INTERVAL = 2"
definition PEER_TTL :: rat where "PEER_TTL = 8"
definition MAGIC :: u32 where "MAGIC = 0x50554c53"
definition ANNOUNCE_VERSION :: u16 where "ANNOUNCE_VERSION = 1"
definition MAX_NAME_LEN :: nat where "MAX_NAME_LEN = 64"
definition MAX_PEERS :: nat where "MAX_PEERS = 256"

definition is_whitespace :: "nat \<Rightarrow> bool" where
  "is_whitespace c \<longleftrightarrow> 9 \<le> c \<and> c \<le> 13 \<or> c = 32 \<or> c = 0x85 \<or> c = 0xA0 \<or> c = 0x1680 \<or> 0x2000 \<le> c \<and> c \<le> 0x200A \<or>
     c = 0x2028 \<or> c = 0x2029 \<or> c = 0x202F \<or> c = 0x205F \<or> c = 0x3000"

definition rtrim :: "rstr \<Rightarrow> rstr" where
  "rtrim s = rev (dropWhile is_whitespace (rev (dropWhile is_whitespace s)))"

definition lit :: "string \<Rightarrow> rstr" where
  "lit s = map of_char s"

definition str_len :: "rstr \<Rightarrow> nat" where
  "str_len s = length (concat (map utf8 s))"

definition os_display_name :: "rstr option \<Rightarrow> rstr option \<Rightarrow> rstr" where
  "os_display_name realname username =
     (let non_empty = (\<lambda>s. case s of Some n \<Rightarrow> if rtrim n = [] then None else Some n | None \<Rightarrow> None) in
      case non_empty realname of
        Some n \<Rightarrow> n
      | None \<Rightarrow> (case non_empty username of Some n \<Rightarrow> n | None \<Rightarrow> lit ''Pulsar''))"

record announce =
  an_magic :: u32
  an_version :: u16
  an_id :: "u32 option"
  an_name :: rstr
  an_node_port :: u16
  an_pubkey :: bytes
  an_platform :: rstr
  an_nonce :: u64

record discovered_peer =
  dp_id :: "device_id option"
  dp_name :: rstr
  dp_addr :: sock_addr
  dp_pubkey :: bytes
  dp_platform :: rstr
  dp_last_seen :: rat

type_synonym peer_map = "u64 \<rightharpoonup> discovered_peer"

record discovery =
  dc_announce :: announce
  dc_peers :: peer_map
  dc_ifaces :: "sock_addr list"
  dc_paused :: bool

text \<open>What a \<^verbatim>\<open>HashMap\<close> iterator promises.\<close>

definition iter_ok :: "(('k \<rightharpoonup> 'v) \<Rightarrow> ('k \<times> 'v) list) \<Rightarrow> bool" where
  "iter_ok iter \<longleftrightarrow> (\<forall>m. finite (dom m) \<longrightarrow> distinct (map fst (iter m)) \<and> map_of (iter m) = m)"

subsection \<open>Operations\<close>

definition Discovery_start_on :: "rstr \<Rightarrow> u16 \<Rightarrow> bytes \<Rightarrow> u32 option \<Rightarrow> rstr \<Rightarrow> u64 \<Rightarrow> sock_addr list \<Rightarrow> discovery" where
  "Discovery_start_on name node_port pk i os_name nc ifaces =
     \<lparr>dc_announce = \<lparr>an_magic = MAGIC, an_version = ANNOUNCE_VERSION, an_id = i, an_name = name, an_node_port = node_port,
        an_pubkey = pk, an_platform = os_name, an_nonce = nc\<rparr>,
      dc_peers = Map.empty, dc_ifaces = ifaces, dc_paused = False\<rparr>"

definition set_id :: "u32 option \<Rightarrow> discovery \<Rightarrow> discovery" where
  "set_id i d = d\<lparr>dc_announce := (dc_announce d)\<lparr>an_id := i\<rparr>\<rparr>"

definition set_paused :: "bool \<Rightarrow> discovery \<Rightarrow> discovery" where
  "set_paused p d = d\<lparr>dc_paused := p\<rparr>"

definition duration_since :: "rat \<Rightarrow> rat \<Rightarrow> rat" where
  "duration_since now t = max (now - t) 0"

definition retain_fresh :: "rat \<Rightarrow> peer_map \<Rightarrow> peer_map" where
  "retain_fresh now m = (\<lambda>k. case m k of Some p \<Rightarrow> if duration_since now (dp_last_seen p) < PEER_TTL then Some p else None | None \<Rightarrow> None)"

definition keep_freshest :: "(bytes \<rightharpoonup> discovered_peer) \<Rightarrow> discovered_peer \<Rightarrow> (bytes \<rightharpoonup> discovered_peer)" where
  "keep_freshest m p =
     (case m (dp_pubkey p) of
        Some kept \<Rightarrow> if dp_last_seen kept \<ge> dp_last_seen p then m else m(dp_pubkey p \<mapsto> p)
      | None \<Rightarrow> m(dp_pubkey p \<mapsto> p))"

definition peers :: "(peer_map \<Rightarrow> (u64 \<times> discovered_peer) list) \<Rightarrow> ((bytes \<rightharpoonup> discovered_peer) \<Rightarrow> (bytes \<times> discovered_peer) list) \<Rightarrow>
    (rstr \<Rightarrow> rstr) \<Rightarrow> rat \<Rightarrow> discovery \<Rightarrow> discovered_peer list \<times> discovery" where
  "peers iter iter_id lower now d =
     (let d = d\<lparr>dc_peers := retain_fresh now (dc_peers d)\<rparr>;
          by_id = foldl keep_freshest Map.empty (map snd (iter (dc_peers d)))
      in (sort_key (\<lambda>p. lower (dp_name p)) (map snd (iter_id by_id)), d))"

datatype announce_send = SendDefault bytes | SendVia sock_addr bytes

definition send_announce :: "(announce \<Rightarrow> bytes) \<Rightarrow> (sock_addr \<Rightarrow> bool) \<Rightarrow> discovery \<Rightarrow> announce_send list" where
  "send_announce encode socket_opens d =
     (if dc_paused d then []
      else
        let b = encode (dc_announce d) in
        if dc_ifaces d = [] then [SendDefault b]
        else map (\<lambda>ip. SendVia ip b) (filter socket_opens (dc_ifaces d)))"

fun with_port :: "sock_addr \<Rightarrow> u16 \<Rightarrow> sock_addr" where
  "with_port (V4 a b c d _) p = V4 a b c d p"
| "with_port (V6 ip _) p = V6 ip p"

text \<open>\<^verbatim>\<open>min_by_key\<close> returns the first of several minima.\<close>

definition older :: "(u64 \<times> discovered_peer) option \<Rightarrow> u64 \<times> discovered_peer \<Rightarrow> (u64 \<times> discovered_peer) option" where
  "older acc x = (case acc of None \<Rightarrow> Some x | Some y \<Rightarrow> if dp_last_seen (snd x) < dp_last_seen (snd y) then Some x else Some y)"

definition oldest :: "(u64 \<times> discovered_peer) list \<Rightarrow> u64 option" where
  "oldest xs = map_option fst (foldl older None xs)"

definition insert_peer :: "(peer_map \<Rightarrow> (u64 \<times> discovered_peer) list) \<Rightarrow> rat \<Rightarrow> u64 \<Rightarrow> discovered_peer \<Rightarrow> peer_map \<Rightarrow> peer_map" where
  "insert_peer iter now nc p m =
     (let m = retain_fresh now m;
          m = (if m nc = None \<and> length (iter m) \<ge> MAX_PEERS
               then (case oldest (iter m) of Some k \<Rightarrow> m(k := None) | None \<Rightarrow> m) else m)
      in m(nc \<mapsto> p))"

definition accepts_announce :: "announce \<Rightarrow> announce \<Rightarrow> bool" where
  "accepts_announce self a \<longleftrightarrow> an_magic a = MAGIC \<and> an_version a = ANNOUNCE_VERSION \<and> str_len (an_name a) \<le> MAX_NAME_LEN \<and>
     an_nonce a \<noteq> an_nonce self \<and> an_pubkey a \<noteq> an_pubkey self"

definition disc_on_datagram :: "(bytes \<Rightarrow> announce option) \<Rightarrow> (u32 \<Rightarrow> device_id option) \<Rightarrow> (peer_map \<Rightarrow> (u64 \<times> discovered_peer) list) \<Rightarrow>
    rat \<Rightarrow> rat \<Rightarrow> bytes \<Rightarrow> sock_addr \<Rightarrow> discovery \<Rightarrow> discovery" where
  "disc_on_datagram decode device_new iter t0 t1 buf src d =
     (case decode buf of
        None \<Rightarrow> d
      | Some a \<Rightarrow>
          if \<not> accepts_announce (dc_announce d) a then d
          else
            let p = \<lparr>dp_id = Option.bind (an_id a) device_new, dp_name = an_name a, dp_addr = with_port src (an_node_port a),
                  dp_pubkey = an_pubkey a, dp_platform = an_platform a, dp_last_seen = t0\<rparr>
            in d\<lparr>dc_peers := insert_peer iter t1 (an_nonce a) p (dc_peers d)\<rparr>)"

definition lan_ifaces_v4 :: "sock_addr list option \<Rightarrow> sock_addr list" where
  "lan_ifaces_v4 ifs =
     (case ifs of
        None \<Rightarrow> []
      | Some xs \<Rightarrow> filter (\<lambda>i. case i of V4 a b _ _ _ \<Rightarrow> a \<noteq> 127 \<and> \<not> (a = 169 \<and> b = 254) | V6 _ _ \<Rightarrow> False) xs)"

text \<open>The loops: the flag says whether the \<^verbatim>\<open>Weak\<close> handle of the beacon could still be upgraded at that point; the result says
  whether the loop is still running.\<close>

datatype recv_event = RecvCancelled | RecvTimer bool | RecvTransient | RecvOther | RecvFrom bool bytes sock_addr rat rat

fun recv_loop :: "(bytes \<Rightarrow> announce option) \<Rightarrow> (u32 \<Rightarrow> device_id option) \<Rightarrow> (peer_map \<Rightarrow> (u64 \<times> discovered_peer) list) \<Rightarrow>
    recv_event list \<Rightarrow> discovery \<Rightarrow> discovery \<times> bool" where
  "recv_loop decode device_new iter [] d = (d, True)"
| "recv_loop decode device_new iter (RecvCancelled # es) d = (d, False)"
| "recv_loop decode device_new iter (RecvTimer alive # es) d = (if alive then recv_loop decode device_new iter es d else (d, False))"
| "recv_loop decode device_new iter (RecvTransient # es) d = recv_loop decode device_new iter es d"
| "recv_loop decode device_new iter (RecvOther # es) d = recv_loop decode device_new iter es d"
| "recv_loop decode device_new iter (RecvFrom alive buf src t0 t1 # es) d =
     (if alive then recv_loop decode device_new iter es (disc_on_datagram decode device_new iter t0 t1 buf src d) else (d, False))"

fun announce_loop :: "(announce \<Rightarrow> bytes) \<Rightarrow> (sock_addr \<Rightarrow> bool) \<Rightarrow> (discovery option) list \<Rightarrow> announce_send list" where
  "announce_loop encode socket_opens [] = []"
| "announce_loop encode socket_opens (None # _) = []"
| "announce_loop encode socket_opens (Some d # ds) = send_announce encode socket_opens d @ announce_loop encode socket_opens ds"

subsection \<open>The table of peers\<close>

lemma iter_okD:
  assumes "iter_ok iter" "finite (dom m)"
  shows "distinct (map fst (iter m))" "map_of (iter m) = m" "length (iter m) = card (dom m)" "set (iter m) = {(k, p). m k = Some p}"
proof -
  show a: "distinct (map fst (iter m))" "map_of (iter m) = m" using assms by (auto simp: iter_ok_def)
  have "dom m = set (map fst (iter m))" using a(2) dom_map_of_conv_image_fst [of "iter m"] by simp
  then show "length (iter m) = card (dom m)" using distinct_card [OF a(1)] by simp
  show "set (iter m) = {(k, p). m k = Some p}" using map_of_eq_Some_iff [OF a(1)] a(2) by auto
qed

lemma retain_fresh_Some: "retain_fresh now m k = Some p \<longleftrightarrow> m k = Some p \<and> duration_since now (dp_last_seen p) < PEER_TTL"
  by (auto simp: retain_fresh_def split: option.splits)

lemma retain_fresh_dom: "dom (retain_fresh now m) \<subseteq> dom m" by (auto simp: retain_fresh_Some)

lemma oldest_in:
  assumes "xs \<noteq> []"
  obtains k p where "oldest xs = Some k" "(k, p) \<in> set xs" "\<And>k' p'. (k', p') \<in> set xs \<Longrightarrow> dp_last_seen p \<le> dp_last_seen p'"
proof -
  have "\<exists>k p. foldl older None xs = Some (k, p) \<and> (k, p) \<in> set xs \<and> (\<forall>(k', p') \<in> set xs. dp_last_seen p \<le> dp_last_seen p')"
    using assms
  proof (induction xs rule: rev_induct)
    case (snoc x xs)
    show ?case
    proof (cases "xs = []")
      case True
      then show ?thesis by (cases x) (simp add: older_def)
    next
      case False
      from snoc.IH [OF this] obtain k p where kp: "foldl older None xs = Some (k, p)" "(k, p) \<in> set xs"
        "\<forall>(k', p') \<in> set xs. dp_last_seen p \<le> dp_last_seen p'" by blast
      obtain j q where x: "x = (j, q)" by fastforce
      let ?y = "if dp_last_seen q < dp_last_seen p then (j, q) else (k, p)"
      have "foldl older None (xs @ [x]) = Some ?y" using kp(1) by (simp add: older_def x)
      moreover have "?y \<in> set (xs @ [x])" using kp(2) x by simp
      moreover have "\<forall>(k', p') \<in> set (xs @ [x]). dp_last_seen (snd ?y) \<le> dp_last_seen p'" using kp(3) x by fastforce
      ultimately show ?thesis by (intro exI [of _ "fst ?y"] exI [of _ "snd ?y"]) (simp only: prod.collapse simp_thms)
    qed
  qed simp
  then show thesis using that unfolding oldest_def by fastforce
qed

text \<open>What inserting a beacon does to the table, entry by entry.\<close>

lemma insert_peer_cases:
  fixes now :: rat and nc :: u64 and p :: discovered_peer
  assumes "iter_ok iter" "finite (dom m)"
  defines "r \<equiv> retain_fresh now m" and "m' \<equiv> insert_peer iter now nc p m"
  obtains "m' = r(nc \<mapsto> p)" "r nc \<noteq> None \<or> card (dom r) < MAX_PEERS"
    | k q where "m' = (r(k := None))(nc \<mapsto> p)" "r nc = None" "MAX_PEERS \<le> card (dom r)" "r k = Some q"
        "\<And>k' q'. r k' = Some q' \<Longrightarrow> dp_last_seen q \<le> dp_last_seen q'"
proof -
  have fin: "finite (dom r)" using finite_subset [OF retain_fresh_dom assms(2)] by (simp add: r_def)
  note it = iter_okD [OF assms(1) fin]
  show thesis
  proof (cases "r nc = None \<and> MAX_PEERS \<le> card (dom r)")
    case False
    then show thesis using that(1) it(3) by (auto simp: m'_def insert_peer_def r_def Let_def)
  next
    case True
    then have "iter r \<noteq> []" using it(3) by (auto simp: MAX_PEERS_def)
    then obtain k q where k: "oldest (iter r) = Some k" "(k, q) \<in> set (iter r)"
      "\<And>k' q'. (k', q') \<in> set (iter r) \<Longrightarrow> dp_last_seen q \<le> dp_last_seen q'"
      using oldest_in [of "iter r"] by metis
    then show thesis using that(2) [of k q] True it(3,4) by (simp add: m'_def insert_peer_def r_def Let_def)
  qed
qed

lemma insert_peer_bounds:
  assumes "iter_ok iter" "finite (dom m)" "card (dom m) \<le> MAX_PEERS"
  shows "finite (dom (insert_peer iter now nc p m))" "card (dom (insert_peer iter now nc p m)) \<le> MAX_PEERS"
    "insert_peer iter now nc p m k = Some q \<Longrightarrow> k = nc \<and> q = p \<or> m k = Some q"
proof -
  let ?r = "retain_fresh now m" and ?m = "insert_peer iter now nc p m"
  have fin: "finite (dom ?r)" and le: "card (dom ?r) \<le> MAX_PEERS"
    using finite_subset [OF retain_fresh_dom assms(2)] card_mono [OF assms(2) retain_fresh_dom] assms(3) by (auto intro: le_trans)
  have "finite (dom ?m) \<and> card (dom ?m) \<le> MAX_PEERS \<and> (?m k = Some q \<longrightarrow> k = nc \<and> q = p \<or> m k = Some q)"
  proof (rule insert_peer_cases [OF assms(1,2), of now nc p])
    assume m: "?m = ?r(nc \<mapsto> p)" and d: "?r nc \<noteq> None \<or> card (dom ?r) < MAX_PEERS"
    have "card (insert nc (dom ?r)) \<le> MAX_PEERS"
      using d le fin by (cases "nc \<in> dom ?r") (auto simp: insert_absorb card_insert_if domIff)
    then show ?thesis using fin by (auto simp: m retain_fresh_Some)
  next
    fix j w assume m: "?m = (?r(j := None))(nc \<mapsto> p)" and d: "?r nc = None" "MAX_PEERS \<le> card (dom ?r)" "?r j = Some w"
    have "dom ?m = insert nc (dom ?r - {j})" by (auto simp: m)
    moreover have "card (insert nc (dom ?r - {j})) = card (dom ?r)"
    proof -
      have "Suc (card (dom ?r - {j})) = card (dom ?r)" by (rule card_Suc_Diff1 [OF fin]) (use d in auto)
      moreover have "card (insert nc (dom ?r - {j})) = Suc (card (dom ?r - {j}))" by (rule card_insert_disjoint) (use d fin in auto)
      ultimately show ?thesis by simp
    qed
    ultimately show ?thesis using fin le by (auto simp: m retain_fresh_Some)
  qed
  then show "finite (dom ?m)" "card (dom ?m) \<le> MAX_PEERS" "?m k = Some q \<Longrightarrow> k = nc \<and> q = p \<or> m k = Some q" by auto
qed

definition disc_ok :: "discovery \<Rightarrow> bool" where
  "disc_ok d \<longleftrightarrow> finite (dom (dc_peers d)) \<and> card (dom (dc_peers d)) \<le> MAX_PEERS \<and>
     (\<forall>k p. dc_peers d k = Some p \<longrightarrow> k \<noteq> an_nonce (dc_announce d) \<and> dp_pubkey p \<noteq> an_pubkey (dc_announce d) \<and>
        str_len (dp_name p) \<le> MAX_NAME_LEN)"

lemma disc_on_datagram_ok:
  assumes "iter_ok iter" "disc_ok d"
  shows "disc_ok (disc_on_datagram decode device_new iter t0 t1 buf src d)"
    "dc_announce (disc_on_datagram decode device_new iter t0 t1 buf src d) = dc_announce d"
proof -
  let ?d = "disc_on_datagram decode device_new iter t0 t1 buf src d"
  show self: "dc_announce ?d = dc_announce d" by (simp add: disc_on_datagram_def Let_def split: option.split)
  show "disc_ok ?d"
  proof (cases "\<exists>a. decode buf = Some a \<and> accepts_announce (dc_announce d) a")
    case False
    then show ?thesis using assms(2) by (auto simp: disc_on_datagram_def split: option.split)
  next
    case True
    then obtain a where a: "decode buf = Some a" "accepts_announce (dc_announce d) a" by blast
    define p where "p = \<lparr>dp_id = Option.bind (an_id a) device_new, dp_name = an_name a, dp_addr = with_port src (an_node_port a),
        dp_pubkey = an_pubkey a, dp_platform = an_platform a, dp_last_seen = t0\<rparr>"
    have d: "?d = d\<lparr>dc_peers := insert_peer iter t1 (an_nonce a) p (dc_peers d)\<rparr>"
      using a by (simp add: disc_on_datagram_def Let_def p_def)
    have p: "dp_pubkey p \<noteq> an_pubkey (dc_announce d)" "str_len (dp_name p) \<le> MAX_NAME_LEN" "an_nonce a \<noteq> an_nonce (dc_announce d)"
      using a(2) by (auto simp: p_def accepts_announce_def)
    note ip = insert_peer_bounds [OF assms(1), of "dc_peers d" t1 "an_nonce a" p]
    have ok: "finite (dom (dc_peers d))" "card (dom (dc_peers d)) \<le> MAX_PEERS" using assms(2) by (auto simp: disc_ok_def)
    have "k \<noteq> an_nonce (dc_announce d) \<and> dp_pubkey q \<noteq> an_pubkey (dc_announce d) \<and> str_len (dp_name q) \<le> MAX_NAME_LEN"
      if "insert_peer iter t1 (an_nonce a) p (dc_peers d) k = Some q" for k q
      using ip(3) [OF ok that] p assms(2) by (auto simp: disc_ok_def)
    then show ?thesis using ip(1,2) [OF ok] unfolding d disc_ok_def by simp
  qed
qed

fun stops :: "recv_event \<Rightarrow> bool" where
  "stops RecvCancelled = True"
| "stops (RecvTimer alive) = (\<not> alive)"
| "stops (RecvFrom alive _ _ _ _) = (\<not> alive)"
| "stops _ = False"

lemma recv_loop_ok:
  assumes "iter_ok iter" "disc_ok d" "recv_loop decode device_new iter es d = (d', running)"
  shows "disc_ok d' \<and> dc_announce d' = dc_announce d \<and> running = list_all (\<lambda>e. \<not> stops e) es"
  using assms(2,3)
proof (induction es arbitrary: d)
  case (Cons e es)
  show ?case
  proof (cases e)
    case (RecvFrom alive buf src t0 t1)
    note step = disc_on_datagram_ok [OF assms(1) Cons.prems(1), of decode device_new t0 t1 buf src]
    show ?thesis using Cons.IH [OF step(1)] Cons.prems step(2) by (cases alive) (simp_all add: RecvFrom)
  qed (use Cons in \<open>simp_all split: if_splits\<close>)
qed simp

text \<open>
  the discovery table withstands a hostile LAN. Whatever datagrams arrive after a start, however many beacons
  they carry, the table holds at most 256 peers, never this device itself, no entry with a name of more than 64 bytes; no socket
  error ends the receive loop, which stops exactly when it is cancelled or its beacon is dropped.
\<close>

theorem discovery_table_bounded:
  assumes "iter_ok iter"
    and "recv_loop decode device_new iter es (Discovery_start_on name node_port pk i os_name nc ifaces) = (d, running)"
  shows "finite (dom (dc_peers d)) \<and> card (dom (dc_peers d)) \<le> 256 \<and>
    (\<forall>k p. dc_peers d k = Some p \<longrightarrow> k \<noteq> nc \<and> dp_pubkey p \<noteq> pk \<and> str_len (dp_name p) \<le> 64) \<and>
    running = list_all (\<lambda>e. \<not> stops e) es"
proof -
  have "disc_ok (Discovery_start_on name node_port pk i os_name nc ifaces)" by (simp add: disc_ok_def Discovery_start_on_def)
  from recv_loop_ok [OF assms(1) this assms(2)]
  have ok: "disc_ok d" "running = list_all (\<lambda>e. \<not> stops e) es" and self: "an_nonce (dc_announce d) = nc" "an_pubkey (dc_announce d) = pk"
    by (simp_all add: Discovery_start_on_def)
  show ?thesis using ok unfolding disc_ok_def self MAX_PEERS_def MAX_NAME_LEN_def by blast
qed

text \<open>An iteration order for the examples: entries in the order of their keys.\<close>

definition sorted_iter :: "('k :: linorder \<rightharpoonup> 'v) \<Rightarrow> ('k \<times> 'v) list" where
  "sorted_iter m = map (\<lambda>k. (k, the (m k))) (sorted_list_of_set (dom m))"

lemma sorted_iter_ok: "iter_ok (sorted_iter :: ('k :: linorder \<rightharpoonup> 'v) \<Rightarrow> ('k \<times> 'v) list)"
proof -
  have "map_of (sorted_iter m) = m" if "finite (dom m)" for m :: "'k \<rightharpoonup> 'v"
  proof
    fix k show "map_of (sorted_iter m) k = m k"
      using that by (cases "k \<in> dom m") (auto simp: sorted_iter_def map_of_map_keys restrict_map_def map_of_eq_None_iff image_image)
  qed
  then show ?thesis by (simp add: iter_ok_def sorted_iter_def comp_def)
qed

text \<open>A beacon decoder of two beacons, the second one of the device itself.\<close>

definition beacon_decode :: "bytes \<Rightarrow> announce option" where
  "beacon_decode b =
     (if b = [1] then Some \<lparr>an_magic = MAGIC, an_version = 1, an_id = None, an_name = [65], an_node_port = 9, an_pubkey = [5], an_platform = [], an_nonce = 4\<rparr>
      else if b = [2] then Some \<lparr>an_magic = MAGIC, an_version = 1, an_id = None, an_name = [66], an_node_port = 9, an_pubkey = [7], an_platform = [], an_nonce = 6\<rparr>
      else None)"

definition beacon_run :: "recv_event list" where
  "beacon_run = [RecvTransient, RecvFrom True [1] (V4 10 0 0 1 1) 1 1, RecvOther, RecvFrom True [2] (V4 10 0 0 2 1) 2 2, RecvFrom True [3] (V4 10 0 0 3 1) 2 2]"

theorem discovery_table_bounded_witness:
  "card (dom (dc_peers (fst (recv_loop beacon_decode (\<lambda>_. None) sorted_iter beacon_run (Discovery_start_on [] 1 [7] None [] 8 []))))) \<le> 256 \<and>
   snd (recv_loop beacon_decode (\<lambda>_. None) sorted_iter beacon_run (Discovery_start_on [] 1 [7] None [] 8 []))"
  using discovery_table_bounded [OF sorted_iter_ok prod.collapse [symmetric], of beacon_decode "\<lambda>_. None" beacon_run "[]" 1 "[7]" None "[]" 8 "[]"]
  by (simp add: beacon_run_def)

subsection \<open>Eviction\<close>

text \<open>
  a flood of beacons only ever pushes out the oldest peer. Recording a beacon makes it the entry of its nonce
  and keeps every other fresh entry, except that a new nonce that meets a full table drops exactly one entry, none of the others being
  older than it; entries not heard of for eight seconds are dropped.
\<close>

theorem eviction_drops_only_oldest:
  assumes "iter_ok iter" "finite (dom m)"
  shows "insert_peer iter now nc p m nc = Some p \<and>
    ((\<forall>k. k \<noteq> nc \<longrightarrow> insert_peer iter now nc p m k = retain_fresh now m k) \<or>
     retain_fresh now m nc = None \<and> MAX_PEERS \<le> card (dom (retain_fresh now m)) \<and>
     (\<exists>j q. retain_fresh now m j = Some q \<and> insert_peer iter now nc p m j = None \<and>
        (\<forall>k. k \<noteq> nc \<and> k \<noteq> j \<longrightarrow> insert_peer iter now nc p m k = retain_fresh now m k) \<and>
        (\<forall>k q'. retain_fresh now m k = Some q' \<longrightarrow> dp_last_seen q \<le> dp_last_seen q')))"
proof (rule insert_peer_cases [OF assms, of now nc p])
  assume "insert_peer iter now nc p m = (retain_fresh now m)(nc \<mapsto> p)"
  then show ?thesis by simp
next
  fix j q assume "insert_peer iter now nc p m = ((retain_fresh now m)(j := None))(nc \<mapsto> p)" "retain_fresh now m nc = None"
    "MAX_PEERS \<le> card (dom (retain_fresh now m))" "retain_fresh now m j = Some q"
    "\<And>k' q'. retain_fresh now m k' = Some q' \<Longrightarrow> dp_last_seen q \<le> dp_last_seen q'"
  then show ?thesis by (intro conjI disjI2 exI [of _ j] exI [of _ q]) auto
qed

definition peer_example :: "u8 \<Rightarrow> rat \<Rightarrow> discovered_peer" where
  "peer_example k t = \<lparr>dp_id = None, dp_name = [65 + unat k], dp_addr = V4 10 0 0 k 9, dp_pubkey = [k], dp_platform = [], dp_last_seen = t\<rparr>"

theorem eviction_drops_only_oldest_witness:
  "insert_peer sorted_iter 9 3 (peer_example 3 9) [1 \<mapsto> peer_example 1 5, 2 \<mapsto> peer_example 2 0] 3 = Some (peer_example 3 9)"
  using eviction_drops_only_oldest [OF sorted_iter_ok, of "[1 \<mapsto> peer_example 1 5, 2 \<mapsto> peer_example 2 0]" 9 3 "peer_example 3 9"] by simp

subsection \<open>The list shown to the user\<close>

lemma keep_freshest_fold:
  defines "m \<equiv> \<lambda>xs. foldl keep_freshest Map.empty xs"
  shows "finite (dom (m xs))"
    "m xs pk = Some p \<Longrightarrow> p \<in> set xs \<and> dp_pubkey p = pk \<and> (\<forall>q \<in> set xs. dp_pubkey q = pk \<longrightarrow> dp_last_seen q \<le> dp_last_seen p)"
    "m xs pk = None \<Longrightarrow> q \<in> set xs \<Longrightarrow> dp_pubkey q \<noteq> pk"
proof -
  show "finite (dom (m xs))" unfolding m_def by (induction xs rule: rev_induct) (auto simp: keep_freshest_def split: option.split)
  have "case m xs pk of
      Some p \<Rightarrow> p \<in> set xs \<and> dp_pubkey p = pk \<and> (\<forall>q \<in> set xs. dp_pubkey q = pk \<longrightarrow> dp_last_seen q \<le> dp_last_seen p)
    | None \<Rightarrow> \<forall>q \<in> set xs. dp_pubkey q \<noteq> pk" (is "?I xs")
  proof (induction xs rule: rev_induct)
    case (snoc x xs)
    have m: "m (xs @ [x]) = keep_freshest (m xs) x" by (simp add: m_def)
    show ?case using snoc by (cases "dp_pubkey x = pk"; cases "m xs (dp_pubkey x)") (auto simp: m keep_freshest_def split: option.splits)
  qed (simp add: m_def)
  then show "m xs pk = Some p \<Longrightarrow> p \<in> set xs \<and> dp_pubkey p = pk \<and> (\<forall>q \<in> set xs. dp_pubkey q = pk \<longrightarrow> dp_last_seen q \<le> dp_last_seen p)"
    "m xs pk = None \<Longrightarrow> q \<in> set xs \<Longrightarrow> dp_pubkey q \<noteq> pk" by auto
qed

text \<open>
  the list of devices shows each device once, at its freshest beacon. Every row is a table entry heard of within the last eight seconds, no
  entry of the same device is fresher, no two rows share a public key, every device with a fresh entry has a row, and the rows are
  ordered by lower-cased name.
\<close>

theorem one_row_per_device:
  assumes "iter_ok iter" "iter_ok iter_id" "finite (dom (dc_peers d))"
    and "peers iter iter_id lower now d = (rows, d')"
  shows "distinct (map dp_pubkey rows) \<and> sorted (map (\<lambda>p. lower (dp_name p)) rows) \<and>
    (\<forall>p \<in> set rows. \<exists>k. dc_peers d k = Some p \<and> duration_since now (dp_last_seen p) < PEER_TTL) \<and>
    (\<forall>p \<in> set rows. \<forall>k q. retain_fresh now (dc_peers d) k = Some q \<and> dp_pubkey q = dp_pubkey p \<longrightarrow> dp_last_seen q \<le> dp_last_seen p) \<and>
    (\<forall>k q. retain_fresh now (dc_peers d) k = Some q \<longrightarrow> (\<exists>p \<in> set rows. dp_pubkey p = dp_pubkey q)) \<and>
    dc_peers d' = retain_fresh now (dc_peers d)"
proof -
  let ?r = "retain_fresh now (dc_peers d)" and ?xs = "map snd (iter (retain_fresh now (dc_peers d)))"
  define m where "m = foldl keep_freshest Map.empty ?xs"
  have fin: "finite (dom ?r)" by (rule finite_subset [OF retain_fresh_dom assms(3)])
  have xs: "q \<in> set ?xs \<longleftrightarrow> (\<exists>k. ?r k = Some q)" for q using iter_okD(4) [OF assms(1) fin] by force
  note kf = keep_freshest_fold [of ?xs, folded m_def]
  note it = iter_okD [OF assms(2) kf(1)]
  have rows: "rows = sort_key (\<lambda>p. lower (dp_name p)) (map snd (iter_id m))" and d': "dc_peers d' = ?r"
    using assms(4) by (auto simp: peers_def Let_def m_def)
  have row: "p \<in> set rows \<longleftrightarrow> m (dp_pubkey p) = Some p" for p
  proof -
    have "p \<in> set rows \<longleftrightarrow> (\<exists>k. m k = Some p)" using it(4) by (force simp: rows)
    then show ?thesis using kf(2) by blast
  qed
  have "map dp_pubkey (map snd (iter_id m)) = map fst (iter_id m)"
    using it(4) kf(2) by (auto simp: comp_def)
  then have "distinct (map dp_pubkey (map snd (iter_id m)))" using it(1) by (simp only:)
  then have "distinct (map dp_pubkey rows)"
    unfolding rows distinct_map by (simp add: distinct_map)
  moreover have "sorted (map (\<lambda>p. lower (dp_name p)) rows)" by (simp add: rows)
  moreover have "\<exists>k. dc_peers d k = Some p \<and> duration_since now (dp_last_seen p) < PEER_TTL" if "p \<in> set rows" for p
  proof -
    have "p \<in> set ?xs" using kf(2) [of "dp_pubkey p" p] that by (simp only: row)
    then show ?thesis by (auto simp only: xs retain_fresh_Some)
  qed
  moreover have "dp_last_seen q \<le> dp_last_seen p" if "p \<in> set rows" "?r k = Some q" "dp_pubkey q = dp_pubkey p" for p k q
  proof -
    have "q \<in> set ?xs" using that(2) xs [of q] by blast
    then show ?thesis using kf(2) [of "dp_pubkey p" p] that(1,3) by (simp only: row)
  qed
  moreover have "\<exists>p \<in> set rows. dp_pubkey p = dp_pubkey q" if "?r k = Some q" for k q
  proof -
    have "m (dp_pubkey q) \<noteq> None" using kf(3) [of "dp_pubkey q" q] xs [of q] that by blast
    then obtain p where p: "m (dp_pubkey q) = Some p" by blast
    then have "dp_pubkey p = dp_pubkey q" using kf(2) [OF p] by (simp only:)
    then show ?thesis using p row [of p] by (intro bexI [of _ p]) simp_all
  qed
  ultimately show ?thesis using d' by (intro conjI ballI allI impI) blast+
qed

definition table_example :: discovery where
  "table_example = (Discovery_start_on [] 1 [7] None [] 8 [])\<lparr>dc_peers := [1 \<mapsto> peer_example 1 5, 2 \<mapsto> peer_example 1 6, 3 \<mapsto> peer_example 2 0]\<rparr>"

theorem one_row_per_device_witness:
  "distinct (map dp_pubkey (fst (peers sorted_iter sorted_iter id 9 table_example))) \<and>
   (\<exists>p \<in> set (fst (peers sorted_iter sorted_iter id 9 table_example)). dp_pubkey p = [1])"
proof -
  have "finite (dom (dc_peers table_example))" by (simp add: table_example_def)
  from one_row_per_device [OF sorted_iter_ok sorted_iter_ok this prod.collapse [symmetric], of id 9]
  have "distinct (map dp_pubkey (fst (peers sorted_iter sorted_iter id 9 table_example)))"
    "\<forall>k q. retain_fresh 9 (dc_peers table_example) k = Some q \<longrightarrow>
      (\<exists>p \<in> set (fst (peers sorted_iter sorted_iter id 9 table_example)). dp_pubkey p = dp_pubkey q)" by blast+
  moreover have "retain_fresh 9 (dc_peers table_example) 1 = Some (peer_example 1 5)"
    by (simp add: table_example_def retain_fresh_def peer_example_def duration_since_def PEER_TTL_def)
  ultimately show ?thesis by (fastforce simp: peer_example_def)
qed

end
