(* ===== verification/Pulsar_Pipeline.thy ===== *)
theory Pulsar_Pipeline
  imports Pulsar_Ladder Pulsar_Wire "HOL-Library.Sublist"
begin

text \<open>
  The command builders of the media pipeline: encoder detection, resolution and capture arguments of
  \<^verbatim>\<open>pipeline/types.rs\<close>, the ffmpeg and ffplay commands of \<^verbatim>\<open>pipeline/command.rs\<close>, the GStreamer pipelines of
  \<^verbatim>\<open>pipeline/gst.rs\<close> and the audio commands of \<^verbatim>\<open>audio/command.rs\<close>. Strings are lists of UTF-8 bytes; \<^verbatim>\<open>u32\<close>
  values are words with the wrap-around of a release build; the target system and the environment variable
  \<^verbatim>\<open>PULSAR_DAMAGE\<close> are arguments.
\<close>

subsection \<open>Text formatting\<close>

fun dec :: "nat \<Rightarrow> string" where
  "dec n = (if n < 10 then [char_of (48 + n)] else dec (n div 10) @ [char_of (48 + n mod 10)])"

declare dec.simps [simp del]

definition dec_u :: "'a :: len word \<Rightarrow> string" where
  "dec_u x = dec (unat x)"

definition dec_i :: "i32 \<Rightarrow> string" where
  "dec_i x = (if sint x < 0 then ''-'' @ dec (nat (- sint x)) else dec (nat (sint x)))"

subsection \<open>Encoders, codecs and capture methods\<close>

datatype hw_encoder = AutoEnc | Nvenc | Amf | Vaapi | Qsv | VideoToolbox | Vulkan | MediaFoundation | Rkmpp | Software

datatype capture_method = X11grab | Kmsgrab | Gdigrab | Ddagrab | CapAvFoundation

record stream_plan =
  sp_encoder :: hw_encoder
  sp_codec :: vcodec
  sp_width :: u32
  sp_height :: u32
  sp_fps :: u32
  sp_bitrate_kbps :: u32
  sp_capture :: capture_method
  sp_display :: string
  sp_vaapi_device :: string
  sp_dest :: string
  sp_low_latency :: bool
  sp_gpu_zerocopy :: bool
  sp_output_idx :: u32
  sp_hdr :: bool
  sp_yuv444 :: bool
  sp_loss_recovery :: loss_recovery

definition CaptureMethod_default_for_os :: "os \<Rightarrow> capture_method" where
  "CaptureMethod_default_for_os t = (case t of Windows \<Rightarrow> Ddagrab | MacOs \<Rightarrow> CapAvFoundation | OtherOs \<Rightarrow> X11grab)"

definition effective_hdr_yuv444 :: "stream_plan \<Rightarrow> bool \<times> bool" where
  "effective_hdr_yuv444 p =
     (if sp_capture p = Ddagrab \<and> (sp_encoder p = Nvenc \<or> sp_encoder p = Qsv) then (False, False)
      else (sp_hdr p, sp_yuv444 p))"

text \<open>The pixel formats the code tabulates: \<^verbatim>\<open>(yuv444, hdr)\<close> and the format of the plain case.\<close>

definition pix_format :: "string \<Rightarrow> bool \<Rightarrow> bool \<Rightarrow> string" where
  "pix_format plain yuv444 hdr =
     (if yuv444 then (if hdr then ''yuv444p10le'' else ''yuv444p'') else if hdr then ''p010le'' else plain)"

definition ddagrab_source :: "stream_plan \<Rightarrow> string" where
  "ddagrab_source p = ''ddagrab=output_idx='' @ dec_u (sp_output_idx p) @ '':framerate='' @ dec_u (sp_fps p) @ '':draw_mouse=1''"

definition ddagrab_filter :: "stream_plan \<Rightarrow> string" where
  "ddagrab_filter p =
     (case effective_hdr_yuv444 p of (eff_hdr, eff_yuv444) \<Rightarrow>
        let w = dec_u (sp_width p); h = dec_u (sp_height p); cpu_fmt = pix_format ''yuv420p'' eff_yuv444 eff_hdr in
        case sp_encoder p of
          Nvenc \<Rightarrow>
            if sp_gpu_zerocopy p
            then ddagrab_source p @ '',hwmap=derive_device=cuda,scale_cuda='' @ w @ '':'' @ h @ '':format=nv12''
            else ddagrab_source p @ '',fps='' @ dec_u (sp_fps p)
        | Amf \<Rightarrow> ddagrab_source p @ '',hwdownload,format=bgra,scale='' @ w @ '':'' @ h @ '',format='' @
            (if eff_hdr \<or> eff_yuv444 then cpu_fmt else ''nv12'')
        | Qsv \<Rightarrow> ddagrab_source p @ '',hwmap=derive_device=qsv,format=qsv,scale_qsv=w='' @ w @ '':h='' @ h @ '':format=nv12''
        | _ \<Rightarrow> ddagrab_source p @ '',hwdownload,format=bgra,scale='' @ w @ '':'' @ h @ '',format='' @ cpu_fmt)"

definition input_args :: "capture_method \<Rightarrow> stream_plan \<Rightarrow> string list" where
  "input_args c p =
     (let f = dec_u (sp_fps p); sz = dec_u (sp_width p) @ ''x'' @ dec_u (sp_height p) in
      case c of
        X11grab \<Rightarrow> [''-f'', ''x11grab'', ''-framerate'', f, ''-video_size'', sz, ''-i'', sp_display p]
      | Kmsgrab \<Rightarrow> [''-f'', ''kmsgrab'', ''-framerate'', f, ''-i'', ''-'']
      | Gdigrab \<Rightarrow> [''-f'', ''gdigrab'', ''-framerate'', f, ''-i'', ''desktop'']
      | Ddagrab \<Rightarrow> [''-filter_complex'', ddagrab_filter p]
      | CapAvFoundation \<Rightarrow>
          [''-f'', ''avfoundation'', ''-framerate'', f, ''-capture_cursor'', ''1'', ''-i'', sp_display p @ '':none''])"

definition ffmpeg_name :: "hw_encoder \<Rightarrow> vcodec \<Rightarrow> string option" where
  "ffmpeg_name e c =
     (case (e, c) of
        (Nvenc, H264) \<Rightarrow> Some ''h264_nvenc'' | (Nvenc, H265) \<Rightarrow> Some ''hevc_nvenc'' | (Nvenc, Av1) \<Rightarrow> Some ''av1_nvenc''
      | (Amf, H264) \<Rightarrow> Some ''h264_amf'' | (Amf, H265) \<Rightarrow> Some ''hevc_amf'' | (Amf, Av1) \<Rightarrow> Some ''av1_amf''
      | (Vaapi, H264) \<Rightarrow> Some ''h264_vaapi'' | (Vaapi, H265) \<Rightarrow> Some ''hevc_vaapi'' | (Vaapi, Av1) \<Rightarrow> Some ''av1_vaapi''
      | (Qsv, H264) \<Rightarrow> Some ''h264_qsv'' | (Qsv, H265) \<Rightarrow> Some ''hevc_qsv'' | (Qsv, Av1) \<Rightarrow> Some ''av1_qsv''
      | (VideoToolbox, H264) \<Rightarrow> Some ''h264_videotoolbox'' | (VideoToolbox, H265) \<Rightarrow> Some ''hevc_videotoolbox''
      | (Vulkan, H264) \<Rightarrow> Some ''h264_vulkan'' | (Vulkan, H265) \<Rightarrow> Some ''hevc_vulkan'' | (Vulkan, Av1) \<Rightarrow> Some ''av1_vulkan''
      | (MediaFoundation, H264) \<Rightarrow> Some ''h264_mf'' | (MediaFoundation, H265) \<Rightarrow> Some ''hevc_mf'' | (MediaFoundation, Av1) \<Rightarrow> Some ''av1_mf''
      | (Rkmpp, H264) \<Rightarrow> Some ''h264_rkmpp'' | (Rkmpp, H265) \<Rightarrow> Some ''hevc_rkmpp''
      | (Software, H264) \<Rightarrow> Some ''libx264'' | (Software, H265) \<Rightarrow> Some ''libx265'' | (Software, Av1) \<Rightarrow> Some ''libsvtav1''
      | _ \<Rightarrow> None)"

definition all_codecs :: "hw_encoder \<Rightarrow> vcodec list" where
  "all_codecs e = (case e of VideoToolbox \<Rightarrow> [H264, H265] | Rkmpp \<Rightarrow> [H264, H265] | AutoEnc \<Rightarrow> [] | _ \<Rightarrow> [H264, H265, Av1])"

definition available_codecs :: "hw_encoder \<Rightarrow> string \<Rightarrow> vcodec list" where
  "available_codecs e out =
     filter (\<lambda>c. case ffmpeg_name e c of Some n \<Rightarrow> sublist n out | None \<Rightarrow> False) (all_codecs e)"

definition detect :: "string \<Rightarrow> hw_encoder list" where
  "detect out =
     filter (\<lambda>e. available_codecs e out \<noteq> [])
       [Nvenc, Amf, Vaapi, Qsv, Vulkan, VideoToolbox, MediaFoundation, Rkmpp, Software]"

definition resolve_order :: "hw_encoder list" where
  "resolve_order = [Nvenc, Amf, Qsv, Vaapi, Vulkan, VideoToolbox, MediaFoundation, Rkmpp, Software]"

definition resolve :: "hw_encoder \<Rightarrow> hw_encoder list \<Rightarrow> hw_encoder" where
  "resolve choice available =
     (if choice \<noteq> AutoEnc \<and> choice \<in> set available then choice
      else case find (\<lambda>c. c \<in> set available) resolve_order of Some c \<Rightarrow> c | None \<Rightarrow> Software)"

definition resolve_codec :: "hw_encoder \<Rightarrow> vcodec \<Rightarrow> string \<Rightarrow> vcodec" where
  "resolve_codec e requested out =
     (let avail = available_codecs e out in
      if requested \<in> set avail then requested
      else if H264 \<in> set avail then H264
      else case avail of c # _ \<Rightarrow> c | [] \<Rightarrow> H264)"

subsection \<open>Loss recovery of the encoder\<close>

definition refresh_period :: "u32 \<Rightarrow> u32" where
  "refresh_period f = max (f div 2) 1"

definition supports_intra_refresh :: "hw_encoder \<Rightarrow> vcodec \<Rightarrow> bool" where
  "supports_intra_refresh e c \<longleftrightarrow>
     (case (e, c) of (Software, H264) \<Rightarrow> True | (Nvenc, _) \<Rightarrow> True | (Qsv, H264) \<Rightarrow> True | (Qsv, H265) \<Rightarrow> True
      | (Amf, H264) \<Rightarrow> True | _ \<Rightarrow> False)"

definition div_ceil :: "u32 \<Rightarrow> u32 \<Rightarrow> u32" where
  "div_ceil a b = a div b + (if a mod b = 0 then 0 else 1)"

definition normal_gop :: "stream_plan \<Rightarrow> u32" where
  "normal_gop p = (if sp_low_latency p then max (sp_fps p div 4) 1 else max (sp_fps p * 2) 1)"

definition macroblocks :: "stream_plan \<Rightarrow> u32" where
  "macroblocks p =
     (case (if sp_width p = 0 \<or> sp_height p = 0 then (1920, 1080) else (sp_width p, sp_height p)) of
        (w, h) \<Rightarrow> div_ceil w 16 * div_ceil h 16)"

definition recovery_args :: "stream_plan \<Rightarrow> u32 \<times> string list" where
  "recovery_args p =
     (let normal = normal_gop p; period = refresh_period (sp_fps p); short = min normal period in
      case sp_loss_recovery p of
        RecNormal \<Rightarrow> (normal, [])
      | ShortGop \<Rightarrow> (short, [])
      | IntraRefresh \<Rightarrow>
          (case (sp_encoder p, sp_codec p) of
             (Software, H264) \<Rightarrow> (period, [''-intra-refresh'', ''1''])
           | (Nvenc, _) \<Rightarrow> (period, [''-intra-refresh'', ''1''])
           | (Qsv, H264) \<Rightarrow> (normal, [''-int_ref_type'', ''1'', ''-int_ref_cycle_size'', dec_u period])
           | (Qsv, H265) \<Rightarrow> (normal, [''-int_ref_type'', ''1'', ''-int_ref_cycle_size'', dec_u period])
           | (Amf, H264) \<Rightarrow> (normal, [''-intra_refresh_mb'', dec_u (max (div_ceil (macroblocks p) period) 1)])
           | _ \<Rightarrow> (short, [])))"

subsection \<open>The ffmpeg and ffplay commands\<close>

definition quiet_args :: "string list" where
  "quiet_args = [''-hide_banner'', ''-loglevel'', ''error'']"

definition device_args :: "stream_plan \<Rightarrow> string list" where
  "device_args p =
     (if sp_encoder p = Vaapi then [''-vaapi_device'', sp_vaapi_device p] else []) @
     (if sp_encoder p = Vulkan then [''-init_hw_device'', ''vulkan=vk'', ''-filter_hw_device'', ''vk''] else []) @
     (if sp_encoder p = Qsv \<and> sp_capture p = Ddagrab
      then [''-init_hw_device'', ''d3d11va=dx'', ''-init_hw_device'', ''qsv=qs@dx'', ''-filter_hw_device'', ''dx''] else [])"

definition frame_args :: "stream_plan \<Rightarrow> string list" where
  "frame_args p =
     input_args (sp_capture p) p @
     (if sp_capture p = Gdigrab then [''-vf'', ''scale='' @ dec_u (sp_width p) @ '':'' @ dec_u (sp_height p)] else []) @
     (if sp_encoder p = Vaapi \<or> sp_encoder p = Vulkan
      then [''-vf'', ''format='' @ pix_format ''nv12'' (sp_yuv444 p) (sp_hdr p) @ '',hwupload''] else [])"

definition tuning_args :: "hw_encoder \<Rightarrow> vcodec \<Rightarrow> bool \<Rightarrow> string list" where
  "tuning_args e c low_latency =
     (case (e, low_latency) of
        (Nvenc, True) \<Rightarrow> [''-preset'', ''p1'', ''-tune'', ''ull'', ''-delay'', ''0'', ''-rc'', ''cbr'', ''-rc-lookahead'', ''0'']
      | (Nvenc, False) \<Rightarrow> [''-preset'', ''p5'', ''-tune'', ''ll'', ''-rc'', ''vbr'', ''-spatial-aq'', ''1'']
      | (Software, True) \<Rightarrow>
          (if c = Av1 then [''-preset'', ''8'', ''-svtav1-params'', ''lp=0:fast-decode=1'']
           else [''-preset'', ''ultrafast'', ''-tune'', ''zerolatency''])
      | (Software, False) \<Rightarrow>
          (if c = Av1 then [''-preset'', ''6''] else [''-preset'', ''veryfast'', ''-tune'', ''zerolatency''])
      | (Qsv, True) \<Rightarrow> [''-preset'', ''veryfast'', ''-low_power'', ''1'']
      | (Qsv, False) \<Rightarrow> [''-preset'', ''medium'']
      | (Amf, True) \<Rightarrow> [''-usage'', ''lowlatency'', ''-rc'', ''cbr'']
      | (Amf, False) \<Rightarrow> [''-usage'', ''transcoding'']
      | (Vaapi, True) \<Rightarrow> [''-rc_mode'', ''CBR'', ''-bf'', ''0'', ''-async_depth'', ''1'']
      | (Vaapi, False) \<Rightarrow> [''-rc_mode'', ''VBR'', ''-bf'', ''0'']
      | (VideoToolbox, True) \<Rightarrow> [''-realtime'', ''1'', ''-prio_speed'', ''1'']
      | (VideoToolbox, False) \<Rightarrow> [''-realtime'', ''1'']
      | (Vulkan, True) \<Rightarrow> [''-bf'', ''0'', ''-async_depth'', ''1'']
      | (Vulkan, False) \<Rightarrow> [''-bf'', ''0'']
      | (MediaFoundation, True) \<Rightarrow> [''-hw_encoding'', ''1'', ''-rate_control'', ''cbr'']
      | (MediaFoundation, False) \<Rightarrow> [''-hw_encoding'', ''1'']
      | _ \<Rightarrow> [])"

definition profile_name :: "vcodec \<Rightarrow> bool \<Rightarrow> bool \<Rightarrow> string option" where
  "profile_name c eff_hdr eff_yuv444 =
     (case c of
        H265 \<Rightarrow> if eff_yuv444 then Some ''rext'' else if eff_hdr then Some ''main10'' else None
      | H264 \<Rightarrow> if eff_yuv444 then Some ''high444p'' else if eff_hdr then Some ''high10'' else None
      | Av1 \<Rightarrow> None)"

definition format_args :: "stream_plan \<Rightarrow> string list" where
  "format_args p =
     (case effective_hdr_yuv444 p of (eff_hdr, eff_yuv444) \<Rightarrow>
        if eff_hdr \<or> eff_yuv444
        then (case profile_name (sp_codec p) eff_hdr eff_yuv444 of Some x \<Rightarrow> [''-profile:v'', x] | None \<Rightarrow> []) @
             [''-pix_fmt'', pix_format ''nv12'' eff_yuv444 eff_hdr] @
             (if eff_hdr then [''-color_primaries'', ''bt2020'', ''-color_trc'', ''smpte2084'', ''-colorspace'', ''bt2020nc''] else [])
        else if sp_encoder p = Software then [''-pix_fmt'', ''yuv420p''] else [])"

definition encode_command :: "stream_plan \<Rightarrow> string \<times> string list" where
  "encode_command p =
     (let enc = (case ffmpeg_name (sp_encoder p) (sp_codec p) of Some n \<Rightarrow> n | None \<Rightarrow> ''libx264'') in
      case recovery_args p of (gop, recovery) \<Rightarrow>
        (''ffmpeg'',
         quiet_args @ device_args p @ frame_args p @
         [''-c:v'', enc, ''-b:v'', dec_u (sp_bitrate_kbps p) @ ''k'', ''-g'', dec_u gop] @ recovery @
         tuning_args (sp_encoder p) (sp_codec p) (sp_low_latency p) @ format_args p @
         [''-bsf:v'', ''dump_extra'', ''-f'', ''rtp'', ''-payload_type'', ''96'', sp_dest p]))"

definition probe_command :: "hw_encoder \<Rightarrow> vcodec \<Rightarrow> string \<Rightarrow> (string \<times> string list) option" where
  "probe_command e c vaapi_device =
     map_option (\<lambda>name. (''ffmpeg'',
       quiet_args @
       (case e of
          Vaapi \<Rightarrow> [''-vaapi_device'', vaapi_device]
        | Vulkan \<Rightarrow> [''-init_hw_device'', ''vulkan=vk'', ''-filter_hw_device'', ''vk'']
        | Qsv \<Rightarrow> [''-init_hw_device'', ''qsv=qs'', ''-filter_hw_device'', ''qs'']
        | _ \<Rightarrow> []) @
       [''-f'', ''lavfi'', ''-i'', ''testsrc=size=320x240:rate=30'', ''-frames:v'', ''1''] @
       (case e of
          Vaapi \<Rightarrow> [''-vf'', ''format=nv12,hwupload'']
        | Vulkan \<Rightarrow> [''-vf'', ''format=nv12,hwupload'']
        | Qsv \<Rightarrow> [''-vf'', ''format=nv12,hwupload=extra_hw_frames=4'']
        | _ \<Rightarrow> []) @
       [''-c:v'', name] @
       (if e = Software \<and> c = Av1 then [''-preset'', ''8'', ''-svtav1-params'', ''lp=0:fast-decode=1''] else []) @
       (if c = Av1 then [''-f'', ''rtp'', ''rtp://127.0.0.1:9'', ''-frames:v'', ''1''] else []) @
       [''-f'', ''null'', ''-''])) (ffmpeg_name e c)"

definition decode_command :: "string \<Rightarrow> string \<times> string list" where
  "decode_command listen =
     (''ffplay'', [''-hide_banner'', ''-loglevel'', ''error'', ''-fflags'', ''nobuffer'', ''-flags'', ''low_delay'', ''-framedrop'',
        ''-probesize'', ''32'', ''-analyzeduration'', ''0'', ''-i'', listen])"

subsection \<open>GStreamer pipelines\<close>

datatype gst_encoder = GstMpp | GstVaapi | GstVa | GstNv | GstX264

definition gst_PRIORITY :: "gst_encoder list" where
  "gst_PRIORITY = [GstMpp, GstVaapi, GstVa, GstNv, GstX264]"

definition gst_element :: "gst_encoder \<Rightarrow> vcodec \<Rightarrow> string option" where
  "gst_element e c =
     (case (e, c) of
        (GstMpp, H264) \<Rightarrow> Some ''mpph264enc'' | (GstMpp, H265) \<Rightarrow> Some ''mpph265enc''
      | (GstVaapi, H264) \<Rightarrow> Some ''vaapih264enc'' | (GstVaapi, H265) \<Rightarrow> Some ''vaapih265enc''
      | (GstVa, H264) \<Rightarrow> Some ''vah264enc'' | (GstVa, H265) \<Rightarrow> Some ''vah265enc''
      | (GstNv, H264) \<Rightarrow> Some ''nvh264enc'' | (GstNv, H265) \<Rightarrow> Some ''nvh265enc''
      | (GstX264, H264) \<Rightarrow> Some ''x264enc''
      | _ \<Rightarrow> None)"

definition gst_codecs :: "gst_encoder \<Rightarrow> vcodec list" where
  "gst_codecs e = (if e = GstX264 then [H264] else [H264, H265])"

definition wire_id :: "gst_encoder \<Rightarrow> string" where
  "wire_id e = (case e of GstMpp \<Rightarrow> ''rkmpp'' | GstVaapi \<Rightarrow> ''vaapi'' | GstVa \<Rightarrow> ''vaapi'' | GstNv \<Rightarrow> ''nvenc'' | GstX264 \<Rightarrow> ''software'')"

definition from_wire_id :: "string \<Rightarrow> gst_encoder option" where
  "from_wire_id i =
     (if i = ''rkmpp'' then Some GstMpp else if i = ''vaapi'' then Some GstVaapi
      else if i = ''nvenc'' then Some GstNv else if i = ''software'' then Some GstX264 else None)"

definition key_interval :: "u32 \<Rightarrow> loss_recovery \<Rightarrow> u32" where
  "key_interval f r = (case r of RecNormal \<Rightarrow> max f 1 | ShortGop \<Rightarrow> max (f div 2) 1 | IntraRefresh \<Rightarrow> max (f div 2) 1)"

definition mpp_bps :: "u32 \<Rightarrow> nat" where
  "mpp_bps kbps = min (unat (max kbps 1) * 1000) (2 ^ 32 - 1)"

definition gst_enc_props :: "gst_encoder \<Rightarrow> string \<Rightarrow> u32 \<Rightarrow> u32 \<Rightarrow> loss_recovery \<Rightarrow> string" where
  "gst_enc_props e element kbps key_int r =
     (case e of
        GstMpp \<Rightarrow> element @ '' name=venc bps='' @ dec (mpp_bps kbps) @ '' gop='' @ dec_u key_int @ '' header-mode=each-idr''
      | GstVaapi \<Rightarrow> element @ '' name=venc rate-control=cbr bitrate='' @ dec_u kbps @ '' keyframe-period='' @ dec_u key_int
      | GstVa \<Rightarrow> element @ '' name=venc rate-control=cbr bitrate='' @ dec_u kbps @ '' key-int-max='' @ dec_u key_int @ '' b-frames=0''
      | GstNv \<Rightarrow> element @ '' name=venc preset=low-latency-hq rc-mode=cbr bitrate='' @ dec_u kbps @ '' gop-size='' @ dec_u key_int @ '' zerolatency=true''
      | GstX264 \<Rightarrow> element @ '' name=venc tune=zerolatency speed-preset=ultrafast bitrate='' @ dec_u kbps @ '' key-int-max='' @ dec_u key_int @
          '' bframes=0'' @ (if r = IntraRefresh then '' intra-refresh=true'' else ''''))"

definition encoder_fragment_with :: "gst_encoder \<Rightarrow> vcodec \<Rightarrow> u32 \<Rightarrow> u32 \<Rightarrow> loss_recovery \<Rightarrow> string option" where
  "encoder_fragment_with e c kbps f r =
     (case gst_element e c of
        None \<Rightarrow> None
      | Some element \<Rightarrow>
          let props = gst_enc_props e element kbps (key_interval f r) r in
          (case c of
             H264 \<Rightarrow> Some (props @ '' ! h264parse ! rtph264pay config-interval=1 pt=96 mtu=1200'')
           | H265 \<Rightarrow> Some (props @ '' ! h265parse ! rtph265pay config-interval=1 pt=96 mtu=1200'')
           | Av1 \<Rightarrow> None))"

definition encoder_fragment :: "gst_encoder \<Rightarrow> vcodec \<Rightarrow> u32 \<Rightarrow> u32 \<Rightarrow> string option" where
  "encoder_fragment e c kbps f = encoder_fragment_with e c kbps f RecNormal"

definition leaky_queue :: string where
  "leaky_queue = ''! queue leaky=downstream max-size-buffers=2 max-size-bytes=0 max-size-time=0 ''"

definition udp_sink :: "string \<Rightarrow> u16 \<Rightarrow> string" where
  "udp_sink ip port = ''! udpsink host='' @ ip @ '' port='' @ dec_u port @ '' sync=false''"

definition wayland_pipeline :: "i32 \<Rightarrow> u32 \<Rightarrow> string \<Rightarrow> string \<Rightarrow> u16 \<Rightarrow> string" where
  "wayland_pipeline fd node_id fragment ip port =
     ''pipewiresrc fd='' @ dec_i fd @ '' path='' @ dec_u node_id @ '' do-timestamp=true keepalive-time=1000 '' @ leaky_queue @
     ''! videoconvert ! video/x-raw,format=NV12 ! '' @ fragment @ '' '' @ udp_sink ip port"

definition x11_region :: "(i32 \<times> i32 \<times> u32 \<times> u32) option \<Rightarrow> string" where
  "x11_region region =
     (case region of
        Some (x, y, w, h) \<Rightarrow>
          if w > 0 \<and> h > 0
          then '' startx='' @ dec_i x @ '' starty='' @ dec_i y @ '' endx='' @ dec_i (x + w - 1) @ '' endy='' @ dec_i (y + h - 1)
          else ''''
      | None \<Rightarrow> '''')"

definition x11_pipeline :: "bool \<Rightarrow> string \<Rightarrow> u32 \<Rightarrow> string \<Rightarrow> string \<Rightarrow> u16 \<Rightarrow> bool \<Rightarrow> (i32 \<times> i32 \<times> u32 \<times> u32) option \<Rightarrow> string" where
  "x11_pipeline damage_env display f fragment ip port direct_bgrx region =
     (let f = max f 1;
          convert =
            (if direct_bgrx then ''! video/x-raw,format=BGRx,framerate='' @ dec_u f @ ''/1 '' @ leaky_queue
             else ''! video/x-raw,framerate='' @ dec_u f @ ''/1 '' @ leaky_queue @ ''! videoconvert ! video/x-raw,format=I420 '');
          (damage, rate) = (if damage_env then (''1'', ''! videorate '') else (''0'', ''''))
      in ''ximagesrc display-name='' @ display @ x11_region region @ '' use-damage='' @ damage @ '' show-pointer=true '' @
         rate @ convert @ ''! '' @ fragment @ '' '' @ udp_sink ip port)"

definition kms_pipeline :: "u32 \<Rightarrow> string \<Rightarrow> string \<Rightarrow> u16 \<Rightarrow> string" where
  "kms_pipeline f fragment ip port =
     ''kmssrc driver-name=rockchip dma-feature=true sync-fb=false ! video/x-raw(memory:DMABuf),format=BGRx,framerate='' @
     dec_u (max f 1) @ ''/1 '' @ leaky_queue @ ''! '' @ fragment @ '' '' @ udp_sink ip port"

definition kms_probe_pipeline :: "string \<Rightarrow> string" where
  "kms_probe_pipeline fragment =
     ''kmssrc driver-name=rockchip dma-feature=true sync-fb=false num-buffers=2 ! video/x-raw(memory:DMABuf),format=BGRx ! '' @
     fragment @ '' ! fakesink sync=false''"

definition probe_pipeline :: "string \<Rightarrow> string" where
  "probe_pipeline fragment =
     ''videotestsrc num-buffers=2 ! video/x-raw,width=640,height=360,framerate=30/1 ! videoconvert ! video/x-raw,format=NV12 ! '' @
     fragment @ '' ! fakesink sync=false''"

subsection \<open>Audio commands\<close>

definition opus_bitrate :: "channel_layout \<Rightarrow> nat" where
  "opus_bitrate l = (case l of Stereo \<Rightarrow> 128000 | Surround51 \<Rightarrow> 256000 | Surround71 \<Rightarrow> 450000)"

definition opus_rtp_output_layout :: "string \<Rightarrow> channel_layout \<Rightarrow> string list" where
  "opus_rtp_output_layout dest l =
     [''-ac'', dec (channels l)] @
     (if l \<noteq> Stereo then [''-mapping_family'', dec (mapping_family l), ''-channel_layout'', ffmpeg_layout l] else []) @
     [''-ar'', dec SAMPLE_RATE, ''-c:a'', ''libopus'', ''-b:a'', dec (opus_bitrate l), ''-application'', ''lowdelay'',
      ''-frame_duration'', ''10'', ''-flush_packets'', ''1'', ''-max_delay'', ''0'', ''-f'', ''rtp'', ''-payload_type'', ''97'', dest]"

definition opus_rtp_output :: "string \<Rightarrow> string list" where
  "opus_rtp_output dest = opus_rtp_output_layout dest Stereo"

definition audio_command_layout :: "audio_input \<Rightarrow> string \<Rightarrow> channel_layout \<Rightarrow> string \<times> string list" where
  "audio_command_layout inp dest l =
     (''ffmpeg'', quiet_args @
       (case inp of
          Dshow dev \<Rightarrow> [''-f'', ''dshow'', ''-i'', ''audio='' @ dev]
        | Pulse src \<Rightarrow> [''-f'', ''pulse'', ''-i'', src]
        | AvFoundation idx \<Rightarrow> [''-f'', ''avfoundation'', ''-i'', '':'' @ dec_u idx]) @
       opus_rtp_output_layout dest l)"

definition audio_command :: "audio_input \<Rightarrow> string \<Rightarrow> string \<times> string list" where
  "audio_command inp dest = audio_command_layout inp dest Stereo"

subsection \<open>Reading a command back\<close>

text \<open>The argument behind the first occurrence of a flag.\<close>

fun arg_after :: "string \<Rightarrow> string list \<Rightarrow> string option" where
  "arg_after k (a # b # xs) = (if a = k then Some b else arg_after k (b # xs))"
| "arg_after k _ = None"

lemma arg_after_skip: "k \<notin> set xs \<Longrightarrow> arg_after k (xs @ ys) = arg_after k ys"
proof (induction xs)
  case (Cons x xs)
  then show ?case by (cases "xs @ ys") auto
qed simp

lemma arg_after_absent: "k \<notin> set xs \<Longrightarrow> arg_after k xs = None"
  using arg_after_skip [of k xs "[]"] by simp

lemma arg_after_last: "k \<notin> set xs \<Longrightarrow> arg_after k (xs @ [x]) = None"
  by (simp add: arg_after_skip)

text \<open>A number never looks like a flag.\<close>

lemma dec_digits: "ch \<in> set (dec n) \<Longrightarrow> of_char ch \<in> {48 ..< (58 :: nat)}"
proof (induction n rule: dec.induct)
  case (1 n)
  have "of_char (char_of (48 + d) :: char) = 48 + d" if "d < 10" for d :: nat using that by simp
  then show ?case using 1 by (auto simp: dec.simps [of n] split: if_splits)
qed

lemma dec_nonempty [simp]: "dec n \<noteq> []" by (subst dec.simps) simp

lemma hd_dec: "hd (dec n) \<noteq> CHR ''-''"
  using dec_digits [of "hd (dec n)" n] by auto

lemma no_head: "xs \<noteq> [] \<Longrightarrow> hd xs \<noteq> a \<Longrightarrow> a # s \<noteq> xs @ t"
  by (cases xs) auto

lemma dec_no_flag [simp]: "dec n \<noteq> CHR ''-'' # s" "dec_u x \<noteq> CHR ''-'' # s" "CHR ''-'' # s \<noteq> dec n" "CHR ''-'' # s \<noteq> dec_u x"
  "dec_u x @ t \<noteq> CHR ''-'' # s" "CHR ''-'' # s \<noteq> dec_u x @ t"
  using no_head [OF dec_nonempty hd_dec, of s n "[]"] no_head [OF dec_nonempty hd_dec, of s "unat x"] by (metis append_Nil2 dec_u_def)+

lemma ddagrab_filter_start: "\<exists>t. ddagrab_filter p = CHR ''d'' # t"
  by (cases "sp_encoder p") (simp_all add: ddagrab_filter_def ddagrab_source_def Let_def split_beta)

lemma ddagrab_filter_no_flag [simp]: "ddagrab_filter p \<noteq> CHR ''-'' # s" "CHR ''-'' # s \<noteq> ddagrab_filter p"
  using ddagrab_filter_start [of p] by auto

lemma pix_format_no_flag [simp]: "pix_format (CHR ''n'' # t) y h \<noteq> CHR ''-'' # s" "CHR ''-'' # s \<noteq> pix_format (CHR ''n'' # t) y h"
  by (auto simp: pix_format_def)

lemma ffmpeg_name_no_flag: "ffmpeg_name e c = Some n \<Longrightarrow> n \<noteq> CHR ''-'' # s"
  by (cases e; cases c) (auto simp: ffmpeg_name_def)

lemma display_no_flag: "d @ '':none'' \<noteq> ''-c:v''" "d @ '':none'' \<noteq> ''-pix_fmt''"
proof -
  have "d @ '':none'' \<noteq> xs" if "last xs \<noteq> CHR ''e''" for xs using that by auto
  then show "d @ '':none'' \<noteq> ''-c:v''" "d @ '':none'' \<noteq> ''-pix_fmt''" by force+
qed

subsection \<open>The encoder that runs\<close>

lemma available_codec_present:
  "c \<in> set (available_codecs e out) \<longleftrightarrow> (\<exists>n. ffmpeg_name e c = Some n \<and> sublist n out)"
  by (cases e; cases c) (auto simp: available_codecs_def all_codecs_def ffmpeg_name_def)

lemma resolve_available: "available \<noteq> [] \<Longrightarrow> AutoEnc \<notin> set available \<Longrightarrow> resolve choice available \<in> set available"
proof -
  assume av: "available \<noteq> []" "AutoEnc \<notin> set available"
  have "\<exists>c \<in> set resolve_order. c \<in> set available"
  proof -
    from av obtain c where "c \<in> set available" "c \<noteq> AutoEnc" by (cases available) auto
    then show ?thesis by (intro bexI [of _ c]) (cases c; simp add: resolve_order_def)+
  qed
  then obtain c where "find (\<lambda>c. c \<in> set available) resolve_order = Some c" "c \<in> set available"
    by (cases "find (\<lambda>c. c \<in> set available) resolve_order") (auto simp: find_None_iff find_Some_iff)
  then show ?thesis by (simp add: resolve_def)
qed

lemma resolve_codec_available: "available_codecs e out \<noteq> [] \<Longrightarrow> resolve_codec e c out \<in> set (available_codecs e out)"
  by (cases "available_codecs e out") (auto simp: resolve_codec_def Let_def)

lemma codec_arg_of_encode:
  assumes "ffmpeg_name (sp_encoder p) (sp_codec p) = Some n" "sp_vaapi_device p \<noteq> ''-c:v''" "sp_display p \<noteq> ''-c:v''"
  shows "arg_after ''-c:v'' (snd (encode_command p)) = Some n"
proof -
  have "''-c:v'' \<notin> set (quiet_args @ device_args p @ frame_args p)"
    using assms(2,3) display_no_flag(1) [of "sp_display p"]
    by (cases "sp_capture p") (auto simp: quiet_args_def device_args_def frame_args_def input_args_def Let_def)
  from arg_after_skip [OF this] show ?thesis by (simp add: encode_command_def assms(1) Let_def split_beta)
qed

lemma codec_arg_of_probe:
  assumes "ffmpeg_name e c = Some n" "dev \<noteq> ''-c:v''"
  shows "\<exists>args. probe_command e c dev = Some (''ffmpeg'', args) \<and> arg_after ''-c:v'' args = Some n"
  using assms by (cases e) (simp_all add: probe_command_def quiet_args_def)

text \<open>
  what is negotiated is what runs. For every \<^verbatim>\<open>ffmpeg -encoders\<close> output in which some encoder is detected, the resolved encoder
  is a detected one and the resolved codec one it can emit; the user's choices are honoured when they are
  available; the encode command and the validation probe then name the same ffmpeg encoder, and that name
  occurs in the output.
\<close>

theorem resolved_encoder_is_present:
  assumes "detect out \<noteq> []" "sp_encoder p = resolve choice (detect out)" "sp_codec p = resolve_codec (sp_encoder p) requested out"
    and "''-c:v'' \<notin> {sp_display p, sp_vaapi_device p, dev}"
  shows "\<exists>n args. ffmpeg_name (sp_encoder p) (sp_codec p) = Some n \<and> sublist n out \<and>
    arg_after ''-c:v'' (snd (encode_command p)) = Some n \<and>
    probe_command (sp_encoder p) (sp_codec p) dev = Some (''ffmpeg'', args) \<and> arg_after ''-c:v'' args = Some n \<and>
    (choice \<in> set (detect out) \<longrightarrow> sp_encoder p = choice) \<and>
    (requested \<in> set (available_codecs (sp_encoder p) out) \<longrightarrow> sp_codec p = requested)"
proof -
  have "AutoEnc \<notin> set (detect out)" by (simp add: detect_def)
  then have e: "sp_encoder p \<in> set (detect out)" and ch: "choice \<in> set (detect out) \<longrightarrow> sp_encoder p = choice"
    using resolve_available [OF assms(1)] assms(2) by (auto simp: resolve_def)
  have "available_codecs (sp_encoder p) out \<noteq> []" using e unfolding detect_def set_filter by blast
  from resolve_codec_available [OF this] obtain n where n: "ffmpeg_name (sp_encoder p) (sp_codec p) = Some n" "sublist n out"
    using assms(3) available_codec_present by metis
  moreover have "requested \<in> set (available_codecs (sp_encoder p) out) \<longrightarrow> sp_codec p = requested"
    using assms(3) by (simp add: resolve_codec_def Let_def)
  ultimately show ?thesis using codec_arg_of_encode [OF n(1)] codec_arg_of_probe [OF n(1), of dev] assms(4) ch by auto
qed

definition plan_example :: stream_plan where
  "plan_example = \<lparr>sp_encoder = Vaapi, sp_codec = H265, sp_width = 1920, sp_height = 1080, sp_fps = 60, sp_bitrate_kbps = 8000,
     sp_capture = Ddagrab, sp_display = '':0.0'', sp_vaapi_device = ''/dev/dri/renderD128'', sp_dest = ''rtp://127.0.0.1:9000'',
     sp_low_latency = False, sp_gpu_zerocopy = False, sp_output_idx = 0, sp_hdr = True, sp_yuv444 = False, sp_loss_recovery = RecNormal\<rparr>"

theorem resolved_encoder_is_present_witness:
  "arg_after ''-c:v'' (snd (encode_command plan_example)) = Some ''hevc_vaapi''"
proof -
  have out: "detect ''V hevc_vaapi'' = [Vaapi]" by code_simp
  have c: "resolve_codec Vaapi H265 ''V hevc_vaapi'' = H265" by code_simp
  from resolved_encoder_is_present [of "''V hevc_vaapi''" plan_example AutoEnc H265 "''/dev/dri/renderD128''"] show ?thesis
    by (simp add: out c plan_example_def ffmpeg_name_def resolve_def resolve_order_def)
qed

subsection \<open>Pixel formats\<close>

lemma pix_arg_of_encode:
  assumes "sp_capture p = Ddagrab" "sp_vaapi_device p \<noteq> ''-pix_fmt''"
  shows "arg_after ''-pix_fmt'' (snd (encode_command p)) =
    (case effective_hdr_yuv444 p of (h, y) \<Rightarrow>
       if h \<or> y then Some (pix_format ''nv12'' y h) else if sp_encoder p = Software then Some ''yuv420p'' else None)"
proof -
  let ?enc = "case ffmpeg_name (sp_encoder p) (sp_codec p) of Some n \<Rightarrow> n | None \<Rightarrow> ''libx264''"
  obtain gop rec where r: "recovery_args p = (gop, rec)" by fastforce
  have a: "''-pix_fmt'' \<notin> set (quiet_args @ device_args p @ frame_args p)"
    using assms by (auto simp: quiet_args_def device_args_def frame_args_def input_args_def Let_def)
  have "?enc \<noteq> ''-pix_fmt''" by (auto split: option.split dest: ffmpeg_name_no_flag)
  then have b: "''-pix_fmt'' \<notin> set [''-c:v'', ?enc, ''-b:v'', dec_u (sp_bitrate_kbps p) @ ''k'', ''-g'', dec_u gop]" by auto
  have c: "''-pix_fmt'' \<notin> set rec"
    using r by (auto simp: recovery_args_def Let_def split: loss_recovery.splits hw_encoder.splits vcodec.splits prod.splits)
  have d: "''-pix_fmt'' \<notin> set (tuning_args (sp_encoder p) (sp_codec p) (sp_low_latency p))"
    by (cases "sp_encoder p"; cases "sp_low_latency p") (simp_all add: tuning_args_def)
  have "arg_after ''-pix_fmt'' (snd (encode_command p)) =
      arg_after ''-pix_fmt'' (format_args p @ [''-bsf:v'', ''dump_extra'', ''-f'', ''rtp'', ''-payload_type'', ''96'', sp_dest p])"
    using arg_after_skip [OF a] arg_after_skip [OF b] arg_after_skip [OF c] arg_after_skip [OF d] r
    by (simp add: encode_command_def Let_def)
  also have "\<dots> = (case effective_hdr_yuv444 p of (h, y) \<Rightarrow>
       if h \<or> y then Some (pix_format ''nv12'' y h) else if sp_encoder p = Software then Some ''yuv420p'' else None)"
    by (cases "effective_hdr_yuv444 p"; cases "profile_name (sp_codec p) (fst (effective_hdr_yuv444 p)) (snd (effective_hdr_yuv444 p))")
      (auto simp: format_args_def profile_name_def split: vcodec.splits if_splits)
  finally show ?thesis .
qed

text \<open>
  the capture filter, the upload stage and the encoder agree on the pixel format. In every Desktop Duplication
  plan, when the command asks the encoder for a pixel format, the filter graph ends in exactly that format, and
  so does the upload stage of the VA-API and Vulkan encoders; HDR is signalled only with a
  ten-bit format; the GPU-only paths of NVENC and QSV never ask for one.
\<close>

theorem pixel_formats_agree:
  assumes "sp_capture p = Ddagrab" "sp_vaapi_device p \<noteq> ''-pix_fmt''"
    and "arg_after ''-pix_fmt'' (snd (encode_command p)) = Some f"
  shows "suffix (''format='' @ f) (ddagrab_filter p) \<and> sp_encoder p \<notin> {Nvenc, Qsv} \<and>
    (sp_encoder p \<in> {Vaapi, Vulkan} \<longrightarrow> (''format='' @ f @ '',hwupload'') \<in> set (frame_args p)) \<and>
    (''smpte2084'' \<in> set (format_args p) \<longrightarrow> f \<in> {''p010le'', ''yuv444p10le''})"
proof -
  have f: "(case effective_hdr_yuv444 p of (h, y) \<Rightarrow>
       if h \<or> y then Some (pix_format ''nv12'' y h) else if sp_encoder p = Software then Some ''yuv420p'' else None) = Some f"
    using pix_arg_of_encode [OF assms(1,2)] assms(3) by simp
  have enc: "sp_encoder p \<notin> {Nvenc, Qsv}" using f assms(1) by (auto simp: effective_hdr_yuv444_def)
  then have eff: "effective_hdr_yuv444 p = (sp_hdr p, sp_yuv444 p)" by (auto simp: effective_hdr_yuv444_def)
  have fmt: "f = (if sp_hdr p \<or> sp_yuv444 p then pix_format ''nv12'' (sp_yuv444 p) (sp_hdr p) else ''yuv420p'')"
    and plain: "sp_hdr p \<or> sp_yuv444 p \<or> sp_encoder p = Software" using f by (auto simp: eff split: if_splits)
  have "suffix (''format='' @ f) (ddagrab_filter p)"
    using enc plain by (cases "sp_encoder p") (auto simp: ddagrab_filter_def eff fmt pix_format_def Let_def suffix_def)
  moreover have "sp_encoder p \<in> {Vaapi, Vulkan} \<longrightarrow> (''format='' @ f @ '',hwupload'') \<in> set (frame_args p)"
    using plain by (auto simp: frame_args_def fmt)
  moreover have "''smpte2084'' \<in> set (format_args p) \<longrightarrow> f \<in> {''p010le'', ''yuv444p10le''}"
    by (auto simp: format_args_def eff fmt pix_format_def profile_name_def split: if_splits vcodec.splits)
  ultimately show ?thesis using enc by blast
qed

theorem pixel_formats_agree_witness:
  "suffix ''format=p010le'' (ddagrab_filter plan_example) \<and> ''format=p010le,hwupload'' \<in> set (frame_args plan_example)"
proof -
  have "arg_after ''-pix_fmt'' (snd (encode_command plan_example)) = Some ''p010le''" by code_simp
  from pixel_formats_agree [OF _ _ this] show ?thesis by (simp add: plan_example_def)
qed

subsection \<open>Recovery modes\<close>

lemma refresh_period_pos: "0 < refresh_period f" by (simp add: refresh_period_def less_max_iff_disj)

lemma normal_gop_pos: "0 < normal_gop p" by (simp add: normal_gop_def less_max_iff_disj)

lemma div_ceil_covers:
  assumes "0 < b"
  shows "unat a \<le> unat (div_ceil a b) * unat b"
proof -
  have d: "unat a = unat (a div b) * unat b + unat (a mod b)" by (simp add: unat_div unat_mod)
  show ?thesis
  proof (cases "a mod b = 0")
    case True
    then show ?thesis using d by (simp add: div_ceil_def)
  next
    case False
    have b: "0 < unat b" using assms by (simp add: word_less_nat_alt)
    have "1 < unat b"
    proof (rule ccontr)
      assume "\<not> 1 < unat b"
      then have "unat b = 1" using b by simp
      then have "b = 1" by (simp add: word_unat_eq_iff)
      with False show False by simp
    qed
    then have "unat (a div b) < unat a"
      using False by (auto simp: unat_div intro!: div_less_dividend) (metis False mod_0 neq0_conv unat_eq_zero)
    then have "unat (a div b) + 1 < 2 ^ 32" using unsigned_less [of a, where 'a = nat] by simp
    then have "unat (div_ceil a b) = unat (a div b) + 1" using False by (simp add: div_ceil_def unat_word_ariths)
    moreover have "unat (a mod b) < unat b" using b by (simp add: unat_mod)
    ultimately show ?thesis using d by simp
  qed
qed

lemma u32_quarter_less: "4 \<le> f \<Longrightarrow> max (f div 4) 1 < refresh_period f" for f :: u32
  by (simp add: refresh_period_def word_less_nat_alt word_le_nat_alt unat_div max_def) arith

text \<open>
  the recovery modes of the encoder. The key-frame distance is never zero; outside intra refresh no
  refresh option is emitted; a short GOP is at most half a second and never longer than the normal one; intra
  refresh emits options exactly for the encoders that \<^verbatim>\<open>supports_intra_refresh\<close> lists and falls back to the short GOP for
  the others; AMF refreshes every macroblock of the frame within one period. With x264 and NVENC the refresh
  period replaces the GOP, in game mode too, where it is longer than the normal GOP of a quarter second.
\<close>

theorem recovery_modes:
  "0 < fst (recovery_args p) \<and>
   (sp_loss_recovery p \<noteq> IntraRefresh \<longrightarrow> snd (recovery_args p) = []) \<and>
   (sp_loss_recovery p \<noteq> RecNormal \<and> snd (recovery_args p) = [] \<longrightarrow>
      fst (recovery_args p) = min (normal_gop p) (refresh_period (sp_fps p))) \<and>
   (sp_loss_recovery p = IntraRefresh \<longrightarrow>
      (snd (recovery_args p) \<noteq> [] \<longleftrightarrow> supports_intra_refresh (sp_encoder p) (sp_codec p))) \<and>
   (sp_loss_recovery p = IntraRefresh \<and> sp_encoder p = Amf \<and> sp_codec p = H264 \<longrightarrow>
      (\<exists>n :: u32. snd (recovery_args p) = [''-intra_refresh_mb'', dec_u n] \<and>
         unat (macroblocks p) \<le> unat n * unat (refresh_period (sp_fps p)))) \<and>
   (sp_loss_recovery p = IntraRefresh \<and> (sp_encoder p = Software \<and> sp_codec p = H264 \<or> sp_encoder p = Nvenc) \<longrightarrow>
      fst (recovery_args p) = refresh_period (sp_fps p) \<and>
      (sp_low_latency p \<and> 4 \<le> sp_fps p \<longrightarrow> normal_gop p < fst (recovery_args p)))"
proof (cases "sp_loss_recovery p")
  case IntraRefresh
  have q: "sp_low_latency p \<and> 4 \<le> sp_fps p \<longrightarrow> normal_gop p < refresh_period (sp_fps p)"
    using u32_quarter_less by (simp add: normal_gop_def)
  let ?n = "max (div_ceil (macroblocks p) (refresh_period (sp_fps p))) 1"
  have "unat (div_ceil (macroblocks p) (refresh_period (sp_fps p))) \<le> unat ?n" by (simp flip: word_le_nat_alt)
  then have amf: "unat (macroblocks p) \<le> unat ?n * unat (refresh_period (sp_fps p))"
    using div_ceil_covers [OF refresh_period_pos, of "macroblocks p" "sp_fps p"] mult_le_mono1 le_trans by blast
  then have "\<exists>n :: u32. dec_u ?n = dec_u n \<and> unat (macroblocks p) \<le> unat n * unat (refresh_period (sp_fps p))" by blast
  then show ?thesis using IntraRefresh q refresh_period_pos [of "sp_fps p"] normal_gop_pos [of p]
    by (cases "sp_encoder p"; cases "sp_codec p")
      (auto simp: recovery_args_def supports_intra_refresh_def Let_def)
qed (use refresh_period_pos [of "sp_fps p"] normal_gop_pos [of p] in \<open>auto simp: recovery_args_def Let_def\<close>)

theorem recovery_modes_witness:
  "recovery_args (plan_example\<lparr>sp_encoder := Nvenc, sp_low_latency := True, sp_loss_recovery := IntraRefresh\<rparr>) = (30, [''-intra-refresh'', ''1'']) \<and>
   normal_gop (plan_example\<lparr>sp_low_latency := True\<rparr>) = 15 \<and> normal_gop (plan_example\<lparr>sp_low_latency := True\<rparr>) < (30 :: u32)"
proof -
  let ?p = "plan_example\<lparr>sp_encoder := Nvenc, sp_low_latency := True, sp_loss_recovery := IntraRefresh\<rparr>"
  have r: "recovery_args ?p = (30, [''-intra-refresh'', ''1''])" by code_simp
  have n: "normal_gop (plan_example\<lparr>sp_low_latency := True\<rparr>) = 15" "normal_gop ?p = 15" by code_simp+
  have "sp_loss_recovery ?p = IntraRefresh" "sp_encoder ?p = Nvenc" "sp_low_latency ?p" "4 \<le> sp_fps ?p"
    by (simp_all add: plan_example_def)
  then have "normal_gop ?p < fst (recovery_args ?p)" using recovery_modes [of ?p] by blast
  then show ?thesis by (simp add: r n)
qed

subsection \<open>GStreamer fragments\<close>

text \<open>
  the GStreamer encoder families. A fragment exists exactly for the codecs the family lists; the wire id of
  a family is served by a family with that id, and every id that is understood is the id of the family
  it gives; key intervals are positive, and the bit rate of the MPP encoder is a thousand times the
  kilobit rate, saturated at \<^verbatim>\<open>u32::MAX\<close>.
\<close>

theorem gst_families:
  "(encoder_fragment_with e c kbps f r \<noteq> None \<longleftrightarrow> c \<in> set (gst_codecs e)) \<and>
   (\<exists>e'. from_wire_id (wire_id e) = Some e' \<and> wire_id e' = wire_id e) \<and>
   (from_wire_id i = Some e \<longrightarrow> wire_id e = i) \<and>
   0 < key_interval f r \<and> mpp_bps kbps < 2 ^ 32 \<and>
   (kbps \<noteq> 0 \<and> unat kbps * 1000 < 2 ^ 32 \<longrightarrow> mpp_bps kbps = unat kbps * 1000)"
proof -
  have "encoder_fragment_with e c kbps f r \<noteq> None \<longleftrightarrow> c \<in> set (gst_codecs e)"
    by (cases e; cases c) (simp_all add: encoder_fragment_with_def gst_element_def gst_codecs_def Let_def)
  moreover have "\<exists>e'. from_wire_id (wire_id e) = Some e' \<and> wire_id e' = wire_id e"
    by (cases e) (simp_all add: from_wire_id_def wire_id_def)
  moreover have "from_wire_id i = Some e \<longrightarrow> wire_id e = i"
    by (auto simp: from_wire_id_def wire_id_def split: if_splits)
  moreover have "0 < key_interval f r"
    by (cases r) (simp_all add: key_interval_def less_max_iff_disj)
  moreover have "mpp_bps kbps < 2 ^ 32" by (simp add: mpp_bps_def)
  moreover have "kbps \<noteq> 0 \<and> unat kbps * 1000 < 2 ^ 32 \<longrightarrow> mpp_bps kbps = unat kbps * 1000"
  proof
    assume a: "kbps \<noteq> 0 \<and> unat kbps * 1000 < 2 ^ 32"
    then have "1 \<le> kbps" by (simp add: word_le_nat_alt Suc_le_eq unat_gt_0)
    then show "mpp_bps kbps = unat kbps * 1000" using a by (simp add: mpp_bps_def max_def)
  qed
  ultimately show ?thesis by blast
qed

theorem gst_families_witness:
  "from_wire_id ''vaapi'' = Some GstVaapi \<and> wire_id GstVaapi = ''vaapi'' \<and> mpp_bps 8000 = 8000000"
  using gst_families [of GstVaapi H264 8000 60 RecNormal "''vaapi''"] by (simp add: from_wire_id_def)

end
