(* ===== verification/Pulsar_Config.thy ===== *)
theory Pulsar_Config
  imports Pulsar_Discovery Pulsar_Pipeline
begin

text \<open>
  Persistent configuration (\<^verbatim>\<open>config.rs\<close>): the settings, the relay address with its implied default port, the stored
  access keys, the audio source, and saving through a temporary file. The JSON codec, the host name and the default
  port of the protocol crate are arguments; the file system is a map from paths to contents, and saving
  yields the states it passes through.
\<close>

subsection \<open>Settings\<close>

definition DEFAULT_RELAY :: rstr where "DEFAULT_RELAY = lit ''relay.pulsardesk.com''"

datatype language = Tr | En

record config =
  cf_relay :: rstr
  cf_relay_keys :: "rstr \<rightharpoonup> rstr"
  cf_use_local_relay :: bool
  cf_network_mode :: network_mode
  cf_device_name :: rstr
  cf_language :: language
  cf_unattended_access :: bool
  cf_connect_password :: rstr
  cf_transmit_audio :: bool
  cf_mute_host_audio :: bool
  cf_audio_input :: rstr
  cf_node_port :: u16
  cf_avatar_mode :: rstr
  cf_native_player :: bool
  cf_audio_layout :: channel_layout
  cf_ui_hardware_accel :: "bool option"
  cf_request_admin :: bool
  cf_show_remote_cursor :: bool
  cf_share_cursor_label :: bool

definition default_device_name :: "rstr option \<Rightarrow> rstr" where
  "default_device_name hostname =
     (case hostname of
        Some h \<Rightarrow> if rtrim h = [] then lit ''Pulsar Cihaz'' @ [0x131] else h
      | None \<Rightarrow> lit ''Pulsar Cihaz'' @ [0x131])"

definition Config_default :: "rstr option \<Rightarrow> config" where
  "Config_default hostname =
     \<lparr>cf_relay = DEFAULT_RELAY, cf_relay_keys = Map.empty, cf_use_local_relay = False, cf_network_mode = Auto,
      cf_device_name = default_device_name hostname, cf_language = Tr, cf_unattended_access = False, cf_connect_password = [],
      cf_transmit_audio = True, cf_mute_host_audio = False, cf_audio_input = [], cf_node_port = 0, cf_avatar_mode = lit ''user'',
      cf_native_player = False, cf_audio_layout = Stereo, cf_ui_hardware_accel = None, cf_request_admin = True,
      cf_show_remote_cursor = True, cf_share_cursor_label = True\<rparr>"

subsection \<open>Relay addresses\<close>

definition split_once :: "nat \<Rightarrow> rstr \<Rightarrow> (rstr \<times> rstr) option" where
  "split_once c s = (if c \<in> set s then Some (takeWhile ((\<noteq>) c) s, tl (dropWhile ((\<noteq>) c) s)) else None)"

definition rsplit_once :: "nat \<Rightarrow> rstr \<Rightarrow> (rstr \<times> rstr) option" where
  "rsplit_once c s = map_option (\<lambda>(a, b). (rev b, rev a)) (split_once c (rev s))"

definition split_relay_port :: "rstr \<Rightarrow> (rstr \<times> rstr) option" where
  "split_relay_port s0 =
     (let s = rtrim s0 in
      if s \<noteq> [] \<and> hd s = 91
      then (case split_once 93 (tl s) of
              None \<Rightarrow> None
            | Some (host, tail) \<Rightarrow>
                if tail \<noteq> [] \<and> hd tail = 58 then Some (take (length host + 2) s, tl tail) else None)
      else (case rsplit_once 58 s of
              None \<Rightarrow> None
            | Some (host, port) \<Rightarrow> if 58 \<in> set host then None else Some (host, port)))"

definition normalise_relay :: "rstr \<Rightarrow> config \<Rightarrow> config" where
  "normalise_relay default_port c =
     (let trimmed = rtrim (cf_relay c);
          rest = (if str_len trimmed \<noteq> str_len (cf_relay c) then c\<lparr>cf_relay := trimmed\<rparr> else c)
      in case split_relay_port trimmed of
           Some (host, port) \<Rightarrow> if host \<noteq> [] \<and> port = default_port then c\<lparr>cf_relay := host\<rparr> else rest
         | None \<Rightarrow> rest)"

text \<open>\<^verbatim>\<open>str::parse::<u16>\<close>: an optional plus sign and at least one digit, in range.\<close>

definition parse_u16 :: "rstr \<Rightarrow> u16 option" where
  "parse_u16 s =
     (let ds = (if s \<noteq> [] \<and> hd s = 43 then tl s else s);
          n = foldl (\<lambda>n d. n * 10 + (d - 48)) 0 ds
      in if ds \<noteq> [] \<and> list_all (\<lambda>d. 48 \<le> d \<and> d \<le> 57) ds \<and> n < 65536 then Some (of_nat n) else None)"

definition relay_is_valid :: "config \<Rightarrow> bool" where
  "relay_is_valid c =
     (let s = rtrim (cf_relay c) in
      s \<noteq> [] \<and> (case split_relay_port s of Some (host, port) \<Rightarrow> host \<noteq> [] \<and> parse_u16 port \<noteq> None | None \<Rightarrow> True))"

definition to_ascii_lowercase :: "rstr \<Rightarrow> rstr" where
  "to_ascii_lowercase = map (\<lambda>c. if 65 \<le> c \<and> c \<le> 90 then c + 32 else c)"

definition relay_key_for :: "rstr \<Rightarrow> config \<Rightarrow> rstr option" where
  "relay_key_for relay c = cf_relay_keys c (to_ascii_lowercase (rtrim relay))"

definition set_relay_key :: "rstr \<Rightarrow> rstr option \<Rightarrow> config \<Rightarrow> config" where
  "set_relay_key relay key c =
     (let k = to_ascii_lowercase (rtrim relay) in
      case key of
        Some v \<Rightarrow> c\<lparr>cf_relay_keys := (cf_relay_keys c)(k \<mapsto> v)\<rparr>
      | None \<Rightarrow> c\<lparr>cf_relay_keys := (cf_relay_keys c)(k := None)\<rparr>)"

subsection \<open>Audio source\<close>

definition utf8_string :: "rstr \<Rightarrow> string" where
  "utf8_string s = map (\<lambda>b. char_of (unat b)) (concat (map utf8 s))"

definition parse_u32 :: "rstr \<Rightarrow> u32 option" where
  "parse_u32 s =
     (let ds = (if s \<noteq> [] \<and> hd s = 43 then tl s else s);
          n = foldl (\<lambda>n d. n * 10 + (d - 48)) 0 ds
      in if ds \<noteq> [] \<and> list_all (\<lambda>d. 48 \<le> d \<and> d \<le> 57) ds \<and> n < 2 ^ 32 then Some (of_nat n) else None)"

definition Config_audio_settings :: "config \<Rightarrow> audio_settings" where
  "Config_audio_settings c = \<lparr>as_transmit = cf_transmit_audio c, as_mute_host = cf_mute_host_audio c, as_layout = cf_audio_layout c\<rparr>"

definition Config_audio_input :: "os \<Rightarrow> config \<Rightarrow> audio_input" where
  "Config_audio_input t c =
     (let dev = rtrim (cf_audio_input c) in
      if dev = [] then AudioInput_default_for_os t
      else case t of
        Windows \<Rightarrow> Dshow (utf8_string dev)
      | MacOs \<Rightarrow> AvFoundation (case parse_u32 dev of Some i \<Rightarrow> i | None \<Rightarrow> 0)
      | OtherOs \<Rightarrow> Pulse (utf8_string dev))"

definition eq_ignore_ascii_case :: "rstr \<Rightarrow> rstr \<Rightarrow> bool" where
  "eq_ignore_ascii_case a b \<longleftrightarrow> to_ascii_lowercase a = to_ascii_lowercase b"

definition Config_audio_loopback :: "os \<Rightarrow> config \<Rightarrow> bool" where
  "Config_audio_loopback t c \<longleftrightarrow>
     t = Windows \<and>
     (let d = rtrim (cf_audio_input c) in d = [] \<or> eq_ignore_ascii_case d (lit ''loopback'') \<or> eq_ignore_ascii_case d (lit ''wasapi''))"

subsection \<open>Loading and saving\<close>

record fpath =
  fp_dir :: "rstr list"
  fp_name :: "rstr option"

type_synonym fs = "fpath \<rightharpoonup> rstr"

definition Config_load :: "(rstr \<Rightarrow> config option) \<Rightarrow> rstr \<Rightarrow> rstr option \<Rightarrow> fpath \<Rightarrow> fs \<Rightarrow> config" where
  "Config_load from_json default_port hostname path fs =
     normalise_relay default_port
       (case Option.bind (fs path) from_json of Some c \<Rightarrow> c | None \<Rightarrow> Config_default hostname)"

text \<open>What the system calls of a save do: the contents the temporary file passes through while it is written, and the outcomes.\<close>

record io =
  io_mkdir :: bool
  io_partial :: "rstr list"
  io_write :: bool
  io_rename :: bool
  io_remove :: bool

definition tmp_path :: "nat \<Rightarrow> fpath \<Rightarrow> fpath" where
  "tmp_path pid path =
     (case fp_name path of Some n \<Rightarrow> path\<lparr>fp_name := Some (n @ lit ''.'' @ lit (dec pid) @ lit ''.tmp'')\<rparr> | None \<Rightarrow> path)"

text \<open>The result and the states of the file system, the last one being the final state.\<close>

definition Config_save :: "(config \<Rightarrow> rstr) \<Rightarrow> nat \<Rightarrow> io \<Rightarrow> fpath \<Rightarrow> fs \<Rightarrow> config \<Rightarrow> bool \<times> fs list" where
  "Config_save to_json pid io path fs c =
     (if \<not> io_mkdir io then (False, [fs])
      else
        let json = to_json c; tmp = tmp_path pid path;
            writing = fs # map (\<lambda>x. fs(tmp \<mapsto> x)) (io_partial io);
            fs1 = fs(tmp \<mapsto> json)
        in if \<not> io_write io then (False, writing)
           else if io_rename io then (True, writing @ [fs1, (fs1(tmp := None))(path \<mapsto> json)])
           else (False, writing @ [fs1, if io_remove io then fs1(tmp := None) else fs1]))"

subsection \<open>The relay address\<close>

lemma dropWhile_fix: "xs = [] \<or> \<not> p (hd xs) \<Longrightarrow> dropWhile p xs = xs"
  by (cases xs) auto

lemma rtrim_fix: "s = [] \<or> \<not> is_whitespace (hd s) \<and> \<not> is_whitespace (last s) \<Longrightarrow> rtrim s = s"
  using dropWhile_fix [of s is_whitespace] dropWhile_fix [of "rev s" is_whitespace] by (auto simp: rtrim_def hd_rev)

lemma rtrim_ends: "rtrim s \<noteq> [] \<Longrightarrow> \<not> is_whitespace (hd (rtrim s)) \<and> \<not> is_whitespace (last (rtrim s))"
proof -
  assume ne: "rtrim s \<noteq> []"
  define t where "t = dropWhile is_whitespace s"
  define u where "u = dropWhile is_whitespace (rev t)"
  have r: "rtrim s = rev u" by (simp add: rtrim_def t_def u_def)
  have u: "u \<noteq> []" using ne r by simp
  then have l: "\<not> is_whitespace (hd u)" using hd_dropWhile [of is_whitespace "rev t"] by (simp add: u_def)
  have "t \<noteq> []" using u by (auto simp: u_def)
  then have h: "\<not> is_whitespace (hd t)" using hd_dropWhile [of is_whitespace s] by (simp add: t_def)
  have "rev t = takeWhile is_whitespace (rev t) @ u" by (simp add: u_def)
  then have "t = rev u @ rev (takeWhile is_whitespace (rev t))" by (metis rev_append rev_rev_ident)
  then have "hd t = hd (rev u)" using u by (metis hd_append2 rev_is_Nil_conv)
  then show ?thesis using h l u by (simp add: r hd_rev last_rev)
qed

lemma rtrim_rtrim [simp]: "rtrim (rtrim s) = rtrim s"
  using rtrim_ends [of s] by (intro rtrim_fix) auto

lemma rtrim_set: "x \<in> set (rtrim s) \<Longrightarrow> x \<in> set s"
  unfolding rtrim_def set_rev by (drule set_dropWhileD, unfold set_rev) (erule set_dropWhileD)

lemma split_relay_port_trim [simp]: "split_relay_port (rtrim s) = split_relay_port s"
  by (simp add: split_relay_port_def)

lemma rtrim_keep_hd: "s \<noteq> [] \<Longrightarrow> \<not> is_whitespace (hd s) \<Longrightarrow> rtrim s \<noteq> [] \<and> hd (rtrim s) = hd s"
proof -
  assume s: "s \<noteq> []" "\<not> is_whitespace (hd s)"
  then obtain x xs where x: "s = x # xs" "\<not> is_whitespace x" by (cases s) auto
  have "\<exists>ys. dropWhile is_whitespace (rev xs @ [x]) = ys @ [x]"
    using x(2) by (induction "rev xs" arbitrary: xs rule: rev_induct) (auto simp: dropWhile_append)
  then obtain ys where "rtrim s = x # rev ys" using x by (auto simp: rtrim_def)
  then show ?thesis by (simp add: x(1))
qed

text \<open>A host split off an address carries no port itself.\<close>

lemma split_host_bare: "split_relay_port r = Some (h, p) \<Longrightarrow> h \<noteq> [] \<Longrightarrow> split_relay_port h = None \<and> rtrim h \<noteq> []"
proof -
  assume sp: "split_relay_port r = Some (h, p)" and h: "h \<noteq> []"
  define s where "s = rtrim r"
  show ?thesis
  proof (cases "s \<noteq> [] \<and> hd s = 91")
    case True
    then obtain rest where s: "s = 91 # rest" by (cases s) auto
    from sp True s obtain host tail where o: "split_once 93 rest = Some (host, tail)" "h = take (length host + 2) s"
      by (auto simp: split_relay_port_def Let_def s_def [symmetric] split: option.splits if_splits)
    then have host: "host = takeWhile ((\<noteq>) 93) rest" "93 \<in> set rest" by (auto simp: split_once_def split: if_splits)
    have "rest = host @ dropWhile ((\<noteq>) 93) rest" "hd (dropWhile ((\<noteq>) 93) rest) = 93" "dropWhile ((\<noteq>) 93) rest \<noteq> []"
      using host hd_dropWhile [of "(\<noteq>) 93" rest] by (auto simp: dropWhile_eq_Nil_conv)
    then obtain t where "rest = host @ 93 # t" by (metis list.exhaust_sel)
    then have hh: "h = 91 # host @ [93]" using o(2) by (simp add: s)
    have n: "93 \<notin> set host" using host(1) set_takeWhileD by (metis (mono_tags, lifting))
    have "rtrim h = h" by (rule rtrim_fix) (simp add: hh is_whitespace_def)
    moreover have "split_once 93 (host @ [93]) = Some (host, [])"
      using n by (auto simp: split_once_def takeWhile_append dropWhile_append)
    ultimately show ?thesis by (simp add: split_relay_port_def Let_def hh)
  next
    case False
    from sp False obtain port where r: "rsplit_once 58 s = Some (h, port)" "58 \<notin> set h"
      by (auto simp: split_relay_port_def Let_def s_def [symmetric] split: option.splits if_splits)
    then have "\<exists>t. s = h @ t"
    proof -
      from r(1) obtain a b where ab: "split_once 58 (rev s) = Some (a, b)" "h = rev b" by (auto simp: rsplit_once_def)
      then have "58 \<in> set s" "b = tl (dropWhile ((\<noteq>) 58) (rev s))" by (auto simp: split_once_def split: if_splits)
      then have "\<exists>c. rev s = c @ b" by (metis append_Cons append_assoc list.exhaust_sel takeWhile_dropWhile_id tl_Nil append_Nil2 append_Nil)
      then show ?thesis using ab(2) by (metis rev_append rev_rev_ident)
    qed
    then have hd: "hd h = hd s" "s \<noteq> []" using h by auto
    have "\<not> is_whitespace (hd h)" using rtrim_ends [of r] hd by (simp add: s_def)
    from rtrim_keep_hd [OF h this] have "rtrim h \<noteq> []" "hd (rtrim h) \<noteq> 91" using hd False by auto
    moreover have "rsplit_once 58 (rtrim h) = None" using r(2) rtrim_set by (auto simp: rsplit_once_def split_once_def)
    ultimately show ?thesis by (simp add: split_relay_port_def Let_def)
  qed
qed

text \<open>The endpoint an address stands for, with the implied port.\<close>

definition relay_endpoint :: "rstr \<Rightarrow> rstr \<Rightarrow> rstr \<times> rstr" where
  "relay_endpoint default_port r =
     (case split_relay_port r of Some (h, p) \<Rightarrow> (rtrim h, p) | None \<Rightarrow> (rtrim r, default_port))"

lemma normalise_relay_cases:
  obtains (strip) h where "split_relay_port (cf_relay c) = Some (h, dp)" "h \<noteq> []" "cf_relay (normalise_relay dp c) = h"
  | (keep) "rtrim (cf_relay (normalise_relay dp c)) = rtrim (cf_relay c)" "split_relay_port (cf_relay (normalise_relay dp c)) = split_relay_port (cf_relay c)"
      "\<And>h. split_relay_port (cf_relay c) \<noteq> Some (h, dp) \<or> h = []"
proof (cases "\<exists>h. split_relay_port (cf_relay c) = Some (h, dp) \<and> h \<noteq> []")
  case True
  then show thesis using strip by (auto simp: normalise_relay_def Let_def)
next
  case False
  then have "cf_relay (normalise_relay dp c) = rtrim (cf_relay c) \<or> cf_relay (normalise_relay dp c) = cf_relay c"
    by (auto simp: normalise_relay_def Let_def split: option.splits)
  then show thesis using False by (intro keep) (auto simp del: split_relay_port_trim simp: split_relay_port_trim [of "cf_relay c"])
qed

text \<open>
  showing a relay address without its default port changes nothing else. Normalising on load keeps the endpoint
  an address stands for, never leaves the default port behind a host, keeps a valid address
  valid, touches no other setting; and a stored access key is found under every spelling of the address
  that differs in case or surrounding blanks only, while other addresses keep theirs.
\<close>

theorem relay_address_preserved:
  "relay_endpoint dp (cf_relay (normalise_relay dp c)) = relay_endpoint dp (cf_relay c) \<and>
   (\<forall>h. split_relay_port (cf_relay (normalise_relay dp c)) = Some (h, dp) \<longrightarrow> h = []) \<and>
   (relay_is_valid c \<longrightarrow> relay_is_valid (normalise_relay dp c)) \<and>
   normalise_relay dp c = c\<lparr>cf_relay := cf_relay (normalise_relay dp c)\<rparr> \<and>
   relay_key_for r (set_relay_key r' k c) =
     (if to_ascii_lowercase (rtrim r) = to_ascii_lowercase (rtrim r') then k else relay_key_for r c)"
proof -
  have "normalise_relay dp c = c\<lparr>cf_relay := cf_relay (normalise_relay dp c)\<rparr>"
    by (simp add: normalise_relay_def Let_def split: option.split)
  moreover have "relay_key_for r (set_relay_key r' k c) =
      (if to_ascii_lowercase (rtrim r) = to_ascii_lowercase (rtrim r') then k else relay_key_for r c)"
    by (cases k) (simp_all add: relay_key_for_def set_relay_key_def Let_def)
  moreover have "relay_endpoint dp (cf_relay (normalise_relay dp c)) = relay_endpoint dp (cf_relay c) \<and>
      (\<forall>h. split_relay_port (cf_relay (normalise_relay dp c)) = Some (h, dp) \<longrightarrow> h = []) \<and>
      (relay_is_valid c \<longrightarrow> relay_is_valid (normalise_relay dp c))"
  proof (cases rule: normalise_relay_cases [of c dp])
    case (strip h)
    note bare = split_host_bare [OF strip(1,2)]
    show ?thesis using strip bare by (simp add: relay_endpoint_def relay_is_valid_def Let_def)
  next
    case keep
    then show ?thesis by (auto simp: relay_endpoint_def relay_is_valid_def Let_def split: option.splits)
  qed
  ultimately show ?thesis by blast
qed

theorem relay_address_preserved_witness:
  "cf_relay (normalise_relay (lit ''21116'') (Config_default None\<lparr>cf_relay := lit '' [::1]:21116 ''\<rparr>)) = lit ''[::1]'' \<and>
   relay_is_valid (normalise_relay (lit ''21116'') (Config_default None\<lparr>cf_relay := lit '' [::1]:21116 ''\<rparr>))"
proof -
  let ?c = "Config_default None\<lparr>cf_relay := lit '' [::1]:21116 ''\<rparr>"
  have v: "relay_is_valid ?c" by code_simp
  have "relay_is_valid (normalise_relay (lit ''21116'') ?c)"
    using relay_address_preserved [of "lit ''21116''" ?c "[]" "[]" None] v by blast
  moreover have "cf_relay (normalise_relay (lit ''21116'') ?c) = lit ''[::1]''" by code_simp
  ultimately show ?thesis by blast
qed

subsection \<open>Saving\<close>

lemma tmp_path_fresh: "fp_name path = Some n \<Longrightarrow> tmp_path pid path \<noteq> path"
proof
  assume n: "fp_name path = Some n" and eq: "tmp_path pid path = path"
  from arg_cong [OF eq, of fp_name] have "n @ lit ''.'' @ lit (dec pid) @ lit ''.tmp'' = n" using n by (simp add: tmp_path_def)
  then show False by (simp add: lit_def)
qed

text \<open>
  C21: saving is atomic. Whatever the system calls do and wherever the process dies, the file of the configuration
  holds the old text or the whole new one at every moment, and no other file than the temporary one
  changes; a save that reports success has left the new text and no temporary file, one that
  reports an error has left the old text; and what was saved is loaded again, up to the default port of the relay.
\<close>

theorem config_save_atomic:
  assumes "fp_name path = Some n" "Config_save to_json pid io path fs c = (ok, states)"
    and "from_json (to_json c) = Some c"
  shows "(\<forall>st \<in> set states. st path \<in> {fs path, Some (to_json c)} \<and> (\<forall>q. q \<noteq> path \<and> q \<noteq> tmp_path pid path \<longrightarrow> st q = fs q)) \<and>
    (if ok then last states path = Some (to_json c) \<and> last states (tmp_path pid path) = None \<and>
       Config_load from_json dp hostname path (last states) = normalise_relay dp c
     else last states path = fs path)"
proof -
  let ?t = "tmp_path pid path"
  have t: "?t \<noteq> path" by (rule tmp_path_fresh [OF assms(1)])
  let ?w = "fs # map (\<lambda>x. fs(?t \<mapsto> x)) (io_partial io)" and ?fs1 = "fs(?t \<mapsto> to_json c)"
  have w: "st path = fs path \<and> (\<forall>q. q \<noteq> path \<and> q \<noteq> ?t \<longrightarrow> st q = fs q)" if "st \<in> set ?w" for st using that t by auto
  have lw: "last ?w path = fs path" using w [OF last_in_set] by simp
  consider "\<not> io_mkdir io" "ok = False" "states = [fs]" | "\<not> io_write io" "ok = False" "states = ?w"
    | "ok = True" "states = ?w @ [?fs1, (?fs1(?t := None))(path \<mapsto> to_json c)]"
    | "ok = False" "states = ?w @ [?fs1, if io_remove io then ?fs1(?t := None) else ?fs1]"
    using assms(2) by (auto simp: Config_save_def Let_def split: if_splits)
  then show ?thesis
  proof cases
    case 1
    then show ?thesis by simp
  next
    case 2
    then show ?thesis using w lw by simp
  next
    case 3
    have "Config_load from_json dp hostname path (last states) = normalise_relay dp c"
      using 3 assms(3) by (simp add: Config_load_def)
    then show ?thesis using 3 w t by auto
  next
    case 4
    then show ?thesis using w t by auto
  qed
qed

definition path_example :: fpath where
  "path_example = \<lparr>fp_dir = [], fp_name = Some (lit ''config.json'')\<rparr>"

definition io_example :: io where
  "io_example = \<lparr>io_mkdir = True, io_partial = [[], [1]], io_write = True, io_rename = True, io_remove = True\<rparr>"

theorem config_save_atomic_witness:
  "Config_load (\<lambda>j. if j = [1, 2] then Some (Config_default None) else None) (lit ''21116'') None path_example
     (last (snd (Config_save (\<lambda>_. [1, 2]) 7 io_example path_example [path_example \<mapsto> [9]] (Config_default None)))) =
   normalise_relay (lit ''21116'') (Config_default None)"
proof -
  have n: "fp_name path_example = Some (lit ''config.json'')" by (simp add: path_example_def)
  have "fst (Config_save (\<lambda>_. [1, 2]) 7 io_example path_example [path_example \<mapsto> [9]] (Config_default None))"
    by (simp add: Config_save_def io_example_def Let_def)
  then show ?thesis
    using config_save_atomic [OF n prod.collapse [symmetric], of "\<lambda>j. if j = [1, 2] then Some (Config_default None) else None"
      "\<lambda>_. [1, 2]" "Config_default None" 7 io_example "[path_example \<mapsto> [9]]" "lit ''21116''" None] by simp
qed

end
