(* ===== verification/Pulsar_Media.thy ===== *)
theory Pulsar_Media
  imports Pulsar_Prelude
begin

text \<open>
  The software video baseline of \<^verbatim>\<open>media.rs\<close>: frames and packets, the synthetic \<^verbatim>\<open>SolidColorSource\<close>, the lossless
  run-length codec (\<^verbatim>\<open>rle_encode\<close>, \<^verbatim>\<open>rle_decode\<close>, \<^verbatim>\<open>RleEncoder\<close>, \<^verbatim>\<open>RleDecoder\<close>) and the collecting sink.
\<close>

subsection \<open>Frames, packets and the source\<close>

datatype media_codec = RawCodec | Rle | H264Codec | H265Codec | Av1Codec

record raw_frame =
  rf_width :: u16
  rf_height :: u16
  rf_pts_micros :: u64
  rf_rgba :: bytes

record encoded_packet =
  ep_codec :: media_codec
  ep_key_frame :: bool
  ep_width :: u16
  ep_height :: u16
  ep_pts_micros :: u64
  ep_data :: bytes

definition RawFrame_solid :: "u16 \<Rightarrow> u16 \<Rightarrow> u64 \<Rightarrow> bytes \<Rightarrow> raw_frame" where
  "RawFrame_solid w h pts rgba =
     \<lparr>rf_width = w, rf_height = h, rf_pts_micros = pts, rf_rgba = concat (replicate (unat w * unat h) rgba)\<rparr>"

record solid_color_source =
  sc_width :: u16
  sc_height :: u16
  sc_frames :: u32
  sc_emitted :: u32
  sc_pts :: u64
  sc_frame_interval_micros :: u64

definition SolidColorSource_new :: "u16 \<Rightarrow> u16 \<Rightarrow> u32 \<Rightarrow> u32 \<Rightarrow> solid_color_source" where
  "SolidColorSource_new w h frames fps =
     \<lparr>sc_width = w, sc_height = h, sc_frames = frames, sc_emitted = 0, sc_pts = 0,
      sc_frame_interval_micros = (if fps = 0 then 16666 else 1000000 div ucast fps)\<rparr>"

definition next_frame :: "solid_color_source \<Rightarrow> (raw_frame \<times> solid_color_source) option" where
  "next_frame s =
     (if sc_emitted s \<ge> sc_frames s then None
      else
        let v = ucast (sc_emitted s mod 256) :: u8 in
        Some (RawFrame_solid (sc_width s) (sc_height s) (sc_pts s) [v, 64, 128, 255],
              s\<lparr>sc_emitted := sc_emitted s + 1, sc_pts := sc_pts s + sc_frame_interval_micros s\<rparr>))"

subsection \<open>The run-length codec\<close>

fun chunks_exact :: "nat \<Rightarrow> 'a list \<Rightarrow> 'a list list" where
  "chunks_exact n xs = (if n = 0 \<or> length xs < n then [] else take n xs # chunks_exact n (drop n xs))"

declare chunks_exact.simps [simp del]

fun run_length :: "bytes \<Rightarrow> bytes list \<Rightarrow> nat \<Rightarrow> nat" where
  "run_length px (q # qs) run = (if q = px \<and> run < 255 then run_length px qs (run + 1) else run)"
| "run_length px [] run = run"

function rle_pixels :: "bytes list \<Rightarrow> bytes" where
  "rle_pixels [] = []"
| "rle_pixels (px # ps) =
     (let run = run_length px ps 1 in of_nat run # px @ rle_pixels (drop (run - 1) ps))"
  by pat_completeness auto
termination by (relation "measure length") auto

definition rle_encode :: "bytes \<Rightarrow> bytes" where
  "rle_encode dat = rle_pixels (chunks_exact 4 dat)"

definition rle_decode :: "bytes \<Rightarrow> bytes" where
  "rle_decode dat = concat (map (\<lambda>chunk. concat (replicate (unat (chunk ! 0)) (take 4 (drop 1 chunk)))) (chunks_exact 5 dat))"

definition RleEncoder_encode :: "raw_frame \<Rightarrow> encoded_packet" where
  "RleEncoder_encode f =
     \<lparr>ep_codec = Rle, ep_key_frame = True, ep_width = rf_width f, ep_height = rf_height f, ep_pts_micros = rf_pts_micros f,
      ep_data = rle_encode (rf_rgba f)\<rparr>"

definition RleDecoder_decode :: "encoded_packet \<Rightarrow> raw_frame option" where
  "RleDecoder_decode p =
     (if ep_codec p \<noteq> Rle then None
      else Some \<lparr>rf_width = ep_width p, rf_height = ep_height p, rf_pts_micros = ep_pts_micros p, rf_rgba = rle_decode (ep_data p)\<rparr>)"

definition CollectingSink_present :: "raw_frame \<Rightarrow> raw_frame list \<Rightarrow> raw_frame list" where
  "CollectingSink_present f frames = frames @ [f]"

subsection \<open>The codec is lossless\<close>

lemma run_length_split: "run \<le> 255 \<Longrightarrow> run \<le> run_length px ps run \<and> run_length px ps run \<le> 255 \<and>
    run_length px ps run - run \<le> length ps \<and> take (run_length px ps run - run) ps = replicate (run_length px ps run - run) px"
proof (induction px ps run rule: run_length.induct)
  case (1 px q qs run)
  show ?case
  proof (cases "q = px \<and> run < 255")
    case True
    then have "Suc run \<le> run_length px qs (run + 1)" and IH: "run_length px qs (run + 1) \<le> 255"
      "run_length px qs (run + 1) - (run + 1) \<le> length qs"
      "take (run_length px qs (run + 1) - (run + 1)) qs = replicate (run_length px qs (run + 1) - (run + 1)) px" using 1 by auto
    then obtain n where "run_length px qs (run + 1) = Suc run + n" using le_Suc_ex by blast
    then show ?thesis using True IH by simp
  qed (use 1 in auto)
qed simp

lemma chunks_exact_append: "length xs = n \<Longrightarrow> 0 < n \<Longrightarrow> chunks_exact n (xs @ ys) = xs # chunks_exact n ys"
  by (simp add: chunks_exact.simps [of n "xs @ ys"])

lemma rle_pixels_decode:
  assumes "list_all (\<lambda>p. length p = 4) ps"
  shows "rle_decode (rle_pixels ps) = concat ps \<and> length (rle_pixels ps) \<le> 5 * length ps"
  using assms
proof (induction ps rule: rle_pixels.induct)
  case 1
  then show ?case by (simp add: rle_decode_def chunks_exact.simps)
next
  case (2 px ps)
  define run where "run = run_length px ps 1"
  have r: "1 \<le> run" "run \<le> 255" "run - 1 \<le> length ps" "take (run - 1) ps = replicate (run - 1) px"
    using run_length_split [of 1 px ps] by (auto simp: run_def)
  have IH: "rle_decode (rle_pixels (drop (run - 1) ps)) = concat (drop (run - 1) ps)"
    "length (rle_pixels (drop (run - 1) ps)) \<le> 5 * length (drop (run - 1) ps)"
    using "2.IH" [OF run_def] "2.prems" by (auto simp: list_all_iff dest: in_set_dropD)
  have px: "length px = 4" using "2.prems" by simp
  have "ps = replicate (run - 1) px @ drop (run - 1) ps" using r(4) append_take_drop_id [of "run - 1" ps] by simp
  then have "concat (px # ps) = concat (replicate run px) @ concat (drop (run - 1) ps)"
    using r(1) by (cases run) (simp_all, metis concat_append)
  moreover have enc: "rle_pixels (px # ps) = (of_nat run # px) @ rle_pixels (drop (run - 1) ps)" by (simp add: run_def Let_def)
  then have "rle_decode (rle_pixels (px # ps)) = concat (replicate run px) @ rle_decode (rle_pixels (drop (run - 1) ps))"
    using px r(2) by (simp add: rle_decode_def chunks_exact_append [of "of_nat run # px" 5, simplified] unat_of_nat)
  moreover have "length (rle_pixels (px # ps)) \<le> 5 * length (px # ps)" unfolding enc using IH(2) r(1,3) px by simp
  ultimately show ?case using IH(1) by simp
qed

lemma concat_chunks_exact: "0 < n \<Longrightarrow> concat (chunks_exact n xs) = take (n * (length xs div n)) xs \<and> length (chunks_exact n xs) = length xs div n \<and>
    list_all (\<lambda>c. length c = n) (chunks_exact n xs)"
proof (induction n xs rule: chunks_exact.induct)
  case (1 n xs)
  show ?case
  proof (cases "length xs < n")
    case True
    then show ?thesis by (simp add: chunks_exact.simps)
  next
    case False
    then have IH: "concat (chunks_exact n (drop n xs)) = take (n * ((length xs - n) div n)) (drop n xs)"
      "length (chunks_exact n (drop n xs)) = (length xs - n) div n" "list_all (\<lambda>c. length c = n) (chunks_exact n (drop n xs))"
      using 1 by auto
    have d: "length xs div n = Suc ((length xs - n) div n)" using False "1.prems" by (simp add: le_div_geq)
    then show ?thesis using False "1.prems" IH by (simp add: chunks_exact.simps [of n xs] take_add)
  qed
qed

text \<open>The whole baseline: frames of the source, encoded, decoded and presented.\<close>

fun source_frames :: "nat \<Rightarrow> solid_color_source \<Rightarrow> raw_frame list" where
  "source_frames 0 s = []"
| "source_frames (Suc n) s = (case next_frame s of None \<Rightarrow> [] | Some (f, s) \<Rightarrow> f # source_frames n s)"

fun present_all :: "encoded_packet list \<Rightarrow> raw_frame list \<Rightarrow> raw_frame list" where
  "present_all [] sink = sink"
| "present_all (p # ps) sink =
     present_all ps (case RleDecoder_decode p of Some f \<Rightarrow> CollectingSink_present f sink | None \<Rightarrow> sink)"

lemma source_frames_emitted:
  assumes "sc_emitted s \<le> sc_frames s"
  shows "length (source_frames n s) = min n (unat (sc_frames s - sc_emitted s)) \<and>
    list_all (\<lambda>f. length (rf_rgba f) = 4 * (unat (sc_width s) * unat (sc_height s))) (source_frames n s)"
  using assms
proof (induction n arbitrary: s)
  case (Suc n)
  show ?case
  proof (cases "sc_emitted s = sc_frames s")
    case True
    then show ?thesis by (simp add: next_frame_def)
  next
    case False
    let ?s = "s\<lparr>sc_emitted := sc_emitted s + 1, sc_pts := sc_pts s + sc_frame_interval_micros s\<rparr>"
    have lt: "sc_emitted s < sc_frames s" using False Suc.prems by simp
    then have le: "sc_emitted ?s \<le> sc_frames ?s" using inc_le by simp
    have u: "unat (sc_frames s - sc_emitted s) = Suc (unat (sc_frames s - (sc_emitted s + 1)))"
    proof -
      have a: "unat (sc_frames s - sc_emitted s) = unat (sc_frames s) - unat (sc_emitted s)"
        using lt by (simp add: unat_sub less_imp_le)
      have b: "unat (sc_emitted s + 1) = Suc (unat (sc_emitted s))"
        using lt unsigned_less [of "sc_frames s", where ?'a = nat] by (simp add: word_less_nat_alt unat_word_ariths)
      have "unat (sc_frames s - (sc_emitted s + 1)) = unat (sc_frames s) - unat (sc_emitted s + 1)"
        using le by (simp add: unat_sub)
      then show ?thesis using a b lt by (simp add: word_less_nat_alt)
    qed
    have "length (concat (replicate k [a, b, c, d])) = 4 * k" for k and a b c d :: u8 by (induction k) auto
    then show ?thesis using Suc.IH [OF le] lt u by (simp add: next_frame_def RawFrame_solid_def Let_def)
  qed
qed simp

lemma decode_encode_frame: "4 dvd length (rf_rgba f) \<Longrightarrow> RleDecoder_decode (RleEncoder_encode f) = Some f"
  using rle_pixels_decode [of "chunks_exact 4 (rf_rgba f)"] concat_chunks_exact [of 4 "rf_rgba f"]
  by (simp add: RleDecoder_decode_def RleEncoder_encode_def rle_encode_def)

lemma present_all_decoded:
  "list_all (\<lambda>f. 4 dvd length (rf_rgba f)) fs \<Longrightarrow> present_all (map RleEncoder_encode fs) sink = sink @ fs"
  by (induction fs arbitrary: sink) (simp_all add: decode_encode_frame CollectingSink_present_def)

text \<open>
  C20: the software codec is lossless. Decoding what was encoded gives back every whole pixel of any data, at no more than
  five bytes per pixel; packets of another codec are refused; a source emits exactly its number of frames, each
  of width times height pixels, and encoding, decoding and presenting them hands the sink exactly those frames.
\<close>

theorem rle_lossless:
  "rle_decode (rle_encode dat) = take (4 * (length dat div 4)) dat \<and> length (rle_encode dat) \<le> 5 * (length dat div 4) \<and>
   (ep_codec p \<noteq> Rle \<longrightarrow> RleDecoder_decode p = None) \<and>
   (let fs = source_frames n (SolidColorSource_new w h frames fps) in
      length fs = min n (unat frames) \<and> list_all (\<lambda>f. length (rf_rgba f) = 4 * (unat w * unat h)) fs \<and>
      present_all (map RleEncoder_encode fs) [] = fs)"
proof -
  let ?s = "SolidColorSource_new w h frames fps" and ?fs = "source_frames n (SolidColorSource_new w h frames fps)"
  have "rle_decode (rle_encode dat) = take (4 * (length dat div 4)) dat \<and> length (rle_encode dat) \<le> 5 * (length dat div 4)"
    using rle_pixels_decode [of "chunks_exact 4 dat"] concat_chunks_exact [of 4 dat] by (simp add: rle_encode_def)
  moreover have fs: "length ?fs = min n (unat frames)" "list_all (\<lambda>f. length (rf_rgba f) = 4 * (unat w * unat h)) ?fs"
    using source_frames_emitted [of ?s n] by (simp_all add: SolidColorSource_new_def)
  moreover have "present_all (map RleEncoder_encode ?fs) [] = [] @ ?fs"
    by (rule present_all_decoded) (use fs(2) in \<open>auto simp: list_all_iff\<close>)
  ultimately show ?thesis by (simp add: RleDecoder_decode_def Let_def)
qed

theorem rle_lossless_witness:
  "rle_encode [1, 2, 3, 4, 1, 2, 3, 4, 9, 9, 9, 9, 5] = [2, 1, 2, 3, 4, 1, 9, 9, 9, 9] \<and>
   rle_decode (rle_encode [1, 2, 3, 4, 1, 2, 3, 4, 9, 9, 9, 9, 5]) = [1, 2, 3, 4, 1, 2, 3, 4, 9, 9, 9, 9]"
  using rle_lossless [of "[1, 2, 3, 4, 1, 2, 3, 4, 9, 9, 9, 9, 5]" "RleEncoder_encode (RawFrame_solid 0 0 0 [])" 0 0 0 0 0]
  by (simp add: rle_encode_def chunks_exact.simps)

end
