(* ===== verification/Pulsar_Held.thy ===== *)
theory Pulsar_Held
  imports Pulsar_Input
begin

text \<open>
  What the host-side mouse and keyboard injectors (\<^verbatim>\<open>input/uinput.rs\<close>, \<^verbatim>\<open>windows.rs\<close>, \<^verbatim>\<open>macos.rs\<close>,
  \<^verbatim>\<open>window_win.rs\<close>) share: the calls of the public surface, the wheel accumulator, the conversions of the pointer
  arithmetic, and the contract that every backend has to keep: what the machine sees pressed is always tracked as
  held, and a flush releases it.
\<close>

subsection \<open>Calls\<close>

text \<open>
  The methods of \<^verbatim>\<open>DesktopInput\<close> and \<^verbatim>\<open>WindowInput\<close> that inject something.  Coordinates and deltas are finite
  \<^verbatim>\<open>f64\<close> values, a character is its Unicode scalar value.
\<close>

datatype desk_op =
    OpPointer rat rat
  | OpPointerRelative rat rat
  | OpButton u8 bool
  | OpScroll rat rat
  | OpKey u32 bool
  | OpTypeChar nat
  | OpFlushHeld

text \<open>
  A backend performs a call in an environment (what the operating system answers during the call and the order in
  which a hash set is drained) and returns its new state and what it sent, in order.
\<close>

primrec run_ops :: "('v \<Rightarrow> desk_op \<Rightarrow> 's \<Rightarrow> 's \<times> 'e list) \<Rightarrow> ('v \<times> desk_op) list \<Rightarrow> 's \<Rightarrow> 's \<times> 'e list" where
  "run_ops step [] s = (s, [])"
| "run_ops step (c # cs) s =
     (let (s', es) = step (fst c) (snd c) s; (s'', es') = run_ops step cs s' in (s'', es @ es'))"

definition drains :: "('a set \<Rightarrow> 'a list) \<Rightarrow> bool" where
  "drains dr \<longleftrightarrow> (\<forall>X. set (dr X) = X)"

lemma drains_set: "drains dr \<Longrightarrow> set (dr X) = X"
  by (simp add: drains_def)

lemma drains_sorted: "drains (sorted_list_of_set :: ('a :: len) word set \<Rightarrow> 'a word list)"
  by (simp add: drains_def)

subsection \<open>The contract of an injector\<close>

text \<open>
  \<open>held\<close> is what the backend tracks as pressed, \<open>eff\<close> the effect of one sent event on what the machine sees
  pressed.  A client of the contract needs no more than these laws to know that nothing stays pressed.
\<close>

locale injector =
  fixes step :: "'v \<Rightarrow> desk_op \<Rightarrow> 's \<Rightarrow> 's \<times> 'e list"
    and held :: "'s \<Rightarrow> 'c set"
    and eff :: "'e \<Rightarrow> 'c set \<Rightarrow> 'c set"
    and env_ok :: "'v \<Rightarrow> bool"
  assumes tracks: "env_ok v \<Longrightarrow> D \<subseteq> held s \<Longrightarrow> fold eff (snd (step v op s)) D \<subseteq> held (fst (step v op s))"
    and flush_empties: "held (fst (step v OpFlushHeld s)) = {}"
    and flush_quiet: "env_ok v \<Longrightarrow> held s = {} \<Longrightarrow> snd (step v OpFlushHeld s) = []"
begin

lemma run_tracks:
  "list_all (\<lambda>c. env_ok (fst c)) cs \<Longrightarrow> D \<subseteq> held s \<Longrightarrow>
    fold eff (snd (run_ops step cs s)) D \<subseteq> held (fst (run_ops step cs s))"
proof (induction cs arbitrary: D s)
  case (Cons c cs)
  obtain s' es where c: "step (fst c) (snd c) s = (s', es)" by (cases "step (fst c) (snd c) s")
  have "fold eff es D \<subseteq> held s'" using tracks [of "fst c" D s "snd c"] Cons.prems c by simp
  from Cons.IH [OF _ this] Cons.prems c show ?case by (simp add: split_beta)
qed simp

lemma flush_releases:
  assumes "env_ok v" "D \<subseteq> held s"
  shows "fold eff (snd (step v OpFlushHeld s)) D = {}"
  using tracks [OF assms, of OpFlushHeld] flush_empties [of v s] by simp

lemma run_then_flush:
  assumes "list_all (\<lambda>c. env_ok (fst c)) cs" "env_ok v" "held s = {}"
  shows "fold eff (snd (run_ops step (cs @ [(v, OpFlushHeld)]) s)) {} = {}"
proof -
  have "run_ops step (cs @ ds) s = (let (s', es) = run_ops step cs s; (s'', es') = run_ops step ds s' in (s'', es @ es'))" for ds s
    by (induction cs arbitrary: s) (simp_all add: split_beta)
  moreover have "fold eff (snd (run_ops step cs s)) {} \<subseteq> held (fst (run_ops step cs s))"
    using assms run_tracks by blast
  ultimately show ?thesis using flush_releases [OF assms(2)] by (simp add: split_beta)
qed

lemma flush_twice: "env_ok v \<Longrightarrow> snd (step v OpFlushHeld (fst (step v' OpFlushHeld s))) = []"
  by (simp add: flush_quiet flush_empties)

end

subsection \<open>Numbers\<close>

definition as_i32 :: "rat \<Rightarrow> int" where
  "as_i32 x = max (- (2 ^ 31)) (min (2 ^ 31 - 1) (if 0 \<le> x then \<lfloor>x\<rfloor> else \<lceil>x\<rceil>))"

definition trunc64 :: "rat \<Rightarrow> rat" where
  "trunc64 x = (if 0 \<le> x then of_int \<lfloor>x\<rfloor> else of_int \<lceil>x\<rceil>)"

definition wrap32 :: "int \<Rightarrow> int" where
  "wrap32 k = (k + 2 ^ 31) mod 2 ^ 32 - 2 ^ 31"

lemma as_i32_range: "- (2 ^ 31) \<le> as_i32 x" "as_i32 x < 2 ^ 31"
  by (auto simp: as_i32_def)

lemma wrap32_range: "- (2 ^ 31) \<le> wrap32 k" "wrap32 k < 2 ^ 31"
  by (auto simp: wrap32_def)

lemma wrap32_id: "- (2 ^ 31) \<le> k \<Longrightarrow> k < 2 ^ 31 \<Longrightarrow> wrap32 k = k"
  by (simp add: wrap32_def)

text \<open>One axis of the wheel: the notches gained are added to the carried remainder, the whole part is sent.\<close>

definition scroll_axis :: "rat \<Rightarrow> rat \<Rightarrow> rat \<times> int" where
  "scroll_axis acc d =
     (let a = f64_add acc (f64_div d 100); v = as_i32 (trunc64 a) in (f64_sub a (of_int v), v))"

lemma as_i32_trunc: "as_i32 (trunc64 a) = as_i32 a"
  by (simp add: as_i32_def trunc64_def)

lemma rnd64_form: "\<exists>m e. rnd64 x = of_int m * 2 powi e \<and> \<bar>m\<bar> \<le> 2 ^ 53 \<and> - 1074 \<le> e"
  unfolding rnd64_def by (rule fround_form)

lemma trunc64_int: "trunc64 a = of_int (if 0 \<le> a then \<lfloor>a\<rfloor> else \<lceil>a\<rceil>)"
  by (simp add: trunc64_def)

text \<open>Taking the whole part off a float leaves a float: the remainder is carried without rounding.\<close>

lemma remainder_exact: "rnd64 (rnd64 x - trunc64 (rnd64 x)) = rnd64 x - trunc64 (rnd64 x)"
proof -
  let ?a = "rnd64 x"
  obtain m e where a: "?a = of_int m * 2 powi e" and m: "\<bar>m\<bar> \<le> 2 ^ 53" and e: "- 1074 \<le> e"
    using rnd64_form by blast
  obtain t where t: "trunc64 ?a = of_int t" and near: "\<bar>?a - of_int t\<bar> \<le> \<bar>?a\<bar>"
  proof (rule that)
    show "trunc64 ?a = of_int (if 0 \<le> ?a then \<lfloor>?a\<rfloor> else \<lceil>?a\<rceil>)" by (rule trunc64_int)
    show "\<bar>?a - of_int (if 0 \<le> ?a then \<lfloor>?a\<rfloor> else \<lceil>?a\<rceil>)\<bar> \<le> \<bar>?a\<bar>"
      by (auto simp: abs_if) linarith+
  qed
  show ?thesis
  proof (cases "0 \<le> e")
    case True
    then have "?a = of_int (m * 2 ^ nat e)" by (simp add: a power_int_def)
    then have "trunc64 ?a = ?a" by (simp only: trunc64_def) simp
    then show ?thesis by (simp add: f64.zero)
  next
    case False
    have pw: "2 powi (- e) * 2 powi e = (1 :: rat)" by (simp add: power_int_minus)
    have "(of_int t :: rat) = of_int (t * 2 ^ nat (- e)) * 2 powi e"
      using False pw by (simp add: power_int_def)
    then have d: "?a - trunc64 ?a = of_int (m - t * 2 ^ nat (- e)) * 2 powi e"
      unfolding t unfolding a of_int_diff left_diff_distrib by (simp only:)
    have "\<bar>of_int (m - t * 2 ^ nat (- e))\<bar> * 2 powi e \<le> \<bar>of_int m\<bar> * (2 powi e :: rat)"
      using near d t a by (simp add: abs_mult)
    then have "\<bar>m - t * 2 ^ nat (- e)\<bar> \<le> \<bar>m\<bar>"
      by (metis mult_le_cancel_right_pos of_int_abs of_int_le_iff powi_pos)
    with m have "\<bar>m - t * 2 ^ nat (- e)\<bar> \<le> 2 ^ 53" by linarith
    from fround_representable [OF _ this e] show ?thesis by (simp add: d flip: rnd64_def)
  qed
qed

lemma scroll_axis_carries:
  assumes "scroll_axis acc d = (acc', v)" "\<bar>f64_add acc (f64_div d 100)\<bar> < 2 ^ 31"
  shows "of_int v + acc' = f64_add acc (f64_div d 100)" "\<bar>acc'\<bar> < 1"
    "v \<noteq> 0 \<Longrightarrow> sgn (of_int v) = sgn (f64_add acc (f64_div d 100))"
proof -
  let ?a = "f64_add acc (f64_div d 100)"
  have f: "\<lfloor>?a\<rfloor> < 2 ^ 31" "- (2 ^ 31) \<le> \<lceil>?a\<rceil>"
    using assms(2) by (simp_all add: floor_less_iff le_ceiling_iff abs_less_iff)
  let ?t = "if 0 \<le> ?a then \<lfloor>?a\<rfloor> else \<lceil>?a\<rceil>"
  have "?t \<le> 2 ^ 31 - 1" "- (2 ^ 31) \<le> ?t" using f by (auto simp: le_floor_iff ceiling_le_iff)
  then have "as_i32 ?a = ?t" unfolding as_i32_def by (simp only: min_absorb2 max_absorb2)
  then have v: "of_int v = trunc64 ?a"
    using assms(1) unfolding trunc64_int by (auto simp only: scroll_axis_def Let_def as_i32_trunc prod.inject)
  then show sum: "of_int v + acc' = ?a"
    using assms(1) remainder_exact [of "acc + f64_div d 100"]
    by (auto simp: scroll_axis_def Let_def f64_sub_def f64_add_def)
  have "\<bar>?a - trunc64 ?a\<bar> < 1" unfolding trunc64_def by (auto simp: abs_if) linarith+
  with sum v show "\<bar>acc'\<bar> < 1" by (simp add: algebra_simps)
  show "v \<noteq> 0 \<Longrightarrow> sgn (of_int v) = sgn ?a"
    using v by (auto simp: trunc64_def sgn_if split: if_splits) linarith+
qed

subsection \<open>Buttons and characters\<close>

text \<open>The button that a client's button number presses on every backend.\<close>

datatype mouse_button = LeftBtn | RightBtn | MiddleBtn

definition btn_of :: "u8 \<Rightarrow> mouse_button" where
  "btn_of b = (if b = 1 then RightBtn else if b = 2 then MiddleBtn else LeftBtn)"

text \<open>\<^verbatim>\<open>char::encode_utf16\<close>, with the decoding that the receiver of the units performs.\<close>

definition encode_utf16 :: "nat \<Rightarrow> u16 list" where
  "encode_utf16 c =
     (if c < 0x10000 then [of_nat c]
      else [of_nat (0xD800 + (c - 0x10000) div 0x400), of_nat (0xDC00 + (c - 0x10000) mod 0x400)])"

definition unicode_scalar :: "nat \<Rightarrow> bool" where
  "unicode_scalar c \<longleftrightarrow> c < 0xD800 \<or> 0xE000 \<le> c \<and> c < 0x110000"

fun decode_utf16 :: "u16 list \<Rightarrow> nat option" where
  "decode_utf16 [u] = (if unat u < 0xD800 \<or> 0xE000 \<le> unat u then Some (unat u) else None)"
| "decode_utf16 [u, v] =
     (if 0xD800 \<le> unat u \<and> unat u < 0xDC00 \<and> 0xDC00 \<le> unat v \<and> unat v < 0xE000
      then Some (0x10000 + (unat u - 0xD800) * 0x400 + (unat v - 0xDC00)) else None)"
| "decode_utf16 _ = None"

lemma utf16_roundtrip: "unicode_scalar c \<Longrightarrow> decode_utf16 (encode_utf16 c) = Some c"
proof (cases "c < 0x10000")
  case False
  assume "unicode_scalar c"
  with False have q: "(c - 0x10000) div 0x400 < 0x400" by (auto simp: unicode_scalar_def)
  have "unat (of_nat (0xD800 + (c - 0x10000) div 0x400) :: u16) = 0xD800 + (c - 0x10000) div 0x400"
    by (subst unat_of_nat) (use q in simp)
  moreover have "unat (of_nat (0xDC00 + (c - 0x10000) mod 0x400) :: u16) = 0xDC00 + (c - 0x10000) mod 0x400"
    by (subst unat_of_nat) simp
  moreover have "(c - 0x10000) div 0x400 * 0x400 + (c - 0x10000) mod 0x400 = c - 0x10000" by (rule div_mult_mod_eq)
  ultimately show ?thesis using False q unfolding encode_utf16_def by (simp only: if_False decode_utf16.simps) simp
qed (auto simp: unicode_scalar_def encode_utf16_def unat_of_nat)

end
