(* ===== verification/Pulsar_Uinput.thy ===== *)
theory Pulsar_Uinput
  imports Pulsar_Held
begin

text \<open>
  The Linux backends (\<^verbatim>\<open>input/uinput.rs\<close>) and the pointer region they are given (\<^verbatim>\<open>capture.rs\<close>): the virtual
  gamepad, the three virtual devices of the desktop injector and every call on them.  Event types, key, axis and
  bus codes are those of the kernel's input ABI.  A device is described by what it declares when it is built; the
  kernel decides whether building succeeds.  What a call sends is returned; the result of a send is ignored by the code.
\<close>

subsection \<open>Devices and events\<close>

datatype event_type = EV_KEY | EV_REL | EV_ABS

type_synonym input_ev = "event_type \<times> u16 \<times> int"

record abs_info =
  ai_value :: int
  ai_min :: int
  ai_max :: int
  ai_fuzz :: int
  ai_flat :: int
  ai_res :: int

definition AbsInfo_new :: "int \<Rightarrow> int \<Rightarrow> int \<Rightarrow> int \<Rightarrow> int \<Rightarrow> int \<Rightarrow> abs_info" where
  "AbsInfo_new v lo hi fuzz flat res =
     \<lparr>ai_value = v, ai_min = lo, ai_max = hi, ai_fuzz = fuzz, ai_flat = flat, ai_res = res\<rparr>"

record vdev_spec =
  vd_name :: string
  vd_id :: "(u16 \<times> u16 \<times> u16 \<times> u16) option"
  vd_direct :: bool
  vd_keys :: "u16 list"
  vd_abs :: "(u16 \<times> abs_info) list"
  vd_rel :: "u16 list"

definition BUS_USB :: u16 where "BUS_USB = 3"

definition REL_X :: u16 where "REL_X = 0"
definition REL_Y :: u16 where "REL_Y = 1"
definition REL_HWHEEL :: u16 where "REL_HWHEEL = 6"
definition REL_WHEEL :: u16 where "REL_WHEEL = 8"

definition ABS_X :: u16 where "ABS_X = 0"
definition ABS_Y :: u16 where "ABS_Y = 1"
definition ABS_Z :: u16 where "ABS_Z = 2"
definition ABS_RX :: u16 where "ABS_RX = 3"
definition ABS_RY :: u16 where "ABS_RY = 4"
definition ABS_RZ :: u16 where "ABS_RZ = 5"

lemmas axis_defs = REL_X_def REL_Y_def REL_HWHEEL_def REL_WHEEL_def ABS_X_def ABS_Y_def ABS_Z_def ABS_RX_def ABS_RY_def ABS_RZ_def

definition BTN_LEFT :: u16 where "BTN_LEFT = 0x110"
definition BTN_RIGHT :: u16 where "BTN_RIGHT = 0x111"
definition BTN_MIDDLE :: u16 where "BTN_MIDDLE = 0x112"
definition KEY_LEFTSHIFT :: u16 where "KEY_LEFTSHIFT = 42"
definition KEY_RIGHTSHIFT :: u16 where "KEY_RIGHTSHIFT = 54"

lemmas code_defs = BTN_LEFT_def BTN_RIGHT_def BTN_MIDDLE_def KEY_LEFTSHIFT_def KEY_RIGHTSHIFT_def

subsection \<open>The virtual gamepad\<close>

definition evdev_buttons :: "(u32 \<times> u16) list" where
  "evdev_buttons = [(btn_A, 0x130), (btn_B, 0x131), (btn_X, 0x134), (btn_Y, 0x133), (btn_LB, 0x136), (btn_RB, 0x137),
     (btn_BACK, 0x13A), (btn_START, 0x13B), (btn_GUIDE, 0x13C), (btn_L3, 0x13D), (btn_R3, 0x13E),
     (btn_DPAD_UP, 0x220), (btn_DPAD_DOWN, 0x221), (btn_DPAD_LEFT, 0x222), (btn_DPAD_RIGHT, 0x223)]"

record uinput_gamepad =
  ug_kind :: gamepad_kind
  ug_dev :: vdev_spec

definition gamepad_spec :: "resolved_target \<Rightarrow> vdev_spec" where
  "gamepad_spec resolved =
     (let stick = AbsInfo_new 0 (- 32768) 32767 16 128 1; trig = AbsInfo_new 0 0 255 0 0 1;
          (name, ident) = (case resolved of
             ResDs4 \<Rightarrow> (''Pulsar Wireless Controller'', (BUS_USB, 0x054C, 0x05C4, 0x8111))
           | ResXbox360 \<Rightarrow> (''Pulsar Virtual Gamepad'', (BUS_USB, 0x045E, 0x028E, 0x0114)))
      in \<lparr>vd_name = name, vd_id = Some ident, vd_direct = False, vd_keys = map snd evdev_buttons,
          vd_abs = [(ABS_X, stick), (ABS_Y, stick), (ABS_RX, stick), (ABS_RY, stick), (ABS_Z, trig), (ABS_RZ, trig)],
          vd_rel = []\<rparr>)"

definition UinputGamepad_new_target ::
  "(vdev_spec \<Rightarrow> 'x option) \<Rightarrow> gamepad_kind \<Rightarrow> resolved_target \<Rightarrow> 'x + uinput_gamepad" where
  "UinputGamepad_new_target build kind resolved =
     (case build (gamepad_spec resolved) of
        Some err \<Rightarrow> Inl err
      | None \<Rightarrow> Inr \<lparr>ug_kind = kind, ug_dev = gamepad_spec resolved\<rparr>)"

definition UinputGamepad_new :: "(vdev_spec \<Rightarrow> 'x option) \<Rightarrow> gamepad_kind \<Rightarrow> 'x + uinput_gamepad" where
  "UinputGamepad_new build kind = UinputGamepad_new_target build kind ResXbox360"

definition inv_y :: "i16 \<Rightarrow> int" where
  "inv_y v = - (max (sint v) (- 32768 + 1))"

definition UinputGamepad_apply :: "gamepad_state \<Rightarrow> input_ev list" where
  "UinputGamepad_apply st =
     map (\<lambda>(bt, key). (EV_KEY, key, if is_pressed st bt then 1 else 0)) evdev_buttons @
     [(EV_ABS, ABS_X, sint (left_x st)), (EV_ABS, ABS_Y, inv_y (left_y st)),
      (EV_ABS, ABS_RX, sint (right_x st)), (EV_ABS, ABS_RY, inv_y (right_y st)),
      (EV_ABS, ABS_Z, uint (left_trigger st)), (EV_ABS, ABS_RZ, uint (right_trigger st))]"

subsection \<open>The pointer region of the streamed monitor\<close>

record pointer_region =
  pr_x :: rat
  pr_y :: rat
  pr_w :: rat
  pr_h :: rat

record rect =
  rc_x :: int
  rc_y :: int
  rc_w :: int
  rc_h :: int

definition region_in :: "rect \<Rightarrow> rect \<Rightarrow> pointer_region option" where
  "region_in r bounds =
     (if rc_w bounds \<le> 0 \<or> rc_h bounds \<le> 0 \<or> rc_x r < rc_x bounds \<or> rc_y r < rc_y bounds \<or>
         rc_x r + rc_w r > rc_x bounds + rc_w bounds \<or> rc_y r + rc_h r > rc_y bounds + rc_h bounds
      then None
      else let bw = of_int (rc_w bounds); bh = of_int (rc_h bounds) in
        Some \<lparr>pr_x = f64_div (f64_add (of_int (rc_x r - rc_x bounds)) (1 / 2)) bw,
              pr_y = f64_div (f64_add (of_int (rc_y r - rc_y bounds)) (1 / 2)) bh,
              pr_w = f64_div (of_int (max (rc_w r - 1) 0)) bw,
              pr_h = f64_div (of_int (max (rc_h r - 1) 0)) bh\<rparr>)"

definition output_bounds :: "rect list \<Rightarrow> rect option" where
  "output_bounds rects =
     (let rs = filter (\<lambda>r. rc_w r > 0 \<and> rc_h r > 0) rects in
      if rs = [] then None
      else let x0 = Min (set (map rc_x rs)); y0 = Min (set (map rc_y rs));
               x1 = Max (set (map (\<lambda>r. rc_x r + rc_w r) rs)); y1 = Max (set (map (\<lambda>r. rc_y r + rc_h r) rs))
           in Some \<lparr>rc_x = x0, rc_y = y0, rc_w = x1 - x0, rc_h = y1 - y0\<rparr>)"

subsection \<open>The desktop injector\<close>

definition ABS_MAX :: int where "ABS_MAX = 65535"

datatype desk_dev = DevPointer | DevMouse | DevKeyboard

record desktop_linux =
  dl_spec :: "desk_dev \<Rightarrow> vdev_spec"
  dl_scroll_v :: rat
  dl_scroll_h :: rat
  dl_region :: "pointer_region option"
  dl_held_buttons :: "u16 set"
  dl_held_keys :: "u16 set"

fun desk_spec :: "desk_dev \<Rightarrow> vdev_spec" where
  "desk_spec DevPointer =
     \<lparr>vd_name = ''Pulsar Virtual Pointer'', vd_id = None, vd_direct = True, vd_keys = [BTN_LEFT, BTN_RIGHT, BTN_MIDDLE],
      vd_abs = [(ABS_X, AbsInfo_new 0 0 ABS_MAX 0 0 1), (ABS_Y, AbsInfo_new 0 0 ABS_MAX 0 0 1)], vd_rel = []\<rparr>"
| "desk_spec DevMouse =
     \<lparr>vd_name = ''Pulsar Virtual Mouse'', vd_id = None, vd_direct = False, vd_keys = [BTN_LEFT, BTN_RIGHT, BTN_MIDDLE],
      vd_abs = [], vd_rel = [REL_X, REL_Y, REL_WHEEL, REL_HWHEEL]\<rparr>"
| "desk_spec DevKeyboard =
     \<lparr>vd_name = ''Pulsar Virtual Keyboard'', vd_id = None, vd_direct = False, vd_keys = map of_nat [1..<249],
      vd_abs = [], vd_rel = []\<rparr>"

definition DesktopInput_new :: "(vdev_spec \<Rightarrow> 'x option) \<Rightarrow> 'x + desktop_linux" where
  "DesktopInput_new build =
     (case build (desk_spec DevPointer) of Some err \<Rightarrow> Inl err
      | None \<Rightarrow> (case build (desk_spec DevMouse) of Some err \<Rightarrow> Inl err
      | None \<Rightarrow> (case build (desk_spec DevKeyboard) of Some err \<Rightarrow> Inl err
      | None \<Rightarrow> Inr \<lparr>dl_spec = desk_spec, dl_scroll_v = 0, dl_scroll_h = 0, dl_region = None,
                     dl_held_buttons = {}, dl_held_keys = {}\<rparr>)))"

definition uinput_set_region :: "pointer_region option \<Rightarrow> desktop_linux \<Rightarrow> desktop_linux" where
  "uinput_set_region r s = s\<lparr>dl_region := r\<rparr>"

type_synonym emission = "desk_dev \<times> input_ev list"

definition abs_coord :: "rat \<Rightarrow> int" where
  "abs_coord x = as_i32 (round_away (f64_mul (clampf 0 1 x) (of_int ABS_MAX)))"

definition uinput_pointer :: "rat \<Rightarrow> rat \<Rightarrow> desktop_linux \<Rightarrow> desktop_linux \<times> emission list" where
  "uinput_pointer x y s =
     (let x1 = clampf 0 1 x; y1 = clampf 0 1 y;
          (x2, y2) = (case dl_region s of
             Some r \<Rightarrow> (f64_add (pr_x r) (f64_mul x1 (pr_w r)), f64_add (pr_y r) (f64_mul y1 (pr_h r)))
           | None \<Rightarrow> (x1, y1))
      in (s, [(DevPointer, [(EV_ABS, ABS_X, abs_coord x2), (EV_ABS, ABS_Y, abs_coord y2)])]))"

definition emit_nonempty :: "desk_dev \<Rightarrow> input_ev list \<Rightarrow> emission list" where
  "emit_nonempty d evs = (if evs = [] then [] else [(d, evs)])"

definition uinput_pointer_relative :: "rat \<Rightarrow> rat \<Rightarrow> desktop_linux \<Rightarrow> desktop_linux \<times> emission list" where
  "uinput_pointer_relative dx dy s =
     (let x = as_i32 (round_away dx); y = as_i32 (round_away dy);
          evs = (if x \<noteq> 0 then [(EV_REL, REL_X, x)] else []) @ (if y \<noteq> 0 then [(EV_REL, REL_Y, y)] else [])
      in (s, emit_nonempty DevMouse evs))"

definition button_code :: "u8 \<Rightarrow> u16" where
  "button_code b = (if b = 1 then BTN_RIGHT else if b = 2 then BTN_MIDDLE else BTN_LEFT)"

definition uinput_button :: "u8 \<Rightarrow> bool \<Rightarrow> desktop_linux \<Rightarrow> desktop_linux \<times> emission list" where
  "uinput_button b down s =
     (let key = button_code b;
          s' = (if down then s\<lparr>dl_held_buttons := insert key (dl_held_buttons s)\<rparr>
                else s\<lparr>dl_held_buttons := dl_held_buttons s - {key}\<rparr>)
      in (s', [(DevMouse, [(EV_KEY, key, if down then 1 else 0)])]))"

definition uinput_scroll :: "rat \<Rightarrow> rat \<Rightarrow> desktop_linux \<Rightarrow> desktop_linux \<times> emission list" where
  "uinput_scroll dx dy s =
     (let (av, v) = scroll_axis (dl_scroll_v s) (- dy); (ah, h) = scroll_axis (dl_scroll_h s) dx;
          evs = (if v \<noteq> 0 then [(EV_REL, REL_WHEEL, v)] else []) @ (if h \<noteq> 0 then [(EV_REL, REL_HWHEEL, h)] else [])
      in (s\<lparr>dl_scroll_v := av, dl_scroll_h := ah\<rparr>, emit_nonempty DevMouse evs))"

definition uinput_key :: "u32 \<Rightarrow> bool \<Rightarrow> desktop_linux \<Rightarrow> desktop_linux \<times> emission list" where
  "uinput_key code down s =
     (if code = 0 \<or> code > 248 then (s, [])
      else let c = (ucast code :: u16);
               s' = (if down then s\<lparr>dl_held_keys := insert c (dl_held_keys s)\<rparr>
                     else s\<lparr>dl_held_keys := dl_held_keys s - {c}\<rparr>)
           in (s', [(DevKeyboard, [(EV_KEY, c, if down then 1 else 0)])]))"

definition KEY_ROWS :: "(char \<times> u16) list" where
  "KEY_ROWS = [(CHR ''q'', 16), (CHR ''w'', 17), (CHR ''e'', 18), (CHR ''r'', 19), (CHR ''t'', 20), (CHR ''y'', 21),
     (CHR ''u'', 22), (CHR ''i'', 23), (CHR ''o'', 24), (CHR ''p'', 25), (CHR ''a'', 30), (CHR ''s'', 31),
     (CHR ''d'', 32), (CHR ''f'', 33), (CHR ''g'', 34), (CHR ''h'', 35), (CHR ''j'', 36), (CHR ''k'', 37),
     (CHR ''l'', 38), (CHR ''z'', 44), (CHR ''x'', 45), (CHR ''c'', 46), (CHR ''v'', 47), (CHR ''b'', 48),
     (CHR ''n'', 49), (CHR ''m'', 50)]"

definition to_ascii_lowercase :: "nat \<Rightarrow> nat" where
  "to_ascii_lowercase c = (if 65 \<le> c \<and> c \<le> 90 then c + 32 else c)"

definition letter_key_code :: "nat \<Rightarrow> bool \<Rightarrow> u16" where
  "letter_key_code c upper =
     (let lower = (if upper then to_ascii_lowercase c else c) in
      case find (\<lambda>(ch, _). of_char ch = lower) KEY_ROWS of Some (_, code) \<Rightarrow> code | None \<Rightarrow> 0)"

definition US_SYMBOLS :: "(nat \<times> u16 \<times> bool) list" where
  "US_SYMBOLS = map (\<lambda>(ch, k, sh). (of_char ch, k, sh))
     [(CHR ''0'', 11, False), (CHR ''1'', 2, False), (CHR ''2'', 3, False), (CHR ''3'', 4, False), (CHR ''4'', 5, False),
      (CHR ''5'', 6, False), (CHR ''6'', 7, False), (CHR ''7'', 8, False), (CHR ''8'', 9, False), (CHR ''9'', 10, False),
      (CHR '' '', 57, False), (CHR 0x09, 15, False), (CHR 0x0A, 28, False), (CHR 0x0D, 28, False), (CHR ''-'', 12, False),
      (CHR ''='', 13, False), (CHR ''['', 26, False), (CHR '']'', 27, False), (CHR 0x5C, 43, False), (CHR '';'', 39, False),
      (CHR 0x27, 40, False), (CHR 0x60, 41, False), (CHR '','', 51, False), (CHR ''.'', 52, False), (CHR ''/'', 53, False),
      (CHR ''!'', 2, True), (CHR ''@'', 3, True), (CHR ''#'', 4, True), (CHR ''$'', 5, True), (CHR ''%'', 6, True),
      (CHR ''^'', 7, True), (CHR ''&'', 8, True), (CHR ''*'', 9, True), (CHR ''('', 10, True), (CHR '')'', 11, True),
      (CHR ''_'', 12, True), (CHR ''+'', 13, True), (CHR ''{'', 26, True), (CHR ''}'', 27, True), (CHR ''|'', 43, True),
      (CHR '':'', 39, True), (CHR 0x22, 40, True), (CHR ''~'', 41, True), (CHR ''<'', 51, True), (CHR ''>'', 52, True),
      (CHR ''?'', 53, True)]"

definition us_char_to_key :: "nat \<Rightarrow> (u16 \<times> bool) option" where
  "us_char_to_key c =
     (if 97 \<le> c \<and> c \<le> 122 then Some (letter_key_code c False, False)
      else if 65 \<le> c \<and> c \<le> 90 then Some (letter_key_code c True, True)
      else map_of US_SYMBOLS c)"

definition uinput_type_char :: "nat \<Rightarrow> desktop_linux \<Rightarrow> desktop_linux \<times> emission list" where
  "uinput_type_char c s =
     (case us_char_to_key c of
        None \<Rightarrow> (s, [])
      | Some (code, shift) \<Rightarrow>
          let shift_already_held = (KEY_LEFTSHIFT \<in> dl_held_keys s \<or> KEY_RIGHTSHIFT \<in> dl_held_keys s);
              wrap = shift \<and> \<not> shift_already_held
          in (s, [(DevKeyboard,
               (if wrap then [(EV_KEY, KEY_LEFTSHIFT, 1)] else []) @ [(EV_KEY, code, 1), (EV_KEY, code, 0)] @
               (if wrap then [(EV_KEY, KEY_LEFTSHIFT, 0)] else []))]))"

definition uinput_flush_held :: "(u16 set \<Rightarrow> u16 list) \<Rightarrow> desktop_linux \<Rightarrow> desktop_linux \<times> emission list" where
  "uinput_flush_held drain s =
     (let btn_up = map (\<lambda>code. (EV_KEY, code, 0)) (drain (dl_held_buttons s));
          key_up = map (\<lambda>code. (EV_KEY, code, 0)) (drain (dl_held_keys s))
      in (s\<lparr>dl_held_buttons := {}, dl_held_keys := {}\<rparr>, emit_nonempty DevMouse btn_up @ emit_nonempty DevKeyboard key_up))"

definition drop_desktop :: "(u16 set \<Rightarrow> u16 list) \<Rightarrow> desktop_linux \<Rightarrow> emission list" where
  "drop_desktop drain s = snd (uinput_flush_held drain s)"

fun linux_step :: "(u16 set \<Rightarrow> u16 list) \<Rightarrow> desk_op \<Rightarrow> desktop_linux \<Rightarrow> desktop_linux \<times> emission list" where
  "linux_step dr (OpPointer x y) s = uinput_pointer x y s"
| "linux_step dr (OpPointerRelative dx dy) s = uinput_pointer_relative dx dy s"
| "linux_step dr (OpButton b down) s = uinput_button b down s"
| "linux_step dr (OpScroll dx dy) s = uinput_scroll dx dy s"
| "linux_step dr (OpKey code down) s = uinput_key code down s"
| "linux_step dr (OpTypeChar c) s = uinput_type_char c s"
| "linux_step dr OpFlushHeld s = uinput_flush_held dr s"

subsection \<open>What the machine sees pressed\<close>

fun key_eff :: "desk_dev \<Rightarrow> input_ev \<Rightarrow> (desk_dev \<times> u16) set \<Rightarrow> (desk_dev \<times> u16) set" where
  "key_eff d (EV_KEY, code, v) D = (if v = 0 then D - {(d, code)} else insert (d, code) D)"
| "key_eff d _ D = D"

fun linux_eff :: "emission \<Rightarrow> (desk_dev \<times> u16) set \<Rightarrow> (desk_dev \<times> u16) set" where
  "linux_eff (d, evs) D = fold (key_eff d) evs D"

definition linux_held :: "desktop_linux \<Rightarrow> (desk_dev \<times> u16) set" where
  "linux_held s = {DevMouse} \<times> dl_held_buttons s \<union> {DevKeyboard} \<times> dl_held_keys s"

lemma eff_non_key: "list_all (\<lambda>e. fst e \<noteq> EV_KEY) evs \<Longrightarrow> fold (key_eff d) evs D = D"
proof (induction evs)
  case (Cons e evs)
  then have "key_eff d e D = D" by (cases "(d, e, D)" rule: key_eff.cases) auto
  with Cons show ?case by simp
qed simp

lemma eff_releases: "fold (key_eff d) (map (\<lambda>code. (EV_KEY, code, 0)) cs) D = D - {d} \<times> set cs"
  by (induction cs arbitrary: D) auto

lemma eff_emit_nonempty: "fold linux_eff (emit_nonempty d evs) D = fold (key_eff d) evs D"
  by (simp add: emit_nonempty_def)

lemmas uinput_defs = uinput_pointer_def uinput_pointer_relative_def uinput_button_def uinput_scroll_def uinput_key_def
  uinput_type_char_def uinput_flush_held_def

lemma type_char_state: "fst (uinput_type_char c s) = s"
  by (simp add: uinput_type_char_def Let_def split: option.splits prod.splits)

lemma type_char_eff:
  "fold linux_eff (snd (uinput_type_char c s)) D \<subseteq> D"
  by (auto simp: uinput_type_char_def Let_def split: option.splits)

lemma linux_tracks:
  assumes dr: "drains dr" and D: "D \<subseteq> linux_held s"
  shows "fold linux_eff (snd (linux_step dr op s)) D \<subseteq> linux_held (fst (linux_step dr op s))"
proof (cases op)
  case (OpTypeChar c)
  then show ?thesis using D type_char_eff [of c s D] by (auto simp: type_char_state)
next
  case (OpPointerRelative dx dy)
  then show ?thesis using D by (simp add: uinput_pointer_relative_def Let_def eff_emit_nonempty)
next
  case (OpScroll dx dy)
  then show ?thesis using D
    by (simp add: uinput_scroll_def Let_def eff_emit_nonempty eff_non_key linux_held_def split: prod.split)
next
  case OpFlushHeld
  have "{d} \<times> set (dr X) = {d} \<times> X" for d :: desk_dev and X by (simp add: drains_set [OF dr])
  then show ?thesis using D OpFlushHeld
    by (simp add: uinput_flush_held_def Let_def eff_emit_nonempty eff_releases linux_held_def) blast
qed (use D in \<open>auto simp: uinput_defs Let_def linux_held_def split: prod.splits option.splits\<close>)

interpretation lin: injector linux_step linux_held linux_eff drains
proof
  show "drains v \<Longrightarrow> linux_held s = {} \<Longrightarrow> snd (linux_step v OpFlushHeld s) = []" for v s
    using drains_set [of v "{}"] by (auto simp: linux_held_def uinput_flush_held_def Let_def emit_nonempty_def)
qed (simp_all add: linux_tracks, simp add: uinput_flush_held_def linux_held_def Let_def)

text \<open>The keys the character table types: none of them is a modifier, all are keys the keyboard declares.\<close>

definition char_keys :: "u16 list" where
  "char_keys = map snd KEY_ROWS @ map (fst \<circ> snd) US_SYMBOLS"

lemma letter_key_in: "list_all (\<lambda>c. letter_key_code c False \<in> set (map snd KEY_ROWS)) [97..<123]"
  by code_simp

lemma upper_key_in: "list_all (\<lambda>c. letter_key_code c True \<in> set (map snd KEY_ROWS)) [65..<91]"
  by code_simp

lemma us_char_to_key_in: "us_char_to_key c = Some (k, sh) \<Longrightarrow> k \<in> set char_keys"
proof -
  assume k: "us_char_to_key c = Some (k, sh)"
  consider "97 \<le> c \<and> c \<le> 122" | "65 \<le> c \<and> c \<le> 90" | "map_of US_SYMBOLS c = Some (k, sh)"
    using k by (auto simp: us_char_to_key_def split: if_splits)
  then show ?thesis
  proof cases
    case 1
    then have "c \<in> set [97..<123]" by (simp only: set_upt) simp
    with letter_key_in have "letter_key_code c False \<in> set (map snd KEY_ROWS)" by (simp only: list_all_iff)
    with k 1 show ?thesis by (simp add: us_char_to_key_def char_keys_def)
  next
    case 2
    then have "c \<in> set [65..<91]" by (simp only: set_upt) simp
    with upper_key_in have "letter_key_code c True \<in> set (map snd KEY_ROWS)" by (simp only: list_all_iff)
    with k 2 show ?thesis by (simp add: us_char_to_key_def char_keys_def)
  next
    case 3
    then have "(c, k, sh) \<in> set US_SYMBOLS" by (rule map_of_SomeD)
    then show ?thesis by (force simp: char_keys_def)
  qed
qed

lemma char_keys_range: "list_all (\<lambda>k. 1 \<le> k \<and> k \<le> 248) char_keys"
  by code_simp

lemma keyboard_keys: "k \<in> set (map of_nat [1..<249]) \<longleftrightarrow> 1 \<le> k \<and> k \<le> (248 :: u16)"
proof
  assume "1 \<le> k \<and> k \<le> 248"
  then have "unat k \<in> set [1..<249]" by (simp only: set_upt) (simp add: word_le_nat_alt)
  then have "of_nat (unat k) \<in> (of_nat :: nat \<Rightarrow> u16) ` set [1..<249]" by (rule imageI)
  moreover have "of_nat (unat k) = k" by simp
  ultimately show "k \<in> set (map of_nat [1..<249])" by (simp only: set_map)
next
  assume "k \<in> set (map of_nat [1..<249])"
  then obtain n where "k = of_nat n" "1 \<le> n" "n < 249" by (simp only: set_map set_upt) auto
  then show "1 \<le> k \<and> k \<le> 248" by (simp add: word_le_nat_alt unat_of_nat)
qed

lemma shift_not_char: "KEY_LEFTSHIFT \<notin> set char_keys"
  by code_simp

text \<open>Every printable ASCII character is typed.\<close>

lemma printable_ascii_typed: "list_all (\<lambda>c. us_char_to_key c \<noteq> None) [32..<127]"
  by code_simp

text \<open>
  Buttons, and every key that the character table does not tap, are pressed exactly while they are tracked as held:
  typing characters never releases a modifier that the client holds.
\<close>

definition linux_sync :: "(desk_dev \<times> u16) set \<Rightarrow> desktop_linux \<Rightarrow> bool" where
  "linux_sync D s \<longleftrightarrow> (\<forall>b. (DevMouse, b) \<in> D \<longleftrightarrow> b \<in> dl_held_buttons s) \<and>
     (\<forall>k. k \<notin> set char_keys \<longrightarrow> ((DevKeyboard, k) \<in> D \<longleftrightarrow> k \<in> dl_held_keys s))"

lemma linux_sync_type_char:
  assumes "linux_sync D s"
  shows "linux_sync (fold linux_eff (snd (uinput_type_char c s)) D) s"
proof (cases "us_char_to_key c")
  case (Some p)
  obtain code sh where p: "us_char_to_key c = Some (code, sh)" using Some by (cases p) auto
  have "(DevKeyboard, KEY_LEFTSHIFT) \<in> D \<longleftrightarrow> KEY_LEFTSHIFT \<in> dl_held_keys s"
    using assms shift_not_char by (simp add: linux_sync_def)
  then show ?thesis using assms us_char_to_key_in [OF p]
    by (auto simp: uinput_type_char_def p Let_def linux_sync_def)
qed (use assms in \<open>simp add: uinput_type_char_def\<close>)

lemma linux_sync_step:
  assumes dr: "drains dr" and D: "linux_sync D s"
  shows "linux_sync (fold linux_eff (snd (linux_step dr op s)) D) (fst (linux_step dr op s))"
proof (cases op)
  case (OpTypeChar c)
  then show ?thesis using linux_sync_type_char [OF D] by (simp add: type_char_state)
next
  case (OpPointerRelative dx dy)
  then show ?thesis using D by (simp add: uinput_pointer_relative_def Let_def eff_emit_nonempty)
next
  case (OpScroll dx dy)
  then show ?thesis using D
    by (simp add: uinput_scroll_def Let_def eff_emit_nonempty eff_non_key linux_sync_def split: prod.split)
next
  case OpFlushHeld
  have "{d} \<times> set (dr X) = {d} \<times> X" for d :: desk_dev and X by (simp add: drains_set [OF dr])
  then show ?thesis using D OpFlushHeld
    by (simp add: uinput_flush_held_def Let_def eff_emit_nonempty eff_releases linux_sync_def)
qed (use D in \<open>auto simp: uinput_defs Let_def linux_sync_def split: prod.splits option.splits\<close>)

lemma linux_sync_run:
  "list_all (\<lambda>c. drains (fst c)) cs \<Longrightarrow> linux_sync D s \<Longrightarrow>
    linux_sync (fold linux_eff (snd (run_ops linux_step cs s)) D) (fst (run_ops linux_step cs s))"
proof (induction cs arbitrary: D s)
  case (Cons c cs)
  from linux_sync_step [of "fst c" D s "snd c"] Cons show ?case by (simp add: split_beta)
qed simp

subsection \<open>Nothing undeclared is sent\<close>

fun declares :: "vdev_spec \<Rightarrow> input_ev \<Rightarrow> bool" where
  "declares spec (EV_KEY, code, v) \<longleftrightarrow> code \<in> set (vd_keys spec) \<and> (v = 0 \<or> v = 1)"
| "declares spec (EV_ABS, axis, v) \<longleftrightarrow>
     (case map_of (vd_abs spec) axis of Some i \<Rightarrow> ai_min i \<le> v \<and> v \<le> ai_max i | None \<Rightarrow> False)"
| "declares spec (EV_REL, axis, v) \<longleftrightarrow> axis \<in> set (vd_rel spec) \<and> v \<noteq> 0 \<and> - (2 ^ 31) \<le> v \<and> v < 2 ^ 31"

fun emission_declared :: "emission \<Rightarrow> bool" where
  "emission_declared (d, evs) \<longleftrightarrow> evs \<noteq> [] \<and> list_all (declares (desk_spec d)) evs"

definition held_declared :: "desktop_linux \<Rightarrow> bool" where
  "held_declared s \<longleftrightarrow> dl_held_buttons s \<subseteq> set (vd_keys (desk_spec DevMouse)) \<and>
     dl_held_keys s \<subseteq> set (vd_keys (desk_spec DevKeyboard))"

lemma abs_coord_range: "0 \<le> abs_coord x" "abs_coord x \<le> ABS_MAX"
proof -
  let ?p = "f64_mul (clampf 0 1 x) 65535"
  have c: "0 \<le> clampf 0 1 x" "clampf 0 1 x \<le> 1" by (auto simp: clampf_def)
  have p: "0 \<le> ?p" using c f64.nonneg [of "clampf 0 1 x * 65535"] by (simp add: f64_mul_def)
  have "?p \<le> 65535" using c f64.le_nat [of "clampf 0 1 x * 65535" 65535] by (simp add: f64_mul_def)
  with p have "\<lfloor>?p + 1 / 2\<rfloor> \<le> 65535" "0 \<le> \<lfloor>?p + 1 / 2\<rfloor>" by linarith+
  with p show "0 \<le> abs_coord x" "abs_coord x \<le> ABS_MAX"
    by (simp_all add: abs_coord_def as_i32_def round_away_def ABS_MAX_def)
qed

lemma emit_nonempty_declared:
  "list_all (declares (desk_spec d)) evs \<Longrightarrow> list_all emission_declared (emit_nonempty d evs)"
  by (simp add: emit_nonempty_def)

lemma mouse_rel_declared:
  "a \<in> {REL_X, REL_Y, REL_WHEEL, REL_HWHEEL} \<Longrightarrow> b \<in> {REL_X, REL_Y, REL_WHEEL, REL_HWHEEL} \<Longrightarrow>
   list_all emission_declared (emit_nonempty DevMouse
     ((if as_i32 x \<noteq> 0 then [(EV_REL, a, as_i32 x)] else []) @ (if as_i32 y \<noteq> 0 then [(EV_REL, b, as_i32 y)] else [])))"
  using as_i32_range [of x] as_i32_range [of y] by (intro emit_nonempty_declared) auto

lemma key_code_range:
  assumes "code \<noteq> 0" "code \<le> (248 :: u32)"
  shows "1 \<le> (ucast code :: u16) \<and> (ucast code :: u16) \<le> 248"
proof -
  have c: "unat code \<noteq> 0" "unat code \<le> 248" using assms by (simp_all add: word_le_nat_alt unat_eq_zero)
  then have "unat (ucast code :: u16) = unat code" by (simp add: unsigned_ucast_eq take_bit_nat_eq_self_iff)
  with c show ?thesis by (simp add: word_le_nat_alt)
qed

lemma linux_declared_step:
  assumes dr: "drains dr" and s: "held_declared s"
  shows "list_all emission_declared (snd (linux_step dr op s))" "held_declared (fst (linux_step dr op s))"
proof -
  have kb: "c \<in> set (vd_keys (desk_spec DevKeyboard)) \<longleftrightarrow> 1 \<le> c \<and> c \<le> 248" for c
    using keyboard_keys [of c] by simp
  have "list_all emission_declared (snd (linux_step dr op s)) \<and> held_declared (fst (linux_step dr op s))"
  proof (cases op)
    case (OpPointer x y)
    then show ?thesis using s abs_coord_range
      by (auto simp: uinput_pointer_def Let_def AbsInfo_new_def ABS_X_def ABS_Y_def split: prod.splits)
  next
    case (OpPointerRelative dx dy)
    then show ?thesis using s by (simp add: uinput_pointer_relative_def Let_def mouse_rel_declared)
  next
    case (OpScroll dx dy)
    then show ?thesis using s
      by (simp add: uinput_scroll_def scroll_axis_def Let_def mouse_rel_declared held_declared_def)
  next
    case (OpButton b down)
    then show ?thesis using s by (auto simp: uinput_button_def Let_def button_code_def held_declared_def)
  next
    case (OpKey code down)
    have "code \<noteq> 0 \<Longrightarrow> \<not> 248 < code \<Longrightarrow> 1 \<le> (ucast code :: u16) \<and> (ucast code :: u16) \<le> 248"
      by (rule key_code_range) (simp_all add: not_less)
    then show ?thesis using s OpKey kb by (auto simp: uinput_key_def Let_def held_declared_def simp del: desk_spec.simps)
  next
    case (OpTypeChar c)
    have sh: "KEY_LEFTSHIFT \<in> set (vd_keys (desk_spec DevKeyboard))" by (simp add: kb KEY_LEFTSHIFT_def del: desk_spec.simps)
    have "k \<in> set (vd_keys (desk_spec DevKeyboard))" if "us_char_to_key c = Some (k, up)" for k up
      using us_char_to_key_in [OF that] char_keys_range by (simp add: kb list_all_iff del: desk_spec.simps)
    with sh show ?thesis using s OpTypeChar
      by (auto simp: uinput_type_char_def Let_def simp del: desk_spec.simps split: option.splits)
  next
    case OpFlushHeld
    have "list_all emission_declared (emit_nonempty d (map (\<lambda>code. (EV_KEY, code, 0)) (dr X)))"
      if "X \<subseteq> set (vd_keys (desk_spec d))" for d X
      using that drains_set [OF dr, of X] by (intro emit_nonempty_declared) (auto simp: list_all_iff)
    with OpFlushHeld s show ?thesis
      by (simp add: uinput_flush_held_def Let_def held_declared_def del: desk_spec.simps)
  qed
  then show "list_all emission_declared (snd (linux_step dr op s))" "held_declared (fst (linux_step dr op s))" by auto
qed

lemma linux_declared_run:
  "list_all (\<lambda>c. drains (fst c)) cs \<Longrightarrow> held_declared s \<Longrightarrow>
    list_all emission_declared (snd (run_ops linux_step cs s))"
proof (induction cs arbitrary: s)
  case (Cons c cs)
  from linux_declared_step [of "fst c" s "snd c"] Cons show ?case by (simp add: split_beta)
qed simp

lemma inv_y_range: "- 32767 \<le> inv_y v" "inv_y v \<le> 32767"
  using i16_range [of v] by (auto simp: inv_y_def)

lemma apply_declared: "list_all (declares (gamepad_spec t)) (UinputGamepad_apply st)"
proof -
  have keys: "list_all (declares (gamepad_spec t)) (map (\<lambda>(bt, k). (EV_KEY, k, if is_pressed st bt then 1 else 0)) evdev_buttons)"
  proof -
    have "vd_keys (gamepad_spec t) = map snd evdev_buttons" by (simp add: gamepad_spec_def Let_def split: resolved_target.split)
    then show ?thesis by (auto simp: list_all_iff split_beta)
  qed
  have trig: "0 \<le> uint (w :: u8) \<and> uint w \<le> 255" for w using uint_bounded [of w] by simp
  have stick: "- 32768 \<le> sint (v :: i16) \<and> sint v \<le> 32767" for v using i16_range [of v] by simp
  have axes: "vd_abs (gamepad_spec t) = map (\<lambda>a. (a, AbsInfo_new 0 (- 32768) 32767 16 128 1)) [ABS_X, ABS_Y, ABS_RX, ABS_RY] @
      map (\<lambda>a. (a, AbsInfo_new 0 0 255 0 0 1)) [ABS_Z, ABS_RZ]"
    by (simp add: gamepad_spec_def Let_def split: resolved_target.split)
  have y: "- 32768 \<le> inv_y v \<and> inv_y v \<le> 32767" for v using inv_y_range [of v] by linarith
  show ?thesis
    using keys trig [of "left_trigger st"] trig [of "right_trigger st"] stick [of "left_x st"] stick [of "right_x st"]
      y [of "left_y st"] y [of "right_y st"]
    by (simp add: UinputGamepad_apply_def axes AbsInfo_new_def axis_defs)
qed

subsection \<open>The pointer stays on the streamed monitor\<close>

lemma rnd64_error1: "\<bar>y\<bar> < 2 \<Longrightarrow> \<bar>rnd64 y - y\<bar> \<le> 1 / 2 ^ 53"
  using fround_error [of y 0 "- 1074" 53] by (simp add: rnd64_def power_int_def power_divide)

lemma rnd64_error16: "\<bar>y\<bar> < 65536 \<Longrightarrow> \<bar>rnd64 y - y\<bar> \<le> 1 / 2 ^ 38"
  using fround_error [of y 15 "- 1074" 53] by (simp add: rnd64_def power_int_def power_divide)

lemma half_exact: "0 \<le> n \<Longrightarrow> n < 2 ^ 31 \<Longrightarrow> f64_add (of_int n) (1 / 2) = of_int n + 1 / 2"
  using fround_representable [of 53 "2 * n + 1" "- 1074" "- 1"]
  by (simp add: f64_add_def rnd64_def power_int_def field_simps)

text \<open>
  Along one axis: a monitor of \<open>w\<close> pixels at offset \<open>n\<close> in a layout of \<open>W\<close> pixels.  The float errors of the four
  operations and the rounding to a device coordinate together stay below half a pixel.
\<close>

lemma region_axis_position:
  assumes n: "0 \<le> n" and w: "1 \<le> w" and nw: "n + w \<le> W" and W: "W \<le> 65534" and x: "0 \<le> x" "x \<le> 1"
  defines "pos \<equiv> f64_add (f64_div (f64_add (of_int n) (1 / 2)) (of_int W)) (f64_mul x (f64_div (of_int (w - 1)) (of_int W)))"
  shows "\<bar>pos - (of_int n + 1 / 2 + x * of_int (w - 1)) / of_int W\<bar> \<le> 4 / 2 ^ 53"
proof -
  let ?W = "of_int W :: rat" and ?a = "(of_int n + 1 / 2) / of_int W :: rat" and ?b = "of_int (w - 1) / of_int W :: rat"
  let ?A = "rnd64 ?a" and ?B = "rnd64 ?b"
  let ?P = "rnd64 (x * ?B)"
  have W0: "1 \<le> ?W" "of_int n + of_int w \<le> ?W" "0 \<le> (of_int n :: rat)" "1 \<le> (of_int w :: rat)"
    using n w nw by (simp_all flip: of_int_add)
  have "of_int n + 1 / 2 \<le> 1 * ?W" "of_int (w - 1) \<le> 1 * ?W" using W0 by simp_all
  then have a: "0 \<le> ?a" "?a \<le> 1" and b: "0 \<le> ?b" "?b \<le> 1" using W0 by (simp_all add: divide_le_eq)
  have "(of_int n + 1 / 2 + of_int (w - 1)) / ?W \<le> 1" using W0 by (simp add: divide_le_eq)
  then have ab: "?a + ?b \<le> 1" by (simp only: add_divide_distrib)
  have eA: "\<bar>?A - ?a\<bar> \<le> 1 / 2 ^ 53" using rnd64_error1 [of ?a] a by simp
  have eB: "\<bar>?B - ?b\<bar> \<le> 1 / 2 ^ 53" using rnd64_error1 [of ?b] b by simp
  have B: "0 \<le> ?B" "?B \<le> 1" using f64.nonneg [OF b(1)] f64.le_one [OF b(2)] by simp_all
  have xB: "0 \<le> x * ?B" "x * ?B \<le> ?B" using B x by (simp_all add: mult_left_le_one_le)
  have eP: "\<bar>?P - x * ?B\<bar> \<le> 1 / 2 ^ 53" using rnd64_error1 [of "x * ?B"] xB B by simp
  have "\<bar>x * ?B - x * ?b\<bar> = x * \<bar>?B - ?b\<bar>" using x by (simp only: abs_mult abs_of_nonneg flip: right_diff_distrib)
  also have "\<dots> \<le> 1 * (1 / 2 ^ 53)" using eB x by (intro mult_mono) auto
  finally have exB: "\<bar>x * ?B - x * ?b\<bar> \<le> 1 / 2 ^ 53" by simp
  have xb: "0 \<le> x * ?b" "x * ?b \<le> ?b" using b x by (auto simp only: intro!: mult_nonneg_nonneg mult_left_le_one_le)
  have eps: "(1 :: rat) / 2 ^ 53 \<le> 1 / 8" by simp
  have "\<bar>?A + ?P\<bar> < 2" using eA eP exB xb ab a eps by linarith
  from rnd64_error1 [OF this] have eS: "\<bar>rnd64 (?A + ?P) - (?A + ?P)\<bar> \<le> 1 / 2 ^ 53" .
  have "pos = rnd64 (?A + ?P)"
    using half_exact [OF n] nw w W by (simp add: pos_def f64_add_def f64_div_def f64_mul_def)
  moreover have "(of_int n + 1 / 2 + x * of_int (w - 1)) / ?W = ?a + x * ?b" by (simp add: add_divide_distrib)
  ultimately show ?thesis using eA eP exB eS by linarith
qed

lemma region_axis_coord:
  assumes "0 \<le> n" "1 \<le> w" "n + w \<le> W" "W \<le> 65534" "0 \<le> x" "x \<le> 1"
  defines "pos \<equiv> f64_add (f64_div (f64_add (of_int n) (1 / 2)) (of_int W)) (f64_mul x (f64_div (of_int (w - 1)) (of_int W)))"
  shows "\<bar>of_int (abs_coord pos) * of_int W / 65535 - (of_int n + 1 / 2 + x * of_int (w - 1))\<bar> < 1 / 2"
proof -
  let ?W = "of_int W :: rat" and ?i = "of_int n + 1 / 2 + x * of_int (w - 1) :: rat"
  define t where "t = ?i / ?W"
  let ?q = "rnd64 (pos * 65535)"
  have e: "\<bar>pos - t\<bar> \<le> 4 / 2 ^ 53" unfolding pos_def t_def by (rule region_axis_position) (use assms in auto)
  have W: "1 \<le> ?W" "?W \<le> 65534" "of_int n + of_int w \<le> ?W" "0 \<le> (of_int n :: rat)" "1 \<le> (of_int w :: rat)"
    using assms(1-4) by (simp_all flip: of_int_add)
  have xw: "0 \<le> x * of_int (w - 1)" "x * of_int (w - 1) \<le> of_int (w - 1)"
    using assms(5,6) W(5) by (auto intro!: mult_nonneg_nonneg mult_left_le_one_le)
  have i: "1 / 2 \<le> ?i" "?i \<le> ?W - 1 / 2" using xw W by simp_all
  have "1 / 2 / 65534 * ?W \<le> ?i" using i W by linarith
  then have t0: "1 / 2 / 65534 \<le> t" using W by (simp add: t_def le_divide_eq)
  have "?i \<le> (1 - 1 / 2 / 65534) * ?W" using i W by (simp add: left_diff_distrib)
  then have t1: "t \<le> 1 - 1 / 2 / 65534" using W by (simp add: t_def divide_le_eq)
  have "(4 :: rat) / 2 ^ 53 < 1 / 2 / 65534" by simp
  with e t0 t1 have p: "0 \<le> pos" "pos \<le> 1" by linarith+
  have q: "\<bar>?q - pos * 65535\<bar> \<le> 1 / 2 ^ 38" using rnd64_error16 [of "pos * 65535"] p by simp
  have q0: "0 \<le> ?q" "?q \<le> 65535" using f64.nonneg [of "pos * 65535"] f64.le_nat [of "pos * 65535" 65535] p by simp_all
  then have f: "0 \<le> \<lfloor>?q + 1 / 2\<rfloor>" "\<lfloor>?q + 1 / 2\<rfloor> \<le> 65535" by linarith+
  then have c: "abs_coord pos = \<lfloor>?q + 1 / 2\<rfloor>"
    using p q0 by (simp add: abs_coord_def clampf_def f64_mul_def ABS_MAX_def round_away_def as_i32_def)
  have "\<bar>of_int (abs_coord pos) - ?q\<bar> \<le> 1 / 2" unfolding c by linarith
  moreover have "(1 :: rat) / 2 ^ 38 + 65535 * (4 / 2 ^ 53) \<le> 1 / 2 ^ 34" by simp
  ultimately have d: "\<bar>of_int (abs_coord pos) - t * 65535\<bar> \<le> 1 / 2 + 1 / 2 ^ 34" using q e by linarith
  have E: "of_int (abs_coord pos) * ?W / 65535 - ?i = (of_int (abs_coord pos) - t * 65535) * (?W / 65535)"
    using W by (simp add: t_def field_simps)
  then have "\<bar>of_int (abs_coord pos) * ?W / 65535 - ?i\<bar> = \<bar>of_int (abs_coord pos) - t * 65535\<bar> * (?W / 65535)"
    unfolding E abs_mult using W by simp
  also have "\<dots> \<le> (1 / 2 + 1 / 2 ^ 34) * (65534 / 65535)" using d W by (intro mult_mono) auto
  also have "\<dots> < 1 / 2" by simp
  finally show ?thesis .
qed

text \<open>The pixel of a layout of \<open>W\<close> pixels under a device coordinate, for a compositor that maps \<open>0..65535\<close> linearly onto it.\<close>

definition pixel_of :: "int \<Rightarrow> int \<Rightarrow> int" where
  "pixel_of c W = \<lfloor>of_int c * of_int W / (65535 :: rat)\<rfloor>"

lemma region_axis_pixel:
  fixes x :: rat
  assumes r: "b \<le> a" "1 \<le> w" "a + w \<le> b + W" "W \<le> 65534"
  defines "pos \<equiv> f64_add (f64_div (f64_add (of_int (a - b)) (1 / 2)) (of_int W))
     (f64_mul (clampf 0 1 x) (f64_div (of_int (max (w - 1) 0)) (of_int W)))"
  shows "a \<le> b + pixel_of (abs_coord pos) W \<and> b + pixel_of (abs_coord pos) W < a + w \<and>
    (x \<le> 0 \<longrightarrow> b + pixel_of (abs_coord pos) W = a) \<and> (1 \<le> x \<longrightarrow> b + pixel_of (abs_coord pos) W = a + w - 1)"
proof -
  have c: "0 \<le> clampf 0 1 x" "clampf 0 1 x \<le> 1" by (auto simp: clampf_def)
  have m: "max (w - 1) 0 = w - 1" using r by simp
  define v where "v = of_int (abs_coord pos) * of_int W / (65535 :: rat)"
  have near: "\<bar>v - (of_int (a - b) + 1 / 2 + clampf 0 1 x * of_int (w - 1))\<bar> < 1 / 2"
    unfolding v_def pos_def m by (rule region_axis_coord) (use r c in auto)
  have xw: "0 \<le> clampf 0 1 x * of_int (w - 1)" "clampf 0 1 x * of_int (w - 1) \<le> of_int (w - 1)"
    using c r by (auto intro!: mult_nonneg_nonneg mult_left_le_one_le)
  define k :: rat where "k = clampf 0 1 x * of_int (w - 1)"
  have near': "\<bar>v - (of_int (a - b) + 1 / 2 + k)\<bar> < 1 / 2" "0 \<le> k" "k \<le> of_int w - 1"
    using near xw by (simp_all add: k_def)
  have "of_int (a - b) < v" "v < of_int (a - b + w)" using near' by (auto simp only: of_int_add)
  then have "a - b \<le> \<lfloor>v\<rfloor>" "\<lfloor>v\<rfloor> < a - b + w" by (simp_all only: le_floor_iff floor_less_iff less_imp_le)
  moreover have "x \<le> 0 \<Longrightarrow> k = 0" "1 \<le> x \<Longrightarrow> k = of_int (w - 1)" by (auto simp: k_def clampf_def)
  then have "x \<le> 0 \<Longrightarrow> v < of_int (a - b + 1)" "1 \<le> x \<Longrightarrow> of_int (a - b + w - 1) < v"
    using near'(1) by (auto simp only: of_int_add of_int_diff of_int_1)
  then have "x \<le> 0 \<Longrightarrow> \<lfloor>v\<rfloor> < a - b + 1" "1 \<le> x \<Longrightarrow> a - b + w - 1 \<le> \<lfloor>v\<rfloor>"
    by (simp_all only: floor_less_iff le_floor_iff less_imp_le)
  ultimately show ?thesis unfolding pixel_of_def v_def [symmetric] by linarith
qed

lemma listed_monitor_inside:
  assumes "output_bounds rects = Some b" "r \<in> set rects" "0 < rc_w r" "0 < rc_h r"
  shows "rc_x b \<le> rc_x r" "rc_y b \<le> rc_y r" "rc_x r + rc_w r \<le> rc_x b + rc_w b" "rc_y r + rc_h r \<le> rc_y b + rc_h b"
proof -
  let ?rs = "filter (\<lambda>r. rc_w r > 0 \<and> rc_h r > 0) rects"
  have r: "r \<in> set ?rs" using assms by simp
  have b: "rc_x b = Min (rc_x ` set ?rs)" "rc_y b = Min (rc_y ` set ?rs)"
    "rc_x b + rc_w b = Max ((\<lambda>r. rc_x r + rc_w r) ` set ?rs)" "rc_y b + rc_h b = Max ((\<lambda>r. rc_y r + rc_h r) ` set ?rs)"
    using assms(1) by (auto simp: output_bounds_def Let_def split: if_splits)
  show "rc_x r + rc_w r \<le> rc_x b + rc_w b" "rc_y r + rc_h r \<le> rc_y b + rc_h b"
    unfolding b(3,4) using r by (auto simp del: set_filter)
  show "rc_x b \<le> rc_x r" "rc_y b \<le> rc_y r" unfolding b(1,2) using r by (auto simp del: set_filter)
qed


definition linux_fresh :: desktop_linux where
  "linux_fresh = \<lparr>dl_spec = desk_spec, dl_scroll_v = 0, dl_scroll_h = 0, dl_region = None, dl_held_buttons = {}, dl_held_keys = {}\<rparr>"

definition two_monitors :: "rect list" where
  "two_monitors = [\<lparr>rc_x = 0, rc_y = 0, rc_w = 2560, rc_h = 1440\<rparr>, \<lparr>rc_x = 2560, rc_y = 0, rc_w = 1920, rc_h = 1200\<rparr>]"


lemma new_state:
  "DesktopInput_new build = Inr s \<Longrightarrow> linux_held s = {} \<and> linux_sync {} s \<and> held_declared s"
  by (auto simp: DesktopInput_new_def linux_held_def linux_sync_def held_declared_def split: option.splits)

text \<open>
  C24: Every event that the Linux backends send is one that its virtual device declared when it was built: whatever
  calls a client's input causes, keys are declared keys of that device going up or down, absolute coordinates lie in the
  declared range, relative motion is on a declared axis, non-zero and fits 32 bits; and no batch is empty.  Every gamepad
  report lies in the declared ranges too, also for a stick at its lowest value.
\<close>

theorem uinput_sends_only_declared:
  assumes "DesktopInput_new build = Inr s" "list_all (\<lambda>c. drains (fst c)) cs"
  shows "list_all emission_declared (snd (run_ops linux_step cs s)) \<and>
    list_all (declares (gamepad_spec t)) (UinputGamepad_apply st)"
  using linux_declared_run [OF assms(2)] new_state [OF assms(1)] apply_declared by simp


definition linux_demo :: "((u16 set \<Rightarrow> u16 list) \<times> desk_op) list" where
  "linux_demo = map (Pair sorted_list_of_set) [OpKey 42 True, OpTypeChar 65, OpButton 0 True, OpScroll 30 (- 250)]"

lemma linux_demo_drains: "list_all (\<lambda>c. drains (fst c)) linux_demo"
  by (simp add: linux_demo_def drains_sorted)

lemma linux_demo_new: "DesktopInput_new (\<lambda>_. None :: unit option) = Inr linux_fresh"
  by (simp add: DesktopInput_new_def linux_fresh_def)

theorem uinput_sends_only_declared_witness:
  "list_all emission_declared (snd (run_ops linux_step linux_demo linux_fresh)) \<and>
   list_all (declares (gamepad_spec ResDs4)) (UinputGamepad_apply (GamepadState_default\<lparr>left_y := 0x8000\<rparr>))"
  by (rule uinput_sends_only_declared [OF linux_demo_new linux_demo_drains])


end
