(* ===== verification/Pulsar_WinInput.thy ===== *)
theory Pulsar_WinInput
  imports Pulsar_Held
begin

text \<open>
  The Windows injectors: the global one on \<^verbatim>\<open>SendInput\<close> (\<^verbatim>\<open>input/windows.rs\<close>) and the one that posts messages to a
  single window (\<^verbatim>\<open>input/window_win.rs\<close>).  Win32 flags and messages are kept by name.  What the system answers during a
  call (cursor position, client rectangle, screen position, liveness of the window) is the environment of the call.
\<close>

subsection \<open>Key codes\<close>

definition VK_TABLE :: "(u32 \<times> u16) list" where
  "VK_TABLE =
    [(1, 0x1B), (11, 0x30), (12, 0xBD), (13, 0xBB), (14, 0x08), (15, 0x09), (16, 0x51), (17, 0x57), (18, 0x45),
     (19, 0x52), (20, 0x54), (21, 0x59), (22, 0x55), (23, 0x49), (24, 0x4F), (25, 0x50), (26, 0xDB),
     (27, 0xDD), (28, 0x0D), (29, 0xA2), (30, 0x41), (31, 0x53), (32, 0x44), (33, 0x46), (34, 0x47),
     (35, 0x48), (36, 0x4A), (37, 0x4B), (38, 0x4C), (39, 0xBA), (40, 0xDE), (41, 0xC0), (42, 0xA0),
     (43, 0xDC), (44, 0x5A), (45, 0x58), (46, 0x43), (47, 0x56), (48, 0x42), (49, 0x4E), (50, 0x4D),
     (51, 0xBC), (52, 0xBE), (53, 0xBF), (54, 0xA1), (55, 0x6A), (56, 0xA4), (57, 0x20), (58, 0x14),
     (69, 0x90), (70, 0x91), (71, 0x67), (72, 0x68), (73, 0x69), (74, 0x6D), (75, 0x64), (76, 0x65),
     (77, 0x66), (78, 0x6B), (79, 0x61), (80, 0x62), (81, 0x63), (82, 0x60), (83, 0x6E), (87, 0x7A),
     (88, 0x7B), (96, 0x0D), (97, 0xA3), (98, 0x6F), (100, 0xA5), (102, 0x24), (103, 0x26), (104, 0x21),
     (105, 0x25), (106, 0x27), (107, 0x23), (108, 0x28), (109, 0x22), (110, 0x2D), (111, 0x2E), (125, 0x5B),
     (126, 0x5C), (127, 0x5D)]"

definition evdev_to_vk :: "u32 \<Rightarrow> u16 option" where
  "evdev_to_vk code =
     (if 2 \<le> code \<and> code \<le> 10 then Some (0x31 + ucast (code - 2))
      else if 59 \<le> code \<and> code \<le> 68 then Some (0x70 + ucast (code - 59))
      else map_of VK_TABLE code)"

subsection \<open>The global injector\<close>

datatype mouse_flag = MF_MOVE | MF_LEFTDOWN | MF_LEFTUP | MF_RIGHTDOWN | MF_RIGHTUP | MF_MIDDLEDOWN | MF_MIDDLEUP
  | MF_WHEEL | MF_HWHEEL | MF_VIRTUALDESK | MF_ABSOLUTE

datatype key_flag = KF_KEYUP | KF_UNICODE

datatype win_event =
    MouseInput int int int "mouse_flag set"
  | KeyInput u16 u16 "key_flag set"
  | SetCursor int int

definition WHEEL_DELTA :: int where "WHEEL_DELTA = 120"

record monitor_rect =
  mon_left :: int
  mon_top :: int
  mon_width :: int
  mon_height :: int
  virt_left :: int
  virt_top :: int
  virt_width :: int
  virt_height :: int

record desktop_win =
  wn_held_buttons :: "u8 set"
  wn_held_keys :: "u16 set"
  wn_scroll_v :: rat
  wn_scroll_h :: rat
  wn_monitor :: "monitor_rect option"

record win_env =
  we_drain_buttons :: "u8 set \<Rightarrow> u8 list"
  we_drain_keys :: "u16 set \<Rightarrow> u16 list"
  we_cursor :: "(int \<times> int) option"

definition win_new :: desktop_win where
  "win_new = \<lparr>wn_held_buttons = {}, wn_held_keys = {}, wn_scroll_v = 0, wn_scroll_h = 0, wn_monitor = None\<rparr>"

definition set_monitor :: "monitor_rect option \<Rightarrow> desktop_win \<Rightarrow> desktop_win" where
  "set_monitor r s = s\<lparr>wn_monitor := r\<rparr>"

definition send_mouse :: "int \<Rightarrow> int \<Rightarrow> int \<Rightarrow> mouse_flag set \<Rightarrow> win_event" where
  "send_mouse dx dy data flags = MouseInput dx dy data flags"

definition send_key :: "u16 \<Rightarrow> key_flag set \<Rightarrow> win_event" where
  "send_key vk flags = KeyInput vk 0 flags"

definition virt_coord :: "rat \<Rightarrow> int \<Rightarrow> int \<Rightarrow> int \<Rightarrow> int \<Rightarrow> int" where
  "virt_coord x mleft msize vleft vsize =
     (let px = f64_add (of_int mleft) (f64_mul x (of_int msize));
          nx = f64_div (f64_sub px (of_int vleft)) (of_int vsize)
      in as_i32 (round_away (f64_mul nx 65535)))"

definition win_pointer :: "rat \<Rightarrow> rat \<Rightarrow> desktop_win \<Rightarrow> desktop_win \<times> win_event list" where
  "win_pointer x0 y0 s =
     (let x = clampf 0 1 x0; y = clampf 0 1 y0;
          primary = [send_mouse (as_i32 (round_away (f64_mul x 65535))) (as_i32 (round_away (f64_mul y 65535))) 0
                       {MF_ABSOLUTE, MF_MOVE}]
      in case wn_monitor s of
        Some m \<Rightarrow>
          if virt_width m > 0 \<and> virt_height m > 0
          then (s, [send_mouse (virt_coord x (mon_left m) (mon_width m) (virt_left m) (virt_width m))
                      (virt_coord y (mon_top m) (mon_height m) (virt_top m) (virt_height m)) 0
                      {MF_ABSOLUTE, MF_VIRTUALDESK, MF_MOVE}])
          else (s, primary)
      | None \<Rightarrow> (s, primary))"

definition clamp_int :: "int \<Rightarrow> int \<Rightarrow> int \<Rightarrow> int" where
  "clamp_int lo hi v = (if v < lo then lo else if v > hi then hi else v)"

definition win_pointer_relative :: "(int \<times> int) option \<Rightarrow> rat \<Rightarrow> rat \<Rightarrow> desktop_win \<Rightarrow> desktop_win \<times> win_event list" where
  "win_pointer_relative cursor dx dy s =
     (let move = send_mouse (as_i32 (round_away dx)) (as_i32 (round_away dy)) 0 {MF_MOVE};
          confine = (case wn_monitor s of
             Some m \<Rightarrow>
               if mon_width m > 0 \<and> mon_height m > 0
               then (case cursor of
                  Some (px, py) \<Rightarrow>
                    let cx = clamp_int (mon_left m) (mon_left m + mon_width m - 1) px;
                        cy = clamp_int (mon_top m) (mon_top m + mon_height m - 1) py
                    in if cx \<noteq> px \<or> cy \<noteq> py then [SetCursor cx cy] else []
                | None \<Rightarrow> [])
               else []
           | None \<Rightarrow> [])
      in (s, move # confine))"

definition button_flag :: "u8 \<Rightarrow> bool \<Rightarrow> mouse_flag" where
  "button_flag b down =
     (if b = 1 then (if down then MF_RIGHTDOWN else MF_RIGHTUP)
      else if b = 2 then (if down then MF_MIDDLEDOWN else MF_MIDDLEUP)
      else (if down then MF_LEFTDOWN else MF_LEFTUP))"

definition win_button :: "u8 \<Rightarrow> bool \<Rightarrow> desktop_win \<Rightarrow> desktop_win \<times> win_event list" where
  "win_button b down s =
     ((if down then s\<lparr>wn_held_buttons := insert b (wn_held_buttons s)\<rparr>
       else s\<lparr>wn_held_buttons := wn_held_buttons s - {b}\<rparr>),
      [send_mouse 0 0 0 {button_flag b down}])"

definition win_scroll :: "rat \<Rightarrow> rat \<Rightarrow> desktop_win \<Rightarrow> desktop_win \<times> win_event list" where
  "win_scroll dx dy s =
     (let (av, v) = scroll_axis (wn_scroll_v s) (- dy); (ah, h) = scroll_axis (wn_scroll_h s) dx
      in (s\<lparr>wn_scroll_v := av, wn_scroll_h := ah\<rparr>,
          (if v \<noteq> 0 then [send_mouse 0 0 (wrap32 (v * WHEEL_DELTA)) {MF_WHEEL}] else []) @
          (if h \<noteq> 0 then [send_mouse 0 0 (wrap32 (h * WHEEL_DELTA)) {MF_HWHEEL}] else [])))"

definition win_key :: "u32 \<Rightarrow> bool \<Rightarrow> desktop_win \<Rightarrow> desktop_win \<times> win_event list" where
  "win_key code down s =
     (case evdev_to_vk code of
        None \<Rightarrow> (s, [])
      | Some vk \<Rightarrow>
          ((if down then s\<lparr>wn_held_keys := insert vk (wn_held_keys s)\<rparr>
            else s\<lparr>wn_held_keys := wn_held_keys s - {vk}\<rparr>),
           [send_key vk (if down then {} else {KF_KEYUP})]))"

definition win_type_char :: "nat \<Rightarrow> desktop_win \<Rightarrow> desktop_win \<times> win_event list" where
  "win_type_char c s =
     (s, concat (map (\<lambda>unit. map (KeyInput 0 unit) [{KF_UNICODE}, {KF_UNICODE, KF_KEYUP}]) (encode_utf16 c)))"

definition win_flush_held :: "win_env \<Rightarrow> desktop_win \<Rightarrow> desktop_win \<times> win_event list" where
  "win_flush_held e s =
     (s\<lparr>wn_held_buttons := {}, wn_held_keys := {}\<rparr>,
      map (\<lambda>b. send_mouse 0 0 0 {button_flag b False}) (we_drain_buttons e (wn_held_buttons s)) @
      map (\<lambda>vk. send_key vk {KF_KEYUP}) (we_drain_keys e (wn_held_keys s)))"

fun win_step :: "win_env \<Rightarrow> desk_op \<Rightarrow> desktop_win \<Rightarrow> desktop_win \<times> win_event list" where
  "win_step e (OpPointer x y) s = win_pointer x y s"
| "win_step e (OpPointerRelative dx dy) s = win_pointer_relative (we_cursor e) dx dy s"
| "win_step e (OpButton b down) s = win_button b down s"
| "win_step e (OpScroll dx dy) s = win_scroll dx dy s"
| "win_step e (OpKey code down) s = win_key code down s"
| "win_step e (OpTypeChar c) s = win_type_char c s"
| "win_step e OpFlushHeld s = win_flush_held e s"

definition win_drop :: "win_env \<Rightarrow> desktop_win \<Rightarrow> win_event list" where
  "win_drop e s = snd (win_flush_held e s)"

subsection \<open>The injector of one window\<close>

datatype wm = WM_MOUSEMOVE | WM_LBUTTONDOWN | WM_LBUTTONUP | WM_RBUTTONDOWN | WM_RBUTTONUP | WM_MBUTTONDOWN | WM_MBUTTONUP
  | WM_MOUSEWHEEL | WM_MOUSEHWHEEL | WM_KEYDOWN | WM_KEYUP | WM_CHAR

type_synonym wnd_msg = "wm \<times> u32 \<times> int"

definition MK_LBUTTON :: u32 where "MK_LBUTTON = 0x0001"
definition MK_RBUTTON :: u32 where "MK_RBUTTON = 0x0002"
definition MK_MBUTTON :: u32 where "MK_MBUTTON = 0x0010"

definition make_lparam :: "int \<Rightarrow> int \<Rightarrow> int" where
  "make_lparam low high = uint (push_bit 16 (word_of_int high :: u32) OR (word_of_int low AND 0xFFFF))"

definition make_wparam :: "u16 \<Rightarrow> int \<Rightarrow> u32" where
  "make_wparam low high = push_bit 16 (ucast (word_of_int high :: u16)) OR ucast low"

record window_input =
  wi_last_x :: int
  wi_last_y :: int
  wi_btn_mask :: u32
  wi_held_keys :: "u16 set"
  wi_scroll_v :: rat
  wi_scroll_h :: rat

record wnd_env =
  wd_alive :: bool
  wd_client :: "(int \<times> int \<times> int \<times> int) option"
  wd_to_screen :: "int \<times> int \<Rightarrow> int \<times> int"
  wd_drain :: "u16 set \<Rightarrow> u16 list"

definition WindowInput_new :: "bool \<Rightarrow> int \<Rightarrow> window_input option" where
  "WindowInput_new is_window hwnd =
     (if hwnd = 0 then None else if \<not> is_window then None
      else Some \<lparr>wi_last_x = 0, wi_last_y = 0, wi_btn_mask = 0, wi_held_keys = {}, wi_scroll_v = 0, wi_scroll_h = 0\<rparr>)"

definition client_size :: "wnd_env \<Rightarrow> int \<times> int" where
  "client_size e =
     (case wd_client e of
        Some (l, t, r, b) \<Rightarrow> (max (wrap32 (r - l)) 0, max (wrap32 (b - t)) 0)
      | None \<Rightarrow> (0, 0))"

definition clamp_to_client :: "wnd_env \<Rightarrow> int \<Rightarrow> int \<Rightarrow> int \<times> int" where
  "clamp_to_client e x y =
     (let (w, h) = client_size e
      in (if w > 0 then clamp_int 0 (w - 1) x else 0, if h > 0 then clamp_int 0 (h - 1) y else 0))"

definition move_to :: "int \<times> int \<Rightarrow> window_input \<Rightarrow> window_input \<times> wnd_msg list" where
  "move_to p s = (s\<lparr>wi_last_x := fst p, wi_last_y := snd p\<rparr>, [(WM_MOUSEMOVE, wi_btn_mask s, make_lparam (fst p) (snd p))])"

definition wnd_pointer :: "wnd_env \<Rightarrow> rat \<Rightarrow> rat \<Rightarrow> window_input \<Rightarrow> window_input \<times> wnd_msg list" where
  "wnd_pointer e x y s =
     (let (w, h) = client_size e;
          px = as_i32 (round_away (f64_mul (clampf 0 1 x) (of_int (max (max w 1 - 1) 0))));
          py = as_i32 (round_away (f64_mul (clampf 0 1 y) (of_int (max (max h 1 - 1) 0))))
      in move_to (clamp_to_client e px py) s)"

definition wnd_pointer_relative :: "wnd_env \<Rightarrow> rat \<Rightarrow> rat \<Rightarrow> window_input \<Rightarrow> window_input \<times> wnd_msg list" where
  "wnd_pointer_relative e dx dy s =
     move_to (clamp_to_client e (wrap32 (wi_last_x s + as_i32 (round_away dx))) (wrap32 (wi_last_y s + as_i32 (round_away dy)))) s"

definition button_bit :: "u8 \<Rightarrow> u32" where
  "button_bit b = (if b = 1 then MK_RBUTTON else if b = 2 then MK_MBUTTON else MK_LBUTTON)"

definition button_msg :: "u8 \<Rightarrow> bool \<Rightarrow> wm" where
  "button_msg b down =
     (if b = 1 then (if down then WM_RBUTTONDOWN else WM_RBUTTONUP)
      else if b = 2 then (if down then WM_MBUTTONDOWN else WM_MBUTTONUP)
      else (if down then WM_LBUTTONDOWN else WM_LBUTTONUP))"

definition wnd_button :: "u8 \<Rightarrow> bool \<Rightarrow> window_input \<Rightarrow> window_input \<times> wnd_msg list" where
  "wnd_button b down s =
     (let mask = (if down then wi_btn_mask s OR button_bit b else wi_btn_mask s AND NOT (button_bit b))
      in (s\<lparr>wi_btn_mask := mask\<rparr>, [(button_msg b down, mask, make_lparam (wi_last_x s) (wi_last_y s))]))"

definition wnd_scroll :: "wnd_env \<Rightarrow> rat \<Rightarrow> rat \<Rightarrow> window_input \<Rightarrow> window_input \<times> wnd_msg list" where
  "wnd_scroll e dx dy s =
     (let (av, v) = scroll_axis (wi_scroll_v s) (- dy); (ah, h) = scroll_axis (wi_scroll_h s) dx;
          (px, py) = wd_to_screen e (wi_last_x s, wi_last_y s);
          state_low = ucast (wi_btn_mask s)
      in (s\<lparr>wi_scroll_v := av, wi_scroll_h := ah\<rparr>,
          (if v \<noteq> 0 then [(WM_MOUSEWHEEL, make_wparam state_low (v * WHEEL_DELTA), make_lparam px py)] else []) @
          (if h \<noteq> 0 then [(WM_MOUSEHWHEEL, make_wparam state_low (h * WHEEL_DELTA), make_lparam px py)] else [])))"

definition KEYUP_LPARAM :: int where "KEYUP_LPARAM = sint (0xC0000001 :: u32)"

definition wnd_key :: "u32 \<Rightarrow> bool \<Rightarrow> window_input \<Rightarrow> window_input \<times> wnd_msg list" where
  "wnd_key code down s =
     (case evdev_to_vk code of
        None \<Rightarrow> (s, [])
      | Some vk \<Rightarrow>
          ((if down then s\<lparr>wi_held_keys := insert vk (wi_held_keys s)\<rparr> else s\<lparr>wi_held_keys := wi_held_keys s - {vk}\<rparr>),
           [if down then (WM_KEYDOWN, ucast vk, 1) else (WM_KEYUP, ucast vk, KEYUP_LPARAM)]))"

definition wnd_type_char :: "nat \<Rightarrow> window_input \<Rightarrow> window_input \<times> wnd_msg list" where
  "wnd_type_char c s = (s, map (\<lambda>unit. (WM_CHAR, ucast unit, make_lparam 1 0)) (encode_utf16 c))"

definition release_button :: "u32 \<times> wm \<Rightarrow> window_input \<times> wnd_msg list \<Rightarrow> window_input \<times> wnd_msg list" where
  "release_button bm st =
     (let (bt, up) = bm; (s, out) = st in
      if wi_btn_mask s AND bt \<noteq> 0
      then let mask = wi_btn_mask s AND NOT bt
           in (s\<lparr>wi_btn_mask := mask\<rparr>, out @ [(up, mask, make_lparam (wi_last_x s) (wi_last_y s))])
      else (s, out))"

definition wnd_flush_held :: "wnd_env \<Rightarrow> window_input \<Rightarrow> window_input \<times> wnd_msg list" where
  "wnd_flush_held e s =
     (let (s1, out) = fold release_button
            [(MK_LBUTTON, WM_LBUTTONUP), (MK_RBUTTON, WM_RBUTTONUP), (MK_MBUTTON, WM_MBUTTONUP)] (s, []);
          keys = wd_drain e (wi_held_keys s1)
      in (s1\<lparr>wi_held_keys := {}\<rparr>, out @ map (\<lambda>vk. (WM_KEYUP, ucast vk, KEYUP_LPARAM)) keys))"

fun wnd_step :: "wnd_env \<Rightarrow> desk_op \<Rightarrow> window_input \<Rightarrow> window_input \<times> wnd_msg list" where
  "wnd_step e (OpPointer x y) s = wnd_pointer e x y s"
| "wnd_step e (OpPointerRelative dx dy) s = wnd_pointer_relative e dx dy s"
| "wnd_step e (OpButton b down) s = wnd_button b down s"
| "wnd_step e (OpScroll dx dy) s = wnd_scroll e dx dy s"
| "wnd_step e (OpKey code down) s = wnd_key code down s"
| "wnd_step e (OpTypeChar c) s = wnd_type_char c s"
| "wnd_step e OpFlushHeld s = wnd_flush_held e s"

definition wnd_drop :: "wnd_env \<Rightarrow> window_input \<Rightarrow> wnd_msg list" where
  "wnd_drop e s = (if wd_alive e then snd (wnd_flush_held e s) else [])"

subsection \<open>What the machine sees pressed\<close>

datatype win_code = Btn mouse_button | VKey u16 | Unit u16

fun flag_eff :: "mouse_flag \<Rightarrow> win_code set \<Rightarrow> win_code set" where
  "flag_eff MF_LEFTDOWN D = insert (Btn LeftBtn) D"
| "flag_eff MF_LEFTUP D = D - {Btn LeftBtn}"
| "flag_eff MF_RIGHTDOWN D = insert (Btn RightBtn) D"
| "flag_eff MF_RIGHTUP D = D - {Btn RightBtn}"
| "flag_eff MF_MIDDLEDOWN D = insert (Btn MiddleBtn) D"
| "flag_eff MF_MIDDLEUP D = D - {Btn MiddleBtn}"
| "flag_eff _ D = D"

definition button_flags :: "mouse_flag list" where
  "button_flags = [MF_LEFTDOWN, MF_LEFTUP, MF_RIGHTDOWN, MF_RIGHTUP, MF_MIDDLEDOWN, MF_MIDDLEUP]"

fun win_eff :: "win_event \<Rightarrow> win_code set \<Rightarrow> win_code set" where
  "win_eff (MouseInput dx dy data flags) D = fold flag_eff (filter (\<lambda>f. f \<in> flags) button_flags) D"
| "win_eff (KeyInput vk unit flags) D =
     (let code = (if KF_UNICODE \<in> flags then Unit unit else VKey vk)
      in if KF_KEYUP \<in> flags then D - {code} else insert code D)"
| "win_eff (SetCursor x y) D = D"

definition win_held :: "desktop_win \<Rightarrow> win_code set" where
  "win_held s = Btn ` btn_of ` wn_held_buttons s \<union> VKey ` wn_held_keys s"

definition win_env_ok :: "win_env \<Rightarrow> bool" where
  "win_env_ok e \<longleftrightarrow> drains (we_drain_buttons e) \<and> drains (we_drain_keys e)"

lemma button_eff:
  "win_eff (send_mouse 0 0 0 {button_flag b down}) D = (if down then insert (Btn (btn_of b)) D else D - {Btn (btn_of b)})"
  by (simp add: send_mouse_def button_flag_def btn_of_def button_flags_def)

lemma key_eff_win: "win_eff (send_key vk {}) D = insert (VKey vk) D" "win_eff (send_key vk {KF_KEYUP}) D = D - {VKey vk}"
  by (simp_all add: send_key_def)

lemma release_buttons_eff:
  "fold win_eff (map (\<lambda>b. send_mouse 0 0 0 {button_flag b False}) bs) D = D - Btn ` btn_of ` set bs"
proof (induction bs arbitrary: D)
  case (Cons b bs)
  show ?case by (simp add: Cons.IH button_eff [of b False, simplified]) blast
qed simp

lemma release_keys_eff: "fold win_eff (map (\<lambda>vk. send_key vk {KF_KEYUP}) ks) D = D - VKey ` set ks"
proof (induction ks arbitrary: D)
  case (Cons k ks)
  show ?case by (simp add: Cons.IH key_eff_win) blast
qed simp

lemma unicode_eff:
  "D \<inter> range Unit = {} \<Longrightarrow>
   fold win_eff (concat (map (\<lambda>unit. map (KeyInput 0 unit) [{KF_UNICODE}, {KF_UNICODE, KF_KEYUP}]) us)) D = D"
proof (induction us)
  case (Cons u us)
  then have "insert (Unit u) D - {Unit u} = D" by auto
  with Cons show ?case by simp
qed simp

lemma win_held_units: "win_held s \<inter> range Unit = {}"
  by (auto simp: win_held_def)

lemma mouse_no_button: "flags \<inter> set button_flags = {} \<Longrightarrow> win_eff (send_mouse dx dy data flags) D = D"
proof -
  assume "flags \<inter> set button_flags = {}"
  then have "filter (\<lambda>f. f \<in> flags) button_flags = []" by (auto simp: filter_empty_conv)
  then show ?thesis by (simp add: send_mouse_def)
qed

lemma held_buttons_remove: "x \<in> Btn ` btn_of ` X \<Longrightarrow> x \<noteq> Btn (btn_of b) \<Longrightarrow> x \<in> Btn ` btn_of ` (X - {b})"
  by auto

lemma win_tracks:
  assumes e: "win_env_ok e" and D: "D \<subseteq> win_held s"
  shows "fold win_eff (snd (win_step e op s)) D \<subseteq> win_held (fst (win_step e op s))"
proof (cases op)
  case (OpPointer x y)
  then show ?thesis using D
    by (auto simp: win_pointer_def Let_def mouse_no_button button_flags_def split: option.splits)
next
  case (OpPointerRelative dx dy)
  then show ?thesis using D
    by (auto simp: win_pointer_relative_def Let_def mouse_no_button button_flags_def split: option.splits if_splits)
next
  case (OpButton b down)
  then show ?thesis using D by (auto simp: win_button_def button_eff win_held_def intro: held_buttons_remove)
next
  case (OpScroll dx dy)
  then show ?thesis using D
    by (auto simp: win_scroll_def Let_def mouse_no_button button_flags_def win_held_def split: prod.splits)
next
  case (OpKey code down)
  then show ?thesis using D by (auto simp: win_key_def key_eff_win win_held_def split: option.splits)
next
  case (OpTypeChar c)
  have "D \<inter> range Unit = {}" using D win_held_units [of s] by blast
  then show ?thesis using D OpTypeChar by (simp only: win_step.simps win_type_char_def fst_conv snd_conv unicode_eff)
next
  case OpFlushHeld
  have "set (we_drain_buttons e X) = X" "set (we_drain_keys e Y) = Y" for X Y
    using e by (simp_all add: win_env_ok_def drains_set)
  then show ?thesis using D OpFlushHeld
    by (simp add: win_flush_held_def release_buttons_eff release_keys_eff win_held_def) blast
qed

interpretation win: injector win_step win_held win_eff win_env_ok
proof
  show "win_env_ok v \<Longrightarrow> win_held s = {} \<Longrightarrow> snd (win_step v OpFlushHeld s) = []" for v s
    using drains_set [of "we_drain_buttons v" "{}"] drains_set [of "we_drain_keys v" "{}"]
    by (auto simp: win_held_def win_flush_held_def win_env_ok_def)
qed (simp_all add: win_tracks, simp add: win_flush_held_def win_held_def)

fun wnd_eff :: "wnd_msg \<Rightarrow> win_code set \<Rightarrow> win_code set" where
  "wnd_eff (WM_LBUTTONDOWN, _) D = insert (Btn LeftBtn) D"
| "wnd_eff (WM_LBUTTONUP, _) D = D - {Btn LeftBtn}"
| "wnd_eff (WM_RBUTTONDOWN, _) D = insert (Btn RightBtn) D"
| "wnd_eff (WM_RBUTTONUP, _) D = D - {Btn RightBtn}"
| "wnd_eff (WM_MBUTTONDOWN, _) D = insert (Btn MiddleBtn) D"
| "wnd_eff (WM_MBUTTONUP, _) D = D - {Btn MiddleBtn}"
| "wnd_eff (WM_KEYDOWN, w, _) D = insert (VKey (ucast w)) D"
| "wnd_eff (WM_KEYUP, w, _) D = D - {VKey (ucast w)}"
| "wnd_eff _ D = D"

fun mask_bit :: "mouse_button \<Rightarrow> nat" where
  "mask_bit LeftBtn = 0"
| "mask_bit RightBtn = 1"
| "mask_bit MiddleBtn = 4"

definition wnd_held :: "window_input \<Rightarrow> win_code set" where
  "wnd_held s = {Btn b | b. bit (wi_btn_mask s) (mask_bit b)} \<union> VKey ` wi_held_keys s"

lemma button_bit_eq: "button_bit b = push_bit (mask_bit (btn_of b)) 1"
  by (simp add: button_bit_def btn_of_def MK_LBUTTON_def MK_RBUTTON_def MK_MBUTTON_def push_bit_of_1)

lemma mask_bit_inj: "mask_bit b = mask_bit b' \<longleftrightarrow> b = b'"
  by (cases b; cases b') simp_all

lemma mask_bit_less: "mask_bit b < 32"
  by (cases b) simp_all

lemma bit_button_bit: "bit (button_bit b) (mask_bit m) \<longleftrightarrow> m = btn_of b"
  using mask_bit_less [of "btn_of b"] by (auto simp: button_bit_eq bit_simps mask_bit_inj)

lemma bit_mask_update:
  "bit (m OR button_bit b) (mask_bit c) \<longleftrightarrow> bit m (mask_bit c) \<or> c = btn_of b"
  "bit (m AND NOT (button_bit b)) (mask_bit c) \<longleftrightarrow> bit m (mask_bit c) \<and> c \<noteq> btn_of b"
  using mask_bit_less [of c] by (simp_all add: bit_simps bit_button_bit)

lemma wnd_button_eff:
  "wnd_eff (button_msg b down, w, l) D = (if down then insert (Btn (btn_of b)) D else D - {Btn (btn_of b)})"
  by (simp add: button_msg_def btn_of_def)

lemma mask_test: "m AND button_bit b \<noteq> 0 \<longleftrightarrow> bit m (mask_bit (btn_of b))"
  by (simp add: button_bit_eq bit_iff_and_push_bit_not_eq_0)

definition release_one :: "u8 \<Rightarrow> window_input \<times> wnd_msg list \<Rightarrow> window_input \<times> wnd_msg list" where
  "release_one b = release_button (button_bit b, button_msg b False)"

lemma flush_as_releases:
  "fold release_button [(MK_LBUTTON, WM_LBUTTONUP), (MK_RBUTTON, WM_RBUTTONUP), (MK_MBUTTON, WM_MBUTTONUP)] p =
    release_one 2 (release_one 1 (release_one 0 p))"
  by (simp add: release_one_def button_bit_def button_msg_def)

lemma release_one_props:
  assumes "release_one b (s, out) = (s', out')"
  shows "bit (wi_btn_mask s') (mask_bit c) \<longleftrightarrow> bit (wi_btn_mask s) (mask_bit c) \<and> c \<noteq> btn_of b"
    and "wi_held_keys s' = wi_held_keys s"
    and "D \<inter> range Btn \<subseteq> wnd_held s \<Longrightarrow> fold wnd_eff out D0 = D \<Longrightarrow>
      fold wnd_eff out' D0 = D - {Btn (btn_of b)}"
    and "wnd_held s = {} \<Longrightarrow> out' = out \<and> s' = s"
  using assms
  by (auto simp: release_one_def release_button_def Let_def mask_test bit_mask_update wnd_button_eff wnd_held_def
      split: if_splits)

lemma ucast_up_down: "(ucast (ucast (v :: u16) :: u32) :: u16) = v"
  by (rule bit_word_eqI) (auto simp: bit_simps)

lemma wnd_flush_cases:
  obtains s0 o0 s1 o1 s2 o2 where "release_one 0 (s, []) = (s0, o0)" "release_one 1 (s0, o0) = (s1, o1)"
    "release_one 2 (s1, o1) = (s2, o2)"
    "wnd_flush_held e s = (s2\<lparr>wi_held_keys := {}\<rparr>,
      o2 @ map (\<lambda>vk. (WM_KEYUP, ucast vk, KEYUP_LPARAM)) (wd_drain e (wi_held_keys s2)))"
proof -
  obtain s0 o0 where 0: "release_one 0 (s, []) = (s0, o0)" by fastforce
  obtain s1 o1 where 1: "release_one 1 (s0, o0) = (s1, o1)" by fastforce
  obtain s2 o2 where 2: "release_one 2 (s1, o1) = (s2, o2)" by fastforce
  from 0 1 2 show thesis by (rule that) (unfold wnd_flush_held_def flush_as_releases 0 1 2, simp)
qed

lemma btn_of_simps: "btn_of 0 = LeftBtn" "btn_of 1 = RightBtn" "btn_of 2 = MiddleBtn"
  by (simp_all add: btn_of_def)

lemma wnd_flush_empty: "wnd_held (fst (wnd_flush_held e s)) = {}"
proof (rule wnd_flush_cases [of s e])
  fix s0 o0 s1 o1 s2 o2
  assume r: "release_one 0 (s, []) = (s0, o0)" "release_one 1 (s0, o0) = (s1, o1)" "release_one 2 (s1, o1) = (s2, o2)"
    and f: "wnd_flush_held e s = (s2\<lparr>wi_held_keys := {}\<rparr>,
      o2 @ map (\<lambda>vk. (WM_KEYUP, ucast vk, KEYUP_LPARAM)) (wd_drain e (wi_held_keys s2)))"
  have "\<not> bit (wi_btn_mask s2) (mask_bit c)" for c
    using release_one_props(1) [OF r(1), of c] release_one_props(1) [OF r(2), of c] release_one_props(1) [OF r(3), of c]
    by (cases c) (simp_all add: btn_of_simps)
  then show ?thesis by (simp add: f wnd_held_def)
qed

lemma wnd_flush_quiet:
  assumes "drains (wd_drain e)" "wnd_held s = {}"
  shows "snd (wnd_flush_held e s) = []"
proof (rule wnd_flush_cases [of s e])
  fix s0 o0 s1 o1 s2 o2
  assume r: "release_one 0 (s, []) = (s0, o0)" "release_one 1 (s0, o0) = (s1, o1)" "release_one 2 (s1, o1) = (s2, o2)"
    and f: "wnd_flush_held e s = (s2\<lparr>wi_held_keys := {}\<rparr>,
      o2 @ map (\<lambda>vk. (WM_KEYUP, ucast vk, KEYUP_LPARAM)) (wd_drain e (wi_held_keys s2)))"
  have "s2 = s" "o2 = []"
    using assms(2) release_one_props(4) [OF r(1)] release_one_props(4) [OF r(2)] release_one_props(4) [OF r(3)] by simp_all
  moreover have "wi_held_keys s = {}" using assms(2) by (simp add: wnd_held_def)
  moreover have "wd_drain e {} = []" using drains_set [OF assms(1), of "{}"] by simp
  ultimately show ?thesis by (simp add: f)
qed

lemma key_ups_eff: "fold wnd_eff (map (\<lambda>vk. (WM_KEYUP, ucast vk, KEYUP_LPARAM)) ks) E = E - VKey ` set ks"
  by (induction ks arbitrary: E) (auto simp: ucast_up_down)

lemma any_btn: "Btn b \<in> {Btn LeftBtn, Btn RightBtn, Btn MiddleBtn}"
  by (cases b) simp_all

lemma wnd_flush_releases:
  assumes dr: "drains (wd_drain e)" and D: "D \<subseteq> wnd_held s"
  shows "fold wnd_eff (snd (wnd_flush_held e s)) D = {}"
proof (rule wnd_flush_cases [of s e])
  fix s0 o0 s1 o1 s2 o2
  assume r: "release_one 0 (s, []) = (s0, o0)" "release_one 1 (s0, o0) = (s1, o1)" "release_one 2 (s1, o1) = (s2, o2)"
    and f: "wnd_flush_held e s = (s2\<lparr>wi_held_keys := {}\<rparr>,
      o2 @ map (\<lambda>vk. (WM_KEYUP, ucast vk, KEYUP_LPARAM)) (wd_drain e (wi_held_keys s2)))"
  note p0 = release_one_props [OF r(1)] and p1 = release_one_props [OF r(2)] and p2 = release_one_props [OF r(3)]
  have keys: "wi_held_keys s2 = wi_held_keys s" using p0(2) p1(2) p2(2) by simp
  have "D \<inter> range Btn \<subseteq> wnd_held s" "fold wnd_eff [] D = D" using D by auto
  then have e0: "fold wnd_eff o0 D = D - {Btn LeftBtn}" by (simp only: p0(3) btn_of_simps)
  have "(D - {Btn LeftBtn}) \<inter> range Btn \<subseteq> wnd_held s0" using D p0(1) by (auto simp: wnd_held_def btn_of_simps)
  then have e1: "fold wnd_eff o1 D = D - {Btn LeftBtn} - {Btn RightBtn}" using e0 by (simp only: p1(3) btn_of_simps)
  have "(D - {Btn LeftBtn} - {Btn RightBtn}) \<inter> range Btn \<subseteq> wnd_held s1"
    using D p0(1) p1(1) by (auto simp: wnd_held_def btn_of_simps)
  then have "fold wnd_eff o2 D = D - {Btn LeftBtn} - {Btn RightBtn} - {Btn MiddleBtn}"
    using e1 by (simp only: p2(3) btn_of_simps)
  moreover have "x \<in> D \<Longrightarrow> x \<in> {Btn LeftBtn, Btn RightBtn, Btn MiddleBtn} \<or> x \<in> VKey ` wi_held_keys s" for x
    using D any_btn unfolding wnd_held_def by blast
  ultimately show ?thesis by (auto simp: f key_ups_eff keys drains_set [OF dr])
qed

lemma wnd_tracks:
  assumes e: "drains (wd_drain e)" and D: "D \<subseteq> wnd_held s"
  shows "fold wnd_eff (snd (wnd_step e op s)) D \<subseteq> wnd_held (fst (wnd_step e op s))"
proof (cases op)
  case (OpPointer x y)
  then show ?thesis using D by (simp add: wnd_pointer_def move_to_def Let_def wnd_held_def split: prod.split)
next
  case (OpPointerRelative dx dy)
  then show ?thesis using D by (simp add: wnd_pointer_relative_def move_to_def wnd_held_def)
next
  case (OpButton b down)
  then show ?thesis using D by (auto simp: wnd_button_def Let_def wnd_button_eff wnd_held_def bit_mask_update)
next
  case (OpScroll dx dy)
  then show ?thesis using D by (auto simp: wnd_scroll_def Let_def wnd_held_def split: prod.splits)
next
  case (OpKey code down)
  then show ?thesis using D by (auto simp: wnd_key_def wnd_held_def ucast_up_down split: option.splits)
next
  case (OpTypeChar c)
  have "fold wnd_eff (map (\<lambda>unit. (WM_CHAR, ucast unit, make_lparam 1 0)) us) D = D" for us :: "u16 list"
    by (induction us) simp_all
  then show ?thesis using D OpTypeChar by (simp add: wnd_type_char_def)
next
  case OpFlushHeld
  then show ?thesis using wnd_flush_releases [OF e D] by simp
qed

interpretation wnd: injector wnd_step wnd_held wnd_eff "\<lambda>e. drains (wd_drain e)"
  by unfold_locales (simp_all add: wnd_tracks wnd_flush_empty wnd_flush_quiet)

subsection \<open>Pointer ranges\<close>

lemma lparam_words:
  assumes "0 \<le> x" "x < 65536" "0 \<le> y" "y < 65536"
  shows "make_lparam x y mod 65536 = x \<and> make_lparam x y div 65536 = y"
proof -
  have "uint (push_bit 16 (word_of_int y :: u32)) = y * 65536"
  proof -
    have "push_bit 16 (word_of_int y :: u32) = word_of_int (y * 65536)" by (simp add: push_bit_eq_mult)
    then have "uint (push_bit 16 (word_of_int y :: u32)) = (y * 65536) mod 2 ^ 32" by (simp only: uint_word_of_int) simp
    then show ?thesis using assms by simp
  qed
  moreover have "uint (word_of_int x AND 0xFFFF :: u32) = x"
  proof -
    have "(word_of_int x AND 0xFFFF :: u32) = take_bit 16 (word_of_int x)" by (simp add: take_bit_eq_mask mask_eq_exp_minus_1)
    then have "uint (word_of_int x AND 0xFFFF :: u32) = take_bit 16 (uint (word_of_int x :: u32))"
      by (simp only: unsigned_take_bit_eq)
    also have "\<dots> = x" using assms by (simp add: uint_word_of_int take_bit_eq_mod)
    finally show ?thesis .
  qed
  ultimately have "make_lparam x y = (y * 65536) OR x" by (simp add: make_lparam_def unsigned_or_eq)
  also have "\<dots> = y * 65536 + x"
  proof -
    have "y * 65536 = push_bit 16 y" "take_bit 16 x = x" using assms by (simp_all add: push_bit_eq_mult take_bit_eq_mod)
    then have "(y * 65536) AND x = 0" by (simp add: bit_eq_iff bit_simps) (metis bit_take_bit_iff not_le)
    then show ?thesis by (simp add: disjunctive_add bit_eq_iff bit_simps)
  qed
  finally show ?thesis using assms by simp
qed

lemma clampf_unit: "0 \<le> clampf 0 1 x" "clampf 0 1 x \<le> 1" "x \<le> 0 \<Longrightarrow> clampf 0 1 x = 0" "1 \<le> x \<Longrightarrow> clampf 0 1 x = 1"
  by (auto simp: clampf_def)

lemma rnd64_between:
  assumes "of_int a \<le> x" "x \<le> of_int b" "\<bar>a\<bar> \<le> 2 ^ 53" "\<bar>b\<bar> \<le> 2 ^ 53"
  shows "of_int a \<le> rnd64 x" "rnd64 x \<le> of_int b"
  using f64.ge_rnd [OF f64.rnd_int [OF assms(3)] assms(1)] f64.le_rnd [OF f64.rnd_int [OF assms(4)] assms(2)] by simp_all

lemma as_i32_round_between:
  assumes "of_int a \<le> x" "x \<le> of_int b" "0 \<le> a" "b < 2 ^ 31"
  shows "a \<le> as_i32 (round_away x)" "as_i32 (round_away x) \<le> b"
proof -
  have "0 \<le> x" using assms by (meson of_int_0_le_iff order_trans)
  moreover have "a \<le> \<lfloor>x + 1 / 2\<rfloor>" "\<lfloor>x + 1 / 2\<rfloor> \<le> b" using assms(1,2) by linarith+
  ultimately show "a \<le> as_i32 (round_away x)" "as_i32 (round_away x) \<le> b"
    using assms(3,4) by (simp_all add: as_i32_def round_away_def)
qed

lemma virt_coord_range:
  assumes x: "0 \<le> x" "x \<le> 1" and m: "vl \<le> ml" "0 \<le> ms" "ml + ms \<le> vl + vs" "0 < vs"
    and b: "\<bar>vl\<bar> < 2 ^ 31" "vs < 2 ^ 31"
  shows "0 \<le> virt_coord x ml ms vl vs" "virt_coord x ml ms vl vs \<le> 65535"
proof -
  define d where "d = f64_mul x (of_int ms)"
  have "0 \<le> x * of_int ms" "x * of_int ms \<le> of_int ms"
    using x m by (auto intro!: mult_nonneg_nonneg mult_left_le_one_le)
  then have d: "0 \<le> d" "d \<le> of_int ms"
    using rnd64_between [of 0 "x * of_int ms" ms] m b by (simp_all add: d_def f64_mul_def)
  define px where "px = f64_add (of_int ml) d"
  have px: "of_int ml \<le> px" "px \<le> of_int (ml + ms)"
    using rnd64_between [of ml "of_int ml + d" "ml + ms"] d m b by (simp_all add: px_def f64_add_def)
  define q where "q = f64_sub px (of_int vl)"
  have "of_int ml \<ge> (of_int vl :: rat)" "(of_int (ml + ms) :: rat) \<le> of_int (vl + vs)" using m by (simp_all only: of_int_le_iff)
  then have "0 \<le> px - of_int vl" "px - of_int vl \<le> of_int vs" using px by simp_all
  then have q: "0 \<le> q" "q \<le> of_int vs"
    using rnd64_between [of 0 "px - of_int vl" vs] m b by (simp_all add: q_def f64_sub_def)
  have "0 \<le> q / of_int vs" "q / of_int vs \<le> 1" using q m by (simp_all add: divide_le_eq)
  then have n: "0 \<le> f64_div q (of_int vs)" "f64_div q (of_int vs) \<le> 1"
    using f64.nonneg f64.le_one by (simp_all add: f64_div_def)
  have "0 \<le> f64_mul (f64_div q (of_int vs)) 65535" "f64_mul (f64_div q (of_int vs)) 65535 \<le> 65535"
    using rnd64_between [of 0 "f64_div q (of_int vs) * 65535" 65535] n by (simp_all add: f64_mul_def)
  then show "0 \<le> virt_coord x ml ms vl vs" "virt_coord x ml ms vl vs \<le> 65535"
    using as_i32_round_between [of 0 "f64_mul (f64_div q (of_int vs)) 65535" 65535]
    by (simp_all add: virt_coord_def Let_def d_def px_def q_def)
qed

lemma clamp_to_client_inside:
  "clamp_to_client e x y = (cx, cy) \<Longrightarrow> client_size e = (w, h) \<Longrightarrow> 0 \<le> cx \<and> cx < max w 1 \<and> 0 \<le> cy \<and> cy < max h 1"
  by (auto simp: clamp_to_client_def clamp_int_def)

lemma client_coord_edges:
  assumes "0 < w" "w \<le> 2 ^ 31"
  shows "x \<le> 0 \<Longrightarrow> as_i32 (round_away (f64_mul (clampf 0 1 x) (of_int (max (max w 1 - 1) 0)))) = 0"
    and "1 \<le> x \<Longrightarrow> as_i32 (round_away (f64_mul (clampf 0 1 x) (of_int (max (max w 1 - 1) 0)))) = w - 1"
proof -
  have m: "max (max w 1 - 1) 0 = w - 1" using assms by simp
  have "rnd64 (of_int (w - 1)) = of_int (w - 1)" using assms by (intro f64.rnd_int) simp
  moreover have "\<lfloor>of_int (w - 1) + 1 / 2 :: rat\<rfloor> = w - 1" by (simp only: floor_eq_iff) simp
  then have "round_away (of_int (w - 1)) = of_int (w - 1)"
    using assms by (simp only: round_away_def) (simp del: of_int_diff)
  moreover have "as_i32 (of_int (w - 1)) = w - 1" using assms by (simp add: as_i32_def del: of_int_diff)
  ultimately show "1 \<le> x \<Longrightarrow> as_i32 (round_away (f64_mul (clampf 0 1 x) (of_int (max (max w 1 - 1) 0)))) = w - 1"
    unfolding m by (simp add: clampf_unit f64_mul_def del: of_int_diff)
  show "x \<le> 0 \<Longrightarrow> as_i32 (round_away (f64_mul (clampf 0 1 x) (of_int (max (max w 1 - 1) 0)))) = 0"
    by (simp add: clampf_unit f64_mul_def f64.zero round_away_def as_i32_def floor_eq_iff)
qed

definition monitor_inside :: "monitor_rect \<Rightarrow> bool" where
  "monitor_inside m \<longleftrightarrow> virt_left m \<le> mon_left m \<and> 0 \<le> mon_width m \<and> mon_left m + mon_width m \<le> virt_left m + virt_width m \<and>
     virt_top m \<le> mon_top m \<and> 0 \<le> mon_height m \<and> mon_top m + mon_height m \<le> virt_top m + virt_height m \<and>
     \<bar>virt_left m\<bar> < 2 ^ 31 \<and> \<bar>virt_top m\<bar> < 2 ^ 31 \<and> virt_width m < 2 ^ 31 \<and> virt_height m < 2 ^ 31"

lemma primary_coord_range:
  "0 \<le> as_i32 (round_away (f64_mul (clampf 0 1 z) 65535)) \<and> as_i32 (round_away (f64_mul (clampf 0 1 z) 65535)) \<le> 65535"
  using as_i32_round_between [of 0 "f64_mul (clampf 0 1 z) 65535" 65535] rnd64_between [of 0 "clampf 0 1 z * 65535" 65535]
    clampf_unit(1,2) [of z] by (simp add: f64_mul_def)

lemma win_pointer_range:
  assumes "pred_option monitor_inside (wn_monitor s)"
  shows "\<exists>dx dy flags. snd (win_pointer x y s) = [MouseInput dx dy 0 flags] \<and> MF_ABSOLUTE \<in> flags \<and>
    (0 \<le> dx \<and> dx \<le> 65535) \<and> (0 \<le> dy \<and> dy \<le> 65535)"
proof (cases "\<exists>m. wn_monitor s = Some m \<and> virt_width m > 0 \<and> virt_height m > 0")
  case True
  then obtain m where ms: "wn_monitor s = Some m" "virt_width m > 0" "virt_height m > 0" by blast
  then show ?thesis
    using assms virt_coord_range [OF clampf_unit(1,2), of "virt_left m" "mon_left m" "mon_width m" "virt_width m" x]
      virt_coord_range [OF clampf_unit(1,2), of "virt_top m" "mon_top m" "mon_height m" "virt_height m" y]
    by (simp add: win_pointer_def send_mouse_def Let_def monitor_inside_def)
next
  case False
  then have "snd (win_pointer x y s) = [send_mouse (as_i32 (round_away (f64_mul (clampf 0 1 x) 65535)))
      (as_i32 (round_away (f64_mul (clampf 0 1 y) 65535))) 0 {MF_ABSOLUTE, MF_MOVE}]"
    by (auto simp: win_pointer_def Let_def split: option.splits)
  then show ?thesis using primary_coord_range by (simp add: send_mouse_def)
qed

lemma move_to_client:
  assumes "client_size e = (w, h)" "w \<le> 65536" "h \<le> 65536"
  shows "\<exists>px py. move_to (clamp_to_client e x y) s =
      (s\<lparr>wi_last_x := px, wi_last_y := py\<rparr>, [(WM_MOUSEMOVE, wi_btn_mask s, make_lparam px py)]) \<and>
    0 \<le> px \<and> px < max w 1 \<and> 0 \<le> py \<and> py < max h 1 \<and> make_lparam px py mod 65536 = px \<and> make_lparam px py div 65536 = py"
proof -
  obtain px py where p: "clamp_to_client e x y = (px, py)" by fastforce
  note i = clamp_to_client_inside [OF p assms(1)]
  then have "px < 65536" "py < 65536" using assms(2,3) by auto
  with i lparam_words [of px py] show ?thesis
    by (intro exI [of _ px] exI [of _ py]) (simp add: p move_to_def)
qed


definition left_monitor :: monitor_rect where
  "left_monitor = \<lparr>mon_left = 0, mon_top = 0, mon_width = 1920, mon_height = 1080,
     virt_left = 0, virt_top = 0, virt_width = 3840, virt_height = 1080\<rparr>"

definition small_window :: wnd_env where
  "small_window = \<lparr>wd_alive = True, wd_client = Some (10, 10, 810, 610), wd_to_screen = id, wd_drain = sorted_list_of_set\<rparr>"

definition fresh_window :: window_input where
  "fresh_window = \<lparr>wi_last_x = 0, wi_last_y = 0, wi_btn_mask = 0, wi_held_keys = {}, wi_scroll_v = 0, wi_scroll_h = 0\<rparr>"


text \<open>
  C27: Nothing stays pressed on Windows: over any sequence of calls the system, and the target window, see at most
  what the injector tracks as held, and once the injector is dropped (for a window: while the window is alive) every
  button, key and character unit that went down has gone up again; flushing a second time sends nothing.
\<close>

theorem windows_nothing_stays_pressed:
  assumes "list_all (\<lambda>c. win_env_ok (fst c)) cs" "win_env_ok e"
    and "WindowInput_new True hwnd = Some t" "list_all (\<lambda>c. drains (wd_drain (fst c))) ds" "drains (wd_drain d)" "wd_alive d"
  shows "fold win_eff (snd (run_ops win_step cs win_new) @ win_drop e (fst (run_ops win_step cs win_new))) {} = {} \<and>
    fold wnd_eff (snd (run_ops wnd_step ds t) @ wnd_drop d (fst (run_ops wnd_step ds t))) {} = {} \<and>
    win_drop e (fst (win_flush_held e s)) = [] \<and> wnd_drop d (fst (wnd_flush_held d u)) = []"
proof -
  have "fold win_eff (snd (run_ops win_step cs win_new)) {} \<subseteq> win_held (fst (run_ops win_step cs win_new))"
    by (rule win.run_tracks [OF assms(1)]) simp
  from win.flush_releases [OF assms(2) this]
  have w: "fold win_eff (snd (run_ops win_step cs win_new) @ win_drop e (fst (run_ops win_step cs win_new))) {} = {}"
    by (simp add: win_drop_def)
  have "fold wnd_eff (snd (run_ops wnd_step ds t)) {} \<subseteq> wnd_held (fst (run_ops wnd_step ds t))"
    by (rule wnd.run_tracks [OF assms(4)]) simp
  from wnd.flush_releases [OF assms(5) this] assms(6)
  have "fold wnd_eff (snd (run_ops wnd_step ds t) @ wnd_drop d (fst (run_ops wnd_step ds t))) {} = {}"
    by (simp add: wnd_drop_def)
  with w win.flush_twice [OF assms(2), of e s] wnd.flush_twice [OF assms(5), of d u] assms(6) show ?thesis
    by (simp add: win_drop_def wnd_drop_def)
qed

definition win_quiet :: win_env where
  "win_quiet = \<lparr>we_drain_buttons = sorted_list_of_set, we_drain_keys = sorted_list_of_set, we_cursor = None\<rparr>"

theorem windows_nothing_stays_pressed_witness:
  "fold win_eff (snd (run_ops win_step [(win_quiet, OpKey 42 True), (win_quiet, OpTypeChar 231), (win_quiet, OpButton 5 True)] win_new) @
     win_drop win_quiet (fst (run_ops win_step [(win_quiet, OpKey 42 True), (win_quiet, OpTypeChar 231), (win_quiet, OpButton 5 True)] win_new))) {} = {} \<and>
   fold wnd_eff (snd (run_ops wnd_step [(small_window, OpButton 1 True), (small_window, OpKey 30 True)] fresh_window) @
     wnd_drop small_window (fst (run_ops wnd_step [(small_window, OpButton 1 True), (small_window, OpKey 30 True)] fresh_window))) {} = {} \<and>
   win_drop win_quiet (fst (win_flush_held win_quiet win_new)) = [] \<and> wnd_drop small_window (fst (wnd_flush_held small_window fresh_window)) = []"
  by (rule windows_nothing_stays_pressed [where hwnd = 7])
    (simp_all add: win_env_ok_def win_quiet_def small_window_def drains_sorted WindowInput_new_def fresh_window_def)

text \<open>The right edge of a monitor that has a neighbour: the position \<open>1\<close> is the first pixel of the neighbour, not the last one of the monitor.\<close>

lemma right_edge_is_the_neighbour:
  "snd (win_pointer 1 0 (set_monitor (Some left_monitor) win_new)) = [MouseInput 32768 0 0 {MF_ABSOLUTE, MF_VIRTUALDESK, MF_MOVE}]"
  by (simp add: win_pointer_def set_monitor_def left_monitor_def win_new_def send_mouse_def clampf_def) code_simp

end
