(* ===== verification/Pulsar_MacInput.thy ===== *)
theory Pulsar_MacInput
  imports Pulsar_Held
begin

text \<open>
  The macOS injector on CoreGraphics events (\<^verbatim>\<open>input/macos.rs\<close>).  Creating an event can fail; the environment of a
  call says which of its events come into being, what position the system reports, the bounds of the main display
  and the order in which a hash set is iterated.
\<close>

definition MAC_VK_TABLE :: "(u32 \<times> u16) list" where
  "MAC_VK_TABLE =
    [(1, 0x35), (2, 0x12), (3, 0x13), (4, 0x14), (5, 0x15), (6, 0x17), (7, 0x16), (8, 0x1A), (9, 0x1C),
     (10, 0x19), (11, 0x1D), (12, 0x1B), (13, 0x18), (14, 0x33), (15, 0x30), (16, 0x0C), (17, 0x0D),
     (18, 0x0E), (19, 0x0F), (20, 0x11), (21, 0x10), (22, 0x20), (23, 0x22), (24, 0x1F), (25, 0x23),
     (26, 0x21), (27, 0x1E), (28, 0x24), (29, 0x3B), (30, 0x00), (31, 0x01), (32, 0x02), (33, 0x03),
     (34, 0x05), (35, 0x04), (36, 0x26), (37, 0x28), (38, 0x25), (39, 0x29), (40, 0x27), (41, 0x32),
     (42, 0x38), (43, 0x2A), (44, 0x06), (45, 0x07), (46, 0x08), (47, 0x09), (48, 0x0B), (49, 0x2D),
     (50, 0x2E), (51, 0x2B), (52, 0x2F), (53, 0x2C), (54, 0x3C), (55, 0x43), (56, 0x3A), (57, 0x31),
     (58, 0x39), (59, 0x7A), (60, 0x78), (61, 0x63), (62, 0x76), (63, 0x60), (64, 0x61), (65, 0x62),
     (66, 0x64), (67, 0x65), (68, 0x6D), (69, 0x47), (71, 0x59), (72, 0x5B), (73, 0x5C), (74, 0x4E),
     (75, 0x56), (76, 0x57), (77, 0x58), (78, 0x45), (79, 0x53), (80, 0x54), (81, 0x55), (82, 0x52),
     (83, 0x41), (87, 0x67), (88, 0x6F), (96, 0x4C), (97, 0x3E), (98, 0x4B), (100, 0x3D), (102, 0x73),
     (103, 0x7E), (104, 0x74), (105, 0x7B), (106, 0x7C), (107, 0x77), (108, 0x7D), (109, 0x79), (110, 0x72),
     (111, 0x75), (125, 0x37), (126, 0x36)]"

definition mac_evdev_to_vk :: "u32 \<Rightarrow> u16 option" where
  "mac_evdev_to_vk code = map_of MAC_VK_TABLE code"

datatype cg_flag = FlagAlphaShift | FlagControl | FlagShift | FlagAlternate | FlagCommand

definition evdev_modifier_flag :: "u32 \<Rightarrow> cg_flag option" where
  "evdev_modifier_flag code =
     (if code = 29 \<or> code = 97 then Some FlagControl
      else if code = 42 \<or> code = 54 then Some FlagShift
      else if code = 56 \<or> code = 100 then Some FlagAlternate
      else if code = 125 \<or> code = 126 then Some FlagCommand
      else None)"

datatype cg_mouse = MouseMoved | MouseDragged mouse_button | MouseDown mouse_button | MouseUp mouse_button

text \<open>An event as posted; the flags are those stamped onto it, if any.\<close>

datatype mac_event =
    CgMouse cg_mouse "rat \<times> rat" mouse_button "cg_flag set option"
  | CgScroll int int
  | CgKey u16 bool "cg_flag set option"
  | CgUnicode "u16 list" bool

record desktop_mac =
  mc_held_buttons :: "u8 set"
  mc_held_keys :: "u16 set"
  mc_flags :: "cg_flag set"
  mc_caps_lock :: bool
  mc_scroll_v :: rat
  mc_scroll_h :: rat
  mc_last_point :: "rat \<times> rat"

record mac_env =
  me_source :: bool
  me_location :: "(rat \<times> rat) option"
  me_post :: "nat \<Rightarrow> bool"
  me_bounds :: "rat \<times> rat \<times> rat \<times> rat"
  me_buttons :: "u8 set \<Rightarrow> u8 list"
  me_keys :: "u16 set \<Rightarrow> u16 list"

definition button_events :: "u8 \<Rightarrow> bool \<Rightarrow> mouse_button \<times> cg_mouse" where
  "button_events b down = (btn_of b, if down then MouseDown (btn_of b) else MouseUp (btn_of b))"

definition mac_new :: "bool \<Rightarrow> desktop_mac option" where
  "mac_new source =
     (if source
      then Some \<lparr>mc_held_buttons = {}, mc_held_keys = {}, mc_flags = {}, mc_caps_lock = False, mc_scroll_v = 0,
        mc_scroll_h = 0, mc_last_point = (0, 0)\<rparr>
      else None)"

definition current_location :: "mac_env \<Rightarrow> desktop_mac \<Rightarrow> desktop_mac \<times> (rat \<times> rat)" where
  "current_location e s =
     (let s' = (case me_location e of Some p \<Rightarrow> s\<lparr>mc_last_point := p\<rparr> | None \<Rightarrow> s) in (s', mc_last_point s'))"

definition move_event_type :: "desktop_mac \<Rightarrow> cg_mouse" where
  "move_event_type s =
     (if 1 \<in> mc_held_buttons s then MouseDragged RightBtn
      else if 2 \<in> mc_held_buttons s then MouseDragged MiddleBtn
      else if 0 \<in> mc_held_buttons s then MouseDragged LeftBtn
      else MouseMoved)"

definition post_if :: "bool \<Rightarrow> mac_event \<Rightarrow> mac_event list" where
  "post_if ok ev = (if ok then [ev] else [])"

definition post_mouse :: "mac_env \<Rightarrow> desktop_mac \<Rightarrow> cg_mouse \<Rightarrow> rat \<times> rat \<Rightarrow> mac_event list" where
  "post_mouse e s ty p =
     (let btn = (if 1 \<in> mc_held_buttons s then RightBtn else if 2 \<in> mc_held_buttons s then MiddleBtn else LeftBtn)
      in post_if (me_post e 0) (CgMouse ty p btn (Some (mc_flags s))))"

definition mac_pointer :: "mac_env \<Rightarrow> rat \<Rightarrow> rat \<Rightarrow> desktop_mac \<Rightarrow> desktop_mac \<times> mac_event list" where
  "mac_pointer e x y s =
     (let (ox, oy, w, h) = me_bounds e;
          px = f64_add ox (f64_mul (clampf 0 1 x) w); py = f64_add oy (f64_mul (clampf 0 1 y) h)
      in (s, post_mouse e s (move_event_type s) (px, py)))"

definition mac_pointer_relative :: "mac_env \<Rightarrow> rat \<Rightarrow> rat \<Rightarrow> desktop_mac \<Rightarrow> desktop_mac \<times> mac_event list" where
  "mac_pointer_relative e dx dy s =
     (let (s', cur) = current_location e s
      in (s', post_mouse e s' (move_event_type s') (f64_add (fst cur) dx, f64_add (snd cur) dy)))"

definition mac_button :: "mac_env \<Rightarrow> u8 \<Rightarrow> bool \<Rightarrow> desktop_mac \<Rightarrow> desktop_mac \<times> mac_event list" where
  "mac_button e b down s =
     (let s1 = (if down then s\<lparr>mc_held_buttons := insert b (mc_held_buttons s)\<rparr>
                else s\<lparr>mc_held_buttons := mc_held_buttons s - {b}\<rparr>);
          (cg_btn, ty) = button_events b down;
          (s2, point) = current_location e s1
      in (s2, post_if (me_post e 0) (CgMouse ty point cg_btn (Some (mc_flags s2)))))"

definition mac_scroll :: "mac_env \<Rightarrow> rat \<Rightarrow> rat \<Rightarrow> desktop_mac \<Rightarrow> desktop_mac \<times> mac_event list" where
  "mac_scroll e dx dy s =
     (let (av, v) = scroll_axis (mc_scroll_v s) dy; (ah, h) = scroll_axis (mc_scroll_h s) dx;
          s' = s\<lparr>mc_scroll_v := av, mc_scroll_h := ah\<rparr>
      in if v = 0 \<and> h = 0 then (s', [])
         else (s', post_if (me_post e 0) (CgScroll (wrap32 (- v)) (wrap32 (- h)))))"

definition latch_caps :: "u32 \<Rightarrow> bool \<Rightarrow> desktop_mac \<Rightarrow> desktop_mac" where
  "latch_caps code down s =
     (if code = 58 \<and> down \<and> 0x39 \<notin> mc_held_keys s
      then let caps = \<not> mc_caps_lock s
           in s\<lparr>mc_caps_lock := caps,
                mc_flags := (if caps then insert FlagAlphaShift (mc_flags s) else mc_flags s - {FlagAlphaShift})\<rparr>
      else s)"

definition track_modifier :: "u32 \<Rightarrow> bool \<Rightarrow> desktop_mac \<Rightarrow> desktop_mac" where
  "track_modifier code down s =
     (case evdev_modifier_flag code of
        Some fl \<Rightarrow> s\<lparr>mc_flags := (if down then insert fl (mc_flags s) else mc_flags s - {fl})\<rparr>
      | None \<Rightarrow> s)"

definition mac_key :: "mac_env \<Rightarrow> u32 \<Rightarrow> bool \<Rightarrow> desktop_mac \<Rightarrow> desktop_mac \<times> mac_event list" where
  "mac_key e code down s =
     (let s1 = track_modifier code down (latch_caps code down s) in
      case mac_evdev_to_vk code of
        None \<Rightarrow> (s1, [])
      | Some vk \<Rightarrow>
          let s2 = (if down then s1\<lparr>mc_held_keys := insert vk (mc_held_keys s1)\<rparr>
                    else s1\<lparr>mc_held_keys := mc_held_keys s1 - {vk}\<rparr>)
          in (s2, post_if (me_post e 0) (CgKey vk down (Some (mc_flags s2)))))"

definition mac_type_char :: "mac_env \<Rightarrow> nat \<Rightarrow> desktop_mac \<Rightarrow> desktop_mac \<times> mac_event list" where
  "mac_type_char e c s =
     (s, post_if (me_post e 0) (CgUnicode (encode_utf16 c) True) @ post_if (me_post e 1) (CgUnicode (encode_utf16 c) False))"

definition post_each :: "(nat \<Rightarrow> bool) \<Rightarrow> nat \<Rightarrow> mac_event list \<Rightarrow> mac_event list" where
  "post_each ok n evs = map snd (filter (\<lambda>(i, _). ok i) (zip [n..<n + length evs] evs))"

definition mac_flush_held :: "mac_env \<Rightarrow> desktop_mac \<Rightarrow> desktop_mac \<times> mac_event list" where
  "mac_flush_held e s =
     (let (s1, point) = current_location e s;
          ups = map (\<lambda>b. case button_events b False of (cg_btn, ty) \<Rightarrow> CgMouse ty point cg_btn None) (me_buttons e (mc_held_buttons s1));
          keys = map (\<lambda>vk. CgKey vk False None) (me_keys e (mc_held_keys s1))
      in (s1\<lparr>mc_held_buttons := {}, mc_flags := {}, mc_caps_lock := False, mc_held_keys := {}\<rparr>,
          post_each (me_post e) 0 ups @ post_each (me_post e) (length ups) keys))"

fun mac_step :: "mac_env \<Rightarrow> desk_op \<Rightarrow> desktop_mac \<Rightarrow> desktop_mac \<times> mac_event list" where
  "mac_step e (OpPointer x y) s = mac_pointer e x y s"
| "mac_step e (OpPointerRelative dx dy) s = mac_pointer_relative e dx dy s"
| "mac_step e (OpButton b down) s = mac_button e b down s"
| "mac_step e (OpScroll dx dy) s = mac_scroll e dx dy s"
| "mac_step e (OpKey code down) s = mac_key e code down s"
| "mac_step e (OpTypeChar c) s = mac_type_char e c s"
| "mac_step e OpFlushHeld s = mac_flush_held e s"

definition mac_drop :: "mac_env \<Rightarrow> desktop_mac \<Rightarrow> mac_event list" where
  "mac_drop e s = snd (mac_flush_held e s)"

subsection \<open>What the machine sees pressed\<close>

datatype mac_code = MacBtn mouse_button | MacKey u16 | MacText "u16 list"

fun mac_eff :: "mac_event \<Rightarrow> mac_code set \<Rightarrow> mac_code set" where
  "mac_eff (CgMouse (MouseDown b) p m f) D = insert (MacBtn b) D"
| "mac_eff (CgMouse (MouseUp b) p m f) D = D - {MacBtn b}"
| "mac_eff (CgKey vk down f) D = (if down then insert (MacKey vk) D else D - {MacKey vk})"
| "mac_eff (CgUnicode us down) D = (if down then insert (MacText us) D else D - {MacText us})"
| "mac_eff _ D = D"

definition mac_held :: "desktop_mac \<Rightarrow> mac_code set" where
  "mac_held s = MacBtn ` btn_of ` mc_held_buttons s \<union> MacKey ` mc_held_keys s"

definition mac_env_ok :: "mac_env \<Rightarrow> bool" where
  "mac_env_ok e \<longleftrightarrow> drains (me_buttons e) \<and> drains (me_keys e) \<and> (\<forall>n. me_post e n)"

lemma post_each_all: "\<forall>n. ok n \<Longrightarrow> post_each ok n evs = evs"
  by (simp add: post_each_def)

lemma current_location_held: "mc_held_buttons (fst (current_location e s)) = mc_held_buttons s"
  "mc_held_keys (fst (current_location e s)) = mc_held_keys s" "mc_flags (fst (current_location e s)) = mc_flags s"
  "mc_caps_lock (fst (current_location e s)) = mc_caps_lock s"
  by (simp_all add: current_location_def Let_def split: option.split)

lemma mac_move_eff: "fold mac_eff (post_mouse e s (move_event_type s') p) D = D"
  by (simp add: post_mouse_def post_if_def move_event_type_def Let_def)

lemma mac_key_held: "mc_held_keys (track_modifier code down (latch_caps code down s)) = mc_held_keys s"
  "mc_held_buttons (track_modifier code down (latch_caps code down s)) = mc_held_buttons s"
  by (simp_all add: track_modifier_def latch_caps_def Let_def split: option.split)

lemma mac_ups_eff:
  "fold mac_eff (map (\<lambda>b. case button_events b False of (m, ty) \<Rightarrow> CgMouse ty p m None) bs) D = D - MacBtn ` btn_of ` set bs"
  by (induction bs arbitrary: D) (auto simp: button_events_def)

lemma mac_key_ups_eff: "fold mac_eff (map (\<lambda>vk. CgKey vk False None) ks) D = D - MacKey ` set ks"
proof (induction ks arbitrary: D)
  case (Cons k ks)
  show ?case by (simp add: Cons.IH) blast
qed simp

lemma mac_buttons_remove: "x \<in> MacBtn ` btn_of ` X \<Longrightarrow> x \<noteq> MacBtn (btn_of b) \<Longrightarrow> x \<in> MacBtn ` btn_of ` (X - {b})"
  by auto

lemma mac_tracks:
  assumes e: "mac_env_ok e" and D: "D \<subseteq> mac_held s"
  shows "fold mac_eff (snd (mac_step e op s)) D \<subseteq> mac_held (fst (mac_step e op s))"
proof (cases op)
  case (OpPointer x y)
  then show ?thesis using D by (simp add: mac_pointer_def mac_move_eff Let_def split: prod.split)
next
  case (OpPointerRelative dx dy)
  then show ?thesis using D
    by (simp add: mac_pointer_relative_def split_beta mac_move_eff mac_held_def current_location_held)
next
  case (OpButton b down)
  then show ?thesis using D e
    by (auto simp: mac_button_def split_beta Let_def mac_held_def current_location_held button_events_def post_if_def
        mac_env_ok_def intro: mac_buttons_remove)
next
  case (OpScroll dx dy)
  then show ?thesis using D by (auto simp: mac_scroll_def split_beta Let_def mac_held_def post_if_def)
next
  case (OpKey code down)
  then show ?thesis using D e
    by (auto simp: mac_key_def Let_def mac_held_def mac_key_held post_if_def mac_env_ok_def split: option.splits)
next
  case (OpTypeChar c)
  have "MacText u \<notin> D" for u using D by (auto simp: mac_held_def)
  then show ?thesis using D e OpTypeChar by (auto simp: mac_type_char_def post_if_def mac_env_ok_def)
next
  case OpFlushHeld
  have d: "set (me_buttons e X) = X" "set (me_keys e Y) = Y" and p: "\<forall>n. me_post e n" for X Y
    using e by (simp_all add: mac_env_ok_def drains_set)
  have "snd (mac_flush_held e s) =
      map (\<lambda>b. case button_events b False of (m, ty) \<Rightarrow> CgMouse ty (snd (current_location e s)) m None) (me_buttons e (mc_held_buttons s)) @
      map (\<lambda>vk. CgKey vk False None) (me_keys e (mc_held_keys s))"
    by (simp add: mac_flush_held_def split_beta Let_def post_each_all [OF p] current_location_held)
  then have "fold mac_eff (snd (mac_flush_held e s)) D = D - MacBtn ` btn_of ` mc_held_buttons s - MacKey ` mc_held_keys s"
    by (simp only: fold_append comp_def mac_ups_eff mac_key_ups_eff d)
  with D OpFlushHeld show ?thesis by (auto simp: mac_held_def)
qed

interpretation mac: injector mac_step mac_held mac_eff mac_env_ok
proof
  show "mac_env_ok v \<Longrightarrow> mac_held s = {} \<Longrightarrow> snd (mac_step v OpFlushHeld s) = []" for v s
    using drains_set [of "me_buttons v" "{}"] drains_set [of "me_keys v" "{}"]
    by (auto simp: mac_held_def mac_flush_held_def mac_env_ok_def split_beta Let_def current_location_held post_each_def)
qed (simp_all add: mac_tracks, simp add: mac_flush_held_def mac_held_def split_beta Let_def)

subsection \<open>The modifier mask\<close>

text \<open>The keys that assert a modifier, and the invariant: a modifier is in the mask only while one of its keys is tracked as held.\<close>

fun flag_keys :: "cg_flag \<Rightarrow> u16 set" where
  "flag_keys FlagAlphaShift = {}"
| "flag_keys FlagControl = {0x3B, 0x3E}"
| "flag_keys FlagShift = {0x38, 0x3C}"
| "flag_keys FlagAlternate = {0x3A, 0x3D}"
| "flag_keys FlagCommand = {0x37, 0x36}"

definition mask_sound :: "desktop_mac \<Rightarrow> bool" where
  "mask_sound s \<longleftrightarrow> (\<forall>f \<in> mc_flags s. if f = FlagAlphaShift then mc_caps_lock s else mc_held_keys s \<inter> flag_keys f \<noteq> {}) \<and>
     (mc_caps_lock s \<longrightarrow> FlagAlphaShift \<in> mc_flags s)"

lemma modifier_keys:
  "mac_evdev_to_vk 29 = Some 0x3B" "mac_evdev_to_vk 97 = Some 0x3E" "mac_evdev_to_vk 42 = Some 0x38"
  "mac_evdev_to_vk 54 = Some 0x3C" "mac_evdev_to_vk 56 = Some 0x3A" "mac_evdev_to_vk 100 = Some 0x3D"
  "mac_evdev_to_vk 125 = Some 0x37" "mac_evdev_to_vk 126 = Some 0x36"
  by (simp_all add: mac_evdev_to_vk_def MAC_VK_TABLE_def)

lemma mac_table_injective: "distinct (map snd MAC_VK_TABLE)"
  by (simp add: MAC_VK_TABLE_def)

lemma mac_vk_inj: "mac_evdev_to_vk c = Some vk \<Longrightarrow> mac_evdev_to_vk c' = Some vk \<Longrightarrow> c = c'"
proof -
  assume c: "mac_evdev_to_vk c = Some vk" "mac_evdev_to_vk c' = Some vk"
  then have "(c, vk) \<in> set MAC_VK_TABLE" "(c', vk) \<in> set MAC_VK_TABLE"
    by (simp_all add: mac_evdev_to_vk_def map_of_SomeD)
  with mac_table_injective show "c = c'" by (metis (no_types, lifting) distinct_map inj_onD prod.inject snd_conv)
qed

lemma flag_of_key:
  assumes "mac_evdev_to_vk c = Some vk" "vk \<in> flag_keys f"
  shows "evdev_modifier_flag c = Some f"
proof -
  have k: "mac_evdev_to_vk m = Some vk \<Longrightarrow> c = m" for m using mac_vk_inj assms(1) by blast
  show ?thesis using assms(2) modifier_keys k
    by (cases f) (auto simp: evdev_modifier_flag_def)
qed

lemma modifier_key_of_flag: "evdev_modifier_flag c = Some f \<Longrightarrow> \<exists>vk. mac_evdev_to_vk c = Some vk \<and> vk \<in> flag_keys f"
  using modifier_keys by (auto simp: evdev_modifier_flag_def split: if_splits)

lemma modifier_not_caps: "evdev_modifier_flag c = Some f \<Longrightarrow> f \<noteq> FlagAlphaShift \<and> c \<noteq> 58"
  by (auto simp: evdev_modifier_flag_def split: if_splits)

lemma latch_caps_sound: "mask_sound s \<Longrightarrow> mask_sound (latch_caps code down s)"
  by (auto simp: latch_caps_def mask_sound_def Let_def)

lemma mask_sound_down:
  assumes "mask_sound l" "mac_evdev_to_vk code = Some vk"
  shows "mask_sound ((track_modifier code True l)\<lparr>mc_held_keys := insert vk (mc_held_keys l)\<rparr>)"
proof (cases "evdev_modifier_flag code")
  case (Some f)
  then have "f \<noteq> FlagAlphaShift" "vk \<in> flag_keys f" using modifier_not_caps modifier_key_of_flag [OF Some] assms(2) by auto
  then show ?thesis using assms(1) Some by (auto simp: track_modifier_def mask_sound_def)
qed (use assms(1) in \<open>auto simp: track_modifier_def mask_sound_def\<close>)

lemma mask_sound_up:
  assumes "mask_sound l" "mac_evdev_to_vk code = Some vk"
  shows "mask_sound ((track_modifier code False l)\<lparr>mc_held_keys := mc_held_keys l - {vk}\<rparr>)"
proof (cases "evdev_modifier_flag code")
  case None
  then have "vk \<notin> flag_keys f" for f using flag_of_key [OF assms(2)] by auto
  then have "(mc_held_keys l - {vk}) \<inter> flag_keys f = mc_held_keys l \<inter> flag_keys f" for f by auto
  then show ?thesis using assms(1) None by (simp add: track_modifier_def mask_sound_def)
next
  case (Some f)
  then have f: "f \<noteq> FlagAlphaShift" using modifier_not_caps by blast
  have "vk \<notin> flag_keys g" if "g \<noteq> f" for g using that flag_of_key [OF assms(2), of g] Some by auto
  then have "(mc_held_keys l - {vk}) \<inter> flag_keys g = mc_held_keys l \<inter> flag_keys g" if "g \<noteq> f" for g using that by blast
  then show ?thesis using assms(1) f Some by (auto simp: track_modifier_def mask_sound_def)
qed

lemma mask_sound_key:
  assumes "mask_sound s"
  shows "mask_sound (fst (mac_key e code down s))"
proof -
  let ?l = "latch_caps code down s"
  have l: "mask_sound ?l" using assms by (rule latch_caps_sound)
  show ?thesis
  proof (cases "mac_evdev_to_vk code")
    case None
    then have "evdev_modifier_flag code = None" using modifier_key_of_flag [of code] by (cases "evdev_modifier_flag code") auto
    then show ?thesis using l None by (simp add: mac_key_def track_modifier_def Let_def)
  next
    case (Some vk)
    have "mc_held_keys (track_modifier code down ?l) = mc_held_keys ?l"
      by (simp add: track_modifier_def split: option.split)
    then show ?thesis using Some mask_sound_down [OF l Some] mask_sound_up [OF l Some]
      by (cases down) (simp_all add: mac_key_def Let_def)
  qed
qed

lemma mask_sound_frame:
  "mc_flags s' = mc_flags s \<Longrightarrow> mc_held_keys s' = mc_held_keys s \<Longrightarrow> mc_caps_lock s' = mc_caps_lock s \<Longrightarrow> mask_sound s' = mask_sound s"
  by (simp add: mask_sound_def)

lemma mask_sound_step: "mask_sound s \<Longrightarrow> mask_sound (fst (mac_step e op s))"
proof (cases op)
  case (OpKey code down)
  then show "mask_sound s \<Longrightarrow> ?thesis" by (simp add: mask_sound_key)
next
  case OpFlushHeld
  then show ?thesis by (simp add: mac_flush_held_def split_beta Let_def mask_sound_def)
next
  case (OpPointer x y)
  then show "mask_sound s \<Longrightarrow> ?thesis" by (simp add: mac_pointer_def split_beta Let_def)
next
  case (OpPointerRelative dx dy)
  then show "mask_sound s \<Longrightarrow> ?thesis"
    by (simp add: mac_pointer_relative_def split_beta current_location_held mask_sound_def)
next
  case (OpButton b down)
  then show "mask_sound s \<Longrightarrow> ?thesis"
    by (simp add: mac_button_def split_beta Let_def current_location_held mask_sound_def)
next
  case (OpScroll dx dy)
  then show "mask_sound s \<Longrightarrow> ?thesis" by (simp add: mac_scroll_def split_beta Let_def mask_sound_def)
next
  case (OpTypeChar c)
  then show "mask_sound s \<Longrightarrow> ?thesis" by (simp add: mac_type_char_def)
qed

lemma mask_sound_run: "mask_sound s \<Longrightarrow> mask_sound (fst (run_ops mac_step cs s))"
proof (induction cs arbitrary: s)
  case (Cons c cs)
  then show ?case using mask_sound_step [of s "fst c" "snd c"] by (simp add: split_beta)
qed simp

text \<open>
  C28: The macOS injector never asserts a modifier nobody holds: after any calls, even when events fail to be created, a
  modifier is stamped onto events only while one of its two keys is held, and the Caps Lock bit follows the latch.  As
  long as the events come into being, nothing stays pressed: when the injector is dropped every button, key and text
  that went down has gone up, and the mask and the latch are clear.
\<close>

theorem mac_modifiers_and_release:
  assumes "mac_new True = Some s"
  shows "mask_sound (fst (run_ops mac_step cs s)) \<and>
    (list_all (\<lambda>c. mac_env_ok (fst c)) cs \<and> mac_env_ok e \<longrightarrow>
      fold mac_eff (snd (run_ops mac_step cs s) @ mac_drop e (fst (run_ops mac_step cs s))) {} = {}) \<and>
    mc_flags (fst (mac_flush_held e (fst (run_ops mac_step cs s)))) = {} \<and>
    \<not> mc_caps_lock (fst (mac_flush_held e (fst (run_ops mac_step cs s))))"
proof (intro conjI impI)
  have s: "mask_sound s" using assms by (auto simp: mac_new_def mask_sound_def)
  then show "mask_sound (fst (run_ops mac_step cs s))" by (rule mask_sound_run)
  assume ok: "list_all (\<lambda>c. mac_env_ok (fst c)) cs \<and> mac_env_ok e"
  have "fold mac_eff (snd (run_ops mac_step cs s)) {} \<subseteq> mac_held (fst (run_ops mac_step cs s))"
    by (rule mac.run_tracks) (use ok in auto)
  from mac.flush_releases [OF _ this, of e] ok
  show "fold mac_eff (snd (run_ops mac_step cs s) @ mac_drop e (fst (run_ops mac_step cs s))) {} = {}"
    by (simp add: mac_drop_def)
qed (simp_all add: mac_flush_held_def split_beta Let_def)

definition mac_quiet :: mac_env where
  "mac_quiet = \<lparr>me_source = True, me_location = Some (5, 5), me_post = (\<lambda>_. True), me_bounds = (0, 0, 1440, 900),
     me_buttons = sorted_list_of_set, me_keys = sorted_list_of_set\<rparr>"

definition mac_fresh :: desktop_mac where
  "mac_fresh = \<lparr>mc_held_buttons = {}, mc_held_keys = {}, mc_flags = {}, mc_caps_lock = False, mc_scroll_v = 0,
        mc_scroll_h = 0, mc_last_point = (0, 0)\<rparr>"

definition mac_demo :: "(mac_env \<times> desk_op) list" where
  "mac_demo = map (Pair mac_quiet) [OpKey 42 True, OpButton 0 True, OpTypeChar 231, OpKey 58 True]"

theorem mac_modifiers_and_release_witness:
  "mask_sound (fst (run_ops mac_step mac_demo mac_fresh)) \<and>
   fold mac_eff (snd (run_ops mac_step mac_demo mac_fresh) @ mac_drop mac_quiet (fst (run_ops mac_step mac_demo mac_fresh))) {} = {}"
proof -
  have "mac_new True = Some mac_fresh" by (simp add: mac_new_def mac_fresh_def)
  from mac_modifiers_and_release [OF this, of mac_demo mac_quiet] show ?thesis
    by (simp add: mac_demo_def mac_env_ok_def mac_quiet_def drains_sorted)
qed

text \<open>The mask is not complete: with both Shift keys down, releasing one clears the flag while the other is still held.\<close>

lemma second_shift_is_forgotten:
  "let s = fst (run_ops mac_step (map (Pair mac_quiet) [OpKey 42 True, OpKey 54 True, OpKey 54 False]) mac_fresh)
   in 0x38 \<in> mc_held_keys s \<and> FlagShift \<notin> mc_flags s"
  by (simp add: mac_key_def modifier_keys latch_caps_def track_modifier_def evdev_modifier_flag_def mac_fresh_def Let_def)

end
