(* ===== verification/Pulsar_Touchpad.thy ===== *)
theory Pulsar_Touchpad
  imports Pulsar_Wire
begin

text \<open>
  The touchpad reader of Linux clients (\<^verbatim>\<open>input/touchpad_linux.rs\<close>): the choice of the device node and the loop that
  turns its events into pointer events behind the capture gate.  What the kernel lists and delivers, the session's
  running flag and the gate are inputs: the loop consumes a list of rounds, one per pass through \<^verbatim>\<open>while\<close>, and blocks
  (in \<^verbatim>\<open>fetch_events\<close>) when the list is over.  The result of a send is ignored by the code.
\<close>

subsection \<open>Finding the device\<close>

definition SONY_VID :: u16 where "SONY_VID = 0x054C"
definition DS4_PIDS :: "u16 list" where "DS4_PIDS = [0x05C4, 0x09CC, 0x0BA0]"
definition DS5_PIDS :: "u16 list" where "DS5_PIDS = [0x0CE6, 0x0DF2]"

datatype abs_axis = AbsMtPositionX | AbsMtPositionY | AbsX | AbsY | AbsOther
datatype key_code = BtnTouch | BtnLeft | KeyOther

text \<open>A device that could be opened: its name in lower case, its ids and what it supports (\<^verbatim>\<open>None\<close> when it reports no such class).\<close>

record evdev_device =
  ed_name :: string
  ed_vendor :: u16
  ed_product :: u16
  ed_axes :: "abs_axis list option"
  ed_keys :: "key_code list option"

record dir_entry =
  de_file_name :: "string option"
  de_open :: "evdev_device option"

definition contains_str :: "'a list \<Rightarrow> 'a list \<Rightarrow> bool" where
  "contains_str s pat \<longleftrightarrow> list_ex (\<lambda>i. take (length pat) (drop i s) = pat) [0..<Suc (length s)]"

definition starts_with :: "'a list \<Rightarrow> 'a list \<Rightarrow> bool" where
  "starts_with s pre \<longleftrightarrow> take (length pre) s = pre"

definition is_touchpad_node :: "evdev_device \<Rightarrow> bool" where
  "is_touchpad_node d \<longleftrightarrow>
     (case ed_axes d of Some a \<Rightarrow> AbsMtPositionX \<in> set a | None \<Rightarrow> False) \<and>
     (case ed_keys d of Some k \<Rightarrow> BtnTouch \<in> set k | None \<Rightarrow> False)"

fun find_in :: "dir_entry list \<Rightarrow> evdev_device option" where
  "find_in [] = None"
| "find_in (x # xs) =
     (if \<not> (case de_file_name x of Some n \<Rightarrow> starts_with n ''event'' | None \<Rightarrow> False) then find_in xs
      else case de_open x of
        None \<Rightarrow> find_in xs
      | Some d \<Rightarrow>
          let is_sony = (ed_vendor d = SONY_VID);
              is_ds4_ds5_pid = (ed_product d \<in> set DS4_PIDS \<or> ed_product d \<in> set DS5_PIDS);
              name_is_touchpad = contains_str (ed_name d) ''touchpad''
          in if name_is_touchpad \<and> is_sony \<or> is_sony \<and> is_ds4_ds5_pid
             then if is_touchpad_node d then Some d else find_in xs
             else find_in xs)"

definition find_touchpad :: "dir_entry list option \<Rightarrow> evdev_device option" where
  "find_touchpad dir = (case dir of None \<Rightarrow> None | Some es \<Rightarrow> find_in es)"

subsection \<open>The reader loop\<close>

datatype touch_event = TAbs abs_axis i32 | TKey key_code i32 | TSyn | TOther

record touch_state =
  ts_prev :: "(i32 \<times> i32) option"
  ts_cur_x :: "i32 option"
  ts_cur_y :: "i32 option"
  ts_finger_down :: bool
  ts_held_left :: bool
  ts_was_active :: bool

definition touch_init :: touch_state where
  "touch_init = \<lparr>ts_prev = None, ts_cur_x = None, ts_cur_y = None, ts_finger_down = False, ts_held_left = False,
     ts_was_active = False\<rparr>"

definition gate_edge :: "bool \<Rightarrow> touch_state \<Rightarrow> touch_state \<times> input_event list" where
  "gate_edge active s =
     (if active \<noteq> ts_was_active s
      then (s\<lparr>ts_held_left := (if \<not> active \<and> ts_held_left s then False else ts_held_left s), ts_prev := None,
              ts_was_active := active\<rparr>,
            if \<not> active \<and> ts_held_left s then [PointerButton 0 False] else [])
      else (s, []))"

definition commit :: "bool \<Rightarrow> rat \<Rightarrow> touch_state \<Rightarrow> touch_state \<times> input_event list" where
  "commit active sens s =
     (let (s1, out) =
        (if ts_finger_down s
         then (case (ts_cur_x s, ts_cur_y s) of
           (Some x, Some y) \<Rightarrow>
             (s\<lparr>ts_prev := Some (x, y)\<rparr>,
              if active
              then (case ts_prev s of
                 Some p \<Rightarrow>
                   let (dx, dy) = touch_to_delta p (x, y) sens
                   in if dx \<noteq> 0 \<or> dy \<noteq> 0 then [PointerRelative dx dy] else []
               | None \<Rightarrow> [])
              else [])
         | _ \<Rightarrow> (s, []))
         else (s, []))
      in (s1\<lparr>ts_cur_x := None, ts_cur_y := None\<rparr>, out))"

fun touch_step :: "bool \<Rightarrow> rat \<Rightarrow> touch_event \<Rightarrow> touch_state \<Rightarrow> touch_state \<times> input_event list" where
  "touch_step active sens (TAbs AbsMtPositionX v) s = (s\<lparr>ts_cur_x := Some v\<rparr>, [])"
| "touch_step active sens (TAbs AbsMtPositionY v) s = (s\<lparr>ts_cur_y := Some v\<rparr>, [])"
| "touch_step active sens (TAbs AbsX v) s =
     (s\<lparr>ts_cur_x := (case ts_cur_x s of Some x \<Rightarrow> Some x | None \<Rightarrow> Some v)\<rparr>, [])"
| "touch_step active sens (TAbs AbsY v) s =
     (s\<lparr>ts_cur_y := (case ts_cur_y s of Some y \<Rightarrow> Some y | None \<Rightarrow> Some v)\<rparr>, [])"
| "touch_step active sens (TKey BtnTouch v) s =
     (if v = 0 then (s\<lparr>ts_finger_down := False, ts_prev := None\<rparr>, []) else (s\<lparr>ts_finger_down := True\<rparr>, []))"
| "touch_step active sens (TKey BtnLeft v) s =
     (let down = (v \<noteq> 0) in
      (s\<lparr>ts_held_left := down\<rparr>, if \<not> active then [] else [PointerButton 0 down]))"
| "touch_step active sens TSyn s = commit active sens s"
| "touch_step active sens _ s = (s, [])"

text \<open>
  The events of one round, each with the running flag read before it; \<^verbatim>\<open>None\<close> in the result is the \<^verbatim>\<open>break\<close> out of the
  reader.  A round is the running flag at the loop head, what \<^verbatim>\<open>fetch_events\<close> gives and what the gate says.
\<close>

fun touch_events :: "bool \<Rightarrow> rat \<Rightarrow> (bool \<times> touch_event) list \<Rightarrow> touch_state \<Rightarrow> touch_state option \<times> input_event list" where
  "touch_events active sens [] s = (Some s, [])"
| "touch_events active sens ((running, ev) # evs) s =
     (if \<not> running then (None, [])
      else let (s1, out1) = touch_step active sens ev s; (r, out2) = touch_events active sens evs s1
           in (r, out1 @ out2))"

record touch_round =
  tr_running :: bool
  tr_fetch :: "(bool \<times> touch_event) list option"
  tr_active :: bool

definition touch_pass :: "rat \<Rightarrow> touch_round \<Rightarrow> touch_state \<Rightarrow> touch_state option \<times> input_event list" where
  "touch_pass sens r s =
     (if \<not> tr_running r then (None, [])
      else case tr_fetch r of
        None \<Rightarrow> (None, [])
      | Some evs \<Rightarrow>
          let (s1, out1) = gate_edge (tr_active r) s; (res, out2) = touch_events (tr_active r) sens evs s1
          in (res, out1 @ out2))"

fun touch_loop :: "rat \<Rightarrow> touch_round list \<Rightarrow> touch_state \<Rightarrow> touch_state option \<times> input_event list" where
  "touch_loop sens [] s = (Some s, [])"
| "touch_loop sens (r # rs) s =
     (case touch_pass sens r s of
        (None, out) \<Rightarrow> (None, out)
      | (Some s1, out) \<Rightarrow> let (res, out2) = touch_loop sens rs s1 in (res, out @ out2))"

definition DEFAULT_SENS :: rat where "DEFAULT_SENS = rnd64 (35 / 100)"

definition spawn_touchpad_reader ::
  "dir_entry list option \<Rightarrow> rat option \<Rightarrow> touch_round list \<Rightarrow> input_event list" where
  "spawn_touchpad_reader dir sens rounds =
     (let sens' = (case sens of Some v \<Rightarrow> v | None \<Rightarrow> DEFAULT_SENS) in
      case find_touchpad dir of
        None \<Rightarrow> []
      | Some _ \<Rightarrow> snd (touch_loop sens' rounds touch_init))"

subsection \<open>Properties\<close>

text \<open>The left button as the host sees it after a list of events.\<close>

fun left_after :: "bool \<Rightarrow> input_event \<Rightarrow> bool" where
  "left_after d (PointerButton b down) = (if b = 0 then down else d)"
| "left_after d _ = d"

definition host_left :: "input_event list \<Rightarrow> bool \<Rightarrow> bool" where
  "host_left evs d = foldl left_after d evs"

lemma host_left_append: "host_left (xs @ ys) d = host_left ys (host_left xs d)"
  by (simp add: host_left_def)

lemma host_left_simps: "host_left [] d = d" "host_left [PointerButton 0 v] d = v"
  by (simp_all add: host_left_def)

definition touch_inv :: "bool \<Rightarrow> touch_state \<Rightarrow> bool" where
  "touch_inv d s \<longleftrightarrow> (d \<longrightarrow> ts_was_active s \<and> ts_held_left s)"

lemma commit_frame: "ts_was_active (fst (commit active sens s)) = ts_was_active s"
  "ts_held_left (fst (commit active sens s)) = ts_held_left s"
  "host_left (snd (commit active sens s)) d = d"
  by (auto simp: commit_def Let_def host_left_def split: option.splits prod.splits)

lemma touch_step_active: "ts_was_active (fst (touch_step active sens ev s)) = ts_was_active s"
  by (cases "(active, sens, ev, s)" rule: touch_step.cases) (simp_all add: commit_frame Let_def)

lemma touch_step_inv:
  assumes "touch_inv d s" "ts_was_active s = active"
  shows "touch_inv (host_left (snd (touch_step active sens ev s)) d) (fst (touch_step active sens ev s))"
  using assms by (cases "(active, sens, ev, s)" rule: touch_step.cases)
    (auto simp: touch_inv_def commit_frame Let_def host_left_simps)

lemma touch_events_inv:
  "touch_inv d s \<Longrightarrow> ts_was_active s = active \<Longrightarrow> touch_events active sens evs s = (Some s', out) \<Longrightarrow>
    touch_inv (host_left out d) s' \<and> ts_was_active s' = active"
proof (induction active sens evs s arbitrary: d out rule: touch_events.induct)
  case (2 active sens running ev evs s)
  obtain s1 o1 where 1: "touch_step active sens ev s = (s1, o1)" by fastforce
  obtain o2 where out: "running" "touch_events active sens evs s1 = (Some s', o2)" "out = o1 @ o2"
    using 2(4) 1 by (auto split: if_splits prod.splits)
  have "touch_inv (host_left o1 d) s1" "ts_was_active s1 = active"
    using touch_step_inv [OF 2(2,3), of sens ev] touch_step_active [of active sens ev s] 1 2(3) by simp_all
  from 2(1) [OF _ _ _ this out(2)] 1 out show ?case by (simp add: host_left_append)
qed (simp add: host_left_def)

lemma gate_edge_inv:
  assumes "touch_inv d s"
  shows "touch_inv (host_left (snd (gate_edge a s)) d) (fst (gate_edge a s)) \<and> ts_was_active (fst (gate_edge a s)) = a"
  using assms by (auto simp: gate_edge_def touch_inv_def host_left_def)

lemma touch_pass_inv:
  assumes "touch_inv d s" "touch_pass sens r s = (Some s', out)"
  shows "touch_inv (host_left out d) s' \<and> ts_was_active s' = tr_active r"
proof -
  obtain evs where evs: "tr_fetch r = Some evs" using assms(2) by (auto simp: touch_pass_def split: if_splits option.splits)
  obtain s1 o1 where 1: "gate_edge (tr_active r) s = (s1, o1)" by fastforce
  obtain o2 where 2: "touch_events (tr_active r) sens evs s1 = (Some s', o2)" "out = o1 @ o2"
    using assms(2) evs 1 by (auto simp: touch_pass_def split: if_splits prod.splits)
  have "touch_inv (host_left o1 d) s1" "ts_was_active s1 = tr_active r" using gate_edge_inv [OF assms(1), of "tr_active r"] 1 by simp_all
  from touch_events_inv [OF this 2(1)] 2(2) show ?thesis by (simp add: host_left_append)
qed

lemma touch_loop_inv:
  "touch_inv d s \<Longrightarrow> touch_loop sens rs s = (Some s', out) \<Longrightarrow> touch_inv (host_left out d) s' \<and>
    (rs \<noteq> [] \<longrightarrow> ts_was_active s' = tr_active (last rs))"
proof (induction rs arbitrary: d s out)
  case (Cons r rs)
  obtain s1 o1 o2 where 1: "touch_pass sens r s = (Some s1, o1)" "touch_loop sens rs s1 = (Some s', o2)" "out = o1 @ o2"
    using Cons.prems(2) by (auto split: prod.splits option.splits)
  note p = touch_pass_inv [OF Cons.prems(1) 1(1)]
  from Cons.IH [OF conjunct1 [OF p] 1(2)] p 1 show ?case by (auto simp: host_left_append)
qed (simp add: host_left_def)

text \<open>What is sent while the gate is closed: nothing but the release of a held click.\<close>

lemma closed_step: "snd (touch_step False sens ev s) = []"
  by (cases "(False, sens, ev, s)" rule: touch_step.cases)
    (auto simp: commit_def Let_def split: option.splits prod.splits)

lemma closed_events: "snd (touch_events False sens evs s) = []"
  by (induction evs arbitrary: s) (auto simp: closed_step split_beta)

lemma closed_pass: "\<not> tr_active r \<Longrightarrow> snd (touch_pass sens r s) \<in> {[], [PointerButton 0 False]}"
  by (auto simp: touch_pass_def gate_edge_def closed_events split_beta split: option.splits)

text \<open>The first position after the gate opens, or after a finger is placed, only seeds the motion: it never moves the pointer.\<close>

lemma seed_sends_nothing: "ts_prev s = None \<Longrightarrow> snd (commit active sens s) = []"
  by (auto simp: commit_def Let_def split: option.splits prod.splits)


definition click_round :: touch_round where
  "click_round = \<lparr>tr_running = True, tr_fetch = Some [(True, TKey BtnLeft 1)], tr_active = True\<rparr>"

definition closed_round :: touch_round where
  "closed_round = \<lparr>tr_running = True, tr_fetch = Some [(True, TAbs AbsX 5), (True, TSyn)], tr_active = False\<rparr>"


text \<open>When the device goes away the reader ends at once: a click that is held is not released.\<close>

lemma lost_device_keeps_click:
  "touch_loop 1 [click_round, \<lparr>tr_running = True, tr_fetch = None, tr_active = True\<rparr>] touch_init = (None, [PointerButton 0 True])"
  by (simp add: click_round_def touch_init_def touch_pass_def gate_edge_def)

text \<open>The node of the main gamepad, which has no multi-touch axis, is never taken for the touchpad.\<close>

lemma found_is_touchpad: "find_in xs = Some d \<Longrightarrow> is_touchpad_node d \<and> ed_vendor d = SONY_VID"
  by (induction xs) (auto simp: Let_def split: if_splits option.splits)

end
