(* ===== verification/Pulsar_Redirect.thy ===== *)
theory Pulsar_Redirect
  imports Pulsar_Config
begin

text \<open>
  What the audio redirections of the three systems share: the host as the state of the operating system and the
  crash-recovery marker file, with the trail of all states it has gone through, and the contract of a
  redirection that survives a crash. The trail exists for the statements only: no operation reads it.
\<close>

subsection \<open>The host and its marker file\<close>

record 'w host =
  h_world :: 'w
  h_marker :: "rstr option"
  h_trail :: "('w \<times> rstr option) list"

definition snapshot :: "'w host \<Rightarrow> 'w \<times> rstr option" where
  "snapshot h = (h_world h, h_marker h)"

text \<open>A process that starts on what an earlier one left.\<close>

definition started :: "'w \<times> rstr option \<Rightarrow> 'w host" where
  "started p = \<lparr>h_world = fst p, h_marker = snd p, h_trail = [p]\<rparr>"

definition became :: "'w \<Rightarrow> rstr option \<Rightarrow> 'w host \<Rightarrow> 'w host" where
  "became w m h = \<lparr>h_world = w, h_marker = m, h_trail = h_trail h @ [(w, m)]\<rparr>"

definition sys_call :: "('w \<Rightarrow> 'r \<times> 'w) \<Rightarrow> 'w host \<Rightarrow> 'r \<times> 'w host" where
  "sys_call f h = (let (r, w) = f (h_world h) in (r, became w (h_marker h) h))"

text \<open>Which file operations succeed. \<^verbatim>\<open>std::fs::write\<close> truncates the file and then writes it.\<close>

record file_env =
  fe_write :: bool
  fe_read :: bool
  fe_remove :: bool

definition write_marker :: "file_env \<Rightarrow> rstr \<Rightarrow> 'w host \<Rightarrow> 'w host" where
  "write_marker fe text h =
     (if fe_write fe then became (h_world h) (Some text) (became (h_world h) (Some []) h) else h)"

definition remove_marker :: "file_env \<Rightarrow> 'w host \<Rightarrow> 'w host" where
  "remove_marker fe h = (if fe_remove fe then became (h_world h) None h else h)"

definition read_marker :: "file_env \<Rightarrow> 'w host \<Rightarrow> rstr option" where
  "read_marker fe h = (if fe_read fe then h_marker h else None)"

definition files_work :: "file_env \<Rightarrow> bool" where
  "files_work fe \<longleftrightarrow> fe_write fe \<and> fe_read fe \<and> fe_remove fe"

lemma host_simps [simp]:
  "h_world (became w m h) = w" "h_marker (became w m h) = m" "h_trail (became w m h) = h_trail h @ [(w, m)]"
  "h_world (started p) = fst p" "h_marker (started p) = snd p" "h_trail (started p) = [p]"
  by (simp_all add: became_def started_def)

subsection \<open>States a restart recovers from\<close>

text \<open>
  A marker names the output to go back to. A state is safe when the output is still the original one and no
  marker says otherwise, or when the marker names it.
\<close>

definition blank_marker :: "rstr option \<Rightarrow> bool" where
  "blank_marker m \<longleftrightarrow> m = None \<or> m = Some []"

definition safe_state :: "('w \<Rightarrow> bool) \<Rightarrow> rstr \<Rightarrow> 'w \<times> rstr option \<Rightarrow> bool" where
  "safe_state P d p \<longleftrightarrow> P (fst p) \<and> blank_marker (snd p) \<or> snd p = Some d"

definition all_safe :: "('w \<Rightarrow> bool) \<Rightarrow> rstr \<Rightarrow> 'w host \<Rightarrow> bool" where
  "all_safe P d h \<longleftrightarrow> (\<forall>p \<in> set (h_trail h). safe_state P d p) \<and> safe_state P d (snapshot h)"

lemma all_safe_became [simp]:
  "all_safe P d h \<Longrightarrow> all_safe P d (became w m h) \<longleftrightarrow> safe_state P d (w, m)"
  by (auto simp: all_safe_def snapshot_def)

lemma all_safe_started [simp]: "all_safe P d (started p) \<longleftrightarrow> safe_state P d p"
  by (cases p) (auto simp: all_safe_def snapshot_def)

lemma safe_marker [simp]: "safe_state P d (w, Some d)"
  by (simp add: safe_state_def)

lemma safe_blank [simp]:
  "safe_state P d (w, None) \<longleftrightarrow> P w" "safe_state P d (w, Some []) \<longleftrightarrow> P w \<or> d = []"
  by (auto simp: safe_state_def blank_marker_def)

lemma all_safe_write:
  "all_safe P d h \<Longrightarrow> P (h_world h) \<Longrightarrow> all_safe P d (write_marker fe d h)"
  by (simp add: write_marker_def)

lemma all_safe_remove:
  "all_safe P d h \<Longrightarrow> P (h_world h) \<Longrightarrow> all_safe P d (remove_marker fe h)"
  by (simp add: remove_marker_def)

text \<open>Steps that leave the marker alone and do not take the original output away.\<close>

definition keeps_output :: "('w \<Rightarrow> bool) \<Rightarrow> rstr \<Rightarrow> 'w host \<Rightarrow> 'w host \<Rightarrow> bool" where
  "keeps_output P d h h' \<longleftrightarrow> h_marker h' = h_marker h \<and> (P (h_world h) \<longrightarrow> P (h_world h')) \<and> (all_safe P d h \<longrightarrow> all_safe P d h')"

lemma keeps_refl [simp]: "keeps_output P d h h"
  by (simp add: keeps_output_def)

lemma keeps_trans [trans]: "keeps_output P d h h1 \<Longrightarrow> keeps_output P d h1 h2 \<Longrightarrow> keeps_output P d h h2"
  by (simp add: keeps_output_def)

lemma keeps_became: "(P (h_world h) \<Longrightarrow> P w) \<Longrightarrow> keeps_output P d h (became w (h_marker h) h)"
  unfolding keeps_output_def by (auto simp: all_safe_def snapshot_def safe_state_def)

lemma marked_became: "h_marker h = Some d \<Longrightarrow> all_safe P d h \<Longrightarrow> all_safe P d (became w (h_marker h) h)"
  by simp

subsection \<open>The contract\<close>

text \<open>
  One run of the program: what the environment does while it recovers at launch, redirects and tears down, and
  whether it dies on the way, counted in states of its trail.
\<close>

record 'e session_run =
  sr_boot :: 'e
  sr_arm :: 'e
  sr_end :: 'e
  sr_died :: "nat option"

definition one_run ::
  "('e \<Rightarrow> 'w host \<Rightarrow> 'g option \<times> 'w host) \<Rightarrow> ('e \<Rightarrow> 'g \<Rightarrow> 'w host \<Rightarrow> 'w host) \<Rightarrow> ('e \<Rightarrow> 'w host \<Rightarrow> 'w host) \<Rightarrow>
    'e session_run \<Rightarrow> 'w \<times> rstr option \<Rightarrow> 'w \<times> rstr option" where
  "one_run arm disarm recover s p =
     (let h0 = recover (sr_boot s) (started p);
          (g, h1) = arm (sr_arm s) (started (snapshot h0));
          h2 = (case g of Some g' \<Rightarrow> disarm (sr_end s) g' h1 | None \<Rightarrow> h1)
      in case sr_died s of
           Some n \<Rightarrow> if n < length (h_trail h2) then h_trail h2 ! n else snapshot h2
         | None \<Rightarrow> snapshot h2)"

definition run_ok :: "('e \<Rightarrow> bool) \<Rightarrow> 'e session_run \<Rightarrow> bool" where
  "run_ok ok s \<longleftrightarrow> ok (sr_boot s) \<and> ok (sr_arm s) \<and> ok (sr_end s)"

locale redirect =
  fixes arm :: "'e \<Rightarrow> 'w host \<Rightarrow> 'g option \<times> 'w host"
    and disarm :: "'e \<Rightarrow> 'g \<Rightarrow> 'w host \<Rightarrow> 'w host"
    and recover :: "'e \<Rightarrow> 'w host \<Rightarrow> 'w host"
    and plays :: "'d \<Rightarrow> 'w \<Rightarrow> bool"
    and env_ok :: "'d \<Rightarrow> 'e \<Rightarrow> bool"
    and name_of :: "'d \<Rightarrow> rstr"
  assumes recovers: "\<lbrakk>env_ok d e; safe_state (plays d) (name_of d) p\<rbrakk> \<Longrightarrow>
      plays d (h_world (recover e (started p))) \<and> h_marker (recover e (started p)) = None"
    and arm_safe: "\<lbrakk>env_ok d e; plays d w\<rbrakk> \<Longrightarrow> all_safe (plays d) (name_of d) (snd (arm e (started (w, None))))"
    and disarm_restores: "\<lbrakk>env_ok d e; env_ok d e'; plays d w; arm e (started (w, None)) = (Some g, h)\<rbrakk> \<Longrightarrow>
      all_safe (plays d) (name_of d) (disarm e' g h) \<and> plays d (h_world (disarm e' g h)) \<and> h_marker (disarm e' g h) = None"
begin

lemma one_run_safe:
  assumes "run_ok (env_ok d) s" "safe_state (plays d) (name_of d) p"
  shows "safe_state (plays d) (name_of d) (one_run arm disarm recover s p)"
proof -
  let ?h0 = "recover (sr_boot s) (started p)"
  have h0: "plays d (h_world ?h0)" "snapshot ?h0 = (h_world ?h0, None)"
    using recovers [of d "sr_boot s" p] assms by (simp_all add: run_ok_def snapshot_def)
  obtain g h1 where a: "arm (sr_arm s) (started (snapshot ?h0)) = (g, h1)" by (cases "arm (sr_arm s) (started (snapshot ?h0))")
  let ?h2 = "case g of Some g' \<Rightarrow> disarm (sr_end s) g' h1 | None \<Rightarrow> h1"
  have "all_safe (plays d) (name_of d) ?h2"
    using arm_safe [of d "sr_arm s" "h_world ?h0"] disarm_restores [of d "sr_arm s" "sr_end s" "h_world ?h0"] a h0 assms(1)
    by (auto simp: run_ok_def split: option.split)
  then show ?thesis by (auto simp: one_run_def Let_def a all_safe_def split: option.split)
qed

text \<open>Whatever runs die wherever they may, the next launch has the original output back.\<close>

lemma runs_recover:
  assumes "\<forall>s \<in> set ss. run_ok (env_ok d) s" "plays d w" "env_ok d e"
  shows "plays d (h_world (recover e (started (fold (one_run arm disarm recover) ss (w, None)))))"
    and "h_marker (recover e (started (fold (one_run arm disarm recover) ss (w, None)))) = None"
proof -
  have "safe_state (plays d) (name_of d) (fold (one_run arm disarm recover) ss p)" if "safe_state (plays d) (name_of d) p" for p
    using assms(1) that by (induction ss arbitrary: p) (simp_all add: one_run_safe del: split_paired_All)
  then show "plays d (h_world (recover e (started (fold (one_run arm disarm recover) ss (w, None)))))"
    "h_marker (recover e (started (fold (one_run arm disarm recover) ss (w, None)))) = None"
    using recovers [OF assms(3)] assms(2) by simp_all
qed

end

end
