(* ===== verification/Pulsar_Sink.thy ===== *)
theory Pulsar_Sink
  imports Pulsar_Redirect Pulsar_Touchpad
begin

text \<open>
  The Windows half of staying silent while streaming (\<^verbatim>\<open>audio/sink.rs\<close>): finding the virtual sink, its
  format, and redirecting the default output with a marker file. Core Audio is an argument (\<open>core_audio\<close>), of which
  \<open>core_audio_ok\<close> says what the code relies on.
\<close>

subsection \<open>Wave formats\<close>

record wave_format_params =
  wf_channels :: u16
  wf_sample_rate :: u32
  wf_bits_per_sample :: u16
  wf_valid_bits :: u16
  wf_is_float :: bool
  wf_channel_mask :: u32

definition channel_mask_for :: "u16 \<Rightarrow> u32" where
  "channel_mask_for n =
     (if n = 6 then 0x1 OR 0x2 OR 0x4 OR 0x8 OR 0x10 OR 0x20
      else if n = 8 then 0x1 OR 0x2 OR 0x4 OR 0x8 OR 0x10 OR 0x20 OR 0x200 OR 0x400
      else 0x1 OR 0x2)"

definition for_layout :: "channel_layout \<Rightarrow> u16 \<Rightarrow> wave_format_params" where
  "for_layout layout bits =
     (let ch = of_nat (channels layout);
          (container, valid, fl) = (if bits = 16 then (16, 16, False) else if bits = 24 then (32, 24, False) else (32, 32, True))
      in \<lparr>wf_channels = ch, wf_sample_rate = of_nat SAMPLE_RATE, wf_bits_per_sample = container, wf_valid_bits = valid,
          wf_is_float = fl, wf_channel_mask = channel_mask_for ch\<rparr>)"

definition block_align :: "wave_format_params \<Rightarrow> u16" where
  "block_align p = wf_channels p * (wf_bits_per_sample p div 8)"

definition avg_bytes_per_sec :: "wave_format_params \<Rightarrow> u32" where
  "avg_bytes_per_sec p = wf_sample_rate p * ucast (block_align p)"

definition WAVE_FORMAT_EXTENSIBLE :: u16 where "WAVE_FORMAT_EXTENSIBLE = 0xFFFE"

datatype sub_format = SubPcm | SubIeeeFloat

record wave_format_ex =
  wx_tag :: u16
  wx_channels :: u16
  wx_rate :: u32
  wx_avg_bytes :: u32
  wx_block_align :: u16
  wx_bits :: u16
  wx_cb_size :: u16

record wave_format_extensible = wave_format_ex +
  wx_valid_bits :: u16
  wx_mask :: u32
  wx_sub :: sub_format

definition build_waveformatextensible :: "wave_format_params \<Rightarrow> wave_format_extensible" where
  "build_waveformatextensible p =
     \<lparr>wx_tag = WAVE_FORMAT_EXTENSIBLE, wx_channels = wf_channels p, wx_rate = wf_sample_rate p,
      wx_avg_bytes = avg_bytes_per_sec p, wx_block_align = block_align p, wx_bits = wf_bits_per_sample p, wx_cb_size = 22,
      wx_valid_bits = wf_valid_bits p, wx_mask = wf_channel_mask p,
      wx_sub = (if wf_is_float p then SubIeeeFloat else SubPcm)\<rparr>"

subsection \<open>Core Audio\<close>

datatype endpoint_role = Console | Multimedia | Communications

definition ROLES :: "endpoint_role list" where "ROLES = [Console, Multimedia, Communications]"

datatype audio_error =
    EnumeratorFailed | EnumEndpointsFailed | GetCountFailed | GetIdFailed | NoPolicyConfig
  | SetDefaultFailed u32
  | SetFormatFailed u16 u16 u32

text \<open>
  An endpoint: whether its property store opens, its three names, its id (\<^verbatim>\<open>None\<close> when \<^verbatim>\<open>GetId\<close> gives no string) and
  the format blob it stores, as its size and what its start reads as.
\<close>

record format_blob =
  fb_size :: nat
  fb_tag :: u16
  fb_bits :: u16
  fb_valid_bits :: u16

record endpoint =
  ep_store :: bool
  ep_friendly :: "rstr option"
  ep_adapter :: "rstr option"
  ep_desc :: "rstr option"
  ep_id :: "rstr option"
  ep_format :: "format_blob option"

text \<open>
  What the operating system answers. \<^verbatim>\<open>ca_active\<close> is the list of active render endpoints, an entry \<^verbatim>\<open>None\<close> when
  \<^verbatim>\<open>Item\<close> fails; the two setters return the \<^verbatim>\<open>HRESULT\<close> and the new state.
\<close>

record 'w core_audio =
  ca_enumerator :: "'w \<Rightarrow> bool"
  ca_active :: "'w \<Rightarrow> audio_error + endpoint option list"
  ca_default :: "'w \<Rightarrow> endpoint_role \<Rightarrow> endpoint option"
  ca_policy :: "'w \<Rightarrow> bool"
  ca_set_default :: "rstr \<Rightarrow> endpoint_role \<Rightarrow> 'w \<Rightarrow> u32 \<times> 'w"
  ca_set_format :: "rstr \<Rightarrow> wave_format_extensible \<Rightarrow> 'w \<Rightarrow> u32 \<times> 'w"

definition is_err :: "u32 \<Rightarrow> bool" where "is_err hr \<longleftrightarrow> sint hr < 0"

text \<open>
  \<^verbatim>\<open>str::to_lowercase\<close>: the ASCII part, with the Unicode table as an argument.
\<close>

definition str_lowercase :: "(nat \<Rightarrow> nat list) \<Rightarrow> rstr \<Rightarrow> rstr" where
  "str_lowercase lower s = concat (map (\<lambda>c. if 65 \<le> c \<and> c \<le> 90 then [c + 32] else if c < 128 then [c] else lower c) s)"

record sink_device =
  sd_id :: rstr
  sd_friendly_name :: rstr

definition or_else :: "'a option \<Rightarrow> 'a option \<Rightarrow> 'a option" where
  "or_else a b = (case a of Some _ \<Rightarrow> a | None \<Rightarrow> b)"

definition device_matches :: "(nat \<Rightarrow> nat list) \<Rightarrow> endpoint \<Rightarrow> rstr \<Rightarrow> rstr option" where
  "device_matches lower d needle_lc =
     (if \<not> ep_store d then None
      else let hit = list_ex (\<lambda>v. case v of Some n \<Rightarrow> contains_str (str_lowercase lower n) needle_lc | None \<Rightarrow> False)
                       [ep_friendly d, ep_adapter d, ep_desc d]
           in if hit then or_else (or_else (ep_friendly d) (ep_adapter d)) (or_else (ep_desc d) (Some [])) else None)"

fun find_endpoint :: "(nat \<Rightarrow> nat list) \<Rightarrow> rstr \<Rightarrow> endpoint option list \<Rightarrow> audio_error + sink_device option" where
  "find_endpoint lower needle_lc [] = Inr None"
| "find_endpoint lower needle_lc (None # ds) = find_endpoint lower needle_lc ds"
| "find_endpoint lower needle_lc (Some d # ds) =
     (case device_matches lower d needle_lc of
        None \<Rightarrow> find_endpoint lower needle_lc ds
      | Some name \<Rightarrow> (case ep_id d of None \<Rightarrow> Inl GetIdFailed | Some i \<Rightarrow> Inr (Some \<lparr>sd_id = i, sd_friendly_name = name\<rparr>)))"

definition find_render_device_by_name ::
  "(nat \<Rightarrow> nat list) \<Rightarrow> 'w core_audio \<Rightarrow> rstr \<Rightarrow> 'w \<Rightarrow> audio_error + sink_device option" where
  "find_render_device_by_name lower ca needle w =
     (if \<not> ca_enumerator ca w then Inl EnumeratorFailed
      else case ca_active ca w of Inl e \<Rightarrow> Inl e | Inr ds \<Rightarrow> find_endpoint lower (str_lowercase lower needle) ds)"

definition default_render_device_id :: "'w core_audio \<Rightarrow> 'w \<Rightarrow> audio_error + rstr option" where
  "default_render_device_id ca w =
     (if \<not> ca_enumerator ca w then Inl EnumeratorFailed
      else case ca_default ca w Console of
        None \<Rightarrow> Inr None
      | Some d \<Rightarrow> (case ep_id d of None \<Rightarrow> Inl GetIdFailed | Some i \<Rightarrow> Inr (Some i)))"

definition SIZEOF_WAVEFORMATEX :: nat where "SIZEOF_WAVEFORMATEX = 18"
definition SIZEOF_WAVEFORMATEXTENSIBLE :: nat where "SIZEOF_WAVEFORMATEXTENSIBLE = 40"

definition default_device_bits :: "'w core_audio \<Rightarrow> 'w \<Rightarrow> u16 option" where
  "default_device_bits ca w =
     (if \<not> ca_enumerator ca w then None
      else case ca_default ca w Console of
        None \<Rightarrow> None
      | Some d \<Rightarrow>
          if \<not> ep_store d then None
          else case ep_format d of
            None \<Rightarrow> None
          | Some b \<Rightarrow>
              if fb_size b < SIZEOF_WAVEFORMATEX then None
              else let bits = (if fb_tag b = WAVE_FORMAT_EXTENSIBLE \<and> SIZEOF_WAVEFORMATEXTENSIBLE \<le> fb_size b
                               then fb_valid_bits b else fb_bits b)
                   in if 0 < bits then Some bits else None)"

definition set_render_device_format :: "'w core_audio \<Rightarrow> rstr \<Rightarrow> channel_layout \<Rightarrow> 'w \<Rightarrow> (audio_error + unit) \<times> 'w" where
  "set_render_device_format ca device_id layout w =
     (let bits = (case default_device_bits ca w of Some b \<Rightarrow> b | None \<Rightarrow> 32);
          params = for_layout layout bits
      in if \<not> ca_policy ca w then (Inl NoPolicyConfig, w)
         else let (hr, w') = ca_set_format ca device_id (build_waveformatextensible params) w
              in (if is_err hr then Inl (SetFormatFailed (wf_channels params) (wf_valid_bits params) hr) else Inr (), w'))"

subsection \<open>Redirecting the default endpoint\<close>

text \<open>The loop over the roles: the failures counted and the last error kept.\<close>

fun set_roles :: "'w core_audio \<Rightarrow> rstr \<Rightarrow> endpoint_role list \<Rightarrow> nat \<Rightarrow> u32 \<Rightarrow> 'w host \<Rightarrow> nat \<times> u32 \<times> 'w host" where
  "set_roles ca i [] failures last_err h = (failures, last_err, h)"
| "set_roles ca i (r # rs) failures last_err h =
     (let (hr, h') = sys_call (ca_set_default ca i r) h
      in if is_err hr then set_roles ca i rs (failures + 1) hr h' else set_roles ca i rs failures last_err h')"

definition set_default_render_device :: "'w core_audio \<Rightarrow> rstr \<Rightarrow> 'w host \<Rightarrow> (audio_error + unit) \<times> 'w host" where
  "set_default_render_device ca device_id h =
     (if \<not> ca_policy ca (h_world h) then (Inl NoPolicyConfig, h)
      else let (failures, last_err, h') = set_roles ca device_id ROLES 0 0 h
           in (if failures = length ROLES then Inl (SetDefaultFailed last_err) else Inr (), h'))"

record sink_redirect_guard =
  sg_saved_default :: "rstr option"
  sg_active :: bool

record 'w sink_env =
  se_audio :: "'w core_audio"
  se_files :: file_env
  se_target :: rstr

definition restore_stale_redirect :: "'w sink_env \<Rightarrow> 'w host \<Rightarrow> 'w host" where
  "restore_stale_redirect e h =
     (case read_marker (se_files e) h of
        None \<Rightarrow> h
      | Some text \<Rightarrow>
          let h1 = remove_marker (se_files e) h; orig = rtrim text
          in if orig = [] then h1 else snd (set_default_render_device (se_audio e) orig h1))"

definition redirect_to :: "'w sink_env \<Rightarrow> 'w host \<Rightarrow> (audio_error + sink_redirect_guard) \<times> 'w host" where
  "redirect_to e h =
     (let h0 = restore_stale_redirect e h in
      case default_render_device_id (se_audio e) (h_world h0) of
        Inl err \<Rightarrow> (Inl err, h0)
      | Inr saved \<Rightarrow>
          let h1 = write_marker (se_files e) (case saved of Some orig \<Rightarrow> orig | None \<Rightarrow> []) h0;
              (r, h2) = set_default_render_device (se_audio e) (se_target e) h1
          in case r of
               Inl err \<Rightarrow> (Inl err, remove_marker (se_files e) h2)
             | Inr _ \<Rightarrow> (Inr \<lparr>sg_saved_default = saved, sg_active = True\<rparr>, h2))"

definition drop_redirect :: "'w sink_env \<Rightarrow> sink_redirect_guard \<Rightarrow> 'w host \<Rightarrow> 'w host" where
  "drop_redirect e g h =
     (if sg_active g
      then remove_marker (se_files e)
             (case sg_saved_default g of Some orig \<Rightarrow> snd (set_default_render_device (se_audio e) orig h) | None \<Rightarrow> h)
      else h)"

subsection \<open>The redirection survives a crash\<close>

definition role_id :: "'w core_audio \<Rightarrow> 'w \<Rightarrow> endpoint_role \<Rightarrow> rstr option" where
  "role_id ca w r = (case ca_default ca w r of Some d \<Rightarrow> ep_id d | None \<Rightarrow> None)"

definition all_roles :: "'w core_audio \<times> rstr \<Rightarrow> 'w \<Rightarrow> bool" where
  "all_roles oi w \<longleftrightarrow> (\<forall>r. role_id (fst oi) w r = Some (snd oi))"

text \<open>
  What is relied on: a successful \<^verbatim>\<open>SetDefaultEndpoint\<close> makes the device the default for that role and no other, a failed
  one changes nothing, and the original device \<open>d\<close> stays available.
\<close>

definition core_audio_ok :: "'w core_audio \<Rightarrow> rstr \<Rightarrow> bool" where
  "core_audio_ok ca d \<longleftrightarrow>
     (\<forall>w. ca_policy ca w) \<and>
     (\<forall>i r w. role_id ca (snd (ca_set_default ca i r w)) =
        (if is_err (fst (ca_set_default ca i r w)) then role_id ca w else (role_id ca w)(r := Some i))) \<and>
     (\<forall>r w. \<not> is_err (fst (ca_set_default ca d r w)))"

definition sink_env_ok :: "'w core_audio \<times> rstr \<Rightarrow> 'w sink_env \<Rightarrow> bool" where
  "sink_env_ok oi e \<longleftrightarrow> se_audio e = fst oi \<and> core_audio_ok (fst oi) (snd oi) \<and> snd oi \<noteq> [] \<and> rtrim (snd oi) = snd oi \<and>
     files_work (se_files e)"

definition sink_arm :: "'w sink_env \<Rightarrow> 'w host \<Rightarrow> sink_redirect_guard option \<times> 'w host" where
  "sink_arm e h = (case redirect_to e h of (Inr g, h') \<Rightarrow> (Some g, h') | (Inl _, h') \<Rightarrow> (None, h'))"

lemma set_roles_frame:
  assumes "core_audio_ok ca d" "set_roles ca i rs n l h = (n', l', h')"
  shows "h_marker h' = h_marker h" "n' \<le> n + length rs"
    "n' = n + length rs \<Longrightarrow> role_id ca (h_world h') = role_id ca (h_world h)"
    "all_safe P d h \<Longrightarrow> h_marker h = Some d \<Longrightarrow> all_safe P d h'"
proof -
  have "h_marker h' = h_marker h \<and> n' \<le> n + length rs \<and>
      (n' = n + length rs \<longrightarrow> role_id ca (h_world h') = role_id ca (h_world h)) \<and>
      (all_safe P d h \<and> h_marker h = Some d \<longrightarrow> all_safe P d h')" using assms(2)
  proof (induction rs arbitrary: n l h)
    case (Cons r rs)
    obtain hr w where c: "ca_set_default ca i r (h_world h) = (hr, w)" by (cases "ca_set_default ca i r (h_world h)")
    have w: "role_id ca w = (if is_err hr then role_id ca (h_world h) else (role_id ca (h_world h))(r := Some i))"
      using assms(1) c unfolding core_audio_ok_def by (metis fst_conv snd_conv)
    let ?h = "became w (h_marker h) h"
    have step: "set_roles ca i rs (if is_err hr then n + 1 else n) (if is_err hr then hr else l) ?h = (n', l', h')"
      using Cons.prems c by (simp add: sys_call_def split: if_splits)
    from Cons.IH [OF step] w show ?case by (cases "is_err hr") auto
  qed simp
  then show "h_marker h' = h_marker h" "n' \<le> n + length rs"
    "n' = n + length rs \<Longrightarrow> role_id ca (h_world h') = role_id ca (h_world h)"
    "all_safe P d h \<Longrightarrow> h_marker h = Some d \<Longrightarrow> all_safe P d h'" by blast+
qed

lemma set_roles_original:
  assumes "core_audio_ok ca d" "set_roles ca d rs n l h = (n', l', h')"
  shows "n' = n \<and> (\<forall>r. role_id ca (h_world h') r = (if r \<in> set rs then Some d else role_id ca (h_world h) r))"
  using assms(2)
proof (induction rs arbitrary: n l h)
  case (Cons r rs)
  obtain hr w where c: "ca_set_default ca d r (h_world h) = (hr, w)" by (cases "ca_set_default ca d r (h_world h)")
  have ok: "\<not> is_err hr" using assms(1) c unfolding core_audio_ok_def by (metis fst_conv)
  have w: "role_id ca w = (role_id ca (h_world h))(r := Some d)"
    using assms(1) c ok unfolding core_audio_ok_def by (metis fst_conv snd_conv)
  have "set_roles ca d rs n l (became w (h_marker h) h) = (n', l', h')"
    using Cons.prems c ok by (simp add: sys_call_def)
  from Cons.IH [OF this] w show ?case by auto
qed simp

lemma all_roles_listed [simp]: "r \<in> set ROLES"
  by (cases r) (simp_all add: ROLES_def)

lemma set_default_original:
  assumes "core_audio_ok ca d"
  shows "all_roles (ca, d) (h_world (snd (set_default_render_device ca d h)))"
    and "h_marker (snd (set_default_render_device ca d h)) = h_marker h"
proof -
  obtain n l h' where s: "set_roles ca d ROLES 0 0 h = (n, l, h')" by (cases "set_roles ca d ROLES 0 0 h")
  have p: "ca_policy ca (h_world h)" using assms by (simp add: core_audio_ok_def)
  show "all_roles (ca, d) (h_world (snd (set_default_render_device ca d h)))"
    using set_roles_original [OF assms s] p s by (simp add: set_default_render_device_def all_roles_def)
  show "h_marker (snd (set_default_render_device ca d h)) = h_marker h"
    using set_roles_frame(1) [OF assms s] p s by (simp add: set_default_render_device_def)
qed

lemma set_default_frame:
  assumes "core_audio_ok ca d" "set_default_render_device ca i h = (r, h')"
  shows "h_marker h' = h_marker h" "r = Inl err \<Longrightarrow> role_id ca (h_world h') = role_id ca (h_world h)"
    "all_safe P d h \<Longrightarrow> h_marker h = Some d \<Longrightarrow> all_safe P d h'"
proof -
  obtain n l h1 where s: "set_roles ca i ROLES 0 0 h = (n, l, h1)" by (cases "set_roles ca i ROLES 0 0 h")
  have p: "ca_policy ca (h_world h)" using assms(1) by (simp add: core_audio_ok_def)
  have h1: "h1 = h'" "r = Inl err \<Longrightarrow> n = length ROLES" using assms(2) p s by (auto simp: set_default_render_device_def split: if_splits)
  show "h_marker h' = h_marker h" "r = Inl err \<Longrightarrow> role_id ca (h_world h') = role_id ca (h_world h)"
    "all_safe P d h \<Longrightarrow> h_marker h = Some d \<Longrightarrow> all_safe P d h'"
    using set_roles_frame [OF assms(1) s] h1 by auto
qed

lemma restore_stale_recovers:
  assumes "sink_env_ok oi e" "safe_state (all_roles oi) (snd oi) p"
  shows "all_roles oi (h_world (restore_stale_redirect e (started p))) \<and> h_marker (restore_stale_redirect e (started p)) = None"
proof -
  obtain ca d where oi: "oi = (ca, d)" by (cases oi)
  have e: "se_audio e = ca" "core_audio_ok ca d" "d \<noteq> []" "rtrim d = d" "fe_read (se_files e)" "fe_remove (se_files e)"
    using assms(1) by (auto simp: sink_env_ok_def oi files_work_def)
  have [simp]: "rtrim [] = []" by (simp add: rtrim_def)
  consider "snd p = Some d" | "snd p \<noteq> Some d" "all_roles oi (fst p)" "snd p = None \<or> snd p = Some []"
    using assms(2) by (auto simp: safe_state_def blank_marker_def oi)
  then show ?thesis
    by cases (auto simp: restore_stale_redirect_def read_marker_def remove_marker_def Let_def e oi set_default_original)
qed

lemma default_is_original:
  assumes "all_roles (ca, d) w" "default_render_device_id ca w = Inr saved"
  shows "saved = Some d"
  using assms by (auto simp: all_roles_def default_render_device_id_def role_id_def split: if_splits option.splits
      dest: spec [of _ Console])

lemma redirect_to_cases:
  assumes "sink_env_ok (ca, d) e" "all_roles (ca, d) w" "redirect_to e (started (w, None)) = (r, h)"
  shows "all_safe (all_roles (ca, d)) d h"
    and "r = Inr g \<Longrightarrow> g = \<lparr>sg_saved_default = Some d, sg_active = True\<rparr> \<and> h_marker h = Some d"
proof -
  let ?P = "all_roles (ca, d)"
  have e: "se_audio e = ca" "core_audio_ok ca d" "fe_read (se_files e)" "fe_write (se_files e)" "fe_remove (se_files e)"
    using assms(1) by (auto simp: sink_env_ok_def files_work_def)
  have stale: "restore_stale_redirect e (started (w, None)) = started (w, None)"
    by (simp add: restore_stale_redirect_def read_marker_def)
  let ?h1 = "write_marker (se_files e) d (started (w, None))"
  have h1: "all_safe ?P d ?h1" "h_marker ?h1 = Some d" "h_world ?h1 = w"
    using assms(2) e by (simp_all add: all_safe_write write_marker_def)
  obtain q h2 where s: "set_default_render_device ca (se_target e) ?h1 = (q, h2)" by (cases "set_default_render_device ca (se_target e) ?h1")
  note fr = set_default_frame [OF e(2) s]
  have "all_safe ?P d h \<and> (\<forall>g. r = Inr g \<longrightarrow> g = \<lparr>sg_saved_default = Some d, sg_active = True\<rparr> \<and> h_marker h = Some d)"
  proof (cases "default_render_device_id ca w")
    case (Inl err)
    then show ?thesis using assms(2,3) by (auto simp: redirect_to_def stale e)
  next
    case (Inr saved)
    with default_is_original [OF assms(2)] have d: "default_render_device_id ca w = Inr (Some d)" by simp
    show ?thesis
    proof (cases q)
      case (Inl err)
      then have "role_id ca (h_world h2) = role_id ca w" using fr(2) h1(3) by simp
      then have "?P (h_world h2)" using assms(2) by (simp add: all_roles_def)
      then show ?thesis using assms(3) d s Inl fr h1 by (auto simp: redirect_to_def stale e Let_def all_safe_remove)
    next
      case (Inr u)
      then show ?thesis using assms(3) d s fr h1 by (auto simp: redirect_to_def stale e Let_def)
    qed
  qed
  then show "all_safe ?P d h" "r = Inr g \<Longrightarrow> g = \<lparr>sg_saved_default = Some d, sg_active = True\<rparr> \<and> h_marker h = Some d" by auto
qed

interpretation windows_sink: redirect sink_arm drop_redirect restore_stale_redirect all_roles sink_env_ok snd
proof unfold_locales
  fix e :: "'w sink_env" and e' and oi :: "'w core_audio \<times> rstr" and w g h
  assume e: "sink_env_ok oi e" "sink_env_ok oi e'" "all_roles oi w" "sink_arm e (started (w, None)) = (Some g, h)"
  obtain ca d where oi: "oi = (ca, d)" by (cases oi)
  have e': "se_audio e' = ca" "core_audio_ok ca d" "fe_remove (se_files e')"
    using e(2) by (auto simp: sink_env_ok_def files_work_def oi)
  obtain r h0 where r: "redirect_to e (started (w, None)) = (r, h0)" by (cases "redirect_to e (started (w, None))")
  have rg: "r = Inr g" "h0 = h" using e(4) r by (auto simp: sink_arm_def split: sum.splits)
  note rc = redirect_to_cases [OF e(1) [unfolded oi] e(3) [unfolded oi] r]
  obtain q h1 where s: "set_default_render_device ca d h = (q, h1)" by (cases "set_default_render_device ca d h")
  have "all_roles (ca, d) (h_world h1)" "all_safe (all_roles (ca, d)) d h1"
    using set_default_original(1) [OF e'(2), of h] set_default_frame(3) [OF e'(2) s] rc rg s by auto
  then show "all_safe (all_roles oi) (snd oi) (drop_redirect e' g h) \<and> all_roles oi (h_world (drop_redirect e' g h)) \<and>
      h_marker (drop_redirect e' g h) = None"
    using rc(2) [OF rg(1)] s e' by (simp add: drop_redirect_def oi all_safe_remove remove_marker_def)
next
  fix e :: "'w sink_env" and oi :: "'w core_audio \<times> rstr" and w
  assume "sink_env_ok oi e" "all_roles oi w"
  then show "all_safe (all_roles oi) (snd oi) (snd (sink_arm e (started (w, None))))"
    using redirect_to_cases(1) [of "fst oi" "snd oi" e w] by (cases "redirect_to e (started (w, None))") (auto simp: sink_arm_def split: sum.splits)
next
  fix e :: "'w sink_env" and oi :: "'w core_audio \<times> rstr" and p
  assume "sink_env_ok oi e" "safe_state (all_roles oi) (snd oi) p"
  then show "all_roles oi (h_world (restore_stale_redirect e (started p))) \<and> h_marker (restore_stale_redirect e (started p)) = None"
    by (rule restore_stale_recovers)
qed

lemma set_roles_success:
  assumes "core_audio_ok ca d" "set_roles ca i rs n l h = (n', l', h')" "n' < n + length rs"
  shows "\<exists>r. role_id ca (h_world h') r = Some i"
proof -
  have keep: "role_id ca (h_world h') r = Some i" if "role_id ca (h_world h) r = Some i" "set_roles ca i rs n l h = (n', l', h')" for r n l h rs
    using that
  proof (induction rs arbitrary: n l h)
    case (Cons x rs)
    obtain hr w where c: "ca_set_default ca i x (h_world h) = (hr, w)" by (cases "ca_set_default ca i x (h_world h)")
    have "role_id ca w = (if is_err hr then role_id ca (h_world h) else (role_id ca (h_world h))(x := Some i))"
      using assms(1) c unfolding core_audio_ok_def by (metis fst_conv snd_conv)
    then have "role_id ca (h_world (became w (h_marker h) h)) r = Some i" using Cons.prems(1) by simp
    from Cons.IH [OF this] show ?case using Cons.prems(2) c by (simp add: sys_call_def split: if_splits)
  qed simp
  show ?thesis using assms(2,3)
  proof (induction rs arbitrary: n l h)
    case (Cons x rs)
    obtain hr w where c: "ca_set_default ca i x (h_world h) = (hr, w)" by (cases "ca_set_default ca i x (h_world h)")
    show ?case
    proof (cases "is_err hr")
      case True
      then show ?thesis using Cons.IH [of "n + 1" hr "became w (h_marker h) h"] Cons.prems c by (simp add: sys_call_def)
    next
      case False
      then have "role_id ca w = (role_id ca (h_world h))(x := Some i)"
        using assms(1) c unfolding core_audio_ok_def by (metis fst_conv snd_conv)
      then have "role_id ca (h_world (became w (h_marker h) h)) x = Some i" by simp
      then show ?thesis using keep [of "became w (h_marker h) h" x rs n l] Cons.prems(1) c False by (auto simp: sys_call_def)
    qed
  qed simp
qed

lemma redirect_moves_output:
  assumes "core_audio_ok (se_audio e) d" "redirect_to e h0 = (Inr g, h)"
  shows "\<exists>r. role_id (se_audio e) (h_world h) r = Some (se_target e)"
proof -
  obtain h1 where s: "set_default_render_device (se_audio e) (se_target e) h1 = (Inr (), h)"
    using assms(2) by (auto simp: redirect_to_def Let_def split: sum.splits prod.splits)
  obtain n l h2 where r: "set_roles (se_audio e) (se_target e) ROLES 0 0 h1 = (n, l, h2)"
    by (cases "set_roles (se_audio e) (se_target e) ROLES 0 0 h1")
  have "h2 = h" "n \<noteq> length ROLES" using s r by (auto simp: set_default_render_device_def split: if_splits)
  then show ?thesis using set_roles_success [OF assms(1) r] set_roles_frame(2) [OF assms(1) r] by simp
qed

subsection \<open>Properties\<close>


definition speakers :: rstr where "speakers = lit ''speakers''"
definition virtual_sink :: rstr where "virtual_sink = lit ''virtual''"

definition endpoint_of :: "rstr \<Rightarrow> endpoint" where
  "endpoint_of i = \<lparr>ep_store = True, ep_friendly = Some i, ep_adapter = None, ep_desc = None, ep_id = Some i, ep_format = None\<rparr>"

definition two_devices :: "(endpoint_role \<Rightarrow> rstr) core_audio" where
  "two_devices =
     \<lparr>ca_enumerator = \<lambda>_. True, ca_active = \<lambda>_. Inr [Some (endpoint_of speakers), Some (endpoint_of virtual_sink)],
      ca_default = \<lambda>w r. Some (endpoint_of (w r)), ca_policy = \<lambda>_. True,
      ca_set_default = \<lambda>i r w. (if i = speakers \<or> i = virtual_sink then (0, w(r := i)) else (0x80070490, w)),
      ca_set_format = \<lambda>_ _ w. (0, w)\<rparr>"

definition sink_env_demo :: "(endpoint_role \<Rightarrow> rstr) sink_env" where
  "sink_env_demo = \<lparr>se_audio = two_devices, se_files = \<lparr>fe_write = True, fe_read = True, fe_remove = True\<rparr>, se_target = virtual_sink\<rparr>"

definition sink_run_demo :: "nat option \<Rightarrow> (endpoint_role \<Rightarrow> rstr) sink_env session_run" where
  "sink_run_demo n = \<lparr>sr_boot = sink_env_demo, sr_arm = sink_env_demo, sr_end = sink_env_demo, sr_died = n\<rparr>"

lemma two_devices_role: "role_id two_devices w r = Some (w r)"
  by (simp add: role_id_def two_devices_def endpoint_of_def)

lemma two_devices_ok: "core_audio_ok two_devices speakers"
  unfolding core_audio_ok_def
proof (intro conjI allI)
  fix i r and w :: "endpoint_role \<Rightarrow> rstr"
  show "ca_policy two_devices w" by (simp add: two_devices_def)
  have z: "\<not> is_err 0" "is_err 0x80070490" by (simp_all add: is_err_def)
  show "\<not> is_err (fst (ca_set_default two_devices speakers r w))" by (simp add: two_devices_def z)
  show "role_id two_devices (snd (ca_set_default two_devices i r w)) =
      (if is_err (fst (ca_set_default two_devices i r w)) then role_id two_devices w else (role_id two_devices w)(r := Some i))"
    unfolding fun_eq_iff two_devices_role by (auto simp: two_devices_def z two_devices_role)
qed

lemma sink_env_demo_ok: "sink_env_ok (two_devices, speakers) sink_env_demo"
proof -
  have "rtrim speakers = speakers \<and> speakers \<noteq> []" by code_simp
  then show ?thesis by (simp add: sink_env_ok_def sink_env_demo_def files_work_def two_devices_ok)
qed


text \<open>
  Only the console default is saved: a communications device of its own is gone after one session.
\<close>

lemma communications_default_is_lost:
  "fst (one_run sink_arm drop_redirect restore_stale_redirect (sink_run_demo None)
     ((\<lambda>_. speakers)(Communications := virtual_sink), None)) Communications = speakers"
  by code_simp

text \<open>The marker goes with the guard even when the original device could not be set again.\<close>

lemma failed_restore_drops_marker:
  "h_marker (drop_redirect sink_env_demo \<lparr>sg_saved_default = Some (lit ''headset''), sg_active = True\<rparr>
     (started (\<lambda>_. virtual_sink, Some (lit ''headset'')))) = None \<and>
   h_world (drop_redirect sink_env_demo \<lparr>sg_saved_default = Some (lit ''headset''), sg_active = True\<rparr>
     (started (\<lambda>_. virtual_sink, Some (lit ''headset'')))) Console = virtual_sink"
  by code_simp

text \<open>
  C31: the format asked of the virtual sink is consistent for every layout and every bit depth of the old device: no product
  overflows, the valid bits fit the container, the container is whole bytes, and the speaker mask names as
  many speakers as there are channels.
\<close>

theorem wave_format_consistent:
  "let x = build_waveformatextensible (for_layout l bits) in
     unat (wx_channels x) = channels l \<and>
     unat (wx_block_align x) = channels l * (unat (wx_bits x) div 8) \<and>
     unat (wx_avg_bytes x) = SAMPLE_RATE * channels l * (unat (wx_bits x) div 8) \<and>
     wx_bits x \<in> {16, 32} \<and> wx_valid_bits x \<le> wx_bits x \<and>
     wx_valid_bits x = (if bits = 16 \<or> bits = 24 then bits else 32) \<and>
     (wx_sub x = SubIeeeFloat) = (bits \<noteq> 16 \<and> bits \<noteq> 24) \<and>
     length (filter (bit (wx_mask x)) [0..<32]) = channels l"
proof -
  have m: "length (filter (bit (channel_mask_for 2)) [0..<32]) = 2" "length (filter (bit (channel_mask_for 6)) [0..<32]) = 6"
    "length (filter (bit (channel_mask_for 8)) [0..<32]) = 8" by code_simp+
  show ?thesis
    by (cases l; simp add: Let_def build_waveformatextensible_def for_layout_def avg_bytes_per_sec_def block_align_def SAMPLE_RATE_def m)
qed

end
