(* ===== verification/Pulsar_SinkUnix.thy ===== *)
theory Pulsar_SinkUnix
  imports Pulsar_Sink
begin

text \<open>
  Staying silent while streaming on Linux and macOS (\<^verbatim>\<open>audio/sink_unix.rs\<close>): the null sink loaded through \<^verbatim>\<open>pactl\<close>, the
  output switched by \<^verbatim>\<open>SwitchAudioSource\<close>, their crash recovery, and the mute that is used where neither is available
  (\<^verbatim>\<open>audio/mute.rs\<close>). The command-line tools are arguments; \<open>pulse_ok\<close> and \<open>switch_ok\<close> say what is relied on.
\<close>

subsection \<open>Text helpers of the standard library\<close>

fun split_on :: "'a \<Rightarrow> 'a list \<Rightarrow> 'a list list" where
  "split_on c [] = [[]]"
| "split_on c (x # xs) = (if x = c then [] # split_on c xs else (case split_on c xs of p # ps \<Rightarrow> (x # p) # ps | [] \<Rightarrow> [[x]]))"

definition str_lines :: "rstr \<Rightarrow> rstr list" where
  "str_lines s =
     (let ps = split_on 10 s in
      map (\<lambda>l. if l \<noteq> [] \<and> last l = 13 then butlast l else l) (if last ps = [] then butlast ps else ps))"

definition path_join :: "rstr \<Rightarrow> rstr \<Rightarrow> rstr" where
  "path_join dir name = (if dir = [] then name else if last dir = 47 then dir @ name else dir @ [47] @ name)"

subsection \<open>Linux: the null sink\<close>

text \<open>
  \<^verbatim>\<open>px_run\<close> is a run of \<^verbatim>\<open>pactl\<close>: its standard output, or \<^verbatim>\<open>None\<close> when it could not start or failed. The other two
  fields are observed by the hypotheses only: the default sink, and the module that provides a sink.
\<close>

record 'w pulse =
  px_run :: "rstr list \<Rightarrow> 'w \<Rightarrow> rstr option \<times> 'w"
  px_default :: "'w \<Rightarrow> rstr option"
  px_module_of :: "rstr \<Rightarrow> rstr"

record 'w linux_env =
  le_pulse :: "'w pulse"
  le_files :: file_env
  le_layout :: channel_layout

definition SINK_NAME :: rstr where "SINK_NAME = lit ''pulsar_silent''"

definition linux_marker_path :: "nat \<Rightarrow> rstr option \<Rightarrow> rstr" where
  "linux_marker_path uid runtime_dir =
     (let name = lit ''pulsar-host-silent-'' @ lit (dec uid) @ lit ''.marker'' in
      case runtime_dir of Some dir \<Rightarrow> path_join dir name | None \<Rightarrow> path_join (lit ''/tmp'') name)"

definition pactl :: "'w pulse \<Rightarrow> rstr list \<Rightarrow> 'w host \<Rightarrow> rstr option \<times> 'w host" where
  "pactl px args h = (let (r, h') = sys_call (px_run px args) h in (map_option rtrim r, h'))"

definition get_default_sink :: "'w pulse \<Rightarrow> 'w host \<Rightarrow> rstr option \<times> 'w host" where
  "get_default_sink px h =
     (let (r, h') = pactl px [lit ''get-default-sink''] h
      in (case r of Some name \<Rightarrow> if name = [] then None else Some name | None \<Rightarrow> None, h'))"

definition playing_sink_inputs :: "'w pulse \<Rightarrow> 'w host \<Rightarrow> rstr list \<times> 'w host" where
  "playing_sink_inputs px h =
     (let (r, h') = pactl px [lit ''list'', lit ''short'', lit ''sink-inputs''] h
      in (case r of
            None \<Rightarrow> []
          | Some out \<Rightarrow> filter (\<lambda>s. s \<noteq> []) (map (\<lambda>l. rtrim (hd (split_on 9 l))) (str_lines out)), h'))"

definition own_module_line :: "rstr \<Rightarrow> bool" where
  "own_module_line l \<longleftrightarrow> contains_str l (lit ''module-null-sink'') \<and> contains_str l (lit ''sink_name='' @ SINK_NAME)"

fun unload_lines :: "'w pulse \<Rightarrow> rstr list \<Rightarrow> 'w host \<Rightarrow> 'w host" where
  "unload_lines px [] h = h"
| "unload_lines px (l # ls) h =
     unload_lines px ls
       (if own_module_line l then snd (pactl px [lit ''unload-module'', rtrim (hd (split_on 9 l))] h) else h)"

definition unload_stale :: "'w pulse \<Rightarrow> 'w host \<Rightarrow> 'w host" where
  "unload_stale px h =
     (let (r, h') = pactl px [lit ''list'', lit ''short'', lit ''modules''] h
      in case r of None \<Rightarrow> h' | Some out \<Rightarrow> unload_lines px (str_lines out) h')"

definition restore_stale_linux :: "'w linux_env \<Rightarrow> 'w host \<Rightarrow> 'w host" where
  "restore_stale_linux e h =
     (let h1 = unload_stale (le_pulse e) h in
      case read_marker (le_files e) h1 of
        None \<Rightarrow> h1
      | Some contents \<Rightarrow>
          let h2 = remove_marker (le_files e) h1; saved = rtrim contents
          in if saved = [] then h2 else snd (pactl (le_pulse e) [lit ''set-default-sink'', saved] h2))"

record null_sink =
  ns_module_id :: u32
  ns_prev_default :: "rstr option"

fun channel_map :: "channel_layout \<Rightarrow> rstr" where
  "channel_map Stereo = lit ''front-left,front-right''"
| "channel_map Surround51 = lit ''front-left,front-right,front-center,lfe,rear-left,rear-right''"
| "channel_map Surround71 = lit ''front-left,front-right,front-center,lfe,rear-left,rear-right,side-left,side-right''"

definition load_args :: "channel_layout \<Rightarrow> rstr list" where
  "load_args layout =
     [lit ''load-module'', lit ''module-null-sink'', lit ''sink_name='' @ SINK_NAME, lit ''rate=48000'', lit ''format=float32le'',
      lit ''channels='' @ lit (dec (channels layout)), lit ''channel_map='' @ channel_map layout,
      lit ''sink_properties=device.description=Pulsar'']"

fun move_inputs :: "'w pulse \<Rightarrow> rstr list \<Rightarrow> 'w host \<Rightarrow> 'w host" where
  "move_inputs px [] h = h"
| "move_inputs px (i # is) h = move_inputs px is (snd (pactl px [lit ''move-sink-input'', i, SINK_NAME] h))"

definition module_arg :: "u32 \<Rightarrow> rstr" where
  "module_arg i = lit (dec (unat i))"

definition NullSink_create :: "'w linux_env \<Rightarrow> 'w host \<Rightarrow> null_sink option \<times> 'w host" where
  "NullSink_create e h =
     (let px = le_pulse e;
          (prev, h1) = get_default_sink px (unload_stale px h);
          h2 = write_marker (le_files e) (case prev of Some n \<Rightarrow> n | None \<Rightarrow> []) h1;
          (loaded, h3) = pactl px (load_args (le_layout e)) h2
      in case (case loaded of Some out \<Rightarrow> parse_u32 (rtrim out) | None \<Rightarrow> None) of
           None \<Rightarrow> (None, remove_marker (le_files e) h3)
         | Some module_id \<Rightarrow>
             let (sw, h4) = pactl px [lit ''set-default-sink'', SINK_NAME] h3
             in case sw of
                  None \<Rightarrow> (None, remove_marker (le_files e) (snd (pactl px [lit ''unload-module'', module_arg module_id] h4)))
                | Some _ \<Rightarrow>
                    let (inputs, h5) = playing_sink_inputs px h4
                    in (Some \<lparr>ns_module_id = module_id, ns_prev_default = prev\<rparr>, move_inputs px inputs h5))"

definition monitor_source :: "null_sink \<Rightarrow> rstr" where
  "monitor_source _ = SINK_NAME @ lit ''.monitor''"

definition NullSink_teardown :: "'w linux_env \<Rightarrow> null_sink \<Rightarrow> 'w host \<Rightarrow> 'w host" where
  "NullSink_teardown e n h =
     (let px = le_pulse e;
          h1 = (case ns_prev_default n of Some prev \<Rightarrow> snd (pactl px [lit ''set-default-sink'', prev] h) | None \<Rightarrow> h);
          h2 = snd (pactl px [lit ''unload-module'', module_arg (ns_module_id n)] h1)
      in remove_marker (le_files e) h2)"

subsection \<open>macOS: switching the output\<close>

definition VIRTUAL_OUTPUT_CANDIDATES :: "rstr list" where
  "VIRTUAL_OUTPUT_CANDIDATES = [lit ''BlackHole'', lit ''Loopback'', lit ''Pulsar'', lit ''Soundflower'']"

definition is_virtual_output :: "(nat \<Rightarrow> nat list) \<Rightarrow> rstr \<Rightarrow> bool" where
  "is_virtual_output lower name \<longleftrightarrow>
     list_ex (\<lambda>c. contains_str (str_lowercase lower name) (str_lowercase lower c)) VIRTUAL_OUTPUT_CANDIDATES"

record 'w switcher =
  sw_run :: "rstr list \<Rightarrow> 'w \<Rightarrow> rstr option \<times> 'w"
  sw_output :: "'w \<Rightarrow> rstr option"

record 'w macos_env =
  me_switch :: "'w switcher"
  me_files :: file_env
  me_lower :: "nat \<Rightarrow> nat list"

definition switch_audio :: "'w switcher \<Rightarrow> rstr list \<Rightarrow> 'w host \<Rightarrow> rstr option \<times> 'w host" where
  "switch_audio sw args h = (let (r, h') = sys_call (sw_run sw args) h in (map_option rtrim r, h'))"

definition to_output :: "rstr \<Rightarrow> rstr list" where
  "to_output name = [lit ''-s'', name, lit ''-t'', lit ''output'']"

definition restore_stale_macos :: "'w macos_env \<Rightarrow> 'w host \<Rightarrow> 'w host" where
  "restore_stale_macos e h =
     (case read_marker (me_files e) h of
        None \<Rightarrow> h
      | Some contents \<Rightarrow>
          let h1 = remove_marker (me_files e) h; saved = rtrim contents
          in if saved = [] \<or> is_virtual_output (me_lower e) saved then h1
             else snd (switch_audio (me_switch e) (to_output saved) h1))"

record output_redirect =
  or_prev_output :: "rstr option"
  or_virtual_name :: rstr

definition list_outputs :: "'w switcher \<Rightarrow> 'w host \<Rightarrow> rstr list \<times> 'w host" where
  "list_outputs sw h =
     (let (r, h') = switch_audio sw [lit ''-a'', lit ''-t'', lit ''output''] h
      in (case r of Some out \<Rightarrow> filter (\<lambda>l. l \<noteq> []) (map rtrim (str_lines out)) | None \<Rightarrow> [], h'))"

definition current_output :: "'w switcher \<Rightarrow> 'w host \<Rightarrow> rstr option \<times> 'w host" where
  "current_output sw h =
     (let (r, h') = switch_audio sw [lit ''-c'', lit ''-t'', lit ''output''] h
      in (case r of Some s \<Rightarrow> if s = [] then None else Some s | None \<Rightarrow> None, h'))"

datatype switch_error = SwitchFailed rstr

definition OutputRedirect_create :: "'w macos_env \<Rightarrow> 'w host \<Rightarrow> (switch_error + output_redirect option) \<times> 'w host" where
  "OutputRedirect_create e h =
     (let sw = me_switch e; (outputs, h1) = list_outputs sw h in
      if outputs = [] then (Inr None, h1)
      else case find (is_virtual_output (me_lower e)) outputs of
        None \<Rightarrow> (Inr None, h1)
      | Some virtual_name \<Rightarrow>
          let (raw_prev, h2) = current_output sw h1;
              (prev, h3) =
                (case raw_prev of
                   Some name \<Rightarrow>
                     if is_virtual_output (me_lower e) name
                     then let (ls, h') = list_outputs sw h2 in (find (\<lambda>n. \<not> is_virtual_output (me_lower e) n) ls, h')
                     else (Some name, h2)
                 | None \<Rightarrow> (None, h2));
              h4 = write_marker (me_files e) (case prev of Some n \<Rightarrow> n | None \<Rightarrow> []) h3;
              (r, h5) = switch_audio sw (to_output virtual_name) h4
          in case r of
               None \<Rightarrow> (Inl (SwitchFailed virtual_name), remove_marker (me_files e) h5)
             | Some _ \<Rightarrow> (Inr (Some \<lparr>or_prev_output = prev, or_virtual_name = virtual_name\<rparr>), h5))"

definition capture_source :: "output_redirect \<Rightarrow> rstr" where
  "capture_source r = or_virtual_name r"

definition OutputRedirect_restore :: "'w macos_env \<Rightarrow> output_redirect \<Rightarrow> 'w host \<Rightarrow> 'w host" where
  "OutputRedirect_restore e r h =
     remove_marker (me_files e)
       (case or_prev_output r of Some prev \<Rightarrow> snd (switch_audio (me_switch e) (to_output prev) h) | None \<Rightarrow> h)"

subsection \<open>Arming and the guard\<close>

record 'g host_silent =
  hs_source :: rstr
  hs_guard :: "'g option"

definition arm_linux :: "'w linux_env \<Rightarrow> 'w host \<Rightarrow> (switch_error + null_sink host_silent option) \<times> 'w host" where
  "arm_linux e h =
     (case NullSink_create e h of
        (Some n, h') \<Rightarrow> (Inr (Some \<lparr>hs_source = monitor_source n, hs_guard = Some n\<rparr>), h')
      | (None, h') \<Rightarrow> (Inr None, h'))"

definition arm_macos :: "'w macos_env \<Rightarrow> 'w host \<Rightarrow> (switch_error + output_redirect host_silent option) \<times> 'w host" where
  "arm_macos e h =
     (case OutputRedirect_create e h of
        (Inl err, h') \<Rightarrow> (Inl err, h')
      | (Inr (Some r), h') \<Rightarrow> (Inr (Some \<lparr>hs_source = capture_source r, hs_guard = Some r\<rparr>), h')
      | (Inr None, h') \<Rightarrow> (Inr None, h'))"

definition arm_other :: "'w host \<Rightarrow> (switch_error + unit host_silent option) \<times> 'w host" where
  "arm_other h = (Inr None, h)"

definition drop_guard :: "('g \<Rightarrow> 'w host \<Rightarrow> 'w host) \<Rightarrow> 'g option \<Rightarrow> 'w host \<Rightarrow> 'w host" where
  "drop_guard teardown inner h = (case inner of Some g \<Rightarrow> teardown g h | None \<Rightarrow> h)"

subsection \<open>The mute fallback\<close>

datatype host_system = SysLinux | SysWindows | SysMacos | SysOther

text \<open>
  \<^verbatim>\<open>ml_run\<close> runs a command (\<^verbatim>\<open>None\<close> when it does not start, else whether it succeeded); the other two are the
  endpoint volume of Core Audio.
\<close>

record 'w mute_lib =
  ml_run :: "rstr list \<Rightarrow> 'w \<Rightarrow> bool option \<times> 'w"
  ml_volume :: "'w \<Rightarrow> bool"
  ml_set_mute :: "bool \<Rightarrow> 'w \<Rightarrow> bool \<times> 'w"

datatype mute_error = CommandFailed | CommandExited | NoEndpointVolume | SetMuteFailed | NotImplemented

definition mute_marker_path :: "host_system \<Rightarrow> nat \<Rightarrow> rstr \<Rightarrow> rstr" where
  "mute_marker_path os uid temp_dir =
     path_join temp_dir
       (if os = SysLinux then lit ''pulsar-mute-fallback-'' @ lit (dec uid) @ lit ''.active'' else lit ''pulsar-mute-fallback.active'')"

definition run_status :: "'w mute_lib \<Rightarrow> rstr list \<Rightarrow> 'w host \<Rightarrow> (mute_error + unit) \<times> 'w host" where
  "run_status ml cmd h =
     (let (r, h') = sys_call (ml_run ml cmd) h
      in (case r of None \<Rightarrow> Inl CommandFailed | Some ok \<Rightarrow> if ok then Inr () else Inl CommandExited, h'))"

definition set_default_render_muted :: "'w mute_lib \<Rightarrow> bool \<Rightarrow> 'w host \<Rightarrow> (mute_error + unit) \<times> 'w host" where
  "set_default_render_muted ml mute h =
     (if \<not> ml_volume ml (h_world h) then (Inl NoEndpointVolume, h)
      else let (ok, h') = sys_call (ml_set_mute ml mute) h in (if ok then Inr () else Inl SetMuteFailed, h'))"

definition set_host_muted :: "host_system \<Rightarrow> 'w mute_lib \<Rightarrow> bool \<Rightarrow> 'w host \<Rightarrow> (mute_error + unit) \<times> 'w host" where
  "set_host_muted os ml mute h =
     (case os of
        SysLinux \<Rightarrow> run_status ml [lit ''pactl'', lit ''set-sink-mute'', lit ''@DEFAULT_SINK@'', if mute then lit ''1'' else lit ''0''] h
      | SysWindows \<Rightarrow> set_default_render_muted ml mute h
      | SysMacos \<Rightarrow> run_status ml [lit ''osascript'', lit ''-e'', lit ''set volume output muted '' @ (if mute then lit ''true'' else lit ''false'')] h
      | SysOther \<Rightarrow> (Inl NotImplemented, h))"

definition restore_stale_mute_fallback :: "host_system \<Rightarrow> 'w mute_lib \<Rightarrow> file_env \<Rightarrow> 'w host \<Rightarrow> 'w host" where
  "restore_stale_mute_fallback os ml fe h =
     (if h_marker h = None then h else snd (set_host_muted os ml False (remove_marker fe h)))"

subsection \<open>The null sink survives a crash\<close>

text \<open>
  What is relied on: a successful \<^verbatim>\<open>set-default-sink\<close> sets the default and a failed one changes nothing, the original
  sink \<open>d\<close> stays available and is reported by \<^verbatim>\<open>get-default-sink\<close>, listing, loading and moving do not
  change the default, and neither does unloading a module that does not provide the default sink.
\<close>

definition pulse_ok :: "'w pulse \<Rightarrow> rstr \<Rightarrow> bool" where
  "pulse_ok px d \<longleftrightarrow>
     (\<forall>s w. px_default px (snd (px_run px [lit ''set-default-sink'', s] w)) =
        (if fst (px_run px [lit ''set-default-sink'', s] w) = None then px_default px w else Some s)) \<and>
     (\<forall>w. fst (px_run px [lit ''set-default-sink'', d] w) \<noteq> None) \<and>
     (\<forall>w. px_default px w = Some d \<longrightarrow> map_option rtrim (fst (px_run px [lit ''get-default-sink''] w)) = Some d) \<and>
     (\<forall>a args w. a \<in> {lit ''get-default-sink'', lit ''list'', lit ''load-module'', lit ''move-sink-input''} \<longrightarrow>
        px_default px (snd (px_run px (a # args) w)) = px_default px w) \<and>
     (\<forall>i w. px_default px w = Some d \<and> i \<noteq> px_module_of px d \<longrightarrow> px_default px (snd (px_run px [lit ''unload-module'', i] w)) = Some d) \<and>
     (\<forall>w out l. fst (px_run px [lit ''list'', lit ''short'', lit ''modules''] w) = Some out \<and> l \<in> set (str_lines (rtrim out)) \<and>
        own_module_line l \<longrightarrow> rtrim (hd (split_on 9 l)) \<noteq> px_module_of px d) \<and>
     (\<forall>w layout out i. fst (px_run px (load_args layout) w) = Some out \<and> parse_u32 (rtrim out) = Some i \<longrightarrow> module_arg i \<noteq> px_module_of px d)"

definition default_sink_is :: "'w pulse \<times> rstr \<Rightarrow> 'w \<Rightarrow> bool" where
  "default_sink_is oi w \<longleftrightarrow> px_default (fst oi) w = Some (snd oi)"

definition linux_env_ok :: "'w pulse \<times> rstr \<Rightarrow> 'w linux_env \<Rightarrow> bool" where
  "linux_env_ok oi e \<longleftrightarrow> le_pulse e = fst oi \<and> pulse_ok (fst oi) (snd oi) \<and> snd oi \<noteq> [] \<and> rtrim (snd oi) = snd oi \<and>
     files_work (le_files e)"

lemma pulse_okD:
  assumes "pulse_ok px d"
  shows "px_default px (snd (px_run px [lit ''set-default-sink'', s] w)) =
      (if fst (px_run px [lit ''set-default-sink'', s] w) = None then px_default px w else Some s)"
    and "fst (px_run px [lit ''set-default-sink'', d] w) \<noteq> None"
    and "px_default px w = Some d \<Longrightarrow> map_option rtrim (fst (px_run px [lit ''get-default-sink''] w)) = Some d"
    and "a \<in> {lit ''get-default-sink'', lit ''list'', lit ''load-module'', lit ''move-sink-input''} \<Longrightarrow>
      px_default px (snd (px_run px (a # args) w)) = px_default px w"
    and "px_default px w = Some d \<Longrightarrow> i \<noteq> px_module_of px d \<Longrightarrow> px_default px (snd (px_run px [lit ''unload-module'', i] w)) = Some d"
    and "fst (px_run px [lit ''list'', lit ''short'', lit ''modules''] w) = Some out \<Longrightarrow> l \<in> set (str_lines (rtrim out)) \<Longrightarrow>
      own_module_line l \<Longrightarrow> rtrim (hd (split_on 9 l)) \<noteq> px_module_of px d"
    and "fst (px_run px (load_args layout) w) = Some out \<Longrightarrow> parse_u32 (rtrim out) = Some j \<Longrightarrow> module_arg j \<noteq> px_module_of px d"
proof -
  note p = assms [unfolded pulse_ok_def]
  show "px_default px (snd (px_run px [lit ''set-default-sink'', s] w)) =
      (if fst (px_run px [lit ''set-default-sink'', s] w) = None then px_default px w else Some s)"
    by (rule p [THEN conjunct1, rule_format])
  show "fst (px_run px [lit ''set-default-sink'', d] w) \<noteq> None"
    by (rule p [THEN conjunct2, THEN conjunct1, rule_format])
  show "px_default px w = Some d \<Longrightarrow> map_option rtrim (fst (px_run px [lit ''get-default-sink''] w)) = Some d"
    by (rule p [THEN conjunct2, THEN conjunct2, THEN conjunct1, rule_format]) (simp_all only: simp_thms)
  show "a \<in> {lit ''get-default-sink'', lit ''list'', lit ''load-module'', lit ''move-sink-input''} \<Longrightarrow>
      px_default px (snd (px_run px (a # args) w)) = px_default px w"
    by (rule p [THEN conjunct2, THEN conjunct2, THEN conjunct2, THEN conjunct1, rule_format]) (simp_all only: simp_thms)
  show "px_default px w = Some d \<Longrightarrow> i \<noteq> px_module_of px d \<Longrightarrow> px_default px (snd (px_run px [lit ''unload-module'', i] w)) = Some d"
    by (rule p [THEN conjunct2, THEN conjunct2, THEN conjunct2, THEN conjunct2, THEN conjunct1, rule_format]) (simp_all only: simp_thms)
  show "fst (px_run px [lit ''list'', lit ''short'', lit ''modules''] w) = Some out \<Longrightarrow> l \<in> set (str_lines (rtrim out)) \<Longrightarrow>
      own_module_line l \<Longrightarrow> rtrim (hd (split_on 9 l)) \<noteq> px_module_of px d"
    by (rule p [THEN conjunct2, THEN conjunct2, THEN conjunct2, THEN conjunct2, THEN conjunct2, THEN conjunct1, rule_format]) (simp_all only: simp_thms)
  show "fst (px_run px (load_args layout) w) = Some out \<Longrightarrow> parse_u32 (rtrim out) = Some j \<Longrightarrow> module_arg j \<noteq> px_module_of px d"
    by (rule p [THEN conjunct2, THEN conjunct2, THEN conjunct2, THEN conjunct2, THEN conjunct2, THEN conjunct2, rule_format]) (simp_all only: simp_thms)
qed

lemma pactl_eq:
  "pactl px args h = (map_option rtrim (fst (px_run px args (h_world h))), became (snd (px_run px args (h_world h))) (h_marker h) h)"
  by (simp add: pactl_def sys_call_def split_beta)

lemma pactl_query:
  assumes "pulse_ok px d" "a \<in> {lit ''get-default-sink'', lit ''list'', lit ''load-module'', lit ''move-sink-input''}"
  shows "keeps_output (default_sink_is (px, d)) d h (snd (pactl px (a # args) h))"
    and "px_default px (h_world (snd (pactl px (a # args) h))) = px_default px (h_world h)"
proof -
  have e: "px_default px (snd (px_run px (a # args) w)) = px_default px w" for w by (rule pulse_okD(4) [OF assms])
  show "keeps_output (default_sink_is (px, d)) d h (snd (pactl px (a # args) h))"
    unfolding pactl_eq snd_conv by (rule keeps_became) (simp add: default_sink_is_def e)
  show "px_default px (h_world (snd (pactl px (a # args) h))) = px_default px (h_world h)" by (simp add: pactl_eq e)
qed

lemma pactl_unload:
  assumes "pulse_ok px d" "i \<noteq> px_module_of px d"
  shows "keeps_output (default_sink_is (px, d)) d h (snd (pactl px [lit ''unload-module'', i] h))"
  unfolding pactl_eq snd_conv by (rule keeps_became) (simp add: default_sink_is_def pulse_okD(5) [OF assms(1) _ assms(2)])

lemma pactl_original:
  assumes "pulse_ok px d"
  shows "default_sink_is (px, d) (h_world (snd (pactl px [lit ''set-default-sink'', d] h)))"
    and "keeps_output (default_sink_is (px, d)) d h (snd (pactl px [lit ''set-default-sink'', d] h))"
proof -
  have e: "px_default px (snd (px_run px [lit ''set-default-sink'', d] w)) = Some d" for w
    using pulse_okD(1) [OF assms, of d w] pulse_okD(2) [OF assms, of w] by (simp only: if_False)
  show "default_sink_is (px, d) (h_world (snd (pactl px [lit ''set-default-sink'', d] h)))"
    by (simp add: pactl_eq default_sink_is_def e)
  show "keeps_output (default_sink_is (px, d)) d h (snd (pactl px [lit ''set-default-sink'', d] h))"
    unfolding pactl_eq snd_conv by (rule keeps_became) (simp add: default_sink_is_def e)
qed

lemma unload_lines_keeps:
  assumes "pulse_ok px d" "\<forall>l \<in> set ls. own_module_line l \<longrightarrow> rtrim (hd (split_on 9 l)) \<noteq> px_module_of px d"
  shows "keeps_output (default_sink_is (px, d)) d h (unload_lines px ls h)"
  using assms(2) by (induction ls arbitrary: h) (auto intro: keeps_trans pactl_unload [OF assms(1)])

lemma unload_stale_keeps:
  assumes "pulse_ok px d"
  shows "keeps_output (default_sink_is (px, d)) d h (unload_stale px h)"
proof -
  let ?q = "[lit ''list'', lit ''short'', lit ''modules'']"
  have q: "keeps_output (default_sink_is (px, d)) d h (snd (pactl px ?q h))" by (rule pactl_query [OF assms]) simp
  show ?thesis
  proof (cases "fst (px_run px ?q (h_world h))")
    case None
    then show ?thesis using q by (simp add: unload_stale_def pactl_eq)
  next
    case (Some out)
    have "keeps_output (default_sink_is (px, d)) d h1 (unload_lines px (str_lines (rtrim out)) h1)" for h1
      using pulse_okD(6) [OF assms Some] by (intro unload_lines_keeps [OF assms]) blast
    from keeps_trans [OF q this] show ?thesis using Some by (simp add: unload_stale_def pactl_eq)
  qed
qed

lemma move_inputs_keeps:
  "pulse_ok px d \<Longrightarrow> keeps_output (default_sink_is (px, d)) d h (move_inputs px is h)"
  by (induction "is" arbitrary: h) (auto intro: keeps_trans pactl_query)

lemma move_inputs_default:
  "pulse_ok px d \<Longrightarrow> px_default px (h_world (move_inputs px is h)) = px_default px (h_world h)"
  by (induction "is" arbitrary: h) (simp_all add: pactl_query)

lemma NullSink_create_cases:
  assumes "linux_env_ok (px, d) e" "default_sink_is (px, d) w" "NullSink_create e (started (w, None)) = (r, h)"
  shows "all_safe (default_sink_is (px, d)) d h"
    and "r = Some n \<Longrightarrow> ns_prev_default n = Some d \<and> module_arg (ns_module_id n) \<noteq> px_module_of px d \<and> h_marker h = Some d \<and>
      px_default px (h_world h) = Some SINK_NAME"
proof -
  let ?P = "default_sink_is (px, d)"
  have e: "le_pulse e = px" "pulse_ok px d" "d \<noteq> []" "fe_write (le_files e)" "fe_remove (le_files e)"
    using assms(1) by (auto simp: linux_env_ok_def files_work_def)
  let ?h0 = "unload_stale px (started (w, None))"
  have h0: "h_marker ?h0 = None" "?P (h_world ?h0)" "all_safe ?P d ?h0"
    using unload_stale_keeps [OF e(2), of "started (w, None)"] assms(2) by (simp_all add: keeps_output_def)
  obtain prev h1 where g: "get_default_sink px ?h0 = (prev, h1)" by (cases "get_default_sink px ?h0")
  have prev: "prev = Some d" using g h0(2) pulse_okD(3) [OF e(2), of "h_world ?h0"] e(3)
    by (auto simp: get_default_sink_def pactl_eq default_sink_is_def split: option.splits if_splits)
  have "h1 = snd (pactl px [lit ''get-default-sink''] ?h0)" using g by (simp add: get_default_sink_def split_beta)
  then have h1: "h_marker h1 = None" "?P (h_world h1)" "all_safe ?P d h1"
    using pactl_query(1) [OF e(2), of "lit ''get-default-sink''" ?h0 "[]"] h0 by (simp_all add: keeps_output_def)
  let ?h2 = "write_marker (le_files e) d h1"
  have h2: "h_marker ?h2 = Some d" "?P (h_world ?h2)" "all_safe ?P d ?h2"
    using h1 e by (simp_all add: all_safe_write) (simp_all add: write_marker_def)
  obtain loaded h3 where l: "pactl px (load_args (le_layout e)) ?h2 = (loaded, h3)" by (cases "pactl px (load_args (le_layout e)) ?h2")
  have "keeps_output ?P d ?h2 h3"
    using pactl_query(1) [OF e(2), of "lit ''load-module''" ?h2 "tl (load_args (le_layout e))"] l by (simp add: load_args_def)
  then have h3: "h_marker h3 = Some d" "?P (h_world h3)" "all_safe ?P d h3" using h2 by (simp_all add: keeps_output_def)
  let ?id = "case loaded of Some out \<Rightarrow> parse_u32 (rtrim out) | None \<Rightarrow> None"
  note unfolds = NullSink_create_def Let_def e(1) g prev l
  have "all_safe ?P d h \<and> (\<forall>n. r = Some n \<longrightarrow> ns_prev_default n = Some d \<and> module_arg (ns_module_id n) \<noteq> px_module_of px d \<and>
      h_marker h = Some d \<and> px_default px (h_world h) = Some SINK_NAME)"
  proof (cases ?id)
    case None
    then show ?thesis using assms(3) h3 by (auto simp: unfolds all_safe_remove)
  next
    case (Some i)
    then have i: "module_arg i \<noteq> px_module_of px d"
      using l pulse_okD(7) [OF e(2)] by (auto simp: pactl_eq split: option.splits)
    let ?s = "[lit ''set-default-sink'', SINK_NAME]"
    obtain sw h4 where s: "pactl px ?s h3 = (sw, h4)" by (cases "pactl px ?s h3")
    have h4: "h_marker h4 = Some d" "all_safe ?P d h4" using s h3 by (auto simp: pactl_eq)
    have dflt: "px_default px (h_world h4) = (if sw = None then px_default px (h_world h3) else Some SINK_NAME)"
      using s pulse_okD(1) [OF e(2), of SINK_NAME "h_world h3"] by (auto simp: pactl_eq)
    show ?thesis
    proof (cases sw)
      case None
      let ?h5 = "snd (pactl px [lit ''unload-module'', module_arg i] h4)"
      have "?P (h_world h4)" using dflt None h3(2) by (simp add: default_sink_is_def)
      then have "?P (h_world ?h5)" "all_safe ?P d ?h5"
        using pactl_unload [OF e(2) i, of h4] h4 by (simp_all add: keeps_output_def)
      then show ?thesis using assms(3) Some None s by (auto simp: unfolds all_safe_remove)
    next
      case (Some x)
      obtain inputs h5 where pl: "playing_sink_inputs px h4 = (inputs, h5)" by (cases "playing_sink_inputs px h4")
      have h5: "h5 = snd (pactl px [lit ''list'', lit ''short'', lit ''sink-inputs''] h4)" using pl by (simp add: playing_sink_inputs_def split_beta)
      have "keeps_output ?P d h4 h5" unfolding h5 by (rule pactl_query [OF e(2)]) simp
      then have "keeps_output ?P d h4 (move_inputs px inputs h5)" by (rule keeps_trans) (rule move_inputs_keeps [OF e(2)])
      moreover have "px_default px (h_world (move_inputs px inputs h5)) = Some SINK_NAME"
        using move_inputs_default [OF e(2)] pactl_query(2) [OF e(2), of "lit ''list''" "[lit ''short'', lit ''sink-inputs'']" h4] dflt Some h5 by simp
      ultimately show ?thesis using assms(3) \<open>?id = Some i\<close> Some s pl h4 i by (auto simp: unfolds keeps_output_def)
    qed
  qed
  then show "all_safe ?P d h" "r = Some n \<Longrightarrow> ns_prev_default n = Some d \<and> module_arg (ns_module_id n) \<noteq> px_module_of px d \<and>
      h_marker h = Some d \<and> px_default px (h_world h) = Some SINK_NAME" by auto
qed

lemma restore_stale_linux_recovers:
  assumes "linux_env_ok oi e" "safe_state (default_sink_is oi) (snd oi) p"
  shows "default_sink_is oi (h_world (restore_stale_linux e (started p))) \<and> h_marker (restore_stale_linux e (started p)) = None"
proof -
  obtain px d where oi: "oi = (px, d)" by (cases oi)
  have e: "le_pulse e = px" "pulse_ok px d" "d \<noteq> []" "rtrim d = d" "fe_read (le_files e)" "fe_remove (le_files e)"
    using assms(1) by (auto simp: linux_env_ok_def files_work_def oi)
  have [simp]: "rtrim [] = []" by (simp add: rtrim_def)
  let ?h = "unload_stale px (started p)"
  have k: "h_marker ?h = snd p" "default_sink_is oi (fst p) \<Longrightarrow> default_sink_is oi (h_world ?h)"
    using unload_stale_keeps [OF e(2), of "started p"] by (simp_all add: keeps_output_def oi)
  consider "snd p = Some d" | "snd p \<noteq> Some d" "default_sink_is oi (fst p)" "snd p = None \<or> snd p = Some []"
    using assms(2) by (auto simp: safe_state_def blank_marker_def oi)
  then show ?thesis
  proof cases
    case 1
    have "h_marker (snd (pactl px a h)) = h_marker h" for a and h :: "'a host" by (simp add: pactl_eq)
    then show ?thesis using 1 k(1) pactl_original(1) [OF e(2)]
      by (simp add: restore_stale_linux_def read_marker_def remove_marker_def Let_def e oi)
  next
    case 2
    then show ?thesis using k by (auto simp: restore_stale_linux_def read_marker_def remove_marker_def Let_def e oi)
  qed
qed

interpretation linux_sink: redirect NullSink_create NullSink_teardown restore_stale_linux default_sink_is linux_env_ok snd
proof unfold_locales
  fix e e' :: "'w linux_env" and oi :: "'w pulse \<times> rstr" and w n h
  assume a: "linux_env_ok oi e" "linux_env_ok oi e'" "default_sink_is oi w" "NullSink_create e (started (w, None)) = (Some n, h)"
  obtain px d where oi: "oi = (px, d)" by (cases oi)
  have e': "le_pulse e' = px" "pulse_ok px d" "fe_remove (le_files e')"
    using a(2) by (auto simp: linux_env_ok_def files_work_def oi)
  note c = NullSink_create_cases [OF a(1) [unfolded oi] a(3) [unfolded oi] a(4)]
  have n: "ns_prev_default n = Some d" "module_arg (ns_module_id n) \<noteq> px_module_of px d" "h_marker h = Some d" using c(2) by simp_all
  let ?h1 = "snd (pactl px [lit ''set-default-sink'', d] h)"
  let ?h2 = "snd (pactl px [lit ''unload-module'', module_arg (ns_module_id n)] ?h1)"
  have "default_sink_is oi (h_world ?h2)" "all_safe (default_sink_is oi) d ?h2"
    using pactl_original [OF e'(2), of h] pactl_unload [OF e'(2) n(2), of ?h1] c(1) by (simp_all add: keeps_output_def oi)
  then show "all_safe (default_sink_is oi) (snd oi) (NullSink_teardown e' n h) \<and>
      default_sink_is oi (h_world (NullSink_teardown e' n h)) \<and> h_marker (NullSink_teardown e' n h) = None"
    using e' n by (simp add: NullSink_teardown_def Let_def oi all_safe_remove remove_marker_def)
next
  fix e :: "'w linux_env" and oi :: "'w pulse \<times> rstr" and w
  assume "linux_env_ok oi e" "default_sink_is oi w"
  then show "all_safe (default_sink_is oi) (snd oi) (snd (NullSink_create e (started (w, None))))"
    using NullSink_create_cases(1) [of "fst oi" "snd oi" e w] by (cases "NullSink_create e (started (w, None))") auto
next
  fix e :: "'w linux_env" and oi :: "'w pulse \<times> rstr" and p
  assume "linux_env_ok oi e" "safe_state (default_sink_is oi) (snd oi) p"
  then show "default_sink_is oi (h_world (restore_stale_linux e (started p))) \<and> h_marker (restore_stale_linux e (started p)) = None"
    by (rule restore_stale_linux_recovers)
qed

subsection \<open>The switched output survives a crash\<close>

text \<open>The same of \<^verbatim>\<open>SwitchAudioSource\<close>; the original output is not one of the virtual devices.\<close>

definition switch_ok :: "'w switcher \<Rightarrow> rstr \<Rightarrow> bool" where
  "switch_ok sw d \<longleftrightarrow>
     (\<forall>name w. sw_output sw (snd (sw_run sw (to_output name) w)) =
        (if fst (sw_run sw (to_output name) w) = None then sw_output sw w else Some name)) \<and>
     (\<forall>w. fst (sw_run sw (to_output d) w) \<noteq> None) \<and>
     (\<forall>w. sw_output sw w = Some d \<longrightarrow> map_option rtrim (fst (sw_run sw [lit ''-c'', lit ''-t'', lit ''output''] w)) = Some d) \<and>
     (\<forall>a w. a \<in> {lit ''-a'', lit ''-c''} \<longrightarrow> sw_output sw (snd (sw_run sw [a, lit ''-t'', lit ''output''] w)) = sw_output sw w)"

definition output_is :: "'w switcher \<times> rstr \<Rightarrow> 'w \<Rightarrow> bool" where
  "output_is oi w \<longleftrightarrow> sw_output (fst oi) w = Some (snd oi)"

definition macos_env_ok :: "'w switcher \<times> rstr \<Rightarrow> 'w macos_env \<Rightarrow> bool" where
  "macos_env_ok oi e \<longleftrightarrow> me_switch e = fst oi \<and> switch_ok (fst oi) (snd oi) \<and> snd oi \<noteq> [] \<and> rtrim (snd oi) = snd oi \<and>
     \<not> is_virtual_output (me_lower e) (snd oi) \<and> files_work (me_files e)"

definition macos_arm :: "'w macos_env \<Rightarrow> 'w host \<Rightarrow> output_redirect option \<times> 'w host" where
  "macos_arm e h = (case OutputRedirect_create e h of (Inr r, h') \<Rightarrow> (r, h') | (Inl _, h') \<Rightarrow> (None, h'))"

lemma switch_okD:
  assumes "switch_ok sw d"
  shows "sw_output sw (snd (sw_run sw (to_output name) w)) =
      (if fst (sw_run sw (to_output name) w) = None then sw_output sw w else Some name)"
    and "fst (sw_run sw (to_output d) w) \<noteq> None"
    and "sw_output sw w = Some d \<Longrightarrow> map_option rtrim (fst (sw_run sw [lit ''-c'', lit ''-t'', lit ''output''] w)) = Some d"
    and "a \<in> {lit ''-a'', lit ''-c''} \<Longrightarrow> sw_output sw (snd (sw_run sw [a, lit ''-t'', lit ''output''] w)) = sw_output sw w"
proof -
  note p = assms [unfolded switch_ok_def]
  show "sw_output sw (snd (sw_run sw (to_output name) w)) =
      (if fst (sw_run sw (to_output name) w) = None then sw_output sw w else Some name)" by (rule p [THEN conjunct1, rule_format])
  show "fst (sw_run sw (to_output d) w) \<noteq> None" by (rule p [THEN conjunct2, THEN conjunct1, rule_format])
  show "sw_output sw w = Some d \<Longrightarrow> map_option rtrim (fst (sw_run sw [lit ''-c'', lit ''-t'', lit ''output''] w)) = Some d"
    by (rule p [THEN conjunct2, THEN conjunct2, THEN conjunct1, rule_format])
  show "a \<in> {lit ''-a'', lit ''-c''} \<Longrightarrow> sw_output sw (snd (sw_run sw [a, lit ''-t'', lit ''output''] w)) = sw_output sw w"
    by (rule p [THEN conjunct2, THEN conjunct2, THEN conjunct2, rule_format])
qed

lemma switch_audio_eq:
  "switch_audio sw args h = (map_option rtrim (fst (sw_run sw args (h_world h))), became (snd (sw_run sw args (h_world h))) (h_marker h) h)"
  by (simp add: switch_audio_def sys_call_def split_beta)

lemma switch_query:
  assumes "switch_ok sw d" "a \<in> {lit ''-a'', lit ''-c''}"
  shows "keeps_output (output_is (sw, d)) d h (snd (switch_audio sw [a, lit ''-t'', lit ''output''] h))"
  unfolding switch_audio_eq snd_conv by (rule keeps_became) (simp add: output_is_def switch_okD(4) [OF assms])

lemma list_outputs_keeps:
  "switch_ok sw d \<Longrightarrow> list_outputs sw h = (ls, h') \<Longrightarrow> keeps_output (output_is (sw, d)) d h h'"
  using switch_query [of sw d "lit ''-a''" h] by (auto simp: list_outputs_def split_beta)

lemma current_output_keeps:
  "switch_ok sw d \<Longrightarrow> current_output sw h = (r, h') \<Longrightarrow> keeps_output (output_is (sw, d)) d h h'"
  using switch_query [of sw d "lit ''-c''" h] by (auto simp: current_output_def split_beta)

lemma current_output_original:
  assumes "switch_ok sw d" "output_is (sw, d) (h_world h)" "current_output sw h = (r, h')" "d \<noteq> []"
  shows "r = Some d"
  using switch_okD(3) [OF assms(1), of "h_world h"] assms(2-4)
  by (auto simp: current_output_def switch_audio_eq output_is_def split: option.splits if_splits)

lemma switch_original:
  assumes "switch_ok sw d"
  shows "output_is (sw, d) (h_world (snd (switch_audio sw (to_output d) h)))"
    and "keeps_output (output_is (sw, d)) d h (snd (switch_audio sw (to_output d) h))"
proof -
  have e: "sw_output sw (snd (sw_run sw (to_output d) w)) = Some d" for w
    using switch_okD(1) [OF assms, of d w] switch_okD(2) [OF assms, of w] by (simp only: if_False)
  show "output_is (sw, d) (h_world (snd (switch_audio sw (to_output d) h)))"
    by (simp add: switch_audio_eq output_is_def e)
  show "keeps_output (output_is (sw, d)) d h (snd (switch_audio sw (to_output d) h))"
    unfolding switch_audio_eq snd_conv by (rule keeps_became) (simp add: output_is_def e)
qed

lemma OutputRedirect_create_cases:
  assumes "macos_env_ok (sw, d) e" "output_is (sw, d) w" "macos_arm e (started (w, None)) = (r, h)"
  shows "all_safe (output_is (sw, d)) d h"
    and "r = Some q \<Longrightarrow> or_prev_output q = Some d \<and> h_marker h = Some d \<and> is_virtual_output (me_lower e) (or_virtual_name q) \<and>
      sw_output sw (h_world h) = Some (or_virtual_name q)"
proof -
  let ?P = "output_is (sw, d)"
  have e: "me_switch e = sw" "switch_ok sw d" "d \<noteq> []" "\<not> is_virtual_output (me_lower e) d" "fe_write (me_files e)" "fe_remove (me_files e)"
    using assms(1) by (auto simp: macos_env_ok_def files_work_def)
  let ?h0 = "started (w, None)"
  obtain outs h1 where l: "list_outputs sw ?h0 = (outs, h1)" by (cases "list_outputs sw ?h0")
  have h1: "h_marker h1 = None" "?P (h_world h1)" "all_safe ?P d h1"
    using list_outputs_keeps [OF e(2) l] assms(2) by (simp_all add: keeps_output_def)
  show "all_safe ?P d h" and "r = Some q \<Longrightarrow> or_prev_output q = Some d \<and> h_marker h = Some d \<and>
      is_virtual_output (me_lower e) (or_virtual_name q) \<and> sw_output sw (h_world h) = Some (or_virtual_name q)"
  proof -
    have "all_safe ?P d h \<and> (\<forall>q. r = Some q \<longrightarrow> or_prev_output q = Some d \<and> h_marker h = Some d \<and>
        is_virtual_output (me_lower e) (or_virtual_name q) \<and> sw_output sw (h_world h) = Some (or_virtual_name q))"
    proof (cases "find (is_virtual_output (me_lower e)) outs")
      case None
      then have "macos_arm e ?h0 = (None, h1)" by (simp add: macos_arm_def OutputRedirect_create_def Let_def e(1) l)
      then show ?thesis using assms(3) h1 by auto
    next
      case (Some v)
      then have v: "outs \<noteq> []" "find (is_virtual_output (me_lower e)) outs = Some v" by auto
      then have virt: "is_virtual_output (me_lower e) v" by (auto simp: find_Some_iff)
      obtain c h2 where c: "current_output sw h1 = (c, h2)" by (cases "current_output sw h1")
      have cd: "c = Some d" by (rule current_output_original [OF e(2) h1(2) c e(3)])
      have h2: "h_marker h2 = None" "?P (h_world h2)" "all_safe ?P d h2"
        using current_output_keeps [OF e(2) c] h1 by (simp_all add: keeps_output_def)
      let ?h4 = "write_marker (me_files e) d h2"
      have h4: "h_marker ?h4 = Some d" "?P (h_world ?h4)" "all_safe ?P d ?h4"
        using h2 e by (simp_all add: all_safe_write) (simp_all add: write_marker_def)
      obtain x h5 where s: "switch_audio sw (to_output v) ?h4 = (x, h5)" by (cases "switch_audio sw (to_output v) ?h4")
      have h5: "h_marker h5 = Some d" "all_safe ?P d h5" using s h4 by (auto simp: switch_audio_eq)
      have out: "sw_output sw (h_world h5) = (if x = None then sw_output sw (h_world ?h4) else Some v)"
        using s switch_okD(1) [OF e(2), of v "h_world ?h4"] by (auto simp: switch_audio_eq)
      have eq: "macos_arm e ?h0 = (case x of None \<Rightarrow> (None, remove_marker (me_files e) h5)
          | Some _ \<Rightarrow> (Some \<lparr>or_prev_output = Some d, or_virtual_name = v\<rparr>, h5))"
        using v by (simp add: macos_arm_def OutputRedirect_create_def Let_def e l c cd s split: option.split)
      show ?thesis
      proof (cases x)
        case None
        then have "?P (h_world h5)" using out h4(2) by (simp add: output_is_def)
        then show ?thesis using assms(3) eq None h5 by (auto simp: all_safe_remove)
      next
        case (Some y)
        then show ?thesis using assms(3) eq h5 out virt by auto
      qed
    qed
    then show "all_safe ?P d h" and "r = Some q \<Longrightarrow> or_prev_output q = Some d \<and> h_marker h = Some d \<and>
      is_virtual_output (me_lower e) (or_virtual_name q) \<and> sw_output sw (h_world h) = Some (or_virtual_name q)" by auto
  qed
qed

lemma restore_stale_macos_recovers:
  assumes "macos_env_ok oi e" "safe_state (output_is oi) (snd oi) p"
  shows "output_is oi (h_world (restore_stale_macos e (started p))) \<and> h_marker (restore_stale_macos e (started p)) = None"
proof -
  obtain sw d where oi: "oi = (sw, d)" by (cases oi)
  have e: "me_switch e = sw" "switch_ok sw d" "d \<noteq> []" "rtrim d = d" "\<not> is_virtual_output (me_lower e) d"
    "fe_read (me_files e)" "fe_remove (me_files e)"
    using assms(1) by (auto simp: macos_env_ok_def files_work_def oi)
  have [simp]: "rtrim [] = []" by (simp add: rtrim_def)
  have m: "h_marker (snd (switch_audio sw a h)) = h_marker h" for a and h :: "'a host" by (simp add: switch_audio_eq)
  consider "snd p = Some d" | "snd p \<noteq> Some d" "output_is oi (fst p)" "snd p = None \<or> snd p = Some []"
    using assms(2) by (auto simp: safe_state_def blank_marker_def oi)
  then show ?thesis
    by cases (auto simp: restore_stale_macos_def read_marker_def remove_marker_def Let_def e oi m switch_original(1))
qed

interpretation macos_output: redirect macos_arm OutputRedirect_restore restore_stale_macos output_is macos_env_ok snd
proof unfold_locales
  fix e e' :: "'w macos_env" and oi :: "'w switcher \<times> rstr" and w q h
  assume a: "macos_env_ok oi e" "macos_env_ok oi e'" "output_is oi w" "macos_arm e (started (w, None)) = (Some q, h)"
  obtain sw d where oi: "oi = (sw, d)" by (cases oi)
  have e': "me_switch e' = sw" "switch_ok sw d" "fe_remove (me_files e')"
    using a(2) by (auto simp: macos_env_ok_def files_work_def oi)
  note c = OutputRedirect_create_cases [OF a(1) [unfolded oi] a(3) [unfolded oi] a(4)]
  have "output_is oi (h_world (snd (switch_audio sw (to_output d) h)))" "all_safe (output_is oi) d (snd (switch_audio sw (to_output d) h))"
    using switch_original [OF e'(2), of h] c(1) by (simp_all add: keeps_output_def oi)
  then show "all_safe (output_is oi) (snd oi) (OutputRedirect_restore e' q h) \<and>
      output_is oi (h_world (OutputRedirect_restore e' q h)) \<and> h_marker (OutputRedirect_restore e' q h) = None"
    using e' c(2) by (simp add: OutputRedirect_restore_def oi all_safe_remove remove_marker_def)
next
  fix e :: "'w macos_env" and oi :: "'w switcher \<times> rstr" and w
  assume "macos_env_ok oi e" "output_is oi w"
  then show "all_safe (output_is oi) (snd oi) (snd (macos_arm e (started (w, None))))"
    using OutputRedirect_create_cases(1) [of "fst oi" "snd oi" e w] by (cases "macos_arm e (started (w, None))") auto
next
  fix e :: "'w macos_env" and oi :: "'w switcher \<times> rstr" and p
  assume "macos_env_ok oi e" "safe_state (output_is oi) (snd oi) p"
  then show "output_is oi (h_world (restore_stale_macos e (started p))) \<and> h_marker (restore_stale_macos e (started p)) = None"
    by (rule restore_stale_macos_recovers)
qed

subsection \<open>Properties\<close>



text \<open>A sound server with one card, and a switcher with two devices.\<close>

definition sound_card :: rstr where "sound_card = lit ''alsa_output.analog-stereo''"

definition pulse_demo :: "(rstr \<times> bool) pulse" where
  "pulse_demo =
     \<lparr>px_run = \<lambda>args w.
        (if args = [lit ''get-default-sink''] then (Some (fst w @ [10]), w)
         else if args = [lit ''list'', lit ''short'', lit ''modules'']
         then (Some (if snd w then lit ''7'' @ [9] @ lit ''module-null-sink'' @ [9] @ lit ''sink_name=pulsar_silent rate=48000'' else []), w)
         else if hd args = lit ''load-module'' then (Some (lit ''7''), (fst w, True))
         else if hd args = lit ''set-default-sink'' \<and> tl args \<noteq> []
         then (if hd (tl args) = sound_card \<or> hd (tl args) = SINK_NAME \<and> snd w then (Some [], (hd (tl args), snd w)) else (None, w))
         else if args = [lit ''unload-module'', lit ''7''] then (Some [], (sound_card, False))
         else (Some [], w)),
      px_default = \<lambda>w. Some (fst w), px_module_of = \<lambda>_. lit ''3''\<rparr>"

lemma command_names:
  "lit ''set-default-sink'' \<notin> {lit ''get-default-sink'', lit ''list'', lit ''load-module'', lit ''move-sink-input'', lit ''unload-module''}"
  "lit ''unload-module'' \<notin> {lit ''get-default-sink'', lit ''list'', lit ''load-module'', lit ''move-sink-input'', lit ''set-default-sink''}"
  "lit ''load-module'' \<notin> {lit ''get-default-sink'', lit ''list'', lit ''move-sink-input'', lit ''unload-module'', lit ''set-default-sink''}"
  "lit ''get-default-sink'' \<notin> {lit ''list'', lit ''move-sink-input''}" "lit ''list'' \<noteq> lit ''move-sink-input''"
  by code_simp+

lemma pulse_demo_ok: "pulse_ok pulse_demo sound_card"
proof -
  have trim: "rtrim (sound_card @ [10]) = sound_card" by code_simp
  have id7: "parse_u32 (rtrim (lit ''7'')) = Some 7" "module_arg 7 \<noteq> lit ''3''" by code_simp+
  have lines: "str_lines (rtrim []) = []"
    "str_lines (rtrim (lit ''7'' @ [9] @ lit ''module-null-sink'' @ [9] @ lit ''sink_name=pulsar_silent rate=48000'')) =
       [lit ''7'' @ [9] @ lit ''module-null-sink'' @ [9] @ lit ''sink_name=pulsar_silent rate=48000'']"
    "rtrim (hd (split_on 9 (lit ''7'' @ [9] @ lit ''module-null-sink'' @ [9] @ lit ''sink_name=pulsar_silent rate=48000''))) \<noteq> lit ''3''"
    by code_simp+
  show ?thesis
    unfolding pulse_ok_def
  proof (intro conjI allI impI)
    fix s and w :: "rstr \<times> bool"
    show "px_default pulse_demo (snd (px_run pulse_demo [lit ''set-default-sink'', s] w)) =
        (if fst (px_run pulse_demo [lit ''set-default-sink'', s] w) = None then px_default pulse_demo w else Some s)"
      using command_names by (simp add: pulse_demo_def)
    show "fst (px_run pulse_demo [lit ''set-default-sink'', sound_card] w) \<noteq> None"
      using command_names by (simp add: pulse_demo_def)
    show "map_option rtrim (fst (px_run pulse_demo [lit ''get-default-sink''] w)) = Some sound_card"
      if "px_default pulse_demo w = Some sound_card" using that trim by (simp add: pulse_demo_def)
  next
    fix a args and w :: "rstr \<times> bool"
    assume "a \<in> {lit ''get-default-sink'', lit ''list'', lit ''load-module'', lit ''move-sink-input''}"
    then show "px_default pulse_demo (snd (px_run pulse_demo (a # args) w)) = px_default pulse_demo w"
      using command_names by (auto simp: pulse_demo_def)
  next
    fix i and w :: "rstr \<times> bool"
    assume "px_default pulse_demo w = Some sound_card \<and> i \<noteq> px_module_of pulse_demo sound_card"
    then show "px_default pulse_demo (snd (px_run pulse_demo [lit ''unload-module'', i] w)) = Some sound_card"
      using command_names by (simp add: pulse_demo_def)
  next
    fix w :: "rstr \<times> bool" and out l
    assume a: "fst (px_run pulse_demo [lit ''list'', lit ''short'', lit ''modules''] w) = Some out \<and> l \<in> set (str_lines (rtrim out)) \<and> own_module_line l"
    then show "rtrim (hd (split_on 9 l)) \<noteq> px_module_of pulse_demo sound_card"
      using lines by (cases "snd w") (auto simp: pulse_demo_def simp del: append.simps)
  next
    fix w :: "rstr \<times> bool" and layout out i
    assume "fst (px_run pulse_demo (load_args layout) w) = Some out \<and> parse_u32 (rtrim out) = Some i"
    then show "module_arg i \<noteq> px_module_of pulse_demo sound_card"
      using command_names id7 by (auto simp: pulse_demo_def load_args_def)
  qed
qed

definition all_files :: file_env where
  "all_files = \<lparr>fe_write = True, fe_read = True, fe_remove = True\<rparr>"

definition linux_env_demo :: "(rstr \<times> bool) linux_env" where
  "linux_env_demo = \<lparr>le_pulse = pulse_demo, le_files = all_files, le_layout = Surround51\<rparr>"

definition same_run :: "'e \<Rightarrow> nat option \<Rightarrow> 'e session_run" where
  "same_run e n = \<lparr>sr_boot = e, sr_arm = e, sr_end = e, sr_died = n\<rparr>"

lemma same_run_ok: "ok e \<Longrightarrow> run_ok ok (same_run e n)"
  by (simp add: run_ok_def same_run_def)


definition built_in :: rstr where "built_in = lit ''Built-in Output''"
definition blackhole :: rstr where "blackhole = lit ''BlackHole 2ch''"

definition switch_demo :: "rstr switcher" where
  "switch_demo =
     \<lparr>sw_run = \<lambda>args w.
        (if args = [lit ''-a'', lit ''-t'', lit ''output''] then (Some (built_in @ [10] @ blackhole @ [10]), w)
         else if args = [lit ''-c'', lit ''-t'', lit ''output''] then (Some w, w)
         else if hd args = lit ''-s'' \<and> (hd (tl args) = built_in \<or> hd (tl args) = blackhole) then (Some [], hd (tl args))
         else (None, w)),
      sw_output = Some\<rparr>"

lemma switch_demo_ok: "switch_ok switch_demo built_in"
proof -
  have n: "lit ''-s'' \<noteq> lit ''-a''" "lit ''-s'' \<noteq> lit ''-c''" "lit ''-c'' \<noteq> lit ''-a''" "rtrim built_in = built_in" by code_simp+
  show ?thesis unfolding switch_ok_def by (auto simp: switch_demo_def to_output_def n n(1-3) [symmetric])
qed

definition macos_env_demo :: "rstr macos_env" where
  "macos_env_demo = \<lparr>me_switch = switch_demo, me_files = all_files, me_lower = \<lambda>c. [c]\<rparr>"


text \<open>Each channel of the null sink has its place in the channel map.\<close>

lemma channel_map_length: "length (split_on 44 (channel_map l)) = channels l"
  by (cases l; hypsubst; code_simp)

text \<open>The startup unmute happens only when a marker says that this program muted, once.\<close>

lemma stale_mute_once:
  "h_marker h = None \<Longrightarrow> restore_stale_mute_fallback os ml fe h = h"
  "fe_remove fe \<Longrightarrow> h_marker (restore_stale_mute_fallback os ml fe h) = None"
  by (auto simp: restore_stale_mute_fallback_def set_host_muted_def run_status_def set_default_render_muted_def remove_marker_def
      sys_call_def split_beta split: host_system.split)

end
