(* ===== verification/Pulsar_Loopback.thy ===== *)
theory Pulsar_Loopback
  imports Pulsar_Sink
begin

text \<open>
  Capturing system audio on Windows (\<^verbatim>\<open>audio/loopback.rs\<close>, \<^verbatim>\<open>audio/process_loopback.rs\<close>): the re-open loop with its budget,
  the capture loop with its silence filler, the pinned default and the capture of one process. What WASAPI
  answers is the input: one \<open>cycle\<close> for every open, one list of packets for every poll. The sink is a pipe that takes so many bytes and
  breaks then.
\<close>

subsection \<open>The pipe\<close>

record pipe =
  pp_out :: bytes
  pp_room :: "nat option"

text \<open>\<^verbatim>\<open>write_all\<close>: what a broken pipe took of the last write has been written.\<close>

definition write_all :: "bytes \<Rightarrow> pipe \<Rightarrow> bool \<times> pipe" where
  "write_all bs p =
     (case pp_room p of
        None \<Rightarrow> (True, p\<lparr>pp_out := pp_out p @ bs\<rparr>)
      | Some n \<Rightarrow> if length bs \<le> n then (True, p\<lparr>pp_out := pp_out p @ bs, pp_room := Some (n - length bs)\<rparr>)
                 else (False, p\<lparr>pp_out := pp_out p @ take n bs, pp_room := Some 0\<rparr>))"

function write_zeros :: "nat \<Rightarrow> pipe \<Rightarrow> bool \<times> pipe" where
  "write_zeros n p =
     (if n = 0 then (True, p)
      else let c = min n 4096; (ok, p') = write_all (replicate c 0) p
           in if ok then write_zeros (n - c) p' else (False, p'))"
  by pat_completeness auto
termination by (relation "measure fst") auto

declare write_zeros.simps [simp del]

subsection \<open>Formats\<close>

record loopback_format =
  lf_rate :: u32
  lf_channels :: u16
  lf_float :: bool

definition ffmpeg_sample_fmt :: "loopback_format \<Rightarrow> string" where
  "ffmpeg_sample_fmt f = (if lf_float f then ''f32le'' else ''s16le'')"

definition frame_bytes :: "loopback_format \<Rightarrow> nat" where
  "frame_bytes f = unat (lf_channels f) * (if lf_float f then 4 else 2)"

definition format_matches :: "loopback_format \<Rightarrow> loopback_format \<Rightarrow> bool" where
  "format_matches a b \<longleftrightarrow> lf_rate a = lf_rate b \<and> lf_channels a = lf_channels b \<and> lf_float a = lf_float b"

datatype loop_error =
    OpenFailed
  | BadBitDepth u16
  | ZeroChannels
  | StageFailed string u32
  | NotRecovered
  | NotActivated
  | EventFailed

definition read_format :: "wave_format_ex \<Rightarrow> loop_error + loopback_format" where
  "read_format wfx =
     (if wx_bits wfx \<noteq> 32 \<and> wx_bits wfx \<noteq> 16 then Inl (BadBitDepth (wx_bits wfx))
      else if wx_channels wfx = 0 then Inl ZeroChannels
      else Inr \<lparr>lf_rate = wx_rate wfx, lf_channels = wx_channels wfx, lf_float = (wx_bits wfx = 32)\<rparr>)"

text \<open>\<^verbatim>\<open>open\<close> gives the mix format of the endpoint, \<^verbatim>\<open>None\<close> for any failure on the way.\<close>

definition query_format :: "wave_format_ex option \<Rightarrow> loop_error + loopback_format" where
  "query_format opened = (case opened of None \<Rightarrow> Inl OpenFailed | Some wfx \<Rightarrow> read_format wfx)"

subsection \<open>Capturing\<close>

definition AUDCLNT_BUFFERFLAGS_SILENT :: u32 where "AUDCLNT_BUFFERFLAGS_SILENT = 0x2"
definition AUDCLNT_E_DEVICE_INVALIDATED :: u32 where "AUDCLNT_E_DEVICE_INVALIDATED = 0x88890004"
definition AUDCLNT_E_UNSUPPORTED_FORMAT :: u32 where "AUDCLNT_E_UNSUPPORTED_FORMAT = 0x88890003"
definition MAX_REINIT :: nat where "MAX_REINIT = 50"

text \<open>
  One round of the inner loop that finds a packet or fails: \<^verbatim>\<open>GetNextPacketSize\<close> failed, \<^verbatim>\<open>GetBuffer\<close> failed, or a packet with its
  frame count, its flags and its data (\<^verbatim>\<open>None\<close> for a null pointer).
\<close>

datatype packet = NextFailed u32 | BufferFailed u32 | Packet u32 u32 "bytes option"

datatype capture_end = PipeBroken | DeviceInvalidated bool | FormatChanged loopback_format | FatalEnd loop_error

text \<open>
  \<^verbatim>\<open>Overread\<close> is the code reading more bytes than the packet has; \<^verbatim>\<open>Running\<close> means the given input is used up.
\<close>

datatype loop_state = Ended capture_end | Overread | Running

definition on_wasapi :: "bool \<Rightarrow> string \<Rightarrow> u32 \<Rightarrow> capture_end" where
  "on_wasapi productive stage hr =
     (if hr = AUDCLNT_E_DEVICE_INVALIDATED then DeviceInvalidated productive else FatalEnd (StageFailed stage hr))"

definition write_packet :: "nat \<Rightarrow> u32 \<Rightarrow> u32 \<Rightarrow> bytes option \<Rightarrow> pipe \<Rightarrow> (bool \<times> pipe) option" where
  "write_packet align nframes flags data p =
     (let n = unat nframes * align in
      if flags AND AUDCLNT_BUFFERFLAGS_SILENT \<noteq> 0 then Some (write_zeros n p)
      else case data of
        None \<Rightarrow> Some (write_zeros n p)
      | Some d \<Rightarrow> if length d < n then None else Some (write_all (take n d) p))"

fun drain :: "(string \<Rightarrow> u32 \<Rightarrow> capture_end) \<Rightarrow> nat \<Rightarrow> packet list \<Rightarrow> bool \<Rightarrow> pipe \<Rightarrow> loop_state \<times> bool \<times> pipe" where
  "drain fail align [] wrote p = (Running, wrote, p)"
| "drain fail align (NextFailed hr # ps) wrote p = (Ended (fail ''GetNextPacketSize'' hr), wrote, p)"
| "drain fail align (BufferFailed hr # ps) wrote p = (Ended (fail ''GetBuffer'' hr), wrote, p)"
| "drain fail align (Packet nframes flags data # ps) wrote p =
     (case write_packet align nframes flags data p of
        None \<Rightarrow> (Overread, wrote, p)
      | Some (ok, p') \<Rightarrow> if ok then drain fail align ps True p' else (Ended PipeBroken, wrote, p'))"

fun capture_loop :: "nat \<Rightarrow> bytes \<Rightarrow> packet list list \<Rightarrow> pipe \<Rightarrow> loop_state \<times> pipe" where
  "capture_loop align silence [] p = (Running, p)"
| "capture_loop align silence (t # ts) p =
     (case drain (on_wasapi True) align t False p of
        (Running, wrote, p1) \<Rightarrow>
          (if wrote then capture_loop align silence ts p1
           else let (ok, p2) = write_all silence p1
                in if ok then capture_loop align silence ts p2 else (Ended PipeBroken, p2))
      | (s, _, p1) \<Rightarrow> (s, p1))"

subsection \<open>One open, initialise and capture cycle\<close>

record 'w cycle =
  cy_world :: "'w host"
  cy_open :: "wave_format_ex option"
  cy_init :: "u32 option"
  cy_reopen :: "wave_format_ex option"
  cy_reinit :: "u32 option"
  cy_service :: "u32 option"
  cy_start :: "u32 option"
  cy_ticks :: "packet list list"

text \<open>The client to capture with, or why there is none: the second open is for endpoints that refuse the conversion flags.\<close>

definition init_client :: "'w cycle \<Rightarrow> capture_end option" where
  "init_client c =
     (case cy_init c of
        None \<Rightarrow> None
      | Some hr \<Rightarrow>
          if hr = AUDCLNT_E_UNSUPPORTED_FORMAT
          then (case cy_reopen c of
                  None \<Rightarrow> Some (FatalEnd OpenFailed)
                | Some _ \<Rightarrow> map_option (on_wasapi False ''IAudioClient::Initialize (plain-loopback retry)'') (cy_reinit c))
          else Some (on_wasapi False ''IAudioClient::Initialize'' hr))"

definition run_once :: "'w cycle \<Rightarrow> loopback_format option \<Rightarrow> bool \<Rightarrow> pipe \<Rightarrow> loop_state \<times> pipe" where
  "run_once c expected reopen p =
     (case cy_open c of
        None \<Rightarrow> (Ended (if reopen then DeviceInvalidated False else FatalEnd OpenFailed), p)
      | Some wfx \<Rightarrow>
          (case read_format wfx of
             Inl e \<Rightarrow> (Ended (FatalEnd e), p)
           | Inr fmt \<Rightarrow>
               if (case expected of Some x \<Rightarrow> \<not> format_matches fmt x | None \<Rightarrow> False) then (Ended (FormatChanged fmt), p)
               else case init_client c of
                 Some e \<Rightarrow> (Ended e, p)
               | None \<Rightarrow>
                   (case cy_service c of
                      Some hr \<Rightarrow> (Ended (on_wasapi False ''GetService IAudioCaptureClient'' hr), p)
                    | None \<Rightarrow>
                        (case cy_start c of
                           Some hr \<Rightarrow> (Ended (on_wasapi False ''IAudioClient::Start'' hr), p)
                         | None \<Rightarrow>
                             let align = unat (wx_block_align wfx);
                                 period = max 1 (unat (lf_rate fmt div 100))
                             in capture_loop align (replicate (period * align) 0) (cy_ticks c) p))))"

subsection \<open>The re-open loop\<close>

definition reassert_pinned_default :: "'w core_audio \<Rightarrow> rstr option \<Rightarrow> 'w host \<Rightarrow> bool \<times> 'w host" where
  "reassert_pinned_default ca pinned h =
     (case pinned of
        None \<Rightarrow> (False, h)
      | Some i \<Rightarrow>
          (case default_render_device_id ca (h_world h) of
             Inr (Some current) \<Rightarrow> (True, if current = i then h else snd (set_default_render_device ca i h))
           | Inr None \<Rightarrow> (True, snd (set_default_render_device ca i h))
           | Inl _ \<Rightarrow> (True, h)))"

datatype loop_result = Finished "loop_error + loopback_format option" | Unsafe | Going

text \<open>
  The result with the pipe and the states of the host after each re-assertion.
\<close>

fun run_loop ::
  "'w core_audio \<Rightarrow> rstr option \<Rightarrow> loopback_format option \<Rightarrow> nat \<Rightarrow> bool \<Rightarrow> 'w cycle list \<Rightarrow> pipe \<Rightarrow> loop_result \<times> pipe \<times> 'w host list" where
  "run_loop ca pinned expected left reopen [] p = (Going, p, [])"
| "run_loop ca pinned expected left reopen (c # cs) p =
     (let h = snd (reassert_pinned_default ca pinned (cy_world c)) in
      case run_once c expected reopen p of
        (Running, p') \<Rightarrow> (Going, p', [h])
      | (Overread, p') \<Rightarrow> (Unsafe, p', [h])
      | (Ended PipeBroken, p') \<Rightarrow> (Finished (Inr None), p', [h])
      | (Ended (FatalEnd e), p') \<Rightarrow> (Finished (Inl e), p', [h])
      | (Ended (FormatChanged f), p') \<Rightarrow> (Finished (Inr (Some f)), p', [h])
      | (Ended (DeviceInvalidated productive), p') \<Rightarrow>
          if \<not> productive \<and> left = 0 then (Finished (Inl NotRecovered), p', [h])
          else let (r, p'', hs) = run_loop ca pinned expected (if productive then MAX_REINIT else left - 1) True cs p'
               in (r, p'', h # hs))"

definition run_loopback ::
  "'w core_audio \<Rightarrow> rstr option \<Rightarrow> loopback_format option \<Rightarrow> 'w cycle list \<Rightarrow> pipe \<Rightarrow> loop_result \<times> pipe \<times> 'w host list" where
  "run_loopback ca pinned expected cs p = run_loop ca pinned expected MAX_REINIT False cs p"

definition run_loopback_capture_pinned ::
  "'w core_audio \<Rightarrow> rstr option \<Rightarrow> 'w cycle list \<Rightarrow> pipe \<Rightarrow> loop_result \<times> pipe \<times> 'w host list" where
  "run_loopback_capture_pinned ca pinned cs p =
     (case run_loopback ca pinned None cs p of (Finished (Inr _), s) \<Rightarrow> (Finished (Inr None), s) | r \<Rightarrow> r)"

definition run_loopback_capture :: "'w core_audio \<Rightarrow> 'w cycle list \<Rightarrow> pipe \<Rightarrow> loop_result \<times> pipe \<times> 'w host list" where
  "run_loopback_capture ca cs p = run_loopback_capture_pinned ca None cs p"

definition run_loopback_capture_tracking ::
  "'w core_audio \<Rightarrow> rstr option \<Rightarrow> loopback_format \<Rightarrow> 'w cycle list \<Rightarrow> pipe \<Rightarrow> loop_result \<times> pipe \<times> 'w host list" where
  "run_loopback_capture_tracking ca pinned expected cs p = run_loopback ca pinned (Some expected) cs p"

subsection \<open>Capturing one process\<close>

definition process_loopback_format :: loopback_format where
  "process_loopback_format = \<lparr>lf_rate = 48000, lf_channels = 2, lf_float = True\<rparr>"

definition WAVE_FORMAT_IEEE_FLOAT :: u16 where "WAVE_FORMAT_IEEE_FLOAT = 3"

text \<open>\<^verbatim>\<open>RtlGetVersion\<close>: its status, and the major version and build_no it reports.\<close>

definition process_loopback_supported :: "u32 \<Rightarrow> u32 \<Rightarrow> u32 \<Rightarrow> bool" where
  "process_loopback_supported status major build_no \<longleftrightarrow> status = 0 \<and> 10 \<le> major \<and> 19041 \<le> build_no"

definition fixed_waveformat :: wave_format_ex where
  "fixed_waveformat =
     (let fmt = process_loopback_format; bytes_per_sample = 4; align = lf_channels fmt * bytes_per_sample
      in \<lparr>wx_tag = WAVE_FORMAT_IEEE_FLOAT, wx_channels = lf_channels fmt, wx_rate = lf_rate fmt,
          wx_avg_bytes = lf_rate fmt * ucast align, wx_block_align = align, wx_bits = bytes_per_sample * 8, wx_cb_size = 0\<rparr>)"

text \<open>
  The activation of the client: the event, the asynchronous call, the wait, the result call, the result it carries,
  whether an interface came with it, and the cast.
\<close>

record activation =
  ac_event :: bool
  ac_call :: "u32 option"
  ac_wait :: bool
  ac_result :: "u32 option"
  ac_hr :: "u32 option"
  ac_interface :: bool
  ac_cast :: "u32 option"

definition activate_process_client :: "activation \<Rightarrow> loop_error option" where
  "activate_process_client a =
     (if \<not> ac_event a then Some EventFailed
      else case ac_call a of
        Some hr \<Rightarrow> Some (StageFailed ''ActivateAudioInterfaceAsync'' hr)
      | None \<Rightarrow>
          if \<not> ac_wait a then Some EventFailed
          else case ac_result a of
            Some hr \<Rightarrow> Some (StageFailed ''GetActivateResult'' hr)
          | None \<Rightarrow>
              (case ac_hr a of
                 Some hr \<Rightarrow> Some (StageFailed ''process-loopback activation HRESULT'' hr)
               | None \<Rightarrow>
                   if \<not> ac_interface a then Some NotActivated
                   else map_option (StageFailed ''cast activated interface to IAudioClient'') (ac_cast a)))"

record process_env =
  pe_activation :: activation
  pe_event :: bool
  pe_init :: "u32 option"
  pe_set_event :: "u32 option"
  pe_service :: "u32 option"
  pe_start :: "u32 option"
  pe_wakes :: "packet list list"

definition process_fail :: "string \<Rightarrow> u32 \<Rightarrow> capture_end" where
  "process_fail stage hr = FatalEnd (StageFailed (stage @ '' (process-loopback)'') hr)"

fun process_capture_loop :: "nat \<Rightarrow> packet list list \<Rightarrow> pipe \<Rightarrow> loop_state \<times> pipe" where
  "process_capture_loop align [] p = (Running, p)"
| "process_capture_loop align (t # ts) p =
     (case drain process_fail align t False p of
        (Running, _, p1) \<Rightarrow> process_capture_loop align ts p1
      | (s, _, p1) \<Rightarrow> (s, p1))"

text \<open>A device error is fatal here, whatever its code, so a broken pipe and a fatal error are the only ends.\<close>

fun process_result :: "loop_state \<Rightarrow> loop_result" where
  "process_result (Ended (FatalEnd e)) = Finished (Inl e)"
| "process_result (Ended _) = Finished (Inr None)"
| "process_result Overread = Unsafe"
| "process_result Running = Going"

definition run_process_loopback_capture :: "process_env \<Rightarrow> pipe \<Rightarrow> loop_result \<times> pipe" where
  "run_process_loopback_capture e p =
     (case activate_process_client (pe_activation e) of
        Some err \<Rightarrow> (Finished (Inl err), p)
      | None \<Rightarrow>
          if \<not> pe_event e then (Finished (Inl EventFailed), p)
          else case pe_init e of
            Some hr \<Rightarrow> (Finished (Inl (StageFailed ''IAudioClient::Initialize (process-loopback)'' hr)), p)
          | None \<Rightarrow>
              (case pe_set_event e of
                 Some hr \<Rightarrow> (Finished (Inl (StageFailed ''IAudioClient::SetEventHandle'' hr)), p)
               | None \<Rightarrow>
                   (case pe_service e of
                      Some hr \<Rightarrow> (Finished (Inl (StageFailed ''GetService IAudioCaptureClient (process-loopback)'' hr)), p)
                    | None \<Rightarrow>
                        (case pe_start e of
                           Some hr \<Rightarrow> (Finished (Inl (StageFailed ''IAudioClient::Start (process-loopback)'' hr)), p)
                         | None \<Rightarrow>
                             let (s, p') = process_capture_loop (unat (wx_block_align fixed_waveformat)) (pe_wakes e) p
                             in (process_result s, p')))))"

subsection \<open>What reaches the pipe\<close>

lemma write_zeros_eq: "write_zeros n p = write_all (replicate n 0) p"
proof (induction n p rule: write_zeros.induct)
  case (1 n p)
  let ?c = "min n 4096"
  show ?case
  proof (cases "n = 0")
    case True
    then show ?thesis by (cases p) (auto simp: write_zeros.simps [of 0] write_all_def split: option.split)
  next
    case False
    obtain ok p' where w: "write_all (replicate ?c 0) p = (ok, p')" by (cases "write_all (replicate ?c 0) p")
    have IH: "ok \<Longrightarrow> write_zeros (n - ?c) p' = write_all (replicate (n - ?c) 0) p'" using 1 False w by simp
    have split: "replicate 4096 (0 :: u8) @ replicate (k - 4096) 0 = replicate k 0" if "4096 \<le> k" for k
      using that by (simp flip: replicate_add)
    show ?thesis
      using False w IH split
      by (auto simp: write_zeros.simps [of n p] write_all_def take_replicate min_def split: option.splits if_splits)
  qed
qed

text \<open>Bytes a pipe has got beyond what it had.\<close>

definition grown :: "nat \<Rightarrow> pipe \<Rightarrow> pipe \<Rightarrow> bool" where
  "grown align p p' \<longleftrightarrow> (\<exists>x. pp_out p' = pp_out p @ x \<and> align dvd length x)"

lemma grown_refl [simp]: "grown a p p"
  by (auto simp: grown_def)

lemma grown_trans [trans]: "grown a p q \<Longrightarrow> grown a q r \<Longrightarrow> grown a p r"
  by (auto simp: grown_def)

lemma write_all_grown: "write_all bs p = (True, p') \<Longrightarrow> a dvd length bs \<Longrightarrow> grown a p p'"
  by (auto simp: write_all_def grown_def split: option.splits if_splits)

lemma write_packet_grown: "write_packet a n fl d p = Some (True, p') \<Longrightarrow> grown a p p'"
  by (auto simp: write_packet_def write_zeros_eq Let_def split: if_splits option.splits intro: write_all_grown)

lemma drain_grown:
  "drain fl a t wr p = (s, wr', p') \<Longrightarrow> s \<noteq> Ended PipeBroken \<Longrightarrow> grown a p p'"
proof (induction fl a t wr p rule: drain.induct)
  case (4 fa a n fl d ps wr p)
  show ?case
  proof (cases "write_packet a n fl d p")
    case None
    then show ?thesis using 4(2) by simp
  next
    case (Some r)
    show ?thesis
    proof (cases "fst r")
      case True
      then have w: "write_packet a n fl d p = Some (True, snd r)" using Some by (cases r) simp
      show ?thesis using 4 w by (auto intro: grown_trans [OF write_packet_grown [OF w]])
    next
      case False
      then show ?thesis using 4 Some by (cases r) auto
    qed
  qed
qed auto

lemma drain_end: "drain (on_wasapi b) a t wr p = (s, wr', p') \<Longrightarrow> s \<noteq> Ended (FormatChanged g)"
  by (induction "on_wasapi b" a t wr p rule: drain.induct) (auto simp: on_wasapi_def split: option.splits if_splits)

lemma capture_loop_end: "capture_loop a silence ts p = (s, p') \<Longrightarrow> s \<noteq> Ended (FormatChanged g)"
proof (induction a silence ts p rule: capture_loop.induct)
  case (2 a silence t ts p)
  obtain s1 wr p1 where d: "drain (on_wasapi True) a t False p = (s1, wr, p1)" by (metis prod_cases3)
  then show ?case using 2 drain_end [OF d, of g] by (cases s1) (auto split: if_splits prod.splits)
qed simp

lemma capture_loop_grown:
  "capture_loop a silence ts p = (s, p') \<Longrightarrow> a dvd length silence \<Longrightarrow> s \<noteq> Ended PipeBroken \<Longrightarrow> grown a p p'"
proof (induction a silence ts p rule: capture_loop.induct)
  case (2 a silence t ts p)
  obtain s1 wr p1 where d: "drain (on_wasapi True) a t False p = (s1, wr, p1)" by (metis prod_cases3)
  show ?case
  proof (cases "s1 = Running")
    case True
    then have g: "grown a p p1" using drain_grown [OF d] by simp
    show ?thesis
    proof (cases wr)
      case True
      then show ?thesis using 2 d \<open>s1 = Running\<close> g by (auto intro: grown_trans)
    next
      case False
      obtain ok p2 where w: "write_all silence p1 = (ok, p2)" by (cases "write_all silence p1")
      then show ?thesis using 2 d \<open>s1 = Running\<close> False g write_all_grown [of silence p1 p2 a]
        by (auto split: if_splits intro: grown_trans)
    qed
  next
    case False
    then show ?thesis using 2 d drain_grown [OF d] by (cases s1) auto
  qed
qed simp

text \<open>Packets that hold the frames they announce.\<close>

fun packet_full :: "nat \<Rightarrow> packet \<Rightarrow> bool" where
  "packet_full a (Packet n fl (Some d)) \<longleftrightarrow> unat n * a \<le> length d"
| "packet_full a _ \<longleftrightarrow> True"

lemma drain_safe: "drain fl a t wr p = (s, wr', p') \<Longrightarrow> \<forall>k \<in> set t. packet_full a k \<Longrightarrow> s \<noteq> Overread"
proof (induction fl a t wr p rule: drain.induct)
  case (4 fa a n fl d ps wr p)
  then show ?case by (cases d) (auto simp: write_packet_def Let_def split: if_splits option.splits prod.splits)
qed auto

lemma capture_loop_safe:
  "capture_loop a silence ts p = (s, p') \<Longrightarrow> \<forall>t \<in> set ts. \<forall>k \<in> set t. packet_full a k \<Longrightarrow> s \<noteq> Overread"
proof (induction a silence ts p rule: capture_loop.induct)
  case (2 a silence t ts p)
  obtain s1 wr p1 where d: "drain (on_wasapi True) a t False p = (s1, wr, p1)" by (metis prod_cases3)
  then have "s1 \<noteq> Overread" using drain_safe [OF d] 2(4) by simp
  then show ?case using 2 d by (cases s1) (auto split: if_splits prod.splits)
qed simp

definition sane_cycle :: "'w cycle \<Rightarrow> bool" where
  "sane_cycle c \<longleftrightarrow> (\<forall>x. cy_open c = Some x \<longrightarrow> unat (wx_block_align x) = unat (wx_channels x) * (unat (wx_bits x) div 8) \<and>
     (\<forall>t \<in> set (cy_ticks c). \<forall>k \<in> set t. packet_full (unat (wx_block_align x)) k))"

lemma init_client_end: "init_client c = Some e \<Longrightarrow> e \<noteq> PipeBroken \<and> (\<forall>g. e \<noteq> FormatChanged g) \<and> e \<noteq> DeviceInvalidated True"
  by (auto simp: init_client_def on_wasapi_def split: option.splits if_splits)

lemma read_format_align:
  "read_format x = Inr g \<Longrightarrow> unat (wx_channels x) * (unat (wx_bits x) div 8) = frame_bytes g"
  by (auto simp: read_format_def frame_bytes_def split: if_splits)

lemma run_once_format:
  assumes "sane_cycle c" "run_once c (Some f) reopen p = (s, p')"
  shows "(s \<noteq> Ended PipeBroken \<longrightarrow> grown (frame_bytes f) p p') \<and> s \<noteq> Overread \<and> (\<forall>g. s = Ended (FormatChanged g) \<longrightarrow> \<not> format_matches g f)"
proof (cases "cy_open c")
  case None
  then show ?thesis using assms(2) by (auto simp: run_once_def split: if_splits)
next
  case (Some x)
  show ?thesis
  proof (cases "read_format x")
    case (Inl e)
    then show ?thesis using assms(2) Some by (auto simp: run_once_def)
  next
    case (Inr g)
    show ?thesis
    proof (cases "format_matches g f \<and> init_client c = None \<and> cy_service c = None \<and> cy_start c = None")
      case True
      let ?a = "unat (wx_block_align x)"
      have a: "?a = frame_bytes f"
        using assms(1) Some read_format_align [OF Inr] True by (simp add: sane_cycle_def format_matches_def frame_bytes_def)
      let ?sil = "replicate (max 1 (unat (lf_rate g div 100)) * ?a) (0 :: u8)"
      have l: "capture_loop ?a ?sil (cy_ticks c) p = (s, p')"
        using assms(2) Some Inr True by (simp add: run_once_def Let_def)
      have full: "\<forall>t \<in> set (cy_ticks c). \<forall>k \<in> set t. packet_full ?a k"
        using assms(1) Some unfolding sane_cycle_def by blast
      show ?thesis using capture_loop_grown [OF l] capture_loop_safe [OF l full] capture_loop_end [OF l] a by auto
    next
      case False
      then show ?thesis using assms(2) Some Inr init_client_end [of c]
        by (auto simp: run_once_def on_wasapi_def split: option.splits if_splits)
    qed
  qed
qed

lemma reassert_keeps_pin:
  assumes "core_audio_ok ca i" "\<exists>x. default_render_device_id ca (h_world h) = Inr x"
  shows "role_id ca (h_world (snd (reassert_pinned_default ca (Some i) h))) Console = Some i"
proof -
  obtain x where x: "default_render_device_id ca (h_world h) = Inr x" using assms(2) by blast
  have d: "role_id ca (h_world (snd (set_default_render_device ca i h))) Console = Some i"
    using set_default_original(1) [OF assms(1), of h] by (simp add: all_roles_def)
  show ?thesis
  proof (cases "x = Some i")
    case True
    then have "role_id ca (h_world h) Console = Some i"
      using x by (auto simp: default_render_device_id_def role_id_def split: if_splits option.splits)
    then show ?thesis using x True by (simp add: reassert_pinned_default_def)
  next
    case False
    then show ?thesis using x d by (cases x) (simp_all add: reassert_pinned_default_def)
  qed
qed

lemma run_loop_format:
  "\<forall>c \<in> set cs. sane_cycle c \<Longrightarrow> run_loop ca pinned (Some f) left reopen cs p = (r, p', hs) \<Longrightarrow>
   (r \<noteq> Finished (Inr None) \<longrightarrow> grown (frame_bytes f) p p') \<and> r \<noteq> Unsafe \<and>
   (\<forall>g. r = Finished (Inr (Some g)) \<longrightarrow> \<not> format_matches g f)"
proof (induction cs arbitrary: left reopen p r p' hs)
  case (Cons c cs)
  obtain s p1 where o: "run_once c (Some f) reopen p = (s, p1)" by (cases "run_once c (Some f) reopen p")
  have F: "s \<noteq> Ended PipeBroken \<longrightarrow> grown (frame_bytes f) p p1" "s \<noteq> Overread" "\<forall>g. s = Ended (FormatChanged g) \<longrightarrow> \<not> format_matches g f"
    using run_once_format [OF _ o] Cons.prems(1) by auto
  show ?case
  proof (cases "\<exists>b. s = Ended (DeviceInvalidated b) \<and> (b \<or> left \<noteq> 0)")
    case True
    then obtain b where b: "s = Ended (DeviceInvalidated b)" "b \<or> left \<noteq> 0" by blast
    obtain r2 p2 hs2 where n: "run_loop ca pinned (Some f) (if b then MAX_REINIT else left - 1) True cs p1 = (r2, p2, hs2)"
      by (metis prod_cases3)
    have "r = r2" "p' = p2" using Cons.prems(2) o b n by (auto simp: Let_def)
    then show ?thesis using Cons.IH [OF _ n] Cons.prems(1) F(1) b(1) by (auto intro: grown_trans)
  next
    case False
    then show ?thesis using Cons.prems(2) o F
      by (auto simp: Let_def split: loop_state.splits capture_end.splits if_splits)
  qed
qed simp

lemma run_loop_hosts:
  "run_loop ca pinned ex left reopen cs p = (r, p', hs) \<Longrightarrow>
   \<exists>n \<le> length cs. hs = List.map (\<lambda>c. snd (reassert_pinned_default ca pinned (cy_world c))) (take n cs)"
proof (induction cs arbitrary: left reopen p r p' hs)
  case (Cons c cs)
  obtain s p1 where o: "run_once c ex reopen p = (s, p1)" by (cases "run_once c ex reopen p")
  let ?h = "snd (reassert_pinned_default ca pinned (cy_world c))"
  show ?case
  proof (cases "\<exists>b. s = Ended (DeviceInvalidated b) \<and> (b \<or> left \<noteq> 0)")
    case True
    then obtain b where b: "s = Ended (DeviceInvalidated b)" "b \<or> left \<noteq> 0" by blast
    obtain r2 p2 hs2 where n: "run_loop ca pinned ex (if b then MAX_REINIT else left - 1) True cs p1 = (r2, p2, hs2)"
      by (metis prod_cases3)
    obtain m where m: "m \<le> length cs" "hs2 = List.map (\<lambda>c. snd (reassert_pinned_default ca pinned (cy_world c))) (take m cs)"
      using Cons.IH [OF n] by blast
    have "hs = ?h # hs2" using Cons.prems o b n by (auto simp: Let_def)
    then show ?thesis using m by (intro exI [of _ "Suc m"]) simp
  next
    case False
    then have "hs = [?h]" using Cons.prems o by (auto simp: Let_def split: loop_state.splits capture_end.splits if_splits)
    then show ?thesis by (intro exI [of _ 1]) simp
  qed
qed simp

subsection \<open>What a capture guarantees\<close>


lemma dead_opens:
  "\<forall>d \<in> set ds. cy_open d = None \<Longrightarrow>
   (let (r, p', hs) = run_loop ca pinned ex left True (ds @ cs) p
    in if length ds \<le> left then (r, p') = (let (r, p', _) = run_loop ca pinned ex (left - length ds) True cs p in (r, p'))
       else r = Finished (Inl NotRecovered) \<and> p' = p \<and> length hs = left + 1)"
proof (induction ds arbitrary: left)
  case (Cons d ds)
  have d: "run_once d ex True p = (Ended (DeviceInvalidated False), p)" using Cons.prems by (simp add: run_once_def)
  show ?case using Cons.IH [of "left - 1"] Cons.prems d by (cases left) (auto simp: Let_def split: prod.splits)
qed (simp split: prod.splits)

text \<open>
  C35: after a device was lost, up to fifty opens in a row may fail and the capture goes on with the next endpoint that opens, on
  what is left of the budget. The fifty-first failure ends it with an error, and none of the failed opens writes a byte.
\<close>

theorem reinit_budget:
  assumes "run_once c ex False p = (Ended (DeviceInvalidated True), p1)"
    and "\<forall>d \<in> set ds. cy_open d = None"
    and "run_loopback ca pinned ex (c # ds @ cs) p = (r, p', hs)"
  shows "if length ds \<le> 50 then \<exists>hs'. run_loop ca pinned ex (50 - length ds) True cs p1 = (r, p', hs')
    else r = Finished (Inl NotRecovered) \<and> p' = p1 \<and> length hs = 52"
proof -
  obtain r2 p2 hs2 where n: "run_loop ca pinned ex MAX_REINIT True (ds @ cs) p1 = (r2, p2, hs2)" by (metis prod_cases3)
  have e: "r = r2" "p' = p2" "hs = snd (reassert_pinned_default ca pinned (cy_world c)) # hs2"
    using assms(1,3) n by (simp_all add: run_loopback_def Let_def)
  show ?thesis using dead_opens [OF assms(2), of ca pinned ex MAX_REINIT cs p1] n e
    by (auto simp: MAX_REINIT_def split: prod.splits if_splits)
qed

definition loop_device :: "u16 \<Rightarrow> wave_format_ex" where
  "loop_device ch = \<lparr>wx_tag = WAVE_FORMAT_EXTENSIBLE, wx_channels = ch, wx_rate = 48000, wx_avg_bytes = 48000 * ucast ch * 4,
     wx_block_align = ch * 4, wx_bits = 32, wx_cb_size = 22\<rparr>"

definition loop_cycle :: "wave_format_ex option \<Rightarrow> packet list list \<Rightarrow> (endpoint_role \<Rightarrow> rstr) cycle" where
  "loop_cycle op ts = \<lparr>cy_world = started (\<lambda>_. speakers, None), cy_open = op, cy_init = None, cy_reopen = None, cy_reinit = None,
     cy_service = None, cy_start = None, cy_ticks = ts\<rparr>"

definition lost :: packet where "lost = NextFailed AUDCLNT_E_DEVICE_INVALIDATED"
definition stereo :: loopback_format where "stereo = \<lparr>lf_rate = 48000, lf_channels = 2, lf_float = True\<rparr>"
definition pipe0 :: pipe where "pipe0 = \<lparr>pp_out = [], pp_room = None\<rparr>"

definition lost_once :: "(endpoint_role \<Rightarrow> rstr) cycle" where
  "lost_once = loop_cycle (Some (loop_device 2)) [[Packet 1 0 (Some [1, 2, 3, 4, 5, 6, 7, 8]), lost]]"

lemmas loop_demo = run_once_def loop_cycle_def loop_device_def read_format_def init_client_def lost_def on_wasapi_def Let_def
  write_packet_def write_all_def AUDCLNT_BUFFERFLAGS_SILENT_def AUDCLNT_E_DEVICE_INVALIDATED_def AUDCLNT_E_UNSUPPORTED_FORMAT_def
  pipe0_def lost_once_def

lemma lost_once_run:
  "ex = None \<or> ex = Some stereo \<Longrightarrow> pp_room p = None \<Longrightarrow>
   run_once lost_once ex b p = (Ended (DeviceInvalidated True), p\<lparr>pp_out := pp_out p @ [1, 2, 3, 4, 5, 6, 7, 8]\<rparr>)"
  by (auto simp: loop_demo stereo_def format_matches_def)

lemma no_open_run: "run_once (loop_cycle None ts) ex True p = (Ended (DeviceInvalidated False), p)"
  by (simp add: loop_demo)

lemma six_run: "run_once (loop_cycle (Some (loop_device 6)) ts) (Some stereo) b p =
   (Ended (FormatChanged \<lparr>lf_rate = 48000, lf_channels = 6, lf_float = True\<rparr>), p)"
  by (simp add: loop_demo stereo_def format_matches_def)


theorem reinit_budget_witness:
  "\<exists>hs hs'. run_loopback two_devices None None (lost_once # replicate 50 (loop_cycle None []) @ [lost_once]) pipe0 =
       (Going, \<lparr>pp_out = [1, 2, 3, 4, 5, 6, 7, 8, 1, 2, 3, 4, 5, 6, 7, 8], pp_room = None\<rparr>, hs) \<and>
     run_loopback two_devices None None (lost_once # replicate 51 (loop_cycle None []) @ [lost_once]) pipe0 =
       (Finished (Inl NotRecovered), \<lparr>pp_out = [1, 2, 3, 4, 5, 6, 7, 8], pp_room = None\<rparr>, hs') \<and> length hs' = 52"
proof -
  let ?p1 = "\<lparr>pp_out = [1, 2, 3, 4, 5, 6, 7, 8], pp_room = None\<rparr>"
  have c: "run_once lost_once None False pipe0 = (Ended (DeviceInvalidated True), ?p1)"
    using lost_once_run [of None pipe0 False] by (simp add: pipe0_def)
  have e: "run_loop two_devices None None 0 True [lost_once] ?p1 =
      (Going, \<lparr>pp_out = [1, 2, 3, 4, 5, 6, 7, 8, 1, 2, 3, 4, 5, 6, 7, 8], pp_room = None\<rparr>, [started (\<lambda>_. speakers, None)])"
    using lost_once_run [of None ?p1 True]
    by (simp add: Let_def reassert_pinned_default_def) (simp add: lost_once_def loop_cycle_def)
  have d: "\<forall>d \<in> set (replicate n (loop_cycle None [])). cy_open d = None" for n by (auto simp: loop_cycle_def)
  obtain r p' hs where 1: "run_loopback two_devices None None (lost_once # replicate 50 (loop_cycle None []) @ [lost_once]) pipe0 = (r, p', hs)"
    by (metis prod_cases3)
  obtain r' p'' hs' where 2: "run_loopback two_devices None None (lost_once # replicate 51 (loop_cycle None []) @ [lost_once]) pipe0 = (r', p'', hs')"
    by (metis prod_cases3)
  show ?thesis using reinit_budget [OF c d 1] reinit_budget [OF c d 2] e 1 2 by auto
qed

text \<open>
  A loss at the very first poll counts as a working cycle, so an endpoint that opens but never captures is re-opened forever.
\<close>

lemma dead_endpoint_never_gives_up:
  "\<exists>hs. run_loopback two_devices None None (replicate n (loop_cycle (Some (loop_device 2)) [[lost]])) p = (Going, p, hs)"
proof -
  have r: "run_once (loop_cycle (Some (loop_device 2)) [[lost]]) None b p = (Ended (DeviceInvalidated True), p)" for b
    by (simp add: run_once_def loop_cycle_def loop_device_def read_format_def init_client_def lost_def on_wasapi_def Let_def)
  have "\<exists>hs. run_loop two_devices None None MAX_REINIT b (replicate n (loop_cycle (Some (loop_device 2)) [[lost]])) p = (Going, p, hs)" for b
  proof (induction n arbitrary: b)
    case (Suc n)
    obtain hs where "run_loop two_devices None None MAX_REINIT True (replicate n (loop_cycle (Some (loop_device 2)) [[lost]])) p = (Going, p, hs)"
      using Suc by blast
    then show ?case by (simp add: r Let_def)
  qed simp
  then show ?thesis by (simp add: run_loopback_def)
qed

text \<open>
  The second open keeps the frame size of the first: an endpoint that has become mono by then is read past its packets.
\<close>

lemma second_open_keeps_frame_size:
  "fst (run_loopback two_devices None None
     [(loop_cycle (Some (loop_device 2)) [[Packet 2 0 (Some (replicate 8 0))]])
        \<lparr>cy_init := Some AUDCLNT_E_UNSUPPORTED_FORMAT, cy_reopen := Some (loop_device 1)\<rparr>] pipe0) = Unsafe"
  by (simp add: run_loopback_def loop_demo)

text \<open>The retry is fatal when its open fails, on a re-open too, where the first open of the cycle would be retried.\<close>

lemma second_open_is_not_retried:
  "run_once ((loop_cycle (Some (loop_device 2)) [])\<lparr>cy_init := Some AUDCLNT_E_UNSUPPORTED_FORMAT\<rparr>) None True p =
     (Ended (FatalEnd OpenFailed), p)"
  by (simp add: run_once_def loop_cycle_def loop_device_def read_format_def init_client_def AUDCLNT_E_UNSUPPORTED_FORMAT_def)

text \<open>The capture of one process: the pipe gets whole frames of eight bytes.\<close>

lemma process_loop_grown:
  "process_capture_loop a ts p = (s, p') \<Longrightarrow> s \<noteq> Ended PipeBroken \<Longrightarrow> grown a p p'"
proof (induction a ts p rule: process_capture_loop.induct)
  case (2 a t ts p)
  obtain s1 wr p1 where d: "drain process_fail a t False p = (s1, wr, p1)" by (metis prod_cases3)
  show ?case
  proof (cases "s1 = Running")
    case True
    then show ?thesis using 2 d drain_grown [OF d] by (auto intro: grown_trans)
  next
    case False
    then show ?thesis using 2 d drain_grown [OF d] by (cases s1) auto
  qed
qed simp

lemma process_capture_whole_frames:
  assumes "run_process_loopback_capture e p = (r, p')" "r \<noteq> Finished (Inr None)"
  shows "grown 8 p p'"
proof -
  have a: "unat (wx_block_align fixed_waveformat) = 8" by code_simp
  have b: "process_result s \<noteq> Finished (Inr None) \<Longrightarrow> s \<noteq> Ended PipeBroken" for s by auto
  show ?thesis using assms process_loop_grown [of 8 "pe_wakes e" p] b
    by (auto simp: run_process_loopback_capture_def a split: option.splits if_splits prod.splits)
qed

end
