(* ===== verification/Pulsar_Vigem.thy ===== *)
theory Pulsar_Vigem
  imports Pulsar_Uinput
begin

text \<open>
  The ViGEm client crate (\<^verbatim>\<open>crates/vigem-client\<close>) and the Windows virtual gamepad on it (\<^verbatim>\<open>input/vigem.rs\<close>). The bus
  driver is an argument (\<open>driver\<close>) that sees the bytes of each control buffer; \<open>driver_ok\<close> says what is relied on. Events for
  overlapped calls are left out: every call is made to wait for its result. The notification requests of Xbox targets are
  behind a feature this program does not enable.
\<close>

subsection \<open>Buttons and reports\<close>

record x_gamepad =
  xg_buttons :: u16
  xg_left_trigger :: u8
  xg_right_trigger :: u8
  xg_thumb_lx :: i16
  xg_thumb_ly :: i16
  xg_thumb_rx :: i16
  xg_thumb_ry :: i16

definition XBUTTON_NAMES :: "string list" where
  "XBUTTON_NAMES = [''UP'', ''DOWN'', ''LEFT'', ''RIGHT'', ''START'', ''BACK'', ''LTHUMB'', ''RTHUMB'', ''LB'', ''RB'', ''GUIDE'', ''?'',
     ''A'', ''B'', ''X'', ''Y'']"

fun name_buttons :: "nat list \<Rightarrow> u16 \<Rightarrow> bool \<Rightarrow> string" where
  "name_buttons [] raw comma = []"
| "name_buttons (i # is) raw comma =
     (if raw AND push_bit i 1 \<noteq> 0
      then (let (sep, comma') = (if comma then (''|'', True) else ([], comma))
            in sep @ XBUTTON_NAMES ! i @ name_buttons is raw comma')
      else name_buttons is raw comma)"

fun hex :: "nat \<Rightarrow> string" where
  "hex n = (let d = [char_of (if n mod 16 < 10 then 48 + n mod 16 else 87 + n mod 16)] in if n < 16 then d else hex (n div 16) @ d)"

declare hex.simps [simp del]

definition xbuttons_debug :: "bool \<Rightarrow> u16 \<Rightarrow> string" where
  "xbuttons_debug alternate raw =
     (if alternate then name_buttons [0..<16] raw False else ''XButtons(0x'' @ hex (unat raw) @ '')'')"

definition le16 :: "u16 \<Rightarrow> bytes" where "le16 w = rev (to_be_bytes16 w)"
definition le32 :: "u32 \<Rightarrow> bytes" where "le32 w = rev (to_be_bytes32 w)"

definition x_gamepad_bytes :: "x_gamepad \<Rightarrow> bytes" where
  "x_gamepad_bytes g = le16 (xg_buttons g) @ [xg_left_trigger g, xg_right_trigger g] @ le16 (xg_thumb_lx g) @ le16 (xg_thumb_ly g) @
     le16 (xg_thumb_rx g) @ le16 (xg_thumb_ry g)"

record ds4_report =
  dr_thumb_lx :: u8
  dr_thumb_ly :: u8
  dr_thumb_rx :: u8
  dr_thumb_ry :: u8
  dr_buttons :: u16
  dr_special :: u8
  dr_trigger_l :: u8
  dr_trigger_r :: u8

definition DS4Report_default :: ds4_report where
  "DS4Report_default = \<lparr>dr_thumb_lx = 0x80, dr_thumb_ly = 0x80, dr_thumb_rx = 0x80, dr_thumb_ry = 0x80, dr_buttons = 0x8,
     dr_special = 0, dr_trigger_l = 0, dr_trigger_r = 0\<rparr>"

text \<open>The last byte of the basic report is the padding its alignment asks for.\<close>

definition ds4_report_bytes :: "ds4_report \<Rightarrow> bytes" where
  "ds4_report_bytes r = [dr_thumb_lx r, dr_thumb_ly r, dr_thumb_rx r, dr_thumb_ry r] @ le16 (dr_buttons r) @
     [dr_special r, dr_trigger_l r, dr_trigger_r r, 0]"

record ds4_touch =
  dt_packet_counter :: u8
  dt_is_up_1 :: u8
  dt_data1 :: bytes
  dt_is_up_2 :: u8
  dt_data2 :: bytes

definition DS4Touch_new_unused :: ds4_touch where
  "DS4Touch_new_unused = \<lparr>dt_packet_counter = 0, dt_is_up_1 = 0x80, dt_data1 = [0, 0, 0], dt_is_up_2 = 0x80, dt_data2 = [0, 0, 0]\<rparr>"

definition ds4_touch_bytes :: "ds4_touch \<Rightarrow> bytes" where
  "ds4_touch_bytes t = [dt_packet_counter t, dt_is_up_1 t] @ dt_data1 t @ [dt_is_up_2 t] @ dt_data2 t"

record ds4_report_ex = ds4_report +
  dx_timestamp :: u16
  dx_battery_lvl :: u8
  dx_motion :: "i16 list"
  dx_unknown1 :: bytes
  dx_battery_special :: u8
  dx_unknown2 :: bytes
  dx_touch_packets_n :: u8
  dx_current_touch :: ds4_touch
  dx_previous_touch :: "ds4_touch list"
  dx_pad :: bytes

definition DS4ReportEx_default :: ds4_report_ex where
  "DS4ReportEx_default = \<lparr>dr_thumb_lx = 0x80, dr_thumb_ly = 0x80, dr_thumb_rx = 0x80, dr_thumb_ry = 0x80, dr_buttons = 0x8,
     dr_special = 0, dr_trigger_l = 0, dr_trigger_r = 0, dx_timestamp = 0, dx_battery_lvl = 0xFF, dx_motion = replicate 6 0,
     dx_unknown1 = replicate 5 0, dx_battery_special = 0x1A, dx_unknown2 = replicate 2 0, dx_touch_packets_n = 1,
     dx_current_touch = DS4Touch_new_unused, dx_previous_touch = [DS4Touch_new_unused, DS4Touch_new_unused],
     dx_pad = replicate 3 0\<rparr>"

definition ds4_report_ex_bytes :: "ds4_report_ex \<Rightarrow> bytes" where
  "ds4_report_ex_bytes r = [dr_thumb_lx r, dr_thumb_ly r, dr_thumb_rx r, dr_thumb_ry r] @ le16 (dr_buttons r) @
     [dr_special r, dr_trigger_l r, dr_trigger_r r] @ le16 (dx_timestamp r) @ [dx_battery_lvl r] @ concat (map le16 (dx_motion r)) @
     dx_unknown1 r @ [dx_battery_special r] @ dx_unknown2 r @ [dx_touch_packets_n r] @ ds4_touch_bytes (dx_current_touch r) @
     concat (map ds4_touch_bytes (dx_previous_touch r)) @ dx_pad r"

subsection \<open>Control buffers\<close>

definition IOCTL_PLUGIN_TARGET :: u32 where "IOCTL_PLUGIN_TARGET = 0x2AA004"
definition IOCTL_UNPLUG_TARGET :: u32 where "IOCTL_UNPLUG_TARGET = 0x2AA008"
definition IOCTL_CHECK_VERSION :: u32 where "IOCTL_CHECK_VERSION = 0x2AA00C"
definition IOCTL_WAIT_DEVICE_READY :: u32 where "IOCTL_WAIT_DEVICE_READY = 0x2AA010"
definition IOCTL_XUSB_SUBMIT_REPORT :: u32 where "IOCTL_XUSB_SUBMIT_REPORT = 0x2AA808"
definition IOCTL_DS4_SUBMIT_REPORT :: u32 where "IOCTL_DS4_SUBMIT_REPORT = 0x2AA80C"
definition IOCTL_DS4_REQUEST_NOTIFICATION :: u32 where "IOCTL_DS4_REQUEST_NOTIFICATION = 0x2AA810"
definition IOCTL_XUSB_GET_USER_INDEX :: u32 where "IOCTL_XUSB_GET_USER_INDEX = 0x2AE81C"

lemmas ioctl_defs = IOCTL_PLUGIN_TARGET_def IOCTL_UNPLUG_TARGET_def IOCTL_CHECK_VERSION_def IOCTL_WAIT_DEVICE_READY_def
  IOCTL_XUSB_SUBMIT_REPORT_def IOCTL_DS4_SUBMIT_REPORT_def IOCTL_DS4_REQUEST_NOTIFICATION_def IOCTL_XUSB_GET_USER_INDEX_def

definition TARGET_TYPE_XBOX360_WIRED :: u32 where "TARGET_TYPE_XBOX360_WIRED = 0"
definition TARGET_TYPE_DUALSHOCK4_WIRED :: u32 where "TARGET_TYPE_DUALSHOCK4_WIRED = 2"

record target_id =
  ti_vendor :: u16
  ti_product :: u16

definition XBOX360_WIRED :: target_id where "XBOX360_WIRED = \<lparr>ti_vendor = 0x045E, ti_product = 0x028E\<rparr>"
definition DUALSHOCK4_WIRED :: target_id where "DUALSHOCK4_WIRED = \<lparr>ti_vendor = 0x054C, ti_product = 0x05C4\<rparr>"

definition CheckVersion_common :: bytes where
  "CheckVersion_common = le32 8 @ le32 1"

definition PluginTarget_new :: "u32 \<Rightarrow> u32 \<Rightarrow> target_id \<Rightarrow> bytes" where
  "PluginTarget_new serial ty i = le32 16 @ le32 serial @ le32 ty @ le16 (ti_vendor i) @ le16 (ti_product i)"

definition WaitDeviceReady_new :: "u32 \<Rightarrow> bytes" where
  "WaitDeviceReady_new serial = le32 8 @ le32 serial"

definition UnplugTarget_new :: "u32 \<Rightarrow> bytes" where
  "UnplugTarget_new serial = le32 8 @ le32 serial"

definition XUsbSubmitReport_new :: "u32 \<Rightarrow> x_gamepad \<Rightarrow> bytes" where
  "XUsbSubmitReport_new serial g = le32 20 @ le32 serial @ x_gamepad_bytes g"

definition DS4SubmitReport_new :: "u32 \<Rightarrow> ds4_report \<Rightarrow> bytes" where
  "DS4SubmitReport_new serial r = le32 20 @ le32 serial @ ds4_report_bytes r @ [0, 0]"

definition DS4SubmitReportEx_new :: "u32 \<Rightarrow> ds4_report_ex \<Rightarrow> bytes" where
  "DS4SubmitReportEx_new serial r = le32 71 @ le32 serial @ ds4_report_ex_bytes r"

definition Ds4AwaitNotification_new :: "u32 \<Rightarrow> bytes" where
  "Ds4AwaitNotification_new serial = le32 16 @ le32 serial @ replicate 8 0"

definition XUsbGetUserIndex_new :: "u32 \<Rightarrow> bytes" where
  "XUsbGetUserIndex_new serial = le32 12 @ le32 serial @ le32 0"

subsection \<open>The bus service\<close>

datatype vigem_error =
    WinError u32 | BusNotFound | BusAccessFailed u32 | BusVersionMismatch | NoFreeSlot | AlreadyConnected | NotPluggedIn
  | TargetNotReady | UserIndexOutOfRange | OperationAborted

fun vigem_error_display :: "(u32 \<Rightarrow> string) \<Rightarrow> vigem_error \<Rightarrow> string" where
  "vigem_error_display d (WinError e) = ''win error: '' @ d e"
| "vigem_error_display d BusNotFound = ''bus not found''"
| "vigem_error_display d (BusAccessFailed e) = ''bus access failed: '' @ d e"
| "vigem_error_display d BusVersionMismatch = ''bus version mismatch''"
| "vigem_error_display d NoFreeSlot = ''no free slot''"
| "vigem_error_display d AlreadyConnected = ''already connected''"
| "vigem_error_display d NotPluggedIn = ''not plugged in''"
| "vigem_error_display d TargetNotReady = ''target not ready''"
| "vigem_error_display d UserIndexOutOfRange = ''user index out of range''"
| "vigem_error_display d OperationAborted = ''operation aborted''"

text \<open>
  Handles are numbers. \<^verbatim>\<open>dv_interfaces\<close> lists the device interfaces, each with an error or its path;
  \<^verbatim>\<open>dv_ioctl\<close> gets the handle, the control code and the buffer, and returns an error or the buffer as the driver
  leaves it. \<^verbatim>\<open>dv_plugged\<close> and \<^verbatim>\<open>dv_handles\<close> are observed by the hypotheses only.
\<close>

record ('p, 'w) driver =
  dv_interfaces :: "'w \<Rightarrow> u32 + (u32 + 'p) list"
  dv_open :: "'p \<Rightarrow> 'w \<Rightarrow> (u32 + nat) \<times> 'w"
  dv_close :: "nat \<Rightarrow> 'w \<Rightarrow> 'w"
  dv_duplicate :: "nat \<Rightarrow> 'w \<Rightarrow> (u32 + nat) \<times> 'w"
  dv_ioctl :: "nat \<Rightarrow> u32 \<Rightarrow> bytes \<Rightarrow> 'w \<Rightarrow> (u32 + bytes) \<times> 'w"
  dv_plugged :: "'w \<Rightarrow> u32 set"
  dv_handles :: "'w \<Rightarrow> nat set"

fun connect_loop :: "('p, 'w) driver \<Rightarrow> (u32 + 'p) list \<Rightarrow> vigem_error \<Rightarrow> 'w \<Rightarrow> (vigem_error + nat) \<times> 'w" where
  "connect_loop dv [] err w = (Inl err, w)"
| "connect_loop dv (Inl e # is) err w = connect_loop dv is (WinError e) w"
| "connect_loop dv (Inr path # is) err w =
     (case dv_open dv path w of
        (Inl e, w1) \<Rightarrow> connect_loop dv is (BusAccessFailed e) w1
      | (Inr device, w1) \<Rightarrow>
          (case dv_ioctl dv device IOCTL_CHECK_VERSION CheckVersion_common w1 of
             (Inr _, w2) \<Rightarrow> (Inr device, w2)
           | (Inl _, w2) \<Rightarrow> connect_loop dv is BusVersionMismatch (dv_close dv device w2)))"

definition Client_connect :: "('p, 'w) driver \<Rightarrow> 'w \<Rightarrow> (vigem_error + nat) \<times> 'w" where
  "Client_connect dv w =
     (case dv_interfaces dv w of Inl e \<Rightarrow> (Inl (WinError e), w) | Inr is \<Rightarrow> connect_loop dv is BusNotFound w)"

definition Client_try_clone :: "('p, 'w) driver \<Rightarrow> nat \<Rightarrow> 'w \<Rightarrow> (vigem_error + nat) \<times> 'w" where
  "Client_try_clone dv device w =
     (case dv_duplicate dv device w of (Inl e, w') \<Rightarrow> (Inl (WinError e), w') | (Inr d, w') \<Rightarrow> (Inr d, w'))"

subsection \<open>Targets\<close>

text \<open>
  The Xbox 360 and the DualShock 4 target have the same fields and the same life cycle; the type field tells them
  apart where the code names the type.
\<close>

record target =
  tg_device :: nat
  tg_serial_no :: u32
  tg_id :: target_id

definition target_new :: "nat \<Rightarrow> target_id \<Rightarrow> target" where
  "target_new device i = \<lparr>tg_device = device, tg_serial_no = 0, tg_id = i\<rparr>"

definition is_attached :: "target \<Rightarrow> bool" where
  "is_attached t \<longleftrightarrow> tg_serial_no t \<noteq> 0"

text \<open>The search for a free serial number; it ends because the number grows to \<^verbatim>\<open>u16::MAX\<close>.\<close>

function plugin_from :: "('p, 'w) driver \<Rightarrow> nat \<Rightarrow> u32 \<Rightarrow> target_id \<Rightarrow> nat \<Rightarrow> 'w \<Rightarrow> (vigem_error + u32) \<times> 'w" where
  "plugin_from dv device ty i serial w =
     (case dv_ioctl dv device IOCTL_PLUGIN_TARGET (PluginTarget_new (of_nat serial) ty i) w of
        (Inr _, w') \<Rightarrow> (Inr (of_nat serial), w')
      | (Inl _, w') \<Rightarrow> if 65535 \<le> serial + 1 then (Inl NoFreeSlot, w') else plugin_from dv device ty i (serial + 1) w')"
  by pat_completeness auto
termination by (relation "measure (\<lambda>(_, _, _, _, serial, _). 65535 - serial)") auto

declare plugin_from.simps [simp del]

definition target_plugin :: "u32 \<Rightarrow> ('p, 'w) driver \<Rightarrow> target \<Rightarrow> 'w \<Rightarrow> (vigem_error + unit) \<times> target \<times> 'w" where
  "target_plugin ty dv t w =
     (if is_attached t then (Inl AlreadyConnected, t, w)
      else case plugin_from dv (tg_device t) ty (tg_id t) 1 w of
        (Inl e, w') \<Rightarrow> (Inl e, t, w')
      | (Inr serial, w') \<Rightarrow> (Inr (), t\<lparr>tg_serial_no := serial\<rparr>, w'))"

definition Xbox360Wired_plugin :: "('p, 'w) driver \<Rightarrow> target \<Rightarrow> 'w \<Rightarrow> (vigem_error + unit) \<times> target \<times> 'w" where
  "Xbox360Wired_plugin = target_plugin TARGET_TYPE_XBOX360_WIRED"

definition DualShock4Wired_plugin :: "('p, 'w) driver \<Rightarrow> target \<Rightarrow> 'w \<Rightarrow> (vigem_error + unit) \<times> target \<times> 'w" where
  "DualShock4Wired_plugin = target_plugin TARGET_TYPE_DUALSHOCK4_WIRED"

definition target_unplug :: "('p, 'w) driver \<Rightarrow> target \<Rightarrow> 'w \<Rightarrow> (vigem_error + unit) \<times> target \<times> 'w" where
  "target_unplug dv t w =
     (if \<not> is_attached t then (Inl NotPluggedIn, t, w)
      else case dv_ioctl dv (tg_device t) IOCTL_UNPLUG_TARGET (UnplugTarget_new (tg_serial_no t)) w of
        (Inl e, w') \<Rightarrow> (Inl (WinError e), t, w')
      | (Inr _, w') \<Rightarrow> (Inr (), t\<lparr>tg_serial_no := 0\<rparr>, w'))"

definition DualShock4Wired_unplug :: "('p, 'w) driver \<Rightarrow> target \<Rightarrow> 'w \<Rightarrow> (vigem_error + unit) \<times> target \<times> 'w" where
  "DualShock4Wired_unplug = target_unplug"

definition ERROR_INVALID_PARAMETER :: u32 where "ERROR_INVALID_PARAMETER = 87"
definition ERROR_DEV_NOT_EXIST :: u32 where "ERROR_DEV_NOT_EXIST = 55"
definition ERROR_INVALID_DEVICE_OBJECT_PARAMETER :: u32 where "ERROR_INVALID_DEVICE_OBJECT_PARAMETER = 650"

definition target_wait_ready :: "('p, 'w) driver \<Rightarrow> target \<Rightarrow> 'w \<Rightarrow> (vigem_error + unit) \<times> 'w" where
  "target_wait_ready dv t w =
     (if \<not> is_attached t then (Inl NotPluggedIn, w)
      else case dv_ioctl dv (tg_device t) IOCTL_WAIT_DEVICE_READY (WaitDeviceReady_new (tg_serial_no t)) w of
        (Inl e, w') \<Rightarrow> (if e \<noteq> ERROR_INVALID_PARAMETER then Inl (WinError e) else Inr (), w')
      | (Inr _, w') \<Rightarrow> (Inr (), w'))"

definition DualShock4Wired_wait_ready :: "('p, 'w) driver \<Rightarrow> target \<Rightarrow> 'w \<Rightarrow> (vigem_error + unit) \<times> 'w" where
  "DualShock4Wired_wait_ready = target_wait_ready"

definition get_user_index :: "('p, 'w) driver \<Rightarrow> target \<Rightarrow> 'w \<Rightarrow> (vigem_error + u32) \<times> 'w" where
  "get_user_index dv t w =
     (if \<not> is_attached t then (Inl NotPluggedIn, w)
      else case dv_ioctl dv (tg_device t) IOCTL_XUSB_GET_USER_INDEX (XUsbGetUserIndex_new (tg_serial_no t)) w of
        (Inl e, w') \<Rightarrow> (if e = ERROR_INVALID_DEVICE_OBJECT_PARAMETER then Inl UserIndexOutOfRange else Inl (WinError e), w')
      | (Inr buf, w') \<Rightarrow> (Inr (from_be_bytes32 (buf ! 11) (buf ! 10) (buf ! 9) (buf ! 8)), w'))"

definition Xbox360Wired_update :: "('p, 'w) driver \<Rightarrow> target \<Rightarrow> x_gamepad \<Rightarrow> 'w \<Rightarrow> (vigem_error + unit) \<times> 'w" where
  "Xbox360Wired_update dv t g w =
     (if \<not> is_attached t then (Inl NotPluggedIn, w)
      else case dv_ioctl dv (tg_device t) IOCTL_XUSB_SUBMIT_REPORT (XUsbSubmitReport_new (tg_serial_no t) g) w of
        (Inl e, w') \<Rightarrow> (if e = ERROR_DEV_NOT_EXIST then Inl TargetNotReady else Inl (WinError e), w')
      | (Inr _, w') \<Rightarrow> (Inr (), w'))"

definition DualShock4Wired_update :: "('p, 'w) driver \<Rightarrow> target \<Rightarrow> ds4_report \<Rightarrow> 'w \<Rightarrow> (vigem_error + unit) \<times> 'w" where
  "DualShock4Wired_update dv t r w =
     (if \<not> is_attached t then (Inl NotPluggedIn, w)
      else case dv_ioctl dv (tg_device t) IOCTL_DS4_SUBMIT_REPORT (DS4SubmitReport_new (tg_serial_no t) r) w of
        (Inl e, w') \<Rightarrow> (Inl (WinError e), w')
      | (Inr _, w') \<Rightarrow> (Inr (), w'))"

definition DualShock4Wired_update_ex :: "('p, 'w) driver \<Rightarrow> target \<Rightarrow> ds4_report_ex \<Rightarrow> 'w \<Rightarrow> (vigem_error + unit) \<times> 'w" where
  "DualShock4Wired_update_ex dv t r w =
     (if \<not> is_attached t then (Inl NotPluggedIn, w)
      else case dv_ioctl dv (tg_device t) IOCTL_DS4_SUBMIT_REPORT (DS4SubmitReportEx_new (tg_serial_no t) r) w of
        (Inl e, w') \<Rightarrow> (Inl (WinError e), w')
      | (Inr _, w') \<Rightarrow> (Inr (), w'))"

text \<open>Dropping a target unplugs it, then its client closes the device.\<close>

definition target_drop :: "('p, 'w) driver \<Rightarrow> target \<Rightarrow> 'w \<Rightarrow> 'w" where
  "target_drop dv t w = (let (_, t', w') = target_unplug dv t w in dv_close dv (tg_device t') w')"

text \<open>The method \<^verbatim>\<open>drop\<close> unplugs and hands the client back instead.\<close>

definition target_into_client :: "('p, 'w) driver \<Rightarrow> target \<Rightarrow> 'w \<Rightarrow> nat \<times> 'w" where
  "target_into_client dv t w = (let (_, t', w') = target_unplug dv t w in (tg_device t', w'))"

record ds4_notifier =
  dn_device :: nat
  dn_serial_no :: u32

record ds4_notification =
  nf_large_motor :: u8
  nf_small_motor :: u8
  nf_lightbar :: bytes

definition target_notifier :: "target \<Rightarrow> ds4_notifier" where
  "target_notifier t = \<lparr>dn_device = tg_device t, dn_serial_no = tg_serial_no t\<rparr>"

definition await_notification :: "('p, 'w) driver \<Rightarrow> ds4_notifier \<Rightarrow> 'w \<Rightarrow> (vigem_error + ds4_notification) \<times> 'w" where
  "await_notification dv n w =
     (if dn_serial_no n = 0 then (Inl NotPluggedIn, w)
      else case dv_ioctl dv (dn_device n) IOCTL_DS4_REQUEST_NOTIFICATION (Ds4AwaitNotification_new (dn_serial_no n)) w of
        (Inl e, w') \<Rightarrow> (Inl (WinError e), w')
      | (Inr buf, w') \<Rightarrow> (Inr \<lparr>nf_large_motor = buf ! 9, nf_small_motor = buf ! 8, nf_lightbar = [buf ! 10, buf ! 11, buf ! 12]\<rparr>, w'))"

subsection \<open>The virtual gamepad\<close>

datatype pad_backend = BackXbox360 target | BackDs4 target

record vigem_gamepad =
  vg_kind :: gamepad_kind
  vg_backend :: pad_backend
  vg_ds4_ts :: u16
  vg_ds4_last :: "nat option"

definition ViGEmGamepad_new_target ::
  "('p, 'w) driver \<Rightarrow> gamepad_kind \<Rightarrow> resolved_target \<Rightarrow> 'w \<Rightarrow> (vigem_error + vigem_gamepad) \<times> 'w" where
  "ViGEmGamepad_new_target dv kind resolved w =
     (case Client_connect dv w of
        (Inl e, w1) \<Rightarrow> (Inl e, w1)
      | (Inr client, w1) \<Rightarrow>
          let (plug, t0, wrap) =
                (case resolved of
                   ResXbox360 \<Rightarrow> (Xbox360Wired_plugin dv, target_new client XBOX360_WIRED, BackXbox360)
                 | ResDs4 \<Rightarrow> (DualShock4Wired_plugin dv, target_new client DUALSHOCK4_WIRED, BackDs4));
              (p, t, w2) = plug t0 w1
          in case p of
               Inl e \<Rightarrow> (Inl e, target_drop dv t w2)
             | Inr _ \<Rightarrow>
                 (case target_wait_ready dv t w2 of
                    (Inl e, w3) \<Rightarrow> (Inl e, target_drop dv t w3)
                  | (Inr _, w3) \<Rightarrow> (Inr \<lparr>vg_kind = kind, vg_backend = wrap t, vg_ds4_ts = 0, vg_ds4_last = None\<rparr>, w3)))"

definition ViGEmGamepad_new :: "('p, 'w) driver \<Rightarrow> gamepad_kind \<Rightarrow> 'w \<Rightarrow> (vigem_error + vigem_gamepad) \<times> 'w" where
  "ViGEmGamepad_new dv kind w = ViGEmGamepad_new_target dv kind ResXbox360 w"

definition xbox_report :: "gamepad_state \<Rightarrow> x_gamepad" where
  "xbox_report st = \<lparr>xg_buttons = xinput_buttons st, xg_left_trigger = left_trigger st, xg_right_trigger = right_trigger st,
     xg_thumb_lx = left_x st, xg_thumb_ly = left_y st, xg_thumb_rx = right_x st, xg_thumb_ry = right_y st\<rparr>"

definition ds4_legacy_report :: "gamepad_state \<Rightarrow> ds4_report" where
  "ds4_legacy_report st =
     (let (btns, special, lx, ly, rx, ry) = ds4_report_fields st
      in \<lparr>dr_thumb_lx = lx, dr_thumb_ly = ly, dr_thumb_rx = rx, dr_thumb_ry = ry, dr_buttons = btns, dr_special = special,
          dr_trigger_l = left_trigger st, dr_trigger_r = right_trigger st\<rparr>)"

definition ds4_extended_report :: "gamepad_state \<Rightarrow> u16 \<Rightarrow> ds4_report_ex" where
  "ds4_extended_report st ts =
     (let (btns, special, lx, ly, rx, ry) = ds4_report_fields st
      in DS4ReportEx_default\<lparr>dr_thumb_lx := lx, dr_thumb_ly := ly, dr_thumb_rx := rx, dr_thumb_ry := ry, dr_buttons := btns,
           dr_special := special, dr_trigger_l := left_trigger st, dr_trigger_r := right_trigger st, dx_timestamp := ts\<rparr>)"

text \<open>Instants are nanoseconds; \<^verbatim>\<open>duration_since\<close> saturates at zero.\<close>

definition advance_ts :: "nat \<Rightarrow> vigem_gamepad \<Rightarrow> vigem_gamepad" where
  "advance_ts now g =
     (let delta_ns = (case vg_ds4_last g of Some t \<Rightarrow> now - t | None \<Rightarrow> 0)
      in g\<lparr>vg_ds4_ts := vg_ds4_ts g + of_nat (delta_ns div 5333), vg_ds4_last := Some now\<rparr>)"

definition ViGEmGamepad_apply :: "('p, 'w) driver \<Rightarrow> nat \<Rightarrow> gamepad_state \<Rightarrow> vigem_gamepad \<Rightarrow> 'w \<Rightarrow> vigem_gamepad \<times> 'w" where
  "ViGEmGamepad_apply dv now st g w =
     (let g' = advance_ts now g in
      case vg_backend g' of
        BackXbox360 t \<Rightarrow> (g', snd (Xbox360Wired_update dv t (xbox_report st) w))
      | BackDs4 t \<Rightarrow>
          (case DualShock4Wired_update_ex dv t (ds4_extended_report st (vg_ds4_ts g')) w of
             (Inr _, w') \<Rightarrow> (g', w')
           | (Inl _, w') \<Rightarrow> (g', snd (DualShock4Wired_update dv t (ds4_legacy_report st) w'))))"

definition rumble_reader :: "vigem_gamepad \<Rightarrow> ds4_notifier option" where
  "rumble_reader g = (case vg_backend g of BackDs4 t \<Rightarrow> Some (target_notifier t) | BackXbox360 _ \<Rightarrow> None)"

definition Ds4Rumble_next :: "('p, 'w) driver \<Rightarrow> ds4_notifier \<Rightarrow> 'w \<Rightarrow> (u8 \<times> u8) option \<times> 'w" where
  "Ds4Rumble_next dv n w =
     (case await_notification dv n w of
        (Inr x, w') \<Rightarrow> (Some (nf_large_motor x, nf_small_motor x), w')
      | (Inl _, w') \<Rightarrow> (None, w'))"

fun backend_target :: "pad_backend \<Rightarrow> target" where
  "backend_target (BackXbox360 t) = t"
| "backend_target (BackDs4 t) = t"

definition ViGEmGamepad_drop :: "('p, 'w) driver \<Rightarrow> vigem_gamepad \<Rightarrow> 'w \<Rightarrow> 'w" where
  "ViGEmGamepad_drop dv g w = target_drop dv (backend_target (vg_backend g)) w"

subsection \<open>The pad of the host\<close>

datatype pad_platform = PadLinux | PadWindows | PadOther

datatype virtual_pad = UinputPad uinput_gamepad | ViGEmPad vigem_gamepad | RecordPad recording_pad

definition create_virtual_pad_target ::
  "pad_platform \<Rightarrow> (vdev_spec \<Rightarrow> 'x option) \<Rightarrow> ('p, 'w) driver \<Rightarrow> gamepad_kind \<Rightarrow> emulation_target \<Rightarrow> 'w \<Rightarrow> virtual_pad \<times> 'w" where
  "create_virtual_pad_target platform build dv kind tg w =
     (let resolved = resolve_target tg kind; recording = RecordPad (RecordingPad_new kind) in
      case platform of
        PadLinux \<Rightarrow> (case UinputGamepad_new_target build kind resolved of Inr p \<Rightarrow> (UinputPad p, w) | Inl _ \<Rightarrow> (recording, w))
      | PadWindows \<Rightarrow> (case ViGEmGamepad_new_target dv kind resolved w of (Inr p, w') \<Rightarrow> (ViGEmPad p, w') | (Inl _, w') \<Rightarrow> (recording, w'))
      | PadOther \<Rightarrow> (recording, w))"

definition create_virtual_pad ::
  "pad_platform \<Rightarrow> (vdev_spec \<Rightarrow> 'x option) \<Rightarrow> ('p, 'w) driver \<Rightarrow> gamepad_kind \<Rightarrow> 'w \<Rightarrow> virtual_pad \<times> 'w" where
  "create_virtual_pad platform build dv kind w = create_virtual_pad_target platform build dv kind EmAuto w"

definition pad_kind :: "virtual_pad \<Rightarrow> gamepad_kind" where
  "pad_kind p = (case p of UinputPad u \<Rightarrow> ug_kind u | ViGEmPad g \<Rightarrow> vg_kind g | RecordPad r \<Rightarrow> RecordingPad_kind r)"

subsection \<open>Layout\<close>

definition size_field :: "bytes \<Rightarrow> u32" where
  "size_field b = from_be_bytes32 (b ! 3) (b ! 2) (b ! 1) (b ! 0)"

definition serial_field :: "bytes \<Rightarrow> u32" where
  "serial_field b = from_be_bytes32 (b ! 7) (b ! 6) (b ! 5) (b ! 4)"

lemma length_le [simp]: "length (le16 v) = 2" "length (le32 w) = 4"
  by (simp_all add: le16_def le32_def)

lemma le32_read: "from_be_bytes32 (le32 w ! 3) (le32 w ! 2) (le32 w ! 1) (le32 w ! 0) = w"
proof -
  have "from_be_bytes32 (to_be_bytes32 w ! 0) (to_be_bytes32 w ! 1) (to_be_bytes32 w ! 2) (to_be_bytes32 w ! 3) = w"
    by (simp add: to_be_bytes32_def from_to_be_bytes32)
  then show ?thesis by (simp add: le32_def rev_nth)
qed

lemma header_fields [simp]:
  "size_field (le32 n @ r) = n" "serial_field (le32 n @ le32 w @ r) = w"
  using le32_read [of n] le32_read [of w] by (simp_all add: size_field_def serial_field_def nth_append)

lemma serial_at_end [simp]: "serial_field (le32 n @ le32 w) = w"
  using header_fields(2) [of n w "[]"] by (simp only: append_Nil2)

subsection \<open>The life of a virtual pad\<close>

text \<open>
  What is relied on: opening gives a new handle, closing gives it up, control calls open or close none; plugging in succeeds
  only at a free serial number and takes it, unplugging one that is plugged in frees it, a failed call and
  every other call changes nothing.
\<close>

definition driver_ok :: "('p, 'w) driver \<Rightarrow> bool" where
  "driver_ok dv \<longleftrightarrow>
     (\<forall>p w. case dv_open dv p w of
        (Inl _, w') \<Rightarrow> dv_handles dv w' = dv_handles dv w \<and> dv_plugged dv w' = dv_plugged dv w
      | (Inr d, w') \<Rightarrow> d \<notin> dv_handles dv w \<and> dv_handles dv w' = insert d (dv_handles dv w) \<and> dv_plugged dv w' = dv_plugged dv w) \<and>
     (\<forall>d w. dv_handles dv (dv_close dv d w) = dv_handles dv w - {d} \<and> dv_plugged dv (dv_close dv d w) = dv_plugged dv w) \<and>
     (\<forall>d c b w. dv_handles dv (snd (dv_ioctl dv d c b w)) = dv_handles dv w) \<and>
     (\<forall>d c b w. c \<noteq> IOCTL_PLUGIN_TARGET \<and> c \<noteq> IOCTL_UNPLUG_TARGET \<longrightarrow> dv_plugged dv (snd (dv_ioctl dv d c b w)) = dv_plugged dv w) \<and>
     (\<forall>d s ty i w. d \<in> dv_handles dv w \<longrightarrow>
        (case dv_ioctl dv d IOCTL_PLUGIN_TARGET (PluginTarget_new s ty i) w of
           (Inr _, w') \<Rightarrow> s \<notin> dv_plugged dv w \<and> dv_plugged dv w' = insert s (dv_plugged dv w)
         | (Inl _, w') \<Rightarrow> dv_plugged dv w' = dv_plugged dv w)) \<and>
     (\<forall>d s w. d \<in> dv_handles dv w \<and> s \<in> dv_plugged dv w \<longrightarrow>
        (\<exists>b w'. dv_ioctl dv d IOCTL_UNPLUG_TARGET (UnplugTarget_new s) w = (Inr b, w') \<and> dv_plugged dv w' = dv_plugged dv w - {s}))"

lemma open_err:
  assumes dv: "driver_ok dv"
  shows "dv_open dv p w = (Inl e, w') \<Longrightarrow> dv_handles dv w' = dv_handles dv w \<and> dv_plugged dv w' = dv_plugged dv w"
  using dv [unfolded driver_ok_def, THEN conjunct1, rule_format, of w p] by simp

lemma open_ok:
  assumes dv: "driver_ok dv"
  shows "dv_open dv p w = (Inr d, w') \<Longrightarrow>
    d \<notin> dv_handles dv w \<and> dv_handles dv w' = insert d (dv_handles dv w) \<and> dv_plugged dv w' = dv_plugged dv w"
  using dv [unfolded driver_ok_def, THEN conjunct1, rule_format, of w p] by simp

lemma close_eq:
  assumes dv: "driver_ok dv"
  shows "dv_handles dv (dv_close dv d w) = dv_handles dv w - {d}" "dv_plugged dv (dv_close dv d w) = dv_plugged dv w"
  using dv [unfolded driver_ok_def, THEN conjunct2, THEN conjunct1, rule_format, of d w] by simp_all

lemma ioctl_handles:
  assumes dv: "driver_ok dv"
  shows "dv_ioctl dv d c b w = (r, w') \<Longrightarrow> dv_handles dv w' = dv_handles dv w"
  using dv [unfolded driver_ok_def, THEN conjunct2, THEN conjunct2, THEN conjunct1, rule_format, of d c b w] by simp

lemma ioctl_plugged:
  assumes dv: "driver_ok dv"
  shows "dv_ioctl dv d c b w = (r, w') \<Longrightarrow> c \<noteq> IOCTL_PLUGIN_TARGET \<Longrightarrow> c \<noteq> IOCTL_UNPLUG_TARGET \<Longrightarrow> dv_plugged dv w' = dv_plugged dv w"
  using dv [unfolded driver_ok_def, THEN conjunct2, THEN conjunct2, THEN conjunct2, THEN conjunct1, rule_format, of c d b w] by simp

lemma plugin_err:
  assumes dv: "driver_ok dv"
  shows "dv_ioctl dv d IOCTL_PLUGIN_TARGET (PluginTarget_new s ty i) w = (Inl e, w') \<Longrightarrow> d \<in> dv_handles dv w \<Longrightarrow> dv_plugged dv w' = dv_plugged dv w"
  using dv [unfolded driver_ok_def, THEN conjunct2, THEN conjunct2, THEN conjunct2, THEN conjunct2, THEN conjunct1, rule_format, of d w s ty i]
  by simp

lemma plugin_ok:
  assumes dv: "driver_ok dv"
  shows "dv_ioctl dv d IOCTL_PLUGIN_TARGET (PluginTarget_new s ty i) w = (Inr b, w') \<Longrightarrow> d \<in> dv_handles dv w \<Longrightarrow>
    s \<notin> dv_plugged dv w \<and> dv_plugged dv w' = insert s (dv_plugged dv w)"
  using dv [unfolded driver_ok_def, THEN conjunct2, THEN conjunct2, THEN conjunct2, THEN conjunct2, THEN conjunct1, rule_format, of d w s ty i]
  by simp

lemma unplug_ok:
  assumes dv: "driver_ok dv"
  shows "d \<in> dv_handles dv w \<Longrightarrow> s \<in> dv_plugged dv w \<Longrightarrow>
    \<exists>b w'. dv_ioctl dv d IOCTL_UNPLUG_TARGET (UnplugTarget_new s) w = (Inr b, w') \<and> dv_plugged dv w' = dv_plugged dv w - {s}"
  using dv [unfolded driver_ok_def, THEN conjunct2, THEN conjunct2, THEN conjunct2, THEN conjunct2, THEN conjunct2, rule_format, of d w s] by blast

text \<open>Connecting leaves exactly the handle it returns open.\<close>

definition same_bus :: "('p, 'w) driver \<Rightarrow> 'w \<Rightarrow> 'w \<Rightarrow> bool" where
  "same_bus dv w w' \<longleftrightarrow> dv_handles dv w' = dv_handles dv w \<and> dv_plugged dv w' = dv_plugged dv w"

lemma same_bus_refl [simp]: "same_bus dv w w"
  by (simp add: same_bus_def)

lemma same_bus_trans [trans]: "same_bus dv w w1 \<Longrightarrow> same_bus dv w1 w2 \<Longrightarrow> same_bus dv w w2"
  by (simp add: same_bus_def)

lemma ioctl_same:
  assumes "driver_ok dv" "dv_ioctl dv d c b w = (r, w')" "c \<noteq> IOCTL_PLUGIN_TARGET" "c \<noteq> IOCTL_UNPLUG_TARGET"
  shows "same_bus dv w w'"
  using ioctl_handles [OF assms(1,2)] ioctl_plugged [OF assms] by (simp add: same_bus_def)

definition opened :: "('p, 'w) driver \<Rightarrow> 'w \<Rightarrow> vigem_error + nat \<Rightarrow> 'w \<Rightarrow> bool" where
  "opened dv w r w' \<longleftrightarrow> dv_plugged dv w' = dv_plugged dv w \<and>
     (case r of Inl _ \<Rightarrow> dv_handles dv w' = dv_handles dv w | Inr d \<Rightarrow> d \<notin> dv_handles dv w \<and> dv_handles dv w' = insert d (dv_handles dv w))"

lemma opened_same: "same_bus dv w w1 \<Longrightarrow> opened dv w1 r w' \<Longrightarrow> opened dv w r w'"
  by (auto simp: opened_def same_bus_def split: sum.splits)

lemma connect_loop_opened:
  assumes dv: "driver_ok dv"
  shows "connect_loop dv is err w = (r, w') \<Longrightarrow> opened dv w r w'"
proof (induction "is" arbitrary: err w)
  case Nil
  then show ?case by (auto simp: opened_def)
next
  case (Cons i "is")
  show ?case
  proof (cases i)
    case (Inl e)
    then show ?thesis using Cons by simp
  next
    case (Inr path)
    obtain q w1 where o: "dv_open dv path w = (q, w1)" by (cases "dv_open dv path w")
    show ?thesis
    proof (cases q)
      case (Inl e)
      then have "same_bus dv w w1" using open_err [OF dv] o by (simp add: same_bus_def)
      moreover have "opened dv w1 r w'" using Cons \<open>i = Inr path\<close> o Inl by simp
      ultimately show ?thesis by (rule opened_same)
    next
      case (Inr d)
      note d = open_ok [OF dv o [unfolded Inr]]
      obtain v w2 where v: "dv_ioctl dv d IOCTL_CHECK_VERSION CheckVersion_common w1 = (v, w2)"
        by (cases "dv_ioctl dv d IOCTL_CHECK_VERSION CheckVersion_common w1")
      have w2: "same_bus dv w1 w2" by (rule ioctl_same [OF dv v]) (simp_all add: ioctl_defs)
      show ?thesis
      proof (cases v)
        case (Inl e)
        have "same_bus dv w (dv_close dv d w2)" using d w2 close_eq [OF dv, of d w2] by (auto simp: same_bus_def)
        moreover have "opened dv (dv_close dv d w2) r w'" using Cons \<open>i = Inr path\<close> o \<open>q = Inr d\<close> v Inl by simp
        ultimately show ?thesis by (rule opened_same)
      next
        case (Inr b)
        then have "r = Inr d" "w' = w2" using Cons.prems \<open>i = Inr path\<close> o \<open>q = Inr d\<close> v by simp_all
        then show ?thesis using d w2 by (simp add: opened_def same_bus_def)
      qed
    qed
  qed
qed

lemma Client_connect_opened:
  "driver_ok dv \<Longrightarrow> Client_connect dv w = (r, w') \<Longrightarrow> opened dv w r w'"
  by (cases "dv_interfaces dv w") (auto simp: Client_connect_def intro: connect_loop_opened, simp add: opened_def)

lemma plugin_from_slot:
  assumes dv: "driver_ok dv" and n: "1 \<le> n" "n < 65535" and d: "d \<in> dv_handles dv w"
    and p: "plugin_from dv d ty i n w = (r, w')"
  shows "dv_handles dv w' = dv_handles dv w \<and>
    (case r of
       Inl e \<Rightarrow> e = NoFreeSlot \<and> dv_plugged dv w' = dv_plugged dv w
     | Inr s \<Rightarrow> n \<le> unat s \<and> unat s < 65535 \<and> s \<notin> dv_plugged dv w \<and> dv_plugged dv w' = insert s (dv_plugged dv w))"
  using n d p
proof (induction "65535 - n" arbitrary: n w rule: less_induct)
  case less
  obtain q w1 where q: "dv_ioctl dv d IOCTL_PLUGIN_TARGET (PluginTarget_new (of_nat n) ty i) w = (q, w1)"
    by (cases "dv_ioctl dv d IOCTL_PLUGIN_TARGET (PluginTarget_new (of_nat n) ty i) w")
  have u: "unat (of_nat n :: u32) = n" using less.prems(2) by (simp add: unat_of_nat)
  note h = ioctl_handles [OF dv q]
  show ?case
  proof (cases q)
    case (Inr b)
    then have "r = Inr (of_nat n)" "w' = w1" using less.prems(4) q by (simp_all add: plugin_from.simps [of dv d ty i n w])
    then show ?thesis using plugin_ok [OF dv q [unfolded Inr] less.prems(3)] h u less.prems(2) by simp
  next
    case (Inl e)
    note pl = plugin_err [OF dv q [unfolded Inl] less.prems(3)]
    show ?thesis
    proof (cases "65535 \<le> n + 1")
      case True
      then have "r = Inl NoFreeSlot" "w' = w1" using less.prems(4) q Inl by (simp_all add: plugin_from.simps [of dv d ty i n w])
      then show ?thesis using h pl by simp
    next
      case False
      then have p: "plugin_from dv d ty i (n + 1) w1 = (r, w')" using less.prems(4) q Inl by (simp add: plugin_from.simps [of dv d ty i n w])
      have "65535 - (n + 1) < 65535 - n" "1 \<le> n + 1" "n + 1 < 65535" "d \<in> dv_handles dv w1" using False less.prems(3) h by auto
      from less.hyps [OF this p] show ?thesis using h pl by (auto split: sum.splits)
    qed
  qed
qed

lemma target_plugin_cases:
  assumes "driver_ok dv" "tg_device t \<in> dv_handles dv w" "tg_serial_no t = 0" "target_plugin ty dv t w = (r, t', w')"
  shows "dv_handles dv w' = dv_handles dv w \<and> tg_device t' = tg_device t \<and>
    (case r of Inl _ \<Rightarrow> t' = t \<and> dv_plugged dv w' = dv_plugged dv w
     | Inr _ \<Rightarrow> 1 \<le> unat (tg_serial_no t') \<and> unat (tg_serial_no t') < 65535 \<and> tg_serial_no t' \<notin> dv_plugged dv w \<and>
         dv_plugged dv w' = insert (tg_serial_no t') (dv_plugged dv w))"
proof -
  obtain q w1 where q: "plugin_from dv (tg_device t) ty (tg_id t) 1 w = (q, w1)" by (cases "plugin_from dv (tg_device t) ty (tg_id t) 1 w")
  from plugin_from_slot [OF assms(1) _ _ assms(2) q] show ?thesis
    using assms(3,4) q by (auto simp: target_plugin_def is_attached_def split: sum.splits)
qed

lemma target_drop_cases:
  assumes dv: "driver_ok dv" and d: "tg_device t \<in> dv_handles dv w"
    and s: "tg_serial_no t = 0 \<or> tg_serial_no t \<in> dv_plugged dv w"
  shows "dv_handles dv (target_drop dv t w) = dv_handles dv w - {tg_device t} \<and>
    dv_plugged dv (target_drop dv t w) = (if tg_serial_no t = 0 then dv_plugged dv w else dv_plugged dv w - {tg_serial_no t})"
proof (cases "tg_serial_no t = 0")
  case True
  then show ?thesis using close_eq [OF dv] by (simp add: target_drop_def target_unplug_def is_attached_def)
next
  case False
  with s have "tg_serial_no t \<in> dv_plugged dv w" by simp
  from unplug_ok [OF dv d this] obtain b w' where
    u: "dv_ioctl dv (tg_device t) IOCTL_UNPLUG_TARGET (UnplugTarget_new (tg_serial_no t)) w = (Inr b, w')"
      "dv_plugged dv w' = dv_plugged dv w - {tg_serial_no t}" by blast
  show ?thesis using False u ioctl_handles [OF dv u(1)] close_eq [OF dv, of "tg_device t" w']
    by (simp add: target_drop_def target_unplug_def is_attached_def)
qed

lemma wait_ready_same:
  assumes "driver_ok dv" "target_wait_ready dv t w = (r, w')"
  shows "same_bus dv w w'"
proof (cases "dv_ioctl dv (tg_device t) IOCTL_WAIT_DEVICE_READY (WaitDeviceReady_new (tg_serial_no t)) w")
  case (Pair q w1)
  have "same_bus dv w w1" by (rule ioctl_same [OF assms(1) Pair]) (simp_all add: ioctl_defs)
  then show ?thesis using assms(2) Pair by (auto simp: target_wait_ready_def split: if_splits sum.splits)
qed

lemma update_same:
  assumes dv: "driver_ok dv"
  shows "same_bus dv w (snd (Xbox360Wired_update dv t g w))" "same_bus dv w (snd (DualShock4Wired_update dv t r w))"
    "same_bus dv w (snd (DualShock4Wired_update_ex dv t x w))"
proof -
  have io: "same_bus dv w (snd (dv_ioctl dv d c b w))" if "c \<in> {IOCTL_XUSB_SUBMIT_REPORT, IOCTL_DS4_SUBMIT_REPORT}" for d c b
    using that by (cases "dv_ioctl dv d c b w") (auto intro!: ioctl_same [OF dv] simp: ioctl_defs)
  show "same_bus dv w (snd (Xbox360Wired_update dv t g w))"
    using io [of IOCTL_XUSB_SUBMIT_REPORT "tg_device t"] by (auto simp: Xbox360Wired_update_def split: prod.split sum.split) (metis snd_conv)+
  show "same_bus dv w (snd (DualShock4Wired_update dv t r w))"
    using io [of IOCTL_DS4_SUBMIT_REPORT "tg_device t"] by (auto simp: DualShock4Wired_update_def split: prod.split sum.split) (metis snd_conv)+
  show "same_bus dv w (snd (DualShock4Wired_update_ex dv t x w))"
    using io [of IOCTL_DS4_SUBMIT_REPORT "tg_device t"] by (auto simp: DualShock4Wired_update_ex_def split: prod.split sum.split) (metis snd_conv)+
qed

definition pad_step :: "('p, 'w) driver \<Rightarrow> nat \<times> gamepad_state \<Rightarrow> vigem_gamepad \<times> 'w \<Rightarrow> vigem_gamepad \<times> 'w" where
  "pad_step dv f p = ViGEmGamepad_apply dv (fst f) (snd f) (fst p) (snd p)"

lemma pad_step_same:
  assumes dv: "driver_ok dv" and "pad_step dv f (g, w) = (g', w')"
  shows "same_bus dv w w' \<and> vg_backend g' = vg_backend g"
proof (cases "vg_backend g")
  case (BackXbox360 t)
  then show ?thesis using assms update_same(1) [OF dv]
    by (auto simp: pad_step_def ViGEmGamepad_apply_def advance_ts_def Let_def)
next
  case (BackDs4 t)
  let ?r = "ds4_extended_report (snd f) (vg_ds4_ts (advance_ts (fst f) g))"
  obtain q w1 where q: "DualShock4Wired_update_ex dv t ?r w = (q, w1)" by (cases "DualShock4Wired_update_ex dv t ?r w")
  have w1: "same_bus dv w w1" using update_same(3) [OF dv, of w t ?r] q by simp
  have b: "vg_backend (advance_ts (fst f) g) = vg_backend g" by (simp add: advance_ts_def Let_def)
  show ?thesis
    using assms(2) q w1 same_bus_trans [OF w1 update_same(2) [OF dv, of w1 t]] BackDs4 b
    by (auto simp: pad_step_def ViGEmGamepad_apply_def Let_def split: sum.splits)
qed

lemma pad_steps_same:
  assumes dv: "driver_ok dv"
  shows "fold (pad_step dv) fs (g, w) = (g', w') \<Longrightarrow> same_bus dv w w' \<and> vg_backend g' = vg_backend g"
proof (induction fs arbitrary: g w)
  case (Cons f fs)
  obtain g1 w1 where s: "pad_step dv f (g, w) = (g1, w1)" by (cases "pad_step dv f (g, w)")
  with Cons.prems have "fold (pad_step dv) fs (g1, w1) = (g', w')" by simp
  from Cons.IH [OF this] pad_step_same [OF dv s] show ?case by (auto simp: same_bus_def)
qed simp

definition own_target :: "resolved_target \<Rightarrow> vigem_gamepad \<Rightarrow> bool" where
  "own_target resolved g \<longleftrightarrow> (case vg_backend g of BackXbox360 t \<Rightarrow> resolved = ResXbox360 \<and> tg_id t = XBOX360_WIRED
     | BackDs4 t \<Rightarrow> resolved = ResDs4 \<and> tg_id t = DUALSHOCK4_WIRED)"

lemma new_target_split:
  assumes "ViGEmGamepad_new_target dv kind resolved w = (r, w')"
  obtains (no_bus) e where "Client_connect dv w = (Inl e, w')" "r = Inl e"
  | (bus) d w1 ty i wrap q t w2 where "Client_connect dv w = (Inr d, w1)"
      "(resolved, wrap, i) \<in> {(ResXbox360, BackXbox360, XBOX360_WIRED), (ResDs4, BackDs4, DUALSHOCK4_WIRED)}"
      "target_plugin ty dv (target_new d i) w1 = (q, t, w2)"
      "(r, w') = (case q of Inl e \<Rightarrow> (Inl e, target_drop dv t w2)
        | Inr _ \<Rightarrow> (case target_wait_ready dv t w2 of
            (Inl e, w3) \<Rightarrow> (Inl e, target_drop dv t w3)
          | (Inr _, w3) \<Rightarrow> (Inr \<lparr>vg_kind = kind, vg_backend = wrap t, vg_ds4_ts = 0, vg_ds4_last = None\<rparr>, w3)))"
proof (cases "Client_connect dv w")
  case (Pair c w1)
  show thesis
  proof (cases c)
    case (Inl e)
    then show thesis using assms Pair no_bus by (simp add: ViGEmGamepad_new_target_def)
  next
    case (Inr d)
    show thesis
    proof (cases resolved)
      case ResXbox360
      obtain q t w2 where "target_plugin TARGET_TYPE_XBOX360_WIRED dv (target_new d XBOX360_WIRED) w1 = (q, t, w2)"
        by (metis prod_cases3)
      then show thesis using assms Pair Inr ResXbox360
        by (intro bus [of d w1 BackXbox360 XBOX360_WIRED TARGET_TYPE_XBOX360_WIRED q t w2])
          (auto simp: ViGEmGamepad_new_target_def Xbox360Wired_plugin_def Let_def)
    next
      case ResDs4
      obtain q t w2 where "target_plugin TARGET_TYPE_DUALSHOCK4_WIRED dv (target_new d DUALSHOCK4_WIRED) w1 = (q, t, w2)"
        by (metis prod_cases3)
      then show thesis using assms Pair Inr ResDs4
        by (intro bus [of d w1 BackDs4 DUALSHOCK4_WIRED TARGET_TYPE_DUALSHOCK4_WIRED q t w2])
          (auto simp: ViGEmGamepad_new_target_def DualShock4Wired_plugin_def Let_def)
    qed
  qed
qed

definition pad_on_bus :: "('p, 'w) driver \<Rightarrow> 'w \<Rightarrow> target \<Rightarrow> 'w \<Rightarrow> bool" where
  "pad_on_bus dv w t w' \<longleftrightarrow>
     1 \<le> unat (tg_serial_no t) \<and> unat (tg_serial_no t) < 65535 \<and> tg_serial_no t \<notin> dv_plugged dv w \<and> tg_device t \<notin> dv_handles dv w \<and>
     dv_plugged dv w' = insert (tg_serial_no t) (dv_plugged dv w) \<and> dv_handles dv w' = insert (tg_device t) (dv_handles dv w)"

lemma pad_on_bus_same: "pad_on_bus dv w t w1 \<Longrightarrow> same_bus dv w1 w2 \<Longrightarrow> pad_on_bus dv w t w2"
  by (simp add: pad_on_bus_def same_bus_def)

lemma pad_on_bus_drop:
  assumes "driver_ok dv" "pad_on_bus dv w t w'"
  shows "same_bus dv w (target_drop dv t w')"
proof -
  have "tg_serial_no t \<noteq> 0" using assms(2) by (auto simp: pad_on_bus_def)
  then show ?thesis using target_drop_cases [OF assms(1), of t w'] assms(2) by (auto simp: pad_on_bus_def same_bus_def)
qed

lemma new_target_cases:
  assumes dv: "driver_ok dv" and n: "ViGEmGamepad_new_target dv kind resolved w = (r, w')"
  shows "case r of Inl _ \<Rightarrow> same_bus dv w w'
    | Inr g \<Rightarrow> pad_on_bus dv w (backend_target (vg_backend g)) w' \<and> vg_kind g = kind \<and> own_target resolved g"
  using n
proof (cases rule: new_target_split)
  case (no_bus e)
  then show ?thesis using Client_connect_opened [OF dv no_bus(1)] by (simp add: opened_def same_bus_def)
next
  case (bus d w1 ty i wrap q t w2)
  have c: "dv_plugged dv w1 = dv_plugged dv w" "d \<notin> dv_handles dv w" "dv_handles dv w1 = insert d (dv_handles dv w)"
    using Client_connect_opened [OF dv bus(1)] by (simp_all add: opened_def)
  note p = target_plugin_cases [OF dv _ _ bus(3), unfolded target_new_def, simplified]
  have id: "tg_id t = i" using bus(3) by (auto simp: target_plugin_def target_new_def split: if_splits prod.splits sum.splits)
  show ?thesis
  proof (cases q)
    case (Inl e)
    have "t = target_new d i" "dv_plugged dv w2 = dv_plugged dv w" "dv_handles dv w2 = insert d (dv_handles dv w)"
      using p c Inl by (auto simp: target_new_def)
    then have "same_bus dv w (target_drop dv t w2)"
      using target_drop_cases [OF dv, of t w2] c by (auto simp: target_new_def same_bus_def)
    then show ?thesis using bus(4) Inl by simp
  next
    case (Inr u)
    have on: "pad_on_bus dv w t w2" using p c Inr by (auto simp: pad_on_bus_def target_new_def)
    obtain v w3 where v: "target_wait_ready dv t w2 = (v, w3)" by (cases "target_wait_ready dv t w2")
    have on3: "pad_on_bus dv w t w3" by (rule pad_on_bus_same [OF on wait_ready_same [OF dv v]])
    show ?thesis
    proof (cases v)
      case (Inl e)
      then show ?thesis using bus(4) Inr v pad_on_bus_drop [OF dv on3] by simp
    next
      case (Inr x)
      then have "r = Inr \<lparr>vg_kind = kind, vg_backend = wrap t, vg_ds4_ts = 0, vg_ds4_last = None\<rparr>" "w' = w3"
        using bus(4) \<open>q = Inr u\<close> v by simp_all
      then show ?thesis using on3 bus(2) id by (auto simp: own_target_def)
    qed
  qed
qed

subsection \<open>Properties\<close>

text \<open>
  C36: a virtual pad leaves the bus as it found it. A pad that could not be created (no bus, no free slot, not ready) has
  left no controller plugged in and no handle open. A created one is of the kind asked for and has taken one serial number between
  1 and 65534 that was free; whatever states are applied to it, nothing else on the bus
  changes, and dropping it gives back exactly that controller and that handle.
\<close>

theorem virtual_pad_leaves_no_trace:
  assumes "driver_ok dv" "ViGEmGamepad_new_target dv kind resolved w = (r, w1)"
  shows "(\<forall>e. r = Inl e \<longrightarrow> dv_plugged dv w1 = dv_plugged dv w \<and> dv_handles dv w1 = dv_handles dv w) \<and>
    (\<forall>g g' w2 fs. r = Inr g \<and> fold (pad_step dv) fs (g, w1) = (g', w2) \<longrightarrow>
       pad_on_bus dv w (backend_target (vg_backend g)) w2 \<and> vg_kind g = kind \<and> own_target resolved g \<and>
       dv_plugged dv (ViGEmGamepad_drop dv g' w2) = dv_plugged dv w \<and> dv_handles dv (ViGEmGamepad_drop dv g' w2) = dv_handles dv w)"
proof (intro conjI allI impI)
  note c = new_target_cases [OF assms]
  fix e assume "r = Inl e"
  then show "dv_plugged dv w1 = dv_plugged dv w" "dv_handles dv w1 = dv_handles dv w" using c by (simp_all add: same_bus_def)
next
  note c = new_target_cases [OF assms]
  fix g g' w2 fs
  assume a: "r = Inr g \<and> fold (pad_step dv) fs (g, w1) = (g', w2)"
  have st: "same_bus dv w1 w2" "vg_backend g' = vg_backend g" using pad_steps_same [OF assms(1)] a by blast+
  have on: "pad_on_bus dv w (backend_target (vg_backend g)) w2" using c a st(1) pad_on_bus_same by auto
  show "pad_on_bus dv w (backend_target (vg_backend g)) w2" by (rule on)
  show "vg_kind g = kind" "own_target resolved g" using c a by auto
  have "same_bus dv w (ViGEmGamepad_drop dv g' w2)"
    using pad_on_bus_drop [OF assms(1) on] st(2) by (simp add: ViGEmGamepad_drop_def)
  then show "dv_plugged dv (ViGEmGamepad_drop dv g' w2) = dv_plugged dv w" "dv_handles dv (ViGEmGamepad_drop dv g' w2) = dv_handles dv w"
    by (simp_all add: same_bus_def)
qed

text \<open>A bus with two other controllers; its state is the serial numbers and the open handles.\<close>

definition bus_demo :: "(unit, u32 list \<times> nat list) driver" where
  "bus_demo =
     \<lparr>dv_interfaces = \<lambda>_. Inr [Inl 5, Inr ()],
      dv_open = \<lambda>_ w. (let d = Suc (sum_list (snd w)) in (Inr d, (fst w, d # snd w))),
      dv_close = \<lambda>d w. (fst w, filter (\<lambda>h. h \<noteq> d) (snd w)),
      dv_duplicate = \<lambda>d w. (Inr d, w),
      dv_ioctl = \<lambda>d c b w.
        (if c = IOCTL_PLUGIN_TARGET
         then (if serial_field b \<in> set (fst w) then (Inl 1, w) else (Inr b, (serial_field b # fst w, snd w)))
         else if c = IOCTL_UNPLUG_TARGET
         then (if serial_field b \<in> set (fst w) then (Inr b, (filter (\<lambda>s. s \<noteq> serial_field b) (fst w), snd w)) else (Inl 2, w))
         else (Inr b, w)),
      dv_plugged = \<lambda>w. set (fst w), dv_handles = \<lambda>w. set (snd w)\<rparr>"

lemma bus_demo_ok: "driver_ok bus_demo"
proof -
  have fresh: "Suc (sum_list hs) \<notin> set hs" for hs :: "nat list" using member_le_sum_list by fastforce
  have codes: "IOCTL_UNPLUG_TARGET \<noteq> IOCTL_PLUGIN_TARGET" by (simp add: ioctl_defs)
  show ?thesis
    unfolding driver_ok_def
    by (auto simp: bus_demo_def Let_def fresh codes PluginTarget_new_def UnplugTarget_new_def)
qed

theorem virtual_pad_leaves_no_trace_witness:
  "fst (snd (ViGEmGamepad_new_target bus_demo Ds5 ResDs4 ([1, 2], [7]))) = [3, 1, 2] \<and>
   (\<exists>g. fst (ViGEmGamepad_new_target bus_demo Ds5 ResDs4 ([1, 2], [7])) = Inr g \<and> vg_kind g = Ds5 \<and>
      dv_plugged bus_demo (ViGEmGamepad_drop bus_demo g (snd (ViGEmGamepad_new_target bus_demo Ds5 ResDs4 ([1, 2], [7])))) = {1, 2})"
proof -
  have p: "fst (snd (ViGEmGamepad_new_target bus_demo Ds5 ResDs4 ([1, 2], [7]))) = [3, 1, 2]"
    "isl (fst (ViGEmGamepad_new_target bus_demo Ds5 ResDs4 ([1, 2], [7]))) = False" by code_simp+
  then obtain g where g: "fst (ViGEmGamepad_new_target bus_demo Ds5 ResDs4 ([1, 2], [7])) = Inr g" by (cases "fst (ViGEmGamepad_new_target bus_demo Ds5 ResDs4 ([1, 2], [7]))") simp_all
  obtain w1 where n: "ViGEmGamepad_new_target bus_demo Ds5 ResDs4 ([1, 2], [7]) = (Inr g, w1)" by (metis g prod.collapse)
  have "fold (pad_step bus_demo) [] (g, w1) = (g, w1)" by simp
  with virtual_pad_leaves_no_trace [OF bus_demo_ok n]
  have "vg_kind g = Ds5" "dv_plugged bus_demo (ViGEmGamepad_drop bus_demo g w1) = dv_plugged bus_demo ([1, 2], [7])" by blast+
  then show ?thesis using p(1) n by (simp add: bus_demo_def)
qed

text \<open>The rumble thread keeps a copy of the handle, which the pad closes when it is dropped.\<close>

lemma notifier_outlives_handle:
  assumes "driver_ok dv" "ViGEmGamepad_new_target dv kind ResDs4 w = (Inr g, w1)" "rumble_reader g = Some n"
  shows "dn_device n \<notin> dv_handles dv (ViGEmGamepad_drop dv g w1)"
proof -
  have on: "pad_on_bus dv w (backend_target (vg_backend g)) w1" using new_target_cases [OF assms(1,2)] by simp
  have "dn_device n = tg_device (backend_target (vg_backend g))"
    using assms(3) by (auto simp: rumble_reader_def target_notifier_def split: pad_backend.splits)
  then show ?thesis using pad_on_bus_drop [OF assms(1) on] on by (simp add: ViGEmGamepad_drop_def same_bus_def pad_on_bus_def)
qed

text \<open>The separator of the button names is never written.\<close>

lemma button_names_run_together: "xbuttons_debug True 0x0003 = ''UPDOWN''"
  by code_simp

lemma ds4_touch_length [simp]: "length (ds4_touch_bytes DS4Touch_new_unused) = 9"
  by (simp add: ds4_touch_bytes_def DS4Touch_new_unused_def)

text \<open>
  C37: every buffer given to the driver says its own length and the serial number in its first two words, so the driver accepts it; the
  extended DualShock 4 report differs from the basic one in length, by which the driver tells them apart, and carries special button,
  triggers, time stamp and touch data where the device has them; and the time stamp of two reports 5.333 microseconds or
  more apart, but less than 349 ms, differs.
\<close>

theorem vigem_buffers_wellformed:
  "(\<forall>b \<in> {WaitDeviceReady_new n, UnplugTarget_new n, PluginTarget_new n ty i, XUsbSubmitReport_new n (xbox_report st),
       DS4SubmitReport_new n (ds4_legacy_report st), DS4SubmitReportEx_new n (ds4_extended_report st ts),
       Ds4AwaitNotification_new n, XUsbGetUserIndex_new n}. unat (size_field b) = length b \<and> serial_field b = n) \<and>
   length (DS4SubmitReportEx_new n (ds4_extended_report st ts)) = 71 \<and> length (DS4SubmitReport_new n (ds4_legacy_report st)) = 20 \<and>
   (let b = ds4_report_ex_bytes (ds4_extended_report st ts) in
      b ! 6 = (if is_pressed st btn_GUIDE then 1 else 0) \<and> b ! 7 = left_trigger st \<and> b ! 8 = right_trigger st \<and>
      [b ! 9, b ! 10] = le16 ts \<and> b ! 32 = 1 \<and> take 9 b = take 9 (ds4_report_bytes (ds4_legacy_report st))) \<and>
   (vg_ds4_last g = Some t0 \<and> t0 + 5333 \<le> now \<and> now < t0 + 5333 * 65536 \<longrightarrow> vg_ds4_ts (advance_ts now g) \<noteq> vg_ds4_ts g)"
proof (intro conjI)
  obtain btns sp lx ly rx ry where f: "ds4_report_fields st = (btns, sp, lx, ly, rx, ry)" by (metis prod_cases6)
  have sp: "sp = (if is_pressed st btn_GUIDE then 1 else 0)" using f by (auto simp: ds4_report_fields_def Let_def)
  let ?t = "ds4_touch_bytes DS4Touch_new_unused"
  have ex: "ds4_report_ex_bytes (ds4_extended_report st ts) =
      [lx, ly, rx, ry] @ le16 btns @ [sp, left_trigger st, right_trigger st] @ le16 ts @ [0xFF] @ concat (replicate 6 (le16 0)) @
      replicate 5 0 @ [0x1A] @ replicate 2 0 @ [1] @ ?t @ ?t @ ?t @ replicate 3 0"
    by (simp add: ds4_report_ex_bytes_def ds4_extended_report_def f DS4ReportEx_default_def numeral_eq_Suc)
  have old: "ds4_report_bytes (ds4_legacy_report st) = [lx, ly, rx, ry] @ le16 btns @ [sp, left_trigger st, right_trigger st, 0]"
    by (simp add: ds4_report_bytes_def ds4_legacy_report_def f)
  have ex63: "length (ds4_report_ex_bytes (ds4_extended_report st ts)) = 63" by (simp add: ex numeral_eq_Suc)
  obtain b0 b1 where bt: "le16 btns = [b0, b1]" by (simp add: le16_def to_be_bytes16_def)
  obtain t1 t2 where tt: "le16 ts = [t1, t2]" by (simp add: le16_def to_be_bytes16_def)
  show "length (DS4SubmitReportEx_new n (ds4_extended_report st ts)) = 71" by (simp add: DS4SubmitReportEx_new_def ex63)
  show "length (DS4SubmitReport_new n (ds4_legacy_report st)) = 20" by (simp add: DS4SubmitReport_new_def old)
  show "\<forall>b \<in> {WaitDeviceReady_new n, UnplugTarget_new n, PluginTarget_new n ty i, XUsbSubmitReport_new n (xbox_report st),
       DS4SubmitReport_new n (ds4_legacy_report st), DS4SubmitReportEx_new n (ds4_extended_report st ts),
       Ds4AwaitNotification_new n, XUsbGetUserIndex_new n}. unat (size_field b) = length b \<and> serial_field b = n"
    by (simp add: WaitDeviceReady_new_def UnplugTarget_new_def PluginTarget_new_def XUsbSubmitReport_new_def DS4SubmitReport_new_def
        DS4SubmitReportEx_new_def Ds4AwaitNotification_new_def XUsbGetUserIndex_new_def ex63 old x_gamepad_bytes_def)
  show "let b = ds4_report_ex_bytes (ds4_extended_report st ts) in
      b ! 6 = (if is_pressed st btn_GUIDE then 1 else 0) \<and> b ! 7 = left_trigger st \<and> b ! 8 = right_trigger st \<and>
      [b ! 9, b ! 10] = le16 ts \<and> b ! 32 = 1 \<and> take 9 b = take 9 (ds4_report_bytes (ds4_legacy_report st))"
    unfolding ex old by (simp add: Let_def bt tt sp numeral_eq_Suc le16_def to_be_bytes16_def)
  show "vg_ds4_last g = Some t0 \<and> t0 + 5333 \<le> now \<and> now < t0 + 5333 * 65536 \<longrightarrow> vg_ds4_ts (advance_ts now g) \<noteq> vg_ds4_ts g"
  proof
    assume a: "vg_ds4_last g = Some t0 \<and> t0 + 5333 \<le> now \<and> now < t0 + 5333 * 65536"
    let ?k = "(now - t0) div 5333"
    have d: "5333 \<le> now - t0" "now - t0 < 65536 * 5333" using a by auto
    from d(1) have "1 \<le> ?k" by (simp add: Suc_le_eq div_greater_zero_iff)
    moreover from d(2) have "?k < 65536" by (rule less_mult_imp_div_less)
    ultimately have "unat (of_nat ?k :: u16) \<noteq> 0" by (simp add: unat_of_nat)
    then have "(of_nat ?k :: u16) \<noteq> 0" by force
    then show "vg_ds4_ts (advance_ts now g) \<noteq> vg_ds4_ts g" using a by (simp add: advance_ts_def)
  qed
qed

definition pad_demo :: vigem_gamepad where
  "pad_demo = \<lparr>vg_kind = Ds4, vg_backend = BackDs4 (target_new 1 DUALSHOCK4_WIRED), vg_ds4_ts = 0xFFFF, vg_ds4_last = Some 100\<rparr>"

theorem vigem_buffers_wellformed_witness:
  "unat (size_field (WaitDeviceReady_new 7)) = length (WaitDeviceReady_new 7) \<and> vg_ds4_ts (advance_ts 6000 pad_demo) \<noteq> 0xFFFF"
proof -
  note w = vigem_buffers_wellformed [of 7 0 XBOX360_WIRED GamepadState_default 0 pad_demo 100 6000]
  have "unat (size_field (WaitDeviceReady_new 7)) = length (WaitDeviceReady_new 7)" by (rule w [THEN conjunct1, rule_format, THEN conjunct1]) simp
  moreover have "vg_ds4_ts (advance_ts 6000 pad_demo) \<noteq> vg_ds4_ts pad_demo"
    by (rule w [THEN conjunct2, THEN conjunct2, THEN conjunct2, THEN conjunct2, THEN mp]) (simp add: pad_demo_def)
  ultimately show ?thesis by (simp add: pad_demo_def)
qed

end
