(* ===== verification/Pulsar_Capture.thy ===== *)
theory Pulsar_Capture
  imports Pulsar_SinkUnix Pulsar_Uinput
begin

text \<open>
  Capturing a Wayland desktop (\<^verbatim>\<open>capture.rs\<close>): the portal session, the pipeline in this process or in a child, their live controls,
  the helper tasks and the end of a capture. What GStreamer, the portal and the compositor answer is the input; the calls that
  open, start, stop or close something are effects, in order.
\<close>

subsection \<open>Session type and words\<close>

definition is_wayland :: "rstr option \<Rightarrow> rstr option \<Rightarrow> bool" where
  "is_wayland session_type display \<longleftrightarrow>
     (case session_type of Some v \<Rightarrow> eq_ignore_ascii_case v (lit ''wayland'') | None \<Rightarrow> False) \<or>
     (case display of Some v \<Rightarrow> v \<noteq> [] | None \<Rightarrow> False)"

definition ENCODER_NAME :: string where "ENCODER_NAME = ''venc''"

text \<open>\<^verbatim>\<open>split_whitespace\<close> on ASCII text.\<close>

definition is_ascii_space :: "char \<Rightarrow> bool" where
  "is_ascii_space c \<longleftrightarrow> of_char c \<in> {9, 10, 11, 12, 13, 32 :: nat}"

definition split_whitespace :: "string \<Rightarrow> string list" where
  "split_whitespace s = filter (\<lambda>w. w \<noteq> []) (split_on CHR '' '' (map (\<lambda>c. if is_ascii_space c then CHR '' '' else c) s))"

fun join_with :: "'a \<Rightarrow> 'a list list \<Rightarrow> 'a list" where
  "join_with c [] = []"
| "join_with c [x] = x"
| "join_with c (x # xs) = x @ c # join_with c xs"

text \<open>\<open>known\<close> says which factories the GStreamer of this process has.\<close>

definition missing_elements :: "(string \<Rightarrow> bool) \<Rightarrow> string \<Rightarrow> string list" where
  "missing_elements known desc =
     filter (\<lambda>name. \<not> known name)
       (filter (\<lambda>name. CHR ''/'' \<notin> set name)
         (List.map_filter (\<lambda>seg. case split_whitespace seg of w # _ \<Rightarrow> Some w | [] \<Rightarrow> None) (split_on CHR ''!'' desc)))"

subsection \<open>The environment of the system tools\<close>

definition APPIMAGE_REGISTRY_PREFIX :: string where "APPIMAGE_REGISTRY_PREFIX = ''registry.appimage.''"

definition BUNDLED_ENV :: "string list" where
  "BUNDLED_ENV =
     [''GST_PLUGIN_SYSTEM_PATH'', ''GST_PLUGIN_SYSTEM_PATH_1_0'', ''GST_PLUGIN_PATH'', ''GST_PLUGIN_PATH_1_0'',
      ''GST_PLUGIN_SCANNER'', ''GST_PLUGIN_SCANNER_1_0'', ''GST_PTP_HELPER'', ''GST_PTP_HELPER_1_0'',
      ''GST_REGISTRY'', ''GST_REGISTRY_1_0'']"

datatype env_change = EnvRemove string | EnvSet string string

type_synonym env = "string \<Rightarrow> string option"

fun change_env :: "env_change \<Rightarrow> env \<Rightarrow> env" where
  "change_env (EnvRemove k) e = e(k := None)"
| "change_env (EnvSet k v) e = e(k := Some v)"

definition child_env :: "env_change list \<Rightarrow> env \<Rightarrow> env" where
  "child_env cs e = fold change_env cs e"

definition clean_path :: "string \<Rightarrow> env \<Rightarrow> string \<Rightarrow> env_change list" where
  "clean_path appdir e key =
     (case e key of
        None \<Rightarrow> []
      | Some cur \<Rightarrow>
          let kept = filter (\<lambda>d. d \<noteq> [] \<and> \<not> starts_with d appdir) (split_on CHR '':'' cur)
          in if kept = [] then [EnvRemove key] else [EnvSet key (join_with CHR '':'' kept)])"

definition use_system_gst_env :: "env \<Rightarrow> env_change list" where
  "use_system_gst_env e =
     (case e ''APPDIR'' of
        None \<Rightarrow> []
      | Some appdir \<Rightarrow>
          if appdir = [] then []
          else map EnvRemove
                 (filter (\<lambda>k. case e k of
                     Some v \<Rightarrow> contains_str v appdir \<or> contains_str v APPIMAGE_REGISTRY_PREFIX
                   | None \<Rightarrow> False) BUNDLED_ENV) @
               (if e ''GST_REGISTRY_REUSE_PLUGIN_SCANNER'' = Some ''no''
                then [EnvRemove ''GST_REGISTRY_REUSE_PLUGIN_SCANNER''] else []) @
               clean_path appdir e ''LD_LIBRARY_PATH'' @ clean_path appdir e ''PATH'')"

subsection \<open>Effects and errors\<close>

datatype cap_effect =
    OpenSession
  | SelectSources "string option"
  | SetFdFlags i32
  | CloseSession
  | StartPipe nat string
  | NullPipe nat
  | SpawnChild nat "string list" "env_change list"
  | ChildExit nat
  | KillChild nat
  | SleepMs nat
  | SetProperty string string
  | ForceKeyUnit

datatype cap_error =
    PortalFailed
  | NoStream
  | FcntlFailed
  | ParseFailed
  | NotAPipeline
  | StartRefused
  | NotPlaying "string option"
  | SpawnFailed
  | ChildClosed
  | ChildUnreadable
  | StartFailed

subsection \<open>The portal\<close>

record cap_stream =
  st_node :: u32
  st_position :: "(int \<times> int) option"
  st_size :: "(int \<times> int) option"

text \<open>
  What the portal answers: each call may fail, \<^verbatim>\<open>po_fd\<close> is the PipeWire descriptor, \<^verbatim>\<open>po_getfd\<close> and \<^verbatim>\<open>po_setfd\<close> are what \<^verbatim>\<open>fcntl\<close> returns.
\<close>

record portal =
  po_proxy :: bool
  po_session :: bool
  po_select :: bool
  po_start :: bool
  po_response :: bool
  po_streams :: "cap_stream list"
  po_token :: "string option"
  po_fd :: "i32 option"
  po_getfd :: i32
  po_setfd :: i32

definition FD_CLOEXEC :: i32 where "FD_CLOEXEC = 1"

definition clear_cloexec :: "i32 \<Rightarrow> i32 \<Rightarrow> bool \<times> cap_effect list" where
  "clear_cloexec flags set_result =
     (if sint flags < 0 then (False, [])
      else (\<not> sint set_result < 0, [SetFdFlags (flags AND NOT FD_CLOEXEC)]))"

text \<open>A session is closed on drop by a task, so only inside a runtime (\<open>rt\<close>).\<close>

definition close_guard :: "bool \<Rightarrow> cap_effect list" where
  "close_guard rt = (if rt then [CloseSession] else [])"

definition stream_rect :: "cap_stream \<Rightarrow> rect option" where
  "stream_rect s =
     (case (st_position s, st_size s) of
        (Some (x, y), Some (w, h)) \<Rightarrow> if w > 0 \<and> h > 0 then Some \<lparr>rc_x = x, rc_y = y, rc_w = w, rc_h = h\<rparr> else None
      | _ \<Rightarrow> None)"

definition open_portal ::
  "bool \<Rightarrow> string option \<Rightarrow> portal \<Rightarrow> (cap_error + u32 \<times> i32 \<times> string option \<times> rect option) \<times> cap_effect list" where
  "open_portal rt tok po =
     (let failed = (\<lambda>e es. (Inl e, OpenSession # es @ close_guard rt)); select = SelectSources tok in
      if \<not> po_proxy po \<or> \<not> po_session po then (Inl PortalFailed, [])
      else if \<not> po_select po \<or> \<not> po_start po \<or> \<not> po_response po then failed PortalFailed [select]
      else case po_streams po of
        [] \<Rightarrow> failed NoStream [select]
      | s # _ \<Rightarrow>
          (case po_fd po of
             None \<Rightarrow> failed PortalFailed [select]
           | Some fd \<Rightarrow>
               let (ok, es) = clear_cloexec (po_getfd po) (po_setfd po)
               in if ok then (Inr (st_node s, fd, po_token po, stream_rect s), OpenSession # select # es)
                  else failed FcntlFailed (select # es)))"

subsection \<open>The output layout\<close>

record outputs_state =
  os_outputs :: "(u32 \<times> u32) list"
  os_manager :: "(u32 \<times> u32) option"
  os_rects :: "rect list"

datatype registry_event = Global u32 string u32 | OtherRegistryEvent

fun registry_step :: "registry_event \<Rightarrow> outputs_state \<Rightarrow> outputs_state" where
  "registry_step (Global name interface version) s =
     (if interface = ''wl_output'' then s\<lparr>os_outputs := os_outputs s @ [(name, min version 4)]\<rparr>
      else if interface = ''zxdg_output_manager_v1'' then s\<lparr>os_manager := Some (name, min version 3)\<rparr>
      else s)"
| "registry_step OtherRegistryEvent s = s"

datatype output_event = LogicalPosition int int | LogicalSize int int | OtherOutputEvent

fun output_step :: "nat \<times> output_event \<Rightarrow> outputs_state \<Rightarrow> outputs_state" where
  "output_step (idx, ev) s =
     (if length (os_rects s) \<le> idx then s
      else let r = os_rects s ! idx in
        case ev of
          LogicalPosition x y \<Rightarrow> s\<lparr>os_rects := (os_rects s)[idx := r\<lparr>rc_x := x, rc_y := y\<rparr>]\<rparr>
        | LogicalSize w h \<Rightarrow> s\<lparr>os_rects := (os_rects s)[idx := r\<lparr>rc_w := w, rc_h := h\<rparr>]\<rparr>
        | OtherOutputEvent \<Rightarrow> s)"

text \<open>The connection, and the events of the two round trips, each \<^verbatim>\<open>None\<close> when it fails.\<close>

definition layout_bounds :: "bool \<Rightarrow> registry_event list option \<Rightarrow> (nat \<times> output_event) list option \<Rightarrow> rect option" where
  "layout_bounds conn registry events =
     (if \<not> conn then None
      else case registry of
        None \<Rightarrow> None
      | Some rs \<Rightarrow>
          let s = fold registry_step rs \<lparr>os_outputs = [], os_manager = None, os_rects = []\<rparr> in
          (case os_manager s of
             None \<Rightarrow> None
           | Some _ \<Rightarrow>
               let s1 = s\<lparr>os_rects := replicate (length (os_outputs s)) \<lparr>rc_x = 0, rc_y = 0, rc_w = 0, rc_h = 0\<rparr>\<rparr>
               in (case events of None \<Rightarrow> None | Some es \<Rightarrow> output_bounds (os_rects (fold output_step es s1)))))"

subsection \<open>Starting the pipeline\<close>

text \<open>
  One attempt in this process: whether the description parses and is a pipeline, the encoder element (by the properties it has),
  whether the state change is accepted and reaches \<^verbatim>\<open>PLAYING\<close>, and the error on the bus.
\<close>

record gst_attempt =
  ga_parse :: bool
  ga_pipeline :: bool
  ga_venc :: "(string \<Rightarrow> bool) option"
  ga_play :: bool
  ga_playing :: bool
  ga_error :: "string option"

definition run_pipeline :: "nat \<Rightarrow> string \<Rightarrow> gst_attempt \<Rightarrow> (cap_error + (string \<Rightarrow> bool) option) \<times> cap_effect list" where
  "run_pipeline i desc a =
     (if \<not> ga_parse a then (Inl ParseFailed, [])
      else if \<not> ga_pipeline a then (Inl NotAPipeline, [])
      else if \<not> ga_play a then (Inl StartRefused, [StartPipe i desc])
      else if \<not> ga_playing a then (Inl (NotPlaying (ga_error a)), [StartPipe i desc, NullPipe i])
      else (Inr (ga_venc a), [StartPipe i desc]))"

datatype child_answer = SpawnError | StillRunning | HasExited | WaitError

definition run_child :: "nat \<Rightarrow> string \<Rightarrow> env \<Rightarrow> child_answer \<Rightarrow> (cap_error + unit) \<times> cap_effect list" where
  "run_child i desc e a =
     (let spawn = SpawnChild i (''-q'' # split_whitespace desc) (use_system_gst_env e) in
      case a of
        SpawnError \<Rightarrow> (Inl SpawnFailed, [])
      | StillRunning \<Rightarrow> (Inr (), [spawn, SleepMs 1500])
      | HasExited \<Rightarrow> (Inl ChildClosed, [spawn, SleepMs 1500, ChildExit i])
      | WaitError \<Rightarrow> (Inl ChildUnreadable, [spawn, SleepMs 1500]))"

datatype cap_backend = InProcess nat "(string \<Rightarrow> bool) option" | Child nat

record attempt =
  at_gst :: gst_attempt
  at_child :: child_answer

definition start_backend :: "bool \<Rightarrow> string \<Rightarrow> env \<Rightarrow> nat \<Rightarrow> attempt \<Rightarrow> (cap_error + cap_backend) \<times> cap_effect list" where
  "start_backend in_process desc e i a =
     (if in_process
      then case run_pipeline i desc (at_gst a) of (Inl x, es) \<Rightarrow> (Inl x, es) | (Inr venc, es) \<Rightarrow> (Inr (InProcess i venc), es)
      else case run_child i desc e (at_child a) of (Inl x, es) \<Rightarrow> (Inl x, es) | (Inr _, es) \<Rightarrow> (Inr (Child i), es))"

fun start_attempts ::
  "bool \<Rightarrow> string \<Rightarrow> env \<Rightarrow> (nat \<Rightarrow> attempt) \<Rightarrow> nat list \<Rightarrow> cap_error option \<Rightarrow> (cap_error + cap_backend) \<times> cap_effect list" where
  "start_attempts in_process desc e ans [] err = (Inl (case err of Some x \<Rightarrow> x | None \<Rightarrow> StartFailed), [])"
| "start_attempts in_process desc e ans (i # is) err =
     (let pause = (if i > 0 then [SleepMs (300 * i)] else []) in
      case start_backend in_process desc e i (ans i) of
        (Inr b, es) \<Rightarrow> (Inr b, pause @ es)
      | (Inl x, es) \<Rightarrow> (let (r, es') = start_attempts in_process desc e ans is (Some x) in (r, pause @ es @ es')))"

record wayland_capture =
  wc_backend :: cap_backend
  wc_session :: bool
  wc_dead :: bool
  wc_short_gop :: bool
  wc_stopped :: bool
  wc_region :: "pointer_region option"
  wc_bus_task :: bool
  wc_timer_task :: bool

text \<open>The helper tasks need a runtime; they run for a pipeline of this process, the timer only with an encoder element.\<close>

definition spawn_watchers :: "bool \<Rightarrow> bool \<Rightarrow> wayland_capture \<Rightarrow> wayland_capture" where
  "spawn_watchers rt bus c =
     (case wc_backend c of
        InProcess _ venc \<Rightarrow> if rt then c\<lparr>wc_bus_task := bus, wc_timer_task := (venc \<noteq> None)\<rparr> else c
      | Child _ \<Rightarrow> c)"

record start_env =
  sv_init :: bool
  sv_known :: "string \<Rightarrow> bool"
  sv_env :: env
  sv_portal :: portal
  sv_layout :: "rect option"
  sv_attempt :: "nat \<Rightarrow> attempt"
  sv_bus :: bool

definition use_in_process :: "start_env \<Rightarrow> string \<Rightarrow> string \<Rightarrow> u16 \<Rightarrow> bool \<Rightarrow> bool" where
  "use_in_process v fragment ip port system_gst \<longleftrightarrow>
     \<not> system_gst \<and> sv_init v \<and> missing_elements (sv_known v) (wayland_pipeline 0 0 fragment ip port) = []"

definition start_capture ::
  "bool \<Rightarrow> start_env \<Rightarrow> string \<Rightarrow> u16 \<Rightarrow> string \<Rightarrow> string option \<Rightarrow> bool \<Rightarrow>
   (cap_error + wayland_capture \<times> string option) \<times> cap_effect list" where
  "start_capture rt v ip port fragment restore_token system_gst =
     (case open_portal rt restore_token (sv_portal v) of
        (Inl x, es) \<Rightarrow> (Inl x, es)
      | (Inr (node_id, fd, new_tok, sr), es) \<Rightarrow>
          let region = Option.bind sr (\<lambda>r. Option.bind (sv_layout v) (region_in r)) in
          (case start_attempts (use_in_process v fragment ip port system_gst) (wayland_pipeline fd node_id fragment ip port)
               (sv_env v) (sv_attempt v) [0, 1, 2] None of
             (Inl x, es') \<Rightarrow> (Inl x, es @ es' @ close_guard rt)
           | (Inr b, es') \<Rightarrow>
               (Inr (spawn_watchers rt (sv_bus v)
                  \<lparr>wc_backend = b, wc_session = True, wc_dead = False, wc_short_gop = False, wc_stopped = False,
                   wc_region = region, wc_bus_task = False, wc_timer_task = False\<rparr>, new_tok), es @ es')))"

subsection \<open>A running capture\<close>

fun backend_venc :: "cap_backend \<Rightarrow> (string \<Rightarrow> bool) option" where
  "backend_venc (InProcess _ venc) = venc"
| "backend_venc (Child _) = None"

fun shutdown :: "cap_backend \<Rightarrow> cap_effect list" where
  "shutdown (InProcess i _) = [NullPipe i]"
| "shutdown (Child i) = [KillChild i]"

text \<open>\<open>running\<close>: \<^verbatim>\<open>try_wait\<close> of the child says that it still runs.\<close>

definition is_alive :: "bool \<Rightarrow> wayland_capture \<Rightarrow> bool" where
  "is_alive running c = (case wc_backend c of InProcess _ _ \<Rightarrow> \<not> wc_dead c | Child _ \<Rightarrow> running)"

definition is_in_process :: "wayland_capture \<Rightarrow> bool" where
  "is_in_process c = (case wc_backend c of InProcess _ _ \<Rightarrow> True | Child _ \<Rightarrow> False)"

definition saturating_mul32 :: "u32 \<Rightarrow> u32 \<Rightarrow> u32" where
  "saturating_mul32 a b = (if unat a * unat b < 2 ^ 32 then a * b else - 1)"

definition set_bitrate :: "u32 \<Rightarrow> wayland_capture \<Rightarrow> bool \<times> cap_effect list" where
  "set_bitrate kbps c =
     (case backend_venc (wc_backend c) of
        None \<Rightarrow> (False, [])
      | Some has \<Rightarrow>
          if has ''bitrate'' then (True, [SetProperty ''bitrate'' (dec_u (max kbps 1))])
          else if has ''bps'' then (True, [SetProperty ''bps'' (dec_u (saturating_mul32 (max kbps 1) 1000))])
          else (False, []))"

text \<open>\<open>sent\<close>: what \<^verbatim>\<open>send_event\<close> returns.\<close>

definition request_keyframe :: "bool \<Rightarrow> wayland_capture \<Rightarrow> bool \<times> cap_effect list" where
  "request_keyframe sent c = (case backend_venc (wc_backend c) of None \<Rightarrow> (False, []) | Some _ \<Rightarrow> (sent, [ForceKeyUnit]))"

definition set_short_gop :: "bool \<Rightarrow> wayland_capture \<Rightarrow> wayland_capture" where
  "set_short_gop on c = c\<lparr>wc_short_gop := on\<rparr>"

definition capture_region :: "wayland_capture \<Rightarrow> pointer_region option" where
  "capture_region c = wc_region c"

definition drop_capture :: "bool \<Rightarrow> wayland_capture \<Rightarrow> wayland_capture \<times> cap_effect list" where
  "drop_capture rt c =
     (c\<lparr>wc_stopped := True, wc_session := False\<rparr>, shutdown (wc_backend c) @ (if wc_session c then close_guard rt else []))"

text \<open>\<^verbatim>\<open>stop\<close> takes the capture by value, so dropping it follows.\<close>

definition stop_capture :: "bool \<Rightarrow> wayland_capture \<Rightarrow> wayland_capture \<times> cap_effect list" where
  "stop_capture rt c =
     (let es = shutdown (wc_backend c) @ (if wc_session c then [CloseSession] else []);
          (c', es') = drop_capture rt (c\<lparr>wc_stopped := True, wc_session := False\<rparr>)
      in (c', es @ es'))"

datatype bus_msg = BusError | BusEos | BusOther

definition bus_pass :: "bus_msg list \<Rightarrow> wayland_capture \<Rightarrow> wayland_capture" where
  "bus_pass msgs c =
     (if \<not> wc_bus_task c then c
      else if wc_stopped c then c\<lparr>wc_bus_task := False\<rparr>
      else c\<lparr>wc_dead := (wc_dead c \<or> BusError \<in> set msgs \<or> BusEos \<in> set msgs)\<rparr>)"

text \<open>A tick of the timer, and the loop condition after it.\<close>

definition timer_tick :: "wayland_capture \<Rightarrow> wayland_capture \<times> cap_effect list" where
  "timer_tick c =
     (if \<not> wc_timer_task c then (c, [])
      else (c\<lparr>wc_timer_task := (\<not> wc_stopped c)\<rparr>, if wc_short_gop c \<and> \<not> wc_dead c then [ForceKeyUnit] else []))"

datatype cap_op = OpBitrate u32 | OpKeyframe bool | OpShortGop bool | OpBus "bus_msg list" | OpTick

fun cap_step :: "cap_op \<Rightarrow> wayland_capture \<Rightarrow> wayland_capture \<times> cap_effect list" where
  "cap_step (OpBitrate k) c = (c, snd (set_bitrate k c))"
| "cap_step (OpKeyframe sent) c = (c, snd (request_keyframe sent c))"
| "cap_step (OpShortGop on) c = (set_short_gop on c, [])"
| "cap_step (OpBus msgs) c = (bus_pass msgs c, [])"
| "cap_step OpTick c = timer_tick c"

fun cap_run :: "cap_op list \<Rightarrow> wayland_capture \<Rightarrow> wayland_capture \<times> cap_effect list" where
  "cap_run [] c = (c, [])"
| "cap_run (x # xs) c = (let (c1, es) = cap_step x c; (c2, es') = cap_run xs c1 in (c2, es @ es'))"

subsection \<open>The self-check\<close>

record check_env =
  ck_init :: bool
  ck_known :: "string \<Rightarrow> bool"
  ck_parse :: "string \<Rightarrow> bool"
  ck_pipeline :: bool
  ck_bus :: bool
  ck_play :: bool
  ck_msg :: "bus_msg option"

datatype check_error =
  CheckInit | CheckMissing "string list" | CheckParse | CheckNoPipeline | CheckNoBus | CheckStart | CheckTimeout | CheckBusError

definition self_check :: "check_env \<Rightarrow> string \<Rightarrow> (check_error + unit) \<times> cap_effect list" where
  "self_check k fragment =
     (let desc = ''videotestsrc num-buffers=30 ! video/x-raw,width=640,height=360,framerate=30/1 '' @
                 ''! videoconvert ! video/x-raw,format=NV12 ! '' @ fragment @ '' ! fakesink sync=false'';
          missing = missing_elements (ck_known k) (wayland_pipeline 0 0 fragment ''127.0.0.1'' 9)
      in if \<not> ck_init k then (Inl CheckInit, [])
         else if missing \<noteq> [] then (Inl (CheckMissing missing), [])
         else if \<not> ck_parse k desc then (Inl CheckParse, [])
         else if \<not> ck_pipeline k then (Inl CheckNoPipeline, [])
         else if \<not> ck_bus k then (Inl CheckNoBus, [])
         else (if \<not> ck_play k then Inl CheckStart
               else case ck_msg k of None \<Rightarrow> Inl CheckTimeout | Some BusError \<Rightarrow> Inl CheckBusError | Some _ \<Rightarrow> Inr (),
               [StartPipe 0 desc, NullPipe 0]))"

subsection \<open>Nothing is left behind\<close>

text \<open>What runs after a list of effects: pipelines and children, by the attempt that started them.\<close>

fun live_step :: "cap_effect \<Rightarrow> nat set \<Rightarrow> nat set" where
  "live_step (StartPipe i _) S = insert i S"
| "live_step (SpawnChild i _ _) S = insert i S"
| "live_step (NullPipe i) S = S - {i}"
| "live_step (KillChild i) S = S - {i}"
| "live_step (ChildExit i) S = S - {i}"
| "live_step _ S = S"

definition live :: "cap_effect list \<Rightarrow> nat set" where
  "live es = fold live_step es {}"

text \<open>
  The attempts the code gives up on without ending what it started: a pipeline whose state change is refused at once, and a child whose
  state cannot be read.
\<close>

definition abandoned :: "bool \<Rightarrow> attempt \<Rightarrow> bool" where
  "abandoned in_process a \<longleftrightarrow>
     (if in_process then ga_parse (at_gst a) \<and> ga_pipeline (at_gst a) \<and> \<not> ga_play (at_gst a) else at_child a = WaitError)"

fun portal_effect :: "cap_effect \<Rightarrow> bool" where
  "portal_effect OpenSession = True"
| "portal_effect CloseSession = True"
| "portal_effect _ = False"

definition calm :: "cap_effect list \<Rightarrow> bool" where
  "calm es \<longleftrightarrow> \<not> list_ex portal_effect es"

lemma calm_simps [simp]:
  "calm []" "calm (e # es) \<longleftrightarrow> \<not> portal_effect e \<and> calm es" "calm (xs @ ys) \<longleftrightarrow> calm xs \<and> calm ys"
  by (auto simp: calm_def)

lemma calm_count: "calm es \<Longrightarrow> count_list es OpenSession = 0 \<and> count_list es CloseSession = 0"
  by (induction es) auto

lemma calm_takeWhile: "calm es \<Longrightarrow> takeWhile (\<lambda>e. e \<noteq> CloseSession) (es @ ys) = es @ takeWhile (\<lambda>e. e \<noteq> CloseSession) ys"
  by (induction es) auto

lemma shutdown_calm [simp]: "calm (shutdown b)"
  by (cases b) auto

lemma start_backend_live:
  assumes "start_backend ip d e i a = (r, es)" "S \<subseteq> R" "abandoned ip a \<Longrightarrow> i \<in> R"
  shows "calm es \<and> (case r of Inl _ \<Rightarrow> fold live_step es S \<subseteq> R | Inr b \<Rightarrow> fold live_step (es @ shutdown b) S \<subseteq> R)"
proof (cases ip)
  case True
  then show ?thesis using assms by (auto simp: start_backend_def run_pipeline_def abandoned_def split: if_splits)
next
  case False
  then show ?thesis using assms
    by (cases "at_child a") (auto simp: start_backend_def run_child_def abandoned_def Let_def)
qed

lemma start_attempts_live:
  assumes "start_attempts ip d e ans is err = (r, es)" "S \<subseteq> R" "\<And>i. abandoned ip (ans i) \<Longrightarrow> i \<in> R"
  shows "calm es \<and> (case r of Inl _ \<Rightarrow> fold live_step es S \<subseteq> R | Inr b \<Rightarrow> fold live_step (es @ shutdown b) S \<subseteq> R)"
  using assms(1,2)
proof (induction "is" arbitrary: err r es S)
  case (Cons i "is")
  obtain r1 es1 where b: "start_backend ip d e i (ans i) = (r1, es1)" by (cases "start_backend ip d e i (ans i)")
  note B = start_backend_live [OF b Cons.prems(2) assms(3)]
  show ?case
  proof (cases r1)
    case (Inr x)
    then show ?thesis using Cons.prems(1) b B by (auto simp: Let_def)
  next
    case (Inl x)
    obtain r2 es2 where n: "start_attempts ip d e ans is (Some x) = (r2, es2)" by (cases "start_attempts ip d e ans is (Some x)")
    have S: "fold live_step es1 S \<subseteq> R" using B Inl by simp
    have "r = r2" "es = (if i > 0 then [SleepMs (300 * i)] else []) @ es1 @ es2"
      using Cons.prems(1) b Inl n by (auto simp: Let_def)
    then show ?thesis using Cons.IH [OF n S] B by (cases r2) auto
  qed
qed auto

lemma cap_step_calm:
  "cap_step x c = (c', es) \<Longrightarrow> calm es \<and> wc_backend c' = wc_backend c \<and> wc_session c' = wc_session c \<and> fold live_step es S = S"
  by (cases x) (auto simp: set_bitrate_def request_keyframe_def set_short_gop_def bus_pass_def timer_tick_def split: option.splits if_splits)

lemma cap_run_calm:
  "cap_run xs c = (c', es) \<Longrightarrow> calm es \<and> wc_backend c' = wc_backend c \<and> wc_session c' = wc_session c \<and> fold live_step es S = S"
proof (induction xs arbitrary: c c' es)
  case (Cons x xs)
  obtain c1 es1 where s: "cap_step x c = (c1, es1)" by (cases "cap_step x c")
  obtain c2 es2 where n: "cap_run xs c1 = (c2, es2)" by (cases "cap_run xs c1")
  show ?case using Cons.prems Cons.IH [OF n] cap_step_calm [OF s, of S] s n by (auto simp: Let_def)
qed simp

lemma open_portal_trace:
  "open_portal True tok po = (r, es) \<Longrightarrow>
   fold live_step es S = S \<and>
   (case r of Inl _ \<Rightarrow> es = [] \<or> (\<exists>m. es = OpenSession # m @ [CloseSession] \<and> calm m) | Inr _ \<Rightarrow> \<exists>m. es = OpenSession # m \<and> calm m)"
  by (auto simp: open_portal_def clear_cloexec_def close_guard_def Let_def split: if_splits list.splits option.splits)

definition capture_trace ::
  "start_env \<Rightarrow> string \<Rightarrow> u16 \<Rightarrow> string \<Rightarrow> string option \<Rightarrow> bool \<Rightarrow> cap_op list \<Rightarrow> bool \<Rightarrow> cap_effect list" where
  "capture_trace v ip port fragment tok system_gst ops by_stop =
     (case start_capture True v ip port fragment tok system_gst of
        (Inl _, es) \<Rightarrow> es
      | (Inr (c, _), es) \<Rightarrow>
          let (c', es') = cap_run ops c in es @ es' @ snd ((if by_stop then stop_capture else drop_capture) True c'))"

text \<open>Shapes of a whole run: no session at all, or one that is opened first and closed after the last pipeline.\<close>

lemma capture_trace_shape:
  assumes "R = {i. abandoned (use_in_process v fragment ip port sys) (sv_attempt v i)}"
  shows "capture_trace v ip port fragment tok sys ops st = [] \<or>
    (\<exists>m post. capture_trace v ip port fragment tok sys ops st = OpenSession # m @ CloseSession # post \<and> calm m \<and> calm post \<and>
       fold live_step m {} \<subseteq> R \<and> fold live_step (m @ post) {} \<subseteq> R)"
proof -
  let ?ip = "use_in_process v fragment ip port sys"
  obtain r es where p: "open_portal True tok (sv_portal v) = (r, es)" by (cases "open_portal True tok (sv_portal v)")
  note P = open_portal_trace [OF p, of "{}"]
  show ?thesis
  proof (cases r)
    case (Inl x)
    then have "capture_trace v ip port fragment tok sys ops st = es" by (simp add: capture_trace_def start_capture_def p)
    moreover have "es = [] \<or> (\<exists>m. es = OpenSession # m @ [CloseSession] \<and> calm m \<and> fold live_step m {} = {})"
      using P Inl by auto
    ultimately show ?thesis by (metis append_Nil2 calm_simps(1) empty_subsetI)
  next
    case (Inr y)
    obtain node fd tk sr where y: "y = (node, fd, tk, sr)" by (metis prod_cases4)
    obtain m where m: "es = OpenSession # m" "calm m" "fold live_step m {} = {}" using P Inr by auto
    let ?d = "wayland_pipeline fd node fragment ip port"
    obtain r2 es2 where a: "start_attempts ?ip ?d (sv_env v) (sv_attempt v) [0, 1, 2] None = (r2, es2)"
      by (cases "start_attempts ?ip ?d (sv_env v) (sv_attempt v) [0, 1, 2] None")
    have A: "calm es2 \<and> (case r2 of Inl _ \<Rightarrow> fold live_step es2 {} \<subseteq> R | Inr b \<Rightarrow> fold live_step (es2 @ shutdown b) {} \<subseteq> R)"
      using start_attempts_live [OF a, of "{}" R] assms by simp
    show ?thesis
    proof (cases r2)
      case (Inl x)
      then have "capture_trace v ip port fragment tok sys ops st = OpenSession # (m @ es2) @ CloseSession # []"
        using p Inr y a m(1) by (simp add: capture_trace_def start_capture_def close_guard_def)
      moreover have "fold live_step (m @ es2) {} \<subseteq> R" using A Inl m(3) by simp
      ultimately show ?thesis using m(2) A by (metis append_Nil2 calm_simps(1,3))
    next
      case (Inr b)
      obtain c0 where c0: "start_capture True v ip port fragment tok sys = (Inr (c0, tk), es @ es2)"
        and w: "wc_backend c0 = b" "wc_session c0"
        using p \<open>r = Inr y\<close> y a Inr by (auto simp: start_capture_def spawn_watchers_def split: cap_backend.split)
      obtain c1 es3 where u: "cap_run ops c0 = (c1, es3)" by (cases "cap_run ops c0")
      note U = cap_run_calm [OF u]
      obtain post where e: "snd ((if st then stop_capture else drop_capture) True c1) = shutdown b @ CloseSession # post"
        and post: "post = [] \<or> post = shutdown b"
        using U w by (cases st) (auto simp: stop_capture_def drop_capture_def close_guard_def)
      have t: "capture_trace v ip port fragment tok sys ops st = OpenSession # (m @ es2 @ es3 @ shutdown b) @ CloseSession # post"
        using c0 u e m(1) by (simp add: capture_trace_def Let_def)
      have L: "fold live_step (m @ es2 @ es3 @ shutdown b) {} \<subseteq> R" using A Inr U m(3) by simp
      have L': "fold live_step ((m @ es2 @ es3 @ shutdown b) @ post) {} \<subseteq> R"
      proof (cases "post = []")
        case False
        then have pb: "post = shutdown b" using post by simp
        have "fold live_step (shutdown b) X \<subseteq> X" for X by (cases b) auto
        then show ?thesis using L unfolding pb fold_append o_apply by (meson subset_trans)
      qed (use L in simp)
      have "calm (m @ es2 @ es3 @ shutdown b) \<and> calm post" using m(2) A U post by auto
      then show ?thesis using t L L' by blast
    qed
  qed
qed


subsection \<open>The environment of a child\<close>

lemma split_on_nonempty [simp]: "split_on c xs \<noteq> []"
  by (induction xs) (auto split: list.splits)

lemma split_on_parts: "w \<in> set (split_on c xs) \<Longrightarrow> c \<notin> set w"
  by (induction xs arbitrary: w) (auto split: list.splits if_splits)

lemma split_on_plain: "c \<notin> set w \<Longrightarrow> split_on c w = [w]"
  by (induction w) auto

lemma split_on_join: "c \<notin> set w \<Longrightarrow> split_on c (w @ c # xs) = w # split_on c xs"
  by (induction w) auto

lemma split_join_with: "ws \<noteq> [] \<Longrightarrow> \<forall>w \<in> set ws. c \<notin> set w \<Longrightarrow> split_on c (join_with c ws) = ws"
  by (induction c ws rule: join_with.induct) (auto simp: split_on_plain split_on_join)

definition path_dirs :: "env \<Rightarrow> string \<Rightarrow> string list" where
  "path_dirs e k = (case e k of None \<Rightarrow> [] | Some v \<Rightarrow> split_on CHR '':'' v)"

lemma child_env_append [simp]: "child_env (xs @ ys) e = child_env ys (child_env xs e)"
  by (simp add: child_env_def)

lemma child_env_removed: "child_env (map EnvRemove ks) e k = (if k \<in> set ks then None else e k)"
  unfolding child_env_def by (induction ks arbitrary: e) auto

lemma clean_path_env:
  assumes "e key = e0 key"
  shows "child_env (clean_path a e0 key) e k = (if k = key then child_env (clean_path a e0 key) e key else e k)"
    and "path_dirs (child_env (clean_path a e0 key) e) key = filter (\<lambda>d. d \<noteq> [] \<and> \<not> starts_with d a) (path_dirs e0 key)"
proof -
  show "child_env (clean_path a e0 key) e k = (if k = key then child_env (clean_path a e0 key) e key else e k)"
    by (auto simp: clean_path_def child_env_def Let_def split: option.splits)
  show "path_dirs (child_env (clean_path a e0 key) e) key = filter (\<lambda>d. d \<noteq> [] \<and> \<not> starts_with d a) (path_dirs e0 key)"
  proof (cases "e0 key")
    case None
    then show ?thesis using assms by (simp add: clean_path_def child_env_def path_dirs_def)
  next
    case (Some v)
    let ?kept = "filter (\<lambda>d. d \<noteq> [] \<and> \<not> starts_with d a) (split_on CHR '':'' v)"
    have "?kept \<noteq> [] \<Longrightarrow> split_on CHR '':'' (join_with CHR '':'' ?kept) = ?kept"
      by (rule split_join_with) (auto dest: split_on_parts)
    then show ?thesis using Some by (auto simp: clean_path_def child_env_def path_dirs_def Let_def)
  qed
qed


definition appimage_env :: env where
  "appimage_env = [''APPDIR'' \<mapsto> ''/m'', ''GST_PLUGIN_PATH'' \<mapsto> ''/home/u/plugins:/m/lib'', ''PATH'' \<mapsto> ''/m/bin:/usr/bin:/bin'']"


text \<open>A list that has both directories of the user and of the bundle is dropped whole.\<close>

lemma user_plugin_path_lost: "child_env (use_system_gst_env appimage_env) appimage_env ''GST_PLUGIN_PATH'' = None"
  by code_simp

subsection \<open>Live controls\<close>

text \<open>The bitrate an encoder is given is never zero, and the one in bits a second saturates.\<close>

lemma bitrate_never_zero:
  assumes "set_bitrate kbps c = (True, es)"
  shows "\<exists>n > 0. es = [SetProperty ''bitrate'' (dec n)] \<and> n = max 1 (unat kbps) \<or>
     es = [SetProperty ''bps'' (dec n)] \<and> n = min (2 ^ 32 - 1) (1000 * max 1 (unat kbps))"
proof -
  have u: "unat (max kbps 1) = max 1 (unat kbps)" by (auto simp: max_def word_le_nat_alt)
  have s: "unat (saturating_mul32 (max kbps 1) 1000) = min (2 ^ 32 - 1) (1000 * max 1 (unat kbps))"
  proof (cases "unat (max kbps 1) * 1000 < 2 ^ 32")
    case True
    then show ?thesis using u by (simp add: saturating_mul32_def unat_mult_lem [THEN iffD1])
  next
    case False
    have e: "saturating_mul32 (max kbps 1) 1000 = - 1" using False unfolding saturating_mul32_def by (subst if_not_P) simp_all
    have n: "unat (- 1 :: u32) = 2 ^ 32 - 1" by (simp add: unsigned_minus_1_eq_mask mask_eq_exp_minus_1)
    have m: "2 ^ 32 - 1 \<le> 1000 * max 1 (unat kbps)" using False u by simp
    show ?thesis unfolding e n using m by (rule min_absorb1 [symmetric])
  qed
  show ?thesis using assms u s by (auto simp: set_bitrate_def dec_u_def split: option.splits if_splits)
qed

text \<open>After the end of a capture the timer forces at most one more key unit.\<close>

lemma one_key_unit_after_stop:
  "wc_stopped c \<Longrightarrow> length (snd (cap_run (replicate n OpTick) c)) \<le> 1"
proof (induction n)
  case (Suc n)
  have "snd (cap_run (replicate k OpTick) (c\<lparr>wc_timer_task := False\<rparr>)) = []" for k
    by (induction k) (auto simp: timer_tick_def Let_def split: prod.splits)
  then show ?case using Suc by (auto simp: timer_tick_def Let_def split: prod.splits) (metis snd_conv)+
qed simp

text \<open>A child whose state cannot be read and a pipeline whose start is refused are left as they are; a drop outside a runtime leaves the session open.\<close>

lemma unreadable_child_left: "live (snd (run_child i desc e WaitError)) = {i}"
  by (simp add: run_child_def live_def)

lemma refused_pipeline_left:
  "ga_parse a \<Longrightarrow> ga_pipeline a \<Longrightarrow> \<not> ga_play a \<Longrightarrow> live (snd (run_pipeline i desc a)) = {i}"
  by (simp add: run_pipeline_def live_def)

lemma session_left_outside_runtime: "wc_session c \<Longrightarrow> CloseSession \<notin> set (snd (drop_capture False c))"
  by (cases "wc_backend c") (auto simp: drop_capture_def close_guard_def)

end
