(* ===== verification/Pulsar_Lifecycle.thy ===== *)
theory Pulsar_Lifecycle
  imports Pulsar_Paths
begin

text \<open>
  The life of a node (\<^verbatim>\<open>connection/node.rs\<close>): binding its socket, the credentials, the routed LAN address, the receive and
  heartbeat tasks, which hold the node weakly, and the drop that ends them; and the multicast socket of \<^verbatim>\<open>discovery.rs\<close>. A run of the
  receive task is a run of the handlers, so that the invariants of the node hold of it.
\<close>

subsection \<open>Binding\<close>

text \<open>Calls on sockets, in order; each may fail, and \<open>ok\<close> says which ones succeed.\<close>

datatype socket_call =
    NewSocket bool
  | SetRecvBuffer nat
  | SetSendBuffer nat
  | SetReuseAddress
  | SetReusePort
  | SetNonblocking
  | BindSocket "sock_addr option" u16
  | SetMulticastLoop
  | JoinGroup "u8 list" "u8 list"
  | IntoTokio
  | SpawnRecvLoop

text \<open>Calls that must succeed: the first failure ends the sequence.\<close>

fun must_all :: "(socket_call \<Rightarrow> bool) \<Rightarrow> socket_call list \<Rightarrow> bool \<times> socket_call list" where
  "must_all ok [] = (True, [])"
| "must_all ok (c # cs) = (if ok c then (let (r, done_calls) = must_all ok cs in (r, c # done_calls)) else (False, [c]))"

fun port_of :: "sock_addr \<Rightarrow> u16" where
  "port_of (V4 _ _ _ _ p) = p"
| "port_of (V6 _ p) = p"

fun is_ipv4 :: "sock_addr \<Rightarrow> bool" where
  "is_ipv4 (V4 _ _ _ _ _) = True"
| "is_ipv4 (V6 _ _) = False"

definition RelayCreds_none :: relay_creds where
  "RelayCreds_none = \<lparr>cred_key = None, cred_password = None, cred_totp = None\<rparr>"

definition WANT_BUFFER :: nat where "WANT_BUFFER = 4 * 2 ^ 20"

text \<open>The buffer sizes are best effort.\<close>

definition bind_with_identity_creds ::
  "(socket_call \<Rightarrow> bool) \<Rightarrow> node \<Rightarrow> sock_addr \<Rightarrow> sock_addr \<Rightarrow> network_mode \<Rightarrow> string \<Rightarrow> identity \<Rightarrow> relay_creds \<Rightarrow>
   (node \<times> inner) option \<times> socket_call list" where
  "bind_with_identity_creds ok proto own relay mode name ident creds =
     (if \<not> ok (NewSocket (is_ipv4 own)) then (None, [NewSocket (is_ipv4 own)])
      else
        let buffers = [NewSocket (is_ipv4 own), SetRecvBuffer WANT_BUFFER, SetSendBuffer WANT_BUFFER];
            (r, calls) = must_all ok [SetNonblocking, BindSocket (Some own) (port_of own), IntoTokio]
        in if r
           then (Some (proto\<lparr>n_identity := ident, n_relay := relay, n_mode := mode, n_name := name, n_creds := creds\<rparr>, Inner_default),
                 buffers @ calls @ [SpawnRecvLoop])
           else (None, buffers @ calls))"

definition bind_with_identity ::
  "(socket_call \<Rightarrow> bool) \<Rightarrow> node \<Rightarrow> sock_addr \<Rightarrow> sock_addr \<Rightarrow> network_mode \<Rightarrow> string \<Rightarrow> identity \<Rightarrow>
   (node \<times> inner) option \<times> socket_call list" where
  "bind_with_identity ok proto own relay mode name ident = bind_with_identity_creds ok proto own relay mode name ident RelayCreds_none"

text \<open>\<open>fresh\<close> is the identity that \<^verbatim>\<open>Identity::generate\<close> returns.\<close>

definition bind_named ::
  "(socket_call \<Rightarrow> bool) \<Rightarrow> node \<Rightarrow> identity \<Rightarrow> sock_addr \<Rightarrow> sock_addr \<Rightarrow> network_mode \<Rightarrow> string \<Rightarrow>
   (node \<times> inner) option \<times> socket_call list" where
  "bind_named ok proto fresh own relay mode name = bind_with_identity ok proto own relay mode name fresh"

definition bind_node ::
  "(socket_call \<Rightarrow> bool) \<Rightarrow> node \<Rightarrow> identity \<Rightarrow> sock_addr \<Rightarrow> sock_addr \<Rightarrow> network_mode \<Rightarrow> (node \<times> inner) option \<times> socket_call list" where
  "bind_node ok proto fresh own relay mode = bind_named ok proto fresh own relay mode ''Pulsar''"

definition set_relay_creds :: "relay_creds \<Rightarrow> node \<Rightarrow> node" where
  "set_relay_creds creds n = n\<lparr>n_creds := creds\<rparr>"

text \<open>
  \<^verbatim>\<open>lan_candidate\<close>: the own bound address, whether the probe socket binds and connects, and the address the system routes it from.
\<close>

definition lan_route :: "sock_addr option \<Rightarrow> bool \<Rightarrow> bool \<Rightarrow> sock_addr option \<Rightarrow> sock_addr option" where
  "lan_route bound probe_binds probe_connects routed =
     (case bound of
        None \<Rightarrow> None
      | Some own \<Rightarrow>
          if \<not> probe_binds \<or> \<not> probe_connects then None
          else case routed of
            Some (V4 a b c d _) \<Rightarrow> if a \<noteq> 127 then Some (V4 a b c d (port_of own)) else None
          | _ \<Rightarrow> None)"

text \<open>\<^verbatim>\<open>bind_multicast\<close>: joining on the single interfaces is best effort.\<close>

definition bind_multicast ::
  "(socket_call \<Rightarrow> bool) \<Rightarrow> bool \<Rightarrow> u8 list \<Rightarrow> u16 \<Rightarrow> u8 list list \<Rightarrow> bool \<times> socket_call list" where
  "bind_multicast ok unix mc_group port ifaces =
     (let (r, calls) = must_all ok
            ([NewSocket True, SetReuseAddress] @ (if unix then [SetReusePort] else []) @
             [BindSocket None port, SetMulticastLoop, JoinGroup mc_group [0, 0, 0, 0]])
      in if \<not> r then (False, calls)
         else let (r', calls') = must_all ok [SetNonblocking, IntoTokio]
              in (r', calls @ map (JoinGroup mc_group) ifaces @ calls'))"

subsection \<open>The tasks of a node\<close>

datatype io_kind = ConnectionReset | ConnectionRefused | HostUnreachable | NetworkUnreachable | OtherIoKind

text \<open>
  What the receive task meets: a datagram (with what the handler draws and the time), an error of the socket, the drop of the last
  reference elsewhere, and being woken by the stored permit of \<^verbatim>\<open>shutdown\<close>.
\<close>

datatype node_recv_event =
    Received bytes sock_addr local_hs rat
  | RecvFailed io_kind
  | NodeDropped
  | Woken

record node_tasks =
  nt_alive :: bool
  nt_shutdown :: bool
  nt_id_changed :: bool
  nt_version_error :: bool
  nt_receiving :: bool
  nt_slept :: nat

definition tasks_start :: node_tasks where
  "tasks_start = \<lparr>nt_alive = True, nt_shutdown = False, nt_id_changed = False, nt_version_error = False, nt_receiving = True, nt_slept = 0\<rparr>"

text \<open>\<^verbatim>\<open>Drop\<close> stores a permit with every signal.\<close>

definition node_drop :: "node_tasks \<Rightarrow> node_tasks" where
  "node_drop t = t\<lparr>nt_alive := False, nt_shutdown := True, nt_id_changed := True, nt_version_error := True\<rparr>"

definition RECV_BUF :: nat where "RECV_BUF = 65536"

fun node_recv_step :: "node \<Rightarrow> node_recv_event \<Rightarrow> node_tasks \<times> inner \<Rightarrow> (node_tasks \<times> inner) \<times> action list" where
  "node_recv_step n NodeDropped (t, g) = ((if nt_alive t then node_drop t else t, g), [])"
| "node_recv_step n Woken (t, g) =
     ((if nt_receiving t \<and> nt_shutdown t then t\<lparr>nt_receiving := False, nt_shutdown := False\<rparr> else t, g), [])"
| "node_recv_step n (RecvFailed k) (t, g) =
     ((if nt_receiving t \<and> k = OtherIoKind then t\<lparr>nt_slept := nt_slept t + 50\<rparr> else t, g), [])"
| "node_recv_step n (Received buf src fresh now) (t, g) =
     (if \<not> nt_receiving t then ((t, g), [])
      else if \<not> nt_alive t then ((t\<lparr>nt_receiving := False\<rparr>, g), [])
      else let (g', as) = handle_datagram n fresh now (take RECV_BUF buf) src g in ((t, g'), as))"

fun node_recv_loop :: "node \<Rightarrow> node_recv_event list \<Rightarrow> node_tasks \<times> inner \<Rightarrow> (node_tasks \<times> inner) \<times> action list" where
  "node_recv_loop n [] s = (s, [])"
| "node_recv_loop n (e # es) s = (let (s1, as) = node_recv_step n e s; (s2, as') = node_recv_loop n es s1 in (s2, as @ as'))"

text \<open>A tick of the heartbeat task: whether the node is alive, and its state then.\<close>

fun heartbeat_loop :: "(bool \<times> inner) list \<Rightarrow> action list" where
  "heartbeat_loop [] = []"
| "heartbeat_loop ((alive, g) # ticks) = (if alive then heartbeat g @ heartbeat_loop ticks else [])"

subsection \<open>The receive task runs the handlers\<close>

fun heard :: "node_recv_event list \<Rightarrow> node_event list" where
  "heard [] = []"
| "heard (Received buf src fresh now # es) = Datagram (take RECV_BUF buf) src fresh now # heard es"
| "heard (NodeDropped # es) = []"
| "heard (_ # es) = heard es"

fun node_actions :: "node \<Rightarrow> node_event list \<Rightarrow> inner \<Rightarrow> action list" where
  "node_actions n [] g = []"
| "node_actions n (e # es) g = snd (node_step n e g) @ node_actions n es (fst (node_step n e g))"

fun ends_task :: "node_recv_event \<Rightarrow> bool" where
  "ends_task (Received _ _ _ _) = True"
| "ends_task Woken = True"
| "ends_task _ = False"

text \<open>The port stays bound while the node or its receive task lives.\<close>

definition port_bound :: "node_tasks \<Rightarrow> bool" where
  "port_bound t \<longleftrightarrow> nt_alive t \<or> nt_receiving t"

lemma node_recv_loop_dead:
  "\<not> nt_alive t \<Longrightarrow> nt_receiving t \<longrightarrow> nt_shutdown t \<Longrightarrow> node_recv_loop n es (t, g) = ((t', g'), as) \<Longrightarrow>
   g' = g \<and> as = [] \<and> \<not> nt_alive t' \<and> (list_ex ends_task es \<or> \<not> nt_receiving t \<longrightarrow> \<not> nt_receiving t')"
proof (induction es arbitrary: t)
  case (Cons e es)
  define t1 where "t1 = fst (fst (node_recv_step n e (t, g)))"
  have s: "node_recv_step n e (t, g) = ((t1, g), [])" "\<not> nt_alive t1" "nt_receiving t1 \<longrightarrow> nt_shutdown t1"
    and r: "ends_task e \<or> \<not> nt_receiving t \<longrightarrow> \<not> nt_receiving t1"
    using Cons.prems(1,2) by (cases e; auto simp: t1_def)+
  obtain t2 as2 where n: "node_recv_loop n es (t1, g) = ((t2, g'), as2)"
    using Cons.prems(3) s(1) by (cases "node_recv_loop n es (t1, g)") auto
  then show ?case using Cons.IH [OF s(2,3)] Cons.prems(3) s(1) r by auto
qed auto

lemma node_recv_loop_alive:
  "nt_alive t \<Longrightarrow> nt_receiving t \<Longrightarrow> \<not> nt_shutdown t \<Longrightarrow> node_recv_loop n es (t, g) = ((t', g'), as) \<Longrightarrow>
   g' = node_run n (heard es) g \<and> as = node_actions n (heard es) g \<and> nt_alive t' = (NodeDropped \<notin> set es) \<and>
   (NodeDropped \<notin> set es \<longrightarrow> nt_receiving t') \<and>
   (list_ex ends_task (dropWhile (\<lambda>e. e \<noteq> NodeDropped) es) \<longrightarrow> \<not> nt_receiving t')"
proof (induction es arbitrary: t g as)
  case (Cons e es)
  obtain s1 a1 where s: "node_recv_step n e (t, g) = (s1, a1)" by (cases "node_recv_step n e (t, g)")
  obtain a2 where n: "node_recv_loop n es s1 = ((t', g'), a2)" "as = a1 @ a2"
    using Cons.prems(4) s by (cases "node_recv_loop n es s1") auto
  show ?case
  proof (cases e)
    case (Received buf src fresh now)
    obtain g1 where h: "handle_datagram n fresh now (take RECV_BUF buf) src g = (g1, a1)" "s1 = (t, g1)"
      using s Received Cons.prems(1,2) by (auto split: prod.splits)
    show ?thesis using Cons.IH [OF Cons.prems(1-3), of g1 a2] n h Received by auto
  next
    case (RecvFailed k)
    then obtain t1 where t1: "s1 = (t1, g)" "nt_alive t1" "nt_receiving t1" "\<not> nt_shutdown t1" "a1 = []"
      using s Cons.prems(1-3) by (auto split: if_splits)
    then show ?thesis using Cons.IH [of t1 g a2] n RecvFailed by auto
  next
    case Woken
    then have "s1 = (t, g)" "a1 = []" using s Cons.prems(1-3) by auto
    then show ?thesis using Cons.IH [OF Cons.prems(1-3), of g a2] n Woken by auto
  next
    case NodeDropped
    then have d: "s1 = (node_drop t, g)" "a1 = []" using s Cons.prems(1) by auto
    then show ?thesis
      using node_recv_loop_dead [of "node_drop t" n es g t' g' a2] n NodeDropped by (auto simp: node_drop_def)
  qed
qed simp


definition demo_drop :: "node_recv_event list" where
  "demo_drop =
     [RecvFailed ConnectionReset, Received [1] (V4 203 0 113 1 21116) \<lparr>hs_salt = [], hs_eph = [], hs_eph_public = []\<rparr> 0, NodeDropped,
      Received [1] (V4 203 0 113 1 21116) \<lparr>hs_salt = [], hs_eph = [], hs_eph_public = []\<rparr> 0]"


text \<open>A bound node starts from the empty state with the given settings, and a failed bind starts no task.\<close>

lemma bind_starts_clean:
  "bind_with_identity_creds ok proto own relay mode name ident creds = (r, calls) \<Longrightarrow>
   (r = None) = (SpawnRecvLoop \<notin> set calls) \<and>
   (\<forall>n g. r = Some (n, g) \<longrightarrow> g = Inner_default \<and> n_relay n = relay \<and> n_identity n = ident \<and> n_creds n = creds \<and> n_lib n = n_lib proto)"
  by (auto simp: bind_with_identity_creds_def Let_def split: if_splits)

text \<open>The LAN candidate is never a loopback address and carries the port of the node's own socket.\<close>

lemma lan_route_usable:
  "lan_route (Some own) pb pc routed = Some a \<Longrightarrow> is_ipv4 a \<and> port_of a = port_of own \<and> (\<forall>b c d p. a \<noteq> V4 127 b c d p)"
  by (auto simp: lan_route_def split: option.splits sock_addr.splits if_splits)

end
