(* ===== verification/Spec2Isabelle.thy ===== *)
theory Spec2Isabelle
  imports Pulsar_RsFec Pulsar_Galois16 Pulsar_Controller Pulsar_Paths Pulsar_Serve Pulsar_Config Pulsar_Media
    Pulsar_Uinput Pulsar_WinInput Pulsar_MacInput Pulsar_Touchpad Pulsar_SinkUnix Pulsar_Loopback Pulsar_Vigem
    Pulsar_Capture Pulsar_Lifecycle
begin

text \<open>
  Verification library of pulsar-core, the engine of a remote-desktop and game-streaming application, and of the
  Reed-Solomon crate it carries. Paths below are relative to \<^verbatim>\<open>crates/pulsar-core/src/\<close> unless they name a crate.

  \<^bold>\<open>The program and its parts.\<close> A host shares its screen with a client. Both run a \<^emph>\<open>node\<close>
  (\<^verbatim>\<open>connection/\<close>), which registers with a relay, meets its peer through it and sets up an end-to-end encrypted
  session (\<^verbatim>\<open>crypto.rs\<close>) over a direct path or the relay. Over the session the client proves a password
  (\<^verbatim>\<open>service/pake.rs\<close>, \<^verbatim>\<open>service/auth.rs\<close>), sends requests and input (\<^verbatim>\<open>service/client.rs\<close>, \<^verbatim>\<open>service/wire.rs\<close>,
  \<^verbatim>\<open>input/\<close>), and the host serves it (\<^verbatim>\<open>service/host.rs\<close>). Video and audio come from command lines that
  \<^verbatim>\<open>pipeline/\<close> and \<^verbatim>\<open>audio/command.rs\<close> build; the RTP packets travel as tagged session payloads with forward
  error correction (\<^verbatim>\<open>service/media.rs\<close>) on the codec of \<^verbatim>\<open>crates/reed-solomon-erasure\<close>. The client measures the
  path and the adaptive controller (\<^verbatim>\<open>adapt/\<close>) chooses bitrate, resolution, parity and recovery mode. Nodes on one
  LAN find each other by beacons (\<^verbatim>\<open>discovery.rs\<close>); settings persist in \<^verbatim>\<open>config.rs\<close>.

  \<^bold>\<open>Theories and what they model.\<close>
  \<^item> \<open>Pulsar_Prelude\<close>: words, byte strings, big-endian conversions, wrapping counters, shared lemmas.
  \<^item> \<open>Pulsar_Float\<close>: \<^verbatim>\<open>f32\<close> and \<^verbatim>\<open>f64\<close> as rationals rounded to nearest even after every operation; the locale \<open>rounding\<close>
    is what the controller uses of it, interpreted for both widths.
  \<^item> \<open>Pulsar_Ladder\<close>, \<open>Pulsar_Delay\<close>, \<open>Pulsar_Controller\<close>: \<^verbatim>\<open>adapt/ladder.rs\<close>, \<^verbatim>\<open>fec_policy.rs\<close>, \<^verbatim>\<open>delay.rs\<close>,
    \<^verbatim>\<open>controller.rs\<close>. Lemmas: well-formed ladders, the estimator's invariant, rates and operating points within their
    limits over every run, no climb on a queued link, decisions that describe exactly the change of state.
  \<^item> \<open>Pulsar_Replay\<close>, \<open>Pulsar_Crypto\<close>, \<open>Pulsar_Handshake\<close>: the replay window of \<^verbatim>\<open>crypto.rs\<close> as a refinement of a set
    with a floor (locale \<open>replay_filter\<close>), key derivation, sealing and opening, and the handshake blob of
    \<^verbatim>\<open>connection.rs\<close>.
  \<^item> \<open>Pulsar_Connection\<close>, \<open>Pulsar_Pinning\<close>, \<open>Pulsar_Paths\<close>: node state and handlers of \<^verbatim>\<open>connection/\<close>; invariants by
    induction over runs (pinned identities, nonces, data path, relay-only), the registration loop and the path
    choice. This theory composes them: two nodes that meet through a relay.
  \<^item> \<open>Pulsar_Lifecycle\<close>: binding a node, its receive and heartbeat tasks and its drop, as a refinement of the runs above.
  \<^item> \<open>Pulsar_Input\<close>: controller types and reports of \<^verbatim>\<open>input/types.rs\<close>.
  \<^item> \<open>Pulsar_Held\<close>, \<open>Pulsar_Uinput\<close>, \<open>Pulsar_WinInput\<close>, \<open>Pulsar_MacInput\<close>: the injectors \<^verbatim>\<open>input/uinput.rs\<close> (with the monitor
    region of \<^verbatim>\<open>capture.rs\<close>), \<^verbatim>\<open>windows.rs\<close>, \<^verbatim>\<open>window_win.rs\<close> and \<^verbatim>\<open>macos.rs\<close> as state and emitted events. The locale
    \<open>injector\<close> is their contract (the recorded held set is what the events make of the host, a flush empties it),
    interpreted on all four. Lemmas: the pointer stays on its monitor, only declared events are sent, nothing stays
    pressed, modifier masks are sound.
  \<^item> \<open>Pulsar_Touchpad\<close>: the reader of \<^verbatim>\<open>input/touchpad_linux.rs\<close>; a closed capture gate lets nothing through.
  \<^item> \<open>Pulsar_Redirect\<close>, \<open>Pulsar_Sink\<close>, \<open>Pulsar_SinkUnix\<close>: redirecting the host's sound with a marker file on Windows (\<^verbatim>\<open>audio/sink.rs\<close>),
    Linux and macOS (\<^verbatim>\<open>sink_unix.rs\<close>), and the mute fallback (\<^verbatim>\<open>mute.rs\<close>). The state keeps the trail of what the machine
    looked like after every step, so that a run may crash anywhere; the locale \<open>redirect\<close> (what arming, ending and recovering owe the
    original output) is interpreted on all three systems and gives that the next start restores it.
  \<^item> \<open>Pulsar_Loopback\<close>: \<^verbatim>\<open>audio/loopback.rs\<close>, \<^verbatim>\<open>process_loopback.rs\<close>; the stream keeps its format, the re-open budget.
  \<^item> \<open>Pulsar_Capture\<close>: \<^verbatim>\<open>capture.rs\<close>, the portal session with the pipeline or child it feeds, its controls and helper tasks, as state and
    effects; a capture leaves nothing behind, and system tools see the system's environment.
  \<^item> \<open>Pulsar_Vigem\<close>: \<^verbatim>\<open>crates/vigem-client\<close>, \<^verbatim>\<open>input/vigem.rs\<close> and the choice of the virtual pad in \<^verbatim>\<open>input/types.rs\<close>; request
    buffers, and a pad that leaves nothing on the bus.
  \<^item> \<open>Pulsar_Wire\<close>, \<open>Pulsar_Auth\<close>, \<open>Pulsar_Serve\<close>: messages, PAKE, access handshake, client requests, serve loop.
  \<^item> \<open>Pulsar_Fec\<close>, \<open>Pulsar_RsFec\<close>: framing, XOR parity and Reed-Solomon parity of video frames, encoder to decoder.
  \<^item> \<open>Pulsar_Galois\<close>, \<open>Pulsar_Galois16\<close>, \<open>Pulsar_Matrix\<close>, \<open>Pulsar_Erasure\<close>, \<open>Pulsar_Reed_Solomon\<close>: the crate. The table
    generators of \<^verbatim>\<open>build.rs\<close> and \<^verbatim>\<open>galois_8.rs\<close> and the Euclidean division of \<^verbatim>\<open>galois_16.rs\<close> are shown to satisfy the
    locale \<open>field_impl\<close>, an embedding into a field type; matrices, elimination and the codec are verified once
    inside that locale and hold for both fields.
  \<^item> \<open>Pulsar_Pipeline\<close>, \<open>Pulsar_Media\<close>: the command builders of \<^verbatim>\<open>pipeline/\<close> and \<^verbatim>\<open>audio/command.rs\<close>; the software
    video baseline of \<^verbatim>\<open>media.rs\<close>.
  \<^item> \<open>Pulsar_Discovery\<close>, \<open>Pulsar_Config\<close>: LAN discovery and the persistent configuration.

  \<^bold>\<open>Conventions.\<close> A struct is a record, an enum a datatype, a method a function from the state to the new state and
  its effects; a handler's sends, notifications and callbacks are a list of effects. An \<^verbatim>\<open>async\<close> function is split at its
  waits, and what it receives is an argument. Panics and errors are values. Integers keep their width or write the wrap-around of a release build
  out. Time, randomness and the operating system's answers are arguments.

  \<^bold>\<open>Parameters.\<close> Code outside the repository is an argument with its documented behaviour as a named hypothesis, each shown satisfiable by a
  witness: \<open>crypto_lib\<close> (X25519, SHA-256, ChaCha20-Poly1305), \<open>pake_lib\<close> (SPAKE2, HMAC), the codec fields of
  \<open>node\<close> (the protocol crate), the JSON codecs, \<open>lru_lib\<close> (the LRU cache, \<open>lru_ok\<close>), the iteration order of \<^verbatim>\<open>HashMap\<close> (\<open>iter_ok\<close>),
  Core Audio (\<open>core_audio\<close>), \<^verbatim>\<open>pactl\<close> (\<open>pulse\<close>), \<^verbatim>\<open>SwitchAudioSource\<close> (\<open>switcher\<close>) and the ViGEm driver (\<open>driver\<close>).

  \<^bold>\<open>Bounds and termination.\<close> Every loop is a total function. The registration loop is unrolled to its own bound of four
  messages, a reply is awaited over \<^verbatim>\<open>MAX_WAIT_MSGS\<close> frames, the replay window has 1024 bits, a Reed-Solomon block 200
  data shards and the decoder 32 blocks, the peer table 256 entries: all constants of the source. Loops driven by the outside world run over the list of
  their inputs, of any length. No fuel is used.

  \<^bold>\<open>Not modelled.\<close> Code that only calls the operating system: the objects of GStreamer and of the
  portal behind \<^verbatim>\<open>capture.rs\<close>, the COM vtables of \<^verbatim>\<open>audio/sink.rs\<close>, overlapped events, and the notification request
  of \<^verbatim>\<open>vigem-client\<close> behind a feature the build leaves off. The SIMD variant of the slice loops is C code that this build
  leaves off. Floats are finite: infinities, NaN and the sign of zero do not occur in the model.
\<close>

subsection \<open>Rendezvous, end to end\<close>

text \<open>The static part of two nodes that can meet: one crypto library, identities from their secrets.\<close>

definition can_meet :: "crypto_lib \<Rightarrow> node \<Rightarrow> bytes \<Rightarrow> node \<Rightarrow> bytes \<Rightarrow> bool" where
  "can_meet lib nA a nB b \<longleftrightarrow> n_lib nA = lib \<and> n_lib nB = lib \<and> n_identity nA = from_secret_bytes lib a \<and>
     n_identity nB = from_secret_bytes lib b"

text \<open>The state of both nodes after a connect of A has gone through the relay to B and back.\<close>

definition rendezvous :: "node \<Rightarrow> node \<Rightarrow> local_hs \<Rightarrow> local_hs \<Rightarrow> session_id \<Rightarrow> device_id \<Rightarrow> bytes option \<Rightarrow> sock_addr \<Rightarrow>
    sock_addr \<Rightarrow> nat \<Rightarrow> inner \<Rightarrow> inner \<Rightarrow> (result \<times> result) option" where
  "rendezvous nA nB hsA hsB s tgt pin addrA addrB cp gA gB =
     (case connect_begin nA hsA s tgt pin gA of
        (Inr [ToRelay (Connect idA _ _ _ hello)], gA) \<Rightarrow>
          (case on_incoming nB hsB idA addrA s hello gB of
             (gB, acts) \<Rightarrow>
               (case acts of
                  ToRelay (Accept _ _ _ answer) # _ \<Rightarrow> Some (on_peer_found nA addrB s answer cp gA, (gB, acts))
                | _ \<Rightarrow> None))
      | _ \<Rightarrow> None)"

lemma rendezvous_sessions:
  assumes "can_meet lib nA a nB b"
    and "hsA = LocalHs_new lib saltA ea" "hsB = LocalHs_new lib saltB eb"
    and len: "list_all (\<lambda>x. length x = 32) [pubkey lib a, pubkey lib b, pubkey lib ea, pubkey lib eb, saltA, saltB]"
    and reg: "self_id gA = Some iA" "token gA = Some tA" "self_id gB = Some iB" "token gB = Some tB"
    and fresh: "sessions gB s = None" "expected_pubkey gA s = None" "pin = None \<or> pin = Some (pubkey lib b)"
  obtains gA' actsA gB' actsB stA stB where
    "rendezvous nA nB hsA hsB s tgt pin addrA addrB cp gA gB = Some ((gA', actsA), (gB', actsB))"
    "NotifyPeerFound s \<in> set actsA" "EmitIncoming s iA Relay \<in> set actsB"
    "sessions gA' s = Some stA" "sessions gB' s = Some stB" "pending_rate_cap gA' s = Some cp"
    "self_id gA' = Some iA" "token gA' = Some tA" "self_id gB' = Some iB" "token gB' = Some tB"
    "stA = new_session addrB (wire_candidate (lan_candidate nB)) (session_hs lib (from_secret_bytes lib a) (pubkey lib b)
        Initiator s hsA \<lparr>ph_salt = saltB, ph_eph = Some (pubkey lib eb)\<rparr>) (pubkey lib b) Relay False hsA (our_caps nB) False False"
    "stB = new_session addrA (wire_candidate (lan_candidate nA)) (session_hs lib (from_secret_bytes lib b) (pubkey lib a)
        Responder s hsB \<lparr>ph_salt = saltA, ph_eph = Some (pubkey lib ea)\<rparr>) (pubkey lib a) Relay True hsB (our_caps nA) False True"
proof -
  have blobs: "split_handshake (Node_handshake_blob nA hsA) = Some (pubkey lib a, \<lparr>ph_salt = saltA, ph_eph = Some (pubkey lib ea)\<rparr>, our_caps nA)"
    "split_handshake (Node_handshake_blob nB hsB) = Some (pubkey lib b, \<lparr>ph_salt = saltB, ph_eph = Some (pubkey lib eb)\<rparr>, our_caps nB)"
    using assms(1) len
    by (simp_all add: Node_handshake_blob_def can_meet_def from_secret_bytes_def assms(2,3) LocalHs_new_def split_blob)
  have lans: "parse_lan_candidate (Node_handshake_blob nA hsA) = wire_candidate (lan_candidate nA)"
    "parse_lan_candidate (Node_handshake_blob nB hsB) = wire_candidate (lan_candidate nB)"
    unfolding Node_handshake_blob_def handshake_blob_def using assms(1) len
    by (auto intro!: parse_lan_slot simp: can_meet_def from_secret_bytes_def assms(2,3) LocalHs_new_def)
  have lib: "n_lib nA = lib" "n_lib nB = lib" "n_identity nA = from_secret_bytes lib a" "n_identity nB = from_secret_bytes lib b"
    using assms(1) by (simp_all add: can_meet_def)
  have notviol: "\<not> pin_violated s (pubkey lib b) (snd (connect_begin nA hsA s tgt pin gA))"
    using reg fresh by (auto simp: connect_begin_def pin_violated_def)
  show ?thesis
    by (rule that) ((use notviol in \<open>simp add: rendezvous_def connect_begin_def on_incoming_def on_peer_found_def
      reg fresh blobs lans lib Let_def\<close>)+)
qed



end
